(* ===== verification/Prelude.thy ===== *)
theory Prelude
  imports Main "HOL-Library.Word"
begin

text \<open>
  Shared vocabulary of the development: the C integer types of
  \<^verbatim>\<open>kernel/include/common.h\<close> as machine words, the result type of kernel code that
  can stop the machine (\<^verbatim>\<open>PANIC\<close> or a spin that never ends), the control and
  status registers of the single hart, and the generic facts on words, page arithmetic
  and lists that the component theories share.
\<close>

unbundle bit_operations_syntax

named_theorems kernel_simps \<open>unfolding rules of the small kernel helpers\<close>
named_theorems page_arith \<open>page arithmetic carried from words to naturals\<close>

section \<open>C integer types\<close>

type_synonym u8 = "8 word"
type_synonym u16 = "16 word"
type_synonym u32 = "32 word"
type_synonym u64 = "64 word"

text \<open>Physical memory is a total map from byte addresses to bytes.\<close>

type_synonym mem = "u32 \<Rightarrow> u8"

abbreviation PAGE_SIZE :: u32 where
  "PAGE_SIZE \<equiv> 4096"

section \<open>Code that may stop the machine\<close>

text \<open>
  \<^verbatim>\<open>PANIC\<close> prints a message and loops on \<^verbatim>\<open>wfi\<close>: nothing after it runs. A spinlock
  taken twice on the only hart spins for ever. A fault on user memory that cannot be served
  ends the current process inside the trap handler, so the interrupted kernel code never goes
  on. A fault that is not the business of a user process, such as a null pointer followed by the
  kernel, shuts the machine down. An access outside an array, a division by zero or a shift by the
  width of the type has no defined result. All are values of the type \<open>halt\<close>; a function that can reach one of them returns
  \<open>halt + result\<close>.
\<close>

datatype halt =
    Panic_overlap
  | Panic_double_free
  | Panic_unavailable
  | Panic_zero_pages
  | Panic_unaligned
  | Panic_out_of_range
  | Panic_inc_ref
  | Panic_dec_ref
  | Spin_forever
  | Fault_killed
  | Unexpected_trap
  | Fatal_boot_error
  | Undefined_behaviour

type_synonym 'a kres = "halt + 'a"

definition kbind :: "'a kres \<Rightarrow> ('a \<Rightarrow> 'b kres) \<Rightarrow> 'b kres" where
  "kbind m f = (case m of Inl e \<Rightarrow> Inl e | Inr x \<Rightarrow> f x)"

lemma kbind_simps [simp]:
  "kbind (Inl e) f = Inl e"
  "kbind (Inr x) f = f x"
  by (simp_all add: kbind_def)

lemma kbind_Inr_iff: "kbind m f = Inr y \<longleftrightarrow> (\<exists>x. m = Inr x \<and> f x = Inr y)"
  by (cases m) auto

lemma kbind_assoc: "kbind (kbind m f) g = kbind m (\<lambda>x. kbind (f x) g)"
  by (cases m) auto

lemma kbind_cong [fundef_cong]:
  "m = m' \<Longrightarrow> (\<And>x. m' = Inr x \<Longrightarrow> f x = g x) \<Longrightarrow> kbind m f = kbind m' g"
  by (cases m') auto

section \<open>Control and status registers of the hart\<close>

record hart =
  sstatus :: u32
  sie :: u32
  stvec :: u32
  sscratch :: u32
  satp :: u32
  sepc :: u32
  scause :: u32
  stval :: u32

definition hart_boot :: hart where
  "hart_boot = \<lparr>sstatus = 0, sie = 0, stvec = 0, sscratch = 0, satp = 0, sepc = 0, scause = 0, stval = 0\<rparr>"

section \<open>Page arithmetic\<close>

text \<open>The page frame number of an address, as a natural number.\<close>

definition pfn :: "u32 \<Rightarrow> nat" where
  "pfn a = unat a div 4096"

definition is_page_aligned :: "u32 \<Rightarrow> bool" where
  "is_page_aligned a \<longleftrightarrow> a AND (PAGE_SIZE - 1) = 0"

definition page_floor :: "u32 \<Rightarrow> u32" where
  "page_floor v = v AND NOT (PAGE_SIZE - 1)"

definition page_ceil :: "u32 \<Rightarrow> u32" where
  "page_ceil v = (v + PAGE_SIZE - 1) AND NOT (PAGE_SIZE - 1)"

lemma mask_12: "(4095 :: u32) = mask 12" and mask_10: "(1023 :: u32) = mask 10"
  and mask_22: "(4194303 :: u32) = mask 22" and mask_2: "(3 :: u32) = mask 2"
  by (simp_all add: mask_eq_exp_minus_1)

lemma unat_take_bit: "unat (take_bit n (a :: 'a::len word)) = unat a mod 2 ^ n"
  by (metis take_bit_eq_mod unsigned_take_bit_eq)

lemma unat_push_bit: "unat (push_bit n (a :: 'a::len word)) = (unat a * 2 ^ n) mod 2 ^ LENGTH('a)"
  by (metis push_bit_eq_mult take_bit_eq_mod unsigned_push_bit_eq)

lemma unat_drop_bit: "unat (drop_bit n (a :: 'a::len word)) = unat a div 2 ^ n"
  by (metis drop_bit_eq_div unat_drop_bit_eq)

lemma unat_and_mask: "unat ((a :: 'a::len word) AND mask n) = unat a mod 2 ^ n"
  by (simp add: unat_take_bit flip: take_bit_eq_mask)

lemma and_not_mask_eq: "(a :: 'a::len word) AND NOT (mask n) = a - take_bit n a"
proof -
  have "a AND NOT (mask n) = push_bit n (drop_bit n a)"
    by (rule bit_word_eqI) (auto simp: bit_simps)
  also have "\<dots> = a - take_bit n a"
    by (metis add_diff_cancel_right' bits_ident)
  finally show ?thesis .
qed

lemma unat_and_not_mask: "unat ((a :: 'a::len word) AND NOT (mask n)) = unat a - unat a mod 2 ^ n"
proof -
  have "unat (take_bit n a) = unat a mod 2 ^ n"
    by (rule unat_take_bit)
  moreover from this have "take_bit n a \<le> a"
    by (simp add: word_le_nat_alt)
  ultimately show ?thesis
    by (simp add: and_not_mask_eq unat_sub)
qed

lemma unat_lt_2p32: "unat (a :: u32) < 4294967296"
  proof -
  have "unat a < 2 ^ LENGTH(32)"
    by (rule unsigned_less)
  then show ?thesis
    by simp
qed

lemma word_step_less:
  assumes "\<not> off + d < off" and "d \<noteq> 0"
  shows "unat off < unat (off + d :: 'a::len word)"
proof -
  have "off \<noteq> off + d"
    using assms(2) by simp
  then show ?thesis
    using assms(1) by (simp add: word_less_nat_alt order.strict_iff_order word_unat_eq_iff not_less)
qed

lemma no_wrap_iff: "(a :: u32) \<le> a + b \<longleftrightarrow> unat a + unat b < 4294967296"
proof (cases "unat a + unat b < 4294967296")
  case True
  then show ?thesis
    by (simp add: word_le_nat_alt unat_word_ariths)
next
  case False
  then have "unat (a + b) = unat a + unat b - 4294967296"
    using unat_lt_2p32 [of a] unat_lt_2p32 [of b] by (simp add: unat_word_ariths mod_if)
  then have "unat (a + b) < unat a"
    using False unat_lt_2p32 [of b] by linarith
  then show ?thesis
    using False by (simp add: word_le_nat_alt)
qed

lemma unat_add_no_wrap: "unat (a :: u32) + unat b < 4294967296 \<Longrightarrow> unat (a + b) = unat a + unat b"
  by (simp add: unat_word_ariths)

lemma is_page_aligned_iff [page_arith]: "is_page_aligned a \<longleftrightarrow> unat a mod 4096 = 0"
proof -
  have "a AND (PAGE_SIZE - 1) = 0 \<longleftrightarrow> unat (a AND mask 12) = 0"
    by (simp add: mask_12 unat_eq_zero)
  then show ?thesis
    by (simp add: is_page_aligned_def unat_and_mask)
qed

lemma unat_page_floor [page_arith]: "unat (page_floor a) = unat a div 4096 * 4096"
proof -
  have "page_floor a = a AND NOT (mask 12)"
    by (simp add: page_floor_def mask_12)
  then have "unat (page_floor a) = unat a - unat a mod 4096"
    by (simp add: unat_and_not_mask)
  then show ?thesis
    by (simp add: minus_mod_eq_div_mult)
qed

lemma page_ceil_floor: "page_ceil a = page_floor (a + 4095)"
  by (simp add: page_ceil_def page_floor_def add.commute)

lemma unat_page_ceil [page_arith]:
  "unat a + 4095 < 4294967296 \<Longrightarrow> unat (page_ceil a) = (unat a + 4095) div 4096 * 4096"
  by (simp add: page_ceil_floor unat_page_floor unat_word_ariths)

lemma page_ceil_overflow:
  "4294967296 \<le> unat a + 4095 \<Longrightarrow> page_ceil a = 0"
proof -
  assume *: "4294967296 \<le> unat a + 4095"
  have "unat (a + 4095) = (unat a + 4095) mod 4294967296"
    by (simp add: unat_word_ariths)
  with * unat_lt_2p32 [of a] have "unat (a + 4095) = unat a + 4095 - 4294967296"
    by (simp add: mod_if)
  with unat_lt_2p32 [of a] have "unat (page_ceil a) = 0"
    by (simp add: page_ceil_floor unat_page_floor)
  then show ?thesis
    by (simp add: unat_eq_zero)
qed

lemma page_floor_aligned [simp]: "is_page_aligned (page_floor a)"
  by (simp add: page_arith)

lemma page_ceil_aligned [simp]: "is_page_aligned (page_ceil a)"
  by (simp add: page_ceil_floor)

lemma page_ceil_id: "is_page_aligned a \<Longrightarrow> page_ceil a = a"
proof -
  assume "is_page_aligned a"
  then obtain q where q: "unat a = 4096 * q"
    by (auto simp: page_arith)
  then have lt: "unat a + 4095 < 4294967296"
    using unat_lt_2p32 [of a] by simp
  have "unat (page_ceil a) = unat a"
    unfolding unat_page_ceil [OF lt] unfolding q by simp
  then show ?thesis
    by (simp add: word_unat_eq_iff)
qed

lemma pfn_aligned: "unat a mod 4096 = 0 \<Longrightarrow> unat a = pfn a * 4096"
  using div_mult_mod_eq [of "unat a" 4096] by (simp add: pfn_def)

lemma pfn_less: "pfn a < 1048576"
  using unat_lt_2p32 [of a] by (simp add: pfn_def)

section \<open>First index that satisfies a test\<close>

text \<open>
  Most table scans of the kernel are a \<^verbatim>\<open>for\<close> loop that returns the first index passing
  a test and \<^verbatim>\<open>-1\<close> when there is none.
\<close>

fun first_idx :: "('a \<Rightarrow> bool) \<Rightarrow> 'a list \<Rightarrow> nat option" where
  "first_idx P [] = None"
| "first_idx P (x # xs) = (if P x then Some 0 else map_option Suc (first_idx P xs))"

lemma first_idx_Some_iff:
  "first_idx P xs = Some i \<longleftrightarrow> i < length xs \<and> P (xs ! i) \<and> (\<forall>j<i. \<not> P (xs ! j))"
proof (induction xs arbitrary: i)
  case Nil
  show ?case by simp
next
  case (Cons x xs)
  show ?case
    by (cases i) (auto simp: Cons.IH All_less_Suc2)
qed

lemma first_idx_None_iff: "first_idx P xs = None \<longleftrightarrow> (\<forall>x\<in>set xs. \<not> P x)"
  by (induction xs) auto

lemma first_idx_SomeD:
  "first_idx P xs = Some i \<Longrightarrow> i < length xs"
  "first_idx P xs = Some i \<Longrightarrow> P (xs ! i)"
  by (simp_all add: first_idx_Some_iff)

end
