(* ===== verification/Lock.thy ===== *)
theory Lock
  imports Prelude
begin

text \<open>
  The spinlocks of \<^verbatim>\<open>kernel/include/kernel/lock.h\<close> on the only hart: taking a held lock
  never returns, and the interrupt-saving variants save \<^verbatim>\<open>sstatus\<close>, clear its SIE bit and
  restore the saved value.
\<close>

definition spin_lock :: "u32 \<Rightarrow> u32 kres" where
  "spin_lock v = (if v \<noteq> 0 then Inl Spin_forever else Inr 1)"

definition spin_unlock :: "u32 \<Rightarrow> u32" where
  "spin_unlock v = 0"

definition spin_lock_irqsave :: "u32 \<Rightarrow> hart \<Rightarrow> (u32 \<times> u32 \<times> hart) kres" where
  "spin_lock_irqsave v h =
     (let s = sstatus h; h = h\<lparr>sstatus := sstatus h AND NOT 2\<rparr>
      in kbind (spin_lock v) (\<lambda>v. Inr (s, v, h)))"

definition spin_unlock_irqrestore :: "u32 \<Rightarrow> u32 \<Rightarrow> hart \<Rightarrow> u32 \<times> hart" where
  "spin_unlock_irqrestore v s h = (spin_unlock v, h\<lparr>sstatus := s\<rparr>)"

lemmas lock_defs = spin_lock_def spin_unlock_def spin_lock_irqsave_def spin_unlock_irqrestore_def

lemma spin_lock_free [simp]: "spin_lock 0 = Inr 1"
  by (simp add: spin_lock_def)

lemma irqsave_free [simp]:
  "spin_lock_irqsave 0 h = Inr (sstatus h, 1, h\<lparr>sstatus := sstatus h AND NOT 2\<rparr>)"
  by (simp add: spin_lock_irqsave_def Let_def)

lemma irqrestore_saved [simp]:
  "spin_unlock_irqrestore v (sstatus h) (h\<lparr>sstatus := x\<rparr>) = (0, h)"
  by (simp add: spin_unlock_irqrestore_def spin_unlock_def)

end
