(* ===== verification/Ring.thy ===== *)
theory Ring
  imports Prelude
begin

text \<open>
  The circular buffers of the kernel (kernel events, keyboard characters, shell input,
  window events) keep an array, a head and a tail index; one slot stays empty, so a buffer
  of \<open>cap\<close> slots holds \<open>cap - 1\<close> elements. This theory relates such a buffer to the list
  of its elements and states the queue contract as locales: \<open>fifo\<close> for what every queue
  promises, \<open>fifo_reject\<close> for queues that refuse an element when full and \<open>fifo_drop\<close> for
  those that drop their oldest element.
\<close>

definition ring_count :: "nat \<Rightarrow> nat \<Rightarrow> nat \<Rightarrow> nat" where
  "ring_count cap h t = (t + cap - h) mod cap"

definition ring_list :: "nat \<Rightarrow> 'a list \<Rightarrow> nat \<Rightarrow> nat \<Rightarrow> 'a list" where
  "ring_list cap buf h t = map (\<lambda>i. buf ! ((h + i) mod cap)) [0..<ring_count cap h t]"

definition ring_ok :: "nat \<Rightarrow> 'a list \<Rightarrow> nat \<Rightarrow> nat \<Rightarrow> bool" where
  "ring_ok cap buf h t \<longleftrightarrow> 1 < cap \<and> length buf = cap \<and> h < cap \<and> t < cap"

lemma ring_count_cases:
  assumes "h < cap" and "t < cap"
  shows "ring_count cap h t = (if h \<le> t then t - h else t + cap - h)"
proof (cases "h \<le> t")
  case True
  then have eq: "t + cap - h = t - h + cap"
    by simp
  have "(t - h + cap) mod cap = t - h"
    using assms by simp
  then have "ring_count cap h t = t - h"
    unfolding ring_count_def by (subst eq)
  with True show ?thesis
    by simp
next
  case False
  with assms show ?thesis
    by (simp add: ring_count_def)
qed

lemma Suc_mod_cases: "t < cap \<Longrightarrow> Suc t mod cap = (if Suc t = cap then 0 else Suc t)"
  by auto

lemma ring_count_push:
  assumes "h < cap" and "t < cap" and "Suc t mod cap \<noteq> h"
  shows "ring_count cap h (Suc t mod cap) = Suc (ring_count cap h t)"
proof -
  have "Suc t mod cap < cap"
    using assms(2) by simp
  then show ?thesis
    using assms by (auto simp: ring_count_cases Suc_mod_cases split: if_splits)
qed

lemma ring_count_pop:
  assumes "h < cap" and "t < cap" and "h \<noteq> t"
  shows "ring_count cap h t = Suc (ring_count cap (Suc h mod cap) t)"
proof -
  have "Suc h mod cap < cap"
    using assms(1) by simp
  then show ?thesis
    using assms by (auto simp: ring_count_cases Suc_mod_cases split: if_splits)
qed

lemma ring_count_full:
  assumes "h < cap" and "t < cap" and "1 < cap"
  shows "Suc t mod cap = h \<longleftrightarrow> ring_count cap h t = cap - 1"
  using assms by (auto simp: ring_count_cases Suc_mod_cases split: if_splits)

lemma ring_count_empty:
  assumes "h < cap" and "t < cap"
  shows "ring_count cap h t = 0 \<longleftrightarrow> h = t"
  using assms by (auto simp: ring_count_cases split: if_splits)

lemma ring_count_less: "h < cap \<Longrightarrow> ring_count cap h t < cap"
  by (simp add: ring_count_def)

lemma length_ring_list [simp]: "length (ring_list cap buf h t) = ring_count cap h t"
  by (simp add: ring_list_def)

lemma ring_list_Nil_iff:
  assumes "ring_ok cap buf h t"
  shows "ring_list cap buf h t = [] \<longleftrightarrow> h = t"
proof -
  have "ring_list cap buf h t = [] \<longleftrightarrow> ring_count cap h t = 0"
    by (metis length_0_conv length_ring_list)
  then show ?thesis
    using assms by (simp add: ring_count_empty ring_ok_def)
qed

lemma ring_slot_tail: "h < cap \<Longrightarrow> t < cap \<Longrightarrow> (h + ring_count cap h t) mod cap = t"
  by (auto simp: ring_count_cases)

lemma ring_slot_inj:
  assumes "h < cap" and "t < cap" and "i < ring_count cap h t"
  shows "(h + i) mod cap \<noteq> t"
proof
  assume *: "(h + i) mod cap = t"
  have lt: "ring_count cap h t < cap"
    using assms(1) by (rule ring_count_less)
  have "(h + i) mod cap = (if h + i < cap then h + i else h + i - cap)"
    using assms lt by (auto simp: mod_if)
  with * assms lt show False
    by (auto simp: ring_count_cases split: if_splits)
qed

text \<open>Writing the slot at the tail and advancing the tail appends to the list.\<close>

lemma ring_list_push:
  assumes "ring_ok cap buf h t" and "Suc t mod cap \<noteq> h"
  shows "ring_list cap (buf[t := x]) h (Suc t mod cap) = ring_list cap buf h t @ [x]"
proof -
  have ok: "h < cap" "t < cap" "length buf = cap"
    using assms(1) by (simp_all add: ring_ok_def)
  have "ring_list cap (buf[t := x]) h (Suc t mod cap) =
      map (\<lambda>i. buf[t := x] ! ((h + i) mod cap)) [0..<ring_count cap h t] @
      [buf[t := x] ! ((h + ring_count cap h t) mod cap)]"
    using assms(2) ok by (simp add: ring_list_def ring_count_push)
  also have "map (\<lambda>i. buf[t := x] ! ((h + i) mod cap)) [0..<ring_count cap h t] =
      ring_list cap buf h t"
    using ok by (auto simp: ring_list_def dest: ring_slot_inj)
  finally show ?thesis
    using ok by (simp add: ring_slot_tail)
qed

text \<open>Advancing the head of a non-empty buffer removes the oldest element.\<close>

lemma ring_list_pop:
  assumes "ring_ok cap buf h t" and "h \<noteq> t"
  shows "ring_list cap buf h t = buf ! h # ring_list cap buf (Suc h mod cap) t"
proof -
  have ok: "h < cap" "t < cap"
    using assms(1) by (simp_all add: ring_ok_def)
  have shift: "(h + Suc i) mod cap = (Suc h mod cap + i) mod cap" for i
    by (simp add: mod_simps)
  have "ring_list cap buf h t =
      buf ! (h mod cap) # map (\<lambda>i. buf ! ((h + Suc i) mod cap)) [0..<ring_count cap (Suc h mod cap) t]"
    using ok assms(2)
    by (simp add: ring_list_def ring_count_pop upt_conv_Cons map_Suc_upt [symmetric] del: upt_Suc)
  then show ?thesis
    using ok by (simp only: shift ring_list_def) simp
qed

lemma ring_ok_push: "ring_ok cap buf h t \<Longrightarrow> ring_ok cap (buf[t := x]) h (Suc t mod cap)"
  by (simp add: ring_ok_def)

lemma ring_ok_pop: "ring_ok cap buf h t \<Longrightarrow> ring_ok cap buf (Suc h mod cap) t"
  by (simp add: ring_ok_def)

text \<open>A full buffer that first advances its head and then takes one more element.\<close>

lemma ring_list_push_full:
  assumes "ring_ok cap buf h t" and "Suc t mod cap = h"
  shows "ring_list cap (buf[t := x]) (Suc h mod cap) (Suc t mod cap) =
    tl (ring_list cap buf h t) @ [x]"
proof -
  have ok: "h < cap" "t < cap" "1 < cap"
    using assms(1) by (simp_all add: ring_ok_def)
  have ht: "h \<noteq> t"
    using assms(2) ok by (auto simp: Suc_mod_cases split: if_splits)
  have ne: "Suc t mod cap \<noteq> Suc h mod cap"
    using assms(2) ok by (auto simp: Suc_mod_cases split: if_splits)
  have "ring_list cap (buf[t := x]) (Suc h mod cap) (Suc t mod cap) =
      ring_list cap buf (Suc h mod cap) t @ [x]"
    using ne by (intro ring_list_push ring_ok_pop [OF assms(1)]) simp
  then show ?thesis
    by (simp add: ring_list_pop [OF assms(1) ht])
qed

section \<open>The queue contract\<close>

locale fifo =
  fixes cap :: nat
    and inv :: "'q \<Rightarrow> bool"
    and elems :: "'q \<Rightarrow> 'a list"
    and push :: "'b \<Rightarrow> 'q \<Rightarrow> 'q"
    and pop :: "'q \<Rightarrow> ('a \<times> 'q) option"
    and val :: "'b \<Rightarrow> 'a"
  assumes inv_push: "inv q \<Longrightarrow> inv (push x q)"
    and inv_pop: "inv q \<Longrightarrow> pop q = Some (y, q') \<Longrightarrow> inv q'"
    and elems_bound: "inv q \<Longrightarrow> length (elems q) \<le> cap"
    and push_room: "inv q \<Longrightarrow> length (elems q) < cap \<Longrightarrow> elems (push x q) = elems q @ [val x]"
    and pop_empty: "inv q \<Longrightarrow> elems q = [] \<Longrightarrow> pop q = None"
    and pop_head: "inv q \<Longrightarrow> elems q = y # ys \<Longrightarrow> \<exists>q'. pop q = Some (y, q') \<and> elems q' = ys"
begin

text \<open>Taking up to \<open>n\<close> elements from the queue, in order.\<close>

fun drain :: "nat \<Rightarrow> 'q \<Rightarrow> 'a list" where
  "drain 0 q = []"
| "drain (Suc n) q = (case pop q of None \<Rightarrow> [] | Some (x, q') \<Rightarrow> x # drain n q')"

lemma inv_fold_push: "inv q \<Longrightarrow> inv (fold push xs q)"
  by (induction xs arbitrary: q) (auto intro: inv_push)

lemma elems_fold_push:
  "inv q \<Longrightarrow> length (elems q) + length xs \<le> cap \<Longrightarrow>
    elems (fold push xs q) = elems q @ map val xs"
  by (induction xs arbitrary: q) (auto simp: push_room inv_push)

lemma drain_elems: "inv q \<Longrightarrow> drain n q = take n (elems q)"
proof (induction n arbitrary: q)
  case 0
  show ?case by simp
next
  case (Suc n)
  show ?case
  proof (cases "elems q")
    case Nil
    with Suc.prems show ?thesis
      by (simp add: pop_empty)
  next
    case (Cons x xs)
    then obtain q' where "pop q = Some (x, q')" "elems q' = xs"
      using pop_head Suc.prems by blast
    with Suc Cons show ?thesis
      using inv_pop by simp
  qed
qed

text \<open>First in, first out: what was pushed while there was room comes out in order.\<close>

lemma drain_fold_push:
  assumes "inv q" and "elems q = []" and "length xs \<le> cap"
  shows "drain (length xs) (fold push xs q) = map val xs"
  using assms by (simp add: drain_elems inv_fold_push elems_fold_push)

end

locale fifo_reject = fifo +
  assumes push_full: "inv q \<Longrightarrow> length (elems q) = cap \<Longrightarrow> elems (push x q) = elems q"
begin

lemma elems_fold_push_reject:
  "inv q \<Longrightarrow> elems (fold push xs q) = take cap (elems q @ map val xs)"
proof (induction xs arbitrary: q)
  case Nil
  then show ?case
    using elems_bound by simp
next
  case (Cons x xs)
  show ?case
  proof (cases "length (elems q) < cap")
    case True
    with Cons show ?thesis
      by (simp add: inv_push push_room take_Cons')
  next
    case False
    then have "length (elems q) = cap"
      using elems_bound [OF Cons.prems] by simp
    with Cons show ?thesis
      by (simp add: inv_push push_full)
  qed
qed

end

locale fifo_drop = fifo +
  assumes cap_pos: "0 < cap"
    and push_full_drop:
      "inv q \<Longrightarrow> length (elems q) = cap \<Longrightarrow> elems (push x q) = tl (elems q) @ [val x]"
begin

text \<open>A queue that drops its oldest element always holds the most recent \<open>cap\<close> ones.\<close>

lemma elems_fold_push_drop:
  "inv q \<Longrightarrow> elems (fold push xs q) =
    drop (length (elems q) + length xs - cap) (elems q @ map val xs)"
proof (induction xs arbitrary: q)
  case Nil
  then show ?case
    using elems_bound by simp
next
  case (Cons x xs)
  show ?case
  proof (cases "length (elems q) < cap")
    case True
    with Cons show ?thesis
      by (simp add: inv_push push_room del: drop_append)
  next
    case False
    then have full: "length (elems q) = cap"
      using elems_bound [OF Cons.prems] by simp
    then obtain y ys where "elems q = y # ys"
      using cap_pos by (cases "elems q") auto
    with Cons full show ?thesis
      by (auto simp: inv_push push_full_drop simp del: drop_append)
  qed
qed

end

end
