(* ===== verification/Event.thy ===== *)
theory Event
  imports Lock Ring
begin

text \<open>
  The kernel event queue of \<^verbatim>\<open>kernel/event/event.c\<close>: interrupt handlers push input and
  GPU events, the shell and \<^verbatim>\<open>sys_get_event\<close> pop them. A full queue drops its oldest event.
  Every event carries a 64-bit sequence number. The queue is an interpretation of the
  \<open>fifo_drop\<close> contract.
\<close>

section \<open>Model\<close>

abbreviation KEVENT_Q_CAP :: u32 where
  "KEVENT_Q_CAP \<equiv> 128"

abbreviation KEVENT_TYPE_INPUT :: u32 where
  "KEVENT_TYPE_INPUT \<equiv> 1"

abbreviation KEVENT_TYPE_GPU_IRQ :: u32 where
  "KEVENT_TYPE_GPU_IRQ \<equiv> 2"

record k_event =
  ev_type :: u32
  ev_a :: u32
  ev_b :: u32
  ev_c :: u32
  ev_d :: u32
  ev_seq :: u64

definition zero_event :: k_event where
  "zero_event = \<lparr>ev_type = 0, ev_a = 0, ev_b = 0, ev_c = 0, ev_d = 0, ev_seq = 0\<rparr>"

record kevents =
  g_q :: "k_event list"
  g_head :: u32
  g_tail :: u32
  g_seq :: u64
  g_lock :: u32

definition kevent_init :: "kevents \<Rightarrow> kevents kres" where
  "kevent_init k =
     kbind (spin_lock (g_lock k)) (\<lambda>lk.
       let k = k\<lparr>g_lock := lk, g_q := replicate 128 zero_event, g_head := 0, g_tail := 0, g_seq := 0\<rparr>
       in Inr (k\<lparr>g_lock := spin_unlock (g_lock k)\<rparr>))"

definition kevent_push :: "u32 \<Rightarrow> u32 \<Rightarrow> u32 \<Rightarrow> u32 \<Rightarrow> u32 \<Rightarrow> hart \<Rightarrow> kevents \<Rightarrow> (int \<times> hart \<times> kevents) kres" where
  "kevent_push ty a b c d h k =
     kbind (spin_lock_irqsave (g_lock k) h) (\<lambda>(s, lk, h).
       let k = k\<lparr>g_lock := lk\<rparr>;
           nxt = (g_tail k + 1) mod KEVENT_Q_CAP;
           k = (if nxt = g_head k then k\<lparr>g_head := (g_head k + 1) mod KEVENT_Q_CAP\<rparr> else k);
           e = \<lparr>ev_type = ty, ev_a = a, ev_b = b, ev_c = c, ev_d = d, ev_seq = g_seq k\<rparr>;
           k = k\<lparr>g_q := (g_q k)[unat (g_tail k) := e], g_seq := g_seq k + 1\<rparr>;
           k = k\<lparr>g_tail := nxt\<rparr>;
           (lk, h) = spin_unlock_irqrestore (g_lock k) s h
       in Inr (0, h, k\<lparr>g_lock := lk\<rparr>))"

text \<open>
  The out pointer of \<^verbatim>\<open>kevent_pop\<close> is modelled by whether it is non-null; the event
  stored through it is the second component of the result.
\<close>

definition kevent_pop :: "bool \<Rightarrow> hart \<Rightarrow> kevents \<Rightarrow> (int \<times> k_event option \<times> hart \<times> kevents) kres" where
  "kevent_pop out h k =
     (if \<not> out then Inr (-1, None, h, k)
      else kbind (spin_lock_irqsave (g_lock k) h) (\<lambda>(s, lk, h).
        let k = k\<lparr>g_lock := lk\<rparr> in
        if g_head k = g_tail k then
          let (lk, h) = spin_unlock_irqrestore (g_lock k) s h
          in Inr (0, None, h, k\<lparr>g_lock := lk\<rparr>)
        else
          let e = g_q k ! unat (g_head k);
              k = k\<lparr>g_head := (g_head k + 1) mod KEVENT_Q_CAP\<rparr>;
              (lk, h) = spin_unlock_irqrestore (g_lock k) s h
          in Inr (1, Some e, h, k\<lparr>g_lock := lk\<rparr>)))"

section \<open>Invariant and abstraction\<close>

text \<open>The queued events, oldest first, and their payloads.\<close>

definition kevent_list :: "kevents \<Rightarrow> k_event list" where
  "kevent_list k = ring_list 128 (g_q k) (unat (g_head k)) (unat (g_tail k))"

type_synonym payload = "u32 \<times> u32 \<times> u32 \<times> u32 \<times> u32"

definition payload_of :: "k_event \<Rightarrow> payload" where
  "payload_of e = (ev_type e, ev_a e, ev_b e, ev_c e, ev_d e)"

definition kevent_payloads :: "kevents \<Rightarrow> payload list" where
  "kevent_payloads k = map payload_of (kevent_list k)"

text \<open>
  Well-formed queue: the lock is free, the indices are in range, and the queued events
  carry the sequence numbers just before \<^verbatim>\<open>g_seq\<close>, without a gap.
\<close>

definition kevents_ok :: "kevents \<Rightarrow> bool" where
  "kevents_ok k \<longleftrightarrow> g_lock k = 0 \<and>
     ring_ok 128 (g_q k) (unat (g_head k)) (unat (g_tail k)) \<and>
     map ev_seq (kevent_list k) =
       map (\<lambda>i. g_seq k - of_nat (length (kevent_list k) - i)) [0..<length (kevent_list k)]"

lemma unat_next_slot: "unat t < 128 \<Longrightarrow> unat ((t + 1) mod (128 :: u32)) = Suc (unat t) mod 128"
  by (simp add: unat_mod_distrib unat_word_ariths)

lemma next_slot_eq_iff:
  "unat t < 128 \<Longrightarrow> ((t + 1) mod (128 :: u32) = h) \<longleftrightarrow> Suc (unat t) mod 128 = unat h"
  by (simp add: word_unat_eq_iff unat_next_slot)

lemma seq_map_append:
  "map (\<lambda>i. s - of_nat (n - i)) [0..<n] @ [s] =
    map (\<lambda>i. (s + 1 :: u64) - of_nat (Suc n - i)) [0..<Suc n]"
  by (simp add: Suc_diff_le)

lemma seq_map_tl:
  "tl (map (\<lambda>i. (s :: u64) - of_nat (Suc n - i)) [0..<Suc n]) = map (\<lambda>i. s - of_nat (n - i)) [0..<n]"
  by (simp add: map_tl [symmetric] map_Suc_upt [symmetric] del: upt_Suc)

text \<open>The sequence-number part of the invariant, as a property of the list alone.\<close>

definition seqs_before :: "u64 \<Rightarrow> k_event list \<Rightarrow> bool" where
  "seqs_before s es \<longleftrightarrow> map ev_seq es = map (\<lambda>i. s - of_nat (length es - i)) [0..<length es]"

lemma kevents_ok_iff:
  "kevents_ok k \<longleftrightarrow> g_lock k = 0 \<and> ring_ok 128 (g_q k) (unat (g_head k)) (unat (g_tail k)) \<and>
     seqs_before (g_seq k) (kevent_list k)"
  by (simp add: kevents_ok_def seqs_before_def)

lemma seqs_before_append:
  "seqs_before s es \<Longrightarrow> ev_seq e = s \<Longrightarrow> seqs_before (s + 1) (es @ [e])"
  using seq_map_append [of s "length es"] by (simp add: seqs_before_def)

lemma seqs_before_tl: "seqs_before s es \<Longrightarrow> seqs_before s (tl es)"
proof (cases es)
  case (Cons e es')
  assume "seqs_before s es"
  then have "tl (map ev_seq es) = tl (map (\<lambda>i. s - of_nat (Suc (length es') - i)) [0..<Suc (length es')])"
    by (simp only: seqs_before_def Cons list.size add_0_right add_Suc_right)
  then show ?thesis
    by (simp only: seq_map_tl) (simp add: seqs_before_def Cons)
qed simp

lemma ring_full_iff:
  assumes "ring_ok 128 q (unat h) (unat t)"
  shows "(t + 1) mod (128 :: u32) = h \<longleftrightarrow> length (ring_list 128 q (unat h) (unat t)) = 127"
  using assms by (simp add: next_slot_eq_iff ring_count_full ring_ok_def)

text \<open>What one push does to the list of events, full or not.\<close>

definition pushed_event :: "payload \<Rightarrow> u64 \<Rightarrow> k_event" where
  "pushed_event p s = (case p of (ty, a, b, c, d) \<Rightarrow>
     \<lparr>ev_type = ty, ev_a = a, ev_b = b, ev_c = c, ev_d = d, ev_seq = s\<rparr>)"

lemma pushed_event_simps [simp]:
  "ev_seq (pushed_event p s) = s" "payload_of (pushed_event p s) = p"
  by (cases p; simp add: pushed_event_def payload_of_def)+

lemma kevent_push_step:
  assumes "kevents_ok k"
  obtains k' where "kevent_push ty a b c d h k = Inr (0, h, k')"
    and "kevent_list k' =
      (if length (kevent_list k) < 127 then kevent_list k else tl (kevent_list k)) @
      [pushed_event (ty, a, b, c, d) (g_seq k)]"
    and "g_seq k' = g_seq k + 1" and "kevents_ok k'"
proof -
  let ?e = "pushed_event (ty, a, b, c, d) (g_seq k)"
  let ?nxt = "(g_tail k + 1) mod 128"
  define k' where "k' = k\<lparr>g_head := (if ?nxt = g_head k then (g_head k + 1) mod 128 else g_head k),
    g_q := (g_q k)[unat (g_tail k) := ?e], g_seq := g_seq k + 1, g_tail := ?nxt, g_lock := 0\<rparr>"
  have ok: "ring_ok 128 (g_q k) (unat (g_head k)) (unat (g_tail k))" "g_lock k = 0"
    and sq: "seqs_before (g_seq k) (kevent_list k)"
    using assms by (simp_all add: kevents_ok_iff)
  then have lt: "unat (g_head k) < 128" "unat (g_tail k) < 128"
    by (simp_all add: ring_ok_def)
  have run: "kevent_push ty a b c d h k = Inr (0, h, k')"
    using ok by (simp add: kevent_push_def k'_def Let_def pushed_event_def)
  have le: "length (kevent_list k) \<le> 127"
    using ring_count_less [of "unat (g_head k)" 128 "unat (g_tail k)"] lt
    by (simp add: kevent_list_def)
  have ring: "ring_ok 128 (g_q k') (unat (g_head k')) (unat (g_tail k'))"
    using ok lt by (auto simp: k'_def unat_next_slot ring_ok_def)
  have list: "kevent_list k' =
      (if length (kevent_list k) < 127 then kevent_list k else tl (kevent_list k)) @ [?e]"
  proof (cases "?nxt = g_head k")
    case True
    then have "length (kevent_list k) = 127" "Suc (unat (g_tail k)) mod 128 = unat (g_head k)"
      using ring_full_iff [OF ok(1)] lt by (auto simp: kevent_list_def next_slot_eq_iff)
    with ring_list_push_full [OF ok(1)] True lt show ?thesis
      by (simp add: kevent_list_def k'_def unat_next_slot del: length_ring_list)
  next
    case False
    then have "length (kevent_list k) < 127" "Suc (unat (g_tail k)) mod 128 \<noteq> unat (g_head k)"
      using ring_full_iff [OF ok(1)] lt le by (auto simp: kevent_list_def next_slot_eq_iff)
    with ring_list_push [OF ok(1)] False lt show ?thesis
      by (simp add: kevent_list_def k'_def unat_next_slot del: length_ring_list)
  qed
  have inv: "kevents_ok k'"
    using ring list seqs_before_append [OF sq, of ?e] seqs_before_append [OF seqs_before_tl [OF sq], of ?e]
    by (simp add: kevents_ok_iff) (simp add: k'_def)
  show thesis
    by (rule that [OF run list _ inv]) (simp add: k'_def)
qed

text \<open>What a pop returns: the oldest event, or 0 on an empty queue.\<close>

lemma kevent_pop_empty:
  assumes "kevents_ok k" and "kevent_list k = []"
  shows "kevent_pop True h k = Inr (0, None, h, k)"
proof -
  have "g_head k = g_tail k"
    using assms ring_list_Nil_iff [of 128 "g_q k" "unat (g_head k)" "unat (g_tail k)"]
    by (simp add: kevents_ok_def kevent_list_def word_unat_eq_iff)
  then show ?thesis
    using assms(1) by (simp add: kevent_pop_def kevents_ok_def Let_def)
qed

lemma kevent_pop_head:
  assumes "kevents_ok k" and "kevent_list k = e # es"
  obtains k' where "kevent_pop True h k = Inr (1, Some e, h, k')" and "kevent_list k' = es"
    and "g_seq k' = g_seq k" and "kevents_ok k'"
proof -
  define k' where "k' = k\<lparr>g_head := (g_head k + 1) mod 128\<rparr>"
  have ok: "ring_ok 128 (g_q k) (unat (g_head k)) (unat (g_tail k))" "g_lock k = 0"
    using assms by (simp_all add: kevents_ok_def)
  then have lt: "unat (g_head k) < 128"
    by (simp add: ring_ok_def)
  have ne: "unat (g_head k) \<noteq> unat (g_tail k)"
    using ring_list_Nil_iff [OF ok(1)] assms(2) by (auto simp: kevent_list_def)
  from ring_list_pop [OF ok(1) ne] assms(2)
  have e: "g_q k ! unat (g_head k) = e" and es: "kevent_list k' = es"
    using lt by (simp_all add: kevent_list_def k'_def unat_next_slot)
  have run: "kevent_pop True h k = Inr (1, Some e, h, k')"
    using ok ne e by (auto simp: kevent_pop_def k'_def Let_def)
  have inv: "kevents_ok k'"
    using assms es ring_ok_pop [OF ok(1)] lt seqs_before_tl [of "g_seq k" "kevent_list k"]
    by (simp add: kevents_ok_iff) (simp add: k'_def unat_next_slot)
  show thesis
    by (rule that [OF run es _ inv]) (simp add: k'_def)
qed

section \<open>The queue as a first-in first-out queue that drops its oldest element\<close>

definition kevent_push_st :: "payload \<Rightarrow> hart \<times> kevents \<Rightarrow> hart \<times> kevents" where
  "kevent_push_st p hk = (case p of (ty, a, b, c, d) \<Rightarrow>
     (case kevent_push ty a b c d (fst hk) (snd hk) of Inl e \<Rightarrow> hk | Inr (r, h, k) \<Rightarrow> (h, k)))"

definition kevent_pop_st :: "hart \<times> kevents \<Rightarrow> (payload \<times> hart \<times> kevents) option" where
  "kevent_pop_st hk = (case kevent_pop True (fst hk) (snd hk) of
     Inr (r, Some e, h, k) \<Rightarrow> Some (payload_of e, h, k) | _ \<Rightarrow> None)"

lemma kevent_payloads_simps:
  "kevent_payloads k = [] \<longleftrightarrow> kevent_list k = []"
  "length (kevent_payloads k) = length (kevent_list k)"
  by (simp_all add: kevent_payloads_def)

lemma kevent_list_bound: "kevents_ok k \<Longrightarrow> length (kevent_list k) \<le> 127"
  using ring_count_less [of "unat (g_head k)" 128 "unat (g_tail k)"]
  by (simp add: kevent_list_def kevents_ok_def ring_ok_def)

lemma kevent_push_st_ok:
  assumes "kevents_ok (snd hk)"
  shows "kevents_ok (snd (kevent_push_st p hk))"
    and "fst (kevent_push_st p hk) = fst hk"
    and "kevent_payloads (snd (kevent_push_st p hk)) =
      (if length (kevent_payloads (snd hk)) < 127 then kevent_payloads (snd hk)
       else tl (kevent_payloads (snd hk))) @ [p]"
proof -
  obtain ty a b c d where p: "p = (ty, a, b, c, d)"
    by (cases p)
  obtain k' where "kevent_push ty a b c d (fst hk) (snd hk) = Inr (0, fst hk, k')"
    and l: "kevent_list k' = (if length (kevent_list (snd hk)) < 127 then kevent_list (snd hk)
       else tl (kevent_list (snd hk))) @ [pushed_event (ty, a, b, c, d) (g_seq (snd hk))]"
    and "kevents_ok k'"
    using kevent_push_step [OF assms] by metis
  then show "kevents_ok (snd (kevent_push_st p hk))"
    and "fst (kevent_push_st p hk) = fst hk"
    and "kevent_payloads (snd (kevent_push_st p hk)) =
      (if length (kevent_payloads (snd hk)) < 127 then kevent_payloads (snd hk)
       else tl (kevent_payloads (snd hk))) @ [p]"
    by (simp_all add: kevent_push_st_def p kevent_payloads_def map_tl)
qed

interpretation kq: fifo_drop 127 "\<lambda>hk. kevents_ok (snd hk)" "\<lambda>hk. kevent_payloads (snd hk)"
  kevent_push_st kevent_pop_st id
proof unfold_locales
  fix hk :: "hart \<times> kevents" and p :: payload
  assume ok: "kevents_ok (snd hk)"
  show "kevents_ok (snd (kevent_push_st p hk))"
    using ok by (rule kevent_push_st_ok)
  show "length (kevent_payloads (snd hk)) \<le> 127"
    using kevent_list_bound [OF ok] by (simp add: kevent_payloads_simps)
  show "kevent_payloads (snd (kevent_push_st p hk)) = kevent_payloads (snd hk) @ [id p]"
    if "length (kevent_payloads (snd hk)) < 127"
    using that by (simp add: kevent_push_st_ok [OF ok])
  show "kevent_payloads (snd (kevent_push_st p hk)) = tl (kevent_payloads (snd hk)) @ [id p]"
    if "length (kevent_payloads (snd hk)) = 127"
    using that by (simp add: kevent_push_st_ok [OF ok])
  show "kevent_pop_st hk = None" if "kevent_payloads (snd hk) = []"
    using kevent_pop_empty [OF ok] that by (simp add: kevent_pop_st_def kevent_payloads_simps)
  fix ps
  show "\<exists>hk'. kevent_pop_st hk = Some (p, hk') \<and> kevent_payloads (snd hk') = ps"
    if "kevent_payloads (snd hk) = p # ps"
  proof -
    from that obtain e es where l: "kevent_list (snd hk) = e # es" "p = payload_of e" "ps = map payload_of es"
      by (auto simp: kevent_payloads_def Cons_eq_map_conv)
    obtain k' where "kevent_pop True (fst hk) (snd hk) = Inr (1, Some e, fst hk, k')" "kevent_list k' = es"
      using kevent_pop_head [OF ok l(1)] by metis
    with l show ?thesis
      by (auto simp: kevent_pop_st_def kevent_payloads_def)
  qed
next
  fix hk hk' :: "hart \<times> kevents" and p :: payload
  assume ok: "kevents_ok (snd hk)" and pop: "kevent_pop_st hk = Some (p, hk')"
  show "kevents_ok (snd hk')"
  proof (cases "kevent_list (snd hk)")
    case Nil
    with ok pop show ?thesis
      by (simp add: kevent_pop_st_def kevent_pop_empty)
  next
    case (Cons e es)
    obtain k' where "kevent_pop True (fst hk) (snd hk) = Inr (1, Some e, fst hk, k')" "kevents_ok k'"
      using kevent_pop_head [OF ok Cons] by metis
    with pop show ?thesis
      by (auto simp: kevent_pop_st_def)
  qed
qed simp_all

section \<open>Properties\<close>

definition kevents_boot :: kevents where
  "kevents_boot = \<lparr>g_q = replicate 128 zero_event, g_head = 0, g_tail = 0, g_seq = 0, g_lock = 0\<rparr>"

lemma kevents_ok_boot: "kevents_ok kevents_boot"
  by (simp add: kevents_ok_def kevents_boot_def ring_ok_def kevent_list_def ring_list_def ring_count_def)

text \<open>
  After any sequence of pushes the event queue holds exactly the newest 127 of the events it held
  and the events pushed, in order: a burst of interrupts loses the oldest events only.
\<close>

theorem kevent_push_keeps_newest:
  assumes "kevents_ok k"
  shows "kevents_ok (snd (fold kevent_push_st ps (h, k))) \<and>
    kevent_payloads (snd (fold kevent_push_st ps (h, k))) =
      drop (length (kevent_payloads k) + length ps - 127) (kevent_payloads k @ ps)"
  using kq.elems_fold_push_drop [of "(h, k)" ps] kq.inv_fold_push [of "(h, k)" ps] assms by simp

theorem kevent_push_keeps_newest_witness:
  "kevent_payloads (snd (fold kevent_push_st [(1, 2, 3, 4, 5), (2, 0, 0, 0, 9)] (hart_boot, kevents_boot))) =
    [(1, 2, 3, 4, 5), (2, 0, 0, 0, 9)]"
  using kevent_push_keeps_newest [OF kevents_ok_boot, of "[(1, 2, 3, 4, 5), (2, 0, 0, 0, 9)]" hart_boot]
  by (simp add: kevent_payloads_def kevent_list_def kevents_boot_def ring_list_def ring_count_def)

text \<open>
  Popping returns the oldest event and removes it, or reports an empty queue; the interrupt
  state of the hart is as before, the lock is free again, and the remaining events still carry
  consecutive sequence numbers.
\<close>

theorem kevent_pop_oldest:
  assumes "kevents_ok k"
  shows "case kevent_list k of
      [] \<Rightarrow> kevent_pop True h k = Inr (0, None, h, k)
    | e # es \<Rightarrow> \<exists>k'. kevent_pop True h k = Inr (1, Some e, h, k') \<and> kevent_list k' = es \<and> kevents_ok k'"
proof (cases "kevent_list k")
  case Nil
  then show ?thesis
    using kevent_pop_empty [OF assms, of h] by simp
next
  case (Cons e es)
  then show ?thesis
    using kevent_pop_head [OF assms Cons, of h] by (simp, metis)
qed

theorem kevent_pop_oldest_witness: "kevent_pop True hart_boot kevents_boot = Inr (0, None, hart_boot, kevents_boot)"
  using kevent_pop_oldest [OF kevents_ok_boot, of hart_boot]
  by (simp add: kevent_list_def kevents_boot_def ring_list_def ring_count_def)

end
