(* ===== verification/Vma.thy ===== *)
theory Vma
  imports Prelude
begin

text \<open>
  The table of virtual memory areas of a process, from \<^verbatim>\<open>mm/process_vm.c\<close>: adding an area, looking up
  an address, checking that a range of user addresses is covered, searching a free range for
  \<^verbatim>\<open>mmap\<close> and cutting a range out for \<^verbatim>\<open>munmap\<close>. The functions take the array \<^verbatim>\<open>proc->vmas\<close> as a list
  of \<^verbatim>\<open>PROC_VMA_MAX\<close> records; the callers never pass a null process.
\<close>

abbreviation USER_MMAP_BASE :: u32 where "USER_MMAP_BASE \<equiv> 0x20000000"
abbreviation USER_MMAP_END :: u32 where "USER_MMAP_END \<equiv> 0x3f000000"

record user_vma =
  v_used :: bool
  v_start :: u32
  v_end :: u32
  v_prot :: u32

definition no_vma :: user_vma where
  "no_vma = \<lparr>v_used = False, v_start = 0, v_end = 0, v_prot = 0\<rparr>"

section \<open>Operations\<close>

definition proc_find_free_vma_slot :: "user_vma list \<Rightarrow> nat option" where
  "proc_find_free_vma_slot vs = first_idx (\<lambda>v. \<not> v_used v) vs"

definition proc_add_vma :: "user_vma list \<Rightarrow> u32 \<Rightarrow> u32 \<Rightarrow> u32 \<Rightarrow> int \<times> user_vma list" where
  "proc_add_vma vs start en prot =
     (if en \<le> start then (-1, vs)
      else if \<not> is_page_aligned start \<or> \<not> is_page_aligned en then (-1, vs)
      else if list_ex (\<lambda>v. v_used v \<and> \<not> (en \<le> v_start v \<or> v_end v \<le> start)) vs then (-1, vs)
      else
        (case first_idx (\<lambda>v. \<not> v_used v) vs of
           None \<Rightarrow> (-1, vs)
         | Some i \<Rightarrow> (0, vs[i := \<lparr>v_used = True, v_start = start, v_end = en, v_prot = prot\<rparr>])))"

definition proc_find_vma_index :: "user_vma list \<Rightarrow> u32 \<Rightarrow> nat option" where
  "proc_find_vma_index vs addr = first_idx (\<lambda>v. v_used v \<and> v_start v \<le> addr \<and> addr < v_end v) vs"

text \<open>The \<^verbatim>\<open>while (cur < end)\<close> loop of \<^verbatim>\<open>proc_vma_range_ok\<close>; each round moves to the end of an area.\<close>

function vma_range_loop :: "user_vma list \<Rightarrow> u32 \<Rightarrow> u32 \<Rightarrow> u32 \<Rightarrow> bool" where
  "vma_range_loop vs en prot_need cur =
     (if cur < en then
        (case proc_find_vma_index vs cur of
           None \<Rightarrow> False
         | Some idx \<Rightarrow>
             if v_prot (vs ! idx) AND prot_need \<noteq> prot_need then False
             else if en \<le> v_end (vs ! idx) then True
             else vma_range_loop vs en prot_need (v_end (vs ! idx)))
      else True)"
  by pat_completeness auto
termination
proof (relation "measure (\<lambda>(vs, en, need, cur). 4294967296 - unat cur)", goal_cases)
  case (2 vs en need cur idx)
  then have "unat cur < unat (v_end (vs ! idx))"
    by (auto simp: proc_find_vma_index_def word_less_nat_alt dest: first_idx_SomeD)
  then show ?case
    using unat_lt_2p32 [of "v_end (vs ! idx)"] by simp
qed simp

declare vma_range_loop.simps [simp del]

definition proc_vma_range_ok :: "bool \<Rightarrow> user_vma list \<Rightarrow> u32 \<Rightarrow> u32 \<Rightarrow> u32 \<Rightarrow> bool" where
  "proc_vma_range_ok is_user vs addr len prot_need =
     (if \<not> is_user then False
      else if len = 0 then False
      else
        let en = addr + len in
        if en < addr then False else vma_range_loop vs en prot_need addr)"

definition prot_to_query_bits :: "u32 \<Rightarrow> u32" where
  "prot_to_query_bits prot =
     (let bits = 0;
          bits = (if prot AND 1 \<noteq> 0 then bits OR 2 else bits);
          bits = (if prot AND 2 \<noteq> 0 then bits OR 4 else bits);
          bits = (if prot AND 4 \<noteq> 0 then bits OR 8 else bits)
      in bits)"

text \<open>
  The search for a free range. \<open>None\<close> stands for a loop that never returns (an area that ends
  unaligned in the last page would send it back to 0); \<open>Some None\<close> is the return value \<open>-1\<close>.
\<close>

partial_function (option) free_range_loop :: "user_vma list \<Rightarrow> u32 \<Rightarrow> u32 \<Rightarrow> u32 option option" where
  "free_range_loop vs len addr =
     (if addr \<le> addr + len \<and> addr + len \<le> USER_MMAP_END then
        (case first_idx (\<lambda>v. v_used v \<and> addr < v_end v \<and> v_start v < addr + len) vs of
           None \<Rightarrow> Some (Some addr)
         | Some i \<Rightarrow> free_range_loop vs len (page_ceil (v_end (vs ! i))))
      else Some None)"

definition proc_find_free_mmap_range :: "user_vma list \<Rightarrow> u32 \<Rightarrow> u32 option option" where
  "proc_find_free_mmap_range vs len = free_range_loop vs len USER_MMAP_BASE"

definition proc_range_overlaps_any_vma :: "user_vma list \<Rightarrow> u32 \<Rightarrow> u32 \<Rightarrow> bool" where
  "proc_range_overlaps_any_vma vs start en = list_ex (\<lambda>v. v_used v \<and> start < v_end v \<and> v_start v < en) vs"

text \<open>
  The first loop of \<^verbatim>\<open>proc_munmap\<close>, over the indices still to visit: the areas are cut in place,
  an area cut in the middle needs a second slot. \<open>Inl\<close> carries the table left behind when there
  is none (the call returns \<open>-1\<close>), \<open>Inr\<close> the table and the flag \<^verbatim>\<open>changed\<close>.
\<close>

fun munmap_cut :: "u32 \<Rightarrow> u32 \<Rightarrow> nat list \<Rightarrow> user_vma list \<Rightarrow> bool \<Rightarrow> user_vma list + user_vma list \<times> bool" where
  "munmap_cut addr en [] vs changed = Inr (vs, changed)"
| "munmap_cut addr en (i # is) vs changed =
     (let v = vs ! i in
      if \<not> v_used v then munmap_cut addr en is vs changed
      else if v_end v \<le> addr \<or> en \<le> v_start v then munmap_cut addr en is vs changed
      else
        let cut_s = (if v_start v < addr then addr else v_start v);
            cut_e = (if en < v_end v then en else v_end v)
        in
        if cut_e \<le> cut_s then munmap_cut addr en is vs changed
        else if cut_s = v_start v \<and> cut_e = v_end v then munmap_cut addr en is (vs[i := no_vma]) True
        else if cut_s = v_start v then munmap_cut addr en is (vs[i := v\<lparr>v_start := cut_e\<rparr>]) True
        else if cut_e = v_end v then munmap_cut addr en is (vs[i := v\<lparr>v_end := cut_s\<rparr>]) True
        else
          (case proc_find_free_vma_slot vs of
             None \<Rightarrow> Inl vs
           | Some f \<Rightarrow>
               munmap_cut addr en is
                 (vs[f := \<lparr>v_used = True, v_start = cut_e, v_end = v_end v, v_prot = v_prot v\<rparr>,
                     i := v\<lparr>v_end := cut_s\<rparr>]) True))"

end
