(* ===== verification/Memory.thy ===== *)
theory Memory
  imports Prelude
begin

text \<open>
  Byte-addressed memory and the block operations of \<^verbatim>\<open>lib/string.c\<close>. The loops of
  \<^verbatim>\<open>memset\<close> and \<^verbatim>\<open>memcpy\<close> are modelled byte by byte; \<open>mem_fill\<close> and \<open>mem_move\<close> are
  their closed forms, used by the rest of the development, and the loops are shown equal to
  them. \<open>load32\<close> and \<open>store32\<close> are the little-endian word accesses of RV32.
\<close>

section \<open>Loops of lib/string.c\<close>

text \<open>\<^verbatim>\<open>while (n--) *p++ = c;\<close>\<close>

fun memset_loop :: "u32 \<Rightarrow> u8 \<Rightarrow> nat \<Rightarrow> mem \<Rightarrow> mem" where
  "memset_loop p c 0 m = m"
| "memset_loop p c (Suc n) m = memset_loop (p + 1) c n (m(p := c))"

definition memset :: "u32 \<Rightarrow> u8 \<Rightarrow> u32 \<Rightarrow> mem \<Rightarrow> mem" where
  "memset buf c n m = memset_loop buf c (unat n) m"

text \<open>\<^verbatim>\<open>while (n--) *d++ = *s++;\<close>\<close>

fun memcpy_loop :: "u32 \<Rightarrow> u32 \<Rightarrow> nat \<Rightarrow> mem \<Rightarrow> mem" where
  "memcpy_loop d s 0 m = m"
| "memcpy_loop d s (Suc n) m = memcpy_loop (d + 1) (s + 1) n (m(d := m s))"

definition memcpy :: "u32 \<Rightarrow> u32 \<Rightarrow> u32 \<Rightarrow> mem \<Rightarrow> mem" where
  "memcpy dst src n m = memcpy_loop dst src (unat n) m"

section \<open>Closed forms\<close>

definition mem_fill :: "u32 \<Rightarrow> u8 \<Rightarrow> u32 \<Rightarrow> mem \<Rightarrow> mem" where
  "mem_fill a c n m = (\<lambda>x. if x - a < n then c else m x)"

definition mem_move :: "u32 \<Rightarrow> u32 \<Rightarrow> u32 \<Rightarrow> mem \<Rightarrow> mem" where
  "mem_move d s n m = (\<lambda>x. if x - d < n then m (s + (x - d)) else m x)"

lemma unat_minus_one_u32: "unat (- 1 :: u32) = 4294967295"
  by (simp add: unsigned_minus_1_eq_mask mask_eq_exp_minus_1)

lemma memset_loop_eq:
  "n \<le> 2 ^ 32 \<Longrightarrow> memset_loop p c n m = (\<lambda>x. if unat (x - p) < n then c else m x)"
proof (induction n arbitrary: p m)
  case 0
  then show ?case by simp
next
  case (Suc n)
  have step: "unat (x - p) < Suc n \<longleftrightarrow> x = p \<or> unat (x - (p + 1)) < n" for x
  proof (cases "x = p")
    case False
    then have "unat (x - p) \<noteq> 0"
      by (simp add: unat_eq_zero)
    then have "unat (x - p - 1) = unat (x - p) - 1"
      by (simp add: unat_minus_one unat_eq_zero)
    then show ?thesis
      using False \<open>unat (x - p) \<noteq> 0\<close> by (auto simp: diff_diff_eq)
  qed simp
  have nle: "\<not> unat (p - (p + 1)) < n"
    using Suc.prems by (simp add: unat_minus_one_u32)
  show ?case
    using Suc by (auto simp: step nle fun_eq_iff)
qed

lemma memset_eq_fill: "memset a c n m = mem_fill a c n m"
  using unat_lt_2p32 [of n]
  by (simp add: memset_def mem_fill_def memset_loop_eq word_less_nat_alt)

text \<open>
  The forward byte loop copies correctly unless the destination starts inside the source
  range, strictly after its first byte.
\<close>

lemma memcpy_loop_eq:
  "n \<le> 2 ^ 32 \<Longrightarrow> d = s \<or> n \<le> unat (d - s) \<Longrightarrow>
    memcpy_loop d s n m = (\<lambda>x. if unat (x - d) < n then m (s + (x - d)) else m x)"
proof (induction n arbitrary: d s m)
  case 0
  then show ?case by simp
next
  case (Suc n)
  have step: "unat (x - d) < Suc n \<longleftrightarrow> x = d \<or> unat (x - (d + 1)) < n" for x
  proof (cases "x = d")
    case False
    then have "unat (x - d) \<noteq> 0"
      by (simp add: unat_eq_zero)
    then have "unat (x - d - 1) = unat (x - d) - 1"
      by (simp add: unat_minus_one unat_eq_zero)
    then show ?thesis
      using False \<open>unat (x - d) \<noteq> 0\<close> by (auto simp: diff_diff_eq)
  qed simp
  have nle: "\<not> unat (d - (d + 1)) < n"
    using Suc.prems by (simp add: unat_minus_one_u32)
  have src: "(m(d := m s)) (s + 1 + (x - (d + 1))) = m (s + (x - d))"
    if "unat (x - (d + 1)) < n" for x
  proof -
    have "s + (x - d) \<noteq> d \<or> d = s"
    proof (rule ccontr)
      assume "\<not> (s + (x - d) \<noteq> d \<or> d = s)"
      then have "x - d = d - s" "d \<noteq> s"
        by (auto simp: algebra_simps)
      with Suc.prems step [of x] that show False
        by (metis Suc_leI not_less_eq_eq)
    qed
    then show ?thesis
      by (auto simp: algebra_simps)
  qed
  have "memcpy_loop d s (Suc n) m = memcpy_loop (d + 1) (s + 1) n (m(d := m s))"
    by simp
  also have "\<dots> = (\<lambda>x. if unat (x - (d + 1)) < n then (m(d := m s)) (s + 1 + (x - (d + 1)))
      else (m(d := m s)) x)"
    using Suc.prems by (intro Suc.IH) auto
  also have "\<dots> = (\<lambda>x. if unat (x - d) < Suc n then m (s + (x - d)) else m x)"
  proof
    fix x
    show "(if unat (x - (d + 1)) < n then (m(d := m s)) (s + 1 + (x - (d + 1))) else (m(d := m s)) x) =
        (if unat (x - d) < Suc n then m (s + (x - d)) else m x)"
    proof (cases "unat (x - (d + 1)) < n")
      case True
      then show ?thesis
        using src [OF True] step [of x] by simp
    next
      case False
      then show ?thesis
        by (simp add: step)
    qed
  qed
  finally show ?case .
qed

lemma memcpy_eq_move:
  "d = s \<or> n \<le> d - s \<Longrightarrow> memcpy d s n m = mem_move d s n m"
  using unat_lt_2p32 [of n]
  by (subst memcpy_def, subst memcpy_loop_eq) (auto simp: mem_move_def word_less_nat_alt word_le_nat_alt)

section \<open>Word access\<close>

definition load32 :: "mem \<Rightarrow> u32 \<Rightarrow> u32" where
  "load32 m a = ucast (m a) OR push_bit 8 (ucast (m (a + 1))) OR
     push_bit 16 (ucast (m (a + 2))) OR push_bit 24 (ucast (m (a + 3)))"

definition store32 :: "u32 \<Rightarrow> u32 \<Rightarrow> mem \<Rightarrow> mem" where
  "store32 a v m = m(a := ucast v, a + 1 := ucast (drop_bit 8 v),
     a + 2 := ucast (drop_bit 16 v), a + 3 := ucast (drop_bit 24 v))"

lemma load_store32_same [simp]: "load32 (store32 a v m) a = v"
proof -
  have "load32 (store32 a v m) a = ucast (ucast v :: u8) OR push_bit 8 (ucast (ucast (drop_bit 8 v) :: u8)) OR
     push_bit 16 (ucast (ucast (drop_bit 16 v) :: u8)) OR push_bit 24 (ucast (ucast (drop_bit 24 v) :: u8))"
    by (simp add: load32_def store32_def)
  also have "\<dots> = v"
  proof (rule bit_word_eqI)
    fix n
    assume n: "n < LENGTH(32)"
    consider "n < 8" | "8 \<le> n" "n < 16" | "16 \<le> n" "n < 24" | "24 \<le> n"
      by linarith
    then show "bit ((ucast (ucast v :: u8) :: u32) OR push_bit 8 (ucast (ucast (drop_bit 8 v) :: u8)) OR
        push_bit 16 (ucast (ucast (drop_bit 16 v) :: u8)) OR
        push_bit 24 (ucast (ucast (drop_bit 24 v) :: u8))) n = bit v n"
      using n by cases (auto simp: bit_simps)
  qed
  finally show ?thesis .
qed

lemma word32_small_diff:
  assumes "(a :: u32) + of_nat i = b + of_nat j" and "i < 4" and "j < 4"
    and "unat a mod 4 = 0" and "unat b mod 4 = 0"
  shows "a = b"
proof -
  have nowrap: "unat (x + of_nat k) = unat x + k" if "unat x mod 4 = 0" "k < 4" for x :: u32 and k
  proof -
    from that obtain q where q: "unat x = 4 * q"
      by (auto simp: mod_eq_0_iff_dvd elim: dvdE)
    then have "unat x + k < 4294967296"
      using that(2) unat_lt_2p32 [of x] by auto
    then show ?thesis
      using that(2) by (simp add: unat_word_ariths unat_of_nat)
  qed
  have "unat a + i = unat b + j"
    using assms nowrap [of a i] nowrap [of b j] by metis
  moreover obtain p q where "unat a = 4 * p" "unat b = 4 * q"
    using assms(4,5) by (auto simp: mod_eq_0_iff_dvd elim!: dvdE)
  ultimately have "unat a = unat b"
    using assms(2,3) by arith
  then show ?thesis
    by (simp add: word_unat_eq_iff)
qed

lemma load_store32_other:
  assumes "unat a mod 4 = 0" and "unat b mod 4 = 0" and "a \<noteq> b"
  shows "load32 (store32 a v m) b = load32 m b"
proof -
  have ne: "a + of_nat i \<noteq> b + of_nat j" if "i < 4" "j < 4" for i j
    using word32_small_diff [of a i b j] assms that by blast
  have *: "store32 a v m (b + of_nat j) = m (b + of_nat j)" if "j < 4" for j
    using ne [of 0 j] ne [of 1 j] ne [of 2 j] ne [of 3 j] that
    by (auto simp: store32_def)
  show ?thesis
    using * [of 0] * [of 1] * [of 2] * [of 3] by (simp add: load32_def)
qed

text \<open>A word read depends only on the four bytes of the word.\<close>

lemma load32_cong:
  assumes "\<And>i. i < 4 \<Longrightarrow> m (a + i) = m' (a + i)"
  shows "load32 m a = load32 m' a"
  using assms [of 0] assms [of 1] assms [of 2] assms [of 3] by (simp add: load32_def)

end
