(* ===== verification/Linker.thy ===== *)
theory Linker
  imports Prelude
begin

text \<open>
  The addresses the linker script \<^verbatim>\<open>arch/riscv32/kernel.ld\<close> defines and the C code reads
  through \<^verbatim>\<open>extern char\<close> symbols, and the addresses it takes of its own objects: the end of
  \<^verbatim>\<open>procs[i].stack\<close> and the entry points \<^verbatim>\<open>arch_resume_from_trap\<close> and \<^verbatim>\<open>kernel_entry\<close>. Their values
  depend on the sizes of the linked sections, so the layout is a parameter of the definitions;
  \<open>ld_ok\<close> states what the script fixes:
  the order and alignment of the sections and the 32 MiB of free RAM after them.
\<close>

record ld_layout =
  user_text_start :: u32
  user_text_end :: u32
  rodata_start :: u32
  user_rodata_start :: u32
  user_rodata_end :: u32
  rodata_end :: u32
  user_data_start :: u32
  user_data_end :: u32
  user_bss_start :: u32
  user_bss_end :: u32
  free_ram :: u32
  free_ram_end :: u32
  kstack_end :: "nat \<Rightarrow> u32"
  arch_resume_from_trap_addr :: u32
  kernel_entry_addr :: u32

definition ld_symbols :: "ld_layout \<Rightarrow> u32 list" where
  "ld_symbols L = [user_text_start L, user_text_end L, rodata_start L, user_rodata_start L,
     user_rodata_end L, rodata_end L, user_data_start L, user_data_end L,
     user_bss_start L, user_bss_end L, free_ram L]"

definition ld_ok :: "ld_layout \<Rightarrow> bool" where
  "ld_ok L \<longleftrightarrow> sorted (ld_symbols L) \<and> list_all is_page_aligned (ld_symbols L) \<and>
     0x80200000 \<le> user_text_start L \<and>
     rodata_end L = user_rodata_end L \<and>
     unat (free_ram L) + 0x2000000 < 2 ^ 32 \<and>
     free_ram_end L = free_ram L + 0x2000000"

lemma ld_ok_free_ram:
  assumes "ld_ok L"
  shows "unat (free_ram L) mod 4096 = 0" and "unat (free_ram_end L) = unat (free_ram L) + 0x2000000"
    and "unat (free_ram L) + 0x2000000 < 4294967296" and "0x80200000 \<le> unat (free_ram L)"
proof -
  show "unat (free_ram L) mod 4096 = 0"
    using assms by (simp add: ld_ok_def ld_symbols_def page_arith)
  show lt: "unat (free_ram L) + 0x2000000 < 4294967296"
    using assms by (simp add: ld_ok_def)
  then show "unat (free_ram_end L) = unat (free_ram L) + 0x2000000"
    using assms by (simp add: ld_ok_def unat_word_ariths)
  have "0x80200000 \<le> user_text_start L" and "user_text_start L \<le> free_ram L"
    using assms by (simp_all add: ld_ok_def ld_symbols_def)
  then have "0x80200000 \<le> free_ram L"
    by (rule order_trans)
  then show "0x80200000 \<le> unat (free_ram L)"
    by (simp add: word_le_nat_alt)
qed

text \<open>A concrete layout, used to instantiate the parameter.\<close>

definition ld_example :: ld_layout where
  "ld_example = \<lparr>user_text_start = 0x80210000, user_text_end = 0x80211000,
     rodata_start = 0x80211000, user_rodata_start = 0x80213000, user_rodata_end = 0x80214000,
     rodata_end = 0x80214000, user_data_start = 0x80216000, user_data_end = 0x80217000,
     user_bss_start = 0x80300000, user_bss_end = 0x80301000,
     free_ram = 0x80341000, free_ram_end = 0x82341000,
     kstack_end = (\<lambda>i. 0x80220000 + of_nat i * 0x9000), arch_resume_from_trap_addr = 0x80201000,
     kernel_entry_addr = 0x80200800\<rparr>"

lemma ld_ok_example: "ld_ok ld_example"
  by (simp add: ld_ok_def ld_symbols_def ld_example_def is_page_aligned_def)

end
