(* ===== verification/Page_Alloc.thy ===== *)
theory Page_Alloc
  imports Lock Memory Linker
begin

text \<open>
  The physical page allocator of \<^verbatim>\<open>mm/page_alloc.c\<close>: a bump pointer \<^verbatim>\<open>next_paddr\<close>, a
  sorted list of free page runs, 16-bit reference counters, and list nodes carved downwards
  from \<^verbatim>\<open>meta_top\<close>. The linked lists are HOL lists whose elements keep the address of their
  node; the counters and nodes are typed values beside the byte memory \<open>pmem\<close> (that they
  never overlap a page in use is proved in \<^verbatim>\<open>Page_Alloc_Inv\<close>). Non-null pointers returned
  through an argument become components of the result.
\<close>

record page_run =
  node :: u32
  base :: u32
  pages :: u32

record page_alloc =
  free_runs :: "page_run list"
  free_meta_nodes :: "u32 list"
  next_paddr :: u32
  meta_top :: u32
  allocator_initialized :: bool
  alloc_lock :: u32
  page_refcnt :: "u16 list"
  managed_page_count :: u32
  free_meta_oom_warned :: bool
  pmem :: mem

definition init_allocator_if_needed :: "ld_layout \<Rightarrow> page_alloc \<Rightarrow> int \<times> page_alloc" where
  "init_allocator_if_needed L s =
     (if allocator_initialized s then (0, s)
      else
        let s = s\<lparr>free_runs := [], free_meta_nodes := [], next_paddr := free_ram L,
              meta_top := free_ram_end L,
              managed_page_count := (free_ram_end L - free_ram L) div PAGE_SIZE\<rparr>;
            ref_bytes = managed_page_count s * 2;
            ref_top = (meta_top s - ref_bytes) AND NOT 3
        in if ref_top \<le> next_paddr s then (-1, s)
           else (0, s\<lparr>meta_top := ref_top,
                      page_refcnt := replicate (unat (managed_page_count s)) 0,
                      allocator_initialized := True\<rparr>))"

definition page_idx_if_managed :: "ld_layout \<Rightarrow> page_alloc \<Rightarrow> u32 \<Rightarrow> u32 option" where
  "page_idx_if_managed L s paddr =
     (if paddr < free_ram L \<or> free_ram_end L \<le> paddr then None
      else if \<not> is_page_aligned paddr then None
      else
        let idx = (paddr - free_ram L) div PAGE_SIZE
        in if managed_page_count s \<le> idx then None else Some idx)"

definition alloc_run_node :: "page_alloc \<Rightarrow> u32 option \<times> page_alloc" where
  "alloc_run_node s =
     (case free_meta_nodes s of
        n # ns \<Rightarrow> (Some n, s\<lparr>free_meta_nodes := ns\<rparr>)
      | [] \<Rightarrow>
          let new_top = (meta_top s - 12) AND NOT 3
          in if new_top \<le> next_paddr s then (None, s)
             else (Some new_top, s\<lparr>meta_top := new_top\<rparr>))"

definition release_run_node :: "u32 \<Rightarrow> page_alloc \<Rightarrow> page_alloc" where
  "release_run_node n s = s\<lparr>free_meta_nodes := n # free_meta_nodes s\<rparr>"

text \<open>
  The walk of \<^verbatim>\<open>coalesce_free_runs\<close>: from a current run, merge the successor while it starts
  where the current run ends. The released nodes are pushed on the node list in order.
\<close>

fun coalesce_walk :: "page_run list \<Rightarrow> u32 list \<Rightarrow> page_run list \<times> u32 list" where
  "coalesce_walk [] ns = ([], ns)"
| "coalesce_walk [c] ns = ([c], ns)"
| "coalesce_walk (c # n # rs) ns =
     (if base c + pages c * PAGE_SIZE = base n
      then coalesce_walk (c\<lparr>pages := pages c + pages n\<rparr> # rs) (node n # ns)
      else let (rs', ns') = coalesce_walk (n # rs) ns in (c # rs', ns'))"

definition coalesce_free_runs :: "page_alloc \<Rightarrow> page_alloc" where
  "coalesce_free_runs s =
     (let (rs, ns) = coalesce_walk (free_runs s) (free_meta_nodes s)
      in s\<lparr>free_runs := rs, free_meta_nodes := ns\<rparr>)"

text \<open>
  \<^verbatim>\<open>while (cur->next && cur->next->base < paddr) cur = cur->next;\<close> The result is the runs
  before the current one, the current one, and the runs after it.
\<close>

fun find_cur :: "u32 \<Rightarrow> page_run list \<Rightarrow> page_run \<Rightarrow> page_run list \<Rightarrow> page_run list \<times> page_run \<times> page_run list" where
  "find_cur p pre c [] = (pre, c, [])"
| "find_cur p pre c (n # rs) = (if base n < p then find_cur p (pre @ [c]) n rs else (pre, c, n # rs))"

text \<open>64-bit end addresses, as the C code computes them.\<close>

definition end64 :: "u32 \<Rightarrow> u32 \<Rightarrow> u64" where
  "end64 b n = ucast b + ucast n * 4096"

definition free_single_page_raw :: "u32 \<Rightarrow> page_alloc \<Rightarrow> (int \<times> page_alloc) kres" where
  "free_single_page_raw paddr s =
     (let end = (ucast paddr + 4096 :: u64) in
      case free_runs s of
        [] \<Rightarrow>
          (case alloc_run_node s of
             (None, s) \<Rightarrow> Inr (-1, s)
           | (Some nd, s) \<Rightarrow> Inr (0, s\<lparr>free_runs := [\<lparr>node = nd, base = paddr, pages = 1\<rparr>]\<rparr>))
      | r0 # rs0 \<Rightarrow>
          if paddr < base r0 then
            if ucast (base r0) < end then Inl Panic_overlap
            else if end = ucast (base r0) then
              Inr (0, s\<lparr>free_runs := r0\<lparr>base := paddr, pages := pages r0 + 1\<rparr> # rs0\<rparr>)
            else
              (case alloc_run_node s of
                 (None, s) \<Rightarrow> Inr (-1, s)
               | (Some nd, s) \<Rightarrow>
                   Inr (0, s\<lparr>free_runs := \<lparr>node = nd, base = paddr, pages = 1\<rparr> # r0 # rs0\<rparr>))
          else
            let (pre, cur, rest) = find_cur paddr [] r0 rs0 in
            if ucast paddr < end64 (base cur) (pages cur) then Inl Panic_overlap
            else if rest \<noteq> [] \<and> ucast (base (hd rest)) < end then Inl Panic_overlap
            else if end64 (base cur) (pages cur) = ucast paddr then
              let cur = cur\<lparr>pages := pages cur + 1\<rparr> in
              (case rest of
                 n # rest' \<Rightarrow>
                   if end64 (base cur) (pages cur) = ucast (base n) then
                     Inr (0, release_run_node (node n)
                       (s\<lparr>free_runs := pre @ cur\<lparr>pages := pages cur + pages n\<rparr> # rest'\<rparr>))
                   else Inr (0, s\<lparr>free_runs := pre @ cur # rest\<rparr>)
               | [] \<Rightarrow> Inr (0, s\<lparr>free_runs := pre @ cur # rest\<rparr>))
            else if rest \<noteq> [] \<and> end = ucast (base (hd rest)) then
              (case rest of
                 n # rest' \<Rightarrow>
                   Inr (0, s\<lparr>free_runs := pre @ cur # n\<lparr>base := paddr, pages := pages n + 1\<rparr> # rest'\<rparr>)
               | [] \<Rightarrow> Inr (0, s))
            else
              (case alloc_run_node s of
                 (None, s) \<Rightarrow> Inr (-1, s)
               | (Some nd, s) \<Rightarrow>
                   Inr (0, coalesce_free_runs
                     (s\<lparr>free_runs := pre @ cur # \<lparr>node = nd, base = paddr, pages = 1\<rparr> # rest\<rparr>))))"

text \<open>
  The first-fit search of \<^verbatim>\<open>alloc_pages_try\<close>: the address taken from the first run that is
  long enough, the remaining runs, and the node to release when the run is used up.
\<close>

fun take_first_fit :: "u32 \<Rightarrow> page_run list \<Rightarrow> (u32 \<times> page_run list \<times> u32 option) option" where
  "take_first_fit n [] = None"
| "take_first_fit n (cur # rs) =
     (if n \<le> pages cur then
        let cur' = cur\<lparr>base := base cur + n * PAGE_SIZE, pages := pages cur - n\<rparr> in
        if pages cur' = 0 then Some (base cur, rs, Some (node cur))
        else Some (base cur, cur' # rs, None)
      else
        (case take_first_fit n rs of
           None \<Rightarrow> None
         | Some (p, rs', nd) \<Rightarrow> Some (p, cur # rs', nd)))"

text \<open>\<^verbatim>\<open>for (i = 0; i < n; i++) if (page_idx_if_managed(...)) page_refcnt[idx] = 1;\<close>\<close>

definition mark_one :: "ld_layout \<Rightarrow> u32 \<Rightarrow> page_alloc \<Rightarrow> page_alloc" where
  "mark_one L a s =
     (case page_idx_if_managed L s a of
        None \<Rightarrow> s
      | Some idx \<Rightarrow> s\<lparr>page_refcnt := (page_refcnt s)[unat idx := 1]\<rparr>)"

definition page_addrs :: "u32 \<Rightarrow> nat \<Rightarrow> u32 list" where
  "page_addrs p n = map (\<lambda>i. p + of_nat i * PAGE_SIZE) [0..<n]"

definition mark_allocated :: "ld_layout \<Rightarrow> u32 \<Rightarrow> u32 \<Rightarrow> page_alloc \<Rightarrow> page_alloc" where
  "mark_allocated L paddr n s = fold (mark_one L) (page_addrs paddr (unat n)) s"

definition alloc_pages_try :: "ld_layout \<Rightarrow> u32 \<Rightarrow> page_alloc \<Rightarrow> (u32 \<times> page_alloc) kres" where
  "alloc_pages_try L n s =
     kbind (spin_lock (alloc_lock s)) (\<lambda>lk.
       let s = s\<lparr>alloc_lock := lk\<rparr>;
           (rc, s) = init_allocator_if_needed L s
       in
       if rc < 0 then Inr (0, s\<lparr>alloc_lock := spin_unlock (alloc_lock s)\<rparr>)
       else if n = 0 then Inr (0, s\<lparr>alloc_lock := spin_unlock (alloc_lock s)\<rparr>)
       else
         (case take_first_fit n (free_runs s) of
            Some (paddr, rs, nd) \<Rightarrow>
              let s = s\<lparr>free_runs := rs\<rparr>;
                  s = (case nd of None \<Rightarrow> s | Some a \<Rightarrow> release_run_node a s);
                  s = s\<lparr>pmem := mem_fill paddr 0 (n * PAGE_SIZE) (pmem s)\<rparr>;
                  s = mark_allocated L paddr n s
              in Inr (paddr, s\<lparr>alloc_lock := spin_unlock (alloc_lock s)\<rparr>)
          | None \<Rightarrow>
              let paddr = next_paddr s;
                  new_next = next_paddr s + n * PAGE_SIZE
              in
              if meta_top s < new_next \<or> new_next < next_paddr s
              then Inr (0, s\<lparr>alloc_lock := spin_unlock (alloc_lock s)\<rparr>)
              else
                let s = s\<lparr>next_paddr := new_next\<rparr>;
                    s = s\<lparr>pmem := mem_fill paddr 0 (n * PAGE_SIZE) (pmem s)\<rparr>;
                    s = mark_allocated L paddr n s
                in Inr (paddr, s\<lparr>alloc_lock := spin_unlock (alloc_lock s)\<rparr>)))"

definition alloc_pages :: "ld_layout \<Rightarrow> u32 \<Rightarrow> page_alloc \<Rightarrow> (u32 \<times> page_alloc) kres" where
  "alloc_pages L n s = alloc_pages_try L n s"

text \<open>
  The body shared by \<^verbatim>\<open>free_pages\<close> and \<^verbatim>\<open>page_dec_ref\<close> once the counter is known to be
  positive: drop one reference and give the page back when it was the last one. When no list
  node can be had the page leaks with its counter set back to 1.
\<close>

definition drop_ref :: "u32 \<Rightarrow> u32 \<Rightarrow> page_alloc \<Rightarrow> page_alloc kres" where
  "drop_ref cur idx s =
     (let s = s\<lparr>page_refcnt := (page_refcnt s)[unat idx := page_refcnt s ! unat idx - 1]\<rparr> in
      if page_refcnt s ! unat idx = 0 then
        kbind (free_single_page_raw cur s) (\<lambda>(rc, s).
          if rc < 0 then
            Inr (s\<lparr>page_refcnt := (page_refcnt s)[unat idx := 1], free_meta_oom_warned := True\<rparr>)
          else Inr s)
      else Inr s)"

fun free_pages_loop :: "ld_layout \<Rightarrow> u32 list \<Rightarrow> page_alloc \<Rightarrow> page_alloc kres" where
  "free_pages_loop L [] s = Inr s"
| "free_pages_loop L (cur # cs) s =
     (case page_idx_if_managed L s cur of
        None \<Rightarrow> free_pages_loop L cs s
      | Some idx \<Rightarrow>
          if page_refcnt s ! unat idx = 0 then Inl Panic_double_free
          else kbind (drop_ref cur idx s) (free_pages_loop L cs))"

definition free_pages :: "ld_layout \<Rightarrow> u32 \<Rightarrow> u32 \<Rightarrow> page_alloc \<Rightarrow> page_alloc kres" where
  "free_pages L paddr n s =
     kbind (spin_lock (alloc_lock s)) (\<lambda>lk.
       let s = s\<lparr>alloc_lock := lk\<rparr>;
           (rc, s) = init_allocator_if_needed L s
       in
       if rc < 0 then Inl Panic_unavailable
       else if n = 0 then Inl Panic_zero_pages
       else if \<not> is_page_aligned paddr then Inl Panic_unaligned
       else if paddr < free_ram L \<or> ucast (free_ram_end L) < end64 paddr n then Inl Panic_out_of_range
       else kbind (free_pages_loop L (page_addrs paddr (unat n)) s) (\<lambda>s.
         Inr (s\<lparr>alloc_lock := spin_unlock (alloc_lock s)\<rparr>)))"

definition page_inc_ref :: "ld_layout \<Rightarrow> u32 \<Rightarrow> page_alloc \<Rightarrow> page_alloc kres" where
  "page_inc_ref L paddr s =
     kbind (spin_lock (alloc_lock s)) (\<lambda>lk.
       let s = s\<lparr>alloc_lock := lk\<rparr>;
           (rc, s) = init_allocator_if_needed L s
       in
       if rc < 0 then Inl Panic_unavailable
       else
         (case page_idx_if_managed L s paddr of
            None \<Rightarrow> Inr (s\<lparr>alloc_lock := spin_unlock (alloc_lock s)\<rparr>)
          | Some idx \<Rightarrow>
              if page_refcnt s ! unat idx = 0 then Inl Panic_inc_ref
              else
                let s = s\<lparr>page_refcnt := (page_refcnt s)[unat idx := page_refcnt s ! unat idx + 1]\<rparr>
                in Inr (s\<lparr>alloc_lock := spin_unlock (alloc_lock s)\<rparr>)))"

definition page_dec_ref :: "ld_layout \<Rightarrow> u32 \<Rightarrow> page_alloc \<Rightarrow> page_alloc kres" where
  "page_dec_ref L paddr s =
     kbind (spin_lock (alloc_lock s)) (\<lambda>lk.
       let s = s\<lparr>alloc_lock := lk\<rparr>;
           (rc, s) = init_allocator_if_needed L s
       in
       if rc < 0 then Inl Panic_unavailable
       else
         (case page_idx_if_managed L s paddr of
            None \<Rightarrow> Inr (s\<lparr>alloc_lock := spin_unlock (alloc_lock s)\<rparr>)
          | Some idx \<Rightarrow>
              if page_refcnt s ! unat idx = 0 then Inl Panic_dec_ref
              else kbind (drop_ref paddr idx s) (\<lambda>s.
                Inr (s\<lparr>alloc_lock := spin_unlock (alloc_lock s)\<rparr>))))"

end
