(* ===== verification/Page_Alloc_Inv.thy ===== *)
theory Page_Alloc_Inv
  imports Page_Alloc "HOL-Library.Multiset"
begin

text \<open>
  Invariant of the page allocator and the effect of its operations on the reference counts.
  The free runs are sorted, never touch each other and lie below \<^verbatim>\<open>next_paddr\<close>; a page has
  counter 0 exactly when it lies in a free run or was never handed out; every list node lies
  above \<^verbatim>\<open>meta_top\<close>, and no node is lost or used twice.
\<close>

section \<open>Runs as intervals of page numbers\<close>

definition run_end :: "page_run \<Rightarrow> nat" where
  "run_end r = pfn (base r) + unat (pages r)"

definition run_pages :: "page_run \<Rightarrow> nat set" where
  "run_pages r = {pfn (base r)..<run_end r}"

definition free_set :: "page_run list \<Rightarrow> nat set" where
  "free_set rs = (\<Union>r\<in>set rs. run_pages r)"

definition run_ok :: "nat \<Rightarrow> nat \<Rightarrow> page_run \<Rightarrow> bool" where
  "run_ok lo hi r \<longleftrightarrow> unat (base r) mod 4096 = 0 \<and> pages r \<noteq> 0 \<and> lo \<le> pfn (base r) \<and> run_end r \<le> hi"

definition runs_ok :: "nat \<Rightarrow> nat \<Rightarrow> page_run list \<Rightarrow> bool" where
  "runs_ok lo hi rs \<longleftrightarrow> sorted_wrt (\<lambda>a b. run_end a < pfn (base b)) rs \<and> (\<forall>r\<in>set rs. run_ok lo hi r)"

lemma runs_ok_simps [simp]:
  "runs_ok lo hi []"
  "runs_ok lo hi (r # rs) \<longleftrightarrow> run_ok lo hi r \<and> (\<forall>b\<in>set rs. run_end r < pfn (base b)) \<and> runs_ok lo hi rs"
  "runs_ok lo hi (xs @ ys) \<longleftrightarrow> runs_ok lo hi xs \<and> runs_ok lo hi ys \<and>
     (\<forall>a\<in>set xs. \<forall>b\<in>set ys. run_end a < pfn (base b))"
  by (auto simp: runs_ok_def sorted_wrt_append)

lemma free_set_simps [simp]:
  "free_set [] = {}" "free_set (r # rs) = run_pages r \<union> free_set rs"
  "free_set (xs @ ys) = free_set xs \<union> free_set ys"
  by (auto simp: free_set_def)

lemma runs_ok_mono: "runs_ok lo hi rs \<Longrightarrow> hi \<le> hi' \<Longrightarrow> runs_ok lo hi' rs"
  by (auto simp: runs_ok_def run_ok_def)

lemma free_set_bounds: "runs_ok lo hi rs \<Longrightarrow> q \<in> free_set rs \<Longrightarrow> lo \<le> q \<and> q < hi"
  by (force simp: free_set_def runs_ok_def run_ok_def run_pages_def)

text \<open>Page-aligned addresses are compared through their page numbers.\<close>

lemma aligned_less_iff:
  "unat a mod 4096 = 0 \<Longrightarrow> unat b mod 4096 = 0 \<Longrightarrow> (a < b) = (pfn a < pfn b)"
  by (auto simp: word_less_nat_alt dest!: pfn_aligned)

lemma aligned_le_iff:
  "unat a mod 4096 = 0 \<Longrightarrow> unat b mod 4096 = 0 \<Longrightarrow> (a \<le> b) = (pfn a \<le> pfn b)"
  by (auto simp: word_le_nat_alt dest!: pfn_aligned)

lemma aligned_eq_iff:
  "unat a mod 4096 = 0 \<Longrightarrow> unat b mod 4096 = 0 \<Longrightarrow> (a = b) = (pfn a = pfn b)"
  by (metis pfn_aligned word_unat_eq_iff)

lemma unat_add_pages:
  assumes "unat b mod 4096 = 0" and "pfn b + unat n < 1048576"
  shows "unat (b + n * PAGE_SIZE) = (pfn b + unat n) * 4096"
proof -
  have "unat (n * PAGE_SIZE) = unat n * 4096"
    using assms(2) by (simp add: unat_word_ariths)
  moreover have "unat b = pfn b * 4096"
    using assms(1) by (rule pfn_aligned)
  ultimately have "unat b + unat (n * PAGE_SIZE) = (pfn b + unat n) * 4096"
    by (simp only: distrib_right)
  moreover from this have "unat (b + n * PAGE_SIZE) = unat b + unat (n * PAGE_SIZE)"
    using assms(2) by (intro unat_add_lem [THEN iffD1]) simp
  ultimately show ?thesis
    by (simp only:)
qed

lemma add_pages:
  assumes "unat b mod 4096 = 0" and "pfn b + unat n < 1048576"
  shows "pfn (b + n * PAGE_SIZE) = pfn b + unat n" and "unat (b + n * PAGE_SIZE) mod 4096 = 0"
  unfolding pfn_def by (simp_all add: unat_add_pages [OF assms] pfn_def)

lemma unat_ucast64: "unat (ucast (b :: u32) :: u64) = unat b"
  using unat_lt_2p32 [of b] by (simp add: unsigned_ucast_eq take_bit_eq_mod)

lemma unat_end64: "unat (end64 b n) = unat b + unat n * 4096"
proof -
  have "unat b + unat n * 4096 < 18446744073709551616"
    using unat_lt_2p32 [of b] unat_lt_2p32 [of n] by simp
  then show ?thesis
    by (simp add: end64_def unat_word_ariths unat_ucast64)
qed

text \<open>Comparing a page-aligned address with the 64-bit end of a run.\<close>

lemma end64_cmp:
  assumes "unat p mod 4096 = 0" and "unat b mod 4096 = 0"
  shows "ucast p < end64 b n \<longleftrightarrow> pfn p < pfn b + unat n"
    and "end64 b n = ucast p \<longleftrightarrow> pfn b + unat n = pfn p"
  using pfn_aligned [OF assms(1)] pfn_aligned [OF assms(2)]
  unfolding word_less_nat_alt word_unat_eq_iff unat_end64 unat_ucast64 by linarith+

lemma page_end64_cmp:
  assumes "unat p mod 4096 = 0" and "unat b mod 4096 = 0"
  shows "ucast b < (ucast p + 4096 :: u64) \<longleftrightarrow> pfn b < pfn p + 1"
    and "(ucast p + 4096 :: u64) = ucast b \<longleftrightarrow> pfn p + 1 = pfn b"
proof -
  have "unat (ucast p + 4096 :: u64) = unat p + 4096"
    using unat_lt_2p32 [of p] by (simp add: unat_word_ariths unat_ucast64)
  then show "ucast b < (ucast p + 4096 :: u64) \<longleftrightarrow> pfn b < pfn p + 1"
    and "(ucast p + 4096 :: u64) = ucast b \<longleftrightarrow> pfn p + 1 = pfn b"
    using pfn_aligned [OF assms(1)] pfn_aligned [OF assms(2)]
    unfolding word_less_nat_alt word_unat_eq_iff unat_ucast64 by linarith+
qed

section \<open>Taking a run\<close>

definition node_of :: "u32 option \<Rightarrow> u32 multiset" where
  "node_of nd = (case nd of None \<Rightarrow> {#} | Some a \<Rightarrow> {#a#})"

lemma take_first_fit_spec:
  assumes "take_first_fit n rs = Some (p, rs', nd)" and "runs_ok lo hi rs" and "hi < 1048576" and "n \<noteq> 0"
  shows "runs_ok lo hi rs' \<and> unat p mod 4096 = 0 \<and> lo \<le> pfn p \<and> pfn p + unat n \<le> hi \<and>
    {pfn p..<pfn p + unat n} \<subseteq> free_set rs \<and> free_set rs' = free_set rs - {pfn p..<pfn p + unat n} \<and>
    mset (map node rs) = mset (map node rs') + node_of nd \<and>
    (\<forall>b\<in>set rs'. \<exists>a\<in>set rs. pfn (base a) \<le> pfn (base b))"
  using assms
proof (induction rs arbitrary: p rs' nd)
  case Nil
  then show ?case by simp
next
  case (Cons c rs)
  have c: "unat (base c) mod 4096 = 0" "pages c \<noteq> 0" "lo \<le> pfn (base c)" "run_end c \<le> hi"
    and gap: "\<forall>b\<in>set rs. run_end c < pfn (base b)" and rs: "runs_ok lo hi rs"
    using Cons.prems(2) by (simp_all add: run_ok_def)
  have above: "q \<in> free_set rs \<Longrightarrow> run_end c < q" for q
    using gap by (force simp: free_set_def run_pages_def)
  show ?case
  proof (cases "n \<le> pages c")
    case True
    then have n: "unat n \<le> unat (pages c)"
      by (simp add: word_le_nat_alt)
    then have lt: "pfn (base c) + unat n < 1048576"
      using c(4) Cons.prems(3) by (simp add: run_end_def)
    let ?c = "c\<lparr>base := base c + n * PAGE_SIZE, pages := pages c - n\<rparr>"
    have pc: "pfn (base ?c) = pfn (base c) + unat n" "unat (base ?c) mod 4096 = 0"
      "unat (pages ?c) = unat (pages c) - unat n" "run_end ?c = run_end c"
      using add_pages [OF c(1) lt] True n by (simp_all add: unat_sub run_end_def)
    have sub: "{pfn (base c)..<pfn (base c) + unat n} \<subseteq> run_pages c"
      using n by (auto simp: run_pages_def run_end_def)
    show ?thesis
    proof (cases "pages c - n = 0")
      case eq: True
      then have res: "p = base c" "rs' = rs" "nd = Some (node c)"
        using Cons.prems(1) True by simp_all
      have "run_pages c = {pfn (base c)..<pfn (base c) + unat n}"
        using eq by (simp add: run_pages_def run_end_def)
      moreover have "run_pages c \<inter> free_set rs = {}"
        using above by (force simp: run_pages_def)
      ultimately show ?thesis
        using c rs n res by (auto simp: node_of_def run_end_def)
    next
      case False
      then have res: "p = base c" "rs' = ?c # rs" "nd = None"
        using Cons.prems(1) True by auto
      have "run_pages ?c = run_pages c - {pfn (base c)..<pfn (base c) + unat n}"
        using pc by (auto simp: run_pages_def)
      moreover have "{pfn (base c)..<pfn (base c) + unat n} \<inter> free_set rs = {}"
        using above n by (force simp: run_end_def)
      moreover have "runs_ok lo hi (?c # rs)"
        using c gap rs pc False by (auto simp: run_ok_def)
      ultimately show ?thesis
        using c rs n res sub pc by (auto simp: node_of_def run_end_def)
    qed
  next
    case False
    then obtain rs2 where tk: "take_first_fit n rs = Some (p, rs2, nd)" and res: "rs' = c # rs2"
      using Cons.prems(1) by (auto split: option.splits)
    have IH: "runs_ok lo hi rs2 \<and> unat p mod 4096 = 0 \<and> lo \<le> pfn p \<and> pfn p + unat n \<le> hi \<and>
        {pfn p..<pfn p + unat n} \<subseteq> free_set rs \<and> free_set rs2 = free_set rs - {pfn p..<pfn p + unat n} \<and>
        mset (map node rs) = mset (map node rs2) + node_of nd \<and>
        (\<forall>b\<in>set rs2. \<exists>a\<in>set rs. pfn (base a) \<le> pfn (base b))"
      by (rule Cons.IH [OF tk rs Cons.prems(3,4)])
    moreover have "{pfn p..<pfn p + unat n} \<inter> run_pages c = {}"
      using IH above by (force simp: run_pages_def)
    moreover have "\<forall>b\<in>set rs2. run_end c < pfn (base b)"
      using IH gap by (meson less_le_trans)
    ultimately show ?thesis
      using res c by (auto simp: run_ok_def)
  qed
qed

section \<open>List nodes\<close>

text \<open>
  Nodes of 12 bytes are carved downwards from the bottom of the counter table. The nodes of
  the two lists together are exactly the ones carved so far.
\<close>

definition ref_top :: "ld_layout \<Rightarrow> u32" where
  "ref_top L = (free_ram_end L - 16384) AND NOT 3"

definition carved :: "ld_layout \<Rightarrow> nat \<Rightarrow> u32 list" where
  "carved L k = map (\<lambda>i. ref_top L - 12 * of_nat (Suc i)) [0..<k]"

definition nodes_inv :: "ld_layout \<Rightarrow> u32 \<Rightarrow> u32 multiset \<Rightarrow> bool" where
  "nodes_inv L mt M \<longleftrightarrow>
     (\<exists>k. unat mt + 12 * k = unat (ref_top L) \<and> mt = ref_top L - 12 * of_nat k \<and> M = mset (carved L k))"

lemma unat_ref_top:
  assumes "ld_ok L"
  shows "unat (ref_top L) = unat (free_ram L) + 0x2000000 - 16384" and "unat (ref_top L) mod 4 = 0"
proof -
  note L = ld_ok_free_ram [OF assms]
  have sub: "unat (free_ram_end L - 16384) = unat (free_ram L) + 0x2000000 - 16384"
    using L by (subst unat_sub) (simp_all add: word_le_nat_alt)
  obtain q where q: "unat (free_ram L) = 4096 * q"
    using L(1) by (auto simp: mod_eq_0_iff_dvd elim: dvdE)
  have "unat (free_ram L) + 0x2000000 - 16384 = 4 * (1024 * q + 8384512)"
    using q by simp
  then have al: "(unat (free_ram L) + 0x2000000 - 16384) mod 4 = 0"
    by (metis mod_mult_self1_is_0)
  have "unat (ref_top L) = unat (free_ram_end L - 16384) - unat (free_ram_end L - 16384) mod 4"
    using unat_and_not_mask [of "free_ram_end L - 16384" 2] by (simp add: ref_top_def mask_2)
  with sub al show "unat (ref_top L) = unat (free_ram L) + 0x2000000 - 16384"
    and "unat (ref_top L) mod 4 = 0"
    by simp_all
qed

definition nodes_of :: "page_alloc \<Rightarrow> u32 multiset" where
  "nodes_of s = mset (map node (free_runs s)) + mset (free_meta_nodes s)"

text \<open>Getting a node: from the node list, or carved below \<^verbatim>\<open>meta_top\<close>.\<close>

lemma alloc_run_node_spec:
  assumes "alloc_run_node s = (nd, s')" and "nodes_inv L (meta_top s) (nodes_of s)"
    and "ld_ok L" and "next_paddr s \<le> meta_top s" and "free_ram L \<le> next_paddr s"
  shows "(nd = None \<longrightarrow> s' = s) \<and>
    (\<forall>a. nd = Some a \<longrightarrow>
      nodes_inv L (meta_top s') (nodes_of s' + {#a#}) \<and> next_paddr s \<le> meta_top s' \<and>
      s' = s\<lparr>free_meta_nodes := free_meta_nodes s', meta_top := meta_top s'\<rparr>)"
proof (cases "free_meta_nodes s")
  case (Cons n ns)
  then have "nd = Some n" "s' = s\<lparr>free_meta_nodes := ns\<rparr>"
    using assms(1) by (simp_all add: alloc_run_node_def)
  with assms Cons show ?thesis
    by (simp add: nodes_of_def)
next
  case Nil
  obtain k where k: "unat (meta_top s) + 12 * k = unat (ref_top L)" "meta_top s = ref_top L - 12 * of_nat k"
    "nodes_of s = mset (carved L k)"
    using assms(2) by (auto simp: nodes_inv_def)
  have ge: "0x80200000 \<le> unat (meta_top s)"
    using assms(4,5) ld_ok_free_ram(4) [OF assms(3)] by (simp add: word_le_nat_alt)
  have sub: "unat (meta_top s - 12) = unat (meta_top s) - 12"
    using ge by (subst unat_sub) (simp_all add: word_le_nat_alt)
  have "(unat (meta_top s) - 12) mod 4 = 0"
  proof -
    obtain r where "unat (ref_top L) = 4 * r"
      using unat_ref_top(2) [OF assms(3)] by (auto simp: mod_eq_0_iff_dvd elim: dvdE)
    then have "unat (meta_top s) - 12 = 4 * (r - 3 * k - 3)"
      using k(1) ge by simp
    then show ?thesis
      by simp
  qed
  then have "unat ((meta_top s - 12) AND NOT 3) = unat (meta_top s - 12)"
    using unat_and_not_mask [of "meta_top s - 12" 2] sub by (simp add: mask_2)
  then have top: "(meta_top s - 12) AND NOT 3 = meta_top s - 12"
    by (simp add: word_unat_eq_iff)
  show ?thesis
  proof (cases "meta_top s - 12 \<le> next_paddr s")
    case True
    with assms(1) Nil top show ?thesis
      by (simp add: alloc_run_node_def)
  next
    case False
    then have res: "nd = Some (meta_top s - 12)" "s' = s\<lparr>meta_top := meta_top s - 12\<rparr>"
      using assms(1) Nil top by (simp_all add: alloc_run_node_def Let_def)
    have "meta_top s - 12 = ref_top L - 12 * of_nat (Suc k)"
      by (simp add: k(2) algebra_simps)
    moreover from this have "carved L (Suc k) = carved L k @ [meta_top s - 12]"
      by (simp add: carved_def)
    moreover have "unat (meta_top s - 12) + 12 * Suc k = unat (ref_top L)"
      using sub k(1) ge by simp
    ultimately have "nodes_inv L (meta_top s - 12) (nodes_of s + {#meta_top s - 12#})"
      unfolding nodes_inv_def using k(3) by (intro exI [of _ "Suc k"]) simp
    with res False show ?thesis
      by (simp add: nodes_of_def)
  qed
qed

section \<open>Giving a page back\<close>

lemma find_cur_spec:
  "find_cur p pre c rest = (pre', cur, rest') \<Longrightarrow> base c \<le> p \<Longrightarrow>
    pre @ c # rest = pre' @ cur # rest' \<and> base cur \<le> p \<and> (rest' \<noteq> [] \<longrightarrow> p \<le> base (hd rest'))"
  by (induction p pre c rest rule: find_cur.induct) (auto split: if_splits)

text \<open>On separated runs the final coalescing pass finds nothing to merge.\<close>

lemma coalesce_walk_id:
  assumes "runs_ok lo hi rs" and "hi < 1048576"
  shows "coalesce_walk rs ns = (rs, ns)"
  using assms
proof (induction rs ns rule: coalesce_walk.induct)
  case (3 c n rs ns)
  have c: "unat (base c) mod 4096 = 0" "unat (base n) mod 4096 = 0" "run_end c < pfn (base n)" "run_end c \<le> hi"
    using "3.prems" by (auto simp: run_ok_def)
  then have lt: "pfn (base c) + unat (pages c) < 1048576"
    using "3.prems"(2) by (simp add: run_end_def)
  have "pfn (base c + pages c * PAGE_SIZE) < pfn (base n)"
    using add_pages [OF c(1) lt] c(3) by (simp add: run_end_def)
  then have ne: "base c + pages c * PAGE_SIZE \<noteq> base n"
    by auto
  with "3.IH"(2) "3.prems" show ?case
    by simp
qed simp_all

lemma unat_pages_plus1: "run_ok lo hi r \<Longrightarrow> hi < 1048576 \<Longrightarrow> unat (pages r + 1) = unat (pages r) + 1"
  by (simp add: run_ok_def run_end_def unat_word_ariths)

lemma unat_pages_plus:
  "unat (pages a) + unat (pages b) < 1048576 \<Longrightarrow> unat (pages a + pages b) = unat (pages a) + unat (pages b)"
  by (simp add: unat_word_ariths)

text \<open>The effect of giving page \<open>p\<close> back on the run list and the nodes.\<close>

definition page_returned :: "ld_layout \<Rightarrow> u32 \<Rightarrow> page_alloc \<Rightarrow> page_alloc \<Rightarrow> bool" where
  "page_returned L p s s' \<longleftrightarrow>
     s' = s\<lparr>free_runs := free_runs s', free_meta_nodes := free_meta_nodes s', meta_top := meta_top s'\<rparr> \<and>
     runs_ok (pfn (free_ram L)) (pfn (next_paddr s)) (free_runs s') \<and>
     free_set (free_runs s') = insert (pfn p) (free_set (free_runs s)) \<and>
     nodes_inv L (meta_top s') (nodes_of s') \<and> next_paddr s \<le> meta_top s'"


text \<open>Where a page that is in no run lies relative to the runs around it.\<close>

lemma not_in_run:
  assumes "pfn p \<notin> run_pages r" and "unat p mod 4096 = 0" and "unat (base r) mod 4096 = 0"
  shows "base r \<le> p \<Longrightarrow> run_end r \<le> pfn p" and "p \<le> base r \<Longrightarrow> pages r \<noteq> 0 \<Longrightarrow> pfn p < pfn (base r)"
proof -
  show "base r \<le> p \<Longrightarrow> run_end r \<le> pfn p"
    using assms by (auto simp: aligned_le_iff run_pages_def)
  assume "p \<le> base r" and "pages r \<noteq> 0"
  then have "pfn p \<le> pfn (base r)" "0 < unat (pages r)"
    using assms by (simp_all add: aligned_le_iff unat_gt_0)
  then show "pfn p < pfn (base r)"
    using assms(1) by (auto simp: run_pages_def run_end_def le_less)
qed

abbreviation (input) new_run :: "u32 \<Rightarrow> u32 \<Rightarrow> page_run" where
  "new_run nd p \<equiv> \<lparr>node = nd, base = p, pages = 1\<rparr>"

lemma new_run_facts [simp]: "run_pages (new_run nd p) = {pfn p}" "run_end (new_run nd p) = Suc (pfn p)"
  by (auto simp: run_pages_def run_end_def)

lemma new_run_ok: "unat p mod 4096 = 0 \<Longrightarrow> lo \<le> pfn p \<Longrightarrow> pfn p < hi \<Longrightarrow> run_ok lo hi (new_run nd p)"
  by (simp add: run_ok_def run_end_def)

text \<open>A run that grows by the page just before it.\<close>

lemma grow_down:
  assumes "run_ok lo hi r" and "hi < 1048576" and "pfn p + 1 = pfn (base r)" and "unat p mod 4096 = 0" and "lo \<le> pfn p"
  shows "run_ok lo hi (r\<lparr>base := p, pages := pages r + 1\<rparr>)"
    and "run_end (r\<lparr>base := p, pages := pages r + 1\<rparr>) = run_end r"
    and "run_pages (r\<lparr>base := p, pages := pages r + 1\<rparr>) = insert (pfn p) (run_pages r)"
proof -
  have u: "unat (pages r + 1) = unat (pages r) + 1"
    by (rule unat_pages_plus1 [OF assms(1,2)])
  then have nz: "pages r + 1 \<noteq> 0"
    by (metis add_is_0 unat_0 zero_neq_one)
  show e: "run_end (r\<lparr>base := p, pages := pages r + 1\<rparr>) = run_end r"
    using u assms(3) by (simp add: run_end_def)
  show "run_ok lo hi (r\<lparr>base := p, pages := pages r + 1\<rparr>)"
    using e assms nz by (simp add: run_ok_def)
  show "run_pages (r\<lparr>base := p, pages := pages r + 1\<rparr>) = insert (pfn p) (run_pages r)"
    using e assms(1,3) by (auto simp: run_pages_def run_end_def)
qed

text \<open>A run that grows by the page just after it.\<close>

lemma grow_up:
  assumes "run_ok lo hi r" and "hi < 1048576" and "run_end r = pfn p" and "pfn p < hi"
  shows "run_ok lo hi (r\<lparr>pages := pages r + 1\<rparr>)"
    and "run_end (r\<lparr>pages := pages r + 1\<rparr>) = Suc (run_end r)"
    and "run_pages (r\<lparr>pages := pages r + 1\<rparr>) = insert (pfn p) (run_pages r)"
proof -
  have u: "unat (pages r + 1) = unat (pages r) + 1"
    by (rule unat_pages_plus1 [OF assms(1,2)])
  then have nz: "pages r + 1 \<noteq> 0"
    by (metis add_is_0 unat_0 zero_neq_one)
  show e: "run_end (r\<lparr>pages := pages r + 1\<rparr>) = Suc (run_end r)"
    using u by (simp add: run_end_def)
  show "run_ok lo hi (r\<lparr>pages := pages r + 1\<rparr>)"
    using e assms nz by (simp add: run_ok_def)
  show "run_pages (r\<lparr>pages := pages r + 1\<rparr>) = insert (pfn p) (run_pages r)"
    using e assms(3) by (auto simp: run_pages_def run_end_def)
qed

text \<open>Two runs that meet become one.\<close>

lemma merge_runs:
  assumes "run_ok lo hi a" and "run_ok lo hi b" and "hi < 1048576" and "run_end a = pfn (base b)"
  shows "run_ok lo hi (a\<lparr>pages := pages a + pages b\<rparr>)"
    and "run_end (a\<lparr>pages := pages a + pages b\<rparr>) = run_end b"
    and "run_pages (a\<lparr>pages := pages a + pages b\<rparr>) = run_pages a \<union> run_pages b"
proof -
  have "unat (pages a) + unat (pages b) < 1048576"
    using assms by (simp add: run_ok_def run_end_def)
  then have u: "unat (pages a + pages b) = unat (pages a) + unat (pages b)"
    by (rule unat_pages_plus)
  then have nz: "pages a + pages b \<noteq> 0"
    using assms(1) by (auto simp: run_ok_def unat_eq_zero)
  show e: "run_end (a\<lparr>pages := pages a + pages b\<rparr>) = run_end b"
    using u assms(4) by (simp add: run_end_def)
  show "run_ok lo hi (a\<lparr>pages := pages a + pages b\<rparr>)"
    using e assms nz by (simp add: run_ok_def)
  show "run_pages (a\<lparr>pages := pages a + pages b\<rparr>) = run_pages a \<union> run_pages b"
    using e assms(4) by (auto simp: run_pages_def run_end_def)
qed

section \<open>Effect of free_single_page_raw\<close>

definition pa_lists_ok :: "ld_layout \<Rightarrow> page_alloc \<Rightarrow> bool" where
  "pa_lists_ok L s \<longleftrightarrow> free_ram L \<le> next_paddr s \<and> next_paddr s \<le> meta_top s \<and>
     unat (next_paddr s) mod 4096 = 0 \<and>
     runs_ok (pfn (free_ram L)) (pfn (next_paddr s)) (free_runs s) \<and>
     nodes_inv L (meta_top s) (nodes_of s)"

text \<open>A run list that keeps its nodes and gains page \<open>p\<close>.\<close>

lemma page_returnedI:
  assumes "pa_lists_ok L s" and "runs_ok (pfn (free_ram L)) (pfn (next_paddr s)) rs"
    and "free_set rs = insert (pfn p) (free_set (free_runs s))"
    and "mset (map node rs) + mset ns = nodes_of s"
  shows "page_returned L p s (s\<lparr>free_runs := rs, free_meta_nodes := ns\<rparr>)"
  using assms by (simp add: page_returned_def pa_lists_ok_def nodes_of_def)

lemma page_returned_new_node:
  assumes "pa_lists_ok L s" and "ld_ok L" and "alloc_run_node s = (Some nd, s1)"
    and "runs_ok (pfn (free_ram L)) (pfn (next_paddr s)) (pre @ new_run nd p # post)"
    and "free_runs s = pre @ post"
  shows "page_returned L p s (s1\<lparr>free_runs := pre @ new_run nd p # post\<rparr>)"
proof -
  obtain ns mt where s1: "s1 = s\<lparr>free_meta_nodes := ns, meta_top := mt\<rparr>"
    and inv: "nodes_inv L mt (nodes_of s1 + {#nd#})" "next_paddr s \<le> mt"
    using alloc_run_node_spec [OF assms(3), of L] assms(1,2) unfolding pa_lists_ok_def by blast
  show ?thesis
    using assms(4,5) inv by (simp add: s1 page_returned_def nodes_of_def)
qed

text \<open>The three places that need a new node fail without any change when there is none.\<close>

definition returned_or_leak :: "ld_layout \<Rightarrow> u32 \<Rightarrow> page_alloc \<Rightarrow> (int \<times> page_alloc) kres \<Rightarrow> bool" where
  "returned_or_leak L p s r \<longleftrightarrow>
     (\<exists>rc s'. r = Inr (rc, s') \<and> (rc = -1 \<and> s' = s \<or> rc = 0 \<and> page_returned L p s s'))"

lemma returned_or_leak_Inr [simp]:
  "returned_or_leak L p s (Inr (0, s')) \<longleftrightarrow> page_returned L p s s'"
  by (simp add: returned_or_leak_def)

lemma returned_or_leak_node:
  assumes "pa_lists_ok L s" and "ld_ok L"
    and "\<And>nd s1. alloc_run_node s = (Some nd, s1) \<Longrightarrow> page_returned L p s (f nd s1)"
  shows "returned_or_leak L p s
    (case alloc_run_node s of (None, s) \<Rightarrow> Inr (-1, s) | (Some nd, s) \<Rightarrow> Inr (0, f nd s))"
proof (cases "alloc_run_node s")
  case (Pair nd s1)
  with assms alloc_run_node_spec [OF Pair, of L] show ?thesis
    by (cases nd) (auto simp: pa_lists_ok_def returned_or_leak_def)
qed

lemma free_before_first:
  assumes "pa_lists_ok L s" and "ld_ok L" and "unat p mod 4096 = 0"
    and "pfn p \<notin> free_set (free_runs s)" and "pfn (free_ram L) \<le> pfn p" and "pfn p < pfn (next_paddr s)"
    and "free_runs s = r0 # rs0" and "p < base r0"
  shows "returned_or_leak L p s (free_single_page_raw p s)"
proof -
  define lo hi where "lo = pfn (free_ram L)" and "hi = pfn (next_paddr s)"
  have hi: "hi < 1048576"
    by (simp add: hi_def pfn_less)
  have r0: "run_ok lo hi r0" "\<forall>b\<in>set rs0. run_end r0 < pfn (base b)" "runs_ok lo hi rs0"
    using assms(1,7) by (simp_all add: pa_lists_ok_def lo_def hi_def)
  have al: "unat (base r0) mod 4096 = 0"
    using r0(1) by (simp add: run_ok_def)
  have lt: "pfn p < pfn (base r0)"
    using assms(3,8) al by (simp add: aligned_less_iff)
  have cmp: "\<not> ucast (base r0) < (ucast p + 4096 :: u64)"
    "(ucast p + 4096 :: u64) = ucast (base r0) \<longleftrightarrow> pfn p + 1 = pfn (base r0)"
    using lt by (simp_all only: page_end64_cmp [OF assms(3) al])
  have above: "pfn (base r0) < pfn (base b)" if "b \<in> set rs0" for b
    using r0(2) that by (auto simp: run_end_def)
  show ?thesis
  proof (cases "pfn p + 1 = pfn (base r0)")
    case True
    note g = grow_down [OF r0(1) hi True assms(3)]
    have "page_returned L p s (s\<lparr>free_runs := r0\<lparr>base := p, pages := pages r0 + 1\<rparr> # rs0,
        free_meta_nodes := free_meta_nodes s\<rparr>)"
      using assms(1,5,7) g r0 by (intro page_returnedI) (auto simp: nodes_of_def lo_def hi_def)
    then show ?thesis
      using True cmp assms(7,8) by (simp add: free_single_page_raw_def Let_def)
  next
    case False
    then have gap: "Suc (pfn p) < pfn (base b)" if "b \<in> set (r0 # rs0)" for b
      using that lt above by fastforce
    have "page_returned L p s (s1\<lparr>free_runs := [] @ new_run nd p # r0 # rs0\<rparr>)"
      if "alloc_run_node s = (Some nd, s1)" for nd s1
      using gap r0 assms(3,5,6) that
      by (intro page_returned_new_node [OF assms(1,2)]) (auto simp: new_run_ok assms(7) lo_def hi_def)
    then have "returned_or_leak L p s
      (case alloc_run_node s of (None, s) \<Rightarrow> Inr (-1, s)
       | (Some nd, s) \<Rightarrow> Inr (0, s\<lparr>free_runs := [] @ new_run nd p # r0 # rs0\<rparr>))"
      by (rule returned_or_leak_node [OF assms(1,2)])
    then show ?thesis
      using False cmp assms(7,8) unfolding append_Nil by (simp add: free_single_page_raw_def Let_def)
  qed
qed

text \<open>
  The page lies at or after the first run: the facts the search leaves about the current run,
  the runs before it and the runs after it.
\<close>

definition gap_at :: "nat \<Rightarrow> nat \<Rightarrow> u32 \<Rightarrow> page_run list \<Rightarrow> page_run \<Rightarrow> page_run list \<Rightarrow> bool" where
  "gap_at lo hi p pre cur rest \<longleftrightarrow>
     runs_ok lo hi (pre @ cur # rest) \<and> hi < 1048576 \<and> unat p mod 4096 = 0 \<and>
     lo \<le> pfn p \<and> pfn p < hi \<and> run_end cur \<le> pfn p \<and> (\<forall>b\<in>set rest. pfn p < pfn (base b))"

lemma gap_at_find_cur:
  assumes "find_cur p [] r0 rs0 = (pre, cur, rest)" and "\<not> p < base r0"
    and "runs_ok lo hi (r0 # rs0)" and "hi < 1048576" and "unat p mod 4096 = 0"
    and "lo \<le> pfn p" and "pfn p < hi" and "pfn p \<notin> free_set (r0 # rs0)"
  shows "r0 # rs0 = pre @ cur # rest" and "gap_at lo hi p pre cur rest"
proof -
  show split: "r0 # rs0 = pre @ cur # rest"
    using find_cur_spec [OF assms(1)] assms(2) by simp
  have le: "base cur \<le> p" and nx: "rest \<noteq> [] \<Longrightarrow> p \<le> base (hd rest)"
    using find_cur_spec [OF assms(1)] assms(2) by auto
  have runs: "runs_ok lo hi (pre @ cur # rest)" and notin: "pfn p \<notin> free_set (pre @ cur # rest)"
    using assms(3,8) split by simp_all
  have "run_end cur \<le> pfn p"
    using not_in_run(1) [OF _ assms(5) _ le] runs notin by (simp add: run_ok_def)
  moreover have "pfn p < pfn (base b)" if "b \<in> set rest" for b
  proof -
    obtain n rest' where rest: "rest = n # rest'"
      using \<open>b \<in> set rest\<close> by (cases rest) auto
    have "pfn p < pfn (base n)"
      using not_in_run(2) [OF _ assms(5), of n] runs notin nx rest by (simp add: run_ok_def)
    moreover have "b = n \<or> pfn (base n) < pfn (base b)"
      using runs rest that by (auto simp: run_end_def)
    ultimately show ?thesis
      by auto
  qed
  ultimately show "gap_at lo hi p pre cur rest"
    using runs assms(4-7) by (simp add: gap_at_def)
qed

lemma gap_at_cmp:
  assumes "gap_at lo hi p pre cur rest"
  shows "\<not> ucast p < end64 (base cur) (pages cur)"
    and "end64 (base cur) (pages cur) = ucast p \<longleftrightarrow> run_end cur = pfn p"
    and "\<not> (rest \<noteq> [] \<and> ucast (base (hd rest)) < (ucast p + 4096 :: u64))"
    and "rest \<noteq> [] \<Longrightarrow> (ucast p + 4096 :: u64) = ucast (base (hd rest)) \<longleftrightarrow> Suc (pfn p) = pfn (base (hd rest))"
proof -
  have al: "unat p mod 4096 = 0" "unat (base cur) mod 4096 = 0" "run_end cur \<le> pfn p"
    using assms by (simp_all add: gap_at_def run_ok_def)
  then show "\<not> ucast p < end64 (base cur) (pages cur)"
    and "end64 (base cur) (pages cur) = ucast p \<longleftrightarrow> run_end cur = pfn p"
    by (simp_all add: end64_cmp run_end_def)
  have rest: "unat (base (hd rest)) mod 4096 = 0" "pfn p < pfn (base (hd rest))" if "rest \<noteq> []"
    using assms that by (cases rest; simp add: gap_at_def run_ok_def)+
  then show "\<not> (rest \<noteq> [] \<and> ucast (base (hd rest)) < (ucast p + 4096 :: u64))"
    and "rest \<noteq> [] \<Longrightarrow> (ucast p + 4096 :: u64) = ucast (base (hd rest)) \<longleftrightarrow> Suc (pfn p) = pfn (base (hd rest))"
    using al by (auto simp: page_end64_cmp)
qed

text \<open>The page joins the current run, and possibly the run after it.\<close>

lemma join_cur:
  assumes "gap_at lo hi p pre cur rest" and "run_end cur = pfn p"
  defines "cur1 \<equiv> cur\<lparr>pages := pages cur + 1\<rparr>"
  shows "(\<forall>b\<in>set rest. Suc (pfn p) < pfn (base b)) \<Longrightarrow> runs_ok lo hi (pre @ cur1 # rest)"
    and "free_set (pre @ cur1 # rest) = insert (pfn p) (free_set (pre @ cur # rest))"
    and "run_ok lo hi cur1" and "run_end cur1 = Suc (pfn p)" and "base cur1 = base cur"
proof -
  have g: "run_ok lo hi cur" "hi < 1048576" "pfn p < hi" "runs_ok lo hi pre" "runs_ok lo hi rest"
    "\<forall>a\<in>set pre. run_end a < pfn (base cur)" "\<forall>a\<in>set pre. \<forall>b\<in>set rest. run_end a < pfn (base b)"
    using assms(1) by (simp_all add: gap_at_def)
  note u = grow_up [OF g(1,2) assms(2) g(3), folded cur1_def]
  show "run_ok lo hi cur1" "run_end cur1 = Suc (pfn p)" "base cur1 = base cur"
    using u assms(2) by (simp_all add: cur1_def)
  then show "(\<forall>b\<in>set rest. Suc (pfn p) < pfn (base b)) \<Longrightarrow> runs_ok lo hi (pre @ cur1 # rest)"
    using g by auto
  show "free_set (pre @ cur1 # rest) = insert (pfn p) (free_set (pre @ cur # rest))"
    using u by auto
qed

lemma free_joins_cur:
  assumes "pa_lists_ok L s" and "gap_at (pfn (free_ram L)) (pfn (next_paddr s)) p pre cur rest"
    and "free_runs s = pre @ cur # rest" and "run_end cur = pfn p"
  defines "cur1 \<equiv> cur\<lparr>pages := pages cur + 1\<rparr>"
  shows "returned_or_leak L p s (case rest of
      n # rest' \<Rightarrow> if end64 (base cur1) (pages cur1) = ucast (base n)
        then Inr (0, release_run_node (node n) (s\<lparr>free_runs := pre @ cur1\<lparr>pages := pages cur1 + pages n\<rparr> # rest'\<rparr>))
        else Inr (0, s\<lparr>free_runs := pre @ cur1 # rest\<rparr>)
    | [] \<Rightarrow> Inr (0, s\<lparr>free_runs := pre @ cur1 # rest\<rparr>))"
proof -
  define lo hi where "lo = pfn (free_ram L)" and "hi = pfn (next_paddr s)"
  note gap = assms(2) [folded lo_def hi_def]
  note j = join_cur [OF gap assms(4), folded cur1_def]
  have plain: "page_returned L p s (s\<lparr>free_runs := pre @ cur1 # rest, free_meta_nodes := free_meta_nodes s\<rparr>)"
    if "\<forall>b\<in>set rest. Suc (pfn p) < pfn (base b)"
    using that assms(1,3) j by (intro page_returnedI) (simp_all add: nodes_of_def lo_def hi_def cur1_def)
  show ?thesis
  proof (cases rest)
    case Nil
    then show ?thesis
      using plain by simp
  next
    case (Cons n rest')
    have n: "run_ok lo hi n" "unat (base n) mod 4096 = 0" "pfn p < pfn (base n)" "unat (base cur1) mod 4096 = 0"
      "\<forall>b\<in>set rest'. run_end n < pfn (base b)" "runs_ok lo hi (pre @ rest')" "hi < 1048576"
      "\<forall>a\<in>set pre. run_end a < pfn (base cur1)"
      using gap Cons by (simp_all add: gap_at_def run_ok_def cur1_def)
    have e: "end64 (base cur1) (pages cur1) = ucast (base n) \<longleftrightarrow> run_end cur1 = pfn (base n)"
      by (simp add: end64_cmp [OF n(2) n(4)] run_end_def)
    show ?thesis
    proof (cases "run_end cur1 = pfn (base n)")
      case True
      note m = merge_runs [OF j(3) n(1) n(7) True]
      have "page_returned L p s (s\<lparr>free_runs := pre @ cur1\<lparr>pages := pages cur1 + pages n\<rparr> # rest',
          free_meta_nodes := node n # free_meta_nodes s\<rparr>)"
        using assms(1,3) m n j(2) Cons
        by (intro page_returnedI) (auto simp: nodes_of_def lo_def hi_def cur1_def)
      then show ?thesis
        using Cons e True by (simp add: release_run_node_def)
    next
      case False
      then have "\<forall>b\<in>set rest. Suc (pfn p) < pfn (base b)"
        using j(4) n(3,5) Cons by (fastforce simp: run_end_def)
      then show ?thesis
        using plain Cons e False by simp
    qed
  qed
qed

lemma free_joins_next:
  assumes "pa_lists_ok L s" and "gap_at (pfn (free_ram L)) (pfn (next_paddr s)) p pre cur (n # rest)"
    and "free_runs s = pre @ cur # n # rest" and "run_end cur \<noteq> pfn p" and "Suc (pfn p) = pfn (base n)"
  shows "page_returned L p s (s\<lparr>free_runs := pre @ cur # n\<lparr>base := p, pages := pages n + 1\<rparr> # rest\<rparr>)"
proof -
  define lo hi where "lo = pfn (free_ram L)" and "hi = pfn (next_paddr s)"
  have n: "run_ok lo hi n" "hi < 1048576" "unat p mod 4096 = 0" "lo \<le> pfn p" "run_end cur < pfn p"
    "pfn p + 1 = pfn (base n)" "\<forall>a\<in>set pre. run_end a < pfn (base cur)" "runs_ok lo hi (pre @ cur # rest)"
    "\<forall>b\<in>set rest. run_end n < pfn (base b)"
    using assms(2,4,5) by (auto simp: gap_at_def lo_def hi_def)
  note g = grow_down [OF n(1,2,6,3,4)]
  have "page_returned L p s (s\<lparr>free_runs := pre @ cur # n\<lparr>base := p, pages := pages n + 1\<rparr> # rest,
      free_meta_nodes := free_meta_nodes s\<rparr>)"
    using assms(1,3) g n by (intro page_returnedI) (auto simp: nodes_of_def lo_def hi_def run_end_def)
  then show ?thesis
    by simp
qed

lemma free_between:
  assumes "pa_lists_ok L s" and "ld_ok L" and "gap_at (pfn (free_ram L)) (pfn (next_paddr s)) p pre cur rest"
    and "free_runs s = pre @ cur # rest" and "run_end cur \<noteq> pfn p"
    and "rest \<noteq> [] \<Longrightarrow> Suc (pfn p) \<noteq> pfn (base (hd rest))" and "alloc_run_node s = (Some nd, s1)"
  shows "page_returned L p s (coalesce_free_runs (s1\<lparr>free_runs := pre @ cur # new_run nd p # rest\<rparr>))"
proof -
  define lo hi where "lo = pfn (free_ram L)" and "hi = pfn (next_paddr s)"
  have g: "runs_ok lo hi (pre @ cur # rest)" "hi < 1048576" "run_end cur < pfn p"
    "run_ok lo hi (new_run nd p)" "\<forall>b\<in>set rest. pfn p < pfn (base b)"
    using assms(3,5) by (auto simp: gap_at_def lo_def hi_def new_run_ok)
  have far: "Suc (pfn p) < pfn (base b)" if "b \<in> set rest" for b
  proof -
    obtain n rest' where rest: "rest = n # rest'"
      using \<open>b \<in> set rest\<close> by (cases rest) auto
    then have n: "Suc (pfn p) < pfn (base n)"
      using g(5) assms(6) by (simp add: Suc_lessI)
    have "b = n \<or> pfn (base n) < pfn (base b)"
      using g(1) rest that by (auto simp: run_end_def)
    then show ?thesis
      using n by auto
  qed
  have pre: "run_end a < pfn p" if "a \<in> set pre" for a
    using g(1,3) that by (auto simp: run_end_def)
  have new: "runs_ok lo hi (pre @ cur # new_run nd p # rest)"
    using g(1,3,4) far pre by simp
  have "page_returned L p s (s1\<lparr>free_runs := (pre @ [cur]) @ new_run nd p # rest\<rparr>)"
    using new assms(4) by (intro page_returned_new_node [OF assms(1,2,7)]) (auto simp: lo_def hi_def)
  then show ?thesis
    by (simp add: coalesce_free_runs_def coalesce_walk_id [OF new g(2)])
qed

lemma free_after_first:
  assumes "pa_lists_ok L s" and "ld_ok L" and "unat p mod 4096 = 0"
    and "pfn p \<notin> free_set (free_runs s)" and "pfn (free_ram L) \<le> pfn p" and "pfn p < pfn (next_paddr s)"
    and "free_runs s = r0 # rs0" and "\<not> p < base r0"
  shows "returned_or_leak L p s (free_single_page_raw p s)"
proof -
  obtain pre cur rest where fc: "find_cur p [] r0 rs0 = (pre, cur, rest)"
    by (metis prod_cases3)
  have split: "free_runs s = pre @ cur # rest"
    and gap: "gap_at (pfn (free_ram L)) (pfn (next_paddr s)) p pre cur rest"
    using gap_at_find_cur [OF fc assms(8), of "pfn (free_ram L)" "pfn (next_paddr s)"] assms
    by (simp_all add: pa_lists_ok_def pfn_less)
  note cmp = gap_at_cmp [OF gap] and unf = free_single_page_raw_def Let_def
  consider "run_end cur = pfn p"
    | "run_end cur \<noteq> pfn p" "rest \<noteq> []" "Suc (pfn p) = pfn (base (hd rest))"
    | "run_end cur \<noteq> pfn p" "rest \<noteq> [] \<Longrightarrow> Suc (pfn p) \<noteq> pfn (base (hd rest))"
    by blast
  then show ?thesis
  proof cases
    case 1
    then show ?thesis
      using free_joins_cur [OF assms(1) gap split 1] cmp(1,2) assms(7,8) fc by (simp add: unf if_not_P [OF cmp(3)])
  next
    case 2
    then obtain n rest' where "rest = n # rest'"
      by (cases rest) auto
    moreover from this have "page_returned L p s (s\<lparr>free_runs := pre @ cur # n\<lparr>base := p, pages := pages n + 1\<rparr> # rest'\<rparr>)"
      using free_joins_next [OF assms(1), of p pre cur n rest'] gap split 2 by simp
    ultimately show ?thesis
      using 2 cmp assms(7,8) fc by (simp add: unf)
  next
    case 3
    have "returned_or_leak L p s
      (case alloc_run_node s of (None, s) \<Rightarrow> Inr (-1, s)
       | (Some nd, s) \<Rightarrow> Inr (0, coalesce_free_runs (s\<lparr>free_runs := pre @ cur # new_run nd p # rest\<rparr>)))"
      by (rule returned_or_leak_node [OF assms(1,2)]) (rule free_between [OF assms(1,2) gap split 3])
    moreover have "\<not> (rest \<noteq> [] \<and> (ucast p + 4096 :: u64) = ucast (base (hd rest)))"
      using 3 cmp(4) by blast
    ultimately show ?thesis
      using 3(1) cmp(1-3) assms(7,8) fc by (simp add: unf if_not_P [OF cmp(3)] if_not_P)
  qed
qed

lemma free_single_page_raw_spec:
  assumes "pa_lists_ok L s" and "ld_ok L" and "unat p mod 4096 = 0"
    and "pfn p \<notin> free_set (free_runs s)" and "pfn (free_ram L) \<le> pfn p" and "pfn p < pfn (next_paddr s)"
  shows "returned_or_leak L p s (free_single_page_raw p s)"
proof (cases "free_runs s")
  case Nil
  have "page_returned L p s (s1\<lparr>free_runs := [] @ new_run nd p # []\<rparr>)" if "alloc_run_node s = (Some nd, s1)" for nd s1
    using Nil that assms(3,5,6) by (intro page_returned_new_node [OF assms(1,2)]) (simp_all add: new_run_ok)
  then have "returned_or_leak L p s
      (case alloc_run_node s of (None, s) \<Rightarrow> Inr (-1, s)
       | (Some nd, s) \<Rightarrow> Inr (0, s\<lparr>free_runs := [] @ new_run nd p # []\<rparr>))"
    by (rule returned_or_leak_node [OF assms(1,2)])
  then show ?thesis
    unfolding append_Nil by (simp add: free_single_page_raw_def Nil Let_def)
next
  case (Cons r0 rs0)
  then show ?thesis
    using free_before_first [OF assms Cons] free_after_first [OF assms Cons] by blast
qed

end
