(* ===== verification/Page_Alloc_Spec.thy ===== *)
theory Page_Alloc_Spec
  imports Page_Alloc_Inv
begin

text \<open>
  What the page allocator promises: an invariant of its whole state that every operation
  keeps, and the effect of each operation on the abstract state, the number of references
  \<open>refs L s q\<close> to each page frame \<open>q\<close> and the bytes of memory.
\<close>

section \<open>Invariant and abstraction\<close>

definition refs :: "ld_layout \<Rightarrow> page_alloc \<Rightarrow> nat \<Rightarrow> nat" where
  "refs L s q =
     (if allocator_initialized s \<and> pfn (free_ram L) \<le> q \<and> q < pfn (free_ram L) + 8192
      then unat (page_refcnt s ! (q - pfn (free_ram L))) else 0)"

definition pa_ok :: "ld_layout \<Rightarrow> page_alloc \<Rightarrow> bool" where
  "pa_ok L s \<longleftrightarrow> allocator_initialized s \<and> managed_page_count s = 8192 \<and> length (page_refcnt s) = 8192 \<and>
     pa_lists_ok L s \<and>
     (\<forall>q. pfn (free_ram L) \<le> q \<and> q < pfn (free_ram L) + 8192 \<longrightarrow>
        (refs L s q = 0 \<longleftrightarrow> q \<in> free_set (free_runs s) \<or> pfn (next_paddr s) \<le> q))"

definition pa_inv :: "ld_layout \<Rightarrow> page_alloc \<Rightarrow> bool" where
  "pa_inv L s \<longleftrightarrow> alloc_lock s = 0 \<and> (allocator_initialized s \<longrightarrow> pa_ok L s)"

lemma refs_congs [simp]:
  "refs L (s\<lparr>alloc_lock := v\<rparr>) = refs L s"
  "refs L (s\<lparr>pmem := m\<rparr>) = refs L s"
  "refs L (s\<lparr>free_runs := rs\<rparr>) = refs L s"
  "refs L (s\<lparr>free_meta_nodes := ns\<rparr>) = refs L s"
  "refs L (s\<lparr>meta_top := t\<rparr>) = refs L s"
  "refs L (s\<lparr>next_paddr := a\<rparr>) = refs L s"
  "refs L (s\<lparr>free_meta_oom_warned := w\<rparr>) = refs L s"
  by (simp_all add: refs_def fun_eq_iff)

lemma pa_lists_ok_congs [simp]:
  "pa_lists_ok L (s\<lparr>alloc_lock := v\<rparr>) = pa_lists_ok L s"
  "pa_lists_ok L (s\<lparr>pmem := m\<rparr>) = pa_lists_ok L s"
  "pa_lists_ok L (s\<lparr>page_refcnt := c\<rparr>) = pa_lists_ok L s"
  "pa_lists_ok L (s\<lparr>free_meta_oom_warned := w\<rparr>) = pa_lists_ok L s"
  by (simp_all add: pa_lists_ok_def nodes_of_def)

lemma pa_ok_congs [simp]:
  "pa_ok L (s\<lparr>alloc_lock := v\<rparr>) = pa_ok L s"
  "pa_ok L (s\<lparr>pmem := m\<rparr>) = pa_ok L s"
  "pa_ok L (s\<lparr>free_meta_oom_warned := w\<rparr>) = pa_ok L s"
  by (simp_all add: pa_ok_def)

lemma ram_pfn:
  assumes "ld_ok L"
  shows "unat (free_ram L) = pfn (free_ram L) * 4096" and "pfn (free_ram L) + 8192 < 1048576"
    and "unat (free_ram_end L) = (pfn (free_ram L) + 8192) * 4096" and "524800 \<le> pfn (free_ram L)"
proof -
  note L = ld_ok_free_ram [OF assms]
  show f: "unat (free_ram L) = pfn (free_ram L) * 4096"
    by (rule pfn_aligned [OF L(1)])
  with L show "pfn (free_ram L) + 8192 < 1048576"
    and "unat (free_ram_end L) = (pfn (free_ram L) + 8192) * 4096" and "524800 \<le> pfn (free_ram L)"
    by simp_all
qed

lemma pa_ok_bump:
  assumes "pa_ok L s" and "ld_ok L"
  shows "pfn (free_ram L) \<le> pfn (next_paddr s)" and "unat (next_paddr s) = pfn (next_paddr s) * 4096"
    and "pfn (next_paddr s) \<le> pfn (free_ram L) + 8188" and "unat (meta_top s) \<le> unat (ref_top L)"
    and "unat (next_paddr s) \<le> unat (meta_top s)"
proof -
  have l: "free_ram L \<le> next_paddr s" "next_paddr s \<le> meta_top s" "unat (next_paddr s) mod 4096 = 0"
    "nodes_inv L (meta_top s) (nodes_of s)"
    using assms(1) by (simp_all add: pa_ok_def pa_lists_ok_def)
  show n: "unat (next_paddr s) = pfn (next_paddr s) * 4096"
    by (rule pfn_aligned [OF l(3)])
  show "pfn (free_ram L) \<le> pfn (next_paddr s)"
    using l(1) by (simp add: pfn_def word_le_nat_alt div_le_mono)
  show m: "unat (meta_top s) \<le> unat (ref_top L)"
    using l(4) by (auto simp: nodes_inv_def)
  show nm: "unat (next_paddr s) \<le> unat (meta_top s)"
    using l(2) by (simp add: word_le_nat_alt)
  show "pfn (next_paddr s) \<le> pfn (free_ram L) + 8188"
    using n m nm unat_ref_top(1) [OF assms(2)] ram_pfn(1) [OF assms(2)] by simp
qed

section \<open>Initialisation and page indices\<close>

lemma init_allocator_spec:
  assumes "allocator_initialized s \<longrightarrow> pa_ok L s" and "ld_ok L"
  obtains s1 where "init_allocator_if_needed L s = (0, s1)" and "pa_ok L s1" and "refs L s1 = refs L s"
    and "pmem s1 = pmem s" and "alloc_lock s1 = alloc_lock s" and "free_meta_oom_warned s1 = free_meta_oom_warned s"
proof (cases "allocator_initialized s")
  case True
  then show ?thesis
    using assms that by (simp add: init_allocator_if_needed_def)
next
  case False
  note L = ld_ok_free_ram [OF assms(2)] and T = unat_ref_top [OF assms(2)]
  have "unat (free_ram_end L - free_ram L) = 0x2000000"
    using L by (subst unat_sub) (simp_all add: word_le_nat_alt)
  then have "unat ((free_ram_end L - free_ram L) div 4096) = unat (8192 :: u32)"
    by (simp add: unat_div)
  then have cnt: "(free_ram_end L - free_ram L) div 4096 = 8192"
    by (simp only: word_unat_eq_iff)
  have top: "\<not> ref_top L \<le> free_ram L"
    using T L by (simp add: word_le_nat_alt)
  let ?s = "s\<lparr>free_runs := [], free_meta_nodes := [], next_paddr := free_ram L,
     managed_page_count := 8192, meta_top := ref_top L, page_refcnt := replicate 8192 0, allocator_initialized := True\<rparr>"
  have init: "init_allocator_if_needed L s = (0, ?s)"
    using False top by (simp add: init_allocator_if_needed_def Let_def cnt ref_top_def)
  have r: "refs L ?s = (\<lambda>q. 0)" "refs L s = (\<lambda>q. 0)"
    using False by (auto simp: refs_def fun_eq_iff)
  have "nodes_inv L (ref_top L) {#}"
    by (auto simp: nodes_inv_def carved_def intro: exI [of _ 0])
  then have "pa_lists_ok L ?s"
    using top L by (simp add: pa_lists_ok_def nodes_of_def)
  then have "pa_ok L ?s"
    using r by (simp add: pa_ok_def)
  then show ?thesis
    using that [OF init] r by simp
qed

definition managed :: "ld_layout \<Rightarrow> u32 \<Rightarrow> bool" where
  "managed L a \<longleftrightarrow> unat a mod 4096 = 0 \<and> pfn (free_ram L) \<le> pfn a \<and> pfn a < pfn (free_ram L) + 8192"

lemma page_idx_spec:
  assumes "ld_ok L" and "managed_page_count s = 8192"
  shows "page_idx_if_managed L s a = (if managed L a then Some (of_nat (pfn a - pfn (free_ram L))) else None)"
proof (cases "unat a mod 4096 = 0")
  case True
  note R = ram_pfn [OF assms(1)] and a = pfn_aligned [OF True]
  have lo: "a < free_ram L \<longleftrightarrow> \<not> pfn (free_ram L) \<le> pfn a"
    and hi: "free_ram_end L \<le> a \<longleftrightarrow> \<not> pfn a < pfn (free_ram L) + 8192"
    using R a by (auto simp: word_less_nat_alt word_le_nat_alt)
  show ?thesis
  proof (cases "managed L a")
    case m: True
    then have le: "free_ram L \<le> a"
      using lo by (simp add: managed_def not_less)
    have d: "unat ((a - free_ram L) div 4096) = pfn a - pfn (free_ram L)"
    proof -
      have "unat (a - free_ram L) = (pfn a - pfn (free_ram L)) * 4096"
        using le a R by (simp add: unat_sub left_diff_distrib)
      then show ?thesis
        by (simp add: unat_div)
    qed
    then have e: "(a - free_ram L) div 4096 = of_nat (pfn a - pfn (free_ram L))"
      by (metis of_nat_unat ucast_id)
    have "\<not> 8192 \<le> (a - free_ram L) div 4096"
      using d m by (auto simp: word_le_nat_alt managed_def)
    then show ?thesis
      using m lo hi assms(2) True by (simp add: page_idx_if_managed_def managed_def is_page_aligned_iff e)
  next
    case False
    then show ?thesis
      using lo hi True by (auto simp: page_idx_if_managed_def managed_def is_page_aligned_iff)
  qed
next
  case False
  then show ?thesis
    by (simp add: page_idx_if_managed_def managed_def is_page_aligned_iff)
qed

lemma unat_of_nat_small: "k < 4294967296 \<Longrightarrow> unat (of_nat k :: u32) = k"
  by (simp add: unat_of_nat)

lemma idx_unat: "managed L a \<Longrightarrow> unat (of_nat (pfn a - pfn (free_ram L)) :: u32) = pfn a - pfn (free_ram L)"
  by (rule unat_of_nat_small) (auto simp: managed_def)

text \<open>The counter of a managed page, read and written.\<close>

lemma refs_read:
  assumes "managed L a" and "allocator_initialized s"
  shows "unat (page_refcnt s ! (pfn a - pfn (free_ram L))) = refs L s (pfn a)"
  using assms by (simp add: refs_def managed_def)

lemma refs_write:
  assumes "managed L a" and "allocator_initialized s" and "length (page_refcnt s) = 8192"
  shows "refs L (s\<lparr>page_refcnt := (page_refcnt s)[pfn a - pfn (free_ram L) := v]\<rparr>) = (refs L s)(pfn a := unat v)"
  using assms by (auto simp: refs_def managed_def fun_eq_iff nth_list_update)


section \<open>Allocation\<close>

lemma mark_one_spec:
  assumes "ld_ok L" and "managed_page_count s = 8192" and "length (page_refcnt s) = 8192"
    and "allocator_initialized s" and "managed L a"
  obtains c where "mark_one L a s = s\<lparr>page_refcnt := c\<rparr>" and "length c = 8192"
    and "refs L (s\<lparr>page_refcnt := c\<rparr>) = (refs L s)(pfn a := 1)"
proof -
  have "mark_one L a s = s\<lparr>page_refcnt := (page_refcnt s)[pfn a - pfn (free_ram L) := 1]\<rparr>"
    using page_idx_spec [OF assms(1,2), of a] assms(5) by (simp add: mark_one_def idx_unat)
  then show ?thesis
    using that refs_write [OF assms(5,4,3), of 1] assms(3) by simp
qed

lemma page_addrs_Suc: "page_addrs p (Suc k) = page_addrs p k @ [p + of_nat k * 4096]"
  by (simp add: page_addrs_def)

lemma page_addr_nth:
  assumes "unat p mod 4096 = 0" and "pfn p + k < 1048576"
  shows "unat (p + of_nat k * 4096) mod 4096 = 0" and "pfn (p + of_nat k * 4096) = pfn p + k"
proof -
  have k: "unat (of_nat k :: u32) = k"
    using assms(2) by (simp add: unat_of_nat_small)
  show "unat (p + of_nat k * 4096) mod 4096 = 0" and "pfn (p + of_nat k * 4096) = pfn p + k"
    using add_pages [OF assms(1), of "of_nat k"] assms(2) k by simp_all
qed

lemma mark_pages_spec:
  assumes "ld_ok L" and "managed_page_count s = 8192" and "length (page_refcnt s) = 8192"
    and "allocator_initialized s" and "unat p mod 4096 = 0" and "pfn (free_ram L) \<le> pfn p"
    and "pfn p + k \<le> pfn (free_ram L) + 8192"
  shows "\<exists>c. fold (mark_one L) (page_addrs p k) s = s\<lparr>page_refcnt := c\<rparr> \<and> length c = 8192 \<and>
    refs L (s\<lparr>page_refcnt := c\<rparr>) = (\<lambda>q. if q \<in> {pfn p..<pfn p + k} then 1 else refs L s q)"
  using assms(7)
proof (induction k)
  case 0
  show ?case
    using assms(3) by (intro exI [of _ "page_refcnt s"]) (simp add: page_addrs_def)
next
  case (Suc k)
  then obtain c where c: "fold (mark_one L) (page_addrs p k) s = s\<lparr>page_refcnt := c\<rparr>" "length c = 8192"
    "refs L (s\<lparr>page_refcnt := c\<rparr>) = (\<lambda>q. if q \<in> {pfn p..<pfn p + k} then 1 else refs L s q)"
    by auto
  let ?a = "p + of_nat k * 4096" and ?s = "s\<lparr>page_refcnt := c\<rparr>"
  have lt: "pfn p + k < 1048576"
    using Suc.prems ram_pfn(2) [OF assms(1)] by simp
  note a = page_addr_nth [OF assms(5) lt]
  have "managed L ?a"
    using a assms(6) Suc.prems by (simp add: managed_def)
  then obtain c' where "mark_one L ?a ?s = ?s\<lparr>page_refcnt := c'\<rparr>" "length c' = 8192"
    "refs L (?s\<lparr>page_refcnt := c'\<rparr>) = (refs L ?s)(pfn ?a := 1)"
    using mark_one_spec [OF assms(1), of ?s ?a] assms(2,4) c(2) by auto
  then show ?case
    using c a(2) by (intro exI [of _ c']) (auto simp: page_addrs_Suc fun_eq_iff)
qed

text \<open>The result of handing out \<open>n\<close> pages at \<open>p\<close>.\<close>

definition handed_out :: "ld_layout \<Rightarrow> u32 \<Rightarrow> nat \<Rightarrow> page_alloc \<Rightarrow> page_alloc \<Rightarrow> bool" where
  "handed_out L p n s s' \<longleftrightarrow>
     unat p mod 4096 = 0 \<and> pfn (free_ram L) \<le> pfn p \<and> pfn p + n \<le> pfn (free_ram L) + 8188 \<and>
     (\<forall>q\<in>{pfn p..<pfn p + n}. refs L s q = 0) \<and>
     refs L s' = (\<lambda>q. if q \<in> {pfn p..<pfn p + n} then 1 else refs L s q) \<and>
     pmem s' = mem_fill p 0 (of_nat n * PAGE_SIZE) (pmem s) \<and>
     free_meta_oom_warned s' = free_meta_oom_warned s"

lemma handed_out_lock [simp]:
  "handed_out L p n s (s'\<lparr>alloc_lock := v\<rparr>) = handed_out L p n s s'"
  "handed_out L p n (s\<lparr>alloc_lock := v\<rparr>) s' = handed_out L p n s s'"
  by (simp_all add: handed_out_def cong: if_cong)

text \<open>Both ways of finding the pages finish alike: zero the memory, set the counters.\<close>

lemma finish_alloc:
  assumes "ld_ok L" and "pa_ok L s" and "pa_lists_ok L s1"
    and "s1 = s\<lparr>free_runs := free_runs s1, free_meta_nodes := free_meta_nodes s1, next_paddr := next_paddr s1\<rparr>"
    and "unat p mod 4096 = 0" and "pfn (free_ram L) \<le> pfn p" and "pfn p + unat n \<le> pfn (next_paddr s1)"
    and "pfn (next_paddr s1) \<le> pfn (free_ram L) + 8188"
    and "{pfn p..<pfn p + unat n} \<subseteq> free_set (free_runs s) \<union> {pfn (next_paddr s)..}"
    and "free_set (free_runs s1) \<union> {pfn (next_paddr s1)..} =
      (free_set (free_runs s) \<union> {pfn (next_paddr s)..}) - {pfn p..<pfn p + unat n}"
  shows "pa_ok L (mark_allocated L p n (s1\<lparr>pmem := mem_fill p 0 (n * PAGE_SIZE) (pmem s1)\<rparr>)) \<and>
    handed_out L p (unat n) s (mark_allocated L p n (s1\<lparr>pmem := mem_fill p 0 (n * PAGE_SIZE) (pmem s1)\<rparr>)) \<and>
    alloc_lock (mark_allocated L p n (s1\<lparr>pmem := mem_fill p 0 (n * PAGE_SIZE) (pmem s1)\<rparr>)) = alloc_lock s"
proof -
  let ?s2 = "s1\<lparr>pmem := mem_fill p 0 (n * PAGE_SIZE) (pmem s1)\<rparr>"
  have ok: "managed_page_count s = 8192" "length (page_refcnt s) = 8192" "allocator_initialized s"
    "\<And>q. pfn (free_ram L) \<le> q \<Longrightarrow> q < pfn (free_ram L) + 8192 \<Longrightarrow>
        refs L s q = 0 \<longleftrightarrow> q \<in> free_set (free_runs s) \<union> {pfn (next_paddr s)..}"
    using assms(2) by (simp_all add: pa_ok_def)
  have same: "managed_page_count s1 = managed_page_count s" "page_refcnt s1 = page_refcnt s"
    "allocator_initialized s1 = allocator_initialized s" "pmem s1 = pmem s" "alloc_lock s1 = alloc_lock s"
    "free_meta_oom_warned s1 = free_meta_oom_warned s"
    by (subst assms(4), simp)+
  then have r1: "refs L s1 = refs L s"
    by (simp add: refs_def fun_eq_iff)
  obtain c where c: "mark_allocated L p n ?s2 = ?s2\<lparr>page_refcnt := c\<rparr>" "length c = 8192"
    and rc: "refs L (?s2\<lparr>page_refcnt := c\<rparr>) = (\<lambda>q. if q \<in> {pfn p..<pfn p + unat n} then 1 else refs L s q)"
    using mark_pages_spec [OF assms(1), of ?s2 p "unat n"] assms(5-8) ok same r1
    by (auto simp: mark_allocated_def cong: if_cong)
  have zero: "refs L s q = 0" if "q \<in> {pfn p..<pfn p + unat n}" for q
    using ok(4) [of q] that assms(6-9) by auto
  have "handed_out L p (unat n) s (?s2\<lparr>page_refcnt := c\<rparr>)"
    using assms(5-8) zero rc same by (simp add: handed_out_def)
  moreover have "pa_ok L (?s2\<lparr>page_refcnt := c\<rparr>)"
    unfolding pa_ok_def rc
    using assms(3,10) ok same c(2) by (auto simp: set_eq_iff)
  ultimately show ?thesis
    using c same by simp
qed

text \<open>The initialised allocator with its lock held.\<close>

lemma alloc_from_run:
  assumes "ld_ok L" and "pa_ok L s" and "n \<noteq> 0" and "take_first_fit n (free_runs s) = Some (p, rs, nd)"
  defines "s1 \<equiv> (case nd of None \<Rightarrow> s\<lparr>free_runs := rs\<rparr> | Some a \<Rightarrow> release_run_node a (s\<lparr>free_runs := rs\<rparr>))"
  shows "pa_ok L (mark_allocated L p n (s1\<lparr>pmem := mem_fill p 0 (n * PAGE_SIZE) (pmem s1)\<rparr>)) \<and>
    handed_out L p (unat n) s (mark_allocated L p n (s1\<lparr>pmem := mem_fill p 0 (n * PAGE_SIZE) (pmem s1)\<rparr>)) \<and>
    alloc_lock (mark_allocated L p n (s1\<lparr>pmem := mem_fill p 0 (n * PAGE_SIZE) (pmem s1)\<rparr>)) = alloc_lock s"
proof (rule finish_alloc [OF assms(1,2)])
  have l: "runs_ok (pfn (free_ram L)) (pfn (next_paddr s)) (free_runs s)" "nodes_inv L (meta_top s) (nodes_of s)"
    "pa_lists_ok L s"
    using assms(2) by (simp_all add: pa_ok_def pa_lists_ok_def)
  note t = take_first_fit_spec [OF assms(4) l(1) pfn_less assms(3)]
  have s1: "next_paddr s1 = next_paddr s" "free_runs s1 = rs" "meta_top s1 = meta_top s"
    by (simp_all add: s1_def release_run_node_def split: option.split)
  have nodes: "nodes_of s1 = nodes_of s"
    using t by (auto simp: nodes_of_def s1_def release_run_node_def node_of_def split: option.splits)
  show "pa_lists_ok L s1"
    using l(3) t by (simp add: pa_lists_ok_def s1 nodes)
  show "s1 = s\<lparr>free_runs := free_runs s1, free_meta_nodes := free_meta_nodes s1, next_paddr := next_paddr s1\<rparr>"
    by (simp add: s1_def release_run_node_def split: option.split)
  show "unat p mod 4096 = 0" "pfn (free_ram L) \<le> pfn p" "pfn p + unat n \<le> pfn (next_paddr s1)"
    "{pfn p..<pfn p + unat n} \<subseteq> free_set (free_runs s) \<union> {pfn (next_paddr s)..}"
    using t by (auto simp: s1)
  show "pfn (next_paddr s1) \<le> pfn (free_ram L) + 8188"
    using pa_ok_bump(3) [OF assms(2,1)] by (simp add: s1)
  show "free_set (free_runs s1) \<union> {pfn (next_paddr s1)..} =
      (free_set (free_runs s) \<union> {pfn (next_paddr s)..}) - {pfn p..<pfn p + unat n}"
    using t by (auto simp: s1)
qed

lemma bump_fits:
  assumes "ld_ok L" and "pa_ok L s" and "unat n < 1048576"
  shows "meta_top s < next_paddr s + n * PAGE_SIZE \<or> next_paddr s + n * PAGE_SIZE < next_paddr s \<longleftrightarrow>
      unat (meta_top s) < unat (next_paddr s) + unat n * 4096"
    and "unat (next_paddr s) + unat n * 4096 \<le> unat (meta_top s) \<Longrightarrow>
      unat (next_paddr s + n * PAGE_SIZE) = unat (next_paddr s) + unat n * 4096"
proof -
  have m: "unat (n * PAGE_SIZE) = unat n * 4096"
    using assms(3) by (simp add: unat_word_ariths)
  have s: "unat (next_paddr s + n * PAGE_SIZE) = (unat (next_paddr s) + unat n * 4096) mod 4294967296"
    using unat_word_ariths(1) [of "next_paddr s" "n * PAGE_SIZE"] m by simp
  note lt = unat_lt_2p32 [of "meta_top s"] unat_lt_2p32 [of "next_paddr s"]
  show "unat (next_paddr s) + unat n * 4096 \<le> unat (meta_top s) \<Longrightarrow>
      unat (next_paddr s + n * PAGE_SIZE) = unat (next_paddr s) + unat n * 4096"
    using s lt by simp
  show "meta_top s < next_paddr s + n * PAGE_SIZE \<or> next_paddr s + n * PAGE_SIZE < next_paddr s \<longleftrightarrow>
      unat (meta_top s) < unat (next_paddr s) + unat n * 4096"
  proof (cases "unat (next_paddr s) + unat n * 4096 < 4294967296")
    case True
    then show ?thesis
      using s lt by (auto simp: word_less_nat_alt)
  next
    case False
    then have "unat (next_paddr s + n * PAGE_SIZE) = unat (next_paddr s) + unat n * 4096 - 4294967296"
      using s lt assms(3) by (simp add: mod_if)
    then have "unat (next_paddr s + n * PAGE_SIZE) < unat (next_paddr s)"
      using False assms(3) by linarith
    then show ?thesis
      using False lt assms(3) by (simp add: word_less_nat_alt)
  qed
qed

lemma alloc_from_bump:
  assumes "ld_ok L" and "pa_ok L s" and "unat n < 1048576"
    and "unat (next_paddr s) + unat n * 4096 \<le> unat (meta_top s)"
  defines "p \<equiv> next_paddr s" and "s1 \<equiv> s\<lparr>next_paddr := next_paddr s + n * PAGE_SIZE\<rparr>"
  shows "pa_ok L (mark_allocated L p n (s1\<lparr>pmem := mem_fill p 0 (n * PAGE_SIZE) (pmem s1)\<rparr>)) \<and>
    handed_out L p (unat n) s (mark_allocated L p n (s1\<lparr>pmem := mem_fill p 0 (n * PAGE_SIZE) (pmem s1)\<rparr>)) \<and>
    alloc_lock (mark_allocated L p n (s1\<lparr>pmem := mem_fill p 0 (n * PAGE_SIZE) (pmem s1)\<rparr>)) = alloc_lock s"
proof (rule finish_alloc [OF assms(1,2)])
  have l: "pa_lists_ok L s" "unat (next_paddr s) mod 4096 = 0"
    "runs_ok (pfn (free_ram L)) (pfn (next_paddr s)) (free_runs s)"
    using assms(2) by (simp_all add: pa_ok_def pa_lists_ok_def)
  note b = pa_ok_bump [OF assms(2,1)] and u = bump_fits(2) [OF assms(1-4)]
  have fits: "pfn (next_paddr s) + unat n < 1048576"
    using b(2) assms(4) unat_lt_2p32 [of "meta_top s"] by linarith
  have nx: "pfn (next_paddr s1) = pfn (next_paddr s) + unat n" "unat (next_paddr s1) mod 4096 = 0"
    using add_pages [OF l(2), of n] fits by (simp_all add: s1_def)
  have le: "next_paddr s \<le> next_paddr s1" "next_paddr s1 \<le> meta_top s"
    using u assms(4) by (simp_all add: s1_def word_le_nat_alt)
  show "pa_lists_ok L s1"
    using l(1) le nx runs_ok_mono [OF l(3), of "pfn (next_paddr s1)"] order_trans [OF _ le(1), of "free_ram L"]
    by (simp add: pa_lists_ok_def nodes_of_def s1_def)
  show "s1 = s\<lparr>free_runs := free_runs s1, free_meta_nodes := free_meta_nodes s1, next_paddr := next_paddr s1\<rparr>"
    by (simp add: s1_def)
  show "unat p mod 4096 = 0" "pfn (free_ram L) \<le> pfn p" "pfn p + unat n \<le> pfn (next_paddr s1)"
    "{pfn p..<pfn p + unat n} \<subseteq> free_set (free_runs s) \<union> {pfn (next_paddr s)..}"
    using l(2) b(1) nx by (auto simp: p_def)
  show "pfn (next_paddr s1) \<le> pfn (free_ram L) + 8188"
    using u assms(4) b unat_ref_top(1) [OF assms(1)] ram_pfn(1) [OF assms(1)] nx by simp
  show "free_set (free_runs s1) \<union> {pfn (next_paddr s1)..} =
      (free_set (free_runs s) \<union> {pfn (next_paddr s)..}) - {pfn p..<pfn p + unat n}"
    using free_set_bounds [OF l(3)] nx(1) by (force simp: s1_def p_def)
qed

lemma take_first_fit_None: "take_first_fit n rs = None \<longleftrightarrow> (\<forall>r\<in>set rs. pages r < n)"
  by (induction rs) (auto simp: Let_def split: option.split)

text \<open>When the allocator has no room for \<open>n\<close> pages: no run is long enough and the bump area is too small.\<close>

definition no_room :: "ld_layout \<Rightarrow> u32 \<Rightarrow> page_alloc \<Rightarrow> bool" where
  "no_room L n s \<longleftrightarrow>
     (let s = snd (init_allocator_if_needed L s) in
      (\<forall>r\<in>set (free_runs s). pages r < n) \<and> unat (meta_top s) < unat (next_paddr s) + unat n * 4096)"

definition refused :: "page_alloc \<Rightarrow> page_alloc \<Rightarrow> ld_layout \<Rightarrow> bool" where
  "refused s s' L \<longleftrightarrow> refs L s' = refs L s \<and> pmem s' = pmem s \<and> free_meta_oom_warned s' = free_meta_oom_warned s"

lemma alloc_pages_try_spec:
  assumes "ld_ok L" and "pa_inv L s" and "unat n < 1048576"
  shows "\<exists>p s'. alloc_pages_try L n s = Inr (p, s') \<and> pa_inv L s' \<and>
    (if n = 0 \<or> no_room L n s then p = 0 \<and> refused s s' L else p \<noteq> 0 \<and> handed_out L p (unat n) s s')"
proof -
  obtain s1 where init: "init_allocator_if_needed L (s\<lparr>alloc_lock := 1\<rparr>) = (0, s1)" and ok: "pa_ok L s1"
    and same: "refs L s1 = refs L s" "pmem s1 = pmem s" "alloc_lock s1 = 1" "free_meta_oom_warned s1 = free_meta_oom_warned s"
    using init_allocator_spec [of "s\<lparr>alloc_lock := 1\<rparr>" L] assms(1,2) by (auto simp: pa_inv_def)
  have lk: "alloc_lock s = 0" and init1: "allocator_initialized s1"
    using assms(2) ok by (simp_all add: pa_inv_def pa_ok_def)
  have room: "no_room L n s \<longleftrightarrow> (\<forall>r\<in>set (free_runs s1). pages r < n) \<and>
      unat (meta_top s1) < unat (next_paddr s1) + unat n * 4096"
  proof -
    have "snd (init_allocator_if_needed L (s\<lparr>alloc_lock := 1\<rparr>)) = (snd (init_allocator_if_needed L s))\<lparr>alloc_lock := 1\<rparr>"
      by (simp add: init_allocator_if_needed_def Let_def)
    then show ?thesis
      using init by (simp add: no_room_def Let_def)
  qed
  have out: "handed_out L p k s1 s' = handed_out L p k s s'" for p k s'
    using same by (simp add: handed_out_def cong: if_cong)
  have pos: "handed_out L 0 k s s' \<longleftrightarrow> False" for k s'
    using ram_pfn(4) [OF assms(1)] by (auto simp: handed_out_def pfn_def)
  consider "n = 0" | p rs nd where "n \<noteq> 0" "take_first_fit n (free_runs s1) = Some (p, rs, nd)"
    | "n \<noteq> 0" "take_first_fit n (free_runs s1) = None" "unat (meta_top s1) < unat (next_paddr s1) + unat n * 4096"
    | "n \<noteq> 0" "take_first_fit n (free_runs s1) = None" "unat (next_paddr s1) + unat n * 4096 \<le> unat (meta_top s1)"
    by (metis not_le_imp_less option.exhaust prod_cases3)
  then show ?thesis
  proof cases
    case 1
    then show ?thesis
      using init ok same init1 lk
      by (simp add: alloc_pages_try_def lock_defs refused_def pa_inv_def Let_def)
  next
    case 2
    have "\<not> no_room L n s"
      using 2 room take_first_fit_None [of n "free_runs s1"] by auto
    then show ?thesis
      using 2 init lk alloc_from_run [OF assms(1) ok 2] out pos
      by (cases nd) (auto simp: alloc_pages_try_def lock_defs pa_inv_def Let_def)
  next
    case 3
    then show ?thesis
      using init ok same lk room bump_fits(1) [OF assms(1) ok assms(3)] take_first_fit_None [of n "free_runs s1"]
      by (auto simp: alloc_pages_try_def lock_defs refused_def pa_inv_def Let_def)
  next
    case 4
    then show ?thesis
      using init lk room bump_fits(1) [OF assms(1) ok assms(3)] alloc_from_bump [OF assms(1) ok assms(3) 4(3)] out pos
      by (auto simp: alloc_pages_try_def lock_defs pa_inv_def Let_def)
  qed
qed


section \<open>References given back\<close>

text \<open>
  One reference less on each page of \<open>Q\<close>; a page whose last reference went may stay allocated
  with one reference when no list node could be had (and then the warning flag is set).
\<close>

definition dropped :: "ld_layout \<Rightarrow> nat set \<Rightarrow> page_alloc \<Rightarrow> page_alloc \<Rightarrow> bool" where
  "dropped L Q s s' \<longleftrightarrow> pmem s' = pmem s \<and> alloc_lock s' = alloc_lock s \<and>
     (free_meta_oom_warned s \<longrightarrow> free_meta_oom_warned s') \<and>
     (\<forall>q. refs L s' q = (if q \<in> Q then refs L s q - 1 else refs L s q) \<or>
          q \<in> Q \<and> refs L s q = 1 \<and> refs L s' q = 1 \<and> free_meta_oom_warned s')"

lemma dropped_step:
  assumes "dropped L {q} s s1" and "dropped L Q s1 s'" and "q \<notin> Q"
  shows "dropped L (insert q Q) s s'"
  unfolding dropped_def
proof (intro conjI allI)
  show "pmem s' = pmem s" "alloc_lock s' = alloc_lock s" "free_meta_oom_warned s \<longrightarrow> free_meta_oom_warned s'"
    using assms(1,2) by (auto simp: dropped_def)
  show "refs L s' x = (if x \<in> insert q Q then refs L s x - 1 else refs L s x) \<or>
      x \<in> insert q Q \<and> refs L s x = 1 \<and> refs L s' x = 1 \<and> free_meta_oom_warned s'" for x
  proof -
    have a: "refs L s1 x = (if x = q then refs L s x - 1 else refs L s x) \<or>
        x = q \<and> refs L s x = 1 \<and> refs L s1 x = 1 \<and> free_meta_oom_warned s1"
      and b: "refs L s' x = (if x \<in> Q then refs L s1 x - 1 else refs L s1 x) \<or>
        x \<in> Q \<and> refs L s1 x = 1 \<and> refs L s' x = 1 \<and> free_meta_oom_warned s'"
      and w: "free_meta_oom_warned s1 \<longrightarrow> free_meta_oom_warned s'"
      using assms(1,2) by (simp_all add: dropped_def)
    show ?thesis
      using a b w assms(3) by (cases "x = q"; cases "x \<in> Q") auto
  qed
qed

lemma page_returned_pa_ok:
  assumes "pa_ok L s0" and "page_returned L a s s'" and "managed L a"
    and "s = s0\<lparr>page_refcnt := page_refcnt s\<rparr>" and "length (page_refcnt s) = 8192"
    and "refs L s = (refs L s0)(pfn a := 0)" and "pfn a < pfn (next_paddr s0)"
  shows "pa_ok L s' \<and> refs L s' = refs L s \<and> pmem s' = pmem s0 \<and> alloc_lock s' = alloc_lock s0 \<and>
    free_meta_oom_warned s' = free_meta_oom_warned s0"
proof -
  have s: "allocator_initialized s = allocator_initialized s0" "managed_page_count s = managed_page_count s0"
    "next_paddr s = next_paddr s0" "free_runs s = free_runs s0" "pmem s = pmem s0" "alloc_lock s = alloc_lock s0"
    "free_meta_oom_warned s = free_meta_oom_warned s0"
    by (subst assms(4), simp)+
  have pr: "s' = s\<lparr>free_runs := free_runs s', free_meta_nodes := free_meta_nodes s', meta_top := meta_top s'\<rparr>"
    "runs_ok (pfn (free_ram L)) (pfn (next_paddr s)) (free_runs s')"
    "free_set (free_runs s') = insert (pfn a) (free_set (free_runs s))"
    "nodes_inv L (meta_top s') (nodes_of s')" "next_paddr s \<le> meta_top s'"
    using assms(2) unfolding page_returned_def by blast+
  have s': "allocator_initialized s' = allocator_initialized s" "managed_page_count s' = managed_page_count s"
    "next_paddr s' = next_paddr s" "page_refcnt s' = page_refcnt s" "pmem s' = pmem s" "alloc_lock s' = alloc_lock s"
    "free_meta_oom_warned s' = free_meta_oom_warned s"
    by (subst pr(1), simp)+
  have r: "refs L s' = refs L s"
    by (simp add: refs_def s' fun_eq_iff)
  have ok0: "allocator_initialized s0" "managed_page_count s0 = 8192" "free_ram L \<le> next_paddr s0"
    "unat (next_paddr s0) mod 4096 = 0"
    "\<forall>q. pfn (free_ram L) \<le> q \<and> q < pfn (free_ram L) + 8192 \<longrightarrow>
        (refs L s0 q = 0 \<longleftrightarrow> q \<in> free_set (free_runs s0) \<or> pfn (next_paddr s0) \<le> q)"
    using assms(1) by (simp_all add: pa_ok_def pa_lists_ok_def)
  have "pa_lists_ok L s'"
    using pr(2,4,5) ok0(3,4) by (simp add: pa_lists_ok_def s s')
  then have "pa_ok L s'"
    unfolding pa_ok_def r assms(6) using ok0 assms(5) pr(3) by (simp add: s s')
  then show ?thesis
    using r by (simp add: s s')
qed

lemma drop_ref_spec:
  assumes "ld_ok L" and "pa_ok L s" and "managed L a" and "0 < refs L s (pfn a)"
    and "unat idx = pfn a - pfn (free_ram L)"
  shows "\<exists>s'. drop_ref a idx s = Inr s' \<and> pa_ok L s' \<and> dropped L {pfn a} s s'"
proof -
  have ok: "length (page_refcnt s) = 8192" "allocator_initialized s" "pa_lists_ok L s"
    "managed_page_count s = 8192"
    "pfn a \<notin> free_set (free_runs s)" "pfn a < pfn (next_paddr s)" "unat a mod 4096 = 0" "pfn (free_ram L) \<le> pfn a"
    using assms(2-4) by (auto simp: pa_ok_def managed_def)
  let ?i = "pfn a - pfn (free_ram L)" and ?c = "page_refcnt s"
  define s1 where "s1 = s\<lparr>page_refcnt := ?c[?i := ?c ! ?i - 1]\<rparr>"
  have i: "?i < 8192"
    using assms(3) by (auto simp: managed_def)
  have pos: "?c ! ?i \<noteq> 0"
    using refs_read [OF assms(3) ok(2)] assms(4) by auto
  have dec: "unat (?c ! ?i - 1) = refs L s (pfn a) - 1"
    using pos refs_read [OF assms(3) ok(2)] by (simp add: unat_minus_one)
  have r1: "refs L s1 = (refs L s)(pfn a := refs L s (pfn a) - 1)"
    using refs_write [OF assms(3) ok(2,1)] dec by (simp add: s1_def)
  have zero: "page_refcnt s1 ! ?i = 0 \<longleftrightarrow> refs L s (pfn a) = 1"
    using dec assms(4) i ok(1) by (auto simp: s1_def unat_eq_zero simp flip: word_unat_eq_iff)
  show ?thesis
  proof (cases "refs L s (pfn a) = 1")
    case False
    have "pa_ok L s1"
      using assms(2) r1 False assms(4) by (auto simp: pa_ok_def s1_def)
    moreover have "dropped L {pfn a} s s1"
      using r1 by (simp add: dropped_def s1_def)
    ultimately show ?thesis
      using zero False assms(5) by (simp add: drop_ref_def Let_def s1_def)
  next
    case True
    have lists: "pa_lists_ok L s1" "pfn a \<notin> free_set (free_runs s1)" "pfn a < pfn (next_paddr s1)"
      using ok by (simp_all add: s1_def)
    from free_single_page_raw_spec [OF lists(1) assms(1) ok(7) lists(2) ok(8) lists(3)]
    obtain rc s2 where fr: "free_single_page_raw a s1 = Inr (rc, s2)"
      and alt: "rc = -1 \<and> s2 = s1 \<or> rc = 0 \<and> page_returned L a s1 s2"
      unfolding returned_or_leak_def by blast
    from alt show ?thesis
    proof
      assume leak: "rc = -1 \<and> s2 = s1"
      let ?s3 = "s\<lparr>page_refcnt := ?c[?i := 1], free_meta_oom_warned := True\<rparr>"
      have r3: "refs L ?s3 = refs L s"
        using refs_write [OF assms(3) ok(2,1), of 1] True by (simp add: fun_upd_idem)
      then have "pa_ok L ?s3"
        using assms(2) unfolding pa_ok_def r3 by simp
      moreover have "dropped L {pfn a} s ?s3"
        unfolding dropped_def r3 using True by simp
      ultimately show ?thesis
        using zero True assms(5) fr leak by (simp add: drop_ref_def Let_def s1_def)
    next
      assume ret: "rc = 0 \<and> page_returned L a s1 s2"
      have "pa_ok L s2 \<and> refs L s2 = refs L s1 \<and> pmem s2 = pmem s \<and> alloc_lock s2 = alloc_lock s \<and>
          free_meta_oom_warned s2 = free_meta_oom_warned s"
        using ret r1 True ok(1,6) by (intro page_returned_pa_ok [OF assms(2) _ assms(3)]) (simp_all add: s1_def)
      then show ?thesis
        using zero True assms(5) fr ret r1 by (auto simp: drop_ref_def Let_def s1_def dropped_def)
    qed
  qed
qed


lemma free_pages_loop_spec:
  assumes "ld_ok L" and "pa_ok L s" and "\<forall>a\<in>set cs. managed L a" and "distinct (map pfn cs)"
  shows "if \<forall>a\<in>set cs. 0 < refs L s (pfn a)
    then \<exists>s'. free_pages_loop L cs s = Inr s' \<and> pa_ok L s' \<and> dropped L (pfn ` set cs) s s'
    else free_pages_loop L cs s = Inl Panic_double_free"
  using assms(2-4)
proof (induction cs arbitrary: s)
  case Nil
  then show ?case
    by (simp add: dropped_def)
next
  case (Cons a cs)
  have m: "managed L a" "managed_page_count s = 8192" "allocator_initialized s"
    using Cons.prems by (simp_all add: pa_ok_def)
  note idx = page_idx_spec [OF assms(1) m(2), of a] idx_unat [OF m(1)]
  have z: "page_refcnt s ! (pfn a - pfn (free_ram L)) = 0 \<longleftrightarrow> refs L s (pfn a) = 0"
    using refs_read [OF m(1,3)] by (metis unat_eq_zero)
  show ?case
  proof (cases "refs L s (pfn a) = 0")
    case True
    then show ?thesis
      using idx m(1) z by (simp del: of_nat_diff)
  next
    case False
    then obtain s1 where d: "drop_ref a (of_nat (pfn a - pfn (free_ram L))) s = Inr s1" "pa_ok L s1"
      "dropped L {pfn a} s s1"
      using drop_ref_spec [OF assms(1) Cons.prems(1) m(1), of "of_nat (pfn a - pfn (free_ram L))"] idx(2)
      by (auto simp del: of_nat_diff)
    have same: "refs L s1 (pfn b) = refs L s (pfn b)" if "b \<in> set cs" for b
      using d(3) that Cons.prems(3) unfolding dropped_def by (metis distinct.simps(2) image_eqI list.set_map list.simps(9) singletonD)
    have loop: "free_pages_loop L (a # cs) s = free_pages_loop L cs s1"
      using idx m(1) z False d(1) by (simp del: of_nat_diff)
    have IH: "if \<forall>b\<in>set cs. 0 < refs L s1 (pfn b)
      then \<exists>s'. free_pages_loop L cs s1 = Inr s' \<and> pa_ok L s' \<and> dropped L (pfn ` set cs) s1 s'
      else free_pages_loop L cs s1 = Inl Panic_double_free"
      using Cons.prems(2,3) by (intro Cons.IH [OF d(2)]) simp_all
    show ?thesis
    proof (cases "\<forall>b\<in>set cs. 0 < refs L s (pfn b)")
      case True
      then obtain s' where "free_pages_loop L cs s1 = Inr s'" "pa_ok L s'" "dropped L (pfn ` set cs) s1 s'"
        using IH same by auto
      then show ?thesis
        using True False loop dropped_step [OF d(3)] Cons.prems(3) by simp
    next
      case neg: False
      then show ?thesis
        using IH same loop by auto
    qed
  qed
qed

lemma page_addrs_facts:
  assumes "unat p mod 4096 = 0" and "pfn p + k < 1048576"
  shows "map pfn (page_addrs p k) = [pfn p..<pfn p + k]" and "\<forall>a\<in>set (page_addrs p k). unat a mod 4096 = 0"
proof -
  have "map pfn (page_addrs p j) = [pfn p..<pfn p + j] \<and> (\<forall>a\<in>set (page_addrs p j). unat a mod 4096 = 0)"
    if "j \<le> k" for j
    using that
  proof (induction j)
    case 0
    show ?case by (simp add: page_addrs_def)
  next
    case (Suc j)
    then show ?case
      using page_addr_nth [OF assms(1), of j] assms(2) by (simp add: page_addrs_Suc)
  qed
  then show "map pfn (page_addrs p k) = [pfn p..<pfn p + k]" and "\<forall>a\<in>set (page_addrs p k). unat a mod 4096 = 0"
    by blast+
qed

text \<open>Every operation takes the lock and initialises the allocator first.\<close>

lemma enter_allocator:
  assumes "ld_ok L" and "pa_inv L s"
  obtains s1 where "init_allocator_if_needed L (s\<lparr>alloc_lock := 1\<rparr>) = (0, s1)" and "pa_ok L s1"
    and "refs L s1 = refs L s" and "pmem s1 = pmem s" and "alloc_lock s1 = 1"
    and "free_meta_oom_warned s1 = free_meta_oom_warned s" and "alloc_lock s = 0"
    and "allocator_initialized s1" and "managed_page_count s1 = 8192"
proof -
  have lk: "alloc_lock s = 0" and ok: "allocator_initialized s \<longrightarrow> pa_ok L s"
    using assms(2) by (simp_all add: pa_inv_def)
  obtain s1 where s1: "init_allocator_if_needed L (s\<lparr>alloc_lock := 1\<rparr>) = (0, s1)" "pa_ok L s1" "refs L s1 = refs L s"
    "pmem s1 = pmem s" "alloc_lock s1 = 1" "free_meta_oom_warned s1 = free_meta_oom_warned s"
    using init_allocator_spec [of "s\<lparr>alloc_lock := 1\<rparr>" L] ok assms(1) by auto
  then show ?thesis
    using that lk by (simp add: pa_ok_def)
qed

lemma dropped_leave:
  assumes "dropped L Q s1 s'" and "refs L s1 = refs L s" and "pmem s1 = pmem s"
    and "free_meta_oom_warned s1 = free_meta_oom_warned s" and "alloc_lock s = 0"
  shows "dropped L Q s (s'\<lparr>alloc_lock := 0\<rparr>)"
  using assms(1,5) unfolding dropped_def assms(2-4) by simp

text \<open>A range of pages as \<^verbatim>\<open>free_pages\<close> checks it.\<close>

lemma free_pages_spec:
  assumes "ld_ok L" and "pa_inv L s"
  shows "if n = 0 then free_pages L p n s = Inl Panic_zero_pages
    else if unat p mod 4096 \<noteq> 0 then free_pages L p n s = Inl Panic_unaligned
    else if pfn p < pfn (free_ram L) \<or> pfn (free_ram L) + 8192 < pfn p + unat n
      then free_pages L p n s = Inl Panic_out_of_range
    else if \<exists>q\<in>{pfn p..<pfn p + unat n}. refs L s q = 0 then free_pages L p n s = Inl Panic_double_free
    else \<exists>s'. free_pages L p n s = Inr s' \<and> pa_inv L s' \<and> dropped L {pfn p..<pfn p + unat n} s s'"
proof -
  obtain s1 where e: "init_allocator_if_needed L (s\<lparr>alloc_lock := 1\<rparr>) = (0, s1)" "pa_ok L s1"
    "refs L s1 = refs L s" "pmem s1 = pmem s" "alloc_lock s1 = 1"
    "free_meta_oom_warned s1 = free_meta_oom_warned s" "alloc_lock s = 0"
    by (rule enter_allocator [OF assms])
  note unf = free_pages_def lock_defs is_page_aligned_iff Let_def
  have range: "p < free_ram L \<longleftrightarrow> pfn p < pfn (free_ram L)"
    "ucast (free_ram_end L) < end64 p n \<longleftrightarrow> pfn (free_ram L) + 8192 < pfn p + unat n" if "unat p mod 4096 = 0"
    unfolding word_less_nat_alt unat_end64 unat_ucast64 pfn_aligned [OF that] ram_pfn(1) [OF assms(1)]
      ram_pfn(3) [OF assms(1)] by simp_all linarith
  show ?thesis
  proof (cases "n = 0 \<or> unat p mod 4096 \<noteq> 0 \<or> pfn p < pfn (free_ram L) \<or> pfn (free_ram L) + 8192 < pfn p + unat n")
    case True
    then show ?thesis
      using e(1,7) range by (auto simp: unf)
  next
    case False
    then have al: "unat p mod 4096 = 0" and lo: "pfn (free_ram L) \<le> pfn p" and n: "n \<noteq> 0"
      and hi: "pfn p + unat n \<le> pfn (free_ram L) + 8192"
      by auto
    have run: "free_pages L p n s = kbind (free_pages_loop L (page_addrs p (unat n)) s1) (\<lambda>s. Inr (s\<lparr>alloc_lock := 0\<rparr>))"
      using e(1,7) range [OF al] False by (simp add: unf)
    have lt: "pfn p + unat n < 1048576"
      using hi ram_pfn(2) [OF assms(1)] by simp
    note f = page_addrs_facts [OF al lt]
    have im: "pfn ` set (page_addrs p (unat n)) = {pfn p..<pfn p + unat n}"
      using arg_cong [OF f(1), of set] by simp
    have "managed L a" if "a \<in> set (page_addrs p (unat n))" for a
      using f(2) lo hi that imageI [OF that, of pfn] unfolding im by (auto simp: managed_def)
    then have loop: "if \<forall>q\<in>{pfn p..<pfn p + unat n}. 0 < refs L s q
      then \<exists>s'. free_pages_loop L (page_addrs p (unat n)) s1 = Inr s' \<and> pa_ok L s' \<and>
        dropped L {pfn p..<pfn p + unat n} s1 s'
      else free_pages_loop L (page_addrs p (unat n)) s1 = Inl Panic_double_free"
      using free_pages_loop_spec [OF assms(1) e(2), of "page_addrs p (unat n)"] f(1) e(3)
      by (simp flip: im)
    show ?thesis
    proof (cases "\<exists>q\<in>{pfn p..<pfn p + unat n}. refs L s q = 0")
      case True
      then have "free_pages_loop L (page_addrs p (unat n)) s1 = Inl Panic_double_free"
        using loop by auto
      then show ?thesis
        using True False run by simp
    next
      case nz: False
      then obtain s' where s': "free_pages_loop L (page_addrs p (unat n)) s1 = Inr s'" "pa_ok L s'"
        "dropped L {pfn p..<pfn p + unat n} s1 s'"
        using loop by auto
      have "dropped L {pfn p..<pfn p + unat n} s (s'\<lparr>alloc_lock := 0\<rparr>)"
        by (rule dropped_leave [OF s'(3) e(3,4,6,7)])
      then have "\<exists>t. free_pages L p n s = Inr t \<and> pa_inv L t \<and> dropped L {pfn p..<pfn p + unat n} s t"
        using s' run by (simp add: pa_inv_def)
      then show ?thesis
        using False by (simp add: if_not_P [OF nz])
    qed
  qed
qed

lemma page_dec_ref_spec:
  assumes "ld_ok L" and "pa_inv L s"
  shows "if \<not> managed L a then \<exists>s'. page_dec_ref L a s = Inr s' \<and> pa_inv L s' \<and> dropped L {} s s'
    else if refs L s (pfn a) = 0 then page_dec_ref L a s = Inl Panic_dec_ref
    else \<exists>s'. page_dec_ref L a s = Inr s' \<and> pa_inv L s' \<and> dropped L {pfn a} s s'"
proof -
  obtain s1 where e: "init_allocator_if_needed L (s\<lparr>alloc_lock := 1\<rparr>) = (0, s1)" "pa_ok L s1"
    "refs L s1 = refs L s" "pmem s1 = pmem s" "alloc_lock s1 = 1"
    "free_meta_oom_warned s1 = free_meta_oom_warned s" "alloc_lock s = 0"
    and i: "allocator_initialized s1" "managed_page_count s1 = 8192"
    by (rule enter_allocator [OF assms])
  note unf = page_dec_ref_def lock_defs Let_def page_idx_spec [OF assms(1) i(2)]
  show ?thesis
  proof (cases "managed L a")
    case False
    then show ?thesis
      using e by (simp add: unf dropped_def pa_inv_def)
  next
    case True
    note idx = idx_unat [OF True]
    have z: "page_refcnt s1 ! (pfn a - pfn (free_ram L)) = 0 \<longleftrightarrow> refs L s (pfn a) = 0"
      using refs_read [OF True i(1)] e(3) by (metis unat_eq_zero)
    show ?thesis
    proof (cases "refs L s (pfn a) = 0")
      case zero: True
      then show ?thesis
        using True e(1,7) z idx by (simp add: unf del: of_nat_diff)
    next
      case False
      then obtain s' where s': "drop_ref a (of_nat (pfn a - pfn (free_ram L))) s1 = Inr s'" "pa_ok L s'"
        "dropped L {pfn a} s1 s'"
        using drop_ref_spec [OF assms(1) e(2) True _ idx] e(3) by auto
      have "dropped L {pfn a} s (s'\<lparr>alloc_lock := 0\<rparr>)"
        by (rule dropped_leave [OF s'(3) e(3,4,6,7)])
      then show ?thesis
        using True False e(1,7) z idx s' by (simp add: unf pa_inv_def del: of_nat_diff)
    qed
  qed
qed

text \<open>
  A reference more. The counters have 16 bits: with 65535 references the counter wraps to 0
  and the page looks free while it is in use, so the result is stated below that bound.
\<close>

lemma page_inc_ref_spec:
  assumes "ld_ok L" and "pa_inv L s" and "refs L s (pfn a) < 65535"
  shows "if \<not> managed L a then \<exists>s'. page_inc_ref L a s = Inr s' \<and> pa_inv L s' \<and> dropped L {} s s'
    else if refs L s (pfn a) = 0 then page_inc_ref L a s = Inl Panic_inc_ref
    else \<exists>s'. page_inc_ref L a s = Inr s' \<and> pa_inv L s' \<and> pmem s' = pmem s \<and>
      refs L s' = (refs L s)(pfn a := refs L s (pfn a) + 1)"
proof -
  obtain s1 where e: "init_allocator_if_needed L (s\<lparr>alloc_lock := 1\<rparr>) = (0, s1)" "pa_ok L s1"
    "refs L s1 = refs L s" "pmem s1 = pmem s" "alloc_lock s1 = 1"
    "free_meta_oom_warned s1 = free_meta_oom_warned s" "alloc_lock s = 0"
    and i: "allocator_initialized s1" "managed_page_count s1 = 8192"
    by (rule enter_allocator [OF assms(1,2)])
  note unf = page_inc_ref_def lock_defs Let_def page_idx_spec [OF assms(1) i(2)]
  show ?thesis
  proof (cases "managed L a")
    case False
    then show ?thesis
      using e by (simp add: unf dropped_def pa_inv_def)
  next
    case True
    let ?c = "page_refcnt s1" and ?i = "pfn a - pfn (free_ram L)"
    note idx = idx_unat [OF True] and rd = refs_read [OF True i(1)]
    have z: "?c ! ?i = 0 \<longleftrightarrow> refs L s (pfn a) = 0"
      using rd e(3) by (metis unat_eq_zero)
    have inc: "unat (?c ! ?i + 1) = refs L s (pfn a) + 1"
      using rd e(3) assms(3) by (simp add: unat_word_ariths)
    have len: "length ?c = 8192"
      using e(2) by (simp add: pa_ok_def)
    have r: "refs L (s1\<lparr>page_refcnt := ?c[?i := ?c ! ?i + 1]\<rparr>) = (refs L s)(pfn a := refs L s (pfn a) + 1)"
      using refs_write [OF True i(1) len] inc e(3) by simp
    have "pa_ok L (s1\<lparr>page_refcnt := ?c[?i := ?c ! ?i + 1]\<rparr>)" if "refs L s (pfn a) \<noteq> 0"
      using e(2,3) r that by (auto simp: pa_ok_def)
    then show ?thesis
      using True e(1,4,7) z idx r by (simp add: unf pa_inv_def del: of_nat_diff)
  qed
qed


section \<open>The interface of a page source\<close>

text \<open>
  What the clients of the allocator (page tables, process memory) rely on: a page comes
  aligned, zeroed and with exactly one reference, and nothing else changes.
\<close>

locale page_source =
  fixes alloc :: "'s \<Rightarrow> (u32 \<times> 's) kres"
    and inv :: "'s \<Rightarrow> bool"
    and count :: "'s \<Rightarrow> nat \<Rightarrow> nat"
    and bytes :: "'s \<Rightarrow> mem"
  assumes alloc_total: "inv s \<Longrightarrow> \<exists>p s'. alloc s = Inr (p, s') \<and> inv s'"
    and alloc_fail: "inv s \<Longrightarrow> alloc s = Inr (0, s') \<Longrightarrow> count s' = count s \<and> bytes s' = bytes s"
    and alloc_page: "inv s \<Longrightarrow> alloc s = Inr (p, s') \<Longrightarrow> p \<noteq> 0 \<Longrightarrow>
      unat p mod 4096 = 0 \<and> count s (pfn p) = 0 \<and> count s' = (count s)(pfn p := 1) \<and>
      bytes s' = mem_fill p 0 4096 (bytes s)"
begin

text \<open>Allocating \<open>k\<close> pages in a row, as the page-wise loops of the process code do.\<close>

fun alloc_many :: "nat \<Rightarrow> 's \<Rightarrow> (u32 list \<times> 's) kres" where
  "alloc_many 0 s = Inr ([], s)"
| "alloc_many (Suc k) s =
     kbind (alloc s) (\<lambda>(p, s).
       if p = 0 then Inr ([], s)
       else kbind (alloc_many k s) (\<lambda>(ps, s). Inr (p # ps, s)))"

lemma alloc_many_spec:
  "inv s \<Longrightarrow> \<exists>ps s'. alloc_many k s = Inr (ps, s') \<and> inv s' \<and> distinct (map pfn ps) \<and>
     (\<forall>p\<in>set ps. count s (pfn p) = 0) \<and>
     count s' = (\<lambda>q. if q \<in> pfn ` set ps then 1 else count s q)"
proof (induction k arbitrary: s)
  case 0
  then show ?case by simp
next
  case (Suc k)
  obtain p s1 where a: "alloc s = Inr (p, s1)" "inv s1"
    using alloc_total [OF Suc.prems] by blast
  show ?case
  proof (cases "p = 0")
    case True
    then show ?thesis
      using a alloc_fail [OF Suc.prems, of s1] by simp
  next
    case False
    note p = alloc_page [OF Suc.prems a(1) False]
    obtain ps s' where r: "alloc_many k s1 = Inr (ps, s')" "inv s'" "distinct (map pfn ps)"
      "\<forall>x\<in>set ps. count s1 (pfn x) = 0" "count s' = (\<lambda>q. if q \<in> pfn ` set ps then 1 else count s1 q)"
      using Suc.IH [OF a(2)] by blast
    have new: "pfn p \<notin> pfn ` set ps" "\<forall>x\<in>set ps. count s (pfn x) = 0"
      using r(4) p by (auto split: if_splits)
    then show ?thesis
      using a(1) False r p by (auto simp: fun_eq_iff)
  qed
qed

lemma page_bytes_zero:
  assumes "inv s" and "alloc s = Inr (p, s')" and "p \<noteq> 0"
  shows "x - p < 4096 \<Longrightarrow> bytes s' x = 0" and "\<not> x - p < 4096 \<Longrightarrow> bytes s' x = bytes s x"
  using alloc_page [OF assms] by (simp_all add: mem_fill_def)

end

lemma alloc_one_facts:
  assumes "ld_ok L" and "pa_inv L s"
  shows "\<exists>p s'. alloc_pages_try L 1 s = Inr (p, s') \<and> pa_inv L s'"
    and "alloc_pages_try L 1 s = Inr (0, s') \<Longrightarrow> refs L s' = refs L s \<and> pmem s' = pmem s"
    and "alloc_pages_try L 1 s = Inr (p, s') \<Longrightarrow> p \<noteq> 0 \<Longrightarrow> managed L p \<and> unat p mod 4096 = 0 \<and> refs L s (pfn p) = 0 \<and>
      refs L s' = (refs L s)(pfn p := 1) \<and> pmem s' = mem_fill p 0 4096 (pmem s)"
proof -
  note a = alloc_pages_try_spec [OF assms, of 1]
  have one: "(\<lambda>q. if pfn p \<le> q \<and> q < Suc (pfn p) then 1 else refs L s q) = (refs L s)(pfn p := 1)" for p
    by (auto simp: fun_eq_iff)
  show "\<exists>p s'. alloc_pages_try L 1 s = Inr (p, s') \<and> pa_inv L s'"
    using a by auto
  show "alloc_pages_try L 1 s = Inr (0, s') \<Longrightarrow> refs L s' = refs L s \<and> pmem s' = pmem s"
    using a by (auto simp: refused_def split: if_splits)
  show "managed L p \<and> unat p mod 4096 = 0 \<and> refs L s (pfn p) = 0 \<and>
      refs L s' = (refs L s)(pfn p := 1) \<and> pmem s' = mem_fill p 0 4096 (pmem s)"
    if "alloc_pages_try L 1 s = Inr (p, s')" "p \<noteq> 0"
    using a that one by (auto simp: handed_out_def managed_def split: if_splits)
qed

lemma alloc_one_room:
  assumes "ld_ok L" and "pa_inv L s" and "alloc_pages_try L 1 s = Inr (0, s')"
  shows "no_room L 1 s"
  using alloc_pages_try_spec [OF assms(1,2), of 1] assms(3) by (auto split: if_splits)

interpretation pages: page_source "alloc_pages_try L 1" "\<lambda>s. ld_ok L \<and> pa_inv L s" "refs L" pmem for L
  using alloc_one_facts [of L] by unfold_locales blast+

section \<open>Reachable allocator states\<close>

definition pa_boot :: "mem \<Rightarrow> page_alloc" where
  "pa_boot m = \<lparr>free_runs = [], free_meta_nodes = [], next_paddr = 0, meta_top = 0,
     allocator_initialized = False, alloc_lock = 0, page_refcnt = [], managed_page_count = 0,
     free_meta_oom_warned = False, pmem = m\<rparr>"

text \<open>
  The states the rest of the kernel can bring the allocator into: any sequence of its four
  operations and of writes to memory, with fewer than \<open>2 ^ 20\<close> pages asked for at once and
  fewer than 65535 references to a page.
\<close>

inductive pa_reach :: "ld_layout \<Rightarrow> page_alloc \<Rightarrow> bool" for L where
  boot: "pa_reach L (pa_boot m)"
| alloc: "pa_reach L s \<Longrightarrow> unat n < 1048576 \<Longrightarrow> alloc_pages L n s = Inr (p, s') \<Longrightarrow> pa_reach L s'"
| free: "pa_reach L s \<Longrightarrow> free_pages L p n s = Inr s' \<Longrightarrow> pa_reach L s'"
| inc: "pa_reach L s \<Longrightarrow> refs L s (pfn a) < 65535 \<Longrightarrow> page_inc_ref L a s = Inr s' \<Longrightarrow> pa_reach L s'"
| dec: "pa_reach L s \<Longrightarrow> page_dec_ref L a s = Inr s' \<Longrightarrow> pa_reach L s'"
| writing: "pa_reach L s \<Longrightarrow> pa_reach L (s\<lparr>pmem := m\<rparr>)"

lemma pa_inv_boot [simp]: "pa_inv L (pa_boot m)"
  by (simp add: pa_inv_def pa_boot_def)

lemma pa_inv_pmem [simp]: "pa_inv L (s\<lparr>pmem := m\<rparr>) = pa_inv L s"
  by (simp add: pa_inv_def)

lemma pa_reach_inv:
  assumes "ld_ok L" and "pa_reach L s"
  shows "pa_inv L s"
  using assms(2)
proof induction
  case (alloc s n p s')
  then show ?case
    using alloc_pages_try_spec [OF assms(1) alloc.IH alloc.hyps(2)] by (auto simp: alloc_pages_def)
next
  case (free s p n s')
  then show ?case
    using free_pages_spec [OF assms(1) free.IH, of n p] by (auto split: if_splits)
next
  case (inc s a s')
  then show ?case
    using page_inc_ref_spec [OF assms(1) inc.IH inc.hyps(2)] by (auto split: if_splits)
next
  case (dec s a s')
  then show ?case
    using page_dec_ref_spec [OF assms(1) dec.IH, of a] by (auto split: if_splits)
qed simp_all

text \<open>Where the allocator keeps its own data.\<close>

lemma metadata_above_pages:
  assumes "ld_ok L" and "pa_inv L s" and "0 < refs L s q"
  shows "(q + 1) * 4096 \<le> unat (meta_top s)"
    and "\<forall>a\<in>#nodes_of s. unat (meta_top s) \<le> unat a \<and> unat a + 12 \<le> unat (ref_top L)"
proof -
  have i: "allocator_initialized s" and q: "pfn (free_ram L) \<le> q" "q < pfn (free_ram L) + 8192"
    using assms(3) by (auto simp: refs_def split: if_splits)
  have ok: "pa_ok L s" and "q < pfn (next_paddr s)"
    using assms(2,3) i q by (auto simp: pa_inv_def pa_ok_def)
  then show "(q + 1) * 4096 \<le> unat (meta_top s)"
    using pa_ok_bump(2,5) [OF ok assms(1)] by simp
  obtain k where k: "unat (meta_top s) + 12 * k = unat (ref_top L)" "nodes_of s = mset (carved L k)"
    using ok by (auto simp: pa_ok_def pa_lists_ok_def nodes_inv_def)
  have "unat (ref_top L - 12 * of_nat (Suc i)) + 12 * Suc i = unat (ref_top L)" if "i < k" for i
  proof -
    have m: "unat (12 * of_nat (Suc i) :: u32) = 12 * Suc i"
    proof -
      have "12 * Suc i < 4294967296"
        using that k(1) unat_lt_2p32 [of "ref_top L"] by simp
      then show ?thesis
        using unat_of_nat_small [of "12 * Suc i"] by simp
    qed
    then have "12 * of_nat (Suc i) \<le> ref_top L"
      using that k(1) by (simp add: word_le_nat_alt)
    then show ?thesis
      using m that k(1) by (simp add: unat_sub)
  qed
  then show "\<forall>a\<in>#nodes_of s. unat (meta_top s) \<le> unat a \<and> unat a + 12 \<le> unat (ref_top L)"
    using k by (force simp: carved_def)
qed

section \<open>Properties\<close>

text \<open>
  C4. Allocation, on every branch and from every reachable state: a request for fewer than
  \<open>2 ^ 20\<close> pages returns without stopping the machine and leaves a state that satisfies the
  invariant. It returns 0 exactly when nothing was asked for or no run and no bump space is large
  enough, and then no counter and no byte of memory has changed; otherwise the pages lie inside
  free RAM, had no reference before, have one now, are filled with zeros, and nothing else changed.
\<close>

theorem alloc_pages_correct:
  assumes "ld_ok L" and "pa_reach L s" and "unat n < 1048576"
  shows "\<exists>p s'. alloc_pages L n s = Inr (p, s') \<and> pa_inv L s' \<and>
    (if n = 0 \<or> no_room L n s then p = 0 \<and> refused s s' L else p \<noteq> 0 \<and> handed_out L p (unat n) s s')"
  unfolding alloc_pages_def
  by (rule alloc_pages_try_spec [OF assms(1) pa_reach_inv [OF assms(1,2)] assms(3)])

lemma boot_room: "\<not> no_room ld_example 1 (pa_boot m)"
  by (simp add: no_room_def init_allocator_if_needed_def pa_boot_def ld_example_def Let_def word_le_nat_alt
      is_page_aligned_def)

theorem alloc_pages_correct_witness:
  "\<exists>p s'. alloc_pages ld_example 1 (pa_boot (\<lambda>_. 7)) = Inr (p, s') \<and> p \<noteq> 0 \<and> pmem s' p = 0"
proof -
  obtain p s' where "alloc_pages ld_example 1 (pa_boot (\<lambda>_. 7)) = Inr (p, s')" "p \<noteq> 0"
    "handed_out ld_example p 1 (pa_boot (\<lambda>_. 7)) s'"
    using alloc_pages_correct [OF ld_ok_example pa_reach.boot, of 1 "\<lambda>_. 7"] boot_room by auto
  then show ?thesis
    by (auto simp: handed_out_def mem_fill_def)
qed


lemma ld_example_free_ram: "free_ram ld_example = 0x80341000"
  by (simp add: ld_example_def)

lemma refs_boot: "refs L (pa_boot m) q = 0"
  by (simp add: refs_def pa_boot_def)

text \<open>A page just allocated, for the witnesses below.\<close>

lemma reach_one_page:
  obtains p s where "pa_reach ld_example s" and "p \<noteq> 0" and "unat p mod 4096 = 0" and "managed ld_example p"
    and "refs ld_example s (pfn p) = 1"
proof -
  obtain p s where a: "alloc_pages_try ld_example 1 (pa_boot (\<lambda>_. 7)) = Inr (p, s)" "p \<noteq> 0"
    "handed_out ld_example p 1 (pa_boot (\<lambda>_. 7)) s"
    using alloc_pages_try_spec [OF ld_ok_example pa_inv_boot, of 1 "\<lambda>_. 7"] boot_room by auto
  have "pa_reach ld_example s"
    using pa_reach.alloc [OF pa_reach.boot, of 1] a(1) by (simp add: alloc_pages_def)
  then show ?thesis
    using that a by (auto simp: handed_out_def managed_def)
qed


text \<open>
  A reference taken on a shared page: an address that is no page of free RAM is ignored, a
  page without references panics, and otherwise the counter of that page alone grows by one.
\<close>

theorem page_inc_ref_correct:
  assumes "ld_ok L" and "pa_reach L s" and "refs L s (pfn a) < 65535"
  shows "if \<not> managed L a then \<exists>s'. page_inc_ref L a s = Inr s' \<and> pa_inv L s' \<and> dropped L {} s s'
    else if refs L s (pfn a) = 0 then page_inc_ref L a s = Inl Panic_inc_ref
    else \<exists>s'. page_inc_ref L a s = Inr s' \<and> pa_inv L s' \<and> pmem s' = pmem s \<and>
      refs L s' = (refs L s)(pfn a := refs L s (pfn a) + 1)"
  by (rule page_inc_ref_spec [OF assms(1) pa_reach_inv [OF assms(1,2)] assms(3)])

theorem page_inc_ref_correct_witness:
  "\<exists>p s s'. page_inc_ref ld_example p s = Inr s' \<and> refs ld_example s (pfn p) = 1 \<and> refs ld_example s' (pfn p) = 2"
proof -
  obtain p s where "pa_reach ld_example s" "managed ld_example p" "refs ld_example s (pfn p) = 1"
    by (rule reach_one_page)
  moreover from this obtain s' where "page_inc_ref ld_example p s = Inr s'" "refs ld_example s' (pfn p) = 2"
    using page_inc_ref_correct [OF ld_ok_example, of s p] by auto
  ultimately show ?thesis
    by blast
qed

text \<open>
  A reference dropped: an address that is no page of free RAM is ignored, a page without
  references panics, and otherwise that page loses one reference (or stays allocated once, when
  its last reference went and no list node could be had).
\<close>

theorem page_dec_ref_correct:
  assumes "ld_ok L" and "pa_reach L s"
  shows "if \<not> managed L a then \<exists>s'. page_dec_ref L a s = Inr s' \<and> pa_inv L s' \<and> dropped L {} s s'
    else if refs L s (pfn a) = 0 then page_dec_ref L a s = Inl Panic_dec_ref
    else \<exists>s'. page_dec_ref L a s = Inr s' \<and> pa_inv L s' \<and> dropped L {pfn a} s s'"
  by (rule page_dec_ref_spec [OF assms(1) pa_reach_inv [OF assms]])

theorem page_dec_ref_correct_witness:
  "\<exists>p s s'. refs ld_example s (pfn p) = 1 \<and> page_dec_ref ld_example p s = Inr s'"
proof -
  obtain p s where "pa_reach ld_example s" "managed ld_example p" "refs ld_example s (pfn p) = 1"
    by (rule reach_one_page)
  then show ?thesis
    using page_dec_ref_correct [OF ld_ok_example, of s p] by auto
qed

text \<open>
  Pages allocated one after the other, as the page-wise loops of the process code do, are
  pairwise different, had no reference before and have one after, and no other counter moves.
\<close>

theorem alloc_many_distinct:
  assumes "ld_ok L" and "pa_reach L s"
  shows "\<exists>ps s'. pages.alloc_many L k s = Inr (ps, s') \<and> pa_inv L s' \<and> distinct (map pfn ps) \<and>
     (\<forall>p\<in>set ps. refs L s (pfn p) = 0) \<and>
     refs L s' = (\<lambda>q. if q \<in> pfn ` set ps then 1 else refs L s q)"
  using pages.alloc_many_spec [of L s k] assms pa_reach_inv [OF assms] by blast

theorem alloc_many_distinct_witness:
  "\<exists>ps s'. pages.alloc_many ld_example 3 (pa_boot (\<lambda>_. 0)) = Inr (ps, s') \<and> distinct (map pfn ps)"
  using alloc_many_distinct [OF ld_ok_example pa_reach.boot] by blast

text \<open>
  The allocator's own data never lies in a page it has handed out: a page with a reference
  ends at or below \<^verbatim>\<open>meta_top\<close>, every list node lies between \<^verbatim>\<open>meta_top\<close> and the counter table.
\<close>

theorem metadata_disjoint:
  assumes "ld_ok L" and "pa_reach L s" and "0 < refs L s q"
  shows "(q + 1) * 4096 \<le> unat (meta_top s) \<and>
    (\<forall>a\<in>#nodes_of s. unat (meta_top s) \<le> unat a \<and> unat a + 12 \<le> unat (ref_top L))"
  using metadata_above_pages [OF assms(1) pa_reach_inv [OF assms(1,2)] assms(3)] by blast

theorem metadata_disjoint_witness:
  "\<exists>q s. 0 < refs ld_example s q \<and> (q + 1) * 4096 \<le> unat (meta_top s)"
proof -
  obtain p s where "pa_reach ld_example s" "refs ld_example s (pfn p) = 1"
    by (rule reach_one_page)
  then have "0 < refs ld_example s (pfn p) \<and> (pfn p + 1) * 4096 \<le> unat (meta_top s)"
    using metadata_disjoint [OF ld_ok_example, of s "pfn p"] by simp
  then show ?thesis
    by blast
qed

text \<open>
  The bound on the request is needed: asking for \<open>2 ^ 20\<close> pages wraps the byte count to zero,
  the overflow test does not notice, and the call succeeds without reserving or zeroing memory.
\<close>

theorem alloc_pages_wraps:
  "\<exists>s'. alloc_pages ld_example 0x100000 (pa_boot m) = Inr (0x80341000, s') \<and>
    next_paddr s' = 0x80341000 \<and> pmem s' = m"
proof -
  have frame: "next_paddr (fold (mark_one L) as s) = next_paddr s \<and> pmem (fold (mark_one L) as s) = pmem s" for L as s
    by (induction as arbitrary: s) (simp_all add: mark_one_def split: option.split)
  have wrap: "(4294967296 :: u32) = 0"
    by simp
  have "mem_fill a 0 4294967296 m = m" for a
    unfolding wrap by (simp add: mem_fill_def)
  then show ?thesis
    using frame by (simp add: alloc_pages_def alloc_pages_try_def init_allocator_if_needed_def pa_boot_def
        ld_example_def lock_defs Let_def mark_allocated_def word_le_nat_alt)
qed

end
