(* ===== verification/Vm.thy ===== *)
theory Vm
  imports Page_Alloc_Spec
begin

text \<open>
  The Sv32 page tables of \<^verbatim>\<open>mm/vm.c\<close>, kept in the byte memory of the allocator state: an entry
  \<^verbatim>\<open>t[i]\<close> of a table is the 32-bit word at address \<open>t + 4 * i\<close>. The kernel runs with an identity
  mapping of RAM, so the C pointers are the physical addresses. The translation cache of the
  processor is not modelled: \<^verbatim>\<open>sfence.vma\<close> has no effect here.
\<close>

abbreviation PTE_V :: u32 where "PTE_V \<equiv> 1"
abbreviation PTE_R :: u32 where "PTE_R \<equiv> 2"
abbreviation PTE_W :: u32 where "PTE_W \<equiv> 4"
abbreviation PTE_X :: u32 where "PTE_X \<equiv> 8"
abbreviation PTE_U :: u32 where "PTE_U \<equiv> 16"
abbreviation PTE_A :: u32 where "PTE_A \<equiv> 64"
abbreviation PTE_D :: u32 where "PTE_D \<equiv> 128"

abbreviation VM_FLG_R :: u32 where "VM_FLG_R \<equiv> 1"
abbreviation VM_FLG_W :: u32 where "VM_FLG_W \<equiv> 2"
abbreviation VM_FLG_X :: u32 where "VM_FLG_X \<equiv> 4"
abbreviation VM_FLG_U :: u32 where "VM_FLG_U \<equiv> 8"

abbreviation VMA_PROT_R :: u32 where "VMA_PROT_R \<equiv> 1"
abbreviation VMA_PROT_W :: u32 where "VMA_PROT_W \<equiv> 2"
abbreviation VMA_PROT_X :: u32 where "VMA_PROT_X \<equiv> 4"

record vm =
  pa_state :: page_alloc
  kernel_root_pt :: u32
  kernel_satp_value :: u32

definition pte_from_pa :: "u32 \<Rightarrow> u32 \<Rightarrow> u32" where
  "pte_from_pa pa perm = push_bit 10 (drop_bit 12 pa) OR perm OR PTE_V OR PTE_A OR PTE_D"

definition pte_perm_from_flags :: "u32 \<Rightarrow> u32" where
  "pte_perm_from_flags flags =
     (let p = 0;
          p = (if flags AND VM_FLG_R \<noteq> 0 then p OR PTE_R else p);
          p = (if flags AND VM_FLG_W \<noteq> 0 then p OR PTE_W else p);
          p = (if flags AND VM_FLG_X \<noteq> 0 then p OR PTE_X else p);
          p = (if flags AND VM_FLG_U \<noteq> 0 then p OR PTE_U else p)
      in p)"

definition vpn1 :: "u32 \<Rightarrow> u32" where
  "vpn1 va = drop_bit 22 va AND 0x3ff"

definition vpn0 :: "u32 \<Rightarrow> u32" where
  "vpn0 va = drop_bit 12 va AND 0x3ff"

definition pte_read :: "mem \<Rightarrow> u32 \<Rightarrow> u32 \<Rightarrow> u32" where
  "pte_read m t i = load32 m (t + 4 * i)"

definition pte_write :: "u32 \<Rightarrow> u32 \<Rightarrow> u32 \<Rightarrow> mem \<Rightarrow> mem" where
  "pte_write t i v m = store32 (t + 4 * i) v m"

definition pte_pa :: "u32 \<Rightarrow> u32" where
  "pte_pa pte = push_bit 12 (drop_bit 10 pte)"

definition is_valid :: "u32 \<Rightarrow> bool" where
  "is_valid pte \<longleftrightarrow> pte AND PTE_V \<noteq> 0"

definition is_leaf :: "u32 \<Rightarrow> bool" where
  "is_leaf pte \<longleftrightarrow> pte AND (PTE_R OR PTE_W OR PTE_X) \<noteq> 0"

text \<open>The loop that fills a second-level table with the 1024 pages of a split 4 MiB page.\<close>

definition split_table :: "u32 \<Rightarrow> u32 \<Rightarrow> u32 \<Rightarrow> mem \<Rightarrow> mem" where
  "split_table l0 pa4m perm m =
     fold (\<lambda>i m. pte_write l0 (of_nat i) (pte_from_pa (pa4m + of_nat i * PAGE_SIZE) perm) m) [0..<1024] m"

definition vm_map_page :: "ld_layout \<Rightarrow> u32 \<Rightarrow> u32 \<Rightarrow> u32 \<Rightarrow> u32 \<Rightarrow> page_alloc \<Rightarrow> (int \<times> page_alloc) kres" where
  "vm_map_page L root va pa flags s =
     (let pte1 = pte_read (pmem s) root (vpn1 va) in
      if \<not> is_valid pte1 \<or> is_leaf pte1 then
        kbind (alloc_pages_try L 1 s) (\<lambda>(l0_pa, s).
          if l0_pa = 0 then Inr (-1, s)
          else
            let m = mem_fill l0_pa 0 PAGE_SIZE (pmem s);
                m = (if is_valid pte1 \<and> is_leaf pte1 then
                       let perm = pte1 AND (PTE_R OR PTE_W OR PTE_X OR PTE_U OR PTE_A OR PTE_D);
                           pa4m = pte_pa pte1 AND NOT 0x003fffff
                       in split_table l0_pa pa4m perm m
                     else m);
                m = pte_write root (vpn1 va) (push_bit 10 (drop_bit 12 l0_pa) OR PTE_V) m;
                m = pte_write l0_pa (vpn0 va) (pte_from_pa pa (pte_perm_from_flags flags)) m
            in Inr (0, s\<lparr>pmem := m\<rparr>))
      else
        Inr (0, s\<lparr>pmem := pte_write (pte_pa pte1) (vpn0 va) (pte_from_pa pa (pte_perm_from_flags flags)) (pmem s)\<rparr>))"

text \<open>
  \<^verbatim>\<open>while (off < len) { ...; off += PAGE_SIZE; }\<close> When \<open>len\<close> is above \<open>2 ^ 32 - 4096\<close> the
  32-bit offset wraps to 0 and the loop starts over for ever.
\<close>

function map_4k_loop :: "ld_layout \<Rightarrow> u32 \<Rightarrow> u32 \<Rightarrow> u32 \<Rightarrow> u32 \<Rightarrow> u32 \<Rightarrow> u32 \<Rightarrow> page_alloc \<Rightarrow> (int \<times> page_alloc) kres" where
  "map_4k_loop L root va pa len flags off s =
     (if off < len then
        kbind (vm_map_page L root (va + off) (pa + off) flags s) (\<lambda>(rc, s).
          if rc < 0 then Inr (-1, s)
          else if off + PAGE_SIZE < off then Inl Spin_forever
          else map_4k_loop L root va pa len flags (off + PAGE_SIZE) s)
      else Inr (0, s))"
  by pat_completeness auto
termination
proof (relation "measure (\<lambda>(L, root, va, pa, len, flags, off, s). 4294967296 - unat off)", goal_cases)
  case 1
  show ?case by simp
next
  case (2 L root va pa len flags off s x rc s')
  then have "unat off < unat (off + PAGE_SIZE)"
    by (simp add: word_step_less)
  then show ?case
    using unat_lt_2p32 [of "off + PAGE_SIZE"] by simp
qed

declare map_4k_loop.simps [simp del]

definition vm_map_range_4k :: "ld_layout \<Rightarrow> u32 \<Rightarrow> u32 \<Rightarrow> u32 \<Rightarrow> u32 \<Rightarrow> u32 \<Rightarrow> page_alloc \<Rightarrow> (int \<times> page_alloc) kres" where
  "vm_map_range_4k L root va pa len flags s = map_4k_loop L root va pa len flags 0 s"

text \<open>
  The 4 MiB loop writes root entries only. Its offset wraps in the same way for lengths above
  \<open>2 ^ 32 - 0x400000\<close>; the kernel calls it with constant lengths far below that.
\<close>

function map_4m_loop :: "u32 \<Rightarrow> u32 \<Rightarrow> u32 \<Rightarrow> u32 \<Rightarrow> u32 \<Rightarrow> u32 \<Rightarrow> mem \<Rightarrow> mem kres" where
  "map_4m_loop root va pa len perm off m =
     (if off < len then
        let m = pte_write root (vpn1 (va + off)) (pte_from_pa (pa + off) perm) m in
        if off + 0x400000 < off then Inl Spin_forever
        else map_4m_loop root va pa len perm (off + 0x400000) m
      else Inr m)"
  by pat_completeness auto
termination
proof (relation "measure (\<lambda>(root, va, pa, len, perm, off, m). 4294967296 - unat off)", goal_cases)
  case 1
  show ?case by simp
next
  case (2 root va pa len perm off m m')
  then have "unat off < unat (off + 0x400000)"
    by (simp add: word_step_less)
  then show ?case
    using unat_lt_2p32 [of "off + 0x400000"] by simp
qed

declare map_4m_loop.simps [simp del]

definition vm_map_range_4m :: "u32 \<Rightarrow> u32 \<Rightarrow> u32 \<Rightarrow> u32 \<Rightarrow> u32 \<Rightarrow> mem \<Rightarrow> mem kres" where
  "vm_map_range_4m root va pa len flags m = map_4m_loop root va pa len (pte_perm_from_flags flags) 0 m"

definition vm_make_satp :: "u32 \<Rightarrow> u32" where
  "vm_make_satp root_pa = push_bit 31 1 OR drop_bit 12 root_pa"

definition vm_root_from_satp :: "u32 \<Rightarrow> u32" where
  "vm_root_from_satp satp_value = push_bit 12 (satp_value AND 0x003fffff)"

definition vm_map_identity_segment :: "ld_layout \<Rightarrow> u32 \<Rightarrow> u32 \<Rightarrow> u32 \<Rightarrow> u32 \<Rightarrow> page_alloc \<Rightarrow> (int \<times> page_alloc) kres" where
  "vm_map_identity_segment L root start end flags s =
     (if end \<le> start then Inr (0, s) else vm_map_range_4k L root start start (end - start) flags s)"

definition vm_activate :: "u32 \<Rightarrow> hart \<Rightarrow> hart" where
  "vm_activate satp_value h = h\<lparr>satp := satp_value\<rparr>"

text \<open>\<open>None\<close> is the return value 0; otherwise the physical address and the protection bits.\<close>

definition vm_query_user_page :: "mem \<Rightarrow> u32 \<Rightarrow> u32 \<Rightarrow> (u32 \<times> u32) option" where
  "vm_query_user_page m satp_value va =
     (let root = vm_root_from_satp satp_value;
          pte1 = pte_read m root (vpn1 va)
      in
      if \<not> is_valid pte1 then None
      else if is_leaf pte1 then
        Some (pte_pa pte1 OR (va AND 0x003fffff), pte1 AND (PTE_R OR PTE_W OR PTE_X OR PTE_U))
      else
        let pte0 = pte_read m (pte_pa pte1) (vpn0 va) in
        if \<not> is_valid pte0 \<or> \<not> is_leaf pte0 then None
        else Some (pte_pa pte0 OR (va AND 0xfff), pte0 AND (PTE_R OR PTE_W OR PTE_X OR PTE_U)))"

definition flags_of_prot :: "u32 \<Rightarrow> u32" where
  "flags_of_prot prot =
     (let flags = 0;
          flags = (if prot AND VMA_PROT_R \<noteq> 0 then flags OR VM_FLG_R else flags);
          flags = (if prot AND VMA_PROT_W \<noteq> 0 then flags OR VM_FLG_W else flags);
          flags = (if prot AND VMA_PROT_X \<noteq> 0 then flags OR VM_FLG_X else flags)
      in flags OR VM_FLG_U)"

definition vm_map_user_page :: "ld_layout \<Rightarrow> u32 \<Rightarrow> u32 \<Rightarrow> u32 \<Rightarrow> u32 \<Rightarrow> page_alloc \<Rightarrow> (int \<times> page_alloc) kres" where
  "vm_map_user_page L satp_value va pa prot s =
     (if \<not> is_page_aligned va \<or> \<not> is_page_aligned pa then Inr (-1, s)
      else vm_map_page L (vm_root_from_satp satp_value) va pa (flags_of_prot prot) s)"

definition vm_unmap_user_page :: "u32 \<Rightarrow> u32 \<Rightarrow> mem \<Rightarrow> int \<times> mem" where
  "vm_unmap_user_page satp_value va m =
     (if \<not> is_page_aligned va then (-1, m)
      else
        let root = vm_root_from_satp satp_value;
            pte1 = pte_read m root (vpn1 va)
        in
        if \<not> is_valid pte1 then (0, m)
        else if is_leaf pte1 then (-1, m)
        else (0, pte_write (pte_pa pte1) (vpn0 va) 0 m))"

definition vm_init :: "ld_layout \<Rightarrow> vm \<Rightarrow> hart \<Rightarrow> (int \<times> vm \<times> hart) kres" where
  "vm_init L v h =
     kbind (alloc_pages_try L 1 (pa_state v)) (\<lambda>(root_pa, s).
       if root_pa = 0 then Inr (-1, v\<lparr>pa_state := s\<rparr>, h)
       else
         let v = v\<lparr>kernel_root_pt := root_pa\<rparr>;
             m = mem_fill root_pa 0 PAGE_SIZE (pmem s);
             rw = VM_FLG_R OR VM_FLG_W
         in
         kbind (vm_map_range_4m root_pa 0x02000000 0x02000000 0x00400000 rw m) (\<lambda>m.
         kbind (vm_map_range_4m root_pa 0x0c000000 0x0c000000 0x00400000 rw m) (\<lambda>m.
         kbind (vm_map_range_4m root_pa 0x10000000 0x10000000 0x02000000 rw m) (\<lambda>m.
         kbind (vm_map_range_4m root_pa 0x80000000 0x80000000 0x04000000 (rw OR VM_FLG_X) m) (\<lambda>m.
           let satp_value = vm_make_satp root_pa in
           Inr (0, v\<lparr>pa_state := s\<lparr>pmem := m\<rparr>, kernel_satp_value := satp_value\<rparr>, vm_activate satp_value h))))))"

definition user_segments :: "ld_layout \<Rightarrow> (u32 \<times> u32 \<times> u32) list" where
  "user_segments L =
     [(page_floor (rodata_start L), page_ceil (rodata_end L), VM_FLG_R OR VM_FLG_U),
      (page_floor (user_text_start L), page_ceil (user_text_end L), VM_FLG_R OR VM_FLG_X OR VM_FLG_U),
      (page_floor (user_rodata_start L), page_ceil (user_rodata_end L), VM_FLG_R OR VM_FLG_U),
      (page_floor (user_data_start L), page_ceil (user_data_end L), VM_FLG_R OR VM_FLG_W OR VM_FLG_U),
      (page_floor (user_bss_start L), page_ceil (user_bss_end L), VM_FLG_R OR VM_FLG_W OR VM_FLG_U)]"

fun map_segments :: "ld_layout \<Rightarrow> u32 \<Rightarrow> (u32 \<times> u32 \<times> u32) list \<Rightarrow> page_alloc \<Rightarrow> (int \<times> page_alloc) kres" where
  "map_segments L root [] s = Inr (0, s)"
| "map_segments L root ((start, end, flags) # segs) s =
     kbind (vm_map_identity_segment L root start end flags s) (\<lambda>(rc, s).
       if rc < 0 then Inr (-1, s) else map_segments L root segs s)"

definition vm_build_user_satp :: "ld_layout \<Rightarrow> u32 \<Rightarrow> u32 \<Rightarrow> u32 \<Rightarrow> vm \<Rightarrow> (u32 \<times> vm) kres" where
  "vm_build_user_satp L user_stack_base user_stack_paddr user_stack_pages v =
     kbind (alloc_pages_try L 1 (pa_state v)) (\<lambda>(root_pa, s).
       if root_pa = 0 then Inr (0, v\<lparr>pa_state := s\<rparr>)
       else
         let m = mem_fill root_pa 0 PAGE_SIZE (pmem s);
             s = s\<lparr>pmem := memcpy root_pa (kernel_root_pt v) PAGE_SIZE m\<rparr>
         in
         kbind (map_segments L root_pa (user_segments L) s) (\<lambda>(rc, s).
         kbind (if rc < 0 then Inr (rc, s)
                else if 0 < user_stack_pages
                then vm_map_range_4k L root_pa user_stack_base user_stack_paddr (user_stack_pages * PAGE_SIZE)
                       (VM_FLG_R OR VM_FLG_W OR VM_FLG_U) s
                else Inr (0, s)) (\<lambda>(rc, s).
         if rc < 0 then kbind (free_pages L root_pa 1 s) (\<lambda>s. Inr (0, v\<lparr>pa_state := s\<rparr>))
         else Inr (vm_make_satp root_pa, v\<lparr>pa_state := s\<rparr>))))"

end
