(* ===== verification/Proc.thy ===== *)
theory Proc
  imports Vma Vm Lock
begin

text \<open>
  The process table of \<^verbatim>\<open>kernel/include/kernel/proc.h\<close> and the saved contexts of
  \<^verbatim>\<open>arch/riscv32/include/arch/trap.h\<close> and \<^verbatim>\<open>arch/riscv32/process.c\<close>. A pointer into \<^verbatim>\<open>procs\<close> is an index.
  Of the kernel stack of a process the model keeps the sixteen words at its top that
  \<^verbatim>\<open>arch_init_switch_context\<close> writes for \<^verbatim>\<open>switch_context\<close>.
\<close>

record trap_frame =
  tf_ra :: u32
  tf_gp :: u32
  tf_tp :: u32
  tf_t0 :: u32
  tf_t1 :: u32
  tf_t2 :: u32
  tf_t3 :: u32
  tf_t4 :: u32
  tf_t5 :: u32
  tf_t6 :: u32
  tf_a0 :: u32
  tf_a1 :: u32
  tf_a2 :: u32
  tf_a3 :: u32
  tf_a4 :: u32
  tf_a5 :: u32
  tf_a6 :: u32
  tf_a7 :: u32
  tf_s0 :: u32
  tf_s1 :: u32
  tf_s2 :: u32
  tf_s3 :: u32
  tf_s4 :: u32
  tf_s5 :: u32
  tf_s6 :: u32
  tf_s7 :: u32
  tf_s8 :: u32
  tf_s9 :: u32
  tf_s10 :: u32
  tf_s11 :: u32
  tf_sp :: u32
  tf_sepc :: u32
  tf_sstatus :: u32

definition zero_frame :: trap_frame where
  "zero_frame = \<lparr>tf_ra = 0, tf_gp = 0, tf_tp = 0, tf_t0 = 0, tf_t1 = 0, tf_t2 = 0, tf_t3 = 0, tf_t4 = 0,
     tf_t5 = 0, tf_t6 = 0, tf_a0 = 0, tf_a1 = 0, tf_a2 = 0, tf_a3 = 0, tf_a4 = 0, tf_a5 = 0,
     tf_a6 = 0, tf_a7 = 0, tf_s0 = 0, tf_s1 = 0, tf_s2 = 0, tf_s3 = 0, tf_s4 = 0, tf_s5 = 0,
     tf_s6 = 0, tf_s7 = 0, tf_s8 = 0, tf_s9 = 0, tf_s10 = 0, tf_s11 = 0, tf_sp = 0, tf_sepc =
     0, tf_sstatus = 0\<rparr>"

record file_desc =
  fd_used :: bool
  fd_inode :: int
  fd_offset :: u32
  fd_flags :: u32

definition no_file :: file_desc where
  "no_file = \<lparr>fd_used = False, fd_inode = 0, fd_offset = 0, fd_flags = 0\<rparr>"

abbreviation PROC_MAX :: nat where "PROC_MAX \<equiv> 8"
abbreviation FD_MAX :: nat where "FD_MAX \<equiv> 16"
abbreviation PROC_VMA_MAX :: nat where "PROC_VMA_MAX \<equiv> 16"

datatype proc_state = PROC_UNUSED | PROC_RUNNABLE | PROC_BLOCKED | PROC_ZOMBIE

record process =
  pid :: int
  state :: proc_state
  priority :: int
  budget :: int
  parent_pid :: int
  exit_status :: int
  is_user :: bool
  p_sp :: u32
  user_stack_base :: u32
  user_stack_paddr :: u32
  user_stack_pages :: u32
  stack_top_words :: "u32 list"
  has_trap_frame :: bool
  p_sepc :: u32
  p_satp :: u32
  p_trap_frame :: trap_frame
  vmas :: "user_vma list"
  fds :: "file_desc list"

text \<open>\<^verbatim>\<open>memset(proc, 0, sizeof(*proc))\<close>; \<^verbatim>\<open>PROC_UNUSED\<close> is 0.\<close>

definition zero_process :: process where
  "zero_process = \<lparr>pid = 0, state = PROC_UNUSED, priority = 0, budget = 0, parent_pid = 0, exit_status = 0,
     is_user = False, p_sp = 0, user_stack_base = 0, user_stack_paddr = 0, user_stack_pages = 0,
     stack_top_words = replicate 16 0, has_trap_frame = False, p_sepc = 0, p_satp = 0,
     p_trap_frame = zero_frame, vmas = replicate PROC_VMA_MAX no_vma, fds = replicate FD_MAX no_file\<rparr>"

section \<open>Saved contexts\<close>

abbreviation SSTATUS_SIE :: u32 where "SSTATUS_SIE \<equiv> 2"
abbreviation SSTATUS_SPIE :: u32 where "SSTATUS_SPIE \<equiv> 0x20"
abbreviation SSTATUS_SPP :: u32 where "SSTATUS_SPP \<equiv> 0x100"
abbreviation SSTATUS_SUM :: u32 where "SSTATUS_SUM \<equiv> 0x40000"

text \<open>\<open>stack_end\<close> is the address of the end of \<^verbatim>\<open>proc->stack\<close>, a symbol of the linked image.\<close>

definition arch_init_switch_context :: "u32 \<Rightarrow> process \<Rightarrow> u32 \<Rightarrow> hart \<Rightarrow> process" where
  "arch_init_switch_context stack_end proc entry h =
     (let words = replicate 16 0;
          words = words[0 := entry];
          status = sstatus h AND NOT (SSTATUS_SIE OR SSTATUS_SUM);
          words = words[13 := if is_user proc then status else status OR SSTATUS_SIE]
      in proc\<lparr>stack_top_words := words, p_sp := stack_end - 64\<rparr>)"

definition arch_init_user_context :: "process \<Rightarrow> u32 \<Rightarrow> u32 \<Rightarrow> u32 \<Rightarrow> u32 \<Rightarrow> process" where
  "arch_init_user_context proc entry stack_top argc argv =
     proc\<lparr>p_trap_frame := zero_frame\<lparr>tf_sp := stack_top, tf_a0 := argc, tf_a1 := argv, tf_sepc := entry,
            tf_sstatus := SSTATUS_SPIE\<rparr>,
          p_sepc := entry, has_trap_frame := True\<rparr>"

definition arch_user_stack_pointer :: "process \<Rightarrow> u32" where
  "arch_user_stack_pointer proc = tf_sp (p_trap_frame proc)"

definition arch_clone_user_context :: "process \<Rightarrow> process \<Rightarrow> u32 \<Rightarrow> process" where
  "arch_clone_user_context child parent child_sp =
     (let child = child\<lparr>p_trap_frame := (p_trap_frame parent)\<lparr>tf_a0 := 0, tf_sp := child_sp\<rparr>\<rparr>
      in child\<lparr>p_sepc := tf_sepc (p_trap_frame child), has_trap_frame := True\<rparr>)"

end
