(* ===== verification/Process_Vm.thy ===== *)
theory Process_Vm
  imports Proc
begin

text \<open>
  The memory of user processes, from \<^verbatim>\<open>mm/process_vm.c\<close> and \<^verbatim>\<open>mm/usercopy.c\<close>. The functions take the
  process record and the allocator state that holds physical memory; the current process is the
  argument \<open>p\<close> (\<open>None\<close> models a null \<^verbatim>\<open>current_proc\<close>).
\<close>

section \<open>Releasing and resetting\<close>

text \<open>
  The addresses of \<^verbatim>\<open>for (va = vs; va < ve; va += PAGE_SIZE)\<close>. Areas are page-aligned, so the
  32-bit counter reaches \<open>ve\<close> without wrapping.
\<close>

definition page_range :: "u32 \<Rightarrow> u32 \<Rightarrow> u32 list" where
  "page_range vs ve = page_addrs vs ((unat ve - unat vs + 4095) div 4096)"

text \<open>The body that \<^verbatim>\<open>proc_vm_release\<close>, \<^verbatim>\<open>proc_vm_reset\<close> and \<^verbatim>\<open>proc_munmap\<close> share: unmap a page and free its frame.\<close>

fun unmap_pages :: "ld_layout \<Rightarrow> u32 \<Rightarrow> u32 list \<Rightarrow> page_alloc \<Rightarrow> page_alloc kres" where
  "unmap_pages L sv [] s = Inr s"
| "unmap_pages L sv (va # vas) s =
     (case vm_query_user_page (pmem s) sv va of
        None \<Rightarrow> unmap_pages L sv vas s
      | Some (pa, _) \<Rightarrow>
          let (rc, m) = vm_unmap_user_page sv va (pmem s); s = s\<lparr>pmem := m\<rparr> in
          if rc = 0 then kbind (free_pages L pa 1 s) (unmap_pages L sv vas)
          else unmap_pages L sv vas s)"

definition in_mmap_window :: "user_vma \<Rightarrow> bool" where
  "in_mmap_window v \<longleftrightarrow> v_used v \<and> \<not> (v_start v < USER_MMAP_BASE \<or> USER_MMAP_END < v_end v)"

fun release_vmas :: "ld_layout \<Rightarrow> u32 \<Rightarrow> user_vma list \<Rightarrow> page_alloc \<Rightarrow> page_alloc kres" where
  "release_vmas L sv [] s = Inr s"
| "release_vmas L sv (v # vs) s =
     (if \<not> in_mmap_window v then release_vmas L sv vs s
      else kbind (unmap_pages L sv (page_range (v_start v) (v_end v)) s) (release_vmas L sv vs))"

definition proc_vm_release :: "ld_layout \<Rightarrow> process \<Rightarrow> page_alloc \<Rightarrow> page_alloc kres" where
  "proc_vm_release L p s =
     (if \<not> is_user p then Inr s
      else
        kbind (release_vmas L (p_satp p) (vmas p) s) (\<lambda>s.
          if p_satp p = 0 then
            if user_stack_paddr p \<noteq> 0 \<and> 0 < user_stack_pages p
            then free_pages L (user_stack_paddr p) (user_stack_pages p) s
            else Inr s
          else unmap_pages L (p_satp p) (page_addrs (user_stack_base p) (unat (user_stack_pages p))) s))"

fun reset_vmas :: "ld_layout \<Rightarrow> u32 \<Rightarrow> user_vma list \<Rightarrow> page_alloc \<Rightarrow> (user_vma list \<times> page_alloc) kres" where
  "reset_vmas L sv [] s = Inr ([], s)"
| "reset_vmas L sv (v # vs) s =
     (if \<not> in_mmap_window v then
        kbind (reset_vmas L sv vs s) (\<lambda>(vs, s). Inr (v # vs, s))
      else
        kbind (unmap_pages L sv (page_range (v_start v) (v_end v)) s) (\<lambda>s.
          kbind (reset_vmas L sv vs s) (\<lambda>(vs, s). Inr (no_vma # vs, s))))"

definition proc_vm_reset :: "ld_layout \<Rightarrow> process \<Rightarrow> page_alloc \<Rightarrow> (process \<times> page_alloc) kres" where
  "proc_vm_reset L p s = kbind (reset_vmas L (p_satp p) (vmas p) s) (\<lambda>(vs, s). Inr (p\<lparr>vmas := vs\<rparr>, s))"

section \<open>Initial areas\<close>

fun add_vmas :: "(u32 \<times> u32 \<times> u32) list \<Rightarrow> user_vma list \<Rightarrow> int \<times> user_vma list" where
  "add_vmas [] vs = (0, vs)"
| "add_vmas ((lo, hi, prot) # segs) vs =
     (if lo < hi then
        let (rc, vs) = proc_add_vma vs lo hi prot in
        if rc < 0 then (-1, vs) else add_vmas segs vs
      else add_vmas segs vs)"

definition vm_init_segments :: "ld_layout \<Rightarrow> process \<Rightarrow> (u32 \<times> u32 \<times> u32) list" where
  "vm_init_segments L p =
     [(page_floor (user_text_start L), page_ceil (user_text_end L), VMA_PROT_R OR VMA_PROT_X),
      (page_floor (user_rodata_start L), page_ceil (user_rodata_end L), VMA_PROT_R),
      (page_floor (user_data_start L), page_ceil (user_data_end L), VMA_PROT_R OR VMA_PROT_W),
      (page_floor (user_bss_start L), page_ceil (user_bss_end L), VMA_PROT_R OR VMA_PROT_W),
      (user_stack_base p, user_stack_base p + user_stack_pages p * PAGE_SIZE, VMA_PROT_R OR VMA_PROT_W)]"

definition proc_vm_init :: "ld_layout \<Rightarrow> process \<Rightarrow> int \<times> process" where
  "proc_vm_init L p =
     (let (rc, vs) = add_vmas (vm_init_segments L p) (replicate PROC_VMA_MAX no_vma)
      in (rc, p\<lparr>vmas := vs\<rparr>))"

section \<open>Fork\<close>

fun clone_pages :: "ld_layout \<Rightarrow> u32 \<Rightarrow> u32 \<Rightarrow> u32 \<Rightarrow> u32 list \<Rightarrow> page_alloc \<Rightarrow> (int \<times> page_alloc) kres" where
  "clone_pages L psv csv cow_prot [] s = Inr (0, s)"
| "clone_pages L psv csv cow_prot (va # vas) s =
     (case vm_query_user_page (pmem s) psv va of
        None \<Rightarrow> clone_pages L psv csv cow_prot vas s
      | Some (parent_pa, _) \<Rightarrow>
          let old_child = vm_query_user_page (pmem s) csv va in
          kbind (vm_map_user_page L psv va parent_pa cow_prot s) (\<lambda>(rc, s).
            if rc < 0 then Inr (-1, s)
            else
              kbind (page_inc_ref L parent_pa s) (\<lambda>s.
              kbind (vm_map_user_page L csv va parent_pa cow_prot s) (\<lambda>(rc, s).
                if rc < 0 then kbind (page_dec_ref L parent_pa s) (\<lambda>s. Inr (-1, s))
                else
                  (case old_child of
                     Some (old_child_pa, _) \<Rightarrow>
                       if old_child_pa \<noteq> parent_pa
                       then kbind (free_pages L old_child_pa 1 s) (clone_pages L psv csv cow_prot vas)
                       else clone_pages L psv csv cow_prot vas s
                   | None \<Rightarrow> clone_pages L psv csv cow_prot vas s)))))"

fun clone_vmas :: "ld_layout \<Rightarrow> u32 \<Rightarrow> u32 \<Rightarrow> user_vma list \<Rightarrow> page_alloc \<Rightarrow> (int \<times> page_alloc) kres" where
  "clone_vmas L psv csv [] s = Inr (0, s)"
| "clone_vmas L psv csv (v # vs) s =
     (if \<not> v_used v \<or> v_prot v AND VMA_PROT_W = 0 then clone_vmas L psv csv vs s
      else
        kbind (clone_pages L psv csv (v_prot v AND NOT VMA_PROT_W) (page_range (v_start v) (v_end v)) s)
          (\<lambda>(rc, s). if rc < 0 then Inr (-1, s) else clone_vmas L psv csv vs s))"

definition proc_vm_clone :: "ld_layout \<Rightarrow> process \<Rightarrow> process \<Rightarrow> page_alloc \<Rightarrow> (int \<times> page_alloc) kres" where
  "proc_vm_clone L parent child s = clone_vmas L (p_satp parent) (p_satp child) (vmas parent) s"

section \<open>Mapping and unmapping on request\<close>

definition proc_munmap :: "ld_layout \<Rightarrow> process option \<Rightarrow> u32 \<Rightarrow> u32 \<Rightarrow> page_alloc \<Rightarrow> (int \<times> process option \<times> page_alloc) kres" where
  "proc_munmap L cur addr len s =
     (case cur of
        None \<Rightarrow> Inr (-1, cur, s)
      | Some p \<Rightarrow>
          if \<not> is_user p then Inr (-1, cur, s)
          else if \<not> is_page_aligned addr then Inr (-1, cur, s)
          else if len = 0 then Inr (-1, cur, s)
          else
            let len = page_ceil len; en = addr + len in
            if en < addr then Inr (-1, cur, s)
            else if addr < USER_MMAP_BASE \<or> USER_MMAP_END < en then Inr (-1, cur, s)
            else
              (case munmap_cut addr en [0..<PROC_VMA_MAX] (vmas p) False of
                 Inl vs \<Rightarrow> Inr (-1, Some (p\<lparr>vmas := vs\<rparr>), s)
               | Inr (vs, changed) \<Rightarrow>
                   if \<not> changed then Inr (0, Some (p\<lparr>vmas := vs\<rparr>), s)
                   else kbind (unmap_pages L (p_satp p) (page_range addr en) s) (\<lambda>s. Inr (0, Some (p\<lparr>vmas := vs\<rparr>), s))))"

abbreviation MAP_FIXED :: u32 where "MAP_FIXED \<equiv> 4"

text \<open>The choice of the address when \<^verbatim>\<open>MAP_FIXED\<close> is not given: a usable hint, else the search.\<close>

definition mmap_pick_addr :: "user_vma list \<Rightarrow> u32 \<Rightarrow> u32 \<Rightarrow> u32 option kres" where
  "mmap_pick_addr vs addr_hint len =
     (let hint_end = addr_hint + len;
          addr = (if addr_hint \<noteq> 0 \<and> is_page_aligned addr_hint \<and> USER_MMAP_BASE \<le> addr_hint \<and>
                     hint_end \<le> USER_MMAP_END \<and> addr_hint \<le> hint_end \<and>
                     \<not> proc_range_overlaps_any_vma vs addr_hint hint_end
                  then addr_hint else 0)
      in if addr \<noteq> 0 then Inr (Some addr)
         else (case proc_find_free_mmap_range vs len of
                 None \<Rightarrow> Inl Spin_forever
               | Some r \<Rightarrow> Inr r))"

definition mmap_add :: "process \<Rightarrow> u32 \<Rightarrow> u32 \<Rightarrow> u32 \<Rightarrow> page_alloc \<Rightarrow> (int \<times> process option \<times> page_alloc) kres" where
  "mmap_add p addr len prot s =
     (let (rc, vs) = proc_add_vma (vmas p) addr (addr + len) prot; p = p\<lparr>vmas := vs\<rparr>
      in if rc < 0 then Inr (-1, Some p, s) else Inr (sint addr, Some p, s))"

definition proc_mmap :: "ld_layout \<Rightarrow> process option \<Rightarrow> u32 \<Rightarrow> u32 \<Rightarrow> u32 \<Rightarrow> u32 \<Rightarrow> page_alloc \<Rightarrow> (int \<times> process option \<times> page_alloc) kres" where
  "proc_mmap L cur addr_hint len prot flags s =
     (case cur of
        None \<Rightarrow> Inr (-1, cur, s)
      | Some p \<Rightarrow>
          if \<not> is_user p then Inr (-1, cur, s)
          else if len = 0 then Inr (-1, cur, s)
          else if prot AND NOT (VMA_PROT_R OR VMA_PROT_W OR VMA_PROT_X) \<noteq> 0 \<or> prot = 0 then Inr (-1, cur, s)
          else
            let len = page_ceil len in
            if flags AND MAP_FIXED \<noteq> 0 then
              if \<not> is_page_aligned addr_hint then Inr (-1, cur, s)
              else if addr_hint < USER_MMAP_BASE \<or> USER_MMAP_END < addr_hint + len \<or> addr_hint + len < addr_hint
              then Inr (-1, cur, s)
              else
                kbind (proc_munmap L cur addr_hint len s) (\<lambda>(rc, cur, s).
                  if rc < 0 then Inr (-1, cur, s)
                  else (case cur of None \<Rightarrow> Inr (-1, cur, s) | Some p \<Rightarrow> mmap_add p addr_hint len prot s))
            else
              kbind (mmap_pick_addr (vmas p) addr_hint len) (\<lambda>r.
                case r of None \<Rightarrow> Inr (-1, cur, s) | Some addr \<Rightarrow> mmap_add p addr len prot s))"

section \<open>Page faults\<close>

abbreviation PTE_W_BIT :: u32 where "PTE_W_BIT \<equiv> 4"

definition proc_try_cow_fault :: "ld_layout \<Rightarrow> process \<Rightarrow> u32 \<Rightarrow> user_vma \<Rightarrow> page_alloc \<Rightarrow> (int \<times> page_alloc) kres" where
  "proc_try_cow_fault L p va v s =
     (if v_prot v AND VMA_PROT_W = 0 then Inr (-1, s)
      else
        (case vm_query_user_page (pmem s) (p_satp p) va of
           None \<Rightarrow> Inr (-1, s)
         | Some (old_pa, mapped) \<Rightarrow>
             if mapped AND PTE_W_BIT \<noteq> 0 then Inr (-1, s)
             else
               kbind (alloc_pages_try L 1 s) (\<lambda>(new_pa, s).
                 if new_pa = 0 then Inr (-1, s)
                 else
                   let s = s\<lparr>pmem := memcpy new_pa old_pa PAGE_SIZE (pmem s)\<rparr> in
                   kbind (vm_map_user_page L (p_satp p) va new_pa (v_prot v) s) (\<lambda>(rc, s).
                     if rc < 0 then kbind (free_pages L new_pa 1 s) (\<lambda>s. Inr (-1, s))
                     else kbind (page_dec_ref L old_pa s) (\<lambda>s. Inr (0, s))))))"

definition proc_handle_user_page_fault :: "ld_layout \<Rightarrow> process option \<Rightarrow> u32 \<Rightarrow> u32 \<Rightarrow> page_alloc \<Rightarrow> (int \<times> page_alloc) kres" where
  "proc_handle_user_page_fault L cur fault_addr access s =
     (case cur of
        None \<Rightarrow> Inr (-1, s)
      | Some p \<Rightarrow>
          if \<not> is_user p then Inr (-1, s)
          else if access \<noteq> VMA_PROT_X \<and> access \<noteq> VMA_PROT_R \<and> access \<noteq> VMA_PROT_W then Inr (-1, s)
          else
            let va = page_floor fault_addr in
            (case proc_find_vma_index (vmas p) va of
               None \<Rightarrow> Inr (-1, s)
             | Some i \<Rightarrow>
                 let v = vmas p ! i in
                 if v_prot v AND access \<noteq> access then Inr (-1, s)
                 else
                   (case vm_query_user_page (pmem s) (p_satp p) va of
                      Some (_, mapped_prot) \<Rightarrow>
                        let need_bits = prot_to_query_bits access in
                        if mapped_prot AND need_bits = need_bits then Inr (0, s)
                        else if access = VMA_PROT_W then
                          kbind (proc_try_cow_fault L p va v s) (\<lambda>(rc, s).
                            if rc = 0 then Inr (0, s) else Inr (-1, s))
                        else Inr (-1, s)
                    | None \<Rightarrow>
                        kbind (alloc_pages_try L 1 s) (\<lambda>(pa, s).
                          if pa = 0 then Inr (-1, s)
                          else
                            kbind (vm_map_user_page L (p_satp p) va pa (v_prot v) s) (\<lambda>(rc, s).
                              if rc < 0 then kbind (free_pages L pa 1 s) (\<lambda>s. Inr (-1, s))
                              else Inr (0, s))))))"

section \<open>Checks and copies of user memory\<close>

definition proc_user_readable_ok :: "process option \<Rightarrow> u32 \<Rightarrow> u32 \<Rightarrow> bool" where
  "proc_user_readable_ok cur addr len =
     (case cur of None \<Rightarrow> True
      | Some p \<Rightarrow> if \<not> is_user p then True else proc_vma_range_ok (is_user p) (vmas p) addr len VMA_PROT_R)"

definition proc_user_writable_ok :: "process option \<Rightarrow> u32 \<Rightarrow> u32 \<Rightarrow> bool" where
  "proc_user_writable_ok cur addr len =
     (case cur of None \<Rightarrow> True
      | Some p \<Rightarrow> if \<not> is_user p then True else proc_vma_range_ok (is_user p) (vmas p) addr len VMA_PROT_W)"

end
