(* ===== verification/Usercopy.thy ===== *)
theory Usercopy
  imports Process_Vm
begin

text \<open>
  Kernel access to user memory: \<^verbatim>\<open>mm/usercopy.c\<close> and the string and argument checks of
  \<^verbatim>\<open>mm/process_vm.c\<close>. The kernel follows user addresses directly, so every byte goes through the
  page table; a missing page or right traps into \<^verbatim>\<open>handle_trap\<close>, which either serves the fault, after
  which the access is tried again, or ends the process. \<open>sv\<close> is the value of \<^verbatim>\<open>satp\<close>.
\<close>

section \<open>Access through the page table\<close>

text \<open>The translation the hart makes for a load or a store with \<^verbatim>\<open>SUM\<close> set.\<close>

definition hw_translate :: "mem \<Rightarrow> u32 \<Rightarrow> u32 \<Rightarrow> u32 \<Rightarrow> u32 option" where
  "hw_translate m sv a access =
     (case vm_query_user_page m sv a of
        None \<Rightarrow> None
      | Some (pa, prot) \<Rightarrow>
          if prot AND prot_to_query_bits access = prot_to_query_bits access then Some pa else None)"

text \<open>
  An access that is tried again after a served fault and faults once more would do so for ever.
\<close>

definition user_access :: "ld_layout \<Rightarrow> process option \<Rightarrow> u32 \<Rightarrow> u32 \<Rightarrow> u32 \<Rightarrow> page_alloc \<Rightarrow> (u32 \<times> page_alloc) kres" where
  "user_access L cur sv a access s =
     (case hw_translate (pmem s) sv a access of
        Some pa \<Rightarrow> Inr (pa, s)
      | None \<Rightarrow>
          (case cur of
             None \<Rightarrow> Inl Unexpected_trap
           | Some p \<Rightarrow>
               if \<not> is_user p then Inl Unexpected_trap
               else
                 kbind (proc_handle_user_page_fault L cur a access s) (\<lambda>(rc, s).
                   if rc = 0 then
                     (case hw_translate (pmem s) sv a access of
                        Some pa \<Rightarrow> Inr (pa, s)
                      | None \<Rightarrow> Inl Spin_forever)
                   else Inl Fault_killed)))"

definition user_load :: "ld_layout \<Rightarrow> process option \<Rightarrow> u32 \<Rightarrow> u32 \<Rightarrow> page_alloc \<Rightarrow> (u8 \<times> page_alloc) kres" where
  "user_load L cur sv a s = kbind (user_access L cur sv a VMA_PROT_R s) (\<lambda>(pa, s). Inr (pmem s pa, s))"

definition user_store :: "ld_layout \<Rightarrow> process option \<Rightarrow> u32 \<Rightarrow> u32 \<Rightarrow> u8 \<Rightarrow> page_alloc \<Rightarrow> page_alloc kres" where
  "user_store L cur sv a b s =
     kbind (user_access L cur sv a VMA_PROT_W s) (\<lambda>(pa, s). Inr (s\<lparr>pmem := (pmem s)(pa := b)\<rparr>))"

text \<open>A word load, byte by byte.\<close>

definition user_load32 :: "ld_layout \<Rightarrow> process option \<Rightarrow> u32 \<Rightarrow> u32 \<Rightarrow> page_alloc \<Rightarrow> (u32 \<times> page_alloc) kres" where
  "user_load32 L cur sv a s =
     kbind (user_load L cur sv a s) (\<lambda>(b0, s).
     kbind (user_load L cur sv (a + 1) s) (\<lambda>(b1, s).
     kbind (user_load L cur sv (a + 2) s) (\<lambda>(b2, s).
     kbind (user_load L cur sv (a + 3) s) (\<lambda>(b3, s).
       Inr (ucast b0 OR push_bit 8 (ucast b1) OR push_bit 16 (ucast b2) OR push_bit 24 (ucast b3), s)))))"

text \<open>\<^verbatim>\<open>memcpy\<close> with a user address on one side and a kernel buffer on the other.\<close>

fun load_bytes :: "ld_layout \<Rightarrow> process option \<Rightarrow> u32 \<Rightarrow> u32 \<Rightarrow> nat \<Rightarrow> page_alloc \<Rightarrow> (u8 list \<times> page_alloc) kres" where
  "load_bytes L cur sv a 0 s = Inr ([], s)"
| "load_bytes L cur sv a (Suc n) s =
     kbind (user_load L cur sv a s) (\<lambda>(b, s).
     kbind (load_bytes L cur sv (a + 1) n s) (\<lambda>(bs, s). Inr (b # bs, s)))"

fun store_bytes :: "ld_layout \<Rightarrow> process option \<Rightarrow> u32 \<Rightarrow> u32 \<Rightarrow> u8 list \<Rightarrow> page_alloc \<Rightarrow> page_alloc kres" where
  "store_bytes L cur sv a [] s = Inr s"
| "store_bytes L cur sv a (b # bs) s =
     kbind (user_store L cur sv a b s) (store_bytes L cur sv (a + 1) bs)"

section \<open>Copies\<close>

text \<open>
  The kernel buffer is never null. \<open>copy_from_user\<close> returns the bytes it stored in it, none when
  it fails.
\<close>

definition copy_from_user :: "ld_layout \<Rightarrow> process option \<Rightarrow> u32 \<Rightarrow> u32 \<Rightarrow> u32 \<Rightarrow> page_alloc \<Rightarrow> (int \<times> u8 list \<times> page_alloc) kres" where
  "copy_from_user L cur sv src len s =
     (if len = 0 then Inr (0, [], s)
      else if src = 0 \<or> \<not> proc_user_readable_ok cur src len then Inr (-1, [], s)
      else kbind (load_bytes L cur sv src (unat len) s) (\<lambda>(bs, s). Inr (0, bs, s)))"

definition copy_to_user :: "ld_layout \<Rightarrow> process option \<Rightarrow> u32 \<Rightarrow> u32 \<Rightarrow> u8 list \<Rightarrow> page_alloc \<Rightarrow> (int \<times> page_alloc) kres" where
  "copy_to_user L cur sv dst bs s =
     (if bs = [] then Inr (0, s)
      else if dst = 0 \<or> \<not> proc_user_writable_ok cur dst (of_nat (length bs)) then Inr (-1, s)
      else kbind (store_bytes L cur sv dst bs s) (\<lambda>s. Inr (0, s)))"

text \<open>The bytes stored in \<open>dst\<close> so far, with the terminator when the result is 0.\<close>

fun copy_string_loop :: "ld_layout \<Rightarrow> process option \<Rightarrow> u32 \<Rightarrow> u32 \<Rightarrow> nat \<Rightarrow> nat \<Rightarrow> page_alloc \<Rightarrow> (int \<times> u8 list \<times> page_alloc) kres" where
  "copy_string_loop L cur sv src i 0 s = Inr (-1, [], s)"
| "copy_string_loop L cur sv src i (Suc n) s =
     (if src + of_nat i < src \<or> \<not> proc_user_readable_ok cur (src + of_nat i) 1 then Inr (-1, [], s)
      else
        kbind (user_load L cur sv (src + of_nat i) s) (\<lambda>(b, s).
          if b = 0 then Inr (0, [b], s)
          else kbind (copy_string_loop L cur sv src (Suc i) n s) (\<lambda>(rc, bs, s). Inr (rc, b # bs, s))))"

definition copy_string_from_user :: "ld_layout \<Rightarrow> process option \<Rightarrow> u32 \<Rightarrow> u32 \<Rightarrow> u32 \<Rightarrow> page_alloc \<Rightarrow> (int \<times> u8 list \<times> page_alloc) kres" where
  "copy_string_from_user L cur sv src capacity s =
     (if src = 0 \<or> capacity = 0 then Inr (-1, [], s)
      else copy_string_loop L cur sv src 0 (unat capacity) s)"

section \<open>Checks of strings and argument vectors\<close>

fun cstr_loop :: "ld_layout \<Rightarrow> process option \<Rightarrow> u32 \<Rightarrow> u32 \<Rightarrow> nat \<Rightarrow> page_alloc \<Rightarrow> (bool \<times> page_alloc) kres" where
  "cstr_loop L cur sv a 0 s = Inr (False, s)"
| "cstr_loop L cur sv a (Suc n) s =
     (if \<not> proc_user_readable_ok cur a 1 then Inr (False, s)
      else
        kbind (user_load L cur sv a s) (\<lambda>(b, s).
          if b = 0 then Inr (True, s) else cstr_loop L cur sv (a + 1) n s))"

definition proc_user_cstr_ok :: "ld_layout \<Rightarrow> process option \<Rightarrow> u32 \<Rightarrow> u32 \<Rightarrow> u32 \<Rightarrow> page_alloc \<Rightarrow> (bool \<times> page_alloc) kres" where
  "proc_user_cstr_ok L cur sv addr max_len s =
     (case cur of
        None \<Rightarrow> Inr (True, s)
      | Some p \<Rightarrow>
          if \<not> is_user p then Inr (True, s)
          else if max_len = 0 then Inr (False, s)
          else if \<not> proc_user_readable_ok cur addr 1 then Inr (False, s)
          else cstr_loop L cur sv addr (unat max_len) s)"

text \<open>\<open>Some argc\<close> is the return value 0 with \<^verbatim>\<open>*argc_out = argc\<close>, \<open>None\<close> the return value \<open>-1\<close>.\<close>

fun argv_loop :: "ld_layout \<Rightarrow> process option \<Rightarrow> u32 \<Rightarrow> u32 \<Rightarrow> nat \<Rightarrow> nat \<Rightarrow> page_alloc \<Rightarrow> (nat option \<times> page_alloc) kres" where
  "argv_loop L cur sv argv i 0 s = Inr (None, s)"
| "argv_loop L cur sv argv i (Suc n) s =
     (let slot = argv + of_nat i * 4 in
      if \<not> proc_user_readable_ok cur slot 4 then Inr (None, s)
      else
        kbind (user_load32 L cur sv slot s) (\<lambda>(argp, s).
          if argp = 0 then Inr (Some i, s)
          else
            kbind (proc_user_cstr_ok L cur sv argp 128 s) (\<lambda>(ok, s).
              if \<not> ok then Inr (None, s) else argv_loop L cur sv argv (Suc i) n s)))"

definition proc_user_exec_argv_ok :: "ld_layout \<Rightarrow> process option \<Rightarrow> u32 \<Rightarrow> u32 \<Rightarrow> page_alloc \<Rightarrow> (nat option \<times> page_alloc) kres" where
  "proc_user_exec_argv_ok L cur sv argv_ptr s =
     (case cur of
        None \<Rightarrow> Inr (None, s)
      | Some p \<Rightarrow>
          if \<not> is_user p then Inr (None, s)
          else if argv_ptr = 0 then Inr (Some 0, s)
          else argv_loop L cur sv argv_ptr 0 32 s)"

end
