(* ===== verification/Sched.thy ===== *)
theory Sched
  imports Proc
begin

text \<open>
  The scheduler of \<^verbatim>\<open>kernel/process/sched.c\<close> and the wait queues of \<^verbatim>\<open>kernel/process/waitq.c\<close>.
  \<^verbatim>\<open>yield\<close> is modelled up to the call of \<^verbatim>\<open>switch_context\<close>: it chooses the next process, activates its
  address space and makes it current.
\<close>

section \<open>Model\<close>

record ktab =
  procs :: "process list"
  current_proc :: "nat option"
  idle_proc :: "nat option"

definition is_schedulable :: "process \<Rightarrow> bool" where
  "is_schedulable p \<longleftrightarrow> state p = PROC_RUNNABLE \<and> 0 < pid p"

definition is_eligible_for_pick :: "process \<Rightarrow> bool" where
  "is_eligible_for_pick p \<longleftrightarrow> is_schedulable p \<and> 0 < budget p"

text \<open>The loop over \<^verbatim>\<open>idx = (start_index + i) % PROC_MAX\<close> for \<open>i = 1, \<dots>, PROC_MAX\<close>.\<close>

fun pick_loop :: "process list \<Rightarrow> nat list \<Rightarrow> nat option \<Rightarrow> int \<Rightarrow> nat option" where
  "pick_loop ps [] best_idx best_budget = best_idx"
| "pick_loop ps (idx # ids) best_idx best_budget =
     (if \<not> is_eligible_for_pick (ps ! idx) then pick_loop ps ids best_idx best_budget
      else if best_budget < budget (ps ! idx) then pick_loop ps ids (Some idx) (budget (ps ! idx))
      else pick_loop ps ids best_idx best_budget)"

definition round_robin :: "nat \<Rightarrow> nat list" where
  "round_robin start_index = map (\<lambda>i. (start_index + i) mod PROC_MAX) [1..<Suc PROC_MAX]"

definition pick_next_runnable_index :: "process list \<Rightarrow> nat \<Rightarrow> nat option" where
  "pick_next_runnable_index ps start_index = pick_loop ps (round_robin start_index) None (-1)"

definition refill_one :: "process \<Rightarrow> process" where
  "refill_one p =
     (if \<not> is_schedulable p then p
      else
        let p = (if priority p < 1 then p\<lparr>priority := 1\<rparr> else p)
        in p\<lparr>budget := priority p\<rparr>)"

definition refill_budgets :: "process list \<Rightarrow> process list" where
  "refill_budgets ps = map refill_one ps"

text \<open>
  \<open>None\<close> when no process can be current or chosen (the code then dereferences a null pointer);
  during normal operation both pointers are set.
\<close>

definition charge_current :: "nat \<Rightarrow> process list \<Rightarrow> process list" where
  "charge_current c ps =
     (if is_eligible_for_pick (ps ! c) then ps[c := (ps ! c)\<lparr>budget := budget (ps ! c) - 1\<rparr>] else ps)"

definition yield_choose :: "nat \<Rightarrow> process list \<Rightarrow> nat option \<times> process list" where
  "yield_choose c ps =
     (let ps = charge_current c ps in
      case pick_next_runnable_index ps c of
        Some n \<Rightarrow> (Some n, ps)
      | None \<Rightarrow> let ps = refill_budgets ps in (pick_next_runnable_index ps c, ps))"

definition yield :: "ktab \<Rightarrow> hart \<Rightarrow> (ktab \<times> hart) option" where
  "yield k h =
     (case current_proc k of
        None \<Rightarrow> None
      | Some c \<Rightarrow>
          let (pick, ps) = yield_choose c (procs k); k = k\<lparr>procs := ps\<rparr> in
          case (case pick of Some n \<Rightarrow> Some n | None \<Rightarrow> idle_proc k) of
            None \<Rightarrow> None
          | Some n \<Rightarrow>
              if n = c then Some (k, h)
              else Some (k\<lparr>current_proc := Some n\<rparr>, vm_activate (p_satp (ps ! n)) h))"

section \<open>Wait queues\<close>

record waitq =
  waiters :: "nat option list"
  wq_lock :: u32

definition waitq_init :: "waitq \<Rightarrow> waitq" where
  "waitq_init q = q\<lparr>wq_lock := 0, waiters := replicate PROC_MAX None\<rparr>"

definition waitq_contains :: "waitq \<Rightarrow> nat \<Rightarrow> bool" where
  "waitq_contains q p \<longleftrightarrow> Some p \<in> set (waiters q)"

text \<open>The part of \<^verbatim>\<open>waitq_sleep\<close> before it yields: enter the queue, then block.\<close>

definition waitq_enter :: "nat \<Rightarrow> waitq \<Rightarrow> waitq" where
  "waitq_enter p q =
     (if waitq_contains q p then q
      else (case first_idx (\<lambda>w. w = None) (waiters q) of
              None \<Rightarrow> q
            | Some i \<Rightarrow> q\<lparr>waiters := (waiters q)[i := Some p]\<rparr>))"

definition set_state :: "nat \<Rightarrow> proc_state \<Rightarrow> ktab \<Rightarrow> ktab" where
  "set_state i st k = k\<lparr>procs := (procs k)[i := (procs k ! i)\<lparr>state := st\<rparr>]\<rparr>"

definition waitq_sleep_block :: "waitq \<Rightarrow> ktab \<Rightarrow> hart \<Rightarrow> (waitq \<times> ktab \<times> hart) kres" where
  "waitq_sleep_block q k h =
     (case current_proc k of
        None \<Rightarrow> Inr (q, k, h)
      | Some c \<Rightarrow>
          if current_proc k = idle_proc k then Inr (q, k, h)
          else
            kbind (spin_lock_irqsave (wq_lock q) h) (\<lambda>(s, lk, h).
              let q = waitq_enter c (q\<lparr>wq_lock := lk\<rparr>);
                  (lk, h) = spin_unlock_irqrestore (wq_lock q) s h
              in Inr (q\<lparr>wq_lock := lk\<rparr>, set_state c PROC_BLOCKED k, h)))"

text \<open>The part of \<^verbatim>\<open>waitq_sleep\<close> that runs when the process is scheduled again.\<close>

definition waitq_sleep_resume :: "ktab \<Rightarrow> ktab" where
  "waitq_sleep_resume k =
     (case current_proc k of
        None \<Rightarrow> k
      | Some c \<Rightarrow> if state (procs k ! c) = PROC_BLOCKED then set_state c PROC_RUNNABLE k else k)"

definition wake_one :: "nat option \<Rightarrow> ktab \<Rightarrow> ktab" where
  "wake_one w k =
     (case w of
        None \<Rightarrow> k
      | Some p \<Rightarrow> if state (procs k ! p) = PROC_BLOCKED then set_state p PROC_RUNNABLE k else k)"

definition waitq_wake_all :: "waitq \<Rightarrow> ktab \<Rightarrow> hart \<Rightarrow> (waitq \<times> ktab \<times> hart) kres" where
  "waitq_wake_all q k h =
     kbind (spin_lock_irqsave (wq_lock q) h) (\<lambda>(s, lk, h).
       let k = fold wake_one (waiters q) k;
           q = q\<lparr>waiters := map (\<lambda>_. None) (waiters q), wq_lock := lk\<rparr>;
           (lk, h) = spin_unlock_irqrestore (wq_lock q) s h
       in Inr (q\<lparr>wq_lock := lk\<rparr>, k, h))"

end
