(* ===== verification/Process.thy ===== *)
theory Process
  imports Usercopy Sched
begin

text \<open>
  Processes, from \<^verbatim>\<open>kernel/process/process.c\<close>: creation, fork, exec, exit and waiting. The state is the
  process table, the memory and the hart. A pointer to a process is its index in the table.
  \<^verbatim>\<open>proc_exit\<close> and a blocking \<^verbatim>\<open>proc_waitpid\<close> are modelled up to the context switch inside \<^verbatim>\<open>yield\<close>.
\<close>

section \<open>State\<close>

record sys =
  tab :: ktab
  kvm :: vm
  khart :: hart

abbreviation USER_STACK_PAGES :: u32 where "USER_STACK_PAGES \<equiv> 2"
abbreviation USER_STACK_TOP :: u32 where "USER_STACK_TOP \<equiv> 0x40000000"
abbreviation PROC_PRIORITY_MIN :: int where "PROC_PRIORITY_MIN \<equiv> 1"
abbreviation PROC_PRIORITY_DEF :: int where "PROC_PRIORITY_DEF \<equiv> 4"
abbreviation WNOHANG :: u32 where "WNOHANG \<equiv> 1"

definition proc_at :: "nat \<Rightarrow> sys \<Rightarrow> process" where
  "proc_at i S = procs (tab S) ! i"

definition set_proc :: "nat \<Rightarrow> process \<Rightarrow> sys \<Rightarrow> sys" where
  "set_proc i p S = S\<lparr>tab := (tab S)\<lparr>procs := (procs (tab S))[i := p]\<rparr>\<rparr>"

definition set_pa :: "page_alloc \<Rightarrow> sys \<Rightarrow> sys" where
  "set_pa s S = S\<lparr>kvm := (kvm S)\<lparr>pa_state := s\<rparr>\<rparr>"

definition cur :: "sys \<Rightarrow> process option" where
  "cur S = map_option (\<lambda>c. proc_at c S) (current_proc (tab S))"

text \<open>\<^verbatim>\<open>yield\<close> with a null \<^verbatim>\<open>current_proc\<close> or \<^verbatim>\<open>idle_proc\<close> follows a null pointer in the kernel.\<close>

definition sys_do_yield :: "sys \<Rightarrow> sys kres" where
  "sys_do_yield S =
     (case yield (tab S) (khart S) of
        None \<Rightarrow> Inl Unexpected_trap
      | Some (k, h) \<Rightarrow> Inr (S\<lparr>tab := k, khart := h\<rparr>))"

section \<open>Slots\<close>

definition alloc_process_slot :: "sys \<Rightarrow> nat option" where
  "alloc_process_slot S = first_idx (\<lambda>p. state p = PROC_UNUSED) (procs (tab S))"

definition init_process_common :: "int \<Rightarrow> int \<Rightarrow> bool \<Rightarrow> int \<Rightarrow> process" where
  "init_process_common wpid ppid user prio =
     zero_process\<lparr>pid := wpid, state := PROC_RUNNABLE, priority := prio, budget := prio,
       parent_pid := ppid, is_user := user\<rparr>"

definition mark_process_unused :: "nat \<Rightarrow> sys \<Rightarrow> sys" where
  "mark_process_unused i S = set_proc i (zero_process\<lparr>state := PROC_UNUSED\<rparr>) S"

definition reset_process_with_released_resources :: "ld_layout \<Rightarrow> nat \<Rightarrow> sys \<Rightarrow> sys kres" where
  "reset_process_with_released_resources L i S =
     kbind (proc_vm_release L (proc_at i S) (pa_state (kvm S))) (\<lambda>s. Inr (mark_process_unused i (set_pa s S)))"

definition find_process_by_pid :: "int \<Rightarrow> sys \<Rightarrow> nat option" where
  "find_process_by_pid wpid S = first_idx (\<lambda>p. state p \<noteq> PROC_UNUSED \<and> pid p = wpid) (procs (tab S))"

definition proc_user_stack_end :: "process \<Rightarrow> u32" where
  "proc_user_stack_end p = user_stack_base p + user_stack_pages p * PAGE_SIZE"

definition proc_sp_within_user_stack :: "process \<Rightarrow> u32 \<Rightarrow> bool" where
  "proc_sp_within_user_stack p sp \<longleftrightarrow> user_stack_base p \<le> sp \<and> sp \<le> proc_user_stack_end p"

section \<open>Creation\<close>

definition create_process :: "ld_layout \<Rightarrow> u32 \<Rightarrow> sys \<Rightarrow> nat option \<times> sys" where
  "create_process L pc S =
     (case alloc_process_slot S of
        None \<Rightarrow> (None, S)
      | Some i \<Rightarrow>
          let p = init_process_common (int i + 1) 0 False PROC_PRIORITY_MIN;
              p = p\<lparr>p_satp := kernel_satp_value (kvm S)\<rparr>;
              p = arch_init_switch_context (kstack_end L i) p pc (khart S)
          in (Some i, set_proc i p S))"

text \<open>The stack of a new user process and its address space; \<open>None\<close> when a step of them fails.\<close>

definition create_user_process :: "ld_layout \<Rightarrow> u32 \<Rightarrow> sys \<Rightarrow> (nat option \<times> sys) kres" where
  "create_user_process L entry_pc S =
     (case alloc_process_slot S of
        None \<Rightarrow> Inr (None, S)
      | Some i \<Rightarrow>
          let p = init_process_common (int i + 1) 0 True PROC_PRIORITY_DEF;
              p = p\<lparr>user_stack_pages := USER_STACK_PAGES\<rparr>
          in
          kbind (alloc_pages_try L (user_stack_pages p) (pa_state (kvm S))) (\<lambda>(pa, s).
            let S = set_pa s S; p = p\<lparr>user_stack_paddr := pa\<rparr> in
            if pa = 0 then Inr (None, mark_process_unused i S)
            else
              let p = p\<lparr>user_stack_base := USER_STACK_TOP - user_stack_pages p * PAGE_SIZE\<rparr> in
              kbind (vm_build_user_satp L (user_stack_base p) (user_stack_paddr p) (user_stack_pages p) (kvm S)) (\<lambda>(sv, v).
                let S = S\<lparr>kvm := v\<rparr>; p = p\<lparr>p_satp := sv\<rparr> in
                if sv = 0 then
                  kbind (reset_process_with_released_resources L i (set_proc i p S)) (\<lambda>S. Inr (None, S))
                else
                  let (rc, p) = proc_vm_init L p in
                  if rc < 0 then
                    kbind (reset_process_with_released_resources L i (set_proc i p S)) (\<lambda>S. Inr (None, S))
                  else
                    let p = arch_init_user_context p entry_pc (proc_user_stack_end p) 0 0;
                        p = arch_init_switch_context (kstack_end L i) p (arch_resume_from_trap_addr L) (khart S)
                    in Inr (Some i, set_proc i p S))))"

section \<open>Fork\<close>

definition proc_fork :: "ld_layout \<Rightarrow> sys \<Rightarrow> (int \<times> sys) kres" where
  "proc_fork L S =
     (case cur S of
        None \<Rightarrow> Inr (-1, S)
      | Some parent \<Rightarrow>
          if \<not> is_user parent \<or> \<not> has_trap_frame parent then Inr (-1, S)
          else
            (case alloc_process_slot S of
               None \<Rightarrow> Inr (-1, S)
             | Some i \<Rightarrow>
                 let child = init_process_common (int i + 1) (pid parent) True (priority parent);
                     child = child\<lparr>user_stack_pages := user_stack_pages parent\<rparr>
                 in
                 kbind (alloc_pages_try L (user_stack_pages child) (pa_state (kvm S))) (\<lambda>(pa, s).
                   let S = set_pa s S; child = child\<lparr>user_stack_paddr := pa\<rparr> in
                   if pa = 0 then Inr (-1, mark_process_unused i S)
                   else
                     let child = child\<lparr>user_stack_base := user_stack_base parent\<rparr> in
                     kbind (vm_build_user_satp L (user_stack_base child) (user_stack_paddr child) (user_stack_pages child) (kvm S)) (\<lambda>(sv, v).
                       let S = S\<lparr>kvm := v\<rparr>; child = child\<lparr>p_satp := sv\<rparr> in
                       if sv = 0 then
                         kbind (reset_process_with_released_resources L i (set_proc i child S)) (\<lambda>S. Inr (-1, S))
                       else
                         let child = child\<lparr>vmas := vmas parent, fds := fds parent\<rparr>;
                             parent_sp = arch_user_stack_pointer parent
                         in
                         if \<not> proc_sp_within_user_stack parent parent_sp then
                           kbind (reset_process_with_released_resources L i (set_proc i child S)) (\<lambda>S. Inr (-1, S))
                         else
                           let sp_offset = parent_sp - user_stack_base parent;
                               child = arch_clone_user_context child parent (user_stack_base child + sp_offset)
                           in
                           kbind (proc_vm_clone L parent child (pa_state (kvm S))) (\<lambda>(rc, s).
                             let S = set_pa s S in
                             if rc < 0 then
                               kbind (reset_process_with_released_resources L i (set_proc i child S)) (\<lambda>S. Inr (-1, S))
                             else
                               let child = child\<lparr>user_stack_paddr := user_stack_paddr parent\<rparr>;
                                   child = arch_init_switch_context (kstack_end L i) child (arch_resume_from_trap_addr L) (khart S)
                               in Inr (pid child, set_proc i child S))))))"

section \<open>Exec\<close>

definition proc_exec :: "ld_layout \<Rightarrow> u32 \<Rightarrow> u32 \<Rightarrow> sys \<Rightarrow> (int \<times> sys) kres" where
  "proc_exec L entry_pc argv S =
     (case current_proc (tab S) of
        None \<Rightarrow> Inr (-1, S)
      | Some c \<Rightarrow>
          if \<not> is_user (proc_at c S) then Inr (-1, S)
          else if entry_pc = 0 then Inr (-1, S)
          else
            kbind (proc_user_exec_argv_ok L (cur S) (satp (khart S)) argv (pa_state (kvm S))) (\<lambda>(r, s).
              let S = set_pa s S in
              case r of
                None \<Rightarrow> Inr (-1, S)
              | Some argc \<Rightarrow>
                  kbind (proc_vm_reset L (proc_at c S) (pa_state (kvm S))) (\<lambda>(p, s).
                    let S = set_pa s S; (rc, p) = proc_vm_init L p in
                    if rc < 0 then Inr (-1, set_proc c p S)
                    else
                      let p = arch_init_user_context p entry_pc (proc_user_stack_end p) (of_nat argc) argv
                      in Inr (0, set_proc c p S))))"

section \<open>Exit and waiting\<close>

text \<open>\<^verbatim>\<open>fs_close\<close> of every open descriptor clears it.\<close>

definition close_all :: "process \<Rightarrow> process" where
  "close_all p = p\<lparr>fds := map (\<lambda>d. if fd_used d then no_file else d) (fds p)\<rparr>"

definition exit_mark :: "int \<Rightarrow> nat \<Rightarrow> sys \<Rightarrow> sys" where
  "exit_mark status c S =
     (let S = set_proc c ((close_all (proc_at c S))\<lparr>exit_status := status, state := PROC_ZOMBIE\<rparr>) S in
      case find_process_by_pid (parent_pid (proc_at c S)) S of
        None \<Rightarrow> S
      | Some q \<Rightarrow>
          if state (proc_at q S) = PROC_BLOCKED then set_proc q ((proc_at q S)\<lparr>state := PROC_RUNNABLE\<rparr>) S else S)"

text \<open>The first yield of the final loop; the process is a zombie, so it is not chosen again.\<close>

definition proc_exit :: "int \<Rightarrow> sys \<Rightarrow> sys kres" where
  "proc_exit status S =
     (case current_proc (tab S) of
        None \<Rightarrow> Inl Unexpected_trap
      | Some c \<Rightarrow> sys_do_yield (exit_mark status c S))"

fun reap_loop :: "ld_layout \<Rightarrow> nat list \<Rightarrow> sys \<Rightarrow> sys kres" where
  "reap_loop L [] S = Inr S"
| "reap_loop L (i # is) S =
     (if Some i = idle_proc (tab S) then reap_loop L is S
      else if state (proc_at i S) \<noteq> PROC_ZOMBIE \<or> \<not> is_user (proc_at i S) \<or> parent_pid (proc_at i S) \<noteq> 0
      then reap_loop L is S
      else kbind (reset_process_with_released_resources L i S) (reap_loop L is))"

definition proc_reap_orphan_zombies :: "ld_layout \<Rightarrow> sys \<Rightarrow> sys kres" where
  "proc_reap_orphan_zombies L S = reap_loop L [0..<PROC_MAX] S"

text \<open>
  One pass of the outer loop of \<^verbatim>\<open>proc_waitpid\<close>: it returns a result, with the exit status stored
  when a child was reaped, or it has to block.
\<close>

datatype wait_result = Wait_return int "int option" | Wait_block

definition is_waited_child :: "int \<Rightarrow> int \<Rightarrow> process \<Rightarrow> bool" where
  "is_waited_child me wpid p \<longleftrightarrow> state p \<noteq> PROC_UNUSED \<and> parent_pid p = me \<and> \<not> (0 < wpid \<and> pid p \<noteq> wpid)"

fun wait_scan :: "ld_layout \<Rightarrow> int \<Rightarrow> int \<Rightarrow> nat list \<Rightarrow> bool \<Rightarrow> sys \<Rightarrow> ((int \<times> int) option \<times> bool \<times> sys) kres" where
  "wait_scan L me wpid [] has_child S = Inr (None, has_child, S)"
| "wait_scan L me wpid (i # is) has_child S =
     (if \<not> is_waited_child me wpid (proc_at i S) then wait_scan L me wpid is has_child S
      else if state (proc_at i S) \<noteq> PROC_ZOMBIE then wait_scan L me wpid is True S
      else
        let reaped_pid = pid (proc_at i S); status = exit_status (proc_at i S) in
        kbind (reset_process_with_released_resources L i S) (\<lambda>S. Inr (Some (reaped_pid, status), True, S)))"

definition waitpid_pass :: "ld_layout \<Rightarrow> int \<Rightarrow> u32 \<Rightarrow> nat \<Rightarrow> sys \<Rightarrow> (wait_result \<times> sys) kres" where
  "waitpid_pass L wpid options c S =
     kbind (wait_scan L (pid (proc_at c S)) wpid [0..<PROC_MAX] False S) (\<lambda>(r, has_child, S).
       case r of
         Some (reaped_pid, status) \<Rightarrow> Inr (Wait_return reaped_pid (Some status), S)
       | None \<Rightarrow>
           if \<not> has_child then Inr (Wait_return (-1) None, S)
           else if options AND WNOHANG \<noteq> 0 then Inr (Wait_return 0 None, S)
           else Inr (Wait_block, S))"

text \<open>
  \<^verbatim>\<open>proc_waitpid\<close> until it returns or switches to another process. When the caller runs again it
  continues with \<open>waitpid_resume\<close>.
\<close>

definition proc_waitpid :: "ld_layout \<Rightarrow> int \<Rightarrow> u32 \<Rightarrow> sys \<Rightarrow> (wait_result \<times> sys) kres" where
  "proc_waitpid L wpid options S =
     (if options AND NOT WNOHANG \<noteq> 0 then Inr (Wait_return (-1) None, S)
      else
        (case current_proc (tab S) of
           None \<Rightarrow> Inl Unexpected_trap
         | Some c \<Rightarrow>
             kbind (waitpid_pass L wpid options c S) (\<lambda>(r, S).
               case r of
                 Wait_return v st \<Rightarrow> Inr (Wait_return v st, S)
               | Wait_block \<Rightarrow>
                   kbind (sys_do_yield (set_proc c ((proc_at c S)\<lparr>state := PROC_BLOCKED\<rparr>) S))
                     (\<lambda>S. Inr (Wait_block, S)))))"

definition waitpid_resume :: "ld_layout \<Rightarrow> int \<Rightarrow> u32 \<Rightarrow> sys \<Rightarrow> (wait_result \<times> sys) kres" where
  "waitpid_resume L wpid options S =
     (case current_proc (tab S) of
        None \<Rightarrow> Inl Unexpected_trap
      | Some c \<Rightarrow> proc_waitpid L wpid options (set_proc c ((proc_at c S)\<lparr>state := PROC_RUNNABLE\<rparr>) S))"

definition proc_wait :: "ld_layout \<Rightarrow> sys \<Rightarrow> (wait_result \<times> sys) kres" where
  "proc_wait L S = proc_waitpid L (-1) 0 S"

end
