(* ===== verification/Vma_Spec.thy ===== *)
theory Vma_Spec
  imports Vma
begin

text \<open>
  The area table as the set of addresses it covers: the invariant (aligned, non-empty, disjoint
  areas), the coverage check, the search for a free range and the cutting of a range.
\<close>

section \<open>Invariant and coverage\<close>

definition in_vma :: "user_vma \<Rightarrow> u32 \<Rightarrow> bool" where
  "in_vma v a \<longleftrightarrow> v_used v \<and> v_start v \<le> a \<and> a < v_end v"

definition byte_ok :: "user_vma list \<Rightarrow> u32 \<Rightarrow> u32 \<Rightarrow> bool" where
  "byte_ok vs need a \<longleftrightarrow> (\<exists>v\<in>set vs. in_vma v a \<and> v_prot v AND need = need)"

definition vma_ok :: "user_vma \<Rightarrow> bool" where
  "vma_ok v \<longleftrightarrow> (v_used v \<longrightarrow> is_page_aligned (v_start v) \<and> is_page_aligned (v_end v) \<and> v_start v < v_end v)"

definition apart :: "user_vma \<Rightarrow> user_vma \<Rightarrow> bool" where
  "apart v w \<longleftrightarrow> (v_used v \<and> v_used w \<longrightarrow> v_end v \<le> v_start w \<or> v_end w \<le> v_start v)"

definition vmas_ok :: "user_vma list \<Rightarrow> bool" where
  "vmas_ok vs \<longleftrightarrow> (\<forall>v\<in>set vs. vma_ok v) \<and>
     (\<forall>i<length vs. \<forall>j<length vs. i \<noteq> j \<longrightarrow> apart (vs ! i) (vs ! j))"

lemma apart_sym: "apart v w \<longleftrightarrow> apart w v"
  by (auto simp: apart_def)

lemma byte_ok_nth: "byte_ok vs need a \<longleftrightarrow> (\<exists>i<length vs. in_vma (vs ! i) a \<and> v_prot (vs ! i) AND need = need)"
  unfolding byte_ok_def by (metis in_set_conv_nth)

lemma vmas_okD:
  assumes "vmas_ok vs" and "i < length vs"
  shows "vma_ok (vs ! i)" and "j < length vs \<Longrightarrow> i \<noteq> j \<Longrightarrow> apart (vs ! i) (vs ! j)"
  using assms by (auto simp: vmas_ok_def)

lemma vma_unique:
  assumes "vmas_ok vs" and "i < length vs" and "j < length vs" and "in_vma (vs ! i) a" and "in_vma (vs ! j) a"
  shows "i = j"
proof (rule ccontr)
  assume "i \<noteq> j"
  then have "apart (vs ! i) (vs ! j)"
    using vmas_okD(2) [OF assms(1,2,3)] by simp
  then show False
    using assms(4,5) by (auto simp: apart_def in_vma_def)
qed

text \<open>Replacing an entry by one that is apart from all the others keeps the invariant.\<close>

lemma vmas_ok_update:
  assumes "vmas_ok vs" and "i < length vs" and "vma_ok w"
    and "\<And>j. j < length vs \<Longrightarrow> j \<noteq> i \<Longrightarrow> apart w (vs ! j)"
  shows "vmas_ok (vs[i := w])"
proof -
  have "vma_ok v" if "v \<in> set (vs[i := w])" for v
    using set_update_subset_insert [of vs i w] that assms(1,3) by (auto simp: vmas_ok_def)
  moreover have "apart (vs[i := w] ! j) (vs[i := w] ! k)" if "j < length vs" "k < length vs" "j \<noteq> k" for j k
    using that assms(4) [of j] assms(4) [of k] vmas_okD(2) [OF assms(1) that(1,2,3)] apart_sym
    by (cases "j = i"; cases "k = i") auto
  ultimately show ?thesis
    by (simp add: vmas_ok_def)
qed

section \<open>Adding and looking up\<close>

lemma proc_add_vma_cases:
  assumes "proc_add_vma vs s e p = (rc, vs')"
  obtains (refused) "rc = -1" and "vs' = vs"
    | (added) i where "rc = 0" and "vs' = vs[i := \<lparr>v_used = True, v_start = s, v_end = e, v_prot = p\<rparr>]"
      and "i < length vs" and "\<not> v_used (vs ! i)" and "s < e" and "is_page_aligned s" and "is_page_aligned e"
      and "\<forall>v\<in>set vs. v_used v \<longrightarrow> e \<le> v_start v \<or> v_end v \<le> s"
proof (cases "e \<le> s \<or> \<not> is_page_aligned s \<or> \<not> is_page_aligned e \<or>
    list_ex (\<lambda>v. v_used v \<and> \<not> (e \<le> v_start v \<or> v_end v \<le> s)) vs \<or> first_idx (\<lambda>v. \<not> v_used v) vs = None")
  case True
  then show ?thesis
    using assms refused by (auto simp: proc_add_vma_def split: if_splits option.splits)
next
  case False
  then obtain i where i: "first_idx (\<lambda>v. \<not> v_used v) vs = Some i"
    by auto
  have "rc = 0" "vs' = vs[i := \<lparr>v_used = True, v_start = s, v_end = e, v_prot = p\<rparr>]"
    using assms False i by (simp_all add: proc_add_vma_def)
  moreover have "\<forall>v\<in>set vs. v_used v \<longrightarrow> e \<le> v_start v \<or> v_end v \<le> s"
    using False by (simp add: list_ex_iff)
  ultimately show ?thesis
    using False first_idx_SomeD [OF i] by (intro added) (auto simp: not_le)
qed

lemma proc_add_vma_ok:
  assumes "vmas_ok vs" and "proc_add_vma vs s e p = (rc, vs')"
  shows "vmas_ok vs' \<and> length vs' = length vs"
  using assms(2)
proof (cases rule: proc_add_vma_cases)
  case refused
  then show ?thesis
    using assms(1) by simp
next
  case (added i)
  have "apart \<lparr>v_used = True, v_start = s, v_end = e, v_prot = p\<rparr> (vs ! j)" if "j < length vs" for j
    using added(8) that by (auto simp: apart_def)
  then show ?thesis
    using added by (auto intro!: vmas_ok_update [OF assms(1)] simp: vma_ok_def)
qed

lemma proc_add_vma_bytes:
  assumes "proc_add_vma vs s e p = (0, vs')"
  shows "byte_ok vs' need a \<longleftrightarrow> byte_ok vs need a \<or> s \<le> a \<and> a < e \<and> p AND need = need"
  using assms
proof (cases rule: proc_add_vma_cases)
  case (added i)
  have "(\<exists>j<length vs. in_vma (vs[i := w] ! j) a \<and> v_prot (vs[i := w] ! j) AND need = need) \<longleftrightarrow>
      byte_ok vs need a \<or> in_vma w a \<and> v_prot w AND need = need" if "\<not> v_used (vs ! i)" for w
    using added(3) that unfolding byte_ok_nth by (metis in_vma_def nth_list_update_eq nth_list_update_neq)
  from this [OF added(4), of "\<lparr>v_used = True, v_start = s, v_end = e, v_prot = p\<rparr>"] show ?thesis
    using added(2) by (simp add: byte_ok_nth in_vma_def)
qed simp

lemma find_vma_index_Some:
  assumes "vmas_ok vs"
  shows "proc_find_vma_index vs a = Some i \<longleftrightarrow> i < length vs \<and> in_vma (vs ! i) a"
proof -
  have "\<not> in_vma (vs ! j) a" if "i < length vs" "in_vma (vs ! i) a" "j < i" for j
    using vma_unique [OF assms that(1) _ that(2), of j] that by auto
  then show ?thesis
    unfolding proc_find_vma_index_def first_idx_Some_iff in_vma_def by blast
qed

lemma find_vma_index_None: "proc_find_vma_index vs a = None \<longleftrightarrow> (\<forall>v\<in>set vs. \<not> in_vma v a)"
  by (simp add: proc_find_vma_index_def first_idx_None_iff in_vma_def)

section \<open>Coverage of a range\<close>

lemma vma_range_loop_iff:
  assumes "vmas_ok vs"
  shows "vma_range_loop vs en need cur \<longleftrightarrow> (\<forall>a. cur \<le> a \<and> a < en \<longrightarrow> byte_ok vs need a)"
  using assms
proof (induction vs en need cur rule: vma_range_loop.induct)
  case (1 vs en need cur)
  show ?case
  proof (cases "cur < en")
    case False
    then show ?thesis
      by (subst vma_range_loop.simps) auto
  next
    case lt: True
    show ?thesis
    proof (cases "proc_find_vma_index vs cur")
      case None
      then have "\<not> byte_ok vs need cur"
        by (auto simp: find_vma_index_None byte_ok_def)
      then show ?thesis
        using lt None by (subst vma_range_loop.simps) auto
    next
      case (Some i)
      then have i: "i < length vs" "in_vma (vs ! i) cur"
        using find_vma_index_Some [OF 1(2)] by simp_all
      have here: "byte_ok vs need a \<longleftrightarrow> v_prot (vs ! i) AND need = need" if "in_vma (vs ! i) a" for a
        using vma_unique [OF 1(2) i(1) _ that] i(1) that unfolding byte_ok_nth by metis
      have inside: "in_vma (vs ! i) a" if "cur \<le> a" "a < v_end (vs ! i)" for a
        using i(2) that by (auto simp: in_vma_def)
      show ?thesis
      proof (cases "v_prot (vs ! i) AND need = need \<and> v_end (vs ! i) < en")
        case True
        then have "vma_range_loop vs en need cur = vma_range_loop vs en need (v_end (vs ! i))"
          using lt Some by (subst vma_range_loop.simps) auto
        also have "\<dots> \<longleftrightarrow> (\<forall>a. v_end (vs ! i) \<le> a \<and> a < en \<longrightarrow> byte_ok vs need a)"
          using True lt Some 1 by (simp add: not_le)
        also have "\<dots> \<longleftrightarrow> (\<forall>a. cur \<le> a \<and> a < en \<longrightarrow> byte_ok vs need a)"
        proof (intro iffI allI impI)
          fix a assume r: "\<forall>a. v_end (vs ! i) \<le> a \<and> a < en \<longrightarrow> byte_ok vs need a" and a: "cur \<le> a \<and> a < en"
          show "byte_ok vs need a"
            using r a here [OF inside] True by (cases "a < v_end (vs ! i)") (auto simp: not_less)
        next
          fix a assume r: "\<forall>a. cur \<le> a \<and> a < en \<longrightarrow> byte_ok vs need a" and a: "v_end (vs ! i) \<le> a \<and> a < en"
          have "cur \<le> a"
            using a i(2) by (auto simp: in_vma_def)
          then show "byte_ok vs need a"
            using r a by blast
        qed
        finally show ?thesis .
      next
        case False
        then show ?thesis
          using lt Some here [OF i(2)] here inside
          by (subst vma_range_loop.simps) (auto simp: not_less dest: less_le_trans)
      qed
    qed
  qed
qed

lemma proc_vma_range_ok_iff:
  assumes "vmas_ok vs"
  shows "proc_vma_range_ok True vs addr len need \<longleftrightarrow>
    len \<noteq> 0 \<and> addr \<le> addr + len \<and> (\<forall>a. addr \<le> a \<and> a < addr + len \<longrightarrow> byte_ok vs need a)"
  by (auto simp: proc_vma_range_ok_def Let_def vma_range_loop_iff [OF assms] not_less)

section \<open>Free ranges\<close>

definition clash :: "user_vma list \<Rightarrow> u32 \<Rightarrow> u32 \<Rightarrow> bool" where
  "clash vs a len \<longleftrightarrow> (\<exists>v\<in>set vs. v_used v \<and> a < v_end v \<and> v_start v < a + len)"

definition fits :: "u32 \<Rightarrow> u32 \<Rightarrow> bool" where
  "fits a len \<longleftrightarrow> a \<le> a + len \<and> a + len \<le> USER_MMAP_END"

definition least_free :: "user_vma list \<Rightarrow> u32 \<Rightarrow> u32 \<Rightarrow> u32 option \<Rightarrow> bool" where
  "least_free vs len lo r \<longleftrightarrow>
     (case r of
        Some a \<Rightarrow> lo \<le> a \<and> fits a len \<and> \<not> clash vs a len \<and> (\<forall>b. lo \<le> b \<and> b < a \<longrightarrow> clash vs b len)
      | None \<Rightarrow> \<forall>b. lo \<le> b \<and> fits b len \<longrightarrow> clash vs b len)"

lemma fits_iff: "fits a len \<longleftrightarrow> unat a + unat len \<le> 0x3f000000"
proof (cases "unat a + unat len < 4294967296")
  case True
  then show ?thesis
    by (simp add: fits_def no_wrap_iff word_le_nat_alt unat_add_no_wrap)
qed (simp add: fits_def no_wrap_iff)

lemma clash_iff:
  assumes "fits a len"
  shows "clash vs a len \<longleftrightarrow> (\<exists>v\<in>set vs. v_used v \<and> unat a < unat (v_end v) \<and> unat (v_start v) < unat a + unat len)"
  using assms by (simp add: clash_def fits_iff word_less_nat_alt unat_add_no_wrap)

lemma free_range_loop_spec:
  assumes "vmas_ok vs"
  shows "\<exists>r. free_range_loop vs len addr = Some r \<and> least_free vs len addr r"
proof (induction "4294967296 - unat addr" arbitrary: addr rule: less_induct)
  case less
  show ?case
  proof (cases "fits addr len")
    case False
    then have "\<not> fits b len" if "addr \<le> b" for b
      using that by (simp add: fits_iff word_le_nat_alt)
    then show ?thesis
      using False by (subst free_range_loop.simps) (auto simp: fits_def least_free_def)
  next
    case True
    show ?thesis
    proof (cases "first_idx (\<lambda>v. v_used v \<and> addr < v_end v \<and> v_start v < addr + len) vs")
      case None
      then have "\<not> clash vs addr len"
        by (simp add: first_idx_None_iff clash_def)
      then show ?thesis
        using None True by (subst free_range_loop.simps) (auto simp: fits_def least_free_def)
    next
      case (Some i)
      let ?v = "vs ! i"
      have i: "?v \<in> set vs" "v_used ?v" "addr < v_end ?v" "v_start ?v < addr + len"
        using first_idx_SomeD [OF Some] by simp_all
      then have ceil: "page_ceil (v_end ?v) = v_end ?v"
        using assms by (simp add: vmas_ok_def vma_ok_def page_ceil_id)
      have step: "free_range_loop vs len addr = free_range_loop vs len (v_end ?v)"
        using True Some by (subst free_range_loop.simps) (simp add: fits_def ceil)
      have lt: "unat addr < unat (v_end ?v)"
        using i(3) by (simp add: word_less_nat_alt)
      obtain r where r: "free_range_loop vs len (v_end ?v) = Some r" "least_free vs len (v_end ?v) r"
        using less [OF diff_less_mono2 [OF lt unat_lt_2p32]] by blast
      have cl: "clash vs b len" if "addr \<le> b" "b < v_end ?v" "fits b len" for b
      proof -
        have "unat (v_start ?v) < unat b + unat len"
          using i(4) True that(1) by (simp add: word_less_nat_alt word_le_nat_alt fits_iff unat_add_no_wrap)
        then show ?thesis
          using i(1,2) that(2) unfolding clash_iff [OF that(3)] word_less_nat_alt by blast
      qed
      have mono: "fits b len" if "fits a len" "b \<le> a" for a b
        using that by (simp add: fits_iff word_le_nat_alt)
      have "least_free vs len addr r"
      proof (cases r)
        case None
        then have "clash vs b len" if "addr \<le> b" "fits b len" for b
          using r(2) cl [OF that(1) _ that(2)] that(2) by (cases "b < v_end ?v") (auto simp: least_free_def not_less)
        then show ?thesis
          using None by (simp add: least_free_def)
      next
        case (Some a)
        then have a: "v_end ?v \<le> a" "fits a len" "\<not> clash vs a len" "\<forall>b. v_end ?v \<le> b \<and> b < a \<longrightarrow> clash vs b len"
          using r(2) by (simp_all add: least_free_def)
        have "clash vs b len" if "addr \<le> b" "b < a" for b
          using a(4) cl [OF that(1)] mono [OF a(2) less_imp_le [OF that(2)]] that(2)
          by (cases "b < v_end ?v") (auto simp: not_less)
        then show ?thesis
          using Some a i(3) by (auto simp: least_free_def)
      qed
      then show ?thesis
        using r(1) step by simp
    qed
  qed
qed

section \<open>Cutting a range\<close>

definition clear_of :: "u32 \<Rightarrow> u32 \<Rightarrow> user_vma \<Rightarrow> bool" where
  "clear_of lo hi v \<longleftrightarrow> (v_used v \<longrightarrow> v_end v \<le> lo \<or> hi \<le> v_start v)"

definition cut_bytes :: "u32 \<Rightarrow> u32 \<Rightarrow> user_vma list \<Rightarrow> user_vma list \<Rightarrow> bool" where
  "cut_bytes lo hi vs vs' \<longleftrightarrow>
     (\<forall>need a. byte_ok vs' need a \<longleftrightarrow> byte_ok vs need a \<and> \<not> (lo \<le> a \<and> a < hi))"

text \<open>Cutting the range out of entry \<open>i\<close> alone.\<close>

definition cut_at :: "u32 \<Rightarrow> u32 \<Rightarrow> nat \<Rightarrow> user_vma list \<Rightarrow> user_vma list \<Rightarrow> bool" where
  "cut_at lo hi i vs vs' \<longleftrightarrow> vmas_ok vs' \<and> length vs' = length vs \<and> clear_of lo hi (vs' ! i) \<and>
     (\<forall>j<length vs. clear_of lo hi (vs ! j) \<longrightarrow> clear_of lo hi (vs' ! j)) \<and>
     (\<forall>need a. byte_ok vs' need a \<longleftrightarrow> byte_ok vs need a \<and> \<not> (in_vma (vs ! i) a \<and> lo \<le> a \<and> a < hi))"

definition others :: "user_vma list \<Rightarrow> nat \<Rightarrow> u32 \<Rightarrow> u32 \<Rightarrow> bool" where
  "others vs i need a \<longleftrightarrow> (\<exists>j<length vs. j \<noteq> i \<and> in_vma (vs ! j) a \<and> v_prot (vs ! j) AND need = need)"

lemma others_update [simp]: "others (vs[i := w]) i need a = others vs i need a"
  by (auto simp: others_def)

lemma byte_ok_others:
  "i < length vs \<Longrightarrow> byte_ok vs need a \<longleftrightarrow> others vs i need a \<or> in_vma (vs ! i) a \<and> v_prot (vs ! i) AND need = need"
  by (auto simp: others_def byte_ok_nth)

lemma others_apart: "vmas_ok vs \<Longrightarrow> i < length vs \<Longrightarrow> in_vma (vs ! i) a \<Longrightarrow> \<not> others vs i need a"
  by (auto simp: others_def dest: vma_unique)

lemma apart_shrink:
  "apart v u \<Longrightarrow> (v_used w \<Longrightarrow> v_used v \<and> v_start v \<le> v_start w \<and> v_end w \<le> v_end v) \<Longrightarrow> apart w u"
  by (auto simp: apart_def intro: order_trans)

lemma cut_at_update:
  assumes "vmas_ok vs" and "i < length vs" and "vma_ok w" and "v_prot w = v_prot (vs ! i) \<or> \<not> v_used w"
    and "\<And>a. in_vma w a \<longleftrightarrow> in_vma (vs ! i) a \<and> \<not> (lo \<le> a \<and> a < hi)"
    and "v_used w \<Longrightarrow> v_used (vs ! i) \<and> v_start (vs ! i) \<le> v_start w \<and> v_end w \<le> v_end (vs ! i)"
    and "clear_of lo hi w"
  shows "cut_at lo hi i vs (vs[i := w])"
proof -
  have "apart w (vs ! j)" if "j < length vs" "j \<noteq> i" for j
    using apart_shrink [OF vmas_okD(2) [OF assms(1,2) that(1)], of w] that(2) assms(6) by auto
  then have "vmas_ok (vs[i := w])"
    by (intro vmas_ok_update [OF assms(1-3)])
  moreover have "byte_ok (vs[i := w]) need a \<longleftrightarrow> byte_ok vs need a \<and> \<not> (in_vma (vs ! i) a \<and> lo \<le> a \<and> a < hi)" for need a
    using assms(2,4) assms(5) [of a] others_apart [OF assms(1,2), of a need]
    by (auto simp: byte_ok_others [of i] in_vma_def)
  ultimately show ?thesis
    using assms(2,7) by (auto simp: cut_at_def nth_list_update)
qed

lemma cut_at_split:
  assumes "vmas_ok vs" and "i < length vs" and "f < length vs" and "\<not> v_used (vs ! f)" and "v_used (vs ! i)"
    and "is_page_aligned lo" and "is_page_aligned hi" and "v_start (vs ! i) < lo" and "lo < hi" and "hi < v_end (vs ! i)"
  shows "cut_at lo hi i vs (vs[f := \<lparr>v_used = True, v_start = hi, v_end = v_end (vs ! i), v_prot = v_prot (vs ! i)\<rparr>,
    i := (vs ! i)\<lparr>v_end := lo\<rparr>])"
proof -
  let ?v = "vs ! i"
  let ?w = "?v\<lparr>v_end := lo\<rparr>" and ?n = "\<lparr>v_used = True, v_start = hi, v_end = v_end ?v, v_prot = v_prot ?v\<rparr>"
  let ?vs1 = "vs[i := ?w]"
  have fi: "f \<noteq> i"
    using assms(4,5) by auto
  have al: "is_page_aligned (v_start ?v)" "is_page_aligned (v_end ?v)"
    using vmas_okD(1) [OF assms(1,2)] assms(5) by (simp_all add: vma_ok_def)
  have ap: "apart ?w (vs ! j)" "apart ?n (vs ! j)" if "j < length vs" "j \<noteq> i" for j
    using apart_shrink [OF vmas_okD(2) [OF assms(1,2) that(1)]] that(2) assms(5,8-10)
    by (auto intro!: apart_shrink [OF vmas_okD(2) [OF assms(1,2) that(1)]] intro: less_imp_le less_trans)
  have ok1: "vmas_ok ?vs1"
    using ap(1) assms(5,6,8) al by (intro vmas_ok_update [OF assms(1,2)]) (auto simp: vma_ok_def)
  have "apart ?n (?vs1 ! j)" if "j < length vs" for j
    using ap(2) that assms(9) by (cases "j = i") (auto simp: apart_def)
  then have ok2: "vmas_ok (?vs1[f := ?n])"
    using assms(3,7,10) al by (intro vmas_ok_update [OF ok1]) (auto simp: vma_ok_def)
  have swap: "vs[f := ?n, i := ?w] = ?vs1[f := ?n]"
    using fi by (simp add: list_update_swap)
  have "byte_ok (?vs1[f := ?n]) need a \<longleftrightarrow> byte_ok vs need a \<and> \<not> (in_vma ?v a \<and> lo \<le> a \<and> a < hi)" for need a
  proof -
    have "byte_ok (?vs1[f := ?n]) need a \<longleftrightarrow> byte_ok ?vs1 need a \<or> in_vma ?n a \<and> v_prot ?v AND need = need"
      using assms(3,4) fi by (auto simp: byte_ok_others [of f] in_vma_def)
    also have "\<dots> \<longleftrightarrow> others vs i need a \<or> in_vma ?v a \<and> \<not> (lo \<le> a \<and> a < hi) \<and> v_prot ?v AND need = need"
    proof -
      have "in_vma ?w a \<or> in_vma ?n a \<longleftrightarrow> in_vma ?v a \<and> \<not> (lo \<le> a \<and> a < hi)"
        using assms(5,8-10) by (auto simp: in_vma_def)
      then show ?thesis
        using assms(2) by (auto simp: byte_ok_others [of i])
    qed
    also have "\<dots> \<longleftrightarrow> byte_ok vs need a \<and> \<not> (in_vma ?v a \<and> lo \<le> a \<and> a < hi)"
      using assms(2) others_apart [OF assms(1,2), of a need] by (auto simp: byte_ok_others [of i])
    finally show ?thesis .
  qed
  then show ?thesis
    unfolding swap using ok2 assms(2,3) fi by (auto simp: cut_at_def clear_of_def nth_list_update)
qed


text \<open>One round of the loop, and the whole loop.\<close>

lemma munmap_cut_step:
  assumes "is_page_aligned lo" and "is_page_aligned hi" and "lo < hi" and "vmas_ok vs" and "i < length vs"
    and "\<not> clear_of lo hi (vs ! i)"
  obtains (full) "munmap_cut lo hi (i # is) vs ch = Inl vs"
    | (cut) vs1 where "munmap_cut lo hi (i # is) vs ch = munmap_cut lo hi is vs1 True" and "cut_at lo hi i vs vs1"
proof -
  let ?v = "vs ! i"
  have v: "v_used ?v" "lo < v_end ?v" "v_start ?v < hi"
    using assms(6) by (auto simp: clear_of_def)
  then have ok: "is_page_aligned (v_start ?v)" "is_page_aligned (v_end ?v)" "v_start ?v < v_end ?v"
    using vmas_okD(1) [OF assms(4,5)] by (simp_all add: vma_ok_def)
  consider (a) "lo \<le> v_start ?v" "v_end ?v \<le> hi" | (b) "lo \<le> v_start ?v" "hi < v_end ?v"
    | (c) "v_start ?v < lo" "v_end ?v \<le> hi" | (d) "v_start ?v < lo" "hi < v_end ?v"
    using linorder_not_le by blast
  then show ?thesis
  proof cases
    case a
    have "munmap_cut lo hi (i # is) vs ch = munmap_cut lo hi is (vs[i := no_vma]) True"
      using a v ok by (auto simp: Let_def)
    moreover have "cut_at lo hi i vs (vs[i := no_vma])"
      using a by (intro cut_at_update [OF assms(4,5)]) (auto simp: no_vma_def vma_ok_def in_vma_def clear_of_def)
    ultimately show ?thesis
      by (rule cut)
  next
    case b
    have "munmap_cut lo hi (i # is) vs ch = munmap_cut lo hi is (vs[i := ?v\<lparr>v_start := hi\<rparr>]) True"
      using b v ok assms(3) by (auto simp: Let_def)
    moreover have "cut_at lo hi i vs (vs[i := ?v\<lparr>v_start := hi\<rparr>])"
      using b v ok assms(2)
      by (intro cut_at_update [OF assms(4,5)]) (auto simp: vma_ok_def in_vma_def clear_of_def)
    ultimately show ?thesis
      by (rule cut)
  next
    case c
    have "munmap_cut lo hi (i # is) vs ch = munmap_cut lo hi is (vs[i := ?v\<lparr>v_end := lo\<rparr>]) True"
      using c v ok assms(3) by (auto simp: Let_def)
    moreover have "cut_at lo hi i vs (vs[i := ?v\<lparr>v_end := lo\<rparr>])"
      using c v ok assms(1)
      by (intro cut_at_update [OF assms(4,5)]) (auto simp: vma_ok_def in_vma_def clear_of_def)
    ultimately show ?thesis
      by (rule cut)
  next
    case d
    show ?thesis
    proof (cases "proc_find_free_vma_slot vs")
      case None
      then show ?thesis
        using d v ok assms(3) by (intro full) (auto simp: Let_def)
    next
      case (Some f)
      let ?n = "\<lparr>v_used = True, v_start = hi, v_end = v_end ?v, v_prot = v_prot ?v\<rparr>"
      have f: "f < length vs" "\<not> v_used (vs ! f)"
        using Some first_idx_SomeD [of "\<lambda>v. \<not> v_used v" vs f] by (simp_all add: proc_find_free_vma_slot_def)
      have "munmap_cut lo hi (i # is) vs ch = munmap_cut lo hi is (vs[f := ?n, i := ?v\<lparr>v_end := lo\<rparr>]) True"
        using d v ok assms(3) Some by (auto simp: Let_def)
      moreover have "cut_at lo hi i vs (vs[f := ?n, i := ?v\<lparr>v_end := lo\<rparr>])"
        by (rule cut_at_split [OF assms(4,5) f v(1) assms(1,2) d(1) assms(3) d(2)])
      ultimately show ?thesis
        by (rule cut)
    qed
  qed
qed

definition cut_done :: "u32 \<Rightarrow> u32 \<Rightarrow> user_vma list \<Rightarrow> user_vma list \<Rightarrow> bool" where
  "cut_done lo hi vs vs' \<longleftrightarrow> vmas_ok vs' \<and> length vs' = length vs \<and> (\<forall>v\<in>set vs'. clear_of lo hi v) \<and> cut_bytes lo hi vs vs'"

definition cut_partly :: "u32 \<Rightarrow> u32 \<Rightarrow> user_vma list \<Rightarrow> user_vma list \<Rightarrow> bool" where
  "cut_partly lo hi vs vs' \<longleftrightarrow> vmas_ok vs' \<and> length vs' = length vs \<and>
     (\<forall>need a. (byte_ok vs' need a \<longrightarrow> byte_ok vs need a) \<and>
        (byte_ok vs need a \<and> \<not> (lo \<le> a \<and> a < hi) \<longrightarrow> byte_ok vs' need a))"

lemma cut_at_done: "cut_at lo hi i vs vs1 \<Longrightarrow> cut_done lo hi vs1 vs' \<Longrightarrow> cut_done lo hi vs vs'"
  unfolding cut_at_def cut_done_def cut_bytes_def by metis

lemma cut_at_partly: "cut_at lo hi i vs vs1 \<Longrightarrow> cut_partly lo hi vs1 vs' \<Longrightarrow> cut_partly lo hi vs vs'"
  unfolding cut_at_def cut_partly_def by metis

lemma munmap_cut_spec:
  assumes "is_page_aligned lo" and "is_page_aligned hi" and "lo < hi"
  shows "vmas_ok vs \<Longrightarrow> \<forall>i\<in>set is. i < length vs \<Longrightarrow> \<forall>j<length vs. j \<notin> set is \<longrightarrow> clear_of lo hi (vs ! j) \<Longrightarrow>
    (\<exists>vs'. munmap_cut lo hi is vs ch = Inl vs' \<and> cut_partly lo hi vs vs') \<or>
    (\<exists>vs' ch'. munmap_cut lo hi is vs ch = Inr (vs', ch') \<and> cut_done lo hi vs vs' \<and>
      (ch \<longrightarrow> ch') \<and> (\<not> ch' \<longrightarrow> vs' = vs))"
proof (induction "is" arbitrary: vs ch)
  case Nil
  then have cl: "\<forall>v\<in>set vs. clear_of lo hi v"
    by (auto simp: in_set_conv_nth)
  then have "cut_bytes lo hi vs vs"
    by (auto simp: cut_bytes_def byte_ok_def clear_of_def in_vma_def)
  then show ?case
    using Nil cl by (simp add: cut_done_def)
next
  case (Cons i "is")
  have i: "i < length vs"
    using Cons.prems(2) by simp
  show ?case
  proof (cases "clear_of lo hi (vs ! i)")
    case True
    then have "munmap_cut lo hi (i # is) vs ch = munmap_cut lo hi is vs ch"
      by (auto simp: clear_of_def Let_def)
    moreover have "\<forall>j<length vs. j \<notin> set is \<longrightarrow> clear_of lo hi (vs ! j)"
      using Cons.prems(3) True by auto
    ultimately show ?thesis
      using Cons.IH [OF Cons.prems(1), of ch] Cons.prems(2) by simp
  next
    case False
    show ?thesis
    proof (rule munmap_cut_step [OF assms Cons.prems(1) i False, of "is" ch])
      assume "munmap_cut lo hi (i # is) vs ch = Inl vs"
      then show ?thesis
        using Cons.prems(1) by (simp add: cut_partly_def)
    next
      fix vs1 assume run: "munmap_cut lo hi (i # is) vs ch = munmap_cut lo hi is vs1 True" and c: "cut_at lo hi i vs vs1"
      have "vmas_ok vs1" "\<forall>i\<in>set is. i < length vs1" "\<forall>j<length vs1. j \<notin> set is \<longrightarrow> clear_of lo hi (vs1 ! j)"
        using c Cons.prems by (auto simp: cut_at_def)
      then show ?thesis
        unfolding run using Cons.IH [of vs1 True] cut_at_done [OF c] cut_at_partly [OF c] by blast
    qed
  qed
qed

section \<open>Properties\<close>

text \<open>Two adjacent areas and a free slot, for the witnesses.\<close>

definition vmas_example :: "user_vma list" where
  "vmas_example = [\<lparr>v_used = True, v_start = 0x20000000, v_end = 0x20003000, v_prot = 3\<rparr>,
     \<lparr>v_used = True, v_start = 0x20003000, v_end = 0x20004000, v_prot = 1\<rparr>, no_vma]"

lemma vmas_ok_example: "vmas_ok vmas_example"
  by (simp add: vmas_ok_def vmas_example_def vma_ok_def apart_def no_vma_def is_page_aligned_def
      All_less_Suc numeral_3_eq_3)

text \<open>
  C18. A range of user memory passes the check exactly when it is not empty, does not wrap around the
  address space, and every byte of it lies in some area with the needed protection, even when
  the range spans several areas.
\<close>

theorem proc_vma_range_ok_correct:
  assumes "vmas_ok vs"
  shows "proc_vma_range_ok True vs addr len need \<longleftrightarrow>
    len \<noteq> 0 \<and> addr \<le> addr + len \<and> (\<forall>a. addr \<le> a \<and> a < addr + len \<longrightarrow> byte_ok vs need a)"
  by (rule proc_vma_range_ok_iff [OF assms])

theorem proc_vma_range_ok_correct_witness:
  "proc_vma_range_ok True vmas_example 0x20002ffe 4 1 \<and> \<not> proc_vma_range_ok True vmas_example 0x20003ffe 4 1"
proof
  show "proc_vma_range_ok True vmas_example 0x20002ffe 4 1"
    unfolding proc_vma_range_ok_correct [OF vmas_ok_example]
  proof (intro conjI allI impI)
    fix a :: u32 assume "0x20002ffe \<le> a \<and> a < 0x20002ffe + 4"
    then show "byte_ok vmas_example 1 a"
      by (auto simp: byte_ok_def in_vma_def vmas_example_def word_le_nat_alt word_less_nat_alt)
  qed simp_all
  have "\<not> byte_ok vmas_example 1 0x20004000"
    by (simp add: byte_ok_def in_vma_def vmas_example_def no_vma_def)
  then show "\<not> proc_vma_range_ok True vmas_example 0x20003ffe 4 1"
    unfolding proc_vma_range_ok_correct [OF vmas_ok_example]
    by (auto intro!: exI [of _ "0x20004000 :: u32"])
qed

text \<open>
  The search for a place to map always ends; it returns the lowest address of the mmap window at
  which the range fits without touching an area, and fails only when there is no such address.
\<close>

theorem proc_find_free_mmap_range_correct:
  assumes "vmas_ok vs"
  shows "\<exists>r. proc_find_free_mmap_range vs len = Some r \<and>
    (case r of
       Some a \<Rightarrow> USER_MMAP_BASE \<le> a \<and> fits a len \<and> \<not> clash vs a len \<and>
         (\<forall>b. USER_MMAP_BASE \<le> b \<and> b < a \<longrightarrow> clash vs b len)
     | None \<Rightarrow> \<forall>b. USER_MMAP_BASE \<le> b \<and> fits b len \<longrightarrow> clash vs b len)"
  using free_range_loop_spec [OF assms, of len USER_MMAP_BASE]
  by (simp add: proc_find_free_mmap_range_def least_free_def)

theorem proc_find_free_mmap_range_correct_witness:
  "\<exists>r. proc_find_free_mmap_range vmas_example 0x1000 = Some r \<and> r \<noteq> Some 0x20000000"
proof -
  have "clash vmas_example 0x20000000 0x1000"
    by (simp add: clash_def vmas_example_def)
  then show ?thesis
    using proc_find_free_mmap_range_correct [OF vmas_ok_example, of "0x1000"] by auto
qed

text \<open>
  C19. Cutting a page range out of the table, as \<^verbatim>\<open>munmap\<close> does: when it succeeds the areas are still
  aligned and disjoint, none of them touches the range any more, and every byte outside the range
  keeps exactly the protections it had. When no slot is left for the second half of an area it
  stops, and then no byte has gained a protection and no byte outside the range has lost one.
\<close>

theorem munmap_cut_correct:
  assumes "is_page_aligned lo" and "is_page_aligned hi" and "lo < hi" and "vmas_ok vs"
  shows "(\<exists>vs'. munmap_cut lo hi [0..<length vs] vs False = Inl vs' \<and> cut_partly lo hi vs vs') \<or>
    (\<exists>vs' changed. munmap_cut lo hi [0..<length vs] vs False = Inr (vs', changed) \<and> cut_done lo hi vs vs' \<and>
      (\<not> changed \<longrightarrow> vs' = vs))"
  using munmap_cut_spec [OF assms(1-4), of "[0..<length vs]" False] by auto

theorem munmap_cut_correct_witness:
  "\<exists>vs' ch. munmap_cut 0x20001000 0x20002000 [0..<3] vmas_example False = Inr (vs', ch) \<and>
    cut_done 0x20001000 0x20002000 vmas_example vs'"
proof -
  have "munmap_cut 0x20001000 0x20002000 [0, 1, 2] vmas_example False \<noteq> Inl vs'" for vs'
    by (simp add: vmas_example_def no_vma_def proc_find_free_vma_slot_def)
  moreover have "[0..<length vmas_example] = [0, 1, 2]" "[0..<3] = [0, 1, 2 :: nat]"
    by (simp_all add: vmas_example_def upt_rec)
  ultimately show ?thesis
    using munmap_cut_correct [where lo = "0x20001000" and hi = "0x20002000", OF _ _ _ vmas_ok_example]
    by (auto simp: is_page_aligned_def)
qed

end
