(* ===== verification/Vm_Spec.thy ===== *)
theory Vm_Spec
  imports Vm
begin

text \<open>
  The page tables as a translation: which physical page and protection a virtual address has,
  and how mapping, splitting a 4 MiB page and unmapping change exactly one page of it.
\<close>

section \<open>Table slots\<close>

lemma slot_unat:
  assumes "unat t mod 4096 = 0" and "(i :: u32) < 1024"
  shows "unat (t + 4 * i) = unat t + 4 * unat i" and "unat t + 4 * unat i < unat t + 4096"
    and "unat t + 4096 \<le> 4294967296"
proof -
  have i: "unat i < 1024"
    using assms(2) by (simp add: word_less_nat_alt)
  obtain q where q: "unat t = 4096 * q"
    using assms(1) by (auto simp: mod_eq_0_iff_dvd elim: dvdE)
  then show le: "unat t + 4096 \<le> 4294967296"
    using unat_lt_2p32 [of t] by simp
  show "unat t + 4 * unat i < unat t + 4096"
    using i by simp
  then have "unat t + 4 * unat i < 4294967296"
    using le by simp
  then show "unat (t + 4 * i) = unat t + 4 * unat i"
    using i by (simp add: unat_word_ariths)
qed

lemma slot_aligned: "unat t mod 4096 = 0 \<Longrightarrow> (i :: u32) < 1024 \<Longrightarrow> unat (t + 4 * i) mod 4 = 0"
proof -
  assume t: "unat t mod 4096 = 0" and "(i :: u32) < 1024"
  from t obtain q where "unat t = 4 * (1024 * q)"
    by (auto simp: mod_eq_0_iff_dvd elim: dvdE)
  then have "unat (t + 4 * i) = 4 * (1024 * q + unat i)"
    using slot_unat(1) [OF t \<open>i < 1024\<close>] by simp
  then show ?thesis
    by simp
qed

lemma slot_eq:
  assumes "unat t mod 4096 = 0" and "(i :: u32) < 1024" and "unat u mod 4096 = 0" and "(j :: u32) < 1024"
  shows "t + 4 * i = u + 4 * j \<longleftrightarrow> t = u \<and> i = j"
proof
  assume "t + 4 * i = u + 4 * j"
  then have e: "unat t + 4 * unat i = unat u + 4 * unat j"
    using slot_unat(1) [OF assms(1,2)] slot_unat(1) [OF assms(3,4)] by metis
  have lt: "unat i < 1024" "unat j < 1024"
    using assms(2,4) by (simp_all add: word_less_nat_alt)
  note tu = pfn_aligned [OF assms(1)] pfn_aligned [OF assms(3)]
  have "pfn t = pfn u"
    using tu lt e by linarith
  then have "unat t = unat u" "unat i = unat j"
    using tu e by linarith+
  then show "t = u \<and> i = j"
    by (simp add: word_unat_eq_iff)
qed simp

lemma slot_pfn: "unat t mod 4096 = 0 \<Longrightarrow> (i :: u32) < 1024 \<Longrightarrow> k < 4 \<Longrightarrow> pfn (t + 4 * i + k) = pfn t"
proof -
  assume t: "unat t mod 4096 = 0" and i: "(i :: u32) < 1024" and k: "k < 4"
  have n: "unat i < 1024" "unat k < 4"
    using i k by (simp_all add: word_less_nat_alt)
  have "unat (t + 4 * i + k) = unat t + 4 * unat i + unat k"
  proof -
    have "unat t + 4 * unat i + unat k < 4294967296"
      using slot_unat(3) [OF t i] n by linarith
    then show ?thesis
      using slot_unat(1) [OF t i] unat_word_ariths(1) [of "t + 4 * i" k] by simp
  qed
  moreover obtain q where "unat t = 4096 * q"
    using t by (auto simp: mod_eq_0_iff_dvd elim: dvdE)
  ultimately show ?thesis
    using n by (simp add: pfn_def)
qed

lemma pte_read_write:
  assumes "unat t mod 4096 = 0" and "i < 1024" and "unat u mod 4096 = 0" and "j < 1024"
  shows "pte_read (pte_write t i v m) u j = (if t = u \<and> i = j then v else pte_read m u j)"
  using assms slot_eq [OF assms] slot_aligned load_store32_other [of "t + 4 * i" "u + 4 * j"]
  by (auto simp: pte_read_def pte_write_def)

lemma page_diff:
  assumes "unat p mod 4096 = 0"
  shows "x - p < 4096 \<longleftrightarrow> pfn x = pfn p"
proof
  assume "x - p < 4096"
  then have d: "unat (x - p) < 4096"
    by (simp add: word_less_nat_alt)
  obtain q where q: "unat p = 4096 * q" "q < 1048576"
    using assms unat_lt_2p32 [of p] by (auto simp: mod_eq_0_iff_dvd elim!: dvdE)
  have "unat (p + (x - p)) = unat p + unat (x - p)"
    using d q by (subst unat_word_ariths(1)) simp
  then show "pfn x = pfn p"
    using d q by (simp add: pfn_def)
next
  assume "pfn x = pfn p"
  then have e: "unat p \<le> unat x" "unat x < unat p + 4096"
    using pfn_aligned [OF assms] div_mult_mod_eq [of "unat x" 4096] mod_less_divisor [of 4096 "unat x"]
    unfolding pfn_def by linarith+
  then show "x - p < 4096"
    by (simp add: word_less_nat_alt unat_sub word_le_nat_alt)
qed

lemma pte_write_frame:
  assumes "unat t mod 4096 = 0" and "i < 1024" and "pfn x \<noteq> pfn t"
  shows "pte_write t i v m x = m x"
proof -
  have "x \<noteq> t + 4 * i + k" if "k < 4" for k
    using slot_pfn [OF assms(1,2) that] assms(3) by auto
  from this [of 0] this [of 1] this [of 2] this [of 3] show ?thesis
    by (simp add: pte_write_def store32_def)
qed

lemma pte_read_cong:
  assumes "unat t mod 4096 = 0" and "i < 1024" and "\<And>x. pfn x = pfn t \<Longrightarrow> m x = m' x"
  shows "pte_read m t i = pte_read m' t i"
  unfolding pte_read_def using slot_pfn [OF assms(1,2)] assms(3) by (intro load32_cong) auto

lemma mem_fill_page: "unat p mod 4096 = 0 \<Longrightarrow> mem_fill p c 4096 m x = (if pfn x = pfn p then c else m x)"
  by (simp add: mem_fill_def page_diff)

lemma aligned_pfn_eq: "unat t mod 4096 = 0 \<Longrightarrow> unat u mod 4096 = 0 \<Longrightarrow> pfn t = pfn u \<longleftrightarrow> t = u"
  using pfn_aligned [of t] pfn_aligned [of u] by (auto simp: word_unat_eq_iff)

lemma pte_read_zeroed:
  assumes "unat p mod 4096 = 0" and "unat t mod 4096 = 0" and "i < 1024"
  shows "pte_read (mem_fill p 0 4096 m) t i = (if t = p then 0 else pte_read m t i)"
proof (cases "t = p")
  case True
  have "pte_read (mem_fill p 0 4096 m) t i = pte_read (\<lambda>_. 0) t i"
    using True by (intro pte_read_cong [OF assms(2,3)]) (simp add: mem_fill_page [OF assms(1)])
  then show ?thesis
    using True by (simp add: pte_read_def load32_def)
next
  case False
  then have "pfn t \<noteq> pfn p"
    using aligned_pfn_eq [OF assms(2,1)] by simp
  then show ?thesis
    using False pte_read_cong [OF assms(2,3), of "mem_fill p 0 4096 m" m] by (simp add: mem_fill_page [OF assms(1)])
qed

section \<open>Entry bits\<close>

lemma perm_small: "pte_perm_from_flags f = pte_perm_from_flags f AND 30"
  by (simp add: pte_perm_from_flags_def Let_def)

lemma perm_leaf: "is_leaf (pte_perm_from_flags f) \<longleftrightarrow> f AND 7 \<noteq> 0"
proof -
  have "f AND 7 = (f AND 1) OR (f AND 2) OR (f AND 4)"
    by (simp flip: bit.conj_disj_distrib)
  then have "f AND 7 \<noteq> 0 \<longleftrightarrow> f AND 1 \<noteq> 0 \<or> f AND 2 \<noteq> 0 \<or> f AND 4 \<noteq> 0"
    by (simp add: or_eq_0_iff)
  then show ?thesis
    by (auto simp: is_leaf_def pte_perm_from_flags_def Let_def)
qed


lemma low_mask: "(30 :: u32) = take_bit 10 30" "(14 :: u32) = take_bit 10 14" "(1 :: u32) = take_bit 10 1"
  by simp_all

lemma push_and_low: "c = take_bit 10 (c :: u32) \<Longrightarrow> push_bit 10 x AND c = 0"
proof -
  assume c: "c = take_bit 10 c"
  have "\<not> bit c n" if "10 \<le> n" for n
    using that by (subst c) (simp add: bit_take_bit_iff)
  then show ?thesis
    by (intro bit_word_eqI) (auto simp: bit_simps)
qed

lemma pte_from_pa_low:
  "pte_from_pa pa perm AND 30 = perm AND 30"
  "is_leaf (pte_from_pa pa perm) \<longleftrightarrow> is_leaf perm"
  "is_valid (pte_from_pa pa perm)"
proof -
  have "pte_from_pa pa perm AND c = (perm AND c) OR ((1 OR 64 OR 128) AND c)" if "c = take_bit 10 c" for c
    using push_and_low [OF that, of "drop_bit 12 pa"]
    by (simp add: pte_from_pa_def bit.conj_disj_distrib2 or.assoc)
  from this [OF low_mask(1)] this [OF low_mask(2)] this [OF low_mask(3)]
  show "pte_from_pa pa perm AND 30 = perm AND 30"
    "is_leaf (pte_from_pa pa perm) \<longleftrightarrow> is_leaf perm"
    "is_valid (pte_from_pa pa perm)"
    by (simp_all add: is_leaf_def is_valid_def or_eq_0_iff)
qed

lemma pte_pa_from_pa:
  assumes "perm = take_bit 10 perm"
  shows "pte_pa (pte_from_pa pa perm) = page_floor pa"
proof -
  have low: "drop_bit 10 perm = 0"
    using assms by (metis drop_bit_take_bit diff_self_eq_0 take_bit_0)
  have "drop_bit 10 (pte_from_pa pa perm) = drop_bit 12 pa"
    by (rule bit_word_eqI) (auto simp: pte_from_pa_def low bit_simps drop_bit_or dest: bit_imp_le_length)
  then have "pte_pa (pte_from_pa pa perm) = push_bit 12 (drop_bit 12 pa)"
    by (simp add: pte_pa_def)
  also have "\<dots> = pa AND NOT (mask 12)"
    by (rule bit_word_eqI) (auto simp: bit_simps)
  finally show ?thesis
    by (simp add: page_floor_def mask_12)
qed

lemma page_floor_aligned_id: "unat a mod 4096 = 0 \<Longrightarrow> page_floor a = a"
  by (simp add: word_unat_eq_iff unat_page_floor pfn_aligned [symmetric] flip: pfn_def)

lemma table_pointer:
  assumes "unat l0 mod 4096 = 0"
  shows "is_valid (push_bit 10 (drop_bit 12 l0) OR 1)" and "\<not> is_leaf (push_bit 10 (drop_bit 12 l0) OR 1)"
    and "pte_pa (push_bit 10 (drop_bit 12 l0) OR 1) = l0"
proof -
  show "is_valid (push_bit 10 (drop_bit 12 l0) OR 1)" and "\<not> is_leaf (push_bit 10 (drop_bit 12 l0) OR 1)"
    using push_and_low [OF low_mask(2)] push_and_low [OF low_mask(3)]
    by (simp_all add: is_valid_def is_leaf_def bit.conj_disj_distrib2)
  have "drop_bit 10 (push_bit 10 (drop_bit 12 l0) OR 1) = drop_bit 12 l0"
    by (rule bit_word_eqI) (auto simp: bit_simps dest: bit_imp_le_length)
  then have "pte_pa (push_bit 10 (drop_bit 12 l0) OR 1) = push_bit 12 (drop_bit 12 l0)"
    by (simp add: pte_pa_def)
  also have "\<dots> = l0 AND NOT (mask 12)"
    by (rule bit_word_eqI) (auto simp: bit_simps)
  also have "\<dots> = page_floor l0"
    by (simp add: page_floor_def mask_12)
  finally show "pte_pa (push_bit 10 (drop_bit 12 l0) OR 1) = l0"
    by (simp add: page_floor_aligned_id [OF assms])
qed

lemma vpn_less: "vpn1 va < 1024" "vpn0 va < 1024"
proof -
  have "x AND 1023 < 1024" for x :: u32
    by (simp add: mask_10 word_less_nat_alt unat_and_mask)
  then show "vpn1 va < 1024" "vpn0 va < 1024"
    by (simp_all add: vpn1_def vpn0_def)
qed

lemma vpn_same_page: "vpn1 va = vpn1 va' \<and> vpn0 va = vpn0 va' \<longleftrightarrow> pfn va = pfn va'"
proof -
  have u: "unat (vpn1 v) = unat v div 4194304 mod 1024" "unat (vpn0 v) = unat v div 4096 mod 1024" for v
    by (simp_all add: vpn1_def vpn0_def mask_10 unat_and_mask unat_drop_bit)
  have hi: "unat v div 4194304 mod 1024 = pfn v div 1024" for v
    using unat_lt_2p32 [of v] by (simp add: pfn_def div_mult2_eq [symmetric])
  have "vpn1 va = vpn1 va' \<and> vpn0 va = vpn0 va' \<longleftrightarrow>
      pfn va div 1024 = pfn va' div 1024 \<and> pfn va mod 1024 = pfn va' mod 1024"
    by (simp add: word_unat_eq_iff u hi) (simp add: pfn_def)
  also have "\<dots> \<longleftrightarrow> pfn va = pfn va'"
    by (metis div_mult_mod_eq)
  finally show ?thesis .
qed

lemma superpage_offset:
  assumes "pa4m AND 0x3fffff = 0"
  shows "page_floor (pa4m + vpn0 va * 4096) OR (va AND 0xfff) = pa4m OR (va AND 0x3fffff)"
proof -
  have e: "vpn0 va * 4096 = push_bit 12 (vpn0 va)"
    by (simp add: push_bit_eq_mult)
  have lo: "\<not> bit pa4m n" if "n < 22" for n
  proof -
    have "\<not> bit (pa4m AND mask 22) n"
      using assms by (simp add: mask_22)
    then show ?thesis
      using that by (simp add: bit_simps)
  qed
  have v: "push_bit 12 (vpn0 va) = va AND (0x3fffff AND NOT 0xfff)"
    by (rule bit_word_eqI) (auto simp: vpn0_def mask_10 mask_12 mask_22 bit_simps)
  have "pa4m AND push_bit 12 (vpn0 va) = 0"
    using lo by (intro bit_word_eqI) (auto simp: v mask_22 mask_12 bit_simps)
  then have "pa4m + vpn0 va * 4096 = pa4m OR push_bit 12 (vpn0 va)"
    unfolding e by (rule disjunctive_add_eq_or)
  then show ?thesis
    using lo by (intro bit_word_eqI) (auto simp: page_floor_def v mask_22 mask_12 bit_simps)
qed

section \<open>Filling a table\<close>

lemma split_table_read:
  assumes "unat l0 mod 4096 = 0" and "unat t mod 4096 = 0" and "j < 1024"
  shows "pte_read (split_table l0 pa4m perm m) t j =
    (if t = l0 then pte_from_pa (pa4m + j * 4096) perm else pte_read m t j)"
proof -
  let ?w = "\<lambda>i m. pte_write l0 (of_nat i) (pte_from_pa (pa4m + of_nat i * PAGE_SIZE) perm) m"
  have "pte_read (fold ?w [0..<k] m) t j =
      (if t = l0 \<and> unat j < k then pte_from_pa (pa4m + j * 4096) perm else pte_read m t j)" if "k \<le> 1024" for k
    using that
  proof (induction k)
    case (Suc k)
    have k: "(of_nat k :: u32) < 1024" "of_nat k = j \<longleftrightarrow> k = unat j"
      using Suc.prems by (auto simp: word_less_nat_alt unat_of_nat_small word_unat_eq_iff)
    show ?case
      using Suc pte_read_write [OF assms(1) k(1) assms(2,3)] k(2) by (auto simp: less_Suc_eq)
  qed simp
  then show ?thesis
    using assms(3) by (simp add: split_table_def word_less_nat_alt)
qed

lemma split_table_frame:
  assumes "unat l0 mod 4096 = 0" and "pfn x \<noteq> pfn l0"
  shows "split_table l0 pa4m perm m x = m x"
proof -
  let ?w = "\<lambda>i m. pte_write l0 (of_nat i) (pte_from_pa (pa4m + of_nat i * PAGE_SIZE) perm) m"
  have "fold ?w [0..<k] m x = m x" if "k \<le> 1024" for k
    using that
  proof (induction k)
    case (Suc k)
    then show ?case
      using pte_write_frame [OF assms(1) _ assms(2)] by (simp add: word_less_nat_alt unat_of_nat_small)
  qed simp
  then show ?thesis
    by (simp add: split_table_def)
qed

section \<open>The translation\<close>

definition pt_walk :: "mem \<Rightarrow> u32 \<Rightarrow> u32 \<Rightarrow> (u32 \<times> u32) option" where
  "pt_walk m root va =
     (let pte1 = pte_read m root (vpn1 va) in
      if \<not> is_valid pte1 then None
      else if is_leaf pte1 then Some (pte_pa pte1 OR (va AND 0x003fffff), pte1 AND 30)
      else
        let pte0 = pte_read m (pte_pa pte1) (vpn0 va) in
        if \<not> is_valid pte0 \<or> \<not> is_leaf pte0 then None else Some (pte_pa pte0 OR (va AND 0xfff), pte0 AND 30))"

lemma query_walk: "vm_query_user_page m sv va = pt_walk m (vm_root_from_satp sv) va"
  by (simp add: vm_query_user_page_def pt_walk_def cong: if_cong)

text \<open>Entry \<open>i\<close> of the root points to a second-level table.\<close>

definition sub_table :: "mem \<Rightarrow> u32 \<Rightarrow> u32 \<Rightarrow> u32 option" where
  "sub_table m root i =
     (let e = pte_read m root i in if is_valid e \<and> \<not> is_leaf e then Some (pte_pa e) else None)"

text \<open>
  A well-formed page table: the root and the second-level tables are pages in use, no table is
  shared between two root entries, and 4 MiB leaves are aligned.
\<close>

definition pt_ok :: "ld_layout \<Rightarrow> page_alloc \<Rightarrow> u32 \<Rightarrow> bool" where
  "pt_ok L s root \<longleftrightarrow> managed L root \<and> 0 < refs L s (pfn root) \<and>
     (\<forall>i<1024. is_valid (pte_read (pmem s) root i) \<and> is_leaf (pte_read (pmem s) root i) \<longrightarrow>
        pte_pa (pte_read (pmem s) root i) AND 0x3fffff = 0) \<and>
     (\<forall>i<1024. \<forall>t. sub_table (pmem s) root i = Some t \<longrightarrow> managed L t \<and> 0 < refs L s (pfn t) \<and> t \<noteq> root) \<and>
     (\<forall>i<1024. \<forall>j<1024. \<forall>t. sub_table (pmem s) root i = Some t \<and> sub_table (pmem s) root j = Some t \<longrightarrow> i = j)"

definition pt_pages :: "mem \<Rightarrow> u32 \<Rightarrow> nat set" where
  "pt_pages m root = insert (pfn root) {pfn t | t i. i < 1024 \<and> sub_table m root i = Some t}"

text \<open>The translation in terms of the root entry and the table it points to.\<close>

lemma pt_walk_sub:
  "sub_table m root (vpn1 va) = Some t \<Longrightarrow>
    pt_walk m root va = (let e = pte_read m t (vpn0 va) in
      if is_valid e \<and> is_leaf e then Some (pte_pa e OR (va AND 0xfff), e AND 30) else None)"
  by (auto simp: pt_walk_def sub_table_def Let_def split: if_splits)

lemma pt_walk_cong:
  assumes "pte_read m' root (vpn1 va) = pte_read m root (vpn1 va)"
    and "\<And>t. sub_table m root (vpn1 va) = Some t \<Longrightarrow> pte_read m' t (vpn0 va) = pte_read m t (vpn0 va)"
  shows "pt_walk m' root va = pt_walk m root va"
  using assms by (auto simp: pt_walk_def sub_table_def Let_def)


lemma pt_okD:
  assumes "pt_ok L s root" and "i < 1024"
  shows "unat root mod 4096 = 0"
    and "sub_table (pmem s) root i = Some t \<Longrightarrow> unat t mod 4096 = 0 \<and> t \<noteq> root \<and> 0 < refs L s (pfn t)"
  using assms by (auto simp: pt_ok_def managed_def)

section \<open>Mapping one page\<close>

definition leaf_at :: "u32 \<Rightarrow> u32 \<Rightarrow> u32 \<Rightarrow> (u32 \<times> u32) option" where
  "leaf_at pa flags va =
     (if flags AND 7 \<noteq> 0 then Some (page_floor pa OR (va AND 0xfff), pte_perm_from_flags flags) else None)"

lemma leaf_at_entry:
  "(\<lambda>va. if is_valid (pte_from_pa pa (pte_perm_from_flags flags)) \<and> is_leaf (pte_from_pa pa (pte_perm_from_flags flags))
     then Some (pte_pa (pte_from_pa pa (pte_perm_from_flags flags)) OR (va AND 0xfff),
       pte_from_pa pa (pte_perm_from_flags flags) AND 30) else None) = leaf_at pa flags"
proof -
  have low: "pte_perm_from_flags flags = take_bit 10 (pte_perm_from_flags flags)"
    by (simp add: pte_perm_from_flags_def Let_def)
  show ?thesis
    using perm_small [of flags]
    by (simp add: fun_eq_iff pte_from_pa_low pte_pa_from_pa [OF low] perm_leaf leaf_at_def)
qed

lemma walk_new_leaf:
  assumes "sub_table m root (vpn1 va) = Some t" and "pte_read m t (vpn0 va) = pte_from_pa pa (pte_perm_from_flags flags)"
  shows "pt_walk m root va = leaf_at pa flags va"
  using pt_walk_sub [OF assms(1)] assms(2) fun_cong [OF leaf_at_entry, of pa flags va] by (simp add: Let_def)

text \<open>The effect of a change of tables that maps the page of \<open>va\<close> alone.\<close>

definition remapped :: "u32 \<Rightarrow> u32 \<Rightarrow> (u32 \<Rightarrow> (u32 \<times> u32) option) \<Rightarrow> mem \<Rightarrow> mem \<Rightarrow> bool" where
  "remapped root va f m m' \<longleftrightarrow>
     (\<forall>va'. pt_walk m' root va' = (if pfn va' = pfn va then f va' else pt_walk m root va'))"

lemma write_entry:
  fixes e :: u32
  assumes "pt_ok L s root" and "sub_table (pmem s) root (vpn1 va) = Some t"
  defines "m' \<equiv> pte_write t (vpn0 va) e (pmem s)"
  shows "remapped root va (\<lambda>va'. if is_valid e \<and> is_leaf e then Some (pte_pa e OR (va' AND 0xfff), e AND 30) else None) (pmem s) m'"
    and "pt_ok L (s\<lparr>pmem := m'\<rparr>) root"
    and "i < 1024 \<Longrightarrow> sub_table m' root i = sub_table (pmem s) root i"
    and "pfn x \<noteq> pfn t \<Longrightarrow> m' x = pmem s x"
proof -
  note i = vpn_less [of va] and r = pt_okD(1) [OF assms(1) vpn_less(1)]
  have t: "unat t mod 4096 = 0" "t \<noteq> root"
    using pt_okD(2) [OF assms(1) vpn_less(1) assms(2)] by simp_all
  have root: "pte_read m' root j = pte_read (pmem s) root j" if "j < 1024" for j
    using pte_read_write [OF t(1) i(2) r that] t(2) by (simp add: m'_def)
  then show sub: "sub_table m' root j = sub_table (pmem s) root j" if "j < 1024" for j
    using that by (simp add: sub_table_def)
  have same: "pt_walk m' root va' = (if is_valid e \<and> is_leaf e then Some (pte_pa e OR (va' AND 0xfff), e AND 30) else None)"
    if "pfn va' = pfn va" for va'
  proof -
    have "vpn1 va' = vpn1 va" "vpn0 va' = vpn0 va"
      using that vpn_same_page [of va' va] by simp_all
    then show ?thesis
      using pt_walk_sub [of m' root va' t] sub [OF i(1)] assms(2) pte_read_write [OF t(1) i(2) t(1) i(2)]
      by (simp add: m'_def Let_def)
  qed
  have other: "pt_walk m' root va' = pt_walk (pmem s) root va'" if ne: "pfn va' \<noteq> pfn va" for va'
  proof (rule pt_walk_cong [OF root [OF vpn_less(1)]])
    fix u assume u: "sub_table (pmem s) root (vpn1 va') = Some u"
    have "\<not> (t = u \<and> vpn0 va = vpn0 va')"
    proof
      assume eq: "t = u \<and> vpn0 va = vpn0 va'"
      then have "vpn1 va' = vpn1 va"
        using assms(1,2) u vpn_less unfolding pt_ok_def by blast
      then show False
        using ne eq vpn_same_page [of va' va] by simp
    qed
    then show "pte_read m' u (vpn0 va') = pte_read (pmem s) u (vpn0 va')"
      using pte_read_write [OF t(1) i(2) _ vpn_less(2)] pt_okD(2) [OF assms(1) vpn_less(1) u] unfolding m'_def by metis
  qed
  show "remapped root va (\<lambda>va'. if is_valid e \<and> is_leaf e then Some (pte_pa e OR (va' AND 0xfff), e AND 30) else None) (pmem s) m'"
    using same other by (simp add: remapped_def)
  show "pt_ok L (s\<lparr>pmem := m'\<rparr>) root"
    using assms(1) root sub by (auto simp: pt_ok_def)
  show "pfn x \<noteq> pfn t \<Longrightarrow> m' x = pmem s x"
    using pte_write_frame [OF t(1) i(2)] by (simp add: m'_def)
qed

text \<open>
  A fresh second-level table at \<open>p\<close>, filled so that the pages of the root entry it replaces keep
  their translation, and then one entry of it written.
\<close>

definition fresh_entry :: "u32 \<Rightarrow> u32 \<Rightarrow> u32" where
  "fresh_entry e j =
     (if is_valid e \<and> is_leaf e
      then pte_from_pa ((pte_pa e AND NOT 0x003fffff) + j * 4096) (e AND 222) else 0)"

lemma fresh_entry_walk:
  assumes "sub_table m' root (vpn1 va) = Some p" and "pte_read m' p (vpn0 va) = fresh_entry e (vpn0 va)"
    and "pte_read m root (vpn1 va) = e" and "\<not> (is_valid e \<and> \<not> is_leaf e)"
    and "is_valid e \<and> is_leaf e \<Longrightarrow> pte_pa e AND 0x3fffff = 0"
  shows "pt_walk m' root va = pt_walk m root va"
proof (cases "is_valid e")
  case False
  then show ?thesis
    using pt_walk_sub [OF assms(1)] assms(2,3) by (simp add: fresh_entry_def pt_walk_def is_valid_def)
next
  case True
  then have leaf: "is_leaf e" and al: "pte_pa e AND 0x3fffff = 0"
    using assms(4,5) by simp_all
  have base: "pte_pa e AND NOT 0x003fffff = pte_pa e"
  proof -
    have "pte_pa e = (pte_pa e AND 0x003fffff) OR (pte_pa e AND NOT 0x003fffff)"
      by (simp flip: bit.conj_disj_distrib)
    then show ?thesis
      using al by simp
  qed
  have low: "e AND 222 = take_bit 10 (e AND 222)"
    by (simp add: take_bit_eq_mask and.assoc flip: mask_10)
  have bits: "is_leaf (e AND 222) = is_leaf e" "(e AND 222) AND 30 = e AND 30"
    by (simp_all add: is_leaf_def and.assoc)
  show ?thesis
    using pt_walk_sub [OF assms(1)] assms(2,3) True leaf base
    by (simp add: fresh_entry_def pt_walk_def pte_from_pa_low pte_pa_from_pa [OF low] bits superpage_offset [OF al] Let_def)
qed

lemma map_fresh:
  fixes pa flags :: u32
  assumes "pt_ok L s root" and "\<not> (is_valid e \<and> \<not> is_leaf e)" and "e = pte_read (pmem s) root (vpn1 va)"
    and "managed L p" and "refs L s (pfn p) = 0" and "refs L s' = (refs L s)(pfn p := 1)"
    and "\<forall>t j. unat t mod 4096 = 0 \<and> j < 1024 \<longrightarrow>
      pte_read m1 t j = (if t = p then fresh_entry e j else pte_read (pmem s) t j)"
    and "\<forall>x. pfn x \<noteq> pfn p \<longrightarrow> m1 x = pmem s x"
  defines "m' \<equiv> pte_write p (vpn0 va) (pte_from_pa pa (pte_perm_from_flags flags))
      (pte_write root (vpn1 va) (push_bit 10 (drop_bit 12 p) OR 1) m1)"
  shows "remapped root va (leaf_at pa flags) (pmem s) m'" and "pt_ok L (s'\<lparr>pmem := m'\<rparr>) root"
    and "i < 1024 \<Longrightarrow> sub_table m' root i = (if i = vpn1 va then Some p else sub_table (pmem s) root i)"
    and "pfn x \<noteq> pfn p \<Longrightarrow> pfn x \<noteq> pfn root \<Longrightarrow> m' x = pmem s x"
proof -
  note i = vpn_less [of va] and r = pt_okD(1) [OF assms(1) vpn_less(1)]
  have p: "unat p mod 4096 = 0" "p \<noteq> root"
    using assms(1,4,5) by (auto simp: managed_def pt_ok_def)
  have sub_ne: "t \<noteq> p" if "sub_table (pmem s) root j = Some t" "j < 1024" for t j
    using pt_okD(2) [OF assms(1) that(2,1)] assms(5) by auto
  have rd: "pte_read m' t j = (if t = p \<and> j = vpn0 va then pte_from_pa pa (pte_perm_from_flags flags)
      else if t = root \<and> j = vpn1 va then push_bit 10 (drop_bit 12 p) OR 1
      else if t = p then fresh_entry e j else pte_read (pmem s) t j)" if "unat t mod 4096 = 0" "j < 1024" for t j
    using pte_read_write [OF p(1) i(2) that] pte_read_write [OF r i(1) that] assms(7) that
    by (auto simp: m'_def)
  have root: "pte_read m' root j = (if j = vpn1 va then push_bit 10 (drop_bit 12 p) OR 1 else pte_read (pmem s) root j)"
    if "j < 1024" for j
    using rd [OF r that] p(2) by auto
  show sub: "sub_table m' root j = (if j = vpn1 va then Some p else sub_table (pmem s) root j)" if "j < 1024" for j
    using root [OF that] table_pointer [OF p(1)] by (auto simp: sub_table_def)
  show "remapped root va (leaf_at pa flags) (pmem s) m'"
    unfolding remapped_def
  proof
    fix va'
    consider "pfn va' = pfn va" | "pfn va' \<noteq> pfn va" "vpn1 va' = vpn1 va" | "vpn1 va' \<noteq> vpn1 va"
      by blast
    then show "pt_walk m' root va' = (if pfn va' = pfn va then leaf_at pa flags va' else pt_walk (pmem s) root va')"
    proof cases
      case 1
      then have "vpn1 va' = vpn1 va" "vpn0 va' = vpn0 va"
        using vpn_same_page [of va' va] by simp_all
      then show ?thesis
        using 1 walk_new_leaf [of m' root va' p] sub [OF i(1)] rd [OF p(1) i(2)] by simp
    next
      case 2
      then have "vpn0 va' \<noteq> vpn0 va"
        using vpn_same_page [of va' va] by simp
      then have "pte_read m' p (vpn0 va') = fresh_entry e (vpn0 va')"
        using rd [OF p(1) vpn_less(2)] p(2) by auto
      moreover have "is_valid e \<and> is_leaf e \<Longrightarrow> pte_pa e AND 0x3fffff = 0"
        using assms(1,3) i(1) by (simp add: pt_ok_def)
      ultimately show ?thesis
        using 2 fresh_entry_walk [of m' root va' p e "pmem s"] sub [OF i(1)] assms(2,3) by simp
    next
      case 3
      have "pte_read m' t (vpn0 va') = pte_read (pmem s) t (vpn0 va')" if t: "sub_table (pmem s) root (vpn1 va') = Some t" for t
        using rd [OF _ vpn_less(2), of t] pt_okD(2) [OF assms(1) vpn_less(1) t] sub_ne [OF t vpn_less(1)] by auto
      moreover have "pfn va' \<noteq> pfn va"
        using 3 vpn_same_page [of va' va] by auto
      ultimately show ?thesis
        using 3 pt_walk_cong [of m' root va' "pmem s"] root [OF vpn_less(1)] by simp
    qed
  qed
  show "pfn x \<noteq> pfn p \<Longrightarrow> pfn x \<noteq> pfn root \<Longrightarrow> m' x = pmem s x"
    using pte_write_frame [OF p(1) i(2)] pte_write_frame [OF r i(1)] assms(8) by (simp add: m'_def)
  have pp: "pfn root \<noteq> pfn p"
    using aligned_pfn_eq [OF r p(1)] p(2) by simp
  have leaf: "pte_pa (pte_read m' root j) AND 0x3fffff = 0"
    if "j < 1024" "is_valid (pte_read m' root j)" "is_leaf (pte_read m' root j)" for j
    using that root [OF that(1)] table_pointer(2) [OF p(1)] assms(1) by (auto simp: pt_ok_def split: if_splits)
  have tabs: "managed L t \<and> 0 < refs L s' (pfn t) \<and> t \<noteq> root" if "j < 1024" "sub_table m' root j = Some t" for j t
    using that sub [OF that(1)] assms(1,4,6) p(2) by (auto simp: pt_ok_def split: if_splits)
  have inj: "j = k" if "j < 1024" "k < 1024" "sub_table m' root j = Some t" "sub_table m' root k = Some t" for j k t
  proof (cases "j = vpn1 va \<or> k = vpn1 va")
    case True
    then show ?thesis
      using that sub [OF that(1)] sub [OF that(2)] sub_ne [OF _ that(1)] sub_ne [OF _ that(2)] by (auto split: if_splits)
  next
    case False
    then have "sub_table (pmem s) root j = Some t" "sub_table (pmem s) root k = Some t"
      using that(3,4) sub [OF that(1)] sub [OF that(2)] by auto
    then show ?thesis
      using assms(1) that(1,2) unfolding pt_ok_def by blast
  qed
  show "pt_ok L (s'\<lparr>pmem := m'\<rparr>) root"
    unfolding pt_ok_def using leaf tabs inj assms(1,6) pp by (auto simp: pt_ok_def)
qed


lemma map_page_spec:
  assumes "ld_ok L" and "pa_inv L s" and "pt_ok L s root"
  obtains (oom) s' where "vm_map_page L root va pa flags s = Inr (-1, s')" and "pa_inv L s'"
      and "refs L s' = refs L s" and "pmem s' = pmem s"
    | (mapped) s' where "vm_map_page L root va pa flags s = Inr (0, s')" and "pa_inv L s'" and "pt_ok L s' root"
      and "remapped root va (leaf_at pa flags) (pmem s) (pmem s')"
      and "refs L s' = refs L s \<and> pt_pages (pmem s') root = pt_pages (pmem s) root \<or>
        (\<exists>q. refs L s q = 0 \<and> refs L s' = (refs L s)(q := 1) \<and>
          pt_pages (pmem s') root = insert q (pt_pages (pmem s) root))"
      and "\<forall>x. pfn x \<notin> pt_pages (pmem s') root \<longrightarrow> pmem s' x = pmem s x"
proof -
  define e where "e = pte_read (pmem s) root (vpn1 va)"
  show ?thesis
  proof (cases "is_valid e \<and> \<not> is_leaf e")
    case True
    then have sub: "sub_table (pmem s) root (vpn1 va) = Some (pte_pa e)"
      by (simp add: sub_table_def e_def)
    let ?m = "pte_write (pte_pa e) (vpn0 va) (pte_from_pa pa (pte_perm_from_flags flags)) (pmem s)"
    note m = write_entry [where e = "pte_from_pa pa (pte_perm_from_flags flags)", OF assms(3) sub, unfolded leaf_at_entry]
    have pp: "pt_pages ?m root = pt_pages (pmem s) root"
      unfolding pt_pages_def using m(3) by (metis (no_types, opaque_lifting))
    have "pfn (pte_pa e) \<in> pt_pages (pmem s) root"
      using sub vpn_less(1) by (auto simp: pt_pages_def)
    then have fr: "\<forall>x. pfn x \<notin> pt_pages ?m root \<longrightarrow> ?m x = pmem s x"
      using m(4) pp by metis
    have run: "vm_map_page L root va pa flags s = Inr (0, s\<lparr>pmem := ?m\<rparr>)"
      using True by (simp add: vm_map_page_def e_def [symmetric] Let_def)
    show ?thesis
      using that(2) [OF run] assms(2) m(1,2) pp fr by simp
  next
    case False
    obtain p s1 where a: "alloc_pages_try L 1 s = Inr (p, s1)" "pa_inv L s1"
      using alloc_one_facts(1) [OF assms(1,2)] by blast
    show ?thesis
    proof (cases "p = 0")
      case True
      then show ?thesis
        using that(1) [of s1] a alloc_one_facts(2) [OF assms(1,2), of s1] False
        by (auto simp: vm_map_page_def e_def Let_def)
    next
      case nz: False
      note p = alloc_one_facts(3) [OF assms(1,2) a(1) nz]
      have al: "unat p mod 4096 = 0"
        using p by simp
      have zz: "mem_fill p 0 4096 (pmem s1) = mem_fill p 0 4096 (pmem s)"
        using p by (auto simp: mem_fill_def)
      define m1 where "m1 = (if is_valid e \<and> is_leaf e
        then split_table p (pte_pa e AND NOT 0x003fffff) (e AND 222) (mem_fill p 0 4096 (pmem s))
        else mem_fill p 0 4096 (pmem s))"
      let ?m = "pte_write p (vpn0 va) (pte_from_pa pa (pte_perm_from_flags flags))
        (pte_write root (vpn1 va) (push_bit 10 (drop_bit 12 p) OR 1) m1)"
      have rd: "\<forall>t j. unat t mod 4096 = 0 \<and> j < 1024 \<longrightarrow>
        pte_read m1 t j = (if t = p then fresh_entry e j else pte_read (pmem s) t j)"
        using split_table_read [OF al] pte_read_zeroed [OF al] al
        by (cases "is_valid e \<and> is_leaf e") (auto simp: m1_def fresh_entry_def)
      have fr: "\<forall>x. pfn x \<noteq> pfn p \<longrightarrow> m1 x = pmem s x"
        using split_table_frame [OF al] mem_fill_page [OF al] by (simp add: m1_def)
      have mp: "managed L p" "refs L s (pfn p) = 0" "refs L s1 = (refs L s)(pfn p := 1)"
        using p by simp_all
      note m = map_fresh [where pa = pa and flags = flags, OF assms(3) False e_def mp rd fr]
      have sub: "sub_table ?m root i = (if i = vpn1 va then Some p else sub_table (pmem s) root i)" if "i < 1024" for i
        by (rule m(3) [OF that])
      have "sub_table (pmem s) root (vpn1 va) = None"
        using False by (auto simp: sub_table_def e_def)
      then have pp: "pt_pages ?m root = insert (pfn p) (pt_pages (pmem s) root)"
        using sub vpn_less(1) [of va] by (fastforce simp: pt_pages_def split: if_splits)
      have run: "vm_map_page L root va pa flags s = Inr (0, s1\<lparr>pmem := ?m\<rparr>)"
        using False a nz by (simp add: vm_map_page_def e_def [symmetric] Let_def zz m1_def cong: if_cong)
      have "pfn root \<in> pt_pages (pmem s) root"
        by (simp add: pt_pages_def)
      then have "\<forall>x. pfn x \<notin> pt_pages ?m root \<longrightarrow> ?m x = pmem s x"
        using m(4) pp by (metis insertCI)
      then show ?thesis
        using that(2) [OF run] m(1,2) pp mp a(2) by auto
    qed
  qed
qed

end
