(* ===== verification/Vm_Props.thy ===== *)
theory Vm_Props
  imports Vm_Spec
begin

text \<open>
  Properties of the virtual-memory operations: mapping and querying user pages, unmapping them,
  and the address space that \<^verbatim>\<open>vm_init\<close> builds for the kernel.
\<close>

section \<open>The root pointer\<close>

lemma satp_root: "unat r mod 4096 = 0 \<Longrightarrow> vm_root_from_satp (vm_make_satp r) = r"
proof -
  assume r: "unat r mod 4096 = 0"
  have "drop_bit 12 r AND mask 22 = drop_bit 12 r"
    by (rule bit_word_eqI) (auto simp: bit_simps dest: bit_imp_le_length)
  then have "vm_root_from_satp (vm_make_satp r) = push_bit 12 (drop_bit 12 r)"
    by (simp add: vm_root_from_satp_def vm_make_satp_def bit.conj_disj_distrib2 flip: mask_22)
  also have "\<dots> = r AND NOT (mask 12)"
    by (rule bit_word_eqI) (auto simp: bit_simps)
  also have "\<dots> = page_floor r"
    by (simp add: page_floor_def mask_12)
  finally show ?thesis
    by (simp add: page_floor_aligned_id [OF r])
qed

section \<open>Ranges of 4 MiB pages\<close>

lemma unat_4m: "k < 1024 \<Longrightarrow> unat (of_nat k * 0x400000 :: u32) = k * 0x400000"
  by (simp add: unat_word_ariths unat_of_nat_small)

lemma vpn1_4m: "k < 1024 \<Longrightarrow> vpn1 (of_nat k * 0x400000) = of_nat k"
  by (simp add: word_unat_eq_iff vpn1_def mask_10 unat_and_mask unat_drop_bit unat_4m unat_of_nat_small)

lemma map_4m_loop_spec:
  assumes "unat root mod 4096 = 0" and "b + k < 1024" and "j \<le> k"
  shows "\<exists>m'. map_4m_loop root (of_nat b * 0x400000) (of_nat b * 0x400000) (of_nat k * 0x400000) perm
      (of_nat j * 0x400000) m = Inr m' \<and>
    (\<forall>t i. unat t mod 4096 = 0 \<and> i < 1024 \<longrightarrow> pte_read m' t i =
      (if t = root \<and> b + j \<le> unat i \<and> unat i < b + k then pte_from_pa (i * 0x400000) perm else pte_read m t i)) \<and>
    (\<forall>x. pfn x \<noteq> pfn root \<longrightarrow> m' x = m x)"
  using assms(3)
proof (induction "k - j" arbitrary: j m)
  case 0
  then show ?case
    by (subst map_4m_loop.simps) auto
next
  case (Suc d)
  then have jk: "j < k" "d = k - Suc j"
    by simp_all
  let ?off = "of_nat j * 0x400000 :: u32"
  have lt: "?off < of_nat k * 0x400000"
    using jk assms(2) by (simp add: word_less_nat_alt unat_4m)
  have nx: "?off + 0x400000 = of_nat (Suc j) * 0x400000"
    by (simp add: algebra_simps)
  have nowrap: "\<not> of_nat (Suc j) * 0x400000 < ?off"
    using jk assms(2) by (simp add: word_less_nat_alt unat_4m del: of_nat_Suc)
  have at: "of_nat b * 0x400000 + ?off = of_nat (b + j) * 0x400000"
    by (simp add: algebra_simps)
  let ?m = "pte_write root (of_nat (b + j)) (pte_from_pa (of_nat (b + j) * 0x400000) perm) m"
  have idx: "(of_nat (b + j) :: u32) < 1024" "unat (of_nat (b + j) :: u32) = b + j"
    using jk assms(2) by (simp_all add: word_less_nat_alt unat_of_nat_small del: of_nat_add)
  obtain m' where m': "map_4m_loop root (of_nat b * 0x400000) (of_nat b * 0x400000) (of_nat k * 0x400000) perm
      (of_nat (Suc j) * 0x400000) ?m = Inr m'"
    and rd: "\<forall>t i. unat t mod 4096 = 0 \<and> i < 1024 \<longrightarrow> pte_read m' t i =
      (if t = root \<and> b + Suc j \<le> unat i \<and> unat i < b + k then pte_from_pa (i * 0x400000) perm else pte_read ?m t i)"
    and fr: "\<forall>x. pfn x \<noteq> pfn root \<longrightarrow> m' x = ?m x"
    using Suc.hyps(1) [of "Suc j" ?m] jk by auto
  have step: "map_4m_loop root (of_nat b * 0x400000) (of_nat b * 0x400000) (of_nat k * 0x400000) perm ?off m = Inr m'"
    using lt nowrap m' jk assms(2)
    by (subst map_4m_loop.simps) (simp only: at nx if_True if_False Let_def vpn1_4m [of "b + j"])
  have "pte_read m' t i = (if t = root \<and> b + j \<le> unat i \<and> unat i < b + k then pte_from_pa (i * 0x400000) perm
      else pte_read m t i)" if t: "unat t mod 4096 = 0" "i < 1024" for t i
  proof -
    have "of_nat (b + j) = i \<longleftrightarrow> unat i = b + j"
      using idx(2) by (metis of_nat_unat ucast_id)
    then show ?thesis
      using rd t pte_read_write [OF assms(1) idx(1) t] jk by (auto simp: not_le)
  qed
  then show ?case
    using step fr pte_write_frame [OF assms(1) idx(1)] by auto
qed

lemma walk_4m:
  assumes "pte_read m root (vpn1 va) = pte_from_pa (vpn1 va * 0x400000) perm" and "perm AND 30 = perm" and "is_leaf perm"
  shows "pt_walk m root va = Some (va, perm)"
proof -
  have "perm AND 30 = take_bit 10 (perm AND 30)"
    by (simp add: take_bit_eq_mask and.assoc flip: mask_10)
  then have low: "perm = take_bit 10 perm"
    using assms(2) by simp
  have e: "vpn1 va * 0x400000 = push_bit 22 (vpn1 va)"
    by (simp add: push_bit_eq_mult)
  have "page_floor (vpn1 va * 0x400000) OR (va AND 0x3fffff) = va"
    unfolding e by (rule bit_word_eqI) (auto simp: page_floor_def vpn1_def mask_10 mask_12 mask_22 bit_simps)
  then show ?thesis
    using assms by (simp add: pt_walk_def pte_from_pa_low pte_pa_from_pa [OF low] Let_def)
qed

text \<open>Each range of \<^verbatim>\<open>vm_init\<close>, with its first and last 4 MiB page.\<close>

lemma map_range_4m_spec:
  assumes "unat root mod 4096 = 0" and "b + k < 1024"
    and "va = of_nat b * 0x400000" and "len = of_nat k * 0x400000" and "perm = pte_perm_from_flags flags"
  obtains m' where "vm_map_range_4m root va va len flags m = Inr m'"
    and "\<And>i. i < 1024 \<Longrightarrow> pte_read m' root i =
      (if b \<le> unat i \<and> unat i < b + k then pte_from_pa (i * 0x400000) perm else pte_read m root i)"
proof -
  obtain m' where m': "vm_map_range_4m root va va len flags m = Inr m'"
    and rd: "\<forall>t i. unat t mod 4096 = 0 \<and> i < 1024 \<longrightarrow> pte_read m' t i =
      (if t = root \<and> b \<le> unat i \<and> unat i < b + k then pte_from_pa (i * 0x400000) perm else pte_read m t i)"
    using map_4m_loop_spec [OF assms(1,2), of 0 perm m] by (auto simp: vm_map_range_4m_def assms(3-5))
  show ?thesis
    using rd assms(1) by (intro that [OF m']) simp
qed

lemma vpn1_range:
  assumes "unat lo = b * 0x400000" and "unat hi = c * 0x400000"
  shows "b \<le> unat (vpn1 va) \<and> unat (vpn1 va) < c \<longleftrightarrow> lo \<le> va \<and> va < hi"
proof -
  have "unat (vpn1 va) = unat va div 0x400000 mod 1024"
    by (simp add: vpn1_def mask_10 unat_and_mask unat_drop_bit)
  also have "\<dots> = unat va div 0x400000"
    using unat_lt_2p32 [of va] by simp
  finally show ?thesis
    unfolding word_le_nat_alt word_less_nat_alt assms
    by (simp add: less_eq_div_iff_mult_less_eq div_less_iff_less_mult)
qed

definition kernel_map :: "u32 \<Rightarrow> (u32 \<times> u32) option" where
  "kernel_map va =
     (if 0x80000000 \<le> va \<and> va < 0x84000000 then Some (va, PTE_R OR PTE_W OR PTE_X)
      else if 0x10000000 \<le> va \<and> va < 0x12000000 \<or> 0x0c000000 \<le> va \<and> va < 0x0c400000 \<or>
        0x02000000 \<le> va \<and> va < 0x02400000 then Some (va, PTE_R OR PTE_W)
      else None)"

lemma perm_rw: "pte_perm_from_flags 3 = 6" "pte_perm_from_flags 7 = 14" "is_leaf 6" "is_leaf 14" "\<not> is_valid 0"
  by (simp_all add: pte_perm_from_flags_def Let_def is_leaf_def is_valid_def)

lemma kernel_entries:
  assumes "unat root mod 4096 = 0"
    and "\<And>i. i < 1024 \<Longrightarrow> pte_read m root i =
      (if 512 \<le> unat i \<and> unat i < 528 then pte_from_pa (i * 0x400000) 14
       else if 64 \<le> unat i \<and> unat i < 72 \<or> 48 \<le> unat i \<and> unat i < 49 \<or> 8 \<le> unat i \<and> unat i < 9
       then pte_from_pa (i * 0x400000) 6 else 0)"
  shows "pt_walk m root va = kernel_map va" and "i < 1024 \<Longrightarrow> sub_table m root i = None"
    and "i < 1024 \<Longrightarrow> is_valid (pte_read m root i) \<Longrightarrow> pte_pa (pte_read m root i) AND 0x3fffff = 0"
proof -
  note e = assms(2) [OF vpn_less(1), of va]
  have r: "512 \<le> unat (vpn1 va) \<and> unat (vpn1 va) < 528 \<longleftrightarrow> 0x80000000 \<le> va \<and> va < 0x84000000"
    "64 \<le> unat (vpn1 va) \<and> unat (vpn1 va) < 72 \<longleftrightarrow> 0x10000000 \<le> va \<and> va < 0x12000000"
    "48 \<le> unat (vpn1 va) \<and> unat (vpn1 va) < 49 \<longleftrightarrow> 0x0c000000 \<le> va \<and> va < 0x0c400000"
    "8 \<le> unat (vpn1 va) \<and> unat (vpn1 va) < 9 \<longleftrightarrow> 0x02000000 \<le> va \<and> va < 0x02400000"
    by (rule vpn1_range; simp)+
  consider "512 \<le> unat (vpn1 va) \<and> unat (vpn1 va) < 528"
    | "\<not> (512 \<le> unat (vpn1 va) \<and> unat (vpn1 va) < 528)"
      "64 \<le> unat (vpn1 va) \<and> unat (vpn1 va) < 72 \<or> 48 \<le> unat (vpn1 va) \<and> unat (vpn1 va) < 49 \<or>
       8 \<le> unat (vpn1 va) \<and> unat (vpn1 va) < 9"
    | "\<not> (512 \<le> unat (vpn1 va) \<and> unat (vpn1 va) < 528)"
      "\<not> (64 \<le> unat (vpn1 va) \<and> unat (vpn1 va) < 72 \<or> 48 \<le> unat (vpn1 va) \<and> unat (vpn1 va) < 49 \<or>
       8 \<le> unat (vpn1 va) \<and> unat (vpn1 va) < 9)"
    by blast
  then show "pt_walk m root va = kernel_map va"
  proof cases
    case 1
    then show ?thesis
      using e walk_4m [of m root va 14] r(1) by (simp add: kernel_map_def perm_rw)
  next
    case 2
    then have "pt_walk m root va = Some (va, 6)"
      using walk_4m [of m root va 6] by (simp only: e if_False if_True perm_rw) simp
    then show ?thesis
      using 2 unfolding r by (simp add: kernel_map_def)
  next
    case 3
    then have "pt_walk m root va = None"
      by (simp only: pt_walk_def e if_False) (simp add: is_valid_def)
    then show ?thesis
      using 3 unfolding r by (simp add: kernel_map_def)
  qed
  show "i < 1024 \<Longrightarrow> sub_table m root i = None"
    using assms(2) [of i] by (auto simp: sub_table_def Let_def pte_from_pa_low perm_rw split: if_splits)
  have low: "(14 :: u32) = take_bit 10 14" "(6 :: u32) = take_bit 10 6"
    by simp_all
  have "(push_bit 22 i AND NOT (mask 12)) AND mask 22 = 0"
    by (rule bit_word_eqI) (auto simp: bit_simps)
  then have al: "page_floor (i * 0x400000) AND 0x3fffff = 0"
    by (simp add: page_floor_def push_bit_eq_mult mask_12 mask_22)
  show "i < 1024 \<Longrightarrow> is_valid (pte_read m root i) \<Longrightarrow> pte_pa (pte_read m root i) AND 0x3fffff = 0"
    using assms(2) [of i] al pte_pa_from_pa [OF low(1)] pte_pa_from_pa [OF low(2)]
    by (auto simp: is_valid_def split: if_splits)
qed

lemma vm_init_spec:
  assumes "ld_ok L" and "pa_inv L (pa_state v)"
  obtains (oom) v' where "vm_init L v h = Inr (-1, v', h)" and "pa_inv L (pa_state v')"
      and "refs L (pa_state v') = refs L (pa_state v)" and "no_room L 1 (pa_state v)"
    | (ready) v' where "vm_init L v h = Inr (0, v', h\<lparr>satp := kernel_satp_value v'\<rparr>)" and "pa_inv L (pa_state v')"
      and "kernel_satp_value v' = vm_make_satp (kernel_root_pt v')" and "pt_ok L (pa_state v') (kernel_root_pt v')"
      and "\<forall>va. pt_walk (pmem (pa_state v')) (kernel_root_pt v') va = kernel_map va"
      and "\<forall>i<1024. sub_table (pmem (pa_state v')) (kernel_root_pt v') i = None"
proof -
  obtain p s where a: "alloc_pages_try L 1 (pa_state v) = Inr (p, s)" "pa_inv L s"
    using alloc_one_facts(1) [OF assms] by blast
  show ?thesis
  proof (cases "p = 0")
    case True
    then show ?thesis
      using that(1) [of "v\<lparr>pa_state := s\<rparr>"] a alloc_one_facts(2) [OF assms, of s] alloc_one_room [OF assms, of s]
      by (simp add: vm_init_def)
  next
    case False
    note p = alloc_one_facts(3) [OF assms a(1) False]
    have al: "unat p mod 4096 = 0"
      using p by simp
    define m0 where "m0 = mem_fill p 0 4096 (pmem s)"
    obtain m1 where m1: "vm_map_range_4m p 0x02000000 0x02000000 0x00400000 3 m0 = Inr m1"
      and r1: "\<And>i. i < 1024 \<Longrightarrow> pte_read m1 p i = (if 8 \<le> unat i \<and> unat i < 9 then pte_from_pa (i * 0x400000) 6 else pte_read m0 p i)"
      by (rule map_range_4m_spec [OF al, where b = 8 and k = 1 and perm = 6 and flags = 3 and m = m0]) (auto simp: perm_rw)
    obtain m2 where m2: "vm_map_range_4m p 0x0c000000 0x0c000000 0x00400000 3 m1 = Inr m2"
      and r2: "\<And>i. i < 1024 \<Longrightarrow> pte_read m2 p i = (if 48 \<le> unat i \<and> unat i < 49 then pte_from_pa (i * 0x400000) 6 else pte_read m1 p i)"
      by (rule map_range_4m_spec [OF al, where b = 48 and k = 1 and perm = 6 and flags = 3 and m = m1]) (auto simp: perm_rw)
    obtain m3 where m3: "vm_map_range_4m p 0x10000000 0x10000000 0x02000000 3 m2 = Inr m3"
      and r3: "\<And>i. i < 1024 \<Longrightarrow> pte_read m3 p i = (if 64 \<le> unat i \<and> unat i < 72 then pte_from_pa (i * 0x400000) 6 else pte_read m2 p i)"
      by (rule map_range_4m_spec [OF al, where b = 64 and k = 8 and perm = 6 and flags = 3 and m = m2]) (auto simp: perm_rw)
    obtain m4 where m4: "vm_map_range_4m p 0x80000000 0x80000000 0x04000000 7 m3 = Inr m4"
      and r4: "\<And>i. i < 1024 \<Longrightarrow> pte_read m4 p i = (if 512 \<le> unat i \<and> unat i < 528 then pte_from_pa (i * 0x400000) 14 else pte_read m3 p i)"
      by (rule map_range_4m_spec [OF al, where b = 512 and k = 16 and perm = 14 and flags = 7 and m = m3]) (auto simp: perm_rw)
    have r0: "pte_read m0 p i = 0" if "i < 1024" for i
      using pte_read_zeroed [OF al al that] by (simp add: m0_def)
    have entries: "pte_read m4 p i =
      (if 512 \<le> unat i \<and> unat i < 528 then pte_from_pa (i * 0x400000) 14
       else if 64 \<le> unat i \<and> unat i < 72 \<or> 48 \<le> unat i \<and> unat i < 49 \<or> 8 \<le> unat i \<and> unat i < 9
       then pte_from_pa (i * 0x400000) 6 else 0)" if "i < 1024" for i
      using r4 [OF that] r3 [OF that] r2 [OF that] r1 [OF that] r0 [OF that] by simp
    note k = kernel_entries [OF al entries]
    define v' where "v' = v\<lparr>pa_state := s\<lparr>pmem := m4\<rparr>, kernel_root_pt := p, kernel_satp_value := vm_make_satp p\<rparr>"
    have run: "vm_init L v h = Inr (0, v', h\<lparr>satp := kernel_satp_value v'\<rparr>)"
      using a(1) False m1 m2 m3 m4 by (simp add: vm_init_def Let_def vm_activate_def v'_def m0_def)
    have "pt_ok L (s\<lparr>pmem := m4\<rparr>) p"
      using p k(2,3) by (auto simp: pt_ok_def)
    then show ?thesis
      using that(2) [OF run] a(2) k(1,2) by (simp add: v'_def)
  qed
qed

section \<open>Unmapping\<close>

lemma unmap_spec:
  assumes "pt_ok L s (vm_root_from_satp sv)" and "vm_unmap_user_page sv va (pmem s) = (rc, m')"
  shows "if \<not> is_page_aligned va \<or> (is_valid (pte_read (pmem s) (vm_root_from_satp sv) (vpn1 va)) \<and>
      is_leaf (pte_read (pmem s) (vm_root_from_satp sv) (vpn1 va)))
    then rc = -1 \<and> m' = pmem s
    else rc = 0 \<and> pt_ok L (s\<lparr>pmem := m'\<rparr>) (vm_root_from_satp sv) \<and>
      remapped (vm_root_from_satp sv) va (\<lambda>_. None) (pmem s) m'"
proof -
  define root where "root = vm_root_from_satp sv"
  note ok = assms(1) [folded root_def]
  show ?thesis
  proof (cases "sub_table (pmem s) root (vpn1 va)")
    case None
    have walk: "pt_walk (pmem s) root va' = None" if "\<not> is_valid (pte_read (pmem s) root (vpn1 va))" "pfn va' = pfn va" for va'
      using that vpn_same_page [of va' va] by (simp add: pt_walk_def)
    show ?thesis
      using None assms(2) ok walk
      by (auto simp: vm_unmap_user_page_def sub_table_def Let_def remapped_def simp flip: root_def split: if_splits)
  next
    case (Some t)
    have "remapped root va (\<lambda>_. None) (pmem s) (pte_write t (vpn0 va) 0 (pmem s))"
      and okm: "pt_ok L (s\<lparr>pmem := pte_write t (vpn0 va) 0 (pmem s)\<rparr>) root"
      using write_entry(1,2) [OF ok Some, of 0] by (simp_all add: is_valid_def)
    then show ?thesis
      using Some assms(2) okm
      by (auto simp: vm_unmap_user_page_def sub_table_def Let_def simp flip: root_def split: if_splits)
  qed
qed

section \<open>Properties\<close>


text \<open>A kernel address space to map pages in.\<close>

lemma boot_page_table:
  obtains s root where "pa_inv ld_example s" and "pt_ok ld_example s root" and "unat root mod 4096 = 0"
    and "\<forall>va. pt_walk (pmem s) root va = kernel_map va" and "\<forall>i<1024. sub_table (pmem s) root i = None"
proof -
  define v h where "v = \<lparr>pa_state = pa_boot (\<lambda>_. 0), kernel_root_pt = 0, kernel_satp_value = 0\<rparr>"
    and "h = hart_boot"
  have inv: "pa_inv ld_example (pa_state v)"
    by (simp add: v_def)
  show ?thesis
  proof (rule vm_init_spec [OF ld_ok_example inv, of h])
    fix v' assume "no_room ld_example 1 (pa_state v)"
    then show ?thesis
      using boot_room by (simp add: v_def)
  next
    fix v' assume "pa_inv ld_example (pa_state v')" "pt_ok ld_example (pa_state v') (kernel_root_pt v')"
      "\<forall>va. pt_walk (pmem (pa_state v')) (kernel_root_pt v') va = kernel_map va"
      "\<forall>i<1024. sub_table (pmem (pa_state v')) (kernel_root_pt v') i = None"
    then show ?thesis
      using that by (auto simp: pt_ok_def managed_def)
  qed
qed


text \<open>
  Unmapping a user page: a misaligned address or one inside a 4 MiB mapping is refused without
  any change; otherwise the page is not mapped afterwards and every other address is as before.
\<close>

theorem vm_unmap_user_page_correct:
  assumes "pt_ok L s (vm_root_from_satp sv)" and "vm_unmap_user_page sv va (pmem s) = (rc, m')"
  shows "if \<not> is_page_aligned va \<or> (is_valid (pte_read (pmem s) (vm_root_from_satp sv) (vpn1 va)) \<and>
      is_leaf (pte_read (pmem s) (vm_root_from_satp sv) (vpn1 va)))
    then rc = -1 \<and> m' = pmem s
    else rc = 0 \<and> pt_ok L (s\<lparr>pmem := m'\<rparr>) (vm_root_from_satp sv) \<and>
      (\<forall>va'. vm_query_user_page m' sv va' = (if pfn va' = pfn va then None else vm_query_user_page (pmem s) sv va'))"
  using unmap_spec [OF assms, unfolded remapped_def] unfolding query_walk .

theorem vm_unmap_user_page_correct_witness:
  "\<exists>s sv rc m'. pt_ok ld_example s (vm_root_from_satp sv) \<and> vm_unmap_user_page sv 0x40000001 (pmem s) = (rc, m') \<and>
    rc = -1 \<and> m' = pmem s"
proof -
  obtain s root where k: "pt_ok ld_example s root" "unat root mod 4096 = 0"
    by (rule boot_page_table)
  let ?sv = "vm_make_satp root"
  have ok: "pt_ok ld_example s (vm_root_from_satp ?sv)"
    using k satp_root [OF k(2)] by simp
  obtain rc m' where u: "vm_unmap_user_page ?sv 0x40000001 (pmem s) = (rc, m')"
    by (cases "vm_unmap_user_page ?sv 0x40000001 (pmem s)")
  have "rc = -1 \<and> m' = pmem s"
    using vm_unmap_user_page_correct [OF ok u] by (simp add: is_page_aligned_def)
  then show ?thesis
    using ok u by blast
qed

text \<open>
  C17. The kernel address space: when a page is left, \<^verbatim>\<open>vm_init\<close> activates a page table that maps the
  64 MiB of RAM at 0x80000000 readable, writable and executable, the device regions readable and
  writable, each to itself and none of them for user mode, and nothing else.
\<close>

theorem vm_init_correct:
  assumes "ld_ok L" and "pa_inv L (pa_state v)" and "\<not> no_room L 1 (pa_state v)"
  shows "\<exists>v'. vm_init L v h = Inr (0, v', h\<lparr>satp := kernel_satp_value v'\<rparr>) \<and> pa_inv L (pa_state v') \<and>
    pt_ok L (pa_state v') (kernel_root_pt v') \<and>
    (\<forall>va. vm_query_user_page (pmem (pa_state v')) (kernel_satp_value v') va = kernel_map va)"
proof (rule vm_init_spec [OF assms(1,2), of h])
  fix v' assume "no_room L 1 (pa_state v)"
  then show ?thesis
    using assms(3) by simp
next
  fix v' assume a: "vm_init L v h = Inr (0, v', h\<lparr>satp := kernel_satp_value v'\<rparr>)" "pa_inv L (pa_state v')"
    "kernel_satp_value v' = vm_make_satp (kernel_root_pt v')" "pt_ok L (pa_state v') (kernel_root_pt v')"
    "\<forall>va. pt_walk (pmem (pa_state v')) (kernel_root_pt v') va = kernel_map va"
  then have "unat (kernel_root_pt v') mod 4096 = 0"
    by (simp add: pt_ok_def managed_def)
  then show ?thesis
    using a by (simp add: query_walk satp_root)
qed

theorem vm_init_correct_witness:
  "\<exists>v h v' h'. vm_init ld_example v h = Inr (0, v', h') \<and>
    vm_query_user_page (pmem (pa_state v')) (satp h') 0x80200004 = Some (0x80200004, PTE_R OR PTE_W OR PTE_X)"
proof -
  define v h where "v = \<lparr>pa_state = pa_boot (\<lambda>_. 0), kernel_root_pt = 0, kernel_satp_value = 0\<rparr>"
    and "h = hart_boot"
  have "pa_inv ld_example (pa_state v)" "\<not> no_room ld_example 1 (pa_state v)"
    using boot_room by (simp_all add: v_def)
  then obtain v' where "vm_init ld_example v h = Inr (0, v', h\<lparr>satp := kernel_satp_value v'\<rparr>)"
    "\<forall>va. vm_query_user_page (pmem (pa_state v')) (kernel_satp_value v') va = kernel_map va"
    using vm_init_correct [OF ld_ok_example] by blast
  then show ?thesis
    by (intro exI [of _ v] exI [of _ h] exI [of _ v'] exI [of _ "h\<lparr>satp := kernel_satp_value v'\<rparr>"])
      (simp add: kernel_map_def)
qed

end
