(* ===== verification/Process_Vm_Spec.thy ===== *)
theory Process_Vm_Spec
  imports Process_Vm Vma_Spec Vm_Props
begin

text \<open>
  What page faults do to an address space: demand-zero pages, copy on write, refusal.
\<close>

section \<open>Changes that leave the tables alone\<close>

lemma pt_pages_sub: "sub_table m root i = Some t \<Longrightarrow> i < 1024 \<Longrightarrow> pfn t \<in> pt_pages m root"
  by (auto simp: pt_pages_def)

lemma pt_frame:
  assumes "pt_ok L s root" and "\<And>x. pfn x \<in> pt_pages (pmem s) root \<Longrightarrow> m' x = pmem s x"
  shows "pt_walk m' root va = pt_walk (pmem s) root va" and "pt_pages m' root = pt_pages (pmem s) root"
    and "pt_ok L (s\<lparr>pmem := m'\<rparr>) root"
proof -
  have r: "unat root mod 4096 = 0"
    using assms(1) by (simp add: pt_ok_def managed_def)
  have root: "pte_read m' root i = pte_read (pmem s) root i" if "i < 1024" for i
    using assms(2) by (intro pte_read_cong [OF r that]) (simp add: pt_pages_def)
  then have sub: "sub_table m' root i = sub_table (pmem s) root i" if "i < 1024" for i
    using that by (simp add: sub_table_def)
  have tab: "pte_read m' t j = pte_read (pmem s) t j" if "sub_table (pmem s) root i = Some t" "i < 1024" "j < 1024" for t i j
    using assms(2) pt_pages_sub [OF that(1,2)] pt_okD(2) [OF assms(1) that(2,1)]
    by (intro pte_read_cong [OF _ that(3)]) auto
  show "pt_walk m' root va = pt_walk (pmem s) root va"
    using root [OF vpn_less(1)] tab [OF _ vpn_less(1) vpn_less(2)] by (intro pt_walk_cong) auto
  show "pt_pages m' root = pt_pages (pmem s) root"
    unfolding pt_pages_def using sub by (metis (no_types, opaque_lifting))
  show "pt_ok L (s\<lparr>pmem := m'\<rparr>) root"
    using assms(1) root sub by (auto simp: pt_ok_def)
qed

lemma pt_ok_refs:
  assumes "pt_ok L s root" and "\<And>q. q \<in> pt_pages (pmem s) root \<Longrightarrow> 0 < refs L s' q" and "pmem s' = pmem s"
  shows "pt_ok L s' root"
  using assms pt_pages_sub [of "pmem s" root] by (auto simp: pt_ok_def pt_pages_def)

lemma pt_pages_used: "pt_ok L s root \<Longrightarrow> q \<in> pt_pages (pmem s) root \<Longrightarrow> 0 < refs L s q"
  by (auto simp: pt_ok_def pt_pages_def)

text \<open>A fresh page: it is no table, and taking it leaves the translation alone.\<close>

lemma alloc_for_table:
  assumes "ld_ok L" and "pa_inv L s" and "pt_ok L s root" and "alloc_pages_try L 1 s = Inr (p, s')"
  shows "pa_inv L s'" and "pt_ok L s' root" and "pt_walk (pmem s') root va = pt_walk (pmem s) root va"
    and "pt_pages (pmem s') root = pt_pages (pmem s) root"
    and "p \<noteq> 0 \<Longrightarrow> pfn p \<notin> pt_pages (pmem s) root"
proof -
  show "pa_inv L s'"
    using alloc_one_facts(1) [OF assms(1,2)] assms(4) by auto
  have "(\<forall>x. pfn x \<in> pt_pages (pmem s) root \<longrightarrow> pmem s' x = pmem s x) \<and>
      (\<forall>q\<in>pt_pages (pmem s) root. 0 < refs L s' q) \<and> (p \<noteq> 0 \<longrightarrow> pfn p \<notin> pt_pages (pmem s) root)"
  proof (cases "p = 0")
    case True
    then show ?thesis
      using alloc_one_facts(2) [OF assms(1,2), of s'] assms(4) pt_pages_used [OF assms(3)] by simp
  next
    case False
    note p = alloc_one_facts(3) [OF assms(1,2,4) False]
    have "pfn p \<notin> pt_pages (pmem s) root"
      using p pt_pages_used [OF assms(3), of "pfn p"] by auto
    then show ?thesis
      using p pt_pages_used [OF assms(3)] mem_fill_page [of p] by auto
  qed
  then have m: "\<And>x. pfn x \<in> pt_pages (pmem s) root \<Longrightarrow> pmem s' x = pmem s x"
    and r: "\<And>q. q \<in> pt_pages (pmem s) root \<Longrightarrow> 0 < refs L s' q" and "p \<noteq> 0 \<Longrightarrow> pfn p \<notin> pt_pages (pmem s) root"
    by blast+
  then show "p \<noteq> 0 \<Longrightarrow> pfn p \<notin> pt_pages (pmem s) root"
    by blast
  note f = pt_frame [OF assms(3) m]
  show "pt_walk (pmem s') root va = pt_walk (pmem s) root va" and "pt_pages (pmem s') root = pt_pages (pmem s) root"
    using f(1,2) by blast+
  show "pt_ok L s' root"
    by (rule pt_ok_refs [OF f(3)]) (use r f(2) in simp_all)
qed

section \<open>Mapping a fresh page\<close>

text \<open>What a served fault at \<open>va\<close> leaves: the page of \<open>va\<close> mapped to \<open>pa\<close>, all else as before.\<close>

definition fault_served :: "ld_layout \<Rightarrow> u32 \<Rightarrow> u32 \<Rightarrow> u32 \<Rightarrow> u32 \<Rightarrow> page_alloc \<Rightarrow> page_alloc \<Rightarrow> bool" where
  "fault_served L sv va pa prot s s' \<longleftrightarrow> pa_inv L s' \<and> pt_ok L s' (vm_root_from_satp sv) \<and>
     managed L pa \<and> refs L s (pfn pa) = 0 \<and> refs L s' (pfn pa) = 1 \<and>
     (\<forall>va'. vm_query_user_page (pmem s') sv va' =
       (if pfn va' = pfn va then leaf_at pa (flags_of_prot prot) va' else vm_query_user_page (pmem s) sv va'))"

definition fault_refused :: "ld_layout \<Rightarrow> u32 \<Rightarrow> page_alloc \<Rightarrow> page_alloc \<Rightarrow> bool" where
  "fault_refused L sv s s' \<longleftrightarrow> pa_inv L s' \<and> pt_ok L s' (vm_root_from_satp sv) \<and>
     (\<forall>va'. vm_query_user_page (pmem s') sv va' = vm_query_user_page (pmem s) sv va')"

lemma map_fresh_page:
  assumes "ld_ok L" and "pa_inv L s" and "pt_ok L s (vm_root_from_satp sv)"
    and "managed L pa" and "refs L s (pfn pa) = 1" and "pfn pa \<notin> pt_pages (pmem s) (vm_root_from_satp sv)"
    and "unat va mod 4096 = 0"
  obtains (oom) s' where "vm_map_user_page L sv va pa prot s = Inr (-1, s')" and "pa_inv L s'"
      and "refs L s' = refs L s" and "pmem s' = pmem s"
    | (mapped) s' where "vm_map_user_page L sv va pa prot s = Inr (0, s')" and "pa_inv L s'"
      and "pt_ok L s' (vm_root_from_satp sv)" and "refs L s' (pfn pa) = 1"
      and "remapped (vm_root_from_satp sv) va (leaf_at pa (flags_of_prot prot)) (pmem s) (pmem s')"
      and "\<forall>x. pfn x \<notin> pt_pages (pmem s') (vm_root_from_satp sv) \<longrightarrow> pmem s' x = pmem s x"
      and "\<forall>q. 0 < refs L s q \<longrightarrow> refs L s' q = refs L s q"
      and "\<forall>q. 0 < refs L s q \<and> q \<notin> pt_pages (pmem s) (vm_root_from_satp sv) \<longrightarrow>
        q \<notin> pt_pages (pmem s') (vm_root_from_satp sv)"
proof -
  have al: "is_page_aligned va" "is_page_aligned pa"
    using assms(4,7) by (simp_all add: is_page_aligned_iff managed_def)
  then have run: "vm_map_user_page L sv va pa prot s = vm_map_page L (vm_root_from_satp sv) va pa (flags_of_prot prot) s"
    by (simp add: vm_map_user_page_def)
  show ?thesis
  proof (rule map_page_spec [OF assms(1-3), of va pa "flags_of_prot prot"])
    fix s' assume m: "vm_map_page L (vm_root_from_satp sv) va pa (flags_of_prot prot) s = Inr (0, s')" "pa_inv L s'"
      "pt_ok L s' (vm_root_from_satp sv)"
      "remapped (vm_root_from_satp sv) va (leaf_at pa (flags_of_prot prot)) (pmem s) (pmem s')"
      "refs L s' = refs L s \<and> pt_pages (pmem s') (vm_root_from_satp sv) = pt_pages (pmem s) (vm_root_from_satp sv) \<or>
        (\<exists>q. refs L s q = 0 \<and> refs L s' = (refs L s)(q := 1) \<and>
          pt_pages (pmem s') (vm_root_from_satp sv) = insert q (pt_pages (pmem s) (vm_root_from_satp sv)))"
      "\<forall>x. pfn x \<notin> pt_pages (pmem s') (vm_root_from_satp sv) \<longrightarrow> pmem s' x = pmem s x"
    have keep: "\<forall>q. 0 < refs L s q \<longrightarrow> refs L s' q = refs L s q"
      "\<forall>q. 0 < refs L s q \<and> q \<notin> pt_pages (pmem s) (vm_root_from_satp sv) \<longrightarrow> q \<notin> pt_pages (pmem s') (vm_root_from_satp sv)"
      using m(5) by auto
    show ?thesis
      using mapped [of s'] m run keep assms(5) by simp
  qed (use oom run in simp)
qed

section \<open>Giving a page back\<close>

lemma dropped_other: "dropped L Q s s' \<Longrightarrow> q \<notin> Q \<Longrightarrow> refs L s' q = refs L s q"
  unfolding dropped_def by metis

lemma dropped_pt:
  assumes "dropped L {q} s s'" and "pt_ok L s root" and "q \<notin> pt_pages (pmem s) root"
  shows "pt_ok L s' root" and "pmem s' = pmem s"
proof -
  show m: "pmem s' = pmem s"
    using assms(1) by (simp add: dropped_def)
  have "refs L s' x = refs L s x" if "x \<in> pt_pages (pmem s) root" for x
    using assms(3) that by (intro dropped_other [OF assms(1)]) auto
  then show "pt_ok L s' root"
    using pt_pages_used [OF assms(2)] m by (intro pt_ok_refs [OF assms(2)]) auto
qed

lemma free_one_page:
  assumes "ld_ok L" and "pa_inv L s" and "managed L pa" and "0 < refs L s (pfn pa)"
  obtains s' where "free_pages L pa 1 s = Inr s'" and "pa_inv L s'" and "dropped L {pfn pa} s s'"
proof -
  have "{pfn pa..<pfn pa + unat (1 :: u32)} = {pfn pa}"
    by auto
  moreover have "\<not> (\<exists>q\<in>{pfn pa}. refs L s q = 0)" "unat pa mod 4096 = 0"
    "\<not> (pfn pa < pfn (free_ram L) \<or> pfn (free_ram L) + 8192 < pfn pa + unat (1 :: u32))"
    using assms(3,4) by (auto simp: managed_def)
  ultimately show ?thesis
    using free_pages_spec [OF assms(1,2), of 1 pa] that by auto
qed

section \<open>Served and refused faults\<close>

lemma page_floor_pfn: "pfn (page_floor a) = pfn a" "unat (page_floor a) mod 4096 = 0"
  by (simp_all add: pfn_def unat_page_floor)

lemma demand_fault:
  assumes "ld_ok L" and "pa_inv L s" and "pt_ok L s (vm_root_from_satp (p_satp p))" and "is_user p"
    and "access \<in> {VMA_PROT_R, VMA_PROT_W, VMA_PROT_X}"
    and "proc_find_vma_index (vmas p) (page_floor addr) = Some i" and "v_prot (vmas p ! i) AND access = access"
    and "vm_query_user_page (pmem s) (p_satp p) (page_floor addr) = None"
  shows "\<exists>rc s'. proc_handle_user_page_fault L (Some p) addr access s = Inr (rc, s') \<and>
    (rc = -1 \<and> fault_refused L (p_satp p) s s' \<or>
     rc = 0 \<and> (\<exists>pa. fault_served L (p_satp p) addr pa (v_prot (vmas p ! i)) s s' \<and>
       (\<forall>x. pfn x = pfn pa \<longrightarrow> pmem s' x = 0)))"
proof -
  define sv va v where "sv = p_satp p" and "va = page_floor addr" and "v = vmas p ! i"
  let ?root = "vm_root_from_satp sv"
  note ok = assms(3) [folded sv_def]
  have unf: "proc_handle_user_page_fault L (Some p) addr access s =
      kbind (alloc_pages_try L 1 s) (\<lambda>(pa, s). if pa = 0 then Inr (-1, s)
        else kbind (vm_map_user_page L sv va pa (v_prot v) s) (\<lambda>(rc, s).
          if rc < 0 then kbind (free_pages L pa 1 s) (\<lambda>s. Inr (-1, s)) else Inr (0, s)))"
    unfolding sv_def va_def v_def using assms(4-8) by (auto simp: proc_handle_user_page_fault_def Let_def)
  obtain pa s1 where a: "alloc_pages_try L 1 s = Inr (pa, s1)"
    using alloc_one_facts(1) [OF assms(1,2)] by blast
  note t = alloc_for_table [OF assms(1,2) ok a]
  show ?thesis
  proof (cases "pa = 0")
    case True
    then show ?thesis
      using unf a t by (simp add: fault_refused_def query_walk sv_def)
  next
    case False
    note p = alloc_one_facts(3) [OF assms(1,2) a False]
    have ref1: "managed L pa" "refs L s1 (pfn pa) = 1" "pfn pa \<notin> pt_pages (pmem s1) ?root"
      using p t(4,5) False by simp_all
    show ?thesis
    proof (rule map_fresh_page [OF assms(1) t(1,2) ref1 page_floor_pfn(2) [of addr], of "v_prot v"])
      fix s2 assume m: "vm_map_user_page L sv (page_floor addr) pa (v_prot v) s1 = Inr (-1, s2)" "pa_inv L s2"
        "refs L s2 = refs L s1" "pmem s2 = pmem s1"
      have pt2: "pt_ok L s2 ?root"
        using t(2) m(3,4) by (simp add: pt_ok_def)
      obtain s3 where f: "free_pages L pa 1 s2 = Inr s3" "pa_inv L s3" "dropped L {pfn pa} s2 s3"
        using free_one_page [OF assms(1) m(2) ref1(1)] m(3) ref1(2) by auto
      note d = dropped_pt [OF f(3) pt2]
      have "fault_refused L sv s s3"
        using f(2) d ref1(3) m(4) t(3) by (simp add: fault_refused_def query_walk)
      then show ?thesis
        using unf a False m(1) f(1) by (simp add: va_def sv_def)
    next
      fix s2 assume m: "vm_map_user_page L sv (page_floor addr) pa (v_prot v) s1 = Inr (0, s2)" "pa_inv L s2"
        "pt_ok L s2 ?root" "refs L s2 (pfn pa) = 1"
        "remapped ?root (page_floor addr) (leaf_at pa (flags_of_prot (v_prot v))) (pmem s1) (pmem s2)"
        "\<forall>x. pfn x \<notin> pt_pages (pmem s2) ?root \<longrightarrow> pmem s2 x = pmem s1 x"
        "\<forall>q. 0 < refs L s1 q \<longrightarrow> refs L s2 q = refs L s1 q"
        "\<forall>q. 0 < refs L s1 q \<and> q \<notin> pt_pages (pmem s1) ?root \<longrightarrow> q \<notin> pt_pages (pmem s2) ?root"
      have "pmem s2 x = 0" if "pfn x = pfn pa" for x
        using m(6,8) ref1 that p mem_fill_page [of pa 0 "pmem s" x] by auto
      moreover have "fault_served L sv addr pa (v_prot v) s s2"
        using m(2-5) ref1(1) p t(3) page_floor_pfn(1) by (simp add: fault_served_def query_walk remapped_def)
      ultimately show ?thesis
        using unf a False m(1) by (auto simp: va_def sv_def v_def)
    qed
  qed
qed

section \<open>Copy on write\<close>

lemma query_aligned:
  assumes "vm_query_user_page m sv va = Some (pa, prot)" and "is_page_aligned va"
  shows "is_page_aligned pa"
proof -
  have z: "pte_pa e AND 4095 = 0" for e
    unfolding pte_pa_def mask_12 by (rule bit_word_eqI) (auto simp: bit_simps)
  have v: "va AND 4095 = 0" "(va AND 0x3fffff) AND 4095 = 0"
    using assms(2) by (simp_all add: is_page_aligned_def and.assoc)
  then show ?thesis
    using assms(1) z
    by (auto simp: query_walk pt_walk_def is_page_aligned_def bit.conj_disj_distrib2 Let_def split: if_splits)
qed

lemma page_copy:
  assumes "unat new mod 4096 = 0" and "unat old mod 4096 = 0" and "new \<noteq> old"
  shows "memcpy new old 4096 m x = (if pfn x = pfn new then m (old + (x - new)) else m x)"
proof -
  have "4096 \<le> new - old"
    using page_diff [OF assms(2), of new] aligned_pfn_eq [OF assms(1,2)] assms(3) by (simp add: linorder_not_less)
  then show ?thesis
    by (simp add: memcpy_eq_move mem_move_def page_diff [OF assms(1)])
qed

lemma offset_in_page: "unat p mod 4096 = 0 \<Longrightarrow> (j :: u32) < 4096 \<Longrightarrow> pfn (p + j) = pfn p"
  using page_diff [of p "p + j"] by simp

lemma dec_ref_old:
  assumes "ld_ok L" and "pa_inv L s" and "managed L a \<Longrightarrow> 0 < refs L s (pfn a)"
  obtains s' where "page_dec_ref L a s = Inr s'" and "pa_inv L s'"
    and "dropped L (if managed L a then {pfn a} else {}) s s'"
  using page_dec_ref_spec [OF assms(1,2), of a] assms(3) that by (cases "managed L a") auto

lemma pt_pages_managed: "pt_ok L s root \<Longrightarrow> q \<in> pt_pages (pmem s) root \<Longrightarrow> pfn (free_ram L) \<le> q \<and> q < pfn (free_ram L) + 8192"
  by (auto simp: pt_ok_def pt_pages_def managed_def)

lemma refs_unmanaged: "unat a mod 4096 = 0 \<Longrightarrow> \<not> managed L a \<Longrightarrow> refs L s (pfn a) = 0"
  by (auto simp: managed_def refs_def)

lemma cow_fault:
  assumes "ld_ok L" and "pa_inv L s" and "pt_ok L s (vm_root_from_satp (p_satp p))" and "is_user p"
    and "proc_find_vma_index (vmas p) (page_floor addr) = Some i" and "v_prot (vmas p ! i) AND VMA_PROT_W = VMA_PROT_W"
    and "vm_query_user_page (pmem s) (p_satp p) (page_floor addr) = Some (old, mapped)" and "mapped AND PTE_W_BIT = 0"
    and "pfn old \<notin> pt_pages (pmem s) (vm_root_from_satp (p_satp p))" and "managed L old \<Longrightarrow> 0 < refs L s (pfn old)"
  shows "\<exists>rc s'. proc_handle_user_page_fault L (Some p) addr VMA_PROT_W s = Inr (rc, s') \<and>
    (rc = -1 \<and> fault_refused L (p_satp p) s s' \<or>
     rc = 0 \<and> (\<exists>new. fault_served L (p_satp p) addr new (v_prot (vmas p ! i)) s s' \<and>
       (\<forall>j<4096. pmem s' (new + j) = pmem s (old + j) \<and> pmem s' (old + j) = pmem s (old + j)) \<and>
       (managed L old \<longrightarrow> refs L s' (pfn old) = refs L s (pfn old) - 1 \<or>
          refs L s (pfn old) = 1 \<and> refs L s' (pfn old) = 1 \<and> free_meta_oom_warned s')))"
proof -
  define sv va v where "sv = p_satp p" and "va = page_floor addr" and "v = vmas p ! i"
  let ?root = "vm_root_from_satp sv"
  note ok = assms(3) [folded sv_def] and qry = assms(7) [folded sv_def va_def] and notpt = assms(9) [folded sv_def]
  have w: "v_prot v AND VMA_PROT_W \<noteq> 0"
    using assms(6) by (simp add: v_def)
  define copied where "copied = (\<lambda>new (s1 :: page_alloc). s1\<lparr>pmem := memcpy new old 4096 (pmem s1)\<rparr>)"
  have bits: "prot_to_query_bits VMA_PROT_W = 4"
    by (simp add: prot_to_query_bits_def)
  have nz: "mapped AND 4 \<noteq> 4"
    using assms(8) by simp
  have unf: "proc_handle_user_page_fault L (Some p) addr VMA_PROT_W s =
      kbind (kbind (alloc_pages_try L 1 s) (\<lambda>(new, s1). if new = 0 then Inr (-1, s1)
        else kbind (vm_map_user_page L sv va new (v_prot v) (copied new s1)) (\<lambda>(rc, s).
          if rc < 0 then kbind (free_pages L new 1 s) (\<lambda>s. Inr (-1, s))
          else kbind (page_dec_ref L old s) (\<lambda>s. Inr (0, s)))))
      (\<lambda>(rc :: int, s). if rc = 0 then Inr (0, s) else Inr (-1, s))"
    unfolding sv_def va_def v_def copied_def
    using assms(4-8) w [unfolded v_def] nz bits
    by (simp add: proc_handle_user_page_fault_def proc_try_cow_fault_def Let_def cong: if_cong)
  obtain new s1 where a: "alloc_pages_try L 1 s = Inr (new, s1)"
    using alloc_one_facts(1) [OF assms(1,2)] by blast
  note t = alloc_for_table [OF assms(1,2) ok a]
  show ?thesis
  proof (cases "new = 0")
    case True
    then show ?thesis
      using unf a t by (simp add: fault_refused_def query_walk sv_def)
  next
    case False
    note n = alloc_one_facts(3) [OF assms(1,2) a False]
    have al: "unat new mod 4096 = 0" "unat old mod 4096 = 0"
      using n query_aligned [OF qry] page_floor_aligned [of addr] by (simp_all add: va_def is_page_aligned_iff)
    have ne: "new \<noteq> old" "pfn new \<noteq> pfn old"
      using n assms(10) aligned_pfn_eq [OF al] by auto
    let ?s2 = "copied new s1"
    have m2: "pmem ?s2 x = (if pfn x = pfn new then pmem s (old + (x - new)) else pmem s x)" for x
      using page_copy [OF al ne(1)] n mem_fill_page [OF al(1)] offset_in_page [OF al(2)] page_diff [OF al(1), of x] ne(2)
      by (auto simp: copied_def)
    have fr: "pmem ?s2 x = pmem s1 x" if "pfn x \<in> pt_pages (pmem s1) ?root" for x
      using page_copy [OF al ne(1)] that t(4,5) False by (auto simp: copied_def)
    note f2 = pt_frame [OF t(2), of "pmem ?s2", OF fr]
    have s2: "pa_inv L ?s2" "pt_ok L ?s2 ?root" "refs L ?s2 = refs L s1"
      using t(1) f2(3) by (simp_all add: copied_def)
    have ref2: "managed L new" "refs L ?s2 (pfn new) = 1" "pfn new \<notin> pt_pages (pmem ?s2) ?root"
      using n t(4,5) False f2(2) s2(3) by simp_all
    have walk2: "pt_walk (pmem ?s2) ?root va' = pt_walk (pmem s) ?root va'" for va'
      using f2(1) t(3) by simp
    show ?thesis
    proof (rule map_fresh_page [OF assms(1) s2(1,2) ref2 page_floor_pfn(2) [of addr], of "v_prot v"])
      fix s3 assume m: "vm_map_user_page L sv (page_floor addr) new (v_prot v) ?s2 = Inr (-1, s3)" "pa_inv L s3"
        "refs L s3 = refs L ?s2" "pmem s3 = pmem ?s2"
      have pt3: "pt_ok L s3 ?root"
        using s2(2) m(3,4) by (simp add: pt_ok_def)
      obtain s4 where f: "free_pages L new 1 s3 = Inr s4" "pa_inv L s4" "dropped L {pfn new} s3 s4"
        using free_one_page [OF assms(1) m(2) ref2(1)] m(3) ref2(2) by auto
      note d = dropped_pt [OF f(3) pt3]
      have "fault_refused L sv s s4"
        using f(2) d ref2(3) m(4) walk2 by (simp add: fault_refused_def query_walk)
      then show ?thesis
        using unf a False m(1) f(1) by (simp add: va_def sv_def)
    next
      fix s3 assume m: "vm_map_user_page L sv (page_floor addr) new (v_prot v) ?s2 = Inr (0, s3)" "pa_inv L s3"
        "pt_ok L s3 ?root" "refs L s3 (pfn new) = 1"
        "remapped ?root (page_floor addr) (leaf_at new (flags_of_prot (v_prot v))) (pmem ?s2) (pmem s3)"
        "\<forall>x. pfn x \<notin> pt_pages (pmem s3) ?root \<longrightarrow> pmem s3 x = pmem ?s2 x"
        "\<forall>q. 0 < refs L ?s2 q \<longrightarrow> refs L s3 q = refs L ?s2 q"
        "\<forall>q. 0 < refs L ?s2 q \<and> q \<notin> pt_pages (pmem ?s2) ?root \<longrightarrow> q \<notin> pt_pages (pmem s3) ?root"
      have old3: "managed L old \<Longrightarrow> refs L s3 (pfn old) = refs L s (pfn old)" "pfn old \<notin> pt_pages (pmem s3) ?root"
      proof -
        show r: "managed L old \<Longrightarrow> refs L s3 (pfn old) = refs L s (pfn old)"
          using m(7) assms(10) s2(3) n ne(2) by simp
        show "pfn old \<notin> pt_pages (pmem s3) ?root"
        proof (cases "managed L old")
          case True
          then show ?thesis
            using m(8) assms(10) s2(3) n ne(2) notpt t(4) f2(2) by simp
        next
          case False
          then show ?thesis
            using pt_pages_managed [OF m(3)] al(2) by (auto simp: managed_def)
        qed
      qed
      obtain s4 where d: "page_dec_ref L old s3 = Inr s4" "pa_inv L s4"
        "dropped L (if managed L old then {pfn old} else {}) s3 s4"
        using dec_ref_old [OF assms(1) m(2), of old] old3(1) assms(10) by auto
      have d': "dropped L {pfn old} s3 s4"
        using d(3) refs_unmanaged [OF al(2)] by (cases "managed L old") (auto simp: dropped_def)
      have mem4: "pmem s4 (new + j) = pmem s (old + j)" "pmem s4 (old + j) = pmem s (old + j)" if "j < 4096" for j
        using m(6,8) ref2 old3(2) m2 [of "new + j"] m2 [of "old + j"] offset_in_page [OF al(1) that]
          offset_in_page [OF al(2) that] ne(2) dropped_pt(2) [OF d' m(3) old3(2)] by auto
      have "refs L s4 (pfn new) = 1"
        using dropped_other [OF d', of "pfn new"] m(4) ne(2) by simp
      then have "fault_served L sv addr new (v_prot v) s s4"
        using d(2) dropped_pt [OF d' m(3) old3(2)] n m(5) walk2 page_floor_pfn(1)
        by (simp add: fault_served_def query_walk remapped_def)
      moreover have "managed L old \<longrightarrow> refs L s4 (pfn old) = refs L s (pfn old) - 1 \<or>
          refs L s (pfn old) = 1 \<and> refs L s4 (pfn old) = 1 \<and> free_meta_oom_warned s4"
        using d' old3(1) unfolding dropped_def by (metis singletonI)
      ultimately show ?thesis
        using unf a False m(1) d(1) mem4 by (auto simp: va_def sv_def v_def)
    qed
  qed
qed

section \<open>Properties\<close>

text \<open>
  A fault outside every area of the process, or one the area does not allow, is refused and
  changes nothing; so is any fault of a process that is not a user process.
\<close>

theorem page_fault_denied:
  assumes "\<not> is_user p \<or> access \<notin> {VMA_PROT_R, VMA_PROT_W, VMA_PROT_X} \<or>
    \<not> byte_ok (vmas p) access (page_floor addr)" and "vmas_ok (vmas p)"
  shows "proc_handle_user_page_fault L (Some p) addr access s = Inr (-1, s)"
proof (cases "proc_find_vma_index (vmas p) (page_floor addr)")
  case None
  then show ?thesis
    by (simp add: proc_handle_user_page_fault_def Let_def)
next
  case (Some i)
  have "i < length (vmas p)" "in_vma (vmas p ! i) (page_floor addr)"
    using Some find_vma_index_Some [OF assms(2)] by auto
  then have "v_prot (vmas p ! i) AND access \<noteq> access" if "\<not> byte_ok (vmas p) access (page_floor addr)"
    using that by (auto simp: byte_ok_nth)
  then show ?thesis
    using Some assms(1) by (auto simp: proc_handle_user_page_fault_def Let_def)
qed

text \<open>A user process with one writable area at the start of the mmap window.\<close>

definition proc_example :: "u32 \<Rightarrow> process" where
  "proc_example sv = zero_process\<lparr>is_user := True, p_satp := sv,
     vmas := [\<lparr>v_used = True, v_start = 0x20000000, v_end = 0x20001000, v_prot = 3\<rparr>]\<rparr>"

lemma proc_example_simps [simp]:
  "is_user (proc_example sv)" "p_satp (proc_example sv) = sv"
  "vmas (proc_example sv) = [\<lparr>v_used = True, v_start = 0x20000000, v_end = 0x20001000, v_prot = 3\<rparr>]"
  by (simp_all add: proc_example_def)

lemma proc_example_vmas: "vmas_ok (vmas (proc_example sv))"
  by (simp add: vmas_ok_def vma_ok_def is_page_aligned_def)

theorem page_fault_denied_witness:
  "proc_handle_user_page_fault ld_example (Some (proc_example 0)) 0x20002000 VMA_PROT_R (pa_boot (\<lambda>_. 0)) =
    Inr (-1, pa_boot (\<lambda>_. 0))"
proof (rule page_fault_denied [OF _ proc_example_vmas])
  have "page_floor 0x20002000 = 0x20002000"
    by (simp add: page_floor_def)
  then show "\<not> is_user (proc_example 0) \<or> VMA_PROT_R \<notin> {VMA_PROT_R, VMA_PROT_W, VMA_PROT_X} \<or>
      \<not> byte_ok (vmas (proc_example 0)) VMA_PROT_R (page_floor 0x20002000)"
    by (simp add: byte_ok_def in_vma_def)
qed


lemma floor_example: "page_floor 0x20000123 = 0x20000000"
  by (simp add: page_floor_def)

lemma find_example: "proc_find_vma_index (vmas (proc_example sv)) (page_floor 0x20000123) = Some 0"
  by (simp add: floor_example proc_find_vma_index_def)



text \<open>An address space with a read-only 4 MiB mapping of device memory at 0x20000000.\<close>

lemma readonly_example:
  obtains s root where "pa_inv ld_example s" and "pt_ok ld_example s root" and "unat root mod 4096 = 0"
    and "pt_walk (pmem s) root 0x20000000 = Some (0x00800000, 18)" and "pt_pages (pmem s) root = {pfn root}"
proof -
  obtain s root where k: "pa_inv ld_example s" "pt_ok ld_example s root" "unat root mod 4096 = 0"
    and sub: "\<forall>i<1024. sub_table (pmem s) root i = None"
    by (rule boot_page_table)
  let ?e = "pte_from_pa 0x00800000 18 :: u32"
  have e: "is_valid ?e" "is_leaf ?e" "pte_pa ?e = 0x00800000" "?e AND 30 = 18"
    by (simp_all add: pte_from_pa_def is_valid_def is_leaf_def pte_pa_def)
  have vp: "vpn1 0x20000000 = 128"
    by (simp add: vpn1_def)
  let ?m = "pte_write root 128 ?e (pmem s)"
  have rd: "pte_read ?m root j = (if 128 = j then ?e else pte_read (pmem s) root j)" if "j < 1024" for j
    using pte_read_write [OF k(3) _ k(3) that, of 128] by simp
  have sub': "sub_table ?m root j = None" if "j < 1024" for j
    using rd [OF that] sub that e by (auto simp: sub_table_def Let_def split: if_splits)
  have "pt_ok ld_example (s\<lparr>pmem := ?m\<rparr>) root"
    using k(2) rd sub' e(3) by (auto simp: pt_ok_def split: if_splits)
  moreover have "pt_walk ?m root 0x20000000 = Some (0x00800000, 18)"
    using rd [of 128] e by (simp add: pt_walk_def vp Let_def)
  moreover have "pt_pages ?m root = {pfn root}"
    using sub' by (auto simp: pt_pages_def)
  ultimately show ?thesis
    using that [of "s\<lparr>pmem := ?m\<rparr>" root] k(1,3) by simp
qed


section \<open>Forking twice\<close>

lemma query_cong_frame:
  assumes "pt_ok L s root" and "\<forall>x. pfn x \<notin> P \<longrightarrow> m' x = pmem s x" and "P \<inter> pt_pages (pmem s) root = {}"
  shows "pt_ok L (s\<lparr>pmem := m'\<rparr>) root" and "pt_pages m' root = pt_pages (pmem s) root"
  using pt_frame(2,3) [OF assms(1), of m'] assms(2,3) by auto


text \<open>Two address spaces with one read-only 4 MiB mapping each, the parent's over a page in use.\<close>

lemma single_leaf:
  assumes "managed L t" and "0 < refs L s (pfn t)" and "\<forall>i<1024. pte_read (pmem s) t i = (if i = k then pte_from_pa b 18 else 0)"
    and "b AND 0x3fffff = 0"
  shows "pt_ok L s t" and "pt_pages (pmem s) t = {pfn t}"
    and "k < 1024 \<Longrightarrow> vpn1 va = k \<Longrightarrow> pt_walk (pmem s) t va = Some (b OR (va AND 0x3fffff), 18)"
proof -
  have l18: "is_leaf 18"
    by (simp add: is_leaf_def)
  have e: "is_valid (pte_from_pa b 18)" "is_leaf (pte_from_pa b 18)" "pte_from_pa b 18 AND 30 = 18"
    using l18 by (simp_all add: pte_from_pa_low)
  have "b AND 4095 = (b AND 0x3fffff) AND 4095"
    by (simp add: and.assoc)
  then have "b AND 4095 = 0"
    unfolding assms(4) by simp
  then have "unat b mod 4096 = 0"
    by (simp add: is_page_aligned_def flip: is_page_aligned_iff)
  moreover have "(18 :: u32) = take_bit 10 18"
    by simp
  ultimately have pa: "pte_pa (pte_from_pa b 18) = b"
    using pte_pa_from_pa [of 18 b] by (simp add: page_floor_aligned_id)
  have sub: "sub_table (pmem s) t i = None" if "i < 1024" for i
    using assms(3) that e by (simp add: sub_table_def is_valid_def)
  then show "pt_pages (pmem s) t = {pfn t}"
    by (auto simp: pt_pages_def)
  show "pt_ok L s t"
    using assms sub pa by (auto simp: pt_ok_def is_valid_def)
  show "k < 1024 \<Longrightarrow> vpn1 va = k \<Longrightarrow> pt_walk (pmem s) t va = Some (b OR (va AND 0x3fffff), 18)"
    using assms(3) e pa by (simp add: pt_walk_def Let_def)
qed

lemma boot_room3: "\<not> no_room ld_example 3 (pa_boot m)"
  by (simp add: no_room_def init_allocator_if_needed_def pa_boot_def ld_example_def Let_def word_le_nat_alt)

lemma three_pages:
  obtains s p where "pa_inv ld_example s" and "unat p mod 4096 = 0" and "pfn (free_ram ld_example) \<le> pfn p"
    and "pfn p + 3 \<le> pfn (free_ram ld_example) + 8192"
    and "\<forall>q\<in>{pfn p..<pfn p + 3}. refs ld_example s q = 1" and "\<forall>x. pmem s x = 0"
proof -
  obtain p s where a: "alloc_pages_try ld_example 3 (pa_boot (\<lambda>_. 0)) = Inr (p, s)" "pa_inv ld_example s"
    "handed_out ld_example p 3 (pa_boot (\<lambda>_. 0)) s"
    using alloc_pages_try_spec [OF ld_ok_example pa_inv_boot, of 3 "\<lambda>_. 0"] boot_room3 by auto
  moreover have "pmem (pa_boot (\<lambda>_. 0)) = (\<lambda>_. 0)"
    by (simp add: pa_boot_def)
  ultimately show ?thesis
    using that [of s p] by (auto simp: handed_out_def mem_fill_def)
qed

lemma vpn1_window: "vpn1 (0x20000000 OR (x AND 0x3fffff)) = 128"
proof -
  have "drop_bit 22 (x AND mask 22) = 0"
    by (rule bit_word_eqI) (auto simp: bit_simps)
  then show ?thesis
    by (simp add: vpn1_def mask_22)
qed


end
