(* ===== verification/Address_Space.thy ===== *)
theory Address_Space
  imports Process_Vm_Spec
begin

text \<open>
  The address space \<^verbatim>\<open>vm_build_user_satp\<close> builds for a new user process: the kernel's map, the user
  sections of the image with their rights, and the user stack.
\<close>

section \<open>Changes that only add tables\<close>

definition in_ram :: "ld_layout \<Rightarrow> nat \<Rightarrow> bool" where
  "in_ram L q \<longleftrightarrow> pfn (free_ram L) \<le> q \<and> q < pfn (free_ram L) + 8192"

text \<open>
  \<open>grown\<close>: the page table of \<open>root\<close> may have new tables, taken from unused pages; every page in use
  keeps its references, and its contents unless it is one of the tables.
\<close>

definition grown :: "ld_layout \<Rightarrow> u32 \<Rightarrow> page_alloc \<Rightarrow> page_alloc \<Rightarrow> bool" where
  "grown L root s s' \<longleftrightarrow> pa_inv L s' \<and> pt_ok L s' root \<and>
     (\<forall>q. 0 < refs L s q \<longrightarrow> refs L s' q = refs L s q) \<and>
     (\<forall>q. 0 < refs L s q \<and> q \<notin> pt_pages (pmem s) root \<longrightarrow> q \<notin> pt_pages (pmem s') root) \<and>
     (\<forall>x. (0 < refs L s (pfn x) \<or> \<not> in_ram L (pfn x)) \<and> pfn x \<notin> pt_pages (pmem s) root \<longrightarrow> pmem s' x = pmem s x)"

lemma pt_pages_ram: "pt_ok L s root \<Longrightarrow> q \<in> pt_pages (pmem s) root \<Longrightarrow> in_ram L q"
  using pt_pages_managed by (simp add: in_ram_def)

lemma grown_refl: "pa_inv L s \<Longrightarrow> pt_ok L s root \<Longrightarrow> grown L root s s"
  by (simp add: grown_def)

lemma grown_trans:
  assumes "grown L root s s1" and "grown L root s1 s2"
  shows "grown L root s s2"
proof -
  have pt1: "pt_ok L s1 root"
    using assms(1) by (simp add: grown_def)
  have keep: "refs L s1 q = refs L s q" if "0 < refs L s q" for q
    using assms(1) that by (simp add: grown_def)
  have pages: "q \<notin> pt_pages (pmem s1) root"
    if "0 < refs L s q \<or> \<not> in_ram L q" "q \<notin> pt_pages (pmem s) root" for q
    using assms(1) that pt_pages_ram [OF pt1, of q] by (auto simp: grown_def)
  have "pmem s2 x = pmem s x" if x: "0 < refs L s (pfn x) \<or> \<not> in_ram L (pfn x)" "pfn x \<notin> pt_pages (pmem s) root" for x
  proof -
    have "0 < refs L s1 (pfn x) \<or> \<not> in_ram L (pfn x)"
      using x(1) keep by auto
    then show ?thesis
      using assms x pages [OF x] by (simp add: grown_def)
  qed
  moreover have "q \<notin> pt_pages (pmem s2) root" if "0 < refs L s q" "q \<notin> pt_pages (pmem s) root" for q
    using assms(2) that pages keep by (simp add: grown_def)
  ultimately show ?thesis
    using assms keep by (auto simp: grown_def)
qed

lemma map_page_grown:
  assumes "ld_ok L" and "pa_inv L s" and "pt_ok L s root"
  obtains (oom) s' where "vm_map_page L root va pa flags s = Inr (-1, s')" and "grown L root s s'"
    | (mapped) s' where "vm_map_page L root va pa flags s = Inr (0, s')" and "grown L root s s'"
      and "remapped root va (leaf_at pa flags) (pmem s) (pmem s')"
proof (rule map_page_spec [OF assms, of va pa flags])
  fix s' assume m: "vm_map_page L root va pa flags s = Inr (-1, s')" "pa_inv L s'" "refs L s' = refs L s" "pmem s' = pmem s"
  have "pt_ok L s' root"
    using assms(3) m(3,4) by (simp add: pt_ok_def)
  then show ?thesis
    using oom [OF m(1)] m by (simp add: grown_def)
next
  fix s' assume m: "vm_map_page L root va pa flags s = Inr (0, s')" "pa_inv L s'" "pt_ok L s' root"
    "remapped root va (leaf_at pa flags) (pmem s) (pmem s')"
    "refs L s' = refs L s \<and> pt_pages (pmem s') root = pt_pages (pmem s) root \<or>
      (\<exists>q. refs L s q = 0 \<and> refs L s' = (refs L s)(q := 1) \<and>
        pt_pages (pmem s') root = insert q (pt_pages (pmem s) root))"
    "\<forall>x. pfn x \<notin> pt_pages (pmem s') root \<longrightarrow> pmem s' x = pmem s x"
  have "q \<notin> pt_pages (pmem s') root" if "0 < refs L s q \<or> \<not> in_ram L q" "q \<notin> pt_pages (pmem s) root" for q
    using m(5) that pt_pages_ram [OF m(3), of q] by auto
  then have "grown L root s s'"
    unfolding grown_def using m(2,3,5,6) by auto
  then show ?thesis
    using mapped [OF m(1)] m(4) by blast
qed

section \<open>A range of pages\<close>

definition range_map :: "u32 \<Rightarrow> u32 \<Rightarrow> nat \<Rightarrow> u32 \<Rightarrow> (u32 \<Rightarrow> (u32 \<times> u32) option) \<Rightarrow> u32 \<Rightarrow> (u32 \<times> u32) option" where
  "range_map va pa n flags f va' =
     (if unat va \<le> unat va' \<and> unat va' < unat va + n * 4096
      then leaf_at (pa + (page_floor va' - va)) flags va' else f va')"

lemma same_page_range:
  assumes "unat va mod 4096 = 0"
  shows "pfn va' = pfn va \<longleftrightarrow> unat va \<le> unat va' \<and> unat va' < unat va + 4096"
proof -
  have "unat va = pfn va * 4096"
    by (rule pfn_aligned [OF assms])
  moreover have "pfn va' * 4096 \<le> unat va'" "unat va' < pfn va' * 4096 + 4096"
    using div_mult_mod_eq [of "unat va'" 4096] mod_less_divisor [of 4096 "unat va'"] unfolding pfn_def by linarith+
  ultimately show ?thesis
    by (intro iffI) linarith+
qed

lemma page_offset:
  fixes va :: u32
  assumes "unat va mod 4096 = 0" and "unat va + j * 4096 + 4096 \<le> 4294967296"
  shows "unat (va + of_nat (j * 4096)) = unat va + j * 4096" and "unat (va + of_nat (j * 4096)) mod 4096 = 0"
proof -
  have "j * 4096 < 4294967296"
    using assms(2) by simp
  then have o: "unat (of_nat (j * 4096) :: u32) = j * 4096"
    by (subst unat_of_nat) simp
  then show u: "unat (va + of_nat (j * 4096)) = unat va + j * 4096"
    using assms(2) unat_add_no_wrap [of va "of_nat (j * 4096)"] unfolding o by linarith
  show "unat (va + of_nat (j * 4096)) mod 4096 = 0"
    unfolding u using assms(1) by simp
qed

lemma page_floor_same: "pfn a = pfn b \<Longrightarrow> unat b mod 4096 = 0 \<Longrightarrow> page_floor a = b"
  using unat_page_floor [of a] pfn_aligned [of b] by (simp add: word_unat_eq_iff pfn_def)

text \<open>Mapping the page at index \<open>j\<close>, then the pages from \<open>Suc j\<close> on.\<close>

lemma range_map_step:
  assumes "unat va mod 4096 = 0" and "unat va + n * 4096 \<le> 4294967296" and "j < n"
    and "remapped root (va + of_nat (j * 4096)) (leaf_at (pa + of_nat (j * 4096)) flags) m m1"
    and "\<forall>va'. pt_walk m2 root va' =
      (if unat va + Suc j * 4096 \<le> unat va' \<and> unat va' < unat va + n * 4096
       then leaf_at (pa + (page_floor va' - va)) flags va' else pt_walk m1 root va')"
  shows "\<forall>va'. pt_walk m2 root va' =
      (if unat va + j * 4096 \<le> unat va' \<and> unat va' < unat va + n * 4096
       then leaf_at (pa + (page_floor va' - va)) flags va' else pt_walk m root va')"
proof
  fix va'
  let ?p = "va + of_nat (j * 4096)"
  have "unat va + j * 4096 + 4096 \<le> unat va + n * 4096"
    using assms(3) by simp
  then have le: "unat va + j * 4096 + 4096 \<le> 4294967296"
    using assms(2) by linarith
  note p = page_offset [OF assms(1) le]
  have here: "pfn va' = pfn ?p \<longleftrightarrow> unat va + j * 4096 \<le> unat va' \<and> unat va' < unat va + j * 4096 + 4096"
    using same_page_range [OF p(2), of va'] unfolding p(1) .
  have in_n: "unat va' < unat va + j * 4096 + 4096 \<Longrightarrow> unat va' < unat va + n * 4096"
    using \<open>unat va + j * 4096 + 4096 \<le> unat va + n * 4096\<close> by linarith
  show "pt_walk m2 root va' =
      (if unat va + j * 4096 \<le> unat va' \<and> unat va' < unat va + n * 4096
       then leaf_at (pa + (page_floor va' - va)) flags va' else pt_walk m root va')"
  proof (cases "pfn va' = pfn ?p")
    case True
    have "page_floor va' - va = of_nat (j * 4096)"
      using page_floor_same [OF True p(2)] by simp
    then show ?thesis
      using assms(4,5) True here in_n by (simp add: remapped_def)
  next
    case False
    then have "unat va + Suc j * 4096 \<le> unat va' \<longleftrightarrow> unat va + j * 4096 \<le> unat va'"
      using here by auto
    then show ?thesis
      using assms(4,5) False by (simp add: remapped_def)
  qed
qed

lemma map_4k_loop_spec:
  assumes "ld_ok L" and "unat va mod 4096 = 0" and "unat va + n * 4096 \<le> 4294967296" and "n < 1048575"
    and "pa_inv L s" and "pt_ok L s root" and "j \<le> n"
  shows "\<exists>rc s'. map_4k_loop L root va pa (of_nat (n * 4096)) flags (of_nat (j * 4096)) s = Inr (rc, s') \<and>
    grown L root s s' \<and> (rc = -1 \<or> rc = 0 \<and> (\<forall>va'. pt_walk (pmem s') root va' =
      (if unat va + j * 4096 \<le> unat va' \<and> unat va' < unat va + n * 4096
       then leaf_at (pa + (page_floor va' - va)) flags va' else pt_walk (pmem s) root va')))"
  using assms(5-7)
proof (induction "n - j" arbitrary: j s)
  case 0
  then show ?case
    using grown_refl by (subst map_4k_loop.simps) auto
next
  case (Suc k)
  then have j: "j < n"
    by simp
  have un: "unat (of_nat (i * 4096) :: u32) = i * 4096" if "i \<le> n" for i
    using that assms(4) by (subst unat_of_nat) simp
  have step: "of_nat (j * 4096) + 4096 = (of_nat (Suc j * 4096) :: u32)"
    by simp
  have lt: "(of_nat (j * 4096) :: u32) < of_nat (n * 4096)" "\<not> (of_nat (Suc j * 4096) :: u32) < of_nat (j * 4096)"
    using j un [of j] un [of n] un [of "Suc j"] by (simp_all only: word_less_nat_alt) simp_all
  show ?case
  proof (rule map_page_grown [OF assms(1) Suc.prems(1,2), of "va + of_nat (j * 4096)" "pa + of_nat (j * 4096)" flags])
    fix s1 assume "vm_map_page L root (va + of_nat (j * 4096)) (pa + of_nat (j * 4096)) flags s = Inr (-1, s1)"
      and "grown L root s s1"
    then show ?thesis
      using lt by (subst map_4k_loop.simps) simp
  next
    fix s1 assume m: "vm_map_page L root (va + of_nat (j * 4096)) (pa + of_nat (j * 4096)) flags s = Inr (0, s1)"
      and g: "grown L root s s1"
      and r: "remapped root (va + of_nat (j * 4096)) (leaf_at (pa + of_nat (j * 4096)) flags) (pmem s) (pmem s1)"
    have i1: "pa_inv L s1" "pt_ok L s1 root" "k = n - Suc j" "Suc j \<le> n"
      using g Suc.hyps(2) j by (simp_all add: grown_def)
    obtain rc s2 where l: "map_4k_loop L root va pa (of_nat (n * 4096)) flags (of_nat (Suc j * 4096)) s1 = Inr (rc, s2)"
      and g2: "grown L root s1 s2"
      and w: "rc = -1 \<or> rc = 0 \<and> (\<forall>va'. pt_walk (pmem s2) root va' =
        (if unat va + Suc j * 4096 \<le> unat va' \<and> unat va' < unat va + n * 4096
         then leaf_at (pa + (page_floor va' - va)) flags va' else pt_walk (pmem s1) root va'))"
      using Suc.hyps(1) [OF i1(3,1,2,4)] by blast
    have "map_4k_loop L root va pa (of_nat (n * 4096)) flags (of_nat (j * 4096)) s = Inr (rc, s2)"
      unfolding map_4k_loop.simps [of L root va pa _ flags "of_nat (j * 4096)" s] using lt m l step by (simp add: add.commute)
    moreover note range_map_step [OF assms(2,3) j r]
    ultimately show ?thesis
      using grown_trans [OF g g2] w by blast
  qed
qed


section \<open>Segments and the stack\<close>

definition seg_map :: "u32 \<times> u32 \<times> u32 \<Rightarrow> (u32 \<Rightarrow> (u32 \<times> u32) option) \<Rightarrow> u32 \<Rightarrow> (u32 \<times> u32) option" where
  "seg_map = (\<lambda>(lo, hi, flags) f va. if lo \<le> va \<and> va < hi then Some (va, pte_perm_from_flags flags) else f va)"

definition seg_ok :: "u32 \<times> u32 \<times> u32 \<Rightarrow> bool" where
  "seg_ok = (\<lambda>(lo, hi, flags). is_page_aligned lo \<and> is_page_aligned hi \<and> 4096 \<le> lo \<and> flags AND 7 \<noteq> 0)"

lemma floor_or_offset: "page_floor a OR (a AND 4095) = a"
  unfolding page_floor_def by (rule bit_word_eqI) (auto simp: bit_simps)

lemma leaf_identity: "flags AND 7 \<noteq> 0 \<Longrightarrow> leaf_at (page_floor va) flags va = Some (va, pte_perm_from_flags flags)"
  by (simp add: leaf_at_def page_floor_aligned_id page_floor_pfn(2) floor_or_offset)

lemma map_range_4k_spec:
  assumes "ld_ok L" and "unat va mod 4096 = 0" and "unat va + n * 4096 \<le> 4294967296" and "n < 1048575"
    and "pa_inv L s" and "pt_ok L s root"
  shows "\<exists>rc s'. vm_map_range_4k L root va pa (of_nat (n * 4096)) flags s = Inr (rc, s') \<and>
    grown L root s s' \<and> (rc = -1 \<or> rc = 0 \<and> (\<forall>va'. pt_walk (pmem s') root va' =
      range_map va pa n flags (pt_walk (pmem s) root) va'))"
  using map_4k_loop_spec [OF assms, of 0 pa flags] by (simp add: vm_map_range_4k_def range_map_def)

lemma map_identity_spec:
  assumes "ld_ok L" and "seg_ok (lo, hi, flags)" and "pa_inv L s" and "pt_ok L s root"
  shows "\<exists>rc s'. vm_map_identity_segment L root lo hi flags s = Inr (rc, s') \<and>
    grown L root s s' \<and> (rc = -1 \<or> rc = 0 \<and> (\<forall>va'. pt_walk (pmem s') root va' =
      seg_map (lo, hi, flags) (pt_walk (pmem s) root) va'))"
proof (cases "hi \<le> lo")
  case True
  then have "\<not> (lo \<le> va \<and> va < hi)" for va
    by (meson leD order_le_less_trans order_less_imp_le order.trans)
  then show ?thesis
    using True grown_refl [OF assms(3,4)] by (auto simp: vm_map_identity_segment_def seg_map_def)
next
  case False
  have al: "unat lo mod 4096 = 0" "unat hi mod 4096 = 0" "4096 \<le> unat lo" "flags AND 7 \<noteq> 0"
    using assms(2) by (simp_all add: seg_ok_def is_page_aligned_iff word_le_nat_alt)
  define n where "n = pfn hi - pfn lo"
  have lt: "unat lo < unat hi"
    using False by (simp add: word_le_nat_alt)
  note pg = pfn_aligned [OF al(1)] pfn_aligned [OF al(2)]
  have nn: "unat lo + n * 4096 = unat hi"
    using lt pg by (simp add: n_def diff_mult_distrib)
  then have "unat (hi - lo) = n * 4096"
    using lt by (simp add: unat_sub word_le_nat_alt)
  then have len: "hi - lo = of_nat (n * 4096)"
    using unat_lt_2p32 [of "hi - lo"] by (simp only: word_unat_eq_iff unat_of_nat) simp
  have b: "unat lo + n * 4096 \<le> 4294967296" "n < 1048575"
    using nn unat_lt_2p32 [of hi] al(3) by linarith+
  have id: "range_map lo lo n flags f va = seg_map (lo, hi, flags) f va" for f va
    using nn leaf_identity [OF al(4), of va] by (simp add: range_map_def seg_map_def word_le_nat_alt word_less_nat_alt)
  show ?thesis
    using map_range_4k_spec [OF assms(1) al(1) b assms(3,4), of lo flags] False
    by (simp add: vm_map_identity_segment_def len id)
qed

lemma map_segments_spec:
  assumes "ld_ok L" and "list_all seg_ok segs" and "pa_inv L s" and "pt_ok L s root"
  shows "\<exists>rc s'. map_segments L root segs s = Inr (rc, s') \<and> grown L root s s' \<and>
    (rc = -1 \<or> rc = 0 \<and> (\<forall>va'. pt_walk (pmem s') root va' = fold seg_map segs (pt_walk (pmem s) root) va'))"
  using assms(2-4)
proof (induction segs arbitrary: s)
  case Nil
  then show ?case
    using grown_refl by auto
next
  case (Cons seg segs)
  obtain lo hi flags where seg: "seg = (lo, hi, flags)"
    by (cases seg)
  have ok: "seg_ok (lo, hi, flags)" "list_all seg_ok segs"
    using Cons.prems(1) seg by simp_all
  obtain rc s1 where m: "vm_map_identity_segment L root lo hi flags s = Inr (rc, s1)" "grown L root s s1"
    and w: "rc = -1 \<or> rc = 0 \<and> (\<forall>va'. pt_walk (pmem s1) root va' = seg_map seg (pt_walk (pmem s) root) va')"
    using map_identity_spec [OF assms(1) ok(1) Cons.prems(2,3)] seg by blast
  show ?case
  proof (cases "rc = -1")
    case True
    then show ?thesis
      using m seg by auto
  next
    case False
    have g: "pa_inv L s1" "pt_ok L s1 root"
      using m(2) by (simp_all add: grown_def)
    obtain rc2 s2 where m2: "map_segments L root segs s1 = Inr (rc2, s2)" "grown L root s1 s2"
      and w2: "rc2 = -1 \<or> rc2 = 0 \<and> (\<forall>va'. pt_walk (pmem s2) root va' = fold seg_map segs (pt_walk (pmem s1) root) va')"
      using Cons.IH [OF ok(2) g] by blast
    have "pt_walk (pmem s1) root = seg_map seg (pt_walk (pmem s) root)"
      using w False by auto
    then show ?thesis
      using m m2 w w2 False seg grown_trans [OF m(2) m2(2)] by auto
  qed
qed


section \<open>The kernel map and its copies\<close>

definition keeps :: "ld_layout \<Rightarrow> page_alloc \<Rightarrow> page_alloc \<Rightarrow> bool" where
  "keeps L s s' \<longleftrightarrow> (\<forall>q. 0 < refs L s q \<longrightarrow> refs L s' q = refs L s q) \<and>
     (\<forall>x. 0 < refs L s (pfn x) \<or> \<not> in_ram L (pfn x) \<longrightarrow> pmem s' x = pmem s x)"

definition vm_ready :: "ld_layout \<Rightarrow> vm \<Rightarrow> bool" where
  "vm_ready L v \<longleftrightarrow> pa_inv L (pa_state v) \<and> pt_ok L (pa_state v) (kernel_root_pt v) \<and>
     kernel_satp_value v = vm_make_satp (kernel_root_pt v) \<and>
     (\<forall>va. pt_walk (pmem (pa_state v)) (kernel_root_pt v) va = kernel_map va) \<and>
     (\<forall>i<1024. sub_table (pmem (pa_state v)) (kernel_root_pt v) i = None)"

lemma keeps_trans: "keeps L s s1 \<Longrightarrow> keeps L s1 s2 \<Longrightarrow> keeps L s s2"
  by (auto simp: keeps_def)

lemma keeps_grown:
  assumes "keeps L s s1" and "grown L root s1 s2" and "\<And>q. q \<in> pt_pages (pmem s1) root \<Longrightarrow> refs L s q = 0 \<and> in_ram L q"
  shows "keeps L s s2"
  unfolding keeps_def
proof (intro conjI allI impI)
  fix q assume "0 < refs L s q"
  then show "refs L s2 q = refs L s q"
    using assms(1,2) by (simp add: keeps_def grown_def)
next
  fix x assume x: "0 < refs L s (pfn x) \<or> \<not> in_ram L (pfn x)"
  then have "pfn x \<notin> pt_pages (pmem s1) root"
    using assms(3) by auto
  moreover have "0 < refs L s1 (pfn x) \<or> \<not> in_ram L (pfn x)"
    using x assms(1) by (auto simp: keeps_def)
  ultimately show "pmem s2 x = pmem s x"
    using assms(1,2) x by (auto simp: keeps_def grown_def)
qed

lemma vm_ready_keeps:
  assumes "vm_ready L v" and "keeps L (pa_state v) s'" and "pa_inv L s'"
  shows "vm_ready L (v\<lparr>pa_state := s'\<rparr>)"
proof -
  let ?root = "kernel_root_pt v"
  have r: "pt_ok L (pa_state v) ?root" "\<forall>i<1024. sub_table (pmem (pa_state v)) ?root i = None"
    using assms(1) by (simp_all add: vm_ready_def)
  have pp: "pt_pages (pmem (pa_state v)) ?root = {pfn ?root}"
    using r(2) by (auto simp: pt_pages_def)
  have ref: "0 < refs L (pa_state v) (pfn ?root)"
    using r(1) by (simp add: pt_ok_def)
  have same: "\<And>x. pfn x \<in> pt_pages (pmem (pa_state v)) ?root \<Longrightarrow> pmem s' x = pmem (pa_state v) x"
    using pp ref assms(2) by (simp add: keeps_def)
  note f = pt_frame [OF r(1) same]
  have al: "unat ?root mod 4096 = 0"
    using r(1) by (simp add: pt_ok_def managed_def)
  have rd: "pte_read (pmem s') ?root i = pte_read (pmem (pa_state v)) ?root i" if "i < 1024" for i
    using same pp by (intro pte_read_cong [OF al that]) simp
  have ok: "pt_ok L s' ?root"
    by (rule pt_ok_refs [OF f(3)]) (use assms(2) ref f(2) pp in \<open>auto simp: keeps_def\<close>)
  have "sub_table (pmem s') ?root i = None" if "i < 1024" for i
    using r(2) rd [OF that] that by (simp add: sub_table_def)
  then show ?thesis
    using ok assms(1,3) f(1) by (simp add: vm_ready_def)
qed

text \<open>A root page that is a copy of the kernel's translates as the kernel's does.\<close>

lemma copied_root:
  assumes "vm_ready L v" and "managed L p" and "pfn p \<noteq> pfn (kernel_root_pt v)"
    and "\<And>x. pfn x = pfn p \<Longrightarrow> m x = pmem (pa_state v) (kernel_root_pt v + (x - p))"
  shows "pt_walk m p va = kernel_map va" and "\<forall>i<1024. sub_table m p i = None"
    and "pmem s = m \<Longrightarrow> 0 < refs L s (pfn p) \<Longrightarrow> pt_ok L s p"
proof -
  let ?k = "kernel_root_pt v" and ?m = "pmem (pa_state v)"
  have k: "pt_ok L (pa_state v) ?k" "\<forall>i<1024. sub_table ?m ?k i = None" "pt_walk ?m ?k va = kernel_map va"
    using assms(1) by (simp_all add: vm_ready_def)
  have al: "unat p mod 4096 = 0"
    using assms(2) by (simp add: managed_def)
  have rd: "pte_read m p i = pte_read ?m ?k i" if "i < 1024" for i
  proof -
    have "m (p + 4 * i + j) = ?m (?k + 4 * i + j)" if "j < 4" for j
      using assms(4) [OF slot_pfn [OF al \<open>i < 1024\<close> that]] by (simp add: algebra_simps)
    from this [of 0] this [of 1] this [of 2] this [of 3] show ?thesis
      by (simp add: pte_read_def load32_def)
  qed
  then show sub: "\<forall>i<1024. sub_table m p i = None"
    using k(2) by (simp add: sub_table_def)
  have "sub_table ?m ?k (vpn1 va) = None"
    using k(2) vpn_less(1) by blast
  then have "\<not> (is_valid (pte_read ?m ?k (vpn1 va)) \<and> \<not> is_leaf (pte_read ?m ?k (vpn1 va)))"
    by (auto simp: sub_table_def Let_def split: if_splits)
  then show "pt_walk m p va = kernel_map va"
    using k(3) rd [OF vpn_less(1), of va] by (auto simp: pt_walk_def Let_def split: if_splits)
  show "pmem s = m \<Longrightarrow> 0 < refs L s (pfn p) \<Longrightarrow> pt_ok L s p"
    using assms(2) sub k(1) rd by (auto simp: pt_ok_def)
qed

definition user_map :: "ld_layout \<Rightarrow> u32 \<Rightarrow> u32 \<Rightarrow> nat \<Rightarrow> u32 \<Rightarrow> (u32 \<times> u32) option" where
  "user_map L stk paddr n =
     range_map stk paddr n (VM_FLG_R OR VM_FLG_W OR VM_FLG_U) (fold seg_map (user_segments L) kernel_map)"

lemma user_segments_ok: "ld_ok L \<Longrightarrow> list_all seg_ok (user_segments L)"
proof -
  assume "ld_ok L"
  then have s: "list_all is_page_aligned (ld_symbols L)" "\<And>a. a \<in> set (ld_symbols L) \<Longrightarrow> 4096 \<le> a"
  proof -
    have "sorted (ld_symbols L)" "0x80200000 \<le> user_text_start L"
      using \<open>ld_ok L\<close> by (simp_all add: ld_ok_def)
    then have "0x80200000 \<le> a" if "a \<in> set (ld_symbols L)" for a
      using that by (auto simp: ld_symbols_def)
    moreover have "(4096 :: u32) \<le> 0x80200000"
      by simp
    ultimately show "\<And>a. a \<in> set (ld_symbols L) \<Longrightarrow> 4096 \<le> a"
      by (meson order.trans)
    show "list_all is_page_aligned (ld_symbols L)"
      using \<open>ld_ok L\<close> by (simp add: ld_ok_def)
  qed
  have "page_floor a = a" "page_ceil a = a" if "is_page_aligned a" for a
    using that page_floor_aligned_id page_ceil_id by (simp_all add: is_page_aligned_iff)
  then show ?thesis
    using s by (auto simp: user_segments_def seg_ok_def ld_symbols_def)
qed


section \<open>Building an address space\<close>

lemma build_user_satp_spec:
  assumes "ld_ok L" and "vm_ready L v" and "unat stk mod 4096 = 0"
    and "unat stk + unat n * 4096 \<le> 4294967296" and "unat n < 1048575"
  obtains (failed) v' where "vm_build_user_satp L stk paddr n v = Inr (0, v')" and "vm_ready L v'"
      and "keeps L (pa_state v) (pa_state v')" and "kernel_root_pt v' = kernel_root_pt v"
    | (built) root v' where "vm_build_user_satp L stk paddr n v = Inr (vm_make_satp root, v')" and "vm_ready L v'"
      and "keeps L (pa_state v) (pa_state v')" and "kernel_root_pt v' = kernel_root_pt v"
      and "pt_ok L (pa_state v') root"
      and "\<And>q. q \<in> pt_pages (pmem (pa_state v')) root \<Longrightarrow> refs L (pa_state v) q = 0"
      and "\<And>va. pt_walk (pmem (pa_state v')) root va = user_map L stk paddr (unat n) va"
proof -
  let ?s = "pa_state v" and ?k = "kernel_root_pt v" and ?fl = "VM_FLG_R OR VM_FLG_W OR VM_FLG_U"
  have inv: "pa_inv L ?s" and kok: "pt_ok L ?s ?k"
    using assms(2) by (simp_all add: vm_ready_def)
  obtain p s1 where a: "alloc_pages_try L 1 ?s = Inr (p, s1)" "pa_inv L s1"
    using alloc_one_facts(1) [OF assms(1) inv] by blast
  show ?thesis
  proof (cases "p = 0")
    case True
    then have "keeps L ?s s1"
      using alloc_one_facts(2) [OF assms(1) inv, of s1] a(1) by (simp add: keeps_def)
    then show ?thesis
      using failed [of "v\<lparr>pa_state := s1\<rparr>"] a True vm_ready_keeps [OF assms(2)] by (simp add: vm_build_user_satp_def)
  next
    case nz: False
    note p = alloc_one_facts(3) [OF assms(1) inv a(1) nz]
    have al: "unat p mod 4096 = 0" "unat ?k mod 4096 = 0"
      using p kok by (simp_all add: pt_ok_def managed_def)
    have ne: "p \<noteq> ?k" "pfn p \<noteq> pfn ?k"
      using p kok aligned_pfn_eq [OF al] by (auto simp: pt_ok_def)
    have ram: "in_ram L (pfn p)"
      using p by (simp add: managed_def in_ram_def)
    define s2 where "s2 = s1\<lparr>pmem := memcpy p ?k PAGE_SIZE (mem_fill p 0 PAGE_SIZE (pmem s1))\<rparr>"
    have m2: "pmem s2 x = (if pfn x = pfn p then pmem ?s (?k + (x - p)) else pmem ?s x)" for x
      using page_copy [OF al ne(1)] p mem_fill_page [OF al(1)] offset_in_page [OF al(2)] page_diff [OF al(1), of x] ne(2)
      by (auto simp: s2_def)
    have i2: "pa_inv L s2" "refs L s2 = (refs L ?s)(pfn p := 1)"
      using a(2) p by (simp_all add: s2_def)
    have "\<And>x. pfn x = pfn p \<Longrightarrow> pmem s2 x = pmem ?s (?k + (x - p))"
      using m2 by simp
    note c = copied_root [OF assms(2) _ ne(2) this]
    have pt2: "pt_ok L s2 p" and w2: "pt_walk (pmem s2) p = kernel_map"
      using c(1,3) p i2(2) by auto
    have pp2: "pt_pages (pmem s2) p = {pfn p}"
      using c(2) p by (auto simp: pt_pages_def)
    have k2: "keeps L ?s s2"
      using m2 i2(2) p ram by (auto simp: keeps_def)
    have fresh: "refs L ?s q = 0 \<and> in_ram L q" if "q \<in> pt_pages (pmem s2) p" for q
      using that pp2 p ram by simp
    obtain rc s3 where m3: "map_segments L p (user_segments L) s2 = Inr (rc, s3)" and g3: "grown L p s2 s3"
      and w3: "rc = -1 \<or> rc = 0 \<and> (\<forall>va'. pt_walk (pmem s3) p va' = fold seg_map (user_segments L) (pt_walk (pmem s2) p) va')"
      using map_segments_spec [OF assms(1) user_segments_ok [OF assms(1)] i2(1) pt2] by blast
    have i3: "pa_inv L s3" "pt_ok L s3 p"
      using g3 by (simp_all add: grown_def)
    define r4 where "r4 = (if rc < 0 then Inr (rc, s3)
      else if 0 < n then vm_map_range_4k L p stk paddr (n * PAGE_SIZE) ?fl s3 else Inr (0, s3))"
    have "\<exists>rc4 s4. r4 = Inr (rc4, s4) \<and> grown L p s2 s4 \<and>
      (rc4 = -1 \<or> rc4 = 0 \<and> (\<forall>va. pt_walk (pmem s4) p va = user_map L stk paddr (unat n) va))"
    proof (cases "rc = -1 \<or> n = 0")
      case True
      then show ?thesis
        using g3 w3 w2 by (auto simp: r4_def user_map_def range_map_def)
    next
      case False
      have len: "n * PAGE_SIZE = of_nat (unat n * 4096)"
        by simp
      obtain rc4 s4 where "vm_map_range_4k L p stk paddr (n * PAGE_SIZE) ?fl s3 = Inr (rc4, s4)" "grown L p s3 s4"
        "rc4 = -1 \<or> rc4 = 0 \<and> (\<forall>va'. pt_walk (pmem s4) p va' = range_map stk paddr (unat n) ?fl (pt_walk (pmem s3) p) va')"
        using map_range_4k_spec [OF assms(1,3,4,5) i3, of paddr ?fl] unfolding len by blast
      moreover have "pt_walk (pmem s3) p = fold seg_map (user_segments L) kernel_map"
        using w3 w2 False by auto
      ultimately show ?thesis
        using False w3 grown_trans [OF g3] by (auto simp: r4_def user_map_def word_neq_0_conv)
    qed
    then obtain rc4 s4 where m4: "r4 = Inr (rc4, s4)" and g4: "grown L p s2 s4"
      and w4: "rc4 = -1 \<or> rc4 = 0 \<and> (\<forall>va. pt_walk (pmem s4) p va = user_map L stk paddr (unat n) va)"
      by blast
    have run: "vm_build_user_satp L stk paddr n v =
      (if rc4 < 0 then kbind (free_pages L p 1 s4) (\<lambda>s. Inr (0, v\<lparr>pa_state := s\<rparr>))
       else Inr (vm_make_satp p, v\<lparr>pa_state := s4\<rparr>))"
      using a(1) nz m3 m4 by (simp add: vm_build_user_satp_def Let_def s2_def [symmetric] r4_def)
    have k4: "keeps L ?s s4"
      by (rule keeps_grown [OF k2 g4]) (use fresh in blast)
    have i4: "pa_inv L s4" "pt_ok L s4 p"
      using g4 by (simp_all add: grown_def)
    show ?thesis
    proof (cases "rc4 = -1")
      case True
      have "0 < refs L s4 (pfn p)"
        using i4(2) by (simp add: pt_ok_def)
      then obtain s5 where f: "free_pages L p 1 s4 = Inr s5" "pa_inv L s5" "dropped L {pfn p} s4 s5"
        using free_one_page [OF assms(1) i4(1), of p] p by auto
      have "keeps L ?s s5"
        using k4 f(3) dropped_other [OF f(3)] p unfolding keeps_def
        by (metis dropped_def less_irrefl singletonD)
      then show ?thesis
        using failed [of "v\<lparr>pa_state := s5\<rparr>"] run True f vm_ready_keeps [OF assms(2)] by simp
    next
      case False
      have "refs L ?s q = 0" if "q \<in> pt_pages (pmem s4) p" for q
      proof (rule ccontr)
        assume q: "refs L ?s q \<noteq> 0"
        then have "q \<notin> pt_pages (pmem s2) p" "0 < refs L s2 q"
          using fresh k2 by (auto simp: keeps_def)
        then show False
          using g4 that by (simp add: grown_def)
      qed
      then show ?thesis
        using built [of p "v\<lparr>pa_state := s4\<rparr>"] run False w4 k4 i4 vm_ready_keeps [OF assms(2) k4] by auto
    qed
  qed
qed


lemma make_satp_nonzero: "vm_make_satp r \<noteq> 0"
proof
  assume "vm_make_satp r = 0"
  then have "bit (vm_make_satp r) 31 = bit (0 :: u32) 31"
    by simp
  then show False
    by (simp add: vm_make_satp_def bit_simps)
qed

text \<open>The user pages of an address space are the user sections and the stack, nothing else.\<close>

definition user_page :: "ld_layout \<Rightarrow> u32 \<Rightarrow> u32 \<Rightarrow> nat \<Rightarrow> u32 \<Rightarrow> u32 \<Rightarrow> u32 \<Rightarrow> bool" where
  "user_page L stk paddr n va pa prot \<longleftrightarrow>
     (if unat stk \<le> unat va \<and> unat va < unat stk + n * 4096
      then pa = (page_floor (paddr + (page_floor va - stk)) OR (va AND 0xfff)) \<and> prot = (PTE_R OR PTE_W OR PTE_U)
      else pa = va \<and>
        (if user_data_start L \<le> va \<and> va < user_data_end L \<or> user_bss_start L \<le> va \<and> va < user_bss_end L
         then prot = (PTE_R OR PTE_W OR PTE_U)
         else if user_text_start L \<le> va \<and> va < user_text_end L then prot = (PTE_R OR PTE_X OR PTE_U)
         else rodata_start L \<le> va \<and> va < rodata_end L \<and> prot = (PTE_R OR PTE_U)))"

lemma user_perms: "pte_perm_from_flags 9 = 18" "pte_perm_from_flags 13 = 26" "pte_perm_from_flags 11 = 22"
  by (simp_all add: pte_perm_from_flags_def Let_def)

lemma kernel_map_no_user: "kernel_map va = Some (pa, prot) \<Longrightarrow> prot AND PTE_U = 0"
  by (auto simp: kernel_map_def split: if_splits)

lemma ld_aligned:
  assumes "ld_ok L" and "a \<in> set (ld_symbols L)"
  shows "page_floor a = a" and "page_ceil a = a"
proof -
  have "is_page_aligned a"
    using assms by (simp add: ld_ok_def list_all_iff)
  then show "page_floor a = a" "page_ceil a = a"
    using page_floor_aligned_id page_ceil_id by (simp_all add: is_page_aligned_iff)
qed

lemma fold_user_segments:
  assumes "ld_ok L"
  shows "fold seg_map (user_segments L) f va =
    (if user_data_start L \<le> va \<and> va < user_data_end L \<or> user_bss_start L \<le> va \<and> va < user_bss_end L then Some (va, 22)
     else if user_text_start L \<le> va \<and> va < user_text_end L then Some (va, 26)
     else if rodata_start L \<le> va \<and> va < rodata_end L then Some (va, 18) else f va)"
proof -
  have sy: "rodata_end L \<in> set (ld_symbols L)" "rodata_start L \<in> set (ld_symbols L)"
    "user_text_start L \<in> set (ld_symbols L)" "user_text_end L \<in> set (ld_symbols L)"
    "user_rodata_start L \<in> set (ld_symbols L)" "user_rodata_end L \<in> set (ld_symbols L)"
    "user_data_start L \<in> set (ld_symbols L)" "user_data_end L \<in> set (ld_symbols L)"
    "user_bss_start L \<in> set (ld_symbols L)" "user_bss_end L \<in> set (ld_symbols L)"
    by (simp_all add: ld_symbols_def)
  note al = sy [THEN ld_aligned(1) [OF assms]] sy [THEN ld_aligned(2) [OF assms]]
  have o: "user_text_end L \<le> rodata_start L" "rodata_start L \<le> user_rodata_start L" "user_rodata_end L = rodata_end L"
    using assms by (simp_all add: ld_ok_def ld_symbols_def)
  have "\<not> (user_text_start L \<le> va \<and> va < user_text_end L)" if "rodata_start L \<le> va"
    using o(1) that by (meson leD order_less_le_trans)
  moreover have "rodata_start L \<le> va" if "user_rodata_start L \<le> va"
    using o(2) that by (rule order.trans)
  ultimately show ?thesis
    by (auto simp: user_segments_def seg_map_def al o(3) user_perms)
qed

lemma user_map_user:
  assumes "ld_ok L" and "user_map L stk paddr n va = Some (pa, prot)" and "prot AND PTE_U \<noteq> 0"
  shows "user_page L stk paddr n va pa prot"
proof (cases "unat stk \<le> unat va \<and> unat va < unat stk + n * 4096")
  case True
  then show ?thesis
    using assms(2) by (simp add: user_map_def range_map_def user_page_def leaf_at_def user_perms)
next
  case False
  then have "fold seg_map (user_segments L) kernel_map va = Some (pa, prot)"
    using assms(2) by (auto simp: user_map_def range_map_def)
  then show ?thesis
    using False assms(3) kernel_map_no_user [of va pa prot]
    unfolding fold_user_segments [OF assms(1)] user_page_def by (auto split: if_splits)
qed

section \<open>Properties\<close>



section \<open>Witnesses\<close>

lemma ready_example:
  obtains v where "vm_ready ld_example v"
proof -
  define v h where "v = \<lparr>pa_state = pa_boot (\<lambda>_. 0), kernel_root_pt = 0, kernel_satp_value = 0\<rparr>"
    and "h = hart_boot"
  have inv: "pa_inv ld_example (pa_state v)"
    by (simp add: v_def)
  show ?thesis
  proof (rule vm_init_spec [OF ld_ok_example inv, of h])
    fix v' assume "no_room ld_example 1 (pa_state v)"
    then show ?thesis
      using boot_room by (simp add: v_def)
  qed (use that in \<open>auto simp: vm_ready_def\<close>)
qed




end
