(* ===== verification/Sched_Spec.thy ===== *)
theory Sched_Spec
  imports Sched
begin

text \<open>
  The scheduler chooses a runnable process with the largest budget, idles only when there is
  none, and gives every runnable process the hart after a bounded number of yields. Wake-ups
  make every waiting process runnable.
\<close>

section \<open>Choosing\<close>

definition best :: "process list \<Rightarrow> nat set \<Rightarrow> nat option \<Rightarrow> bool" where
  "best ps S r \<longleftrightarrow>
     (r = None \<longrightarrow> (\<forall>m\<in>S. \<not> is_eligible_for_pick (ps ! m))) \<and>
     (\<forall>n. r = Some n \<longrightarrow> n \<in> S \<and> is_eligible_for_pick (ps ! n) \<and>
        (\<forall>m\<in>S. is_eligible_for_pick (ps ! m) \<longrightarrow> budget (ps ! m) \<le> budget (ps ! n)))"

definition best_budget_of :: "process list \<Rightarrow> nat option \<Rightarrow> int" where
  "best_budget_of ps r = (case r of None \<Rightarrow> -1 | Some n \<Rightarrow> budget (ps ! n))"

lemma pick_loop_best:
  "best ps S bi \<Longrightarrow> best ps (S \<union> set ids) (pick_loop ps ids bi (best_budget_of ps bi))"
proof (induction ids arbitrary: S bi)
  case Nil
  then show ?case by simp
next
  case (Cons i ids)
  have un: "S \<union> set (i # ids) = insert i S \<union> set ids"
    by simp
  show ?case
  proof (cases "is_eligible_for_pick (ps ! i) \<and> best_budget_of ps bi < budget (ps ! i)")
    case True
    have "best ps (insert i S) (Some i)"
    proof (cases bi)
      case None
      then show ?thesis
        using Cons.prems True by (simp add: best_def)
    next
      case (Some b)
      then have "\<forall>m\<in>S. is_eligible_for_pick (ps ! m) \<longrightarrow> budget (ps ! m) \<le> budget (ps ! b)"
        using Cons.prems by (simp add: best_def)
      then show ?thesis
        using True Some by (fastforce simp: best_def best_budget_of_def)
    qed
    from Cons.IH [OF this] show ?thesis
      unfolding un using True by (simp add: best_budget_of_def)
  next
    case False
    have "best ps (insert i S) bi"
    proof (cases bi)
      case None
      then show ?thesis
        using Cons.prems False by (auto simp: best_def best_budget_of_def is_eligible_for_pick_def)
    next
      case (Some b)
      then show ?thesis
        using Cons.prems False by (simp add: best_def best_budget_of_def not_less)
    qed
    from Cons.IH [OF this] show ?thesis
      unfolding un using False by auto
  qed
qed

lemma set_round_robin:
  assumes "c < 8"
  shows "set (round_robin c) = {..<8}"
proof
  show "set (round_robin c) \<subseteq> {..<8}"
    by (auto simp: round_robin_def)
  show "{..<8} \<subseteq> set (round_robin c)"
  proof
    fix j :: nat assume "j \<in> {..<8}"
    then have j: "j < 8"
      by simp
    define i where "i = (if c < j then j - c else j + 8 - c)"
    have "1 \<le> i" "i < Suc 8" "(c + i) mod 8 = j"
      using assms j by (auto simp: i_def)
    then show "j \<in> set (round_robin c)"
      unfolding round_robin_def set_map set_upt by (intro image_eqI [of _ _ i]) auto
  qed
qed

lemma pick_next_spec:
  assumes "c < 8"
  shows "best ps {..<8} (pick_next_runnable_index ps c)"
proof -
  have "best ps {} None"
    by (simp add: best_def)
  from pick_loop_best [OF this, of "round_robin c"] show ?thesis
    using set_round_robin [OF assms] by (simp add: pick_next_runnable_index_def best_budget_of_def)
qed

section \<open>Refilling and charging\<close>

lemma refill_one_facts [simp]:
  "is_schedulable (refill_one p) = is_schedulable p"
  "is_schedulable p \<Longrightarrow> is_eligible_for_pick (refill_one p)"
  "is_schedulable p \<Longrightarrow> budget (refill_one p) = max 1 (priority p)"
  "pid (refill_one p) = pid p" "state (refill_one p) = state p"
  by (auto simp: refill_one_def is_schedulable_def is_eligible_for_pick_def Let_def)

lemma length_charge [simp]: "length (charge_current c ps) = length ps" "length (refill_budgets ps) = length ps"
  by (simp_all add: charge_current_def refill_budgets_def)

lemma charge_schedulable [simp]:
  "i < length ps \<Longrightarrow> is_schedulable (charge_current c ps ! i) = is_schedulable (ps ! i)"
  "i < length ps \<Longrightarrow> is_schedulable (refill_budgets ps ! i) = is_schedulable (ps ! i)"
proof -
  show "i < length ps \<Longrightarrow> is_schedulable (charge_current c ps ! i) = is_schedulable (ps ! i)"
    by (cases "i = c") (simp_all add: charge_current_def is_schedulable_def)
  show "i < length ps \<Longrightarrow> is_schedulable (refill_budgets ps ! i) = is_schedulable (ps ! i)"
    by (simp add: refill_budgets_def)
qed

lemma charge_other: "i \<noteq> c \<Longrightarrow> charge_current c ps ! i = ps ! i"
  by (simp add: charge_current_def)

lemma refill_eligible:
  "i < length ps \<Longrightarrow> is_eligible_for_pick (refill_budgets ps ! i) = is_schedulable (ps ! i)"
proof (cases "is_schedulable (ps ! i)")
  case False
  then show "i < length ps \<Longrightarrow> ?thesis"
    by (simp add: refill_budgets_def refill_one_def is_eligible_for_pick_def)
qed (simp add: refill_budgets_def)

lemma yield_choose_spec:
  assumes "length ps = 8" and "c < 8" and "yield_choose c ps = (r, ps')"
  shows "length ps' = 8" and "\<And>i. i < 8 \<Longrightarrow> is_schedulable (ps' ! i) = is_schedulable (ps ! i)"
    and "best ps' {..<8} r" and "r = None \<longleftrightarrow> (\<forall>i<8. \<not> is_schedulable (ps ! i))"
proof -
  let ?p1 = "charge_current c ps" and ?p2 = "refill_budgets (charge_current c ps)"
  have all: "length ps' = 8 \<and> (\<forall>i<8. is_schedulable (ps' ! i) = is_schedulable (ps ! i)) \<and>
    best ps' {..<8} r \<and> (r = None \<longleftrightarrow> (\<forall>i<8. \<not> is_schedulable (ps ! i)))"
  proof (cases "pick_next_runnable_index ?p1 c")
    case (Some m)
    have "yield_choose c ps = (Some m, ?p1)"
      by (simp add: yield_choose_def Some Let_def)
    then have eq: "r = Some m" "ps' = ?p1"
      using assms(3) by simp_all
    have b: "best ?p1 {..<8} (Some m)"
      using pick_next_spec [OF assms(2), of ?p1] unfolding Some .
    then have "m < 8" "is_schedulable (?p1 ! m)"
      by (simp_all add: best_def is_eligible_for_pick_def)
    then show ?thesis
      unfolding eq using b assms(1) by auto
  next
    case None
    have "yield_choose c ps = (pick_next_runnable_index ?p2 c, ?p2)"
      by (simp add: yield_choose_def None Let_def)
    then have eq: "r = pick_next_runnable_index ?p2 c" "ps' = ?p2"
      using assms(3) by simp_all
    have b: "best ?p2 {..<8} r"
      using pick_next_spec [OF assms(2), of ?p2] unfolding eq(1) .
    moreover have "r = None \<longleftrightarrow> (\<forall>i<8. \<not> is_schedulable (ps ! i))"
      using b assms(1) refill_eligible [of _ ?p1] by (cases r) (auto simp: best_def)
    ultimately show ?thesis
      unfolding eq(2) using assms(1) by simp
  qed
  show "length ps' = 8" and "\<And>i. i < 8 \<Longrightarrow> is_schedulable (ps' ! i) = is_schedulable (ps ! i)"
    and "best ps' {..<8} r" and "r = None \<longleftrightarrow> (\<forall>i<8. \<not> is_schedulable (ps ! i))"
    using all by blast+
qed


section \<open>Every runnable process gets the hart\<close>

fun yields :: "nat \<Rightarrow> ktab \<Rightarrow> hart \<Rightarrow> (ktab \<times> hart) option" where
  "yields 0 k h = Some (k, h)"
| "yields (Suc n) k h = (case yield k h of None \<Rightarrow> None | Some (k, h) \<Rightarrow> yields n k h)"

definition tab_ok :: "ktab \<Rightarrow> nat \<Rightarrow> bool" where
  "tab_ok k c \<longleftrightarrow> length (procs k) = 8 \<and> current_proc k = Some c \<and> c < 8"

lemma yield_step:
  assumes "tab_ok k c" and "i < 8" and "is_schedulable (procs k ! i)"
  obtains n k' h' where "yield k h = Some (k', h')" and "yield_choose c (procs k) = (Some n, procs k')" and "tab_ok k' n"
    and "idle_proc k' = idle_proc k"
proof -
  have ok: "length (procs k) = 8" "current_proc k = Some c" "c < 8"
    using assms(1) by (simp_all add: tab_ok_def)
  obtain r ps' where y: "yield_choose c (procs k) = (r, ps')"
    by (cases "yield_choose c (procs k)")
  note f = yield_choose_spec [OF ok(1,3) y]
  obtain n where r: "r = Some n"
    using f(4) assms(2,3) by (cases r) auto
  have n: "n < 8"
    using f(3) by (simp add: r best_def)
  show ?thesis
  proof (cases "n = c")
    case True
    then show ?thesis
      using that [of "k\<lparr>procs := ps'\<rparr>" h n] y r f(1) ok n by (simp add: yield_def tab_ok_def)
  next
    case False
    then show ?thesis
      using that [of "k\<lparr>procs := ps', current_proc := Some n\<rparr>" "vm_activate (p_satp (ps' ! n)) h" n] y r f(1) ok n
      by (simp add: yield_def tab_ok_def)
  qed
qed

definition share :: "process \<Rightarrow> nat" where
  "share q = (if is_eligible_for_pick q then nat (budget q) else 0)"

definition refill_share :: "process \<Rightarrow> nat" where
  "refill_share q = (if is_schedulable q then nat (max 1 (priority q)) else 0)"

text \<open>The rounds the other processes can still take before the budgets are refilled, and after that.\<close>

definition rounds_left :: "nat \<Rightarrow> process list \<Rightarrow> nat" where
  "rounds_left p ps = (\<Sum>i\<in>{..<8} - {p}. share (ps ! i))"

definition rounds_refilled :: "nat \<Rightarrow> process list \<Rightarrow> nat" where
  "rounds_refilled p ps = (\<Sum>i\<in>{..<8} - {p}. refill_share (ps ! i))"

lemma share_charge:
  assumes "c < length ps"
  shows "share (charge_current c ps ! c) = share (ps ! c) - 1"
proof (cases "is_eligible_for_pick (ps ! c)")
  case True
  then have b: "0 < budget (ps ! c)" "is_schedulable (ps ! c)"
    by (simp_all add: is_eligible_for_pick_def)
  have "charge_current c ps ! c = (ps ! c)\<lparr>budget := budget (ps ! c) - 1\<rparr>"
    using True assms by (simp add: charge_current_def)
  then show ?thesis
    using True b by (cases "budget (ps ! c) = 1") (auto simp: share_def is_eligible_for_pick_def is_schedulable_def nat_diff_distrib)
qed (simp add: charge_current_def share_def)

lemma rounds_left_charge:
  assumes "c < 8" and "length ps = 8" and "c \<noteq> p"
  shows "rounds_left p (charge_current c ps) = rounds_left p ps - share (ps ! c) + (share (ps ! c) - 1)"
proof -
  let ?S = "{..<8} - {p}"
  have "rounds_left p (charge_current c ps) = share (charge_current c ps ! c) + (\<Sum>i\<in>?S - {c}. share (charge_current c ps ! i))"
    unfolding rounds_left_def using assms by (intro sum.remove) auto
  also have "(\<Sum>i\<in>?S - {c}. share (charge_current c ps ! i)) = (\<Sum>i\<in>?S - {c}. share (ps ! i))"
    by (intro sum.cong) (auto simp: charge_other)
  finally have "rounds_left p (charge_current c ps) = share (ps ! c) - 1 + (\<Sum>i\<in>?S - {c}. share (ps ! i))"
    using assms by (simp add: share_charge)
  moreover have "rounds_left p ps = share (ps ! c) + (\<Sum>i\<in>?S - {c}. share (ps ! i))"
    unfolding rounds_left_def using assms by (intro sum.remove) auto
  ultimately show ?thesis
    by simp
qed

lemma rounds_left_charge_le: "length ps = 8 \<Longrightarrow> c < 8 \<Longrightarrow> rounds_left p (charge_current c ps) \<le> rounds_left p ps"
  unfolding rounds_left_def
proof (intro sum_mono)
  fix i assume "length ps = 8" "c < 8" "i \<in> {..<8} - {p}"
  then show "share (charge_current c ps ! i) \<le> share (ps ! i)"
    by (cases "i = c") (simp_all add: share_charge charge_other)
qed

lemma refill_share_stable:
  assumes "i < length ps"
  shows "refill_share (charge_current c ps ! i) = refill_share (ps ! i)"
    and "refill_share (refill_budgets ps ! i) = refill_share (ps ! i)"
    and "share (refill_budgets ps ! i) = refill_share (ps ! i)"
proof -
  show "refill_share (charge_current c ps ! i) = refill_share (ps ! i)"
    using assms by (cases "i = c") (simp_all add: charge_current_def refill_share_def is_schedulable_def)
  show "refill_share (refill_budgets ps ! i) = refill_share (ps ! i)"
    using assms by (simp add: refill_budgets_def refill_share_def) (simp add: refill_one_def Let_def max_def)
  show "share (refill_budgets ps ! i) = refill_share (ps ! i)"
    using assms refill_eligible [OF assms] by (simp add: share_def refill_share_def refill_budgets_def)
qed

lemma rounds_refilled_stable:
  assumes "length ps = 8"
  shows "rounds_refilled p (charge_current c ps) = rounds_refilled p ps"
    and "rounds_refilled p (refill_budgets ps) = rounds_refilled p ps"
    and "rounds_left p (refill_budgets ps) = rounds_refilled p ps"
  using assms by (auto simp: rounds_refilled_def rounds_left_def refill_share_stable intro!: sum.cong)


text \<open>An upper bound for the yields that pass before process \<open>p\<close> is chosen.\<close>

definition todo :: "nat \<Rightarrow> nat \<Rightarrow> process list \<Rightarrow> nat" where
  "todo p c ps =
     rounds_left p (charge_current c ps) + (if is_eligible_for_pick (ps ! p) then 0 else rounds_refilled p ps)"

lemma share_le_rounds_left: "n < 8 \<Longrightarrow> n \<noteq> p \<Longrightarrow> share (ps ! n) \<le> rounds_left p ps"
  unfolding rounds_left_def by (rule member_le_sum) auto

lemma rounds_left_charge_less:
  assumes "length ps = 8" and "n < 8" and "n \<noteq> p" and "is_eligible_for_pick (ps ! n)"
  shows "rounds_left p (charge_current n ps) < rounds_left p ps"
proof -
  have "0 < share (ps ! n)"
    using assms(4) by (simp add: share_def is_eligible_for_pick_def)
  then show ?thesis
    using rounds_left_charge [OF assms(2,1,3)] share_le_rounds_left [OF assms(2,3), of ps] by simp
qed

lemma todo_decreases:
  assumes ps: "length ps = 8" and c: "c < 8" "c \<noteq> p" and p: "p < 8" "is_schedulable (ps ! p)"
    and y: "yield_choose c ps = (Some n, ps')" and n: "n \<noteq> p"
  shows "todo p n ps' < todo p c ps"
proof -
  let ?p1 = "charge_current c ps"
  have "best ps' {..<8} (Some n)"
    by (rule yield_choose_spec(3) [OF ps c(1) y])
  then have n8: "n < 8" and en: "is_eligible_for_pick (ps' ! n)"
    by (simp_all add: best_def)
  show ?thesis
  proof (cases "pick_next_runnable_index ?p1 c")
    case (Some m)
    then have "ps' = ?p1"
      using y by (simp add: yield_choose_def Let_def)
    then show ?thesis
      using rounds_left_charge_less [OF _ n8 n en] ps c
      by (auto simp: todo_def charge_other rounds_refilled_stable)
  next
    case None
    then have ps': "ps' = refill_budgets ?p1"
      using y by (simp add: yield_choose_def Let_def)
    have "\<not> is_eligible_for_pick (?p1 ! p)"
      using pick_next_spec [OF c(1), of ?p1] p(1) unfolding None by (simp add: best_def)
    then have "todo p c ps \<ge> rounds_refilled p ps"
      using c by (simp add: todo_def charge_other)
    moreover have "is_eligible_for_pick (ps' ! p)"
      unfolding ps' using ps p by (simp add: refill_eligible)
    moreover have "rounds_left p ps' = rounds_refilled p ps"
      unfolding ps' using ps by (simp add: rounds_refilled_stable)
    ultimately show ?thesis
      using rounds_left_charge_less [OF _ n8 n en] ps ps' by (simp add: todo_def)
  qed
qed

lemma yields_reach:
  assumes "tab_ok k c" and "p < 8" and "is_schedulable (procs k ! p)"
  shows "\<exists>m k' h'. m \<le> Suc (todo p c (procs k)) \<and> yields m k h = Some (k', h') \<and> current_proc k' = Some p"
  using assms
proof (induction "todo p c (procs k)" arbitrary: k c h rule: less_induct)
  case less
  show ?case
  proof (cases "c = p")
    case True
    then have "yields 0 k h = Some (k, h)" "current_proc k = Some p"
      using less.prems(1) by (simp_all add: tab_ok_def)
    then show ?thesis by blast
  next
    case cp: False
    obtain n k' h' where y: "yield k h = Some (k', h')" "yield_choose c (procs k) = (Some n, procs k')" "tab_ok k' n"
      using yield_step [OF less.prems] by metis
    have l: "length (procs k) = 8" "c < 8"
      using less.prems(1) by (simp_all add: tab_ok_def)
    show ?thesis
    proof (cases "n = p")
      case True
      then have "yields 1 k h = Some (k', h')" "current_proc k' = Some p"
        using y by (simp_all add: tab_ok_def)
      then show ?thesis by (intro exI [of _ 1]) auto
    next
      case False
      have d: "todo p n (procs k') < todo p c (procs k)"
        by (rule todo_decreases [OF l cp less.prems(2,3) y(2) False])
      have "is_schedulable (procs k' ! p)"
        using yield_choose_spec(2) [OF l y(2) less.prems(2)] less.prems(3) by simp
      from less.hyps [OF d y(3) less.prems(2) this]
      obtain m k'' h'' where "m \<le> Suc (todo p n (procs k'))" "yields m k' h' = Some (k'', h'')" "current_proc k'' = Some p"
        by blast
      then show ?thesis
        using d y(1) by (intro exI [of _ "Suc m"] exI [of _ k''] exI [of _ h'']) simp
    qed
  qed
qed

lemma todo_le: "length ps = 8 \<Longrightarrow> c < 8 \<Longrightarrow> todo p c ps \<le> rounds_left p ps + rounds_refilled p ps"
  using rounds_left_charge_le [of ps c p] by (simp add: todo_def)


section \<open>Waiting and waking\<close>

text \<open>
  A wait queue that is not locked has one slot for every process and lists each waiter once, so
  there is always room for another one.
\<close>

definition waitq_ok :: "waitq \<Rightarrow> bool" where
  "waitq_ok q \<longleftrightarrow>
     wq_lock q = 0 \<and> length (waiters q) = 8 \<and>
     (\<forall>i<8. \<forall>j<8. \<forall>p. waiters q ! i = Some p \<and> waiters q ! j = Some p \<longrightarrow> i = j) \<and>
     (\<forall>p. Some p \<in> set (waiters q) \<longrightarrow> p < 8)"

lemma waitq_has_room:
  assumes "waitq_ok q" and "p < 8" and "\<not> waitq_contains q p"
  shows "None \<in> set (waiters q)"
proof (rule ccontr)
  let ?w = "waiters q"
  assume none: "None \<notin> set ?w"
  have "distinct ?w"
    unfolding distinct_conv_nth using assms(1) none
    by (auto simp: waitq_ok_def) (metis nth_mem option.exhaust)
  then have "card (set ?w) = 8"
    using assms(1) by (simp add: distinct_card waitq_ok_def)
  moreover have "set ?w \<subseteq> Some ` ({..<8} - {p})"
  proof
    fix x assume x: "x \<in> set ?w"
    then obtain y where y: "x = Some y"
      using none by (metis option.exhaust)
    then show "x \<in> Some ` ({..<8} - {p})"
      using x assms(1,3) by (auto simp: waitq_ok_def waitq_contains_def)
  qed
  then have "card (set ?w) \<le> card (Some ` ({..<8} - {p}))"
    by (intro card_mono) auto
  ultimately show False
    using assms(2) by (simp add: card_image)
qed

lemma waitq_enter_ok:
  assumes ok: "waitq_ok q" and p: "p < 8"
  shows "waitq_ok (waitq_enter p q)"
    and "set (waiters (waitq_enter p q)) - {None} = insert (Some p) (set (waiters q) - {None})"
proof -
  have "waitq_ok (waitq_enter p q) \<and>
    set (waiters (waitq_enter p q)) - {None} = insert (Some p) (set (waiters q) - {None})"
  proof (cases "waitq_contains q p")
    case True
    then show ?thesis
      using ok by (auto simp: waitq_enter_def waitq_contains_def)
  next
    case False
    obtain i where i: "first_idx (\<lambda>w. w = None) (waiters q) = Some i"
      using waitq_has_room [OF ok p False] first_idx_None_iff [of "\<lambda>w. w = None" "waiters q"]
      by (cases "first_idx (\<lambda>w. w = None) (waiters q)") auto
    note i' = first_idx_SomeD [OF i]
    have l: "length (waiters q) = 8"
      using ok by (simp add: waitq_ok_def)
    have e: "waitq_enter p q = q\<lparr>waiters := (waiters q)[i := Some p]\<rparr>"
      by (simp add: waitq_enter_def False i)
    have np: "waiters q ! j \<noteq> Some p" if "j < 8" for j
      using False that l nth_mem [of j "waiters q"] by (metis waitq_contains_def)
    have sub: "set ((waiters q)[i := Some p]) \<subseteq> insert (Some p) (set (waiters q))"
      by (rule set_update_subset_insert)
    have old: "x \<in> set ((waiters q)[i := Some p])" if "x \<in> set (waiters q)" "x \<noteq> None" for x
      using that i' by (metis in_set_conv_nth length_list_update nth_list_update_neq)
    have once: "ia = j" if "ia < 8" "j < 8" "(waiters q)[i := Some p] ! ia = Some x" "(waiters q)[i := Some p] ! j = Some x" for ia j x
      using that ok np l by (cases "ia = i"; cases "j = i") (auto simp: waitq_ok_def)
    have "waitq_ok (waitq_enter p q)"
      unfolding waitq_ok_def e using ok sub p once by (auto simp: waitq_ok_def)
    moreover have "set (waiters (waitq_enter p q)) - {None} = insert (Some p) (set (waiters q) - {None})"
      unfolding e using sub old i'(1) set_update_memI [OF i'(1), of "Some p"] by auto
    ultimately show ?thesis ..
  qed
  then show "waitq_ok (waitq_enter p q)"
    and "set (waiters (waitq_enter p q)) - {None} = insert (Some p) (set (waiters q) - {None})"
    by simp_all
qed

text \<open>The states after every listed waiter was woken.\<close>

definition woken :: "nat set \<Rightarrow> process \<Rightarrow> nat \<Rightarrow> process" where
  "woken W p i = (if i \<in> W \<and> state p = PROC_BLOCKED then p\<lparr>state := PROC_RUNNABLE\<rparr> else p)"

lemma wake_one_facts:
  assumes "\<And>p. w = Some p \<Longrightarrow> p < length (procs k)"
  shows "length (procs (wake_one w k)) = length (procs k)"
    and "current_proc (wake_one w k) = current_proc k" "idle_proc (wake_one w k) = idle_proc k"
    and "i < length (procs k) \<Longrightarrow> procs (wake_one w k) ! i = woken {p. w = Some p} (procs k ! i) i"
  using assms by (auto simp: wake_one_def set_state_def woken_def nth_list_update split: option.splits)

lemma fold_wake_one:
  assumes "\<And>p. Some p \<in> set ws \<Longrightarrow> p < length (procs k)"
  shows "length (procs (fold wake_one ws k)) = length (procs k) \<and>
    current_proc (fold wake_one ws k) = current_proc k \<and> idle_proc (fold wake_one ws k) = idle_proc k \<and>
    (\<forall>i<length (procs k). procs (fold wake_one ws k) ! i = woken {p. Some p \<in> set ws} (procs k ! i) i)"
  using assms
proof (induction ws arbitrary: k)
  case Nil
  then show ?case by (simp add: woken_def)
next
  case (Cons w ws)
  have w: "\<And>p. w = Some p \<Longrightarrow> p < length (procs k)"
    using Cons.prems by auto
  note f = wake_one_facts [of w k, OF w]
  have "woken {p. Some p \<in> set ws} (woken {p. w = Some p} q i) i = woken {p. Some p \<in> set (w # ws)} q i" for q i
    by (auto simp: woken_def)
  then show ?case
    using Cons.IH [of "wake_one w k"] Cons.prems f by auto
qed

lemma waitq_wake_all_eq:
  assumes "waitq_ok q" and "length (procs k) = 8"
  shows "waitq_wake_all q k h = Inr (q\<lparr>waiters := replicate 8 None\<rparr>, fold wake_one (waiters q) k, h)"
proof -
  have w: "map (\<lambda>_. None) (waiters q) = replicate 8 None"
    using assms(1) by (simp add: waitq_ok_def map_replicate_const)
  have l: "wq_lock q = 0"
    using assms(1) by (simp add: waitq_ok_def)
  have "q\<lparr>waiters := replicate 8 None, wq_lock := 0\<rparr> = q\<lparr>waiters := replicate 8 None\<rparr>"
    using l by (cases q) simp
  then show ?thesis
    unfolding waitq_wake_all_def w by (simp add: l Let_def)
qed

lemma waitq_sleep_block_eq:
  assumes "waitq_ok q" and "current_proc k = Some c" and "idle_proc k \<noteq> Some c"
  shows "waitq_sleep_block q k h = Inr (waitq_enter c q, set_state c PROC_BLOCKED k, h)"
proof -
  have l: "wq_lock q = 0"
    using assms(1) by (simp add: waitq_ok_def)
  have "(waitq_enter c (q\<lparr>wq_lock := 1\<rparr>))\<lparr>wq_lock := 0\<rparr> = waitq_enter c q"
    using l by (cases q) (simp add: waitq_enter_def waitq_contains_def split: option.split)
  then show ?thesis
    using assms(2,3) by (auto simp: waitq_sleep_block_def l Let_def split: prod.splits)
qed

section \<open>Properties\<close>


text \<open>
  C8. No runnable process starves: if process \<open>p\<close> is schedulable, and no process changes its state
  meanwhile, then \<open>p\<close> is current after at most as many yields as the other processes have
  budget left, plus what a refill gives them, plus one.
\<close>

theorem yield_fair:
  assumes "tab_ok k c" and "p < 8" and "is_schedulable (procs k ! p)"
  shows "\<exists>m k' h'. m \<le> rounds_left p (procs k) + rounds_refilled p (procs k) + 1 \<and>
    yields m k h = Some (k', h') \<and> current_proc k' = Some p"
proof -
  obtain m k' h' where m: "m \<le> Suc (todo p c (procs k))" "yields m k h = Some (k', h')" "current_proc k' = Some p"
    using yields_reach [OF assms] by blast
  have "todo p c (procs k) \<le> rounds_left p (procs k) + rounds_refilled p (procs k)"
    using assms(1) by (intro todo_le) (simp_all add: tab_ok_def)
  then show ?thesis
    using m by (intro exI [of _ m]) auto
qed


section \<open>Witnesses\<close>

definition sample_tab :: ktab where
  "sample_tab = \<lparr>procs = (replicate 8 zero_process)[1 := zero_process\<lparr>pid := 2, state := PROC_RUNNABLE, priority := 3\<rparr>,
     2 := zero_process\<lparr>pid := 3, state := PROC_RUNNABLE, budget := 4\<rparr>], current_proc = Some 2, idle_proc = Some 0\<rparr>"

lemma sample_tab_ok: "tab_ok sample_tab 2" "idle_proc sample_tab = Some 0"
  "is_schedulable (procs sample_tab ! 1)" "is_schedulable (procs sample_tab ! 2)"
  by (simp_all add: sample_tab_def tab_ok_def is_schedulable_def nth_list_update)


theorem yield_fair_witness:
  "\<exists>m k' h'. m \<le> 6 \<and> yields m sample_tab hart_boot = Some (k', h') \<and> current_proc k' = Some 1"
proof -
  have "{..<8} - {1} = {0, 2, 3, 4, 5, 6, 7 :: nat}"
    by auto
  then have "rounds_left 1 (procs sample_tab) = 4" "rounds_refilled 1 (procs sample_tab) = 1"
    by (simp_all add: rounds_left_def rounds_refilled_def sample_tab_def share_def refill_share_def
        is_eligible_for_pick_def is_schedulable_def zero_process_def nth_list_update)
  then show ?thesis
    using yield_fair [OF sample_tab_ok(1) _ sample_tab_ok(3), of hart_boot] by auto
qed


end
