(* ===== verification/Process_Spec.thy ===== *)
theory Process_Spec
  imports Process Address_Space Sched_Spec
begin

text \<open>
  Creation and termination of processes: what a new process consists of, that failures leave
  nothing behind in the process table, and that waiting reaps exactly the zombie children.
\<close>

section \<open>The areas of a new process\<close>

definition mk_vma :: "u32 \<times> u32 \<times> u32 \<Rightarrow> user_vma" where
  "mk_vma = (\<lambda>(lo, hi, prot). \<lparr>v_used = True, v_start = lo, v_end = hi, v_prot = prot\<rparr>)"

lemma first_unused:
  "list_all v_used us \<Longrightarrow> 0 < m \<Longrightarrow> first_idx (\<lambda>v. \<not> v_used v) (us @ replicate m no_vma) = Some (length us)"
  by (induction us) (auto simp: no_vma_def gr0_conv_Suc)

definition seg_apart :: "u32 \<times> u32 \<times> u32 \<Rightarrow> u32 \<times> u32 \<times> u32 \<Rightarrow> bool" where
  "seg_apart = (\<lambda>(lo, hi, _) (lo', hi', _). hi \<le> lo' \<or> hi' \<le> lo)"

definition seg_fits :: "user_vma list \<Rightarrow> u32 \<times> u32 \<times> u32 \<Rightarrow> bool" where
  "seg_fits us = (\<lambda>(lo, hi, _). is_page_aligned lo \<and> is_page_aligned hi \<and>
     (\<forall>v\<in>set us. hi \<le> v_start v \<or> v_end v \<le> lo))"

lemma add_vmas_spec:
  assumes "list_all v_used us" and "length segs \<le> m" and "list_all (seg_fits us) segs"
    and "sorted_wrt seg_apart segs"
  shows "\<exists>k. add_vmas segs (us @ replicate m no_vma) =
    (0, us @ map mk_vma (filter (\<lambda>(lo, hi, _). lo < hi) segs) @ replicate k no_vma) \<and>
    k + length (filter (\<lambda>(lo, hi, _). lo < hi) segs) = m"
  using assms
proof (induction segs arbitrary: us m)
  case Nil
  then show ?case by auto
next
  case (Cons seg segs)
  obtain lo hi prot where seg: "seg = (lo, hi, prot)"
    by (cases seg)
  obtain m' where m: "m = Suc m'"
    using Cons.prems(2) by (cases m) auto
  show ?case
  proof (cases "lo < hi")
    case False
    have "length segs \<le> m" "list_all (seg_fits us) segs" "sorted_wrt seg_apart segs"
      using Cons.prems by auto
    from Cons.IH [OF Cons.prems(1) this] show ?thesis
      using False seg by auto
  next
    case True
    let ?w = "\<lparr>v_used = True, v_start = lo, v_end = hi, v_prot = prot\<rparr>"
    have "proc_add_vma (us @ replicate m no_vma) lo hi prot = (0, (us @ [?w]) @ replicate m' no_vma)"
      using True Cons.prems(1,3) first_unused [OF Cons.prems(1), of m]
      by (auto simp: proc_add_vma_def seg seg_fits_def m list_ex_iff no_vma_def list_update_append)
    then have "add_vmas (seg # segs) (us @ replicate m no_vma) = add_vmas segs ((us @ [?w]) @ replicate m' no_vma)"
      using True seg by simp
    moreover have "list_all v_used (us @ [?w])" "length segs \<le> m'" "sorted_wrt seg_apart segs"
      using Cons.prems m by auto
    moreover have "list_all (seg_fits (us @ [?w])) segs"
      using Cons.prems(3,4) seg by (auto simp: list_all_iff seg_fits_def seg_apart_def)
    ultimately obtain k where "add_vmas (seg # segs) (us @ replicate m no_vma) =
      (0, (us @ [?w]) @ map mk_vma (filter (\<lambda>(lo, hi, _). lo < hi) segs) @ replicate k no_vma)"
      "k + length (filter (\<lambda>(lo, hi, _). lo < hi) segs) = m'"
      using Cons.IH [of "us @ [?w]" m'] by auto
    then show ?thesis
      using True seg m by (auto simp: mk_vma_def)
  qed
qed

definition initial_vmas :: "ld_layout \<Rightarrow> process \<Rightarrow> user_vma list" where
  "initial_vmas L p = map mk_vma (filter (\<lambda>(lo, hi, _). lo < hi) (vm_init_segments L p))"

lemma ld_order:
  assumes "ld_ok L"
  shows "0x80200000 \<le> user_text_start L" "user_text_end L \<le> user_rodata_start L" "user_rodata_end L \<le> user_data_start L"
    "user_data_end L \<le> user_bss_start L" "user_text_start L \<le> user_text_end L"
    "user_rodata_start L \<le> user_rodata_end L" "user_data_start L \<le> user_data_end L" "user_bss_start L \<le> user_bss_end L"
  using assms by (simp_all add: ld_ok_def ld_symbols_def)

lemma segments_apart:
  assumes "ld_ok L" and "user_stack_base p = 0x3fffe000" and "user_stack_pages p = 2"
  shows "list_all (seg_fits []) (vm_init_segments L p)" and "sorted_wrt seg_apart (vm_init_segments L p)"
proof -
  have sy: "user_text_start L \<in> set (ld_symbols L)" "user_text_end L \<in> set (ld_symbols L)"
    "user_rodata_start L \<in> set (ld_symbols L)" "user_rodata_end L \<in> set (ld_symbols L)"
    "user_data_start L \<in> set (ld_symbols L)" "user_data_end L \<in> set (ld_symbols L)"
    "user_bss_start L \<in> set (ld_symbols L)" "user_bss_end L \<in> set (ld_symbols L)"
    by (simp_all add: ld_symbols_def)
  note al = sy [THEN ld_aligned(1) [OF assms(1)]] sy [THEN ld_aligned(2) [OF assms(1)]]
  show "list_all (seg_fits []) (vm_init_segments L p)"
    using assms(2,3) by (simp add: vm_init_segments_def seg_fits_def is_page_aligned_def [of "0x3fffe000"]
        is_page_aligned_def [of "0x40000000"])
  note o = ld_order [OF assms(1)]
  have st: "0x40000000 \<le> user_text_start L"
    using o(1) by (rule order_trans [rotated]) simp
  show "sorted_wrt seg_apart (vm_init_segments L p)"
    using assms(2,3) o st unfolding vm_init_segments_def al
    by (auto simp: seg_apart_def intro: order_trans)
qed

lemma proc_vm_init_spec:
  assumes "ld_ok L" and "user_stack_base p = 0x3fffe000" and "user_stack_pages p = 2"
  obtains k where "proc_vm_init L p = (0, p\<lparr>vmas := initial_vmas L p @ replicate k no_vma\<rparr>)"
    and "length (initial_vmas L p) + k = 16"
proof -
  have "length (vm_init_segments L p) \<le> 16"
    by (simp add: vm_init_segments_def)
  then obtain k where "add_vmas (vm_init_segments L p) ([] @ replicate 16 no_vma) = (0, [] @ initial_vmas L p @ replicate k no_vma)"
    "k + length (filter (\<lambda>(lo, hi, _). lo < hi) (vm_init_segments L p)) = 16"
    using add_vmas_spec [of "[]" "vm_init_segments L p" 16] segments_apart [OF assms] unfolding initial_vmas_def by auto
  then show thesis
    using that [of k] by (simp add: proc_vm_init_def initial_vmas_def [of L p])
qed

section \<open>Pages of a new stack\<close>

lemma fill_frame:
  assumes "unat p mod 4096 = 0" and "unat p + n * 4096 \<le> 4294967296" and "n < 1048576"
    and "pfn x \<notin> {pfn p..<pfn p + n}"
  shows "mem_fill p c (of_nat n * 4096) m x = m x"
proof -
  have un: "unat (of_nat n * 4096 :: u32) = n * 4096"
    using assms(3) by (simp add: unat_word_ariths unat_of_nat)
  have "\<not> x - p < of_nat n * 4096"
  proof
    assume "x - p < of_nat n * 4096"
    then have d: "unat (x - p) < n * 4096"
      unfolding word_less_nat_alt un .
    then have "unat (p + (x - p)) = unat p + unat (x - p)"
      using assms(2) by (intro unat_add_no_wrap) linarith
    then have "unat x = pfn p * 4096 + unat (x - p)"
      using pfn_aligned [OF assms(1)] by simp
    then have "pfn x = pfn p + unat (x - p) div 4096"
      by (simp add: pfn_def)
    moreover have "unat (x - p) div 4096 < n"
      using d by (simp add: div_less_iff_less_mult)
    ultimately show False
      using assms(4) by simp
  qed
  then show ?thesis
    by (simp add: mem_fill_def)
qed

lemma handed_out_keeps:
  assumes "ld_ok L" and "handed_out L p n s s'" and "n < 1048576"
  shows "keeps L s s'"
proof -
  have h: "unat p mod 4096 = 0" "pfn (free_ram L) \<le> pfn p" "pfn p + n \<le> pfn (free_ram L) + 8188"
    "\<forall>q\<in>{pfn p..<pfn p + n}. refs L s q = 0" "refs L s' = (\<lambda>q. if q \<in> {pfn p..<pfn p + n} then 1 else refs L s q)"
    "pmem s' = mem_fill p 0 (of_nat n * 4096) (pmem s)"
    using assms(2) by (simp_all add: handed_out_def)
  have R: "unat (free_ram L) = pfn (free_ram L) * 4096" "unat (free_ram L) + 0x2000000 < 4294967296"
    using ld_ok_free_ram [OF assms(1)] pfn_aligned by auto
  have "unat p + n * 4096 = (pfn p + n) * 4096"
    using pfn_aligned [OF h(1)] by (simp add: add_mult_distrib)
  also have "\<dots> \<le> (pfn (free_ram L) + 8188) * 4096"
    using h(3) by (rule mult_le_mono1)
  finally have le: "unat p + n * 4096 \<le> 4294967296"
    using R by simp
  have "pmem s' x = pmem s x" if "0 < refs L s (pfn x) \<or> \<not> in_ram L (pfn x)" for x
  proof -
    have "pfn x \<notin> {pfn p..<pfn p + n}"
      using that h(2,3,4) by (auto simp: in_ram_def)
    then show ?thesis
      unfolding h(6) by (rule fill_frame [OF h(1) le assms(3)])
  qed
  then show ?thesis
    using h(4,5) by (auto simp: keeps_def)
qed

text \<open>Giving back the two pages of a stack that was just taken.\<close>

lemma free_new_stack:
  assumes "ld_ok L" and "handed_out L p 2 s s1" and "keeps L s1 s2" and "pa_inv L s2" and "keeps L s s2"
  obtains s3 where "free_pages L p 2 s2 = Inr s3" and "pa_inv L s3" and "keeps L s s3"
proof -
  have h: "unat p mod 4096 = 0" "pfn (free_ram L) \<le> pfn p" "pfn p + 2 \<le> pfn (free_ram L) + 8188"
    "\<forall>q\<in>{pfn p..<pfn p + 2}. refs L s q = 0" "refs L s1 = (\<lambda>q. if q \<in> {pfn p..<pfn p + 2} then 1 else refs L s q)"
    using assms(2) by (simp_all add: handed_out_def)
  have "\<forall>q\<in>{pfn p..<pfn p + 2}. refs L s2 q = 1"
    using assms(3) h(5) by (auto simp: keeps_def)
  then obtain s3 where f: "free_pages L p 2 s2 = Inr s3" "pa_inv L s3" "dropped L {pfn p..<pfn p + 2} s2 s3"
    using free_pages_spec [OF assms(1,4), of 2 p] h(1-3) by (auto split: if_splits)
  have "keeps L s s3"
    using assms(5) f(3) h(4) dropped_other [OF f(3)] unfolding keeps_def
    by (metis dropped_def less_irrefl)
  then show thesis
    using that f by blast
qed


section \<open>Creation of a user process\<close>

lemma proc_at_set [simp]:
  "proc_at j (set_proc i p S) = (if i = j \<and> j < length (procs (tab S)) then p else proc_at j S)"
  "proc_at j (set_pa s S) = proc_at j S" "proc_at j (S\<lparr>kvm := v\<rparr>) = proc_at j S"
  by (cases "j < length (procs (tab S))"; cases "i = j") (simp_all add: proc_at_def set_proc_def set_pa_def not_less list_update_beyond)

lemma kvm_set [simp]:
  "kvm (set_proc i p S) = kvm S" "kvm (set_pa s S) = (kvm S)\<lparr>pa_state := s\<rparr>"
  "khart (set_proc i p S) = khart S" "khart (set_pa s S) = khart S"
  "current_proc (tab (set_proc i p S)) = current_proc (tab S)" "idle_proc (tab (set_proc i p S)) = idle_proc (tab S)"
  "length (procs (tab (set_proc i p S))) = length (procs (tab S))" "tab (set_pa s S) = tab S"
  by (simp_all add: set_proc_def set_pa_def)

lemma release_no_vmas: "release_vmas L sv (replicate n no_vma) s = Inr s"
  by (induction n) (simp_all add: in_mmap_window_def no_vma_def)

text \<open>The table after a failed creation: slot \<open>i\<close>, which was unused, is zeroed.\<close>

definition slot_cleared :: "nat \<Rightarrow> sys \<Rightarrow> sys \<Rightarrow> bool" where
  "slot_cleared i S S' \<longleftrightarrow> tab S' = (tab S)\<lparr>procs := (procs (tab S))[i := zero_process]\<rparr> \<and> khart S' = khart S"

definition new_user :: "ld_layout \<Rightarrow> nat \<Rightarrow> u32 \<Rightarrow> u32 \<Rightarrow> u32 \<Rightarrow> process \<Rightarrow> bool" where
  "new_user L i entry_pc pa sv p \<longleftrightarrow>
     pid p = int i + 1 \<and> state p = PROC_RUNNABLE \<and> parent_pid p = 0 \<and> is_user p \<and> priority p = 4 \<and> budget p = 4 \<and>
     user_stack_base p = 0x3fffe000 \<and> user_stack_pages p = 2 \<and> user_stack_paddr p = pa \<and> p_satp p = sv \<and>
     has_trap_frame p \<and> p_sepc p = entry_pc \<and>
     p_trap_frame p = zero_frame\<lparr>tf_sp := 0x40000000, tf_a0 := 0, tf_a1 := 0, tf_sepc := entry_pc, tf_sstatus := SSTATUS_SPIE\<rparr> \<and>
     stack_top_words p ! 0 = arch_resume_from_trap_addr L \<and> p_sp p = kstack_end L i - 64 \<and>
     (\<exists>k. vmas p = initial_vmas L p @ replicate k no_vma \<and> length (vmas p) = 16) \<and> fds p = replicate 16 no_file"

text \<open>The address space \<open>sv\<close> is the user sections and a stack on the fresh pages at \<open>pa\<close>.\<close>

definition own_space :: "ld_layout \<Rightarrow> u32 \<Rightarrow> u32 \<Rightarrow> sys \<Rightarrow> sys \<Rightarrow> bool" where
  "own_space L pa sv S S' \<longleftrightarrow> pt_ok L (pa_state (kvm S')) (vm_root_from_satp sv) \<and>
     (\<forall>va. vm_query_user_page (pmem (pa_state (kvm S'))) sv va = user_map L 0x3fffe000 pa 2 va) \<and>
     (\<forall>q\<in>{pfn pa..<pfn pa + 2}. refs L (pa_state (kvm S)) q = 0 \<and> refs L (pa_state (kvm S')) q = 1)"

lemma zero_process_simps [simp]:
  "state zero_process = PROC_UNUSED" "vmas zero_process = replicate 16 no_vma" "fds zero_process = replicate 16 no_file"
  "zero_process\<lparr>state := PROC_UNUSED\<rparr> = zero_process"
  by (simp_all add: zero_process_def)

lemma create_user_process_spec:
  assumes "ld_ok L" and "vm_ready L (kvm S)" and "length (procs (tab S)) = 8"
  obtains (full) "alloc_process_slot S = None" and "create_user_process L e S = Inr (None, S)"
    | (failed) i S' where "alloc_process_slot S = Some i" and "create_user_process L e S = Inr (None, S')"
      and "vm_ready L (kvm S')" and "keeps L (pa_state (kvm S)) (pa_state (kvm S'))" and "slot_cleared i S S'"
    | (created) i pa sv p S' where "alloc_process_slot S = Some i" and "create_user_process L e S = Inr (Some i, S')"
      and "vm_ready L (kvm S')" and "keeps L (pa_state (kvm S)) (pa_state (kvm S'))"
      and "tab S' = (tab S)\<lparr>procs := (procs (tab S))[i := p]\<rparr>" and "khart S' = khart S" and "new_user L i e pa sv p"
      and "pt_ok L (pa_state (kvm S')) (vm_root_from_satp sv)"
      and "\<And>va. vm_query_user_page (pmem (pa_state (kvm S'))) sv va = user_map L 0x3fffe000 pa 2 va"
      and "\<And>q. q \<in> {pfn pa..<pfn pa + 2} \<Longrightarrow> refs L (pa_state (kvm S)) q = 0 \<and> refs L (pa_state (kvm S')) q = 1"
proof (cases "alloc_process_slot S")
  case None
  then show ?thesis
    using full by (simp add: create_user_process_def)
next
  case (Some i)
  let ?s = "pa_state (kvm S)"
  have inv: "pa_inv L ?s"
    using assms(2) by (simp add: vm_ready_def)
  have i: "i < 8"
    using first_idx_SomeD(1) [OF Some [unfolded alloc_process_slot_def]] assms(3) by simp
  define p1 where "p1 = (init_process_common (int i + 1) 0 True 4)\<lparr>user_stack_pages := 2\<rparr>"
  obtain pa s1 where a: "alloc_pages_try L 2 ?s = Inr (pa, s1)" "pa_inv L s1"
    and a': "if no_room L 2 ?s then pa = 0 \<and> refused ?s s1 L else pa \<noteq> 0 \<and> handed_out L pa 2 ?s s1"
    using alloc_pages_try_spec [OF assms(1) inv, of 2] by (auto cong: if_cong)
  show ?thesis
  proof (cases "pa = 0")
    case True
    then have "keeps L ?s s1"
      using a' by (auto simp: refused_def keeps_def split: if_splits)
    moreover have "create_user_process L e S = Inr (None, mark_process_unused i (set_pa s1 S))"
      using Some a(1) True by (simp add: create_user_process_def Let_def init_process_common_def)
    ultimately show ?thesis
      using failed [OF Some] vm_ready_keeps [OF assms(2) _ a(2)]
      by (simp add: mark_process_unused_def slot_cleared_def) (simp add: set_proc_def set_pa_def)
  next
    case nz: False
    then have h: "handed_out L pa 2 ?s s1"
      using a' by (auto split: if_splits)
    note k1 = handed_out_keeps [OF assms(1) h]
    have r1: "vm_ready L ((kvm S)\<lparr>pa_state := s1\<rparr>)"
      using vm_ready_keeps [OF assms(2) k1 a(2)] by simp
    define p2 where "p2 = p1\<lparr>user_stack_paddr := pa, user_stack_base := 0x3fffe000\<rparr>"
    have unf: "create_user_process L e S =
      kbind (vm_build_user_satp L 0x3fffe000 pa 2 ((kvm S)\<lparr>pa_state := s1\<rparr>)) (\<lambda>(sv, v).
        let S = (set_pa s1 S)\<lparr>kvm := v\<rparr>; p = p2\<lparr>p_satp := sv\<rparr> in
        if sv = 0 then kbind (reset_process_with_released_resources L i (set_proc i p S)) (\<lambda>S. Inr (None, S))
        else let (rc, p) = proc_vm_init L p in
          if rc < 0 then kbind (reset_process_with_released_resources L i (set_proc i p S)) (\<lambda>S. Inr (None, S))
          else let p = arch_init_user_context p e (proc_user_stack_end p) 0 0;
                   p = arch_init_switch_context (kstack_end L i) p (arch_resume_from_trap_addr L) (khart S)
               in Inr (Some i, set_proc i p S))"
      using Some a(1) nz by (simp add: create_user_process_def Let_def p2_def p1_def init_process_common_def)
    have b: "unat (0x3fffe000 :: u32) mod 4096 = 0" "unat (0x3fffe000 :: u32) + unat (2 :: u32) * 4096 \<le> 4294967296"
      "unat (2 :: u32) < 1048575"
      by simp_all
    show ?thesis
    proof (rule build_user_satp_spec [OF assms(1) r1 b, of pa])
      fix v' assume v: "vm_build_user_satp L 0x3fffe000 pa 2 ((kvm S)\<lparr>pa_state := s1\<rparr>) = Inr (0, v')" "vm_ready L v'"
        "keeps L (pa_state ((kvm S)\<lparr>pa_state := s1\<rparr>)) (pa_state v')" "kernel_root_pt v' = kernel_root_pt ((kvm S)\<lparr>pa_state := s1\<rparr>)"
      have k2: "keeps L s1 (pa_state v')" "pa_inv L (pa_state v')"
        using v(2,3) by (simp_all add: vm_ready_def)
      obtain s3 where f: "free_pages L pa 2 (pa_state v') = Inr s3" "pa_inv L s3" "keeps L ?s s3"
        using free_new_stack [OF assms(1) h k2 keeps_trans [OF k1 k2(1)]] by auto
      let ?S = "set_proc i (p2\<lparr>p_satp := 0\<rparr>) ((set_pa s1 S)\<lparr>kvm := v'\<rparr>)"
      have "proc_vm_release L (p2\<lparr>p_satp := 0\<rparr>) (pa_state v') = Inr s3"
        using f(1) nz by (simp add: proc_vm_release_def p2_def p1_def init_process_common_def release_no_vmas)
      then have run: "create_user_process L e S = Inr (None, mark_process_unused i (set_pa s3 ?S))"
        unfolding unf v(1) using i assms(3)
        by (simp add: reset_process_with_released_resources_def Let_def)
      have "vm_ready L (v'\<lparr>pa_state := s3\<rparr>)"
      proof -
        have "kernel_satp_value v' = kernel_satp_value (kvm S)" "kernel_root_pt v' = kernel_root_pt (kvm S)"
          using v(2,4) assms(2) by (simp_all add: vm_ready_def)
        then have "v'\<lparr>pa_state := s3\<rparr> = (kvm S)\<lparr>pa_state := s3\<rparr>"
          by (cases v', cases "kvm S") simp
        then show ?thesis
          using vm_ready_keeps [OF assms(2) f(3,2)] by simp
      qed
      then show ?thesis
        using failed [OF Some run] f(3)
        by (simp add: mark_process_unused_def slot_cleared_def) (simp add: set_proc_def set_pa_def)
    next
      fix root v' assume v: "vm_build_user_satp L 0x3fffe000 pa 2 ((kvm S)\<lparr>pa_state := s1\<rparr>) = Inr (vm_make_satp root, v')"
        "vm_ready L v'" "keeps L (pa_state ((kvm S)\<lparr>pa_state := s1\<rparr>)) (pa_state v')" "pt_ok L (pa_state v') root"
        "\<And>va. pt_walk (pmem (pa_state v')) root va = user_map L 0x3fffe000 pa (unat (2 :: u32)) va"
      let ?sv = "vm_make_satp root" and ?S = "(set_pa s1 S)\<lparr>kvm := v'\<rparr>"
      define p3 where "p3 = p2\<lparr>p_satp := ?sv\<rparr>"
      obtain k where k: "proc_vm_init L p3 = (0, p3\<lparr>vmas := initial_vmas L p3 @ replicate k no_vma\<rparr>)"
        "length (initial_vmas L p3) + k = 16"
        using proc_vm_init_spec [OF assms(1), of p3] by (auto simp: p3_def p2_def p1_def)
      define p4 where "p4 = p3\<lparr>vmas := initial_vmas L p3 @ replicate k no_vma\<rparr>"
      define p5 where "p5 = arch_init_switch_context (kstack_end L i)
        (arch_init_user_context p4 e (proc_user_stack_end p4) 0 0) (arch_resume_from_trap_addr L) (khart S)"
      have run: "create_user_process L e S = Inr (Some i, set_proc i p5 ?S)"
        unfolding unf v(1) using k(1) make_satp_nonzero
        by (simp add: Let_def p3_def [symmetric] p4_def [symmetric] p5_def)
      have k2: "keeps L s1 (pa_state v')"
        using v(3) by simp
      have "initial_vmas L p5 = initial_vmas L p3"
        by (simp add: p5_def p4_def arch_init_switch_context_def arch_init_user_context_def Let_def initial_vmas_def
            vm_init_segments_def)
      then have new: "new_user L i e pa ?sv p5"
        using k(2) unfolding new_user_def
        by (auto simp: p5_def p4_def p3_def p2_def p1_def init_process_common_def arch_init_switch_context_def
            arch_init_user_context_def Let_def proc_user_stack_end_def)
      have st: "refs L ?s q = 0 \<and> refs L (pa_state v') q = 1" if "q \<in> {pfn pa..<pfn pa + 2}" for q
        using h k2 that by (auto simp: handed_out_def keeps_def)
      have root: "vm_root_from_satp ?sv = root"
        using v(4) by (intro satp_root) (simp add: pt_ok_def managed_def)
      show ?thesis
        using created [OF Some run _ _ _ _ new] v(2,4,5) keeps_trans [OF k1 k2] st root
        by (simp add: query_walk) (simp add: set_proc_def set_pa_def)
    qed
  qed
qed


section \<open>Waiting\<close>

definition waited :: "nat \<Rightarrow> int \<Rightarrow> sys \<Rightarrow> nat \<Rightarrow> bool" where
  "waited c wpid S i \<longleftrightarrow> is_waited_child (pid (proc_at c S)) wpid (proc_at i S)"

lemma wait_scan_spec:
  fixes me wpid S
  defines "W \<equiv> \<lambda>i. is_waited_child me wpid (proc_at i S)"
  shows "wait_scan L me wpid is b S =
    (case first_idx (\<lambda>i. W i \<and> state (proc_at i S) = PROC_ZOMBIE) is of
       None \<Rightarrow> Inr (None, b \<or> (\<exists>i\<in>set is. W i), S)
     | Some j \<Rightarrow> kbind (reset_process_with_released_resources L (is ! j) S) (\<lambda>S'.
         Inr (Some (pid (proc_at (is ! j) S), exit_status (proc_at (is ! j) S)), True, S')))"
proof (induction "is" arbitrary: b)
  case Nil
  then show ?case by simp
next
  case (Cons i "is")
  show ?case
    using Cons.IH [of b] Cons.IH [of True]
    by (auto simp: W_def Let_def map_option_case split: option.split)
qed

section \<open>Exit\<close>

text \<open>The pid of a process in use is its index in the table plus one.\<close>

definition pids_ok :: "sys \<Rightarrow> bool" where
  "pids_ok S \<longleftrightarrow> (\<forall>i<8. state (proc_at i S) \<noteq> PROC_UNUSED \<longrightarrow> pid (proc_at i S) = int i + 1)"

lemma exit_mark_facts:
  assumes "c < 8" and "length (procs (tab S)) = 8" and "i < 8"
  shows "length (procs (tab (exit_mark st c S))) = 8"
    and "current_proc (tab (exit_mark st c S)) = current_proc (tab S)" "idle_proc (tab (exit_mark st c S)) = idle_proc (tab S)"
    and "kvm (exit_mark st c S) = kvm S" "khart (exit_mark st c S) = khart S"
    and "proc_at c (exit_mark st c S) = (close_all (proc_at c S))\<lparr>exit_status := st, state := PROC_ZOMBIE\<rparr>"
    and "i \<noteq> c \<Longrightarrow> proc_at i (exit_mark st c S) = proc_at i S \<or>
      state (proc_at i S) = PROC_BLOCKED \<and> pid (proc_at i S) = parent_pid (proc_at c S) \<and>
      proc_at i (exit_mark st c S) = (proc_at i S)\<lparr>state := PROC_RUNNABLE\<rparr>"
    and "\<lbrakk>i \<noteq> c; pids_ok S; state (proc_at c S) \<noteq> PROC_UNUSED; pid (proc_at i S) = parent_pid (proc_at c S);
      state (proc_at i S) = PROC_BLOCKED\<rbrakk> \<Longrightarrow> state (proc_at i (exit_mark st c S)) = PROC_RUNNABLE"
proof -
  define S1 where "S1 = set_proc c ((close_all (proc_at c S))\<lparr>exit_status := st, state := PROC_ZOMBIE\<rparr>) S"
  have pc: "proc_at c S1 = (close_all (proc_at c S))\<lparr>exit_status := st, state := PROC_ZOMBIE\<rparr>"
    and po: "\<And>j. j \<noteq> c \<Longrightarrow> proc_at j S1 = proc_at j S"
    using assms by (simp_all add: S1_def)
  have par: "parent_pid (proc_at c S1) = parent_pid (proc_at c S)" "length (procs (tab S1)) = 8"
    using assms by (simp_all add: pc close_all_def) (simp add: S1_def)
  have e: "exit_mark st c S = (case find_process_by_pid (parent_pid (proc_at c S)) S1 of None \<Rightarrow> S1
      | Some q \<Rightarrow> if state (proc_at q S1) = PROC_BLOCKED then set_proc q ((proc_at q S1)\<lparr>state := PROC_RUNNABLE\<rparr>) S1 else S1)"
    unfolding exit_mark_def S1_def [symmetric] Let_def par(1) ..
  have q: "q < 8" "state (proc_at q S1) \<noteq> PROC_UNUSED" "pid (proc_at q S1) = parent_pid (proc_at c S)"
    if "find_process_by_pid (parent_pid (proc_at c S)) S1 = Some q" for q
    using first_idx_SomeD [OF that [unfolded find_process_by_pid_def]] par(2) by (simp_all add: proc_at_def)
  have zc: "state (proc_at c S1) = PROC_ZOMBIE"
    by (simp add: pc)
  show "length (procs (tab (exit_mark st c S))) = 8"
    and "current_proc (tab (exit_mark st c S)) = current_proc (tab S)" "idle_proc (tab (exit_mark st c S)) = idle_proc (tab S)"
    and "kvm (exit_mark st c S) = kvm S" "khart (exit_mark st c S) = khart S"
    unfolding e using par(2) by (auto simp: S1_def split: option.split)
  show "proc_at c (exit_mark st c S) = (close_all (proc_at c S))\<lparr>exit_status := st, state := PROC_ZOMBIE\<rparr>"
    unfolding e using pc zc q by (auto split: option.split)
  show "i \<noteq> c \<Longrightarrow> proc_at i (exit_mark st c S) = proc_at i S \<or>
      state (proc_at i S) = PROC_BLOCKED \<and> pid (proc_at i S) = parent_pid (proc_at c S) \<and>
      proc_at i (exit_mark st c S) = (proc_at i S)\<lparr>state := PROC_RUNNABLE\<rparr>"
    unfolding e using po q par(2) by (auto split: option.split)
  assume i: "i \<noteq> c" "pids_ok S" "state (proc_at c S) \<noteq> PROC_UNUSED" "pid (proc_at i S) = parent_pid (proc_at c S)"
    "state (proc_at i S) = PROC_BLOCKED"
  have pids: "pid (proc_at j S1) = int j + 1" if "j < 8" "state (proc_at j S1) \<noteq> PROC_UNUSED" for j
    using i(2,3) that pc po by (cases "j = c") (auto simp: pids_ok_def close_all_def)
  have "proc_at i S1 \<in> set (procs (tab S1))"
    using nth_mem [of i "procs (tab S1)"] assms(3) par(2) by (simp add: proc_at_def)
  moreover have "state (proc_at i S1) \<noteq> PROC_UNUSED \<and> pid (proc_at i S1) = parent_pid (proc_at c S)"
    using i po [OF i(1)] by simp
  ultimately have "find_process_by_pid (parent_pid (proc_at c S)) S1 \<noteq> None"
    unfolding find_process_by_pid_def first_idx_None_iff by blast
  then obtain q' where q': "find_process_by_pid (parent_pid (proc_at c S)) S1 = Some q'"
    by blast
  have "int q' + 1 = int i + 1"
    using pids [of q'] pids [of i] q [OF q'] i(4,5) po [OF i(1)] assms(3) by simp
  then show "state (proc_at i (exit_mark st c S)) = PROC_RUNNABLE"
    unfolding e using q' i(5) po [OF i(1)] assms(3) par(2) by simp
qed

text \<open>\<^verbatim>\<open>yield\<close> changes nothing of a process but its budget and priority.\<close>

definition rebudgeted :: "process \<Rightarrow> process \<Rightarrow> bool" where
  "rebudgeted p q \<longleftrightarrow> q = p\<lparr>budget := budget q, priority := priority q\<rparr>"

lemma rebudgeted_trans: "rebudgeted p q \<Longrightarrow> rebudgeted q r \<Longrightarrow> rebudgeted p r"
  unfolding rebudgeted_def by (cases p, cases q, cases r) simp

lemma rebudgetedD:
  assumes "rebudgeted p q"
  shows "state q = state p" "exit_status q = exit_status p" "fds q = fds p" "pid q = pid p" "parent_pid q = parent_pid p"
  using assms unfolding rebudgeted_def by (cases p, cases q, simp)+

lemma charge_refill_rebudgeted:
  assumes "i < length ps"
  shows "rebudgeted (ps ! i) (charge_current c ps ! i)" and "rebudgeted (ps ! i) (refill_budgets ps ! i)"
proof -
  show "rebudgeted (ps ! i) (charge_current c ps ! i)"
    using assms by (cases "i = c"; cases "ps ! i") (simp_all add: charge_current_def rebudgeted_def)
  show "rebudgeted (ps ! i) (refill_budgets ps ! i)"
    using assms by (cases "ps ! i") (simp add: refill_budgets_def refill_one_def rebudgeted_def Let_def)
qed

lemma yield_choose_rebudgeted:
  assumes "yield_choose c ps = (r, ps')" and "i < length ps"
  shows "rebudgeted (ps ! i) (ps' ! i)"
proof -
  have "ps' = charge_current c ps \<or> ps' = refill_budgets (charge_current c ps)"
    using assms(1) by (auto simp: yield_choose_def Let_def split: option.splits)
  then show ?thesis
    using charge_refill_rebudgeted [OF assms(2)] charge_refill_rebudgeted(2) [of i "charge_current c ps"] assms(2)
      rebudgeted_trans by auto
qed

lemma yield_total:
  assumes "tab_ok k c" and "idle_proc k = Some d"
  shows "\<exists>k' h'. yield k h = Some (k', h')"
  using assms by (auto simp: yield_def tab_ok_def Let_def split: prod.split option.split)

lemma yield_keeps_schedulable:
  assumes "tab_ok k c" and "idle_proc k = Some d" and "d < 8" and "yield k h = Some (k', h')"
  obtains n where "tab_ok k' n" and "idle_proc k' = Some d"
    and "\<forall>i<8. rebudgeted (procs k ! i) (procs k' ! i)"
    and "\<forall>i<8. is_schedulable (procs k' ! i) = is_schedulable (procs k ! i)"
    and "n = d \<or> is_schedulable (procs k ! n)"
proof -
  have ok: "length (procs k) = 8" "current_proc k = Some c" "c < 8"
    using assms(1) by (simp_all add: tab_ok_def)
  obtain r ps' where y: "yield_choose c (procs k) = (r, ps')"
    by (cases "yield_choose c (procs k)")
  note f = yield_choose_spec [OF ok(1,3) y]
  define n where "n = (case r of Some n \<Rightarrow> n | None \<Rightarrow> d)"
  have n: "n < 8"
    using f(3) assms(3) by (cases r) (simp_all add: best_def n_def)
  have k': "procs k' = ps'" "current_proc k' = Some n" "idle_proc k' = Some d"
    using assms(2,4) ok(2) y by (cases r; auto simp: yield_def n_def Let_def split: if_splits)+
  have "n = d \<or> is_schedulable (procs k ! n)"
    using f(2) [OF n] f(3) by (cases r) (auto simp: n_def best_def is_eligible_for_pick_def)
  then show thesis
    using that [of n] k' f(1,2) n yield_choose_rebudgeted [OF y] ok(1) by (simp add: tab_ok_def)
qed

lemma never_chosen:
  assumes "tab_ok k c'" and "idle_proc k = Some d" and "d < 8" and "c < 8" and "c \<noteq> d" and "c \<noteq> c'"
    and "\<not> is_schedulable (procs k ! c)" and "yields m k h = Some (k', h')"
  shows "current_proc k' \<noteq> Some c"
  using assms(1,2,6-8)
proof (induction m arbitrary: k h c')
  case 0
  then show ?case by (auto simp: tab_ok_def)
next
  case (Suc m)
  obtain k1 h1 where y: "yield k h = Some (k1, h1)" "yields m k1 h1 = Some (k', h')"
    using Suc.prems(5) by (auto split: option.splits)
  obtain n where n: "tab_ok k1 n" "idle_proc k1 = Some d"
    and re: "\<forall>i<8. rebudgeted (procs k ! i) (procs k1 ! i)"
    and sc: "\<forall>i<8. is_schedulable (procs k1 ! i) = is_schedulable (procs k ! i)" "n = d \<or> is_schedulable (procs k ! n)"
    by (rule yield_keeps_schedulable [OF Suc.prems(1,2) assms(3) y(1)])
  show ?case
    using Suc.IH [OF n _ _ y(2)] sc Suc.prems(4) assms(4,5) by auto
qed

section \<open>Properties\<close>


lemma proc_exit_spec:
  assumes "tab_ok (tab S) c" and "idle_proc (tab S) = Some d" and "d < 8" and "d \<noteq> c" and "pids_ok S"
    and "state (proc_at c S) = PROC_RUNNABLE"
  shows "\<exists>S'. proc_exit st S = Inr S' \<and>
    state (proc_at c S') = PROC_ZOMBIE \<and> exit_status (proc_at c S') = st \<and> (\<forall>f\<in>set (fds (proc_at c S')). \<not> fd_used f) \<and>
    (\<forall>i<8. state (proc_at i S) = PROC_BLOCKED \<and> pid (proc_at i S) = parent_pid (proc_at c S) \<longrightarrow>
      state (proc_at i S') = PROC_RUNNABLE) \<and>
    (\<forall>m k' h'. yields m (tab S') (khart S') = Some (k', h') \<longrightarrow> current_proc k' \<noteq> Some c)"
proof -
  have c: "c < 8" "length (procs (tab S)) = 8" "current_proc (tab S) = Some c"
    using assms(1) by (simp_all add: tab_ok_def)
  note f = exit_mark_facts [OF c(1,2)]
  let ?S = "exit_mark st c S"
  have ok: "tab_ok (tab ?S) c" "idle_proc (tab ?S) = Some d"
    using f(1) [of 0] f(2) [of 0] f(3) [of 0] c assms(2) by (simp_all add: tab_ok_def)
  obtain k1 h1 where y: "yield (tab ?S) (khart ?S) = Some (k1, h1)"
    using yield_total [OF ok] by blast
  obtain n where n: "tab_ok k1 n" "idle_proc k1 = Some d" "\<forall>i<8. rebudgeted (procs (tab ?S) ! i) (procs k1 ! i)"
    "\<forall>i<8. is_schedulable (procs k1 ! i) = is_schedulable (procs (tab ?S) ! i)" "n = d \<or> is_schedulable (procs (tab ?S) ! n)"
    by (rule yield_keeps_schedulable [OF ok assms(3) y])
  define S' where "S' = ?S\<lparr>tab := k1, khart := h1\<rparr>"
  have run: "proc_exit st S = Inr S'"
    using c(3) y by (simp add: proc_exit_def sys_do_yield_def S'_def)
  have at: "rebudgeted (proc_at i ?S) (proc_at i S')" if "i < 8" for i
    using n(3) that by (simp add: proc_at_def S'_def)
  note cc = rebudgetedD [OF at [OF c(1)], unfolded f(6) [OF c(1)]]
  have zombie: "state (proc_at c S') = PROC_ZOMBIE" "exit_status (proc_at c S') = st" "\<forall>f\<in>set (fds (proc_at c S')). \<not> fd_used f"
    using cc by (auto simp: close_all_def no_file_def)
  then have ns: "\<not> is_schedulable (procs k1 ! c)"
    by (simp add: is_schedulable_def proc_at_def S'_def)
  then have "n \<noteq> c"
    using n(4,5) c(1) assms(4) by auto
  then have never: "current_proc k' \<noteq> Some c" if "yields m k1 h1 = Some (k', h')" for m k' h'
    using never_chosen [OF n(1,2) assms(3) c(1) _ _ ns that] assms(4) by blast
  have "state (proc_at i S') = PROC_RUNNABLE"
    if "i < 8" "state (proc_at i S) = PROC_BLOCKED" "pid (proc_at i S) = parent_pid (proc_at c S)" for i
  proof -
    have "i \<noteq> c"
      using that(2) assms(6) by auto
    then show ?thesis
      using rebudgetedD(1) [OF at [OF that(1)]] f(8) [OF that(1) _ assms(5) _ that(3,2)] assms(6) by simp
  qed
  then show ?thesis
    using run zombie never by (intro exI [of _ S']) (simp add: S'_def)
qed

text \<open>
  C26. \<^verbatim>\<open>proc_exit\<close> turns the caller into a zombie that keeps its exit status and has no open file, makes
  its parent runnable when the parent is blocked, and hands the hart to another process; no
  number of further yields ever makes the zombie current again, so its final loop is never
  entered a second time.
\<close>

theorem proc_exit_correct:
  assumes "tab_ok (tab S) c" and "idle_proc (tab S) = Some d" and "d < 8" and "d \<noteq> c" and "pids_ok S"
    and "state (proc_at c S) = PROC_RUNNABLE"
  shows "\<exists>S'. proc_exit st S = Inr S' \<and>
    state (proc_at c S') = PROC_ZOMBIE \<and> exit_status (proc_at c S') = st \<and> (\<forall>f\<in>set (fds (proc_at c S')). \<not> fd_used f) \<and>
    (\<forall>i<8. state (proc_at i S) = PROC_BLOCKED \<and> pid (proc_at i S) = parent_pid (proc_at c S) \<longrightarrow>
      state (proc_at i S') = PROC_RUNNABLE) \<and>
    (\<forall>m k' h'. yields m (tab S') (khart S') = Some (k', h') \<longrightarrow> current_proc k' \<noteq> Some c)"
  by (rule proc_exit_spec [OF assms])



section \<open>Witnesses\<close>

definition sample_sys :: "vm \<Rightarrow> sys" where
  "sample_sys v = \<lparr>tab = sample_tab, kvm = v, khart = hart_boot\<rparr>"

lemma sample_sys_simps [simp]:
  "tab (sample_sys v) = sample_tab" "kvm (sample_sys v) = v" "khart (sample_sys v) = hart_boot"
  by (simp_all add: sample_sys_def)


lemma sample_sys_pids: "pids_ok (sample_sys v)"
  by (auto simp: pids_ok_def proc_at_def sample_tab_def nth_list_update)

theorem proc_exit_correct_witness:
  "\<exists>S'. proc_exit 7 (sample_sys \<lparr>pa_state = pa_boot (\<lambda>_. 0), kernel_root_pt = 0, kernel_satp_value = 0\<rparr>) = Inr S' \<and>
     state (proc_at 2 S') = PROC_ZOMBIE \<and> exit_status (proc_at 2 S') = 7"
proof -
  have "state (proc_at 2 (sample_sys v)) = PROC_RUNNABLE" for v
    by (simp add: proc_at_def sample_tab_def)
  then show ?thesis
    using proc_exit_correct [OF _ _ _ _ sample_sys_pids, of _ 2 0 7] sample_tab_ok(1,2) by fastforce
qed

text \<open>A process with a zombie child.\<close>

definition waiting_sys :: sys where
  "waiting_sys =
     \<lparr>tab = \<lparr>procs = (replicate 8 zero_process)[1 := zero_process\<lparr>pid := 2, state := PROC_ZOMBIE, parent_pid := 3, exit_status := 9\<rparr>,
        2 := zero_process\<lparr>pid := 3, state := PROC_RUNNABLE\<rparr>], current_proc = Some 2, idle_proc = Some 0\<rparr>,
      kvm = \<lparr>pa_state = pa_boot (\<lambda>_. 0), kernel_root_pt = 0, kernel_satp_value = 0\<rparr>, khart = hart_boot\<rparr>"


end
