(* ===== verification/Bytes.thy ===== *)
theory Bytes
  imports Prelude
begin

text \<open>
  Byte buffers and packed C structures. A buffer is a list of bytes; reading or writing outside it
  is undefined. A packed structure is the list of its fields with their sizes in the order of its
  declaration, so that the offset of a field is computed from the declaration.
\<close>

section \<open>Buffers\<close>

definition sub_bytes :: "u8 list \<Rightarrow> nat \<Rightarrow> nat \<Rightarrow> u8 list kres" where
  "sub_bytes bs off n = (if off + n \<le> length bs then Inr (take n (drop off bs)) else Inl Undefined_behaviour)"

definition put_bytes :: "u8 list \<Rightarrow> nat \<Rightarrow> u8 list \<Rightarrow> u8 list kres" where
  "put_bytes bs off xs =
     (if off + length xs \<le> length bs then Inr (take off bs @ xs @ drop (off + length xs) bs) else Inl Undefined_behaviour)"

lemma sub_bytes_Inr: "sub_bytes bs off n = Inr xs \<longleftrightarrow> off + n \<le> length bs \<and> xs = take n (drop off bs)"
  by (auto simp: sub_bytes_def)

lemma put_bytes_Inr:
  "put_bytes bs off xs = Inr ys \<longleftrightarrow> off + length xs \<le> length bs \<and> ys = take off bs @ xs @ drop (off + length xs) bs"
  by (auto simp: put_bytes_def)

lemma length_put_bytes: "put_bytes bs off xs = Inr ys \<Longrightarrow> length ys = length bs"
  by (auto simp: put_bytes_Inr)

lemma sub_put_same: "put_bytes bs off xs = Inr ys \<Longrightarrow> sub_bytes ys off (length xs) = Inr xs"
  by (auto simp: put_bytes_Inr sub_bytes_def)

lemma sub_put_other:
  assumes "put_bytes bs off xs = Inr ys" and "p + n \<le> off \<or> off + length xs \<le> p"
  shows "sub_bytes ys p n = sub_bytes bs p n"
proof -
  have o1: "off + length xs \<le> length bs" "ys = take off bs @ xs @ drop (off + length xs) bs"
    using assms(1) by (simp_all add: put_bytes_Inr)
  have len: "length ys = length bs"
    by (rule length_put_bytes [OF assms(1)])
  have "take n (drop p ys) = take n (drop p bs)" if "p + n \<le> length bs"
  proof (rule nth_equalityI)
    show "length (take n (drop p ys)) = length (take n (drop p bs))"
      by (simp add: len)
    fix i assume "i < length (take n (drop p ys))"
    then have i: "i < n" "p + i < length bs"
      using that len by simp_all
    then have "ys ! (p + i) = bs ! (p + i)"
      using assms(2) o1 by (auto simp: nth_append)
    then show "take n (drop p ys) ! i = take n (drop p bs) ! i"
      using i that len by simp
  qed
  then show ?thesis
    by (simp add: sub_bytes_def len)
qed

section \<open>Little-endian numbers\<close>

definition le16 :: "u8 list \<Rightarrow> u16" where
  "le16 bs = ucast (bs ! 0) OR push_bit 8 (ucast (bs ! 1))"

definition le32 :: "u8 list \<Rightarrow> u32" where
  "le32 bs = ucast (bs ! 0) OR push_bit 8 (ucast (bs ! 1)) OR push_bit 16 (ucast (bs ! 2)) OR push_bit 24 (ucast (bs ! 3))"

definition bytes16 :: "u16 \<Rightarrow> u8 list" where
  "bytes16 w = [ucast w, ucast (drop_bit 8 w)]"

definition bytes32 :: "u32 \<Rightarrow> u8 list" where
  "bytes32 w = [ucast w, ucast (drop_bit 8 w), ucast (drop_bit 16 w), ucast (drop_bit 24 w)]"

lemma le16_bytes [simp]: "le16 (bytes16 w) = w"
proof (rule bit_word_eqI)
  fix n assume "n < LENGTH(16)"
  then show "bit (le16 (bytes16 w)) n = bit w n"
    by (cases "n < 8") (auto simp: le16_def bytes16_def bit_simps)
qed

lemma le32_bytes [simp]: "le32 (bytes32 w) = w"
proof (rule bit_word_eqI)
  fix n assume n: "n < LENGTH(32)"
  consider "n < 8" | "8 \<le> n" "n < 16" | "16 \<le> n" "n < 24" | "24 \<le> n"
    by linarith
  then show "bit (le32 (bytes32 w)) n = bit w n"
    using n by cases (auto simp: le32_def bytes32_def bit_simps)
qed

lemma sint_of_nat_small: "n < 2 ^ 31 \<Longrightarrow> sint (of_nat n :: u32) = int n"
  by (simp add: signed_of_nat signed_take_bit_int_eq_self)

lemma sint_small: "unat w < 2 ^ 31 \<Longrightarrow> sint (w :: u32) = int (unat w)"
  using sint_of_nat_small [of "unat w"] by simp

section \<open>Packed structures\<close>

type_synonym layout = "(string \<times> nat) list"

fun offset_of :: "layout \<Rightarrow> string \<Rightarrow> nat" where
  "offset_of [] f = 0"
| "offset_of ((g, n) # fs) f = (if f = g then 0 else n + offset_of fs f)"

definition size_of :: "layout \<Rightarrow> nat" where
  "size_of fs = sum_list (map snd fs)"

definition get8 :: "layout \<Rightarrow> string \<Rightarrow> u8 list \<Rightarrow> nat \<Rightarrow> u8 kres" where
  "get8 lay f bs off = kbind (sub_bytes bs (off + offset_of lay f) 1) (\<lambda>xs. Inr (xs ! 0))"

definition get16 :: "layout \<Rightarrow> string \<Rightarrow> u8 list \<Rightarrow> nat \<Rightarrow> u16 kres" where
  "get16 lay f bs off = kbind (sub_bytes bs (off + offset_of lay f) 2) (\<lambda>xs. Inr (le16 xs))"

definition get32 :: "layout \<Rightarrow> string \<Rightarrow> u8 list \<Rightarrow> nat \<Rightarrow> u32 kres" where
  "get32 lay f bs off = kbind (sub_bytes bs (off + offset_of lay f) 4) (\<lambda>xs. Inr (le32 xs))"

end
