(* ===== verification/Cstr.thy ===== *)
theory Cstr
  imports Memory
begin

text \<open>
  C strings: the string functions of \<^verbatim>\<open>lib/string.c\<close> over byte memory, and the helpers \<^verbatim>\<open>str_len\<close> and
  \<^verbatim>\<open>str_eq\<close> that \<^verbatim>\<open>fs/fs.c\<close> and \<^verbatim>\<open>fs/ext4.c\<close> share, over the bytes of a string before its
  terminator. A loop that runs to the terminator is a \<open>partial_function\<close>: \<open>None\<close> means that it
  never meets one.
\<close>

type_synonym cstr = "u8 list"

section \<open>Model\<close>

text \<open>\<^verbatim>\<open>while ((*p++ = *src++)) ;\<close>\<close>

partial_function (option) strcpy_loop :: "u32 \<Rightarrow> u32 \<Rightarrow> mem \<Rightarrow> mem option" where
  "strcpy_loop p src m =
     (let c = m src; m = m(p := c) in if c = 0 then Some m else strcpy_loop (p + 1) (src + 1) m)"

definition strcpy :: "u32 \<Rightarrow> u32 \<Rightarrow> mem \<Rightarrow> mem option" where
  "strcpy dst src m = strcpy_loop dst src m"

text \<open>
  \<^verbatim>\<open>while (n > 0 && (*p++ = *src++)) n--;\<close> The pointer moves past the terminator it stored, but the
  counter does not.
\<close>

fun strncpy_copy :: "u32 \<Rightarrow> u32 \<Rightarrow> nat \<Rightarrow> mem \<Rightarrow> u32 \<times> nat \<times> mem" where
  "strncpy_copy p src 0 m = (p, 0, m)"
| "strncpy_copy p src (Suc n) m =
     (let c = m src; m = m(p := c) in
      if c \<noteq> 0 then strncpy_copy (p + 1) (src + 1) n m else (p + 1, Suc n, m))"

definition strncpy :: "u32 \<Rightarrow> u32 \<Rightarrow> u32 \<Rightarrow> mem \<Rightarrow> mem" where
  "strncpy dst src n m = (let (p, n, m) = strncpy_copy dst src (unat n) m in memset_loop p 0 n m)"

partial_function (option) strcmp_loop :: "u32 \<Rightarrow> u32 \<Rightarrow> mem \<Rightarrow> (u32 \<times> u32) option" where
  "strcmp_loop s1 s2 m =
     (if m s1 \<noteq> 0 \<and> m s2 \<noteq> 0 \<and> m s1 = m s2 then strcmp_loop (s1 + 1) (s2 + 1) m else Some (s1, s2))"

definition strcmp :: "u32 \<Rightarrow> u32 \<Rightarrow> mem \<Rightarrow> int option" where
  "strcmp s1 s2 m = map_option (\<lambda>(s1, s2). uint (m s1) - uint (m s2)) (strcmp_loop s1 s2 m)"

fun str_len :: "cstr \<Rightarrow> u32" where
  "str_len [] = 0"
| "str_len (_ # s) = 1 + str_len s"

fun str_eq :: "cstr \<Rightarrow> cstr \<Rightarrow> bool" where
  "str_eq (a # as) (b # bs) = (if a \<noteq> b then False else str_eq as bs)"
| "str_eq [] [] = True"
| "str_eq _ _ = False"

lemma str_eq_iff [simp]: "str_eq a b \<longleftrightarrow> a = b"
  by (induction a b rule: str_eq.induct) auto

lemma str_len_eq [simp]: "str_len s = of_nat (length s)"
  by (induction s) auto

section \<open>Strings in memory\<close>

text \<open>The bytes \<open>xs\<close>, none of them zero, and a terminator stand at address \<open>a\<close>.\<close>

fun cstr_at :: "mem \<Rightarrow> u32 \<Rightarrow> cstr \<Rightarrow> bool" where
  "cstr_at m a [] \<longleftrightarrow> m a = 0"
| "cstr_at m a (x # xs) \<longleftrightarrow> x \<noteq> 0 \<and> m a = x \<and> cstr_at m (a + 1) xs"

lemma cstr_at_frame:
  "cstr_at m a xs \<Longrightarrow> length xs < unat (p - a) \<Longrightarrow> cstr_at (m(p := v)) a xs"
proof (induction xs arbitrary: a)
  case Nil
  then have "p \<noteq> a"
    by (auto simp: unat_eq_zero)
  then show ?case
    using Nil by simp
next
  case (Cons x xs)
  have ne: "p - a \<noteq> 0"
    using Cons.prems(2) by auto
  then have "unat (p - (a + 1)) = unat (p - a) - 1"
    by (simp add: diff_diff_eq [symmetric] unat_minus_one)
  then show ?case
    using Cons.prems Cons.IH [of "a + 1"] ne by auto
qed

fun lex_less :: "cstr \<Rightarrow> cstr \<Rightarrow> bool" where
  "lex_less [] ys \<longleftrightarrow> ys \<noteq> []"
| "lex_less (x # xs) [] \<longleftrightarrow> False"
| "lex_less (x # xs) (y # ys) \<longleftrightarrow> x < y \<or> x = y \<and> lex_less xs ys"

lemma strcmp_spec:
  "cstr_at m a xs \<Longrightarrow> cstr_at m b ys \<Longrightarrow>
    \<exists>d. strcmp a b m = Some d \<and> (d = 0 \<longleftrightarrow> xs = ys) \<and> (d < 0 \<longleftrightarrow> lex_less xs ys)"
proof (induction xs ys arbitrary: a b rule: lex_less.induct)
  case (1 ys)
  then show ?case
    by (cases ys) (auto simp: strcmp_def strcmp_loop.simps [of a b] uint_0_iff order.strict_iff_order)
next
  case (2 x xs)
  then show ?case
    by (auto simp: strcmp_def strcmp_loop.simps [of a b] uint_0_iff)
next
  case (3 x xs y ys)
  show ?case
  proof (cases "x = y")
    case True
    have "strcmp a b m = strcmp (a + 1) (b + 1) m"
      using "3.prems" True by (simp add: strcmp_def strcmp_loop.simps [of a b])
    then show ?thesis
      using "3.IH" [of "a + 1" "b + 1"] "3.prems" True by auto
  next
    case False
    then show ?thesis
      using "3.prems" by (auto simp: strcmp_def strcmp_loop.simps [of a b] word_less_def word_uint_eq_iff)
  qed
qed

lemma memset_loop_here: "memset_loop p c n m x = (if unat (x - p) < n then c else m x)" if "n \<le> 2 ^ 32"
  using memset_loop_eq [OF that] by simp

text \<open>
  The copying loop: with the source string shorter than the bound it stores the string and its
  terminator and leaves the counter one too high; otherwise it stores exactly \<open>n\<close> bytes.
\<close>

definition stored :: "u32 \<Rightarrow> u8 list \<Rightarrow> mem \<Rightarrow> mem" where
  "stored d bs m = (\<lambda>x. if unat (x - d) < length bs then bs ! unat (x - d) else m x)"

lemma stored_Nil [simp]: "stored d [] m = m"
  by (simp add: stored_def)

lemma stored_Cons:
  assumes "length bs < 2 ^ 32"
  shows "stored (d + 1) bs (m(d := b)) = stored d (b # bs) m"
proof
  fix x
  show "stored (d + 1) bs (m(d := b)) x = stored d (b # bs) m x"
  proof (cases "x = d")
    case True
    have "\<not> unat (d - (d + 1)) < length bs"
      using assms by (simp add: unat_minus_one_u32)
    then show ?thesis
      using True by (simp add: stored_def)
  next
    case False
    then have nz: "unat (x - d) \<noteq> 0" "x - d \<noteq> 0"
      by (simp_all add: unat_eq_zero)
    then have "unat (x - (d + 1)) = unat (x - d) - 1"
      by (simp add: diff_diff_eq [symmetric] unat_minus_one)
    then show ?thesis
      using False nz(1) by (auto simp: stored_def nth_Cons')
  qed
qed

lemma strncpy_copy_short:
  assumes "cstr_at m s xs" and "length xs < n" and "n < 2 ^ 32" and "length xs < unat (d - s)"
  shows "strncpy_copy d s n m = (d + of_nat (length xs) + 1, n - length xs, stored d (xs @ [0]) m)"
  using assms
proof (induction xs arbitrary: d s n m)
  case Nil
  then obtain k where "n = Suc k"
    by (cases n) auto
  then show ?case
    using Nil by (auto simp: Let_def stored_Cons [of "[]", simplified])
next
  case (Cons x xs)
  then obtain k where k: "n = Suc k"
    by (cases n) auto
  have d: "unat (d - (s + 1)) = unat (d - s) - 1"
    using Cons.prems(4) by (subst diff_diff_eq [symmetric], subst unat_minus_one) auto
  have "cstr_at (m(d := x)) (s + 1) xs"
    using Cons.prems(1,4) d by (intro cstr_at_frame) auto
  then have "strncpy_copy (d + 1) (s + 1) k (m(d := x)) =
      (d + 1 + of_nat (length xs) + 1, k - length xs, stored (d + 1) (xs @ [0]) (m(d := x)))"
    by (rule Cons.IH) (use Cons.prems k in auto)
  moreover have "stored (d + 1) (xs @ [0]) (m(d := x)) = stored d ((x # xs) @ [0]) m"
    using Cons.prems(2,3) by (simp add: stored_Cons)
  ultimately show ?case
    using Cons.prems(1) k by (simp add: Let_def ac_simps)
qed

lemma strncpy_copy_long:
  assumes "\<forall>i<n. m (s + of_nat i) \<noteq> 0" and "n < 2 ^ 32" and "n \<le> unat (d - s)"
  shows "strncpy_copy d s n m = (d + of_nat n, 0, stored d (map (\<lambda>i. m (s + of_nat i)) [0..<n]) m)"
  using assms
proof (induction n arbitrary: d s m)
  case 0
  then show ?case by simp
next
  case (Suc n)
  have ne: "m s \<noteq> 0"
    using Suc.prems(1) [rule_format, of 0] by simp
  have same: "(m(d := m s)) (s + 1 + of_nat i) = m (s + of_nat (Suc i))" if "i < n" for i
  proof -
    have "s + of_nat (Suc i) \<noteq> d"
    proof
      assume "s + of_nat (Suc i) = d"
      then have "d - s = of_nat (Suc i)"
        by (metis add_diff_cancel_left')
      then have "unat (d - s) = Suc i"
        using that Suc.prems(2) by (simp only:) (subst unat_of_nat, simp)
      then show False
        using that Suc.prems(3) by simp
    qed
    then show ?thesis
      by (simp add: ac_simps)
  qed
  let ?bs = "map (\<lambda>i. m (s + of_nat (Suc i))) [0..<n]"
  have mp: "map (\<lambda>i. (m(d := m s)) (s + 1 + of_nat i)) [0..<n] = ?bs"
    using same by simp
  have "strncpy_copy (d + 1) (s + 1) n (m(d := m s)) =
      (d + 1 + of_nat n, 0, stored (d + 1) (map (\<lambda>i. (m(d := m s)) (s + 1 + of_nat i)) [0..<n]) (m(d := m s)))"
  proof (rule Suc.IH)
    show "\<forall>i<n. (m(d := m s)) (s + 1 + of_nat i) \<noteq> 0"
      using same Suc.prems(1) by auto
  qed (use Suc.prems in auto)
  then have "strncpy_copy (d + 1) (s + 1) n (m(d := m s)) = (d + of_nat (Suc n), 0, stored d (m s # ?bs) m)"
    unfolding mp using Suc.prems(2) stored_Cons [of ?bs d m "m s"] by (simp add: ac_simps)
  moreover have "map (\<lambda>i. m (s + of_nat i)) [0..<Suc n] = m s # ?bs"
    by (simp add: map_upt_Suc del: upt_Suc)
  ultimately show ?case
    using ne by (simp add: Let_def del: upt_Suc)
qed

lemma stored_pad:
  assumes "length bs + k < 2 ^ 32"
  shows "memset_loop (d + of_nat (length bs)) 0 k (stored d bs m) = stored d (bs @ replicate k 0) m"
proof
  fix x
  let ?e = "d + of_nat (length bs)"
  have l: "unat (of_nat (length bs) :: u32) = length bs"
    using assms by (subst unat_of_nat) simp
  have "unat (x - ?e) < k \<longleftrightarrow> length bs \<le> unat (x - d) \<and> unat (x - d) < length bs + k"
  proof (cases "length bs \<le> unat (x - d)")
    case True
    then have "unat (x - d - of_nat (length bs)) = unat (x - d) - length bs"
      by (simp add: unat_sub word_le_nat_alt l)
    then show ?thesis
      using True by (auto simp: diff_diff_eq)
  next
    case False
    have "x - ?e = (x - d) - of_nat (length bs)"
      by (simp add: diff_diff_eq)
    then have "unat (x - ?e) = unat (x - d) + 4294967296 - length bs"
      using False l by (simp only: unat_sub_if_size word_size) (simp add: word_le_nat_alt)
    then show ?thesis
      using False assms by simp
  qed
  then show "memset_loop ?e 0 k (stored d bs m) x = stored d (bs @ replicate k 0) m x"
    using assms by (auto simp: memset_loop_eq stored_def nth_append)
qed

section \<open>Properties\<close>

text \<open>
  \<^verbatim>\<open>strncpy\<close> with a source string shorter than the bound \<open>n\<close> stores \<open>n + 1\<close> bytes: the string and
  zeros up to and including offset \<open>n\<close>, one byte past the buffer of \<open>n\<close> bytes it was given. With a
  source at least as long as the bound it stores exactly the first \<open>n\<close> bytes and no terminator.
\<close>

theorem strncpy_writes:
  assumes "unat n < 2 ^ 32 - 1" and "unat n < unat (d - s)"
  shows "(\<forall>xs. cstr_at m s xs \<and> length xs < unat n \<longrightarrow>
      strncpy d s n m = stored d (xs @ replicate (unat n + 1 - length xs) 0) m) \<and>
    ((\<forall>i<unat n. m (s + of_nat i) \<noteq> 0) \<longrightarrow>
      strncpy d s n m = stored d (map (\<lambda>i. m (s + of_nat i)) [0..<unat n]) m)"
proof (intro conjI allI impI)
  fix xs assume xs: "cstr_at m s xs \<and> length xs < unat n"
  have "strncpy_copy d s (unat n) m = (d + of_nat (length xs) + 1, unat n - length xs, stored d (xs @ [0]) m)"
    using xs assms by (intro strncpy_copy_short) auto
  moreover have "memset_loop (d + of_nat (length (xs @ [0]))) 0 (unat n - length xs) (stored d (xs @ [0]) m) =
      stored d ((xs @ [0]) @ replicate (unat n - length xs) 0) m"
    using xs assms(1) by (intro stored_pad) auto
  moreover have "(xs @ [0]) @ replicate (unat n - length xs) 0 = xs @ replicate (unat n + 1 - length xs) 0"
    using xs by (simp add: Suc_diff_le)
  ultimately show "strncpy d s n m = stored d (xs @ replicate (unat n + 1 - length xs) 0) m"
    by (simp add: strncpy_def ac_simps)
next
  assume "\<forall>i<unat n. m (s + of_nat i) \<noteq> 0"
  then have "strncpy_copy d s (unat n) m = (d + of_nat (unat n), 0, stored d (map (\<lambda>i. m (s + of_nat i)) [0..<unat n]) m)"
    using assms by (intro strncpy_copy_long) auto
  then show "strncpy d s n m = stored d (map (\<lambda>i. m (s + of_nat i)) [0..<unat n]) m"
    by (simp add: strncpy_def)
qed

theorem strncpy_writes_witness:
  "strncpy 0x2000 0x1000 4 ((\<lambda>_. 7)(0x1000 := 65, 0x1001 := 0)) 0x2004 = 0"
proof -
  let ?m = "(\<lambda>_. 7)(0x1000 := 65, 0x1001 := 0) :: mem"
  have "cstr_at ?m 0x1000 [65]"
    by simp
  then have "strncpy 0x2000 0x1000 4 ?m = stored 0x2000 ([65] @ replicate 4 0) ?m"
    using strncpy_writes [THEN conjunct1, rule_format, of 4 "0x2000" "0x1000" ?m "[65]"] by simp
  then show ?thesis
    by (simp add: stored_def)
qed

text \<open>
  \<^verbatim>\<open>strcmp\<close> of two terminated strings returns, and its result is zero exactly for equal strings
  and negative exactly when the first precedes the second in the order of unsigned bytes.
\<close>

theorem strcmp_correct:
  assumes "cstr_at m a xs" and "cstr_at m b ys"
  shows "\<exists>d. strcmp a b m = Some d \<and> (d = 0 \<longleftrightarrow> xs = ys) \<and> (d < 0 \<longleftrightarrow> lex_less xs ys)"
  by (rule strcmp_spec [OF assms])

theorem strcmp_correct_witness:
  "\<exists>d. strcmp 0x1000 0x1001 ((\<lambda>_. 0)(0x1000 := 65, 0x1001 := 66)) = Some d \<and> d < 0"
  using strcmp_correct [of "(\<lambda>_. 0)(0x1000 := 65, 0x1001 := 66)" "0x1000" "[65, 66]" "0x1001" "[66]"] by auto

end
