(* ===== verification/Ext4.thy ===== *)
theory Ext4
  imports Bytes Cstr
begin

text \<open>
  The read-only ext4 driver of \<^verbatim>\<open>fs/ext4.c\<close>. The block device is a function from sector numbers
  to the 512 bytes of the sector, \<open>None\<close> when \<^verbatim>\<open>blk_read\<close> fails. The packed structures are given by their
  declarations; accesses outside a buffer and divisions by zero are \<open>Undefined_behaviour\<close>.
\<close>

type_synonym blockdev = "u32 \<Rightarrow> u8 list option"

section \<open>On-disk structures\<close>

definition ext4_super :: layout where
  "ext4_super =
     [(''s_inodes_count'', 4), (''s_blocks_count_lo'', 4), (''s_r_blocks_count_lo'', 4), (''s_free_blocks_count_lo'', 4),
      (''s_free_inodes_count'', 4), (''s_first_data_block'', 4), (''s_log_block_size'', 4), (''s_log_cluster_size'', 4),
      (''s_blocks_per_group'', 4), (''s_clusters_per_group'', 4), (''s_inodes_per_group'', 4), (''s_mtime'', 4),
      (''s_wtime'', 4), (''s_mnt_count'', 2), (''s_max_mnt_count'', 2), (''s_magic'', 2), (''s_state'', 2),
      (''s_errors'', 2), (''s_minor_rev_level'', 2), (''s_lastcheck'', 4), (''s_checkinterval'', 4), (''s_creator_os'', 4),
      (''s_rev_level'', 4), (''s_def_resuid'', 2), (''s_def_resgid'', 2), (''s_first_ino'', 4), (''s_inode_size'', 2),
      (''s_block_group_nr'', 2), (''s_feature_compat'', 4), (''s_feature_incompat'', 4), (''s_feature_ro_compat'', 4),
      (''s_uuid'', 16), (''s_volume_name'', 16), (''s_last_mounted'', 64), (''s_algorithm_usage_bitmap'', 4),
      (''pad0'', 0xFE - 0x68 - 4), (''s_desc_size'', 2)]"

definition ext4_group_desc :: layout where
  "ext4_group_desc =
     [(''bg_block_bitmap_lo'', 4), (''bg_inode_bitmap_lo'', 4), (''bg_inode_table_lo'', 4), (''bg_free_blocks_count_lo'', 2),
      (''bg_free_inodes_count_lo'', 2), (''bg_used_dirs_count_lo'', 2), (''bg_flags'', 2), (''bg_exclude_bitmap_lo'', 4),
      (''bg_block_bitmap_csum_lo'', 2), (''bg_inode_bitmap_csum_lo'', 2), (''bg_itable_unused_lo'', 2), (''bg_checksum'', 2),
      (''bg_block_bitmap_hi'', 4), (''bg_inode_bitmap_hi'', 4), (''bg_inode_table_hi'', 4)]"

definition ext4_inode :: layout where
  "ext4_inode =
     [(''i_mode'', 2), (''i_uid'', 2), (''i_size_lo'', 4), (''i_atime'', 4), (''i_ctime'', 4), (''i_mtime'', 4), (''i_dtime'', 4),
      (''i_gid'', 2), (''i_links_count'', 2), (''i_blocks_lo'', 4), (''i_flags'', 4), (''i_osd1'', 4), (''i_block'', 60),
      (''i_generation'', 4), (''i_file_acl_lo'', 4), (''i_size_high'', 4), (''i_obso_faddr'', 4)]"

definition ext4_extent_header :: layout where
  "ext4_extent_header =
     [(''eh_magic'', 2), (''eh_entries'', 2), (''eh_max'', 2), (''eh_depth'', 2), (''eh_generation'', 4)]"

definition ext4_extent_idx :: layout where
  "ext4_extent_idx = [(''ei_block'', 4), (''ei_leaf_lo'', 4), (''ei_leaf_hi'', 2), (''ei_unused'', 2)]"

definition ext4_extent :: layout where
  "ext4_extent = [(''ee_block'', 4), (''ee_len'', 2), (''ee_start_hi'', 2), (''ee_start_lo'', 4)]"

definition ext4_dirent :: layout where
  "ext4_dirent = [(''inode'', 4), (''rec_len'', 2), (''name_len'', 1), (''file_type'', 1)]"

section \<open>State\<close>

record ext4_file_entry =
  fe_name :: cstr
  fe_inode :: u32

text \<open>\<open>root_files\<close> holds the first \<^verbatim>\<open>root_file_count\<close> entries of the array.\<close>

record ext4 =
  sb :: "u8 list"
  block_size :: u32
  inode_size :: u32
  groups_count :: u32
  desc_size :: u32
  mounted :: bool
  root_files :: "ext4_file_entry list"
  block_buf :: "u8 list"
  block_buf2 :: "u8 list"
  inode_buf :: "u8 list"

abbreviation EXT4_SUPER_MAGIC :: u16 where "EXT4_SUPER_MAGIC \<equiv> 0xEF53"
abbreviation EXT4_EXT_MAGIC :: u16 where "EXT4_EXT_MAGIC \<equiv> 0xf30a"
abbreviation EXT4_MAX_ROOT_ENTRIES :: nat where "EXT4_MAX_ROOT_ENTRIES \<equiv> 64"
abbreviation EXT4_NAME_MAX :: nat where "EXT4_NAME_MAX \<equiv> 64"

section \<open>Blocks\<close>

definition udiv :: "u32 \<Rightarrow> u32 \<Rightarrow> u32 kres" where
  "udiv a b = (if b = 0 then Inl Undefined_behaviour else Inr (a div b))"

definition umod :: "u32 \<Rightarrow> u32 \<Rightarrow> u32 kres" where
  "umod a b = (if b = 0 then Inl Undefined_behaviour else Inr (a mod b))"

fun read_sectors :: "blockdev \<Rightarrow> u32 \<Rightarrow> nat \<Rightarrow> nat \<Rightarrow> u8 list \<Rightarrow> (int \<times> u8 list) kres" where
  "read_sectors dev first_sector i 0 buf = Inr (0, buf)"
| "read_sectors dev first_sector i (Suc n) buf =
     (case dev (first_sector + of_nat i) of
        None \<Rightarrow> Inr (-1, buf)
      | Some bs \<Rightarrow> kbind (put_bytes buf (i * 512) bs) (read_sectors dev first_sector (Suc i) n))"

definition read_block :: "blockdev \<Rightarrow> ext4 \<Rightarrow> u32 \<Rightarrow> u8 list \<Rightarrow> (int \<times> u8 list) kres" where
  "read_block dev e block buf =
     (let sectors = block_size e div 512; first_sector = block * sectors
      in read_sectors dev first_sector 0 (unat sectors) buf)"

text \<open>The descriptor is returned as its bytes; \<open>None\<close> stands for the return value \<open>-1\<close>.\<close>

definition load_group_desc :: "blockdev \<Rightarrow> u32 \<Rightarrow> ext4 \<Rightarrow> (u8 list option \<times> ext4) kres" where
  "load_group_desc dev grp e =
     (let gd_table_block = (if block_size e = 1024 then 2 else 1) in
      kbind (udiv (block_size e) (desc_size e)) (\<lambda>gds_per_block.
      kbind (udiv grp gds_per_block) (\<lambda>q.
      kbind (umod grp gds_per_block) (\<lambda>index_in_block.
      kbind (read_block dev e (gd_table_block + q) (block_buf e)) (\<lambda>(rc, buf).
        let e = e\<lparr>block_buf := buf\<rparr> in
        if rc < 0 then Inr (None, e)
        else
          kbind (sub_bytes (block_buf e) (unat (index_in_block * desc_size e)) (size_of ext4_group_desc))
            (\<lambda>gd. Inr (Some gd, e)))))))"

definition fetch_inode :: "blockdev \<Rightarrow> u32 \<Rightarrow> u32 \<Rightarrow> ext4 \<Rightarrow> (u8 list option \<times> ext4) kres" where
  "fetch_inode dev block off_in_block e =
     kbind (read_block dev e block (block_buf e)) (\<lambda>(rc, buf).
       let e = e\<lparr>block_buf := buf\<rparr> in
       if rc < 0 then Inr (None, e)
       else if off_in_block + inode_size e \<le> block_size e then
         kbind (sub_bytes (block_buf e) (unat off_in_block) (unat (inode_size e))) (\<lambda>bs.
         kbind (put_bytes (inode_buf e) 0 bs) (\<lambda>ib.
         kbind (sub_bytes ib 0 (size_of ext4_inode)) (\<lambda>ino. Inr (Some ino, e\<lparr>inode_buf := ib\<rparr>))))
       else
         let first = block_size e - off_in_block in
         kbind (sub_bytes (block_buf e) (unat off_in_block) (unat first)) (\<lambda>bs.
         kbind (put_bytes (inode_buf e) 0 bs) (\<lambda>ib.
         kbind (read_block dev e (block + 1) (block_buf2 e)) (\<lambda>(rc, buf2).
           let e = e\<lparr>inode_buf := ib, block_buf2 := buf2\<rparr> in
           if rc < 0 then Inr (None, e)
           else
             kbind (sub_bytes (block_buf2 e) 0 (unat (inode_size e - first))) (\<lambda>bs.
             kbind (put_bytes (inode_buf e) (unat first) bs) (\<lambda>ib.
             kbind (sub_bytes ib 0 (size_of ext4_inode)) (\<lambda>ino. Inr (Some ino, e\<lparr>inode_buf := ib\<rparr>))))))))"

definition read_inode :: "blockdev \<Rightarrow> u32 \<Rightarrow> ext4 \<Rightarrow> (u8 list option \<times> ext4) kres" where
  "read_inode dev inum e =
     (if inum = 0 then Inr (None, e)
      else
        let idx = inum - 1 in
        kbind (get32 ext4_super ''s_inodes_per_group'' (sb e) 0) (\<lambda>ipg.
        kbind (udiv idx ipg) (\<lambda>grp.
        kbind (umod idx ipg) (\<lambda>local.
        kbind (load_group_desc dev grp e) (\<lambda>(r, e).
          case r of
            None \<Rightarrow> Inr (None, e)
          | Some gd \<Rightarrow>
              kbind (get32 ext4_group_desc ''bg_inode_table_hi'' gd 0) (\<lambda>hi.
                if hi \<noteq> 0 then Inr (None, e)
                else
                  kbind (get32 ext4_group_desc ''bg_inode_table_lo'' gd 0) (\<lambda>inode_table_block.
                    let inode_off = local * inode_size e in
                    kbind (udiv inode_off (block_size e)) (\<lambda>q.
                    kbind (umod inode_off (block_size e)) (\<lambda>off_in_block.
                      fetch_inode dev (inode_table_block + q) off_in_block e)))))))))"

section \<open>Extents\<close>

text \<open>The search of one extent array: \<open>None\<close> is the return value \<open>-1\<close>.\<close>

fun find_extent :: "u8 list \<Rightarrow> nat \<Rightarrow> u32 \<Rightarrow> nat list \<Rightarrow> u32 option kres" where
  "find_extent bs ex lblock [] = Inr None"
| "find_extent bs ex lblock (i # is) =
     kbind (get32 ext4_extent ''ee_block'' bs (ex + i * size_of ext4_extent)) (\<lambda>start.
     kbind (get16 ext4_extent ''ee_len'' bs (ex + i * size_of ext4_extent)) (\<lambda>ee_len.
       let len = (ucast (ee_len AND 0x7fff) :: u32) in
       if start \<le> lblock \<and> lblock < start + len then
         kbind (get16 ext4_extent ''ee_start_hi'' bs (ex + i * size_of ext4_extent)) (\<lambda>hi.
           if hi \<noteq> 0 then Inr None
           else
             kbind (get32 ext4_extent ''ee_start_lo'' bs (ex + i * size_of ext4_extent)) (\<lambda>lo.
               Inr (Some (lo + (lblock - start)))))
       else find_extent bs ex lblock is))"

fun choose_idx :: "u8 list \<Rightarrow> nat \<Rightarrow> u32 \<Rightarrow> nat list \<Rightarrow> nat option \<Rightarrow> nat option kres" where
  "choose_idx bs ix lblock [] chosen = Inr chosen"
| "choose_idx bs ix lblock (i # is) chosen =
     kbind (get32 ext4_extent_idx ''ei_block'' bs (ix + i * size_of ext4_extent_idx)) (\<lambda>b.
       if b \<le> lblock then choose_idx bs ix lblock is (Some i) else Inr chosen)"

definition extent_find_physical :: "blockdev \<Rightarrow> u8 list \<Rightarrow> u32 \<Rightarrow> ext4 \<Rightarrow> (u32 option \<times> ext4) kres" where
  "extent_find_physical dev ino lblock e =
     (let eh = offset_of ext4_inode ''i_block''; body = eh + size_of ext4_extent_header in
      kbind (get16 ext4_extent_header ''eh_magic'' ino eh) (\<lambda>magic.
        if magic \<noteq> EXT4_EXT_MAGIC then Inr (None, e)
        else
          kbind (get16 ext4_extent_header ''eh_depth'' ino eh) (\<lambda>depth.
          kbind (get16 ext4_extent_header ''eh_entries'' ino eh) (\<lambda>entries.
            if depth = 0 then
              kbind (find_extent ino body lblock [0..<unat entries]) (\<lambda>r. Inr (r, e))
            else if depth = 1 then
              kbind (choose_idx ino body lblock [0..<unat entries] None) (\<lambda>chosen.
                case chosen of
                  None \<Rightarrow> Inr (None, e)
                | Some i \<Rightarrow>
                    kbind (get16 ext4_extent_idx ''ei_leaf_hi'' ino (body + i * size_of ext4_extent_idx)) (\<lambda>hi.
                      if hi \<noteq> 0 then Inr (None, e)
                      else
                        kbind (get32 ext4_extent_idx ''ei_leaf_lo'' ino (body + i * size_of ext4_extent_idx)) (\<lambda>leaf.
                        kbind (read_block dev e leaf (block_buf e)) (\<lambda>(rc, buf).
                          let e = e\<lparr>block_buf := buf\<rparr> in
                          if rc < 0 then Inr (None, e)
                          else
                            kbind (get16 ext4_extent_header ''eh_magic'' (block_buf e) 0) (\<lambda>magic.
                            kbind (get16 ext4_extent_header ''eh_depth'' (block_buf e) 0) (\<lambda>depth.
                              if magic \<noteq> EXT4_EXT_MAGIC \<or> depth \<noteq> 0 then Inr (None, e)
                              else
                                kbind (get16 ext4_extent_header ''eh_entries'' (block_buf e) 0) (\<lambda>entries.
                                kbind (find_extent (block_buf e) (size_of ext4_extent_header) lblock [0..<unat entries])
                                  (\<lambda>r. Inr (r, e)))))))))
            else Inr (None, e)))))"

section \<open>File data\<close>

text \<open>
  The loop of \<^verbatim>\<open>inode_read_data\<close>, which appends to the bytes stored so far. Every round stores at
  least one byte: \<open>chunk\<close> is at least 1.
\<close>

function read_data_loop :: "blockdev \<Rightarrow> u8 list \<Rightarrow> u32 \<Rightarrow> u32 \<Rightarrow> u32 \<Rightarrow> ext4 \<Rightarrow> (u32 \<times> u8 list \<times> ext4) kres" where
  "read_data_loop dev ino off remaining done e =
     (if done < remaining then
        let pos = off + done in
        kbind (udiv pos (block_size e)) (\<lambda>lblock.
        kbind (umod pos (block_size e)) (\<lambda>boff.
          let chunk = block_size e - boff;
              chunk = (if remaining - done < chunk then remaining - done else chunk)
          in
          kbind (extent_find_physical dev ino lblock e) (\<lambda>(r, e').
            case r of
              None \<Rightarrow> Inr (done, [], e')
            | Some pblock \<Rightarrow>
                kbind (read_block dev e' pblock (block_buf e')) (\<lambda>(rc, buf).
                  let e'' = e'\<lparr>block_buf := buf\<rparr> in
                  if rc < 0 then Inr (done, [], e'')
                  else
                    kbind (sub_bytes (block_buf e'') (unat boff) (unat chunk)) (\<lambda>bs.
                      kbind (read_data_loop dev ino off remaining (done + chunk) e'')
                        (\<lambda>(d, rest, e). Inr (d, bs @ rest, e)))))))
      else Inr (done, [], e))"
  by pat_completeness auto
termination
proof (relation "measure (\<lambda>(dev, ino, off, remaining, done, e). unat remaining - unat done)", goal_cases)
  case 1
  show ?case by simp
next
  case (2 dev ino off remaining dn e pos lblock boff c chunk r e' rr pblock z rc buf e'' bs)
  have bs: "block_size e \<noteq> 0" "boff = pos mod block_size e"
    using 2(3,4) by (auto simp: udiv_def umod_def split: if_splits)
  have lt: "unat dn < unat remaining"
    using 2(1) by (simp add: word_less_nat_alt)
  have "boff < block_size e"
    using bs by (simp add: word_mod_less_divisor word_gt_0)
  then have "0 < unat (block_size e - boff)"
    by (simp add: unat_sub word_less_nat_alt word_le_nat_alt)
  moreover have "unat (remaining - dn) = unat remaining - unat dn"
    using lt by (simp add: unat_sub word_le_nat_alt)
  ultimately have c: "0 < unat chunk" "unat chunk \<le> unat remaining - unat dn"
    using lt 2(5,6) by (auto simp: word_less_nat_alt split: if_splits)
  then have "unat dn + unat chunk < 4294967296"
    using unat_lt_2p32 [of remaining] lt by linarith
  then have "unat (dn + chunk) = unat dn + unat chunk"
    by (rule unat_add_no_wrap)
  then show ?case
    using c lt by simp
qed

declare read_data_loop.simps [simp del]


definition inode_read_data :: "blockdev \<Rightarrow> u8 list \<Rightarrow> u32 \<Rightarrow> u32 \<Rightarrow> ext4 \<Rightarrow> (int \<times> u8 list \<times> ext4) kres" where
  "inode_read_data dev ino off len e =
     kbind (get32 ext4_inode ''i_size_high'' ino 0) (\<lambda>hi.
       if hi \<noteq> 0 then Inr (-1, [], e)
       else
         kbind (get32 ext4_inode ''i_size_lo'' ino 0) (\<lambda>file_size.
           if file_size \<le> off then Inr (0, [], e)
           else
             let remaining = (if file_size < off + len then file_size - off else len) in
             kbind (read_data_loop dev ino off remaining 0 e) (\<lambda>(done, bs, e). Inr (sint done, bs, e))))"

section \<open>The root directory\<close>

definition is_dot_name :: "u8 list \<Rightarrow> bool" where
  "is_dot_name name \<longleftrightarrow> name ! 0 = 0x2e \<and> (name ! 1 = 0 \<or> name ! 1 = 0x2e \<and> name ! 2 = 0)"

text \<open>
  The entries of one block: \<open>p\<close> starts at 0 and grows by at most \<open>65535\<close> while it is below \<open>4096\<close>, so
  the 32-bit position does not wrap. A stored name ends at its first zero byte.
\<close>

function scan_dirents :: "u8 list \<Rightarrow> nat \<Rightarrow> nat \<Rightarrow> ext4_file_entry list \<Rightarrow> ext4_file_entry list kres" where
  "scan_dirents buf n p files =
     (if p + size_of ext4_dirent \<le> n then
        kbind (get16 ext4_dirent ''rec_len'' buf p) (\<lambda>rec_len.
          if rec_len = 0 then Inr files
          else
            kbind (get32 ext4_dirent ''inode'' buf p) (\<lambda>ino.
            kbind (get8 ext4_dirent ''name_len'' buf p) (\<lambda>name_len.
              if ino \<noteq> 0 \<and> 0 < name_len \<and> unat name_len < EXT4_NAME_MAX then
                kbind (sub_bytes buf (p + size_of ext4_dirent) (unat name_len)) (\<lambda>bs.
                  let name = bs @ [0] in
                  if is_dot_name name then scan_dirents buf n (p + unat rec_len) files
                  else
                    let files = files @ [\<lparr>fe_name = takeWhile (\<lambda>b. b \<noteq> 0) name, fe_inode = ino\<rparr>] in
                    if EXT4_MAX_ROOT_ENTRIES \<le> length files then Inr files
                    else scan_dirents buf n (p + unat rec_len) files)
              else scan_dirents buf n (p + unat rec_len) files)))
      else Inr files)"
  by pat_completeness auto
termination
  by (relation "measure (\<lambda>(buf, n, p, files). n - p)")
    (auto simp: size_of_def ext4_dirent_def word_gt_0 unat_gt_0 intro!: diff_less_mono2)

declare scan_dirents.simps [simp del]

text \<open>
  The loop over the blocks of the directory. Reading one block at a block boundary takes a single
  round, in which \<^verbatim>\<open>memcpy\<close> copies \<^verbatim>\<open>block_buf\<close> onto itself. The offset may wrap for a directory close to
  4 GiB, so termination is not built in.
\<close>

partial_function (option) scan_blocks :: "blockdev \<Rightarrow> u8 list \<Rightarrow> u32 \<Rightarrow> u32 \<Rightarrow> ext4 \<Rightarrow> ext4 kres option" where
  "scan_blocks dev ino dsize off e =
     (if off < dsize \<and> length (root_files e) < EXT4_MAX_ROOT_ENTRIES then
        case kbind (inode_read_data dev ino off (block_size e) e) (\<lambda>(n, bs, e).
               if n \<le> 0 then Inr (None, e)
               else
                 kbind (put_bytes (block_buf e) 0 bs) (\<lambda>buf.
                 kbind (scan_dirents buf (nat n) 0 (root_files e)) (\<lambda>files.
                   Inr (Some (), e\<lparr>block_buf := buf, root_files := files\<rparr>)))) of
          Inl h \<Rightarrow> Some (Inl h)
        | Inr (None, e) \<Rightarrow> Some (Inr e)
        | Inr (Some _, e) \<Rightarrow> scan_blocks dev ino dsize (off + block_size e) e
      else Some (Inr e))"

declare scan_blocks.simps [code]

definition scan_root_dir :: "blockdev \<Rightarrow> ext4 \<Rightarrow> (int \<times> ext4) kres option" where
  "scan_root_dir dev e =
     (case read_inode dev 2 e of
        Inl h \<Rightarrow> Some (Inl h)
      | Inr (None, e) \<Rightarrow> Some (Inr (-1, e))
      | Inr (Some root, e) \<Rightarrow>
          (case get32 ext4_inode ''i_size_high'' root 0 of
             Inl h \<Rightarrow> Some (Inl h)
           | Inr hi \<Rightarrow>
               if hi \<noteq> 0 then Some (Inr (-1, e))
               else
                 (case get32 ext4_inode ''i_size_lo'' root 0 of
                    Inl h \<Rightarrow> Some (Inl h)
                  | Inr dsize \<Rightarrow>
                      map_option (\<lambda>r. kbind r (\<lambda>e. Inr (0, e))) (scan_blocks dev root dsize 0 (e\<lparr>root_files := []\<rparr>)))))"

section \<open>Mounting and the interface\<close>

text \<open>The checks of the superblock, up to the scan of the root directory.\<close>

definition mount_super :: "u8 list \<Rightarrow> ext4 \<Rightarrow> (int \<times> ext4) kres" where
  "mount_super sbraw e =
     kbind (sub_bytes sbraw 0 (size_of ext4_super)) (\<lambda>sbb.
       let e = e\<lparr>sb := sbb\<rparr> in
       kbind (get16 ext4_super ''s_magic'' (sb e) 0) (\<lambda>magic.
         if magic \<noteq> EXT4_SUPER_MAGIC then Inr (-13, e)
         else
           kbind (get32 ext4_super ''s_log_block_size'' (sb e) 0) (\<lambda>lg.
             if 32 \<le> lg then Inl Undefined_behaviour
             else
               let e = e\<lparr>block_size := push_bit (unat lg) 1024\<rparr> in
               if 4096 < block_size e then Inr (-14, e)
               else
                 kbind (get16 ext4_super ''s_inode_size'' (sb e) 0) (\<lambda>isz.
                 kbind (get16 ext4_super ''s_desc_size'' (sb e) 0) (\<lambda>dsz.
                 kbind (get32 ext4_super ''s_blocks_count_lo'' (sb e) 0) (\<lambda>blocks.
                 kbind (get32 ext4_super ''s_blocks_per_group'' (sb e) 0) (\<lambda>bpg.
                   let e = e\<lparr>inode_size := (if isz \<noteq> 0 then ucast isz else 128),
                             desc_size := (if dsz \<noteq> 0 then ucast dsz else 32)\<rparr> in
                   kbind (udiv (blocks + bpg - 1) bpg) (\<lambda>g.
                     let e = e\<lparr>groups_count := g\<rparr> in
                     if groups_count e = 0 then Inr (-15, e) else Inr (0, e)))))))))"

text \<open>\<open>blk_init_rc\<close> is what \<^verbatim>\<open>blk_init\<close> returns.\<close>

definition ext4_mount :: "blockdev \<Rightarrow> int \<Rightarrow> ext4 \<Rightarrow> (int \<times> ext4) kres option" where
  "ext4_mount dev blk_init_rc e =
     (if mounted e then Some (Inr (0, e))
      else if blk_init_rc < 0 then Some (Inr (-10, e))
      else
        (case dev 2 of
           None \<Rightarrow> Some (Inr (-11, e))
         | Some s2 \<Rightarrow>
             (case dev 3 of
                None \<Rightarrow> Some (Inr (-12, e))
              | Some s3 \<Rightarrow>
                  (case mount_super (s2 @ s3) e of
                     Inl h \<Rightarrow> Some (Inl h)
                   | Inr (rc, e) \<Rightarrow>
                       if rc < 0 then Some (Inr (rc, e))
                       else
                         (case scan_root_dir dev e of
                            None \<Rightarrow> None
                          | Some (Inl h) \<Rightarrow> Some (Inl h)
                          | Some (Inr (rc, e)) \<Rightarrow>
                              if rc < 0 then Some (Inr (-16, e)) else Some (Inr (0, e\<lparr>mounted := True\<rparr>)))))))"

definition ext4_lookup :: "ext4 \<Rightarrow> cstr \<Rightarrow> int" where
  "ext4_lookup e name =
     (if \<not> mounted e then -1
      else (case first_idx (\<lambda>f. str_eq (fe_name f) name) (root_files e) of None \<Rightarrow> -1 | Some i \<Rightarrow> int i))"

definition ext4_read_file :: "blockdev \<Rightarrow> int \<Rightarrow> u32 \<Rightarrow> u32 \<Rightarrow> ext4 \<Rightarrow> (int \<times> u8 list \<times> ext4) kres" where
  "ext4_read_file dev file_index offset len e =
     (if \<not> mounted e \<or> file_index < 0 \<or> int (length (root_files e)) \<le> file_index then Inr (-1, [], e)
      else
        kbind (read_inode dev (fe_inode (root_files e ! nat file_index)) e) (\<lambda>(r, e).
          case r of
            None \<Rightarrow> Inr (-1, [], e)
          | Some ino \<Rightarrow> inode_read_data dev ino offset len e))"

text \<open>
  The loop that \<^verbatim>\<open>ext4_listdir\<close> and \<^verbatim>\<open>fs_listdir\<close> share: names with a newline each, while they fit.
  It returns the bytes appended.
\<close>

fun list_names :: "cstr list \<Rightarrow> u32 \<Rightarrow> u32 \<Rightarrow> u8 list" where
  "list_names [] len out = []"
| "list_names (s # ss) len out =
     (let n = str_len s in
      if len \<le> out + n + 1 then [] else s @ [0x0a] @ list_names ss len (out + n + 1))"

text \<open>The value returned and the bytes stored, with the terminator when there is room for it.\<close>

definition ext4_listdir :: "u32 \<Rightarrow> ext4 \<Rightarrow> int \<times> u8 list" where
  "ext4_listdir len e =
     (if \<not> mounted e \<or> len = 0 then (-1, [])
      else
        let bs = list_names (map fe_name (root_files e)) len 0; out = of_nat (length bs) :: u32
        in (sint out, if out < len then bs @ [0] else bs))"

end
