(* ===== verification/Ext4_Data.thy ===== *)
theory Ext4_Data
  imports Ext4
begin

text \<open>
  Reading files of the ext4 driver: blocks, extents and the data loop against a reference definition
  of the contents of a file.
\<close>

section \<open>Blocks\<close>

definition dev_ok :: "blockdev \<Rightarrow> bool" where
  "dev_ok dev \<longleftrightarrow> (\<forall>s bs. dev s = Some bs \<longrightarrow> length bs = 512)"

text \<open>The contents of a block, when all its sectors can be read.\<close>

definition block_data :: "blockdev \<Rightarrow> u32 \<Rightarrow> u32 \<Rightarrow> u8 list option" where
  "block_data dev bsz block =
     (let n = bsz div 512; ss = map (\<lambda>i. dev (block * n + of_nat i)) [0..<unat n]
      in if None \<in> set ss then None else Some (concat (map the ss)))"

definition ext4_bufs :: "ext4 \<Rightarrow> bool" where
  "ext4_bufs e \<longleftrightarrow> length (block_buf e) = 4096 \<and> length (block_buf2 e) = 4096 \<and> length (inode_buf e) = 4096"

definition block_size_ok :: "u32 \<Rightarrow> bool" where
  "block_size_ok b \<longleftrightarrow> b = 1024 \<or> b = 2048 \<or> b = 4096"

lemma read_sectors_spec:
  fixes fs :: u32
  assumes "dev_ok dev" and "(i + n) * 512 \<le> length buf"
  defines "ss \<equiv> map (\<lambda>j. dev (fs + of_nat j)) [i..<i + n]"
  shows "None \<notin> set ss \<Longrightarrow> read_sectors dev fs i n buf =
      Inr (0, take (i * 512) buf @ concat (map the ss) @ drop ((i + n) * 512) buf)"
    and "None \<in> set ss \<Longrightarrow> \<exists>buf'. read_sectors dev fs i n buf = Inr (-1, buf') \<and> length buf' = length buf"
  using assms(2) unfolding ss_def
proof (induction n arbitrary: i buf)
  case 0
  {
    case 1
    then show ?case by simp
  next
    case 2
    then show ?case by simp
  }
next
  case (Suc n)
  have up: "[i..<i + Suc n] = i # [Suc i..<Suc i + n]" for i
    by (simp add: upt_rec)
  {
    case 1
    have "dev (fs + of_nat i) \<in> set (map (\<lambda>j. dev (fs + of_nat j)) [i..<i + Suc n])"
      unfolding set_map by (rule imageI) (simp del: upt_Suc)
    then obtain bs where bs: "dev (fs + of_nat i) = Some bs"
      using 1(1) by (metis not_None_eq)
    have l: "length bs = 512"
      using assms(1) bs by (simp add: dev_ok_def)
    let ?buf = "take (i * 512) buf @ bs @ drop (i * 512 + 512) buf"
    have put: "put_bytes buf (i * 512) bs = Inr ?buf"
      using 1(2) l by (simp add: put_bytes_def)
    have len: "length ?buf = length buf"
      using length_put_bytes [OF put] .
    have "take (Suc i * 512) ?buf = take (i * 512) buf @ bs"
      using 1(2) l by (simp add: take_append)
    moreover have "drop ((Suc i + n) * 512) ?buf = drop ((i + Suc n) * 512) buf"
      using 1(2) l by (simp add: drop_append ac_simps)
    moreover have "read_sectors dev fs (Suc i) n ?buf =
        Inr (0, take (Suc i * 512) ?buf @ concat (map the (map (\<lambda>j. dev (fs + of_nat j)) [Suc i..<Suc i + n])) @
          drop ((Suc i + n) * 512) ?buf)"
      using 1 len unfolding up by (intro Suc.IH(1)) (auto simp del: upt_Suc)
    moreover have "concat (map the (map (\<lambda>j. dev (fs + of_nat j)) [i..<i + Suc n])) =
        bs @ concat (map the (map (\<lambda>j. dev (fs + of_nat j)) [Suc i..<Suc i + n]))"
      by (simp only: up list.map concat.simps bs option.sel)
    ultimately show ?case
      using bs put by (simp del: upt_Suc map_map)
  next
    case 2
    show ?case
    proof (cases "dev (fs + of_nat i)")
      case None
      then show ?thesis by simp
    next
      case (Some bs)
      have l: "length bs = 512"
        using assms(1) Some by (simp add: dev_ok_def)
      let ?buf = "take (i * 512) buf @ bs @ drop (i * 512 + 512) buf"
      have put: "put_bytes buf (i * 512) bs = Inr ?buf"
        using 2(2) l by (simp add: put_bytes_def)
      have len: "length ?buf = length buf"
        using length_put_bytes [OF put] .
      have "\<exists>buf'. read_sectors dev fs (Suc i) n ?buf = Inr (-1, buf') \<and> length buf' = length ?buf"
        using 2 Some len unfolding up by (intro Suc.IH(2)) (auto simp del: upt_Suc)
      then show ?thesis
        using Some put len by auto
    qed
  }
qed

lemma of_nat_unat_id: "of_nat (unat w) = (w :: u32)"
  by simp

lemma block_size_cases:
  assumes "block_size_ok b"
  shows "unat (b div 512) * 512 = unat b" "unat b \<le> 4096" "0 < unat b" "b \<noteq> 0"
  using assms by (auto simp: block_size_ok_def)

lemma read_block_spec:
  assumes "dev_ok dev" and "block_size_ok (block_size e)" and "length buf = 4096"
  shows "block_data dev (block_size e) block = Some d \<Longrightarrow>
      read_block dev e block buf = Inr (0, d @ drop (unat (block_size e)) buf) \<and> length d = unat (block_size e)"
    and "block_data dev (block_size e) block = None \<Longrightarrow>
      \<exists>buf'. read_block dev e block buf = Inr (-1, buf') \<and> length buf' = 4096"
proof -
  let ?n = "unat (block_size e div 512)"
  note b = block_size_cases [OF assms(2)]
  have le: "(0 + ?n) * 512 \<le> length buf"
    using b assms(3) by simp
  note r = read_sectors_spec [OF assms(1) le, of "block * (block_size e div 512)"]
  have len: "length (concat (map the ss)) = 512 * length ss" if "\<forall>s\<in>set ss. \<exists>bs. s = Some bs \<and> length bs = 512" for ss :: "u8 list option list"
    using that by (induction ss) auto
  show "block_data dev (block_size e) block = Some d \<Longrightarrow>
      read_block dev e block buf = Inr (0, d @ drop (unat (block_size e)) buf) \<and> length d = unat (block_size e)"
  proof -
    assume d: "block_data dev (block_size e) block = Some d"
    let ?ss = "map (\<lambda>i. dev (block * (block_size e div 512) + of_nat i)) [0..<?n]"
    have ss: "None \<notin> set ?ss" "d = concat (map the ?ss)"
      using d by (auto simp: block_data_def Let_def split: if_splits)
    have "\<forall>s\<in>set ?ss. \<exists>bs. s = Some bs \<and> length bs = 512"
    proof
      fix s assume s: "s \<in> set ?ss"
      then obtain bs where "s = Some bs"
        using ss(1) by (metis not_None_eq)
      then show "\<exists>bs. s = Some bs \<and> length bs = 512"
        using s assms(1) by (auto simp: dev_ok_def)
    qed
    then have "length d = unat (block_size e)"
      using len [of ?ss] ss(2) b(1) by simp
    then show ?thesis
      using r(1) ss b(1) by (simp add: read_block_def Let_def)
  qed
  show "block_data dev (block_size e) block = None \<Longrightarrow>
      \<exists>buf'. read_block dev e block buf = Inr (-1, buf') \<and> length buf' = 4096"
    using r(2) assms(3) by (auto simp: block_data_def read_block_def Let_def split: if_splits)
qed


section \<open>The extent map of an inode\<close>

text \<open>
  Reference definitions on the decoded extents: an extent is its first logical block, its length and
  its physical start in two parts; an index entry is its first logical block and its leaf.
\<close>

definition extents_at :: "u8 list \<Rightarrow> nat \<Rightarrow> nat \<Rightarrow> (u32 \<times> u32 \<times> u16 \<times> u32) list" where
  "extents_at bs off n =
     map (\<lambda>i. let x = drop (off + i * 12) bs
               in (le32 (take 4 x), ucast (le16 (take 2 (drop 4 x)) AND 0x7fff),
                   le16 (take 2 (drop 6 x)), le32 (take 4 (drop 8 x)))) [0..<n]"

definition indices_at :: "u8 list \<Rightarrow> nat \<Rightarrow> nat \<Rightarrow> (u32 \<times> u32 \<times> u16) list" where
  "indices_at bs off n =
     map (\<lambda>i. let x = drop (off + i * 12) bs
               in (le32 (take 4 x), le32 (take 4 (drop 4 x)), le16 (take 2 (drop 8 x)))) [0..<n]"

fun lookup_extent :: "(u32 \<times> u32 \<times> u16 \<times> u32) list \<Rightarrow> u32 \<Rightarrow> u32 option" where
  "lookup_extent [] lblock = None"
| "lookup_extent ((start, len, hi, lo) # exs) lblock =
     (if start \<le> lblock \<and> lblock < start + len then if hi = 0 then Some (lo + (lblock - start)) else None
      else lookup_extent exs lblock)"

definition half :: "u8 list \<Rightarrow> nat \<Rightarrow> u16" where
  "half bs off = le16 (take 2 (drop off bs))"

text \<open>The physical block of a logical block: magic at 0, entry count at 2 and depth at 6 of a header.\<close>

definition leaf_block :: "u8 list \<Rightarrow> u32 \<Rightarrow> u32 option" where
  "leaf_block d lblock =
     (if half d 0 = EXT4_EXT_MAGIC \<and> half d 6 = 0 then lookup_extent (extents_at d 12 (unat (half d 2))) lblock
      else None)"

definition phys_block :: "blockdev \<Rightarrow> u32 \<Rightarrow> u8 list \<Rightarrow> u32 \<Rightarrow> u32 option" where
  "phys_block dev bsz ino lblock =
     (if half ino 40 \<noteq> EXT4_EXT_MAGIC then None
      else if half ino 46 = 0 then lookup_extent (extents_at ino 52 (unat (half ino 42))) lblock
      else if half ino 46 = 1 then
        (let before = takeWhile (\<lambda>(b, _). b \<le> lblock) (indices_at ino 52 (unat (half ino 42))) in
         if before = [] then None
         else
           (case last before of
              (_, leaf, hi) \<Rightarrow>
                if hi \<noteq> 0 then None
                else (case block_data dev bsz leaf of None \<Rightarrow> None | Some d \<Rightarrow> leaf_block d lblock)))
      else None)"

text \<open>
  A readable inode: its extent array has at most the four entries that fit into \<^verbatim>\<open>i_block\<close>, and a leaf
  has at most as many as fit into a block.
\<close>

definition inode_ok :: "blockdev \<Rightarrow> u32 \<Rightarrow> u8 list \<Rightarrow> bool" where
  "inode_ok dev bsz ino \<longleftrightarrow>
     length ino = size_of ext4_inode \<and> unat (half ino 42) \<le> 4 \<and>
     (half ino 46 = 1 \<longrightarrow>
        (\<forall>ix \<in> set (indices_at ino 52 (unat (half ino 42))). case ix of (_, leaf, _) \<Rightarrow>
           (case block_data dev bsz leaf of None \<Rightarrow> True | Some d \<Rightarrow> 12 + unat (half d 2) * 12 \<le> unat bsz)))"

lemmas ext4_sizes =
  ext4_inode_def ext4_extent_header_def ext4_extent_def ext4_extent_idx_def ext4_dirent_def ext4_group_desc_def
  ext4_super_def size_of_def

lemma get16_at: "off + offset_of lay f + 2 \<le> length bs \<Longrightarrow> get16 lay f bs off = Inr (half bs (off + offset_of lay f))"
  by (simp add: get16_def sub_bytes_def half_def)

lemma get32_at:
  "off + offset_of lay f + 4 \<le> length bs \<Longrightarrow> get32 lay f bs off = Inr (le32 (take 4 (drop (off + offset_of lay f) bs)))"
  by (simp add: get32_def sub_bytes_def)

lemma find_extent_spec:
  assumes "\<forall>i\<in>set is. off + i * 12 + 12 \<le> length bs"
  shows "find_extent bs off lblock is =
    Inr (lookup_extent
      (map (\<lambda>i. let x = drop (off + i * 12) bs
               in (le32 (take 4 x), ucast (le16 (take 2 (drop 4 x)) AND 0x7fff),
                   le16 (take 2 (drop 6 x)), le32 (take 4 (drop 8 x)))) is) lblock)"
  using assms
proof (induction "is")
  case (Cons i "is")
  have sz: "size_of ext4_extent = 12"
    by (simp add: ext4_sizes)
  have "off + i * 12 + 12 \<le> length bs"
    using Cons.prems by simp
  then have g: "get32 ext4_extent ''ee_block'' bs (off + i * 12) = Inr (le32 (take 4 (drop (off + i * 12) bs)))"
    "get16 ext4_extent ''ee_len'' bs (off + i * 12) = Inr (le16 (take 2 (drop 4 (drop (off + i * 12) bs))))"
    "get16 ext4_extent ''ee_start_hi'' bs (off + i * 12) = Inr (le16 (take 2 (drop 6 (drop (off + i * 12) bs))))"
    "get32 ext4_extent ''ee_start_lo'' bs (off + i * 12) = Inr (le32 (take 4 (drop 8 (drop (off + i * 12) bs))))"
    by (simp_all add: get16_at get32_at ext4_extent_def half_def add.commute)
  show ?case
    using Cons by (simp add: sz g Let_def)
qed simp

lemma find_extent_array:
  "off + n * 12 \<le> length bs \<Longrightarrow> find_extent bs off lblock [0..<n] = Inr (lookup_extent (extents_at bs off n) lblock)"
  unfolding extents_at_def by (rule find_extent_spec) auto

lemma choose_idx_spec:
  fixes n :: nat
  assumes "off + n * 12 \<le> length bs" and "k \<le> n"
  shows "choose_idx bs off lblock [k..<n] c =
    Inr (let t = takeWhile (\<lambda>i. le32 (take 4 (drop (off + i * 12) bs)) \<le> lblock) [k..<n]
         in if t = [] then c else Some (last t))"
  using assms(2)
proof (induction "n - k" arbitrary: k c)
  case (Suc m)
  then have k: "[k..<n] = k # [Suc k..<n]"
    by (simp add: upt_conv_Cons)
  have sz: "size_of ext4_extent_idx = 12"
    by (simp add: ext4_sizes)
  have "off + k * 12 + 12 \<le> length bs"
    using assms(1) Suc by linarith
  then have g: "get32 ext4_extent_idx ''ei_block'' bs (off + k * 12) = Inr (le32 (take 4 (drop (off + k * 12) bs)))"
    by (simp add: get32_at ext4_extent_idx_def)
  show ?case
    using Suc(1) [of "Suc k" "Some k"] Suc(2,3) by (simp add: k g sz Let_def)
qed simp

lemma takeWhile_indices:
  "takeWhile (\<lambda>(b, _). b \<le> lblock) (indices_at bs off n) =
    map (\<lambda>i. let x = drop (off + i * 12) bs
              in (le32 (take 4 x), le32 (take 4 (drop 4 x)), le16 (take 2 (drop 8 x))))
      (takeWhile (\<lambda>i. le32 (take 4 (drop (off + i * 12) bs)) \<le> lblock) [0..<n])"
  by (simp add: indices_at_def takeWhile_map comp_def Let_def case_prod_unfold)

lemma block_data_length: "dev_ok dev \<Longrightarrow> block_size_ok bsz \<Longrightarrow> block_data dev bsz b = Some d \<Longrightarrow> length d = unat bsz"
  using read_block_spec(1) [of dev "\<lparr>sb = [], block_size = bsz, inode_size = 0, groups_count = 0, desc_size = 0,
    mounted = False, root_files = [], block_buf = [], block_buf2 = [], inode_buf = []\<rparr>" "replicate 4096 0" b d]
  by simp

lemma half_append: "off + 2 \<le> length d \<Longrightarrow> half (d @ r) off = half d off"
  by (simp add: half_def)

lemma extents_append: "off + n * 12 \<le> length d \<Longrightarrow> extents_at (d @ r) off n = extents_at d off n"
  unfolding extents_at_def by (rule map_cong) (auto simp: Let_def)

lemma extent_find_physical_spec:
  assumes dev: "dev_ok dev" and bsz: "block_size_ok (block_size e)" and buf: "length (block_buf e) = 4096"
    and ino: "inode_ok dev (block_size e) ino"
  shows "\<exists>buf. extent_find_physical dev ino lblock e =
      Inr (phys_block dev (block_size e) ino lblock, e\<lparr>block_buf := buf\<rparr>) \<and> length buf = 4096"
proof -
  let ?n = "unat (half ino 42)"
  let ?e = "\<lambda>b. e\<lparr>block_buf := b\<rparr>"
  have len: "length ino = 116"
    using ino by (simp add: inode_ok_def ext4_sizes)
  have n: "52 + ?n * 12 \<le> length ino"
    using ino len by (simp add: inode_ok_def)
  have off: "offset_of ext4_inode ''i_block'' = 40" "size_of ext4_extent_header = 12" "size_of ext4_extent_idx = 12"
    by (simp_all add: ext4_sizes)
  have hd: "get16 ext4_extent_header ''eh_magic'' ino 40 = Inr (half ino 40)"
    "get16 ext4_extent_header ''eh_depth'' ino 40 = Inr (half ino 46)"
    "get16 ext4_extent_header ''eh_entries'' ino 40 = Inr (half ino 42)"
    using len by (simp_all add: get16_at ext4_extent_header_def)
  note start = extent_find_physical_def Let_def off hd
  consider "half ino 40 \<noteq> EXT4_EXT_MAGIC" | "half ino 40 = EXT4_EXT_MAGIC" "half ino 46 = 0"
    | "half ino 40 = EXT4_EXT_MAGIC" "half ino 46 = 1"
    | "half ino 40 = EXT4_EXT_MAGIC" "half ino 46 \<noteq> 0" "half ino 46 \<noteq> 1"
    by blast
  then show ?thesis
  proof cases
    case 1
    then show ?thesis
      using buf by (intro exI [of _ "block_buf e"]) (simp add: start phys_block_def)
  next
    case 2
    then show ?thesis
      using buf find_extent_array [OF n] by (intro exI [of _ "block_buf e"]) (simp add: start phys_block_def)
  next
    case 4
    then show ?thesis
      using buf by (intro exI [of _ "block_buf e"]) (simp add: start phys_block_def)
  next
    case 3
    let ?t = "takeWhile (\<lambda>i. le32 (take 4 (drop (52 + i * 12) ino)) \<le> lblock) [0..<?n]"
    have tw: "takeWhile (\<lambda>(b, _). b \<le> lblock) (indices_at ino 52 ?n) = [] \<longleftrightarrow> ?t = []"
      by (simp add: takeWhile_indices)
    show ?thesis
    proof (cases "?t = []")
      case True
      then show ?thesis
        using 3 buf choose_idx_spec [OF n, of 0] tw
        by (intro exI [of _ "block_buf e"]) (simp add: start phys_block_def)
    next
      case False
      define i where "i = last ?t"
      let ?x = "drop (52 + i * 12) ino"
      have i: "i < ?n"
        using last_in_set [OF False] set_takeWhileD i_def by fastforce
      have lst: "last (takeWhile (\<lambda>(b, _). b \<le> lblock) (indices_at ino 52 ?n)) =
          (le32 (take 4 ?x), le32 (take 4 (drop 4 ?x)), half ino (52 + i * 12 + 8))"
        using False by (simp add: takeWhile_indices last_map i_def Let_def half_def add.commute)
      have "(le32 (take 4 ?x), le32 (take 4 (drop 4 ?x)), half ino (52 + i * 12 + 8)) \<in> set (indices_at ino 52 ?n)"
        using lst False tw last_in_set set_takeWhileD by metis
      then have leaf_ok: "\<forall>d. block_data dev (block_size e) (le32 (take 4 (drop 4 ?x))) = Some d \<longrightarrow>
          12 + unat (half d 2) * 12 \<le> unat (block_size e)"
        using ino 3 by (fastforce simp: inode_ok_def)
      have ix: "get16 ext4_extent_idx ''ei_leaf_hi'' ino (52 + i * 12) = Inr (half ino (52 + i * 12 + 8))"
        "get32 ext4_extent_idx ''ei_leaf_lo'' ino (52 + i * 12) = Inr (le32 (take 4 (drop 4 ?x)))"
        using i n by (simp_all add: get16_at get32_at ext4_extent_idx_def add.commute)
      note start3 = start 3 choose_idx_spec [OF n, of 0] False i_def [symmetric] ix phys_block_def tw lst
      show ?thesis
      proof (cases "half ino (52 + i * 12 + 8) = 0")
        case hi: False
        then show ?thesis
          using buf by (intro exI [of _ "block_buf e"]) (simp add: start3)
      next
        case hi: True
        show ?thesis
        proof (cases "block_data dev (block_size e) (le32 (take 4 (drop 4 ?x)))")
        case None
        then obtain b where "read_block dev e (le32 (take 4 (drop 4 ?x))) (block_buf e) = Inr (-1, b)" "length b = 4096"
          using read_block_spec(2) [OF dev bsz buf] by blast
        then show ?thesis
          using None hi by (intro exI [of _ b]) (simp add: start3)
      next
        case d: (Some d)
        let ?r = "drop (unat (block_size e)) (block_buf e)"
        have rb: "read_block dev e (le32 (take 4 (drop 4 ?x))) (block_buf e) = Inr (0, d @ ?r)" "length d = unat (block_size e)"
          using read_block_spec(1) [OF dev bsz buf d] by simp_all
        have big: "1024 \<le> length d" "length (d @ ?r) = 4096"
          using bsz rb(2) buf by (auto simp: block_size_ok_def)
        have lh: "get16 ext4_extent_header ''eh_magic'' (d @ ?r) 0 = Inr (half d 0)"
          "get16 ext4_extent_header ''eh_depth'' (d @ ?r) 0 = Inr (half d 6)"
          "get16 ext4_extent_header ''eh_entries'' (d @ ?r) 0 = Inr (half d 2)"
          using big by (simp_all add: get16_at ext4_extent_header_def half_append flip: numeral_2_eq_2)
        have fe: "find_extent (d @ ?r) 12 lblock [0..<unat (half d 2)] =
            Inr (lookup_extent (extents_at d 12 (unat (half d 2))) lblock)"
          using leaf_ok d rb(2) by (simp add: find_extent_array extents_append)
        show ?thesis
          using hi d rb lh fe big by (intro exI [of _ "d @ ?r"]) (simp add: start3 leaf_block_def)
      qed
      qed
    qed
  qed
qed

section \<open>The contents of a file\<close>

text \<open>The byte at a position of a file, when its block is mapped and can be read.\<close>

definition file_byte :: "blockdev \<Rightarrow> u32 \<Rightarrow> u8 list \<Rightarrow> nat \<Rightarrow> u8 option" where
  "file_byte dev bsz ino p =
     (case phys_block dev bsz ino (of_nat (p div unat bsz)) of
        None \<Rightarrow> None
      | Some pb \<Rightarrow> map_option (\<lambda>d. d ! (p mod unat bsz)) (block_data dev bsz pb))"

definition readable_bytes :: "blockdev \<Rightarrow> u32 \<Rightarrow> u8 list \<Rightarrow> nat \<Rightarrow> nat \<Rightarrow> u8 list" where
  "readable_bytes dev bsz ino from until =
     map the (takeWhile (\<lambda>b. b \<noteq> None) (map (file_byte dev bsz ino) [from..<until]))"

lemma readable_split_none:
  assumes "from < until" and "file_byte dev bsz ino from = None"
  shows "readable_bytes dev bsz ino from until = []"
  using assms by (simp add: readable_bytes_def upt_conv_Cons)

lemma readable_split:
  assumes "from \<le> mid" and "mid \<le> until" and "\<And>p. from \<le> p \<Longrightarrow> p < mid \<Longrightarrow> file_byte dev bsz ino p \<noteq> None"
  shows "readable_bytes dev bsz ino from until =
    map (\<lambda>p. the (file_byte dev bsz ino p)) [from..<mid] @ readable_bytes dev bsz ino mid until"
proof -
  have "[from..<until] = [from..<mid] @ [mid..<until]"
    using assms(1,2) upt_add_eq_append [of "from" mid "until - mid"] by simp
  moreover have "takeWhile (\<lambda>b. b \<noteq> None) (map (file_byte dev bsz ino) [from..<mid] @ ys) =
      map (file_byte dev bsz ino) [from..<mid] @ takeWhile (\<lambda>b. b \<noteq> None) ys" for ys
    by (rule takeWhile_append2) (use assms(3) in auto)
  ultimately show ?thesis
    by (simp add: readable_bytes_def)
qed

text \<open>The bytes of one chunk all lie in one block.\<close>

lemma same_block:
  fixes b p c :: nat
  assumes "0 < b" and "p mod b + c \<le> b" and "p \<le> q" and "q < p + c"
  shows "q div b = p div b" "q mod b = p mod b + (q - p)"
proof -
  define k where "k = q - p"
  then have q: "q = p + k" and k: "p mod b + k < b"
    using assms by linarith+
  then have "(p + k) div b = p div b + k div b + (p mod b + k mod b) div b"
    by (intro div_add1_eq)
  then show "q div b = p div b"
    using k q by simp
  show "q mod b = p mod b + (q - p)"
    using k q by (metis add_diff_cancel_left' mod_add_left_eq mod_less)
qed

lemma chunk_bytes:
  assumes b: "0 < unat bsz" and c: "p mod unat bsz + c \<le> unat bsz"
    and pb: "phys_block dev bsz ino (of_nat (p div unat bsz)) = Some pb" and d: "block_data dev bsz pb = Some d"
    and l: "length d = unat bsz"
  shows "map (\<lambda>q. the (file_byte dev bsz ino q)) [p..<p + c] = take c (drop (p mod unat bsz) d)"
    and "p \<le> q \<Longrightarrow> q < p + c \<Longrightarrow> file_byte dev bsz ino q \<noteq> None"
proof -
  have fb: "file_byte dev bsz ino q = Some (d ! (p mod unat bsz + (q - p)))" if "p \<le> q" "q < p + c" for q
    using same_block [OF b c that] pb d by (simp add: file_byte_def)
  show "map (\<lambda>q. the (file_byte dev bsz ino q)) [p..<p + c] = take c (drop (p mod unat bsz) d)"
    by (rule nth_equalityI) (use c l fb in auto)
  show "p \<le> q \<Longrightarrow> q < p + c \<Longrightarrow> file_byte dev bsz ino q \<noteq> None"
    using fb by simp
qed

lemma read_data_loop_spec:
  assumes dev: "dev_ok dev" and bsz: "block_size_ok (block_size e)" and buf: "length (block_buf e) = 4096"
    and ino: "inode_ok dev (block_size e) ino"
    and nowrap: "unat off + unat remaining < 2 ^ 32" and le: "dn \<le> remaining"
  shows "\<exists>buf. read_data_loop dev ino off remaining dn e =
      (let bs = readable_bytes dev (block_size e) ino (unat off + unat dn) (unat off + unat remaining)
       in Inr (dn + of_nat (length bs), bs, e\<lparr>block_buf := buf\<rparr>)) \<and> length buf = 4096"
  using buf bsz ino le
proof (induction "unat remaining - unat dn" arbitrary: dn e rule: less_induct)
  case less
  note buf = less.prems(1) and bsz = less.prems(2) and ino = less.prems(3) and le = less.prems(4)
  let ?b = "block_size e"
  let ?P = "unat off + unat dn" and ?E = "unat off + unat remaining"
  note b = block_size_cases [OF bsz]
  show ?case
  proof (cases "dn < remaining")
    case False
    then have dn: "dn = remaining"
      using le by simp
    have "read_data_loop dev ino off remaining dn e = Inr (dn, [], e)"
      by (subst read_data_loop.simps) (simp add: False)
    moreover have "readable_bytes dev ?b ino ?P ?E = []"
      by (simp add: readable_bytes_def dn)
    ultimately show ?thesis
      using buf by (intro exI [of _ "block_buf e"]) simp
  next
    case True
    then have lt: "unat dn < unat remaining"
      by (simp add: word_less_nat_alt)
    have pos: "unat (off + dn) = ?P"
      using lt nowrap by (intro unat_add_no_wrap) simp
    have lb: "(off + dn) div ?b = of_nat (?P div unat ?b)"
      by (metis of_nat_unat_id pos unat_div)
    have bo: "unat ((off + dn) mod ?b) = ?P mod unat ?b"
      using pos by (simp add: unat_mod)
    define c where "c = min (unat ?b - ?P mod unat ?b) (unat remaining - unat dn)"
    have sub1: "unat (?b - (off + dn) mod ?b) = unat ?b - ?P mod unat ?b"
      using bo b(3) by (subst unat_sub) (simp_all add: word_le_nat_alt less_imp_le)
    have sub2: "unat (remaining - dn) = unat remaining - unat dn"
      using lt by (subst unat_sub) (simp_all add: word_le_nat_alt)
    define ch where "ch = (if remaining - dn < ?b - (off + dn) mod ?b then remaining - dn else ?b - (off + dn) mod ?b)"
    have chunk: "unat ch = c"
      using sub1 sub2 by (simp add: ch_def c_def word_less_nat_alt)
    have c: "0 < c" "?P mod unat ?b + c \<le> unat ?b" "?P + c \<le> ?E" "unat dn + c \<le> unat remaining"
      using b(3) lt mod_less_divisor [OF b(3), of ?P] unfolding c_def by (auto simp: min_def)
    obtain buf1 where ex: "extent_find_physical dev ino ((off + dn) div ?b) e =
        Inr (phys_block dev ?b ino (of_nat (?P div unat ?b)), e\<lparr>block_buf := buf1\<rparr>)" "length buf1 = 4096"
      using extent_find_physical_spec [OF dev bsz buf ino] lb by metis
    have dm: "udiv (off + dn) ?b = Inr ((off + dn) div ?b)" "umod (off + dn) ?b = Inr ((off + dn) mod ?b)"
      using b(4) by (simp_all add: udiv_def umod_def)
    note step = read_data_loop.simps [of _ _ _ _ dn] dm ex
    show ?thesis
    proof (cases "phys_block dev ?b ino (of_nat (?P div unat ?b))")
      case None
      then have "file_byte dev ?b ino ?P = None"
        by (simp add: file_byte_def)
      then show ?thesis
        using None True ex(2) readable_split_none [of ?P ?E] lt
        by (intro exI [of _ buf1]) (simp add: step Let_def)
    next
      case pb: (Some pb)
      have bsz1: "block_size_ok (block_size (e\<lparr>block_buf := buf1\<rparr>))"
        using bsz by simp
      show ?thesis
      proof (cases "block_data dev ?b pb")
        case None
        then obtain buf2 where rb: "read_block dev (e\<lparr>block_buf := buf1\<rparr>) pb buf1 = Inr (-1, buf2)" "length buf2 = 4096"
          using read_block_spec(2) [OF dev bsz1 ex(2)] by auto
        have "file_byte dev ?b ino ?P = None"
          using pb None by (simp add: file_byte_def)
        then show ?thesis
          using pb True rb readable_split_none [of ?P ?E] lt
          by (intro exI [of _ buf2]) (simp add: step Let_def)
      next
        case d: (Some d)
        let ?buf2 = "d @ drop (unat ?b) buf1"
        have rb: "read_block dev (e\<lparr>block_buf := buf1\<rparr>) pb buf1 = Inr (0, ?buf2)" "length d = unat ?b"
          using read_block_spec(1) [OF dev bsz1 ex(2)] d by simp_all
        have l2: "length ?buf2 = 4096"
          using rb(2) ex(2) b(2) by simp
        have sb: "sub_bytes ?buf2 (?P mod unat ?b) c = Inr (take c (drop (?P mod unat ?b) d))"
          using c(2) rb(2) by (simp add: sub_bytes_def)
        let ?bs = "readable_bytes dev ?b ino (unat off + (unat dn + c)) ?E"
        note cb = chunk_bytes [OF b(3) c(2) pb d rb(2)]
        have ud: "unat (dn + ch) = unat dn + c"
          using c(4) chunk unat_lt_2p32 [of remaining] by (subst unat_add_no_wrap) simp_all
        have "unat remaining - unat (dn + ch) < unat remaining - unat dn"
          using ud c(1,4) by simp
        moreover have "dn + ch \<le> remaining"
          using ud c(4) by (simp add: word_le_nat_alt)
        ultimately obtain buf3 where ih:
          "read_data_loop dev ino off remaining (dn + ch) (e\<lparr>block_buf := ?buf2\<rparr>) =
             Inr (dn + ch + of_nat (length ?bs), ?bs, e\<lparr>block_buf := buf3\<rparr>)"
          "length buf3 = 4096"
          using less.hyps [of "dn + ch" "e\<lparr>block_buf := ?buf2\<rparr>"] l2 bsz ino ud by (auto simp: Let_def)
        have rd: "readable_bytes dev ?b ino ?P ?E = take c (drop (?P mod unat ?b) d) @ ?bs"
          using readable_split [of ?P "?P + c" ?E] cb c(3) by (simp add: add.assoc)
        have "length (take c (drop (?P mod unat ?b) d)) = c"
          using c(2) rb(2) by simp
        moreover have "ch = of_nat c"
          using chunk by (metis of_nat_unat_id)
        moreover have "read_data_loop dev ino off remaining dn e =
            kbind (read_data_loop dev ino off remaining (dn + ch) (e\<lparr>block_buf := ?buf2\<rparr>))
              (\<lambda>(d', rest, e). Inr (d', take c (drop (?P mod unat ?b) d) @ rest, e))"
          by (subst read_data_loop.simps) (simp add: True dm ex(1) pb rb(1) Let_def bo sb chunk flip: ch_def)
        ultimately show ?thesis
          using ih rd by (intro exI [of _ buf3]) (simp add: Let_def)
      qed
    qed
  qed
qed

end
