(* ===== verification/Ext4_Spec.thy ===== *)
theory Ext4_Spec
  imports Ext4_Data
begin

text \<open>
  What the ext4 driver promises: file data, the bounds of the root directory table, and where the
  fields of the superblock are read from.
\<close>

section \<open>File data\<close>

definition file_size :: "u8 list \<Rightarrow> nat" where
  "file_size ino = unat (le32 (take 4 (drop 4 ino)))"

lemma inode_sizes:
  assumes "length ino = size_of ext4_inode"
  shows "get32 ext4_inode ''i_size_high'' ino 0 = Inr (le32 (take 4 (drop 108 ino)))"
    and "get32 ext4_inode ''i_size_lo'' ino 0 = Inr (le32 (take 4 (drop 4 ino)))"
  using assms by (simp_all add: get32_at ext4_sizes)

lemma length_readable: "length (readable_bytes dev bsz ino a b) \<le> b - a"
  using length_takeWhile_le [of "\<lambda>b. b \<noteq> None" "map (file_byte dev bsz ino) [a..<b]"]
  by (simp add: readable_bytes_def)



definition ext4_demo :: ext4 where
  "ext4_demo = \<lparr>sb = [], block_size = 1024, inode_size = 128, groups_count = 1, desc_size = 32, mounted = True,
     root_files = [], block_buf = replicate 4096 0, block_buf2 = replicate 4096 0, inode_buf = replicate 4096 0\<rparr>"

text \<open>An inode of 1026 bytes in two extents: logical block 0 at block 7 and logical block 1 at block 3.\<close>

definition inode_demo :: "u8 list" where
  "inode_demo =
     replicate 4 0 @ bytes32 1026 @ replicate 32 0
     @ bytes16 EXT4_EXT_MAGIC @ bytes16 2 @ bytes16 4 @ bytes16 0 @ bytes32 0
     @ bytes32 0 @ bytes16 1 @ bytes16 0 @ bytes32 7
     @ bytes32 1 @ bytes16 1 @ bytes16 0 @ bytes32 3
     @ replicate 24 0 @ replicate 16 0"

text \<open>Every byte of a sector is the number of the sector.\<close>

definition dev_demo :: blockdev where
  "dev_demo s = Some (replicate 512 (ucast s))"



section \<open>Mounting\<close>

text \<open>Everything but the three buffers.\<close>

definition same_fs :: "ext4 \<Rightarrow> ext4 \<Rightarrow> bool" where
  "same_fs e e' \<longleftrightarrow> block_size e' = block_size e \<and> groups_count e' = groups_count e
     \<and> root_files e' = root_files e \<and> mounted e' = mounted e"

definition root_ok :: "ext4_file_entry list \<Rightarrow> bool" where
  "root_ok fs \<longleftrightarrow> length fs \<le> EXT4_MAX_ROOT_ENTRIES
     \<and> (\<forall>f\<in>set fs. length (fe_name f) < EXT4_NAME_MAX \<and> 0 \<notin> set (fe_name f) \<and> fe_inode f \<noteq> 0)"

lemma same_fs_refl [simp]: "same_fs e e"
  and same_fs_bufs [simp]: "same_fs e (e'\<lparr>block_buf := b\<rparr>) = same_fs e e'" "same_fs e (e'\<lparr>block_buf2 := b\<rparr>) = same_fs e e'"
    "same_fs e (e'\<lparr>inode_buf := b\<rparr>) = same_fs e e'"
    "same_fs (e\<lparr>block_buf := b\<rparr>) e' = same_fs e e'"
  by (simp_all add: same_fs_def)

lemma same_fs_trans: "same_fs a b \<Longrightarrow> same_fs b c \<Longrightarrow> same_fs a c"
  by (simp add: same_fs_def)

lemma kbind_InrE: "kbind m f = Inr y \<Longrightarrow> (\<And>x. m = Inr x \<Longrightarrow> f x = Inr y \<Longrightarrow> P) \<Longrightarrow> P"
  by (auto simp: kbind_Inr_iff)

lemma extent_find_physical_frame: "extent_find_physical dev ino lb e = Inr (r, e') \<Longrightarrow> same_fs e e'"
  by (auto simp: extent_find_physical_def Let_def elim!: kbind_InrE split: if_splits option.splits)

lemma load_group_desc_frame: "load_group_desc dev g e = Inr (r, e') \<Longrightarrow> same_fs e e'"
  by (auto simp: load_group_desc_def Let_def elim!: kbind_InrE split: if_splits)

lemma fetch_inode_frame: "fetch_inode dev b off e = Inr (r, e') \<Longrightarrow> same_fs e e'"
  by (auto simp: fetch_inode_def Let_def elim!: kbind_InrE split: if_splits)

lemma read_inode_frame: "read_inode dev i e = Inr (r, e') \<Longrightarrow> same_fs e e'"
  by (auto simp: read_inode_def Let_def elim!: kbind_InrE split: if_splits option.splits
      dest!: load_group_desc_frame fetch_inode_frame) (erule (1) same_fs_trans)

lemma read_inode_block_size: "i \<noteq> 0 \<Longrightarrow> read_inode dev i e = Inr (r, e') \<Longrightarrow> block_size e \<noteq> 0"
  by (auto simp: read_inode_def load_group_desc_def udiv_def Let_def elim!: kbind_InrE split: if_splits)

definition kall :: "('a \<Rightarrow> bool) \<Rightarrow> 'a kres \<Rightarrow> bool" where
  "kall P r \<longleftrightarrow> (case r of Inl _ \<Rightarrow> True | Inr x \<Rightarrow> P x)"

lemma kall_simps [simp]: "kall P (Inr x) = P x" "kall P (Inl h)"
  by (simp_all add: kall_def)

lemma kall_bindI: "(\<And>x. m = Inr x \<Longrightarrow> kall P (f x)) \<Longrightarrow> kall P (kbind m f)"
  by (cases m) auto

lemma kallD: "kall P r \<Longrightarrow> r = Inr x \<Longrightarrow> P x"
  by simp

lemma read_data_loop_frame: "kall (\<lambda>(r, bs, e'). same_fs e e') (read_data_loop dev ino off rem dn e)"
proof (induction dev ino off rem dn e rule: read_data_loop.induct)
  case (1 dev ino off rem dn e)
  note IH = 1
  show ?case
  proof (cases "dn < rem")
    case False
    then show ?thesis
      by (simp add: read_data_loop.simps [of _ _ _ _ dn])
  next
    case True
    show ?thesis
    proof (subst read_data_loop.simps, simp only: True if_True Let_def, intro kall_bindI, goal_cases)
      case (1 lb bo x)
      note dm = 1(1,2)
      obtain r1 e1 where x: "x = (r1, e1)"
        by (cases x)
      then have ex: "extent_find_physical dev ino lb e = Inr (r1, e1)"
        using 1(3) by simp
      have s: "same_fs e e1"
        using ex by (rule extent_find_physical_frame)
      show ?case
      proof (cases r1)
        case None
        then show ?thesis
          using s by (simp add: x)
      next
        case (Some pb)
        show ?thesis
          unfolding x Some prod.case option.case
        proof (rule kall_bindI, goal_cases)
          case (1 y)
          obtain rc buf where y: "y = (rc, buf)"
            by (cases y)
          show ?case
          proof (cases "rc < 0")
            case True
            then show ?thesis
              using s by (simp add: y)
          next
            case False
            show ?thesis
              unfolding y prod.case if_not_P [OF False]
            proof (intro kall_bindI, goal_cases)
              case (1 bs z)
              have "kall (\<lambda>(r, bs, e'). same_fs (e1\<lparr>block_buf := buf\<rparr>) e') (Inr z)"
                unfolding 1(2) [symmetric]
                by (rule IH [OF True refl dm refl refl ex [unfolded Some] refl refl _ refl refl False 1(1)])
                  (use \<open>read_block dev e1 pb (block_buf e1) = Inr y\<close> y in simp)
              then show ?case
                using s by (cases z) (auto intro: same_fs_trans simp: same_fs_def)
            qed
          qed
        qed
      qed
    qed
  qed
qed

lemma inode_read_data_frame: "inode_read_data dev ino off len e = Inr (r, bs, e') \<Longrightarrow> same_fs e e'"
  by (auto simp: inode_read_data_def Let_def elim!: kbind_InrE split: if_splits dest!: kallD [OF read_data_loop_frame])

lemma root_ok_snoc:
  assumes "root_ok fs" and "length fs < EXT4_MAX_ROOT_ENTRIES" and "unat name_len < EXT4_NAME_MAX" and "i \<noteq> 0"
    and "sub_bytes buf q (unat name_len) = Inr bs"
  shows "root_ok (fs @ [\<lparr>fe_name = takeWhile (\<lambda>b. b \<noteq> 0) (bs @ [0]), fe_inode = i\<rparr>])"
proof -
  have "takeWhile (\<lambda>b. b \<noteq> 0) (bs @ [0]) = takeWhile (\<lambda>b. b \<noteq> 0) bs"
    by (induction bs) auto
  moreover have "length (takeWhile (\<lambda>b. b \<noteq> 0) bs) \<le> length bs"
    by (rule length_takeWhile_le)
  moreover have "length bs \<le> unat name_len"
    using assms(5) by (auto simp: sub_bytes_Inr)
  moreover have "0 \<notin> set (takeWhile (\<lambda>b. b \<noteq> 0) bs)"
    by (metis (mono_tags, lifting) set_takeWhileD)
  ultimately show ?thesis
    using assms(1-4) by (auto simp: root_ok_def)
qed

lemma scan_dirents_ok:
  "root_ok fs \<Longrightarrow> length fs < EXT4_MAX_ROOT_ENTRIES \<Longrightarrow> kall root_ok (scan_dirents buf n p fs)"
proof (induction "n - p" arbitrary: p fs rule: less_induct)
  case less
  have dec: "n - (p + unat w) < n - p" if "p + size_of ext4_dirent \<le> n" "w \<noteq> 0" for w :: u16
    using that by (auto simp: ext4_sizes unat_gt_0 word_gt_0 intro!: diff_less_mono2)
  note IH = less.hyps [OF dec]
  show ?case
    using less.prems
    by (subst scan_dirents.simps) (auto simp: Let_def intro!: kall_bindI root_ok_snoc IH)
qed

lemma scan_step_ok:
  assumes "root_ok (root_files e)" and "length (root_files e) < EXT4_MAX_ROOT_ENTRIES"
  shows "kall (\<lambda>(r, e'). block_size e' = block_size e \<and> groups_count e' = groups_count e \<and> root_ok (root_files e'))
    (kbind (inode_read_data dev ino off (block_size e) e) (\<lambda>(n, bs, e).
       if n \<le> 0 then Inr (None, e)
       else
         kbind (put_bytes (block_buf e) 0 bs) (\<lambda>buf.
         kbind (scan_dirents buf (nat n) 0 (root_files e)) (\<lambda>files.
           Inr (Some (), e\<lparr>block_buf := buf, root_files := files\<rparr>)))))"
  using assms
  by (auto intro!: kall_bindI dest!: inode_read_data_frame scan_dirents_ok [THEN kallD, rotated 2] simp: same_fs_def)

lemma scan_blocks_ok:
  assumes "unat dsize + 4096 \<le> 2 ^ 32" and "block_size_ok (block_size e)" and "root_ok (root_files e)"
  shows "\<exists>r. scan_blocks dev ino dsize off e = Some r \<and>
    kall (\<lambda>e'. block_size e' = block_size e \<and> groups_count e' = groups_count e \<and> root_ok (root_files e')) r"
  using assms(2,3)
proof (induction "2 ^ 32 - unat off" arbitrary: off e rule: less_induct)
  case less
  let ?step = "kbind (inode_read_data dev ino off (block_size e) e) (\<lambda>(n, bs, e).
               if n \<le> 0 then Inr (None, e)
               else
                 kbind (put_bytes (block_buf e) 0 bs) (\<lambda>buf.
                 kbind (scan_dirents buf (nat n) 0 (root_files e)) (\<lambda>files.
                   Inr (Some (), e\<lparr>block_buf := buf, root_files := files\<rparr>))))"
  show ?case
  proof (cases "off < dsize \<and> length (root_files e) < EXT4_MAX_ROOT_ENTRIES")
    case False
    then show ?thesis
      using less.prems by (subst scan_blocks.simps) (simp only: False if_False, simp)
  next
    case True
    note ok = scan_step_ok [OF less.prems(2) conjunct2 [OF True], of dev ino off]
    show ?thesis
    proof (cases ?step)
      case (Inl h)
      then show ?thesis
        using True by (subst scan_blocks.simps) simp
    next
      case (Inr x)
      obtain r e1 where x: "x = (r, e1)"
        by (cases x)
      have e1: "block_size e1 = block_size e" "groups_count e1 = groups_count e" "root_ok (root_files e1)"
        using ok Inr x by simp_all
      show ?thesis
      proof (cases r)
        case None
        then show ?thesis
          using True Inr x e1 by (subst scan_blocks.simps) simp
      next
        case (Some u)
        have "unat off + unat (block_size e) < 4294967296"
          using True assms(1) block_size_cases(2) [OF less.prems(1)] by (simp add: word_less_nat_alt)
        then have "unat (off + block_size e1) = unat off + unat (block_size e)"
          using e1(1) by (simp add: unat_add_no_wrap)
        then have "2 ^ 32 - unat (off + block_size e1) < 2 ^ 32 - unat off"
          using block_size_cases(3) [OF less.prems(1)] unat_lt_2p32 [of off] by simp
        then show ?thesis
          using less.hyps [of "off + block_size e1" e1] less.prems(1) e1 True Inr x Some
          by (subst scan_blocks.simps) simp
      qed
    qed
  qed
qed


lemma push_bit_1024:
  assumes "\<not> 32 \<le> (lg :: u32)" and "\<not> 4096 < (push_bit (unat lg) 1024 :: u32)" and "push_bit (unat lg) 1024 \<noteq> (0 :: u32)"
  shows "block_size_ok (push_bit (unat lg) 1024)"
proof -
  have "list_all (\<lambda>n. \<not> 4096 < (push_bit n 1024 :: u32) \<longrightarrow> push_bit n 1024 \<noteq> (0 :: u32) \<longrightarrow>
      block_size_ok (push_bit n 1024 :: u32)) [0..<32]"
    by code_simp
  moreover have "unat lg < 32"
    using assms(1) by (simp add: word_le_nat_alt)
  ultimately show ?thesis
    using assms(2,3) by (auto simp: list_all_iff)
qed

lemma mount_super_ok:
  "kall (\<lambda>(rc, e'). 0 \<le> rc \<longrightarrow> rc = 0 \<and> mounted e' = mounted e \<and> groups_count e' \<noteq> 0 \<and>
      (block_size e' \<noteq> 0 \<longrightarrow> block_size_ok (block_size e')))
    (mount_super sbraw e)"
  unfolding mount_super_def Let_def
  by (auto intro!: kall_bindI) (rule push_bit_1024, assumption+)

lemma scan_root_dir_ok:
  assumes "mount_super sbraw e = Inr (0, e1)"
    and "\<forall>root e2. read_inode dev 2 e1 = Inr (Some root, e2) \<longrightarrow> file_size root + 4096 \<le> 2 ^ 32"
  shows "\<exists>r. scan_root_dir dev e1 = Some r \<and> kall (\<lambda>(rc, e'). rc \<noteq> -1 \<longrightarrow> rc = 0 \<and> groups_count e' = groups_count e1 \<and>
      block_size_ok (block_size e') \<and> root_ok (root_files e')) r"
proof (cases "read_inode dev 2 e1")
  case (Inl h)
  then show ?thesis
    by (simp add: scan_root_dir_def)
next
  case (Inr x)
  obtain r e2 where x: "x = (r, e2)"
    by (cases x)
  have e2: "same_fs e1 e2" "block_size e1 \<noteq> 0"
    using Inr x read_inode_frame read_inode_block_size [of 2] by auto
  then have b: "block_size_ok (block_size e2)" "groups_count e2 = groups_count e1"
    using kallD [OF mount_super_ok assms(1)] by (auto simp: same_fs_def)
  have root_nil: "root_ok []"
    by (simp add: root_ok_def)
  show ?thesis
  proof (cases r)
    case None
    then show ?thesis
      using Inr x by (simp add: scan_root_dir_def)
  next
    case (Some root)
    have "file_size root + 4096 \<le> 2 ^ 32"
      using assms(2) Inr x Some by blast
    then have small': "unat (le32 (take 4 (drop 4 root))) + 4096 \<le> 2 ^ 32"
      by (simp add: file_size_def)
    let ?e = "e2\<lparr>root_files := []\<rparr>"
    obtain rs where rs: "scan_blocks dev root (le32 (take 4 (drop 4 root))) 0 ?e = Some rs"
      "kall (\<lambda>e'. block_size e' = block_size e2 \<and> groups_count e' = groups_count e2 \<and> root_ok (root_files e')) rs"
      using scan_blocks_ok [OF small', of ?e dev root 0] b(1) root_nil by auto
    show ?thesis
    proof (cases "get32 ext4_inode ''i_size_high'' root 0")
      case hi: (Inr hi)
      have lo: "get32 ext4_inode ''i_size_lo'' root 0 = Inr (le32 (take 4 (drop 4 root)))"
        using hi by (simp add: get32_def sub_bytes_def ext4_inode_def split: if_splits)
      show ?thesis
        using Inr x Some hi lo rs b by (cases rs) (simp_all add: scan_root_dir_def)
    qed (use Inr x Some in \<open>simp add: scan_root_dir_def\<close>)
  qed
qed



text \<open>An image with a good superblock, without the rest of the disk.\<close>

definition image_demo :: blockdev where
  "image_demo s =
     (if s = 2 then
        Some (replicate 4 0 @ bytes32 64 @ replicate 16 0 @ bytes32 0 @ replicate 4 0 @ bytes32 8192 @ replicate 4 0
         @ bytes32 16 @ replicate 12 0 @ bytes16 EXT4_SUPER_MAGIC @ replicate 196 0 @ bytes16 64 @ replicate 94 0
         @ bytes16 32 @ replicate 160 0)
      else if s = 3 then Some (replicate 512 0)
      else None)"

definition ext4_blank :: ext4 where
  "ext4_blank = \<lparr>sb = [], block_size = 0, inode_size = 0, groups_count = 0, desc_size = 0, mounted = False,
     root_files = [], block_buf = replicate 4096 0, block_buf2 = replicate 4096 0, inode_buf = replicate 4096 0\<rparr>"

definition super_demo :: "(int \<times> u32 \<times> u32 \<times> bool) kres" where
  "super_demo =
     kbind (mount_super (the (image_demo 2) @ the (image_demo 3)) ext4_blank) (\<lambda>(rc, e).
     kbind (read_inode image_demo 2 e) (\<lambda>(r, e'). Inr (rc, block_size e, desc_size e, r = None)))"

lemma super_demo: "super_demo = Inr (0, 1024, 32, True)"
  by code_simp

definition mount_rc_demo :: "int option" where
  "mount_rc_demo = map_option (\<lambda>r. case r of Inr (rc, _) \<Rightarrow> rc | Inl _ \<Rightarrow> 0) (ext4_mount image_demo 0 ext4_blank)"


text \<open>
  The size of the group descriptors is taken from offset \<open>0x15e\<close> of the superblock, because the
  padding in front of \<^verbatim>\<open>s_desc_size\<close> is counted from \<open>0x68\<close> although \<open>0xcc\<close> bytes precede it. The field of
  that name of an ext4 superblock is at offset \<open>0xfe\<close>, which the driver never looks at.
\<close>

theorem mount_super_desc_size:
  assumes "mount_super sbraw e = Inr (0, e')" and "1024 \<le> length sbraw"
  shows "desc_size e' = (let d = half sbraw 0x15e in if d \<noteq> 0 then ucast d else 32)"
proof -
  define s where "s = take (size_of ext4_super) sbraw"
  have sz: "size_of ext4_super = 0x160" "offset_of ext4_super ''s_desc_size'' = 0x15e"
    by (simp_all add: ext4_super_def size_of_def)
  then have "length s = 0x160"
    using assms(2) by (simp add: s_def)
  then have d: "get16 ext4_super ''s_desc_size'' s 0 = Inr (half s 0x15e)"
    using sz by (simp add: get16_at)
  have "half s 0x15e = half sbraw 0x15e"
    using sz assms(2) by (simp add: s_def half_def take_drop [symmetric] min_def drop_take)
  moreover have "sub_bytes sbraw 0 (size_of ext4_super) = Inr s"
    using assms(2) sz by (simp add: sub_bytes_def s_def)
  ultimately show ?thesis
    using assms(1) d
    by (auto simp: mount_super_def Let_def elim!: kbind_InrE split: if_splits)
qed

lemma mount_super_desc_size_witness:
  "\<exists>rc e'. mount_super (the (image_demo 2) @ the (image_demo 3)) ext4_blank = Inr (rc, e') \<and> rc = 0 \<and> desc_size e' = 32 \<and>
     half (the (image_demo 2) @ the (image_demo 3)) 0xfe = 64"
proof -
  have h: "half (the (image_demo 2) @ the (image_demo 3)) 0xfe = 64"
    "half (the (image_demo 2) @ the (image_demo 3)) 0x15e = 32"
    "length (the (image_demo 2) @ the (image_demo 3)) = 1024"
    by code_simp+
  obtain rc e' where m: "mount_super (the (image_demo 2) @ the (image_demo 3)) ext4_blank = Inr (rc, e')" "rc = 0"
    using super_demo by (auto simp: super_demo_def elim!: kbind_InrE)
  then show ?thesis
    using mount_super_desc_size [of "the (image_demo 2) @ the (image_demo 3)" ext4_blank e'] h by simp
qed

end
