(* ===== verification/Ramfs.thy ===== *)
theory Ramfs
  imports Ext4 Proc
begin

text \<open>
  The RAM file system of \<^verbatim>\<open>fs/fs.c\<close>, with the files of the ext4 image behind it. A name is the bytes
  before its terminator. An operation works on the file system and on the descriptor table of the
  current process; \<^verbatim>\<open>fs_unlink\<close> on the tables of all processes. The caller's buffer is reached through
  a function that loads or stores bytes in a memory of any type.
\<close>

section \<open>State\<close>

record ramfs_inode =
  ri_used :: bool
  ri_name :: cstr
  ri_data :: "u8 list"
  ri_size :: u32

record ramfs =
  inodes :: "ramfs_inode list"
  fs_initialized :: bool
  ext4_ready :: bool
  ext4_fs :: ext4

abbreviation RAMFS_MAX_FILES :: nat where "RAMFS_MAX_FILES \<equiv> 32"
abbreviation RAMFS_NAME_MAX :: nat where "RAMFS_NAME_MAX \<equiv> 32"
abbreviation RAMFS_DATA_MAX :: nat where "RAMFS_DATA_MAX \<equiv> 1024"

abbreviation O_RDONLY :: u32 where "O_RDONLY \<equiv> 1"
abbreviation O_WRONLY :: u32 where "O_WRONLY \<equiv> 2"
abbreviation O_RDWR :: u32 where "O_RDWR \<equiv> 3"
abbreviation O_CREAT :: u32 where "O_CREAT \<equiv> 0x100"
abbreviation O_TRUNC :: u32 where "O_TRUNC \<equiv> 0x200"
abbreviation O_APPEND :: u32 where "O_APPEND \<equiv> 0x400"

definition zero_inode :: ramfs_inode where
  "zero_inode = \<lparr>ri_used = False, ri_name = [], ri_data = replicate RAMFS_DATA_MAX 0, ri_size = 0\<rparr>"

section \<open>Names\<close>

fun str_copy :: "cstr \<Rightarrow> cstr" where
  "str_copy [] = []"
| "str_copy (c # src) = c # str_copy src"

fun name_loop :: "cstr \<Rightarrow> nat \<Rightarrow> cstr option" where
  "name_loop [] i = Some []"
| "name_loop (c # p) i =
     (if c = 0x2f then None
      else if RAMFS_NAME_MAX \<le> i + 1 then None
      else map_option (\<lambda>s. c # s) (name_loop p (i + 1)))"

definition normalize_name :: "cstr \<Rightarrow> cstr option" where
  "normalize_name path =
     (if path = [] then None
      else let p = dropWhile (\<lambda>c. c = 0x2f) path in if p = [] then None else name_loop p 0)"

section \<open>Tables\<close>

definition find_inode_by_name :: "ramfs \<Rightarrow> cstr \<Rightarrow> nat option" where
  "find_inode_by_name f name = first_idx (\<lambda>n. ri_used n \<and> str_eq (ri_name n) name) (inodes f)"

definition alloc_inode :: "ramfs \<Rightarrow> nat option" where
  "alloc_inode f = first_idx (\<lambda>n. \<not> ri_used n) (inodes f)"

definition alloc_fd :: "file_desc list \<Rightarrow> nat option" where
  "alloc_fd tbl = first_idx (\<lambda>d. \<not> fd_used d) tbl"

definition is_ext_fd :: "file_desc \<Rightarrow> bool" where
  "is_ext_fd d \<longleftrightarrow> fd_inode d < 0"

definition valid_fd_index :: "int \<Rightarrow> bool" where
  "valid_fd_index fd \<longleftrightarrow> 0 \<le> fd \<and> fd < int FD_MAX"

definition get_open_fd :: "file_desc list \<Rightarrow> int \<Rightarrow> nat option" where
  "get_open_fd tbl fd =
     (if \<not> valid_fd_index fd then None else if fd_used (tbl ! nat fd) then Some (nat fd) else None)"

definition install_fd :: "file_desc list \<Rightarrow> int \<Rightarrow> u32 \<Rightarrow> u32 \<Rightarrow> int \<times> file_desc list" where
  "install_fd tbl inode flags offset =
     (case alloc_fd tbl of
        None \<Rightarrow> (-1, tbl)
      | Some fd \<Rightarrow>
          (int fd, tbl[fd := \<lparr>fd_used = True, fd_inode = inode, fd_offset = offset, fd_flags = flags\<rparr>]))"

definition open_ext4_readonly :: "ramfs \<Rightarrow> cstr \<Rightarrow> u32 \<Rightarrow> file_desc list \<Rightarrow> int \<times> file_desc list" where
  "open_ext4_readonly f name flags tbl =
     (if \<not> ext4_ready f then (-1, tbl)
      else if flags AND 3 \<noteq> O_RDONLY \<or> flags AND O_CREAT \<noteq> 0 then (-1, tbl)
      else
        let ext_index = ext4_lookup (ext4_fs f) name in
        if ext_index < 0 then (-1, tbl) else install_fd tbl (- ext_index - 1) flags 0)"

definition set_inode :: "nat \<Rightarrow> ramfs_inode \<Rightarrow> ramfs \<Rightarrow> ramfs" where
  "set_inode i n f = f\<lparr>inodes := (inodes f)[i := n]\<rparr>"

definition ensure_ramfs_inode :: "cstr \<Rightarrow> u32 \<Rightarrow> ramfs \<Rightarrow> nat option \<times> ramfs" where
  "ensure_ramfs_inode name flags f =
     (case find_inode_by_name f name of
        Some i \<Rightarrow> (Some i, f)
      | None \<Rightarrow>
          if flags AND O_CREAT = 0 then (None, f)
          else
            (case alloc_inode f of
               None \<Rightarrow> (None, f)
             | Some i \<Rightarrow> (Some i, set_inode i (zero_inode\<lparr>ri_used := True, ri_name := str_copy name\<rparr>) f)))"

section \<open>Operations\<close>

text \<open>The file \<^verbatim>\<open>README\<close> with the contents \<^verbatim>\<open>ramfs ready\<close> and a newline.\<close>

definition readme_name :: cstr where
  "readme_name = map of_char ''README''"

definition readme_text :: "u8 list" where
  "readme_text = map of_char ''ramfs ready'' @ [10]"

definition fs_init :: "ramfs \<Rightarrow> ramfs kres" where
  "fs_init f =
     (if fs_initialized f then Inr f
      else
        let f = f\<lparr>inodes := replicate RAMFS_MAX_FILES zero_inode\<rparr> in
        kbind
          (case alloc_inode f of
             None \<Rightarrow> Inr f
           | Some hello \<Rightarrow>
               let n = str_len readme_text in
               kbind (put_bytes (ri_data (inodes f ! hello)) 0 readme_text) (\<lambda>bs.
                 Inr (set_inode hello \<lparr>ri_used = True, ri_name = str_copy readme_name, ri_data = bs, ri_size = n\<rparr> f)))
          (\<lambda>f. Inr (f\<lparr>ext4_ready := False, fs_initialized := True\<rparr>)))"

definition fs_open :: "cstr \<Rightarrow> u32 \<Rightarrow> file_desc list \<Rightarrow> ramfs \<Rightarrow> int \<times> file_desc list \<times> ramfs" where
  "fs_open path flags tbl f =
     (case normalize_name path of
        None \<Rightarrow> (-1, tbl, f)
      | Some name \<Rightarrow>
          let (ext_fd, tbl') = (if find_inode_by_name f name = None then open_ext4_readonly f name flags tbl else (-1, tbl)) in
          if 0 \<le> ext_fd then (ext_fd, tbl', f)
          else
            (case ensure_ramfs_inode name flags f of
               (None, f) \<Rightarrow> (-1, tbl, f)
             | (Some i, f) \<Rightarrow>
                 let f = (if flags AND O_TRUNC \<noteq> 0 then set_inode i ((inodes f ! i)\<lparr>ri_size := 0\<rparr>) f else f);
                     offset = (if flags AND O_APPEND \<noteq> 0 then ri_size (inodes f ! i) else 0);
                     (fd, tbl) = install_fd tbl (int i) flags offset
                 in (fd, tbl, f)))"

definition fs_close :: "int \<Rightarrow> file_desc list \<Rightarrow> int \<times> file_desc list" where
  "fs_close fd tbl =
     (case get_open_fd tbl fd of
        None \<Rightarrow> (-1, tbl)
      | Some i \<Rightarrow> (0, tbl[i := no_file]))"

text \<open>
  \<open>store buf bs m\<close> copies the bytes to the buffer. The caller gets the result, its memory, its table and
  the file system, whose part for the ext4 image has buffers of its own.
\<close>

definition fs_read ::
    "blockdev \<Rightarrow> (u32 \<Rightarrow> u8 list \<Rightarrow> 'm \<Rightarrow> 'm kres) \<Rightarrow> int \<Rightarrow> u32 \<Rightarrow> u32 \<Rightarrow> 'm \<Rightarrow> file_desc list \<Rightarrow> ramfs \<Rightarrow>
     (int \<times> 'm \<times> file_desc list \<times> ramfs) kres" where
  "fs_read dev store fd buf len m tbl f =
     (if buf = 0 then Inr (-1, m, tbl, f)
      else
        (case get_open_fd tbl fd of
           None \<Rightarrow> Inr (-1, m, tbl, f)
         | Some i \<Rightarrow>
             let d = tbl ! i in
             if fd_flags d AND 3 = O_WRONLY then Inr (-1, m, tbl, f)
             else if is_ext_fd d then
               kbind (ext4_read_file dev (- fd_inode d - 1) (fd_offset d) len (ext4_fs f)) (\<lambda>(n, bs, e).
               kbind (store buf bs m) (\<lambda>m.
                 Inr (n, m, if 0 < n then tbl[i := d\<lparr>fd_offset := fd_offset d + of_int n\<rparr>] else tbl, f\<lparr>ext4_fs := e\<rparr>)))
             else if length (inodes f) \<le> nat (fd_inode d) then Inl Undefined_behaviour
             else
               let inode = inodes f ! nat (fd_inode d) in
               if ri_size inode \<le> fd_offset d then Inr (0, m, tbl, f)
               else
                 let remain = ri_size inode - fd_offset d;
                     n = (if len < remain then len else remain)
                 in
                 kbind (sub_bytes (ri_data inode) (unat (fd_offset d)) (unat n)) (\<lambda>bs.
                 kbind (store buf bs m) (\<lambda>m.
                   Inr (sint n, m, tbl[i := d\<lparr>fd_offset := fd_offset d + n\<rparr>], f)))))"

text \<open>\<open>load buf n m\<close> reads \<open>n\<close> bytes from the buffer.\<close>

definition fs_write ::
    "(u32 \<Rightarrow> nat \<Rightarrow> 'm \<Rightarrow> (u8 list \<times> 'm) kres) \<Rightarrow> int \<Rightarrow> u32 \<Rightarrow> u32 \<Rightarrow> 'm \<Rightarrow> file_desc list \<Rightarrow> ramfs \<Rightarrow>
     (int \<times> 'm \<times> file_desc list \<times> ramfs) kres" where
  "fs_write load fd buf len m tbl f =
     (if buf = 0 then Inr (-1, m, tbl, f)
      else
        (case get_open_fd tbl fd of
           None \<Rightarrow> Inr (-1, m, tbl, f)
         | Some i \<Rightarrow>
             let d = tbl ! i; mode = fd_flags d AND 3 in
             if is_ext_fd d then Inr (-1, m, tbl, f)
             else if \<not> (mode = O_WRONLY \<or> mode = O_RDWR) then Inr (-1, m, tbl, f)
             else if length (inodes f) \<le> nat (fd_inode d) then Inl Undefined_behaviour
             else
               let inode = inodes f ! nat (fd_inode d);
                   d = (if fd_flags d AND O_APPEND \<noteq> 0 then d\<lparr>fd_offset := ri_size inode\<rparr> else d)
               in
               if of_nat RAMFS_DATA_MAX \<le> fd_offset d then Inr (0, m, tbl[i := d], f)
               else
                 let cap = of_nat RAMFS_DATA_MAX - fd_offset d;
                     n = (if len < cap then len else cap)
                 in
                 kbind (load buf (unat n) m) (\<lambda>(bs, m).
                 kbind (put_bytes (ri_data inode) (unat (fd_offset d)) bs) (\<lambda>data.
                   let offset = fd_offset d + n;
                       sz = (if ri_size inode < offset then offset else ri_size inode)
                   in
                   Inr (sint n, m, tbl[i := d\<lparr>fd_offset := offset\<rparr>],
                     set_inode (nat (fd_inode d)) (inode\<lparr>ri_data := data, ri_size := sz\<rparr>) f)))))"

definition drop_fd :: "nat \<Rightarrow> file_desc \<Rightarrow> file_desc" where
  "drop_fd inode d = (if fd_used d \<and> fd_inode d = int inode then d\<lparr>fd_used := False\<rparr> else d)"

definition fs_unlink :: "cstr \<Rightarrow> file_desc list list \<Rightarrow> ramfs \<Rightarrow> int \<times> file_desc list list \<times> ramfs" where
  "fs_unlink path tbls f =
     (case normalize_name path of
        None \<Rightarrow> (-1, tbls, f)
      | Some name \<Rightarrow>
          (case find_inode_by_name f name of
             None \<Rightarrow> (-1, tbls, f)
           | Some i \<Rightarrow> (0, map (map (drop_fd i)) tbls, set_inode i zero_inode f)))"

definition fs_rename :: "cstr \<Rightarrow> cstr \<Rightarrow> ramfs \<Rightarrow> int \<times> ramfs" where
  "fs_rename old_path new_path f =
     (case normalize_name old_path of
        None \<Rightarrow> (-1, f)
      | Some old_name \<Rightarrow>
          (case normalize_name new_path of
             None \<Rightarrow> (-1, f)
           | Some new_name \<Rightarrow>
               if str_eq old_name new_name then (0, f)
               else
                 (case find_inode_by_name f old_name of
                    None \<Rightarrow> (-1, f)
                  | Some i \<Rightarrow>
                      if find_inode_by_name f new_name \<noteq> None then (-1, f)
                      else (0, set_inode i ((inodes f ! i)\<lparr>ri_name := str_copy new_name\<rparr>) f))))"

text \<open>
  The result and the bytes that the buffer starts with at the end. The terminator that \<^verbatim>\<open>ext4_listdir\<close>
  leaves is always overwritten.
\<close>

definition fs_listdir :: "u32 \<Rightarrow> u32 \<Rightarrow> ramfs \<Rightarrow> int \<times> u8 list" where
  "fs_listdir buf len f =
     (if buf = 0 \<or> len = 0 then (-1, [])
      else
        let (n, ebs) = (if ext4_ready f then ext4_listdir len (ext4_fs f) else (0, []));
            ebs = (if 0 < n then take (nat n) ebs else []);
            bs = ebs @ list_names (map ri_name (filter ri_used (inodes f))) len (of_nat (length ebs));
            out = of_nat (length bs) :: u32
        in (sint out, if out < len then bs @ [0] else bs))"

end
