(* ===== verification/Ramfs_Spec.thy ===== *)
theory Ramfs_Spec
  imports Ramfs
begin

text \<open>
  The file system as a map from names to contents: the invariant of the inode and descriptor tables,
  what each operation does to the map, and the round trip of writing and reading back.
\<close>

section \<open>Names\<close>

definition name_ok :: "cstr \<Rightarrow> bool" where
  "name_ok s \<longleftrightarrow> s \<noteq> [] \<and> length s < RAMFS_NAME_MAX \<and> 0x2f \<notin> set s"

lemma str_copy_eq [simp]: "str_copy s = s"
  by (induction s) auto

lemma name_loop_Some: "name_loop p i = Some s \<longleftrightarrow> s = p \<and> 0x2f \<notin> set p \<and> (p \<noteq> [] \<longrightarrow> i + length p < RAMFS_NAME_MAX)"
proof (induction p arbitrary: i s)
  case (Cons c p)
  show ?case
    by (cases "p = []"; cases s) (auto simp: Cons.IH)
qed auto

text \<open>A path names a file when, leading slashes apart, it is one component of at most 31 bytes.\<close>

lemma normalize_name_iff:
  "normalize_name path = Some s \<longleftrightarrow> (\<exists>n. path = replicate n 0x2f @ s) \<and> name_ok s"
proof -
  let ?p = "dropWhile (\<lambda>c. c = 0x2f) path"
  have "path = takeWhile (\<lambda>c. c = 0x2f) path @ ?p"
    by simp
  moreover have "takeWhile (\<lambda>c. c = 0x2f) path = replicate (length (takeWhile (\<lambda>c. c = 0x2f) path)) 0x2f"
    by (rule replicate_eqI) (auto dest: set_takeWhileD)
  ultimately have path: "path = replicate (length (takeWhile (\<lambda>c. c = 0x2f) path)) 0x2f @ ?p"
    by metis
  have "normalize_name path = Some s \<longleftrightarrow> ?p = s \<and> name_ok s"
    by (auto simp: normalize_name_def Let_def name_loop_Some name_ok_def)
  also have "\<dots> \<longleftrightarrow> (\<exists>n. path = replicate n 0x2f @ s) \<and> name_ok s"
  proof
    assume "?p = s \<and> name_ok s"
    then show "(\<exists>n. path = replicate n 0x2f @ s) \<and> name_ok s"
      using path by metis
  next
    assume a: "(\<exists>n. path = replicate n 0x2f @ s) \<and> name_ok s"
    then obtain n where n: "path = replicate n 0x2f @ s"
      by blast
    have "dropWhile (\<lambda>c. c = 0x2f) s = s"
      using a by (cases s) (auto simp: name_ok_def)
    moreover have "dropWhile (\<lambda>c. c = 0x2f) (replicate n 0x2f @ s) = dropWhile (\<lambda>c. c = 0x2f) s"
      by (rule dropWhile_append2) simp
    ultimately show "?p = s \<and> name_ok s"
      using n a by simp
  qed
  finally show ?thesis .
qed

lemma normalize_name_id: "name_ok s \<Longrightarrow> normalize_name s = Some s"
  using normalize_name_iff [of s s] by (metis append_Nil replicate_0)

section \<open>Invariant and abstraction\<close>

definition inode_wf :: "ramfs_inode \<Rightarrow> bool" where
  "inode_wf n \<longleftrightarrow> length (ri_data n) = RAMFS_DATA_MAX \<and> unat (ri_size n) \<le> RAMFS_DATA_MAX
     \<and> (ri_used n \<longrightarrow> name_ok (ri_name n))"

definition fs_ok :: "ramfs \<Rightarrow> bool" where
  "fs_ok f \<longleftrightarrow> length (inodes f) = RAMFS_MAX_FILES \<and> (\<forall>n\<in>set (inodes f). inode_wf n)
     \<and> (\<forall>i<RAMFS_MAX_FILES. \<forall>j<RAMFS_MAX_FILES. ri_used (inodes f ! i) \<longrightarrow> ri_used (inodes f ! j) \<longrightarrow>
          ri_name (inodes f ! i) = ri_name (inodes f ! j) \<longrightarrow> i = j)"

definition fd_ok :: "ramfs \<Rightarrow> file_desc \<Rightarrow> bool" where
  "fd_ok f d \<longleftrightarrow> (fd_used d \<longrightarrow> 0 \<le> fd_inode d \<longrightarrow>
     nat (fd_inode d) < RAMFS_MAX_FILES \<and> ri_used (inodes f ! nat (fd_inode d)))"

definition fds_ok :: "ramfs \<Rightarrow> file_desc list \<Rightarrow> bool" where
  "fds_ok f tbl \<longleftrightarrow> length tbl = FD_MAX \<and> (\<forall>d\<in>set tbl. fd_ok f d)"

definition contents :: "ramfs_inode \<Rightarrow> u8 list" where
  "contents n = take (unat (ri_size n)) (ri_data n)"

definition files :: "ramfs \<Rightarrow> cstr \<rightharpoonup> u8 list" where
  "files f name = map_option (\<lambda>i. contents (inodes f ! i)) (find_inode_by_name f name)"

lemma fs_ok_inode: "fs_ok f \<Longrightarrow> i < RAMFS_MAX_FILES \<Longrightarrow> inode_wf (inodes f ! i)"
  by (simp add: fs_ok_def)

lemma fs_ok_length [simp]: "fs_ok f \<Longrightarrow> length (inodes f) = RAMFS_MAX_FILES"
  by (simp add: fs_ok_def)

lemma fs_ok_unique:
  "fs_ok f \<Longrightarrow> i < RAMFS_MAX_FILES \<Longrightarrow> j < RAMFS_MAX_FILES \<Longrightarrow> ri_used (inodes f ! i) \<Longrightarrow> ri_used (inodes f ! j) \<Longrightarrow>
   ri_name (inodes f ! i) = ri_name (inodes f ! j) \<Longrightarrow> i = j"
  unfolding fs_ok_def by blast

lemma find_Some_iff:
  assumes "fs_ok f"
  shows "find_inode_by_name f name = Some i \<longleftrightarrow>
    i < RAMFS_MAX_FILES \<and> ri_used (inodes f ! i) \<and> ri_name (inodes f ! i) = name"
proof -
  have "\<not> (ri_used (inodes f ! j) \<and> ri_name (inodes f ! j) = name)"
    if "i < RAMFS_MAX_FILES" "ri_used (inodes f ! i)" "ri_name (inodes f ! i) = name" "j < i" for j
    using assms that unfolding fs_ok_def by (metis less_irrefl less_trans)
  then show ?thesis
    using assms by (auto simp: find_inode_by_name_def first_idx_Some_iff)
qed

lemma find_None_iff:
  assumes "fs_ok f"
  shows "find_inode_by_name f name = None \<longleftrightarrow>
    (\<forall>i<RAMFS_MAX_FILES. ri_used (inodes f ! i) \<longrightarrow> ri_name (inodes f ! i) \<noteq> name)"
  using assms by (auto simp: find_inode_by_name_def first_idx_None_iff all_set_conv_all_nth)

lemma alloc_inode_Some: "alloc_inode f = Some i \<Longrightarrow> i < length (inodes f) \<and> \<not> ri_used (inodes f ! i)"
  by (auto simp: alloc_inode_def first_idx_Some_iff)

text \<open>Replacing one inode: the invariant and the map.\<close>

lemma nth_set_inode: "i < length (inodes f) \<Longrightarrow> inodes (set_inode i n f) ! j = (if j = i then n else inodes f ! j)"
  by (simp add: set_inode_def nth_list_update)

lemma fs_ok_set_inode:
  assumes "fs_ok f" and "i < RAMFS_MAX_FILES" and "inode_wf n"
    and "ri_used n \<longrightarrow> (\<forall>j<RAMFS_MAX_FILES. j \<noteq> i \<longrightarrow> ri_used (inodes f ! j) \<longrightarrow> ri_name (inodes f ! j) \<noteq> ri_name n)"
  shows "fs_ok (set_inode i n f)"
proof -
  have "\<forall>x\<in>set (inodes (set_inode i n f)). inode_wf x"
    using assms(1,3) set_update_subset_insert [of "inodes f" i n] by (auto simp: fs_ok_def set_inode_def)
  moreover have "length (inodes (set_inode i n f)) = RAMFS_MAX_FILES"
    using assms(1) by (simp add: set_inode_def)
  moreover have "a = b" if "a < RAMFS_MAX_FILES" "b < RAMFS_MAX_FILES" "ri_used (inodes (set_inode i n f) ! a)"
      "ri_used (inodes (set_inode i n f) ! b)" "ri_name (inodes (set_inode i n f) ! a) = ri_name (inodes (set_inode i n f) ! b)" for a b
  proof -
    have nth: "inodes (set_inode i n f) ! j = (if j = i then n else inodes f ! j)" for j
      using assms(1,2) by (simp add: nth_set_inode)
    show ?thesis
    proof (cases "a = i \<or> b = i")
      case True
      then show ?thesis
        using that assms(4) unfolding nth by (metis (full_types))
    next
      case False
      then show ?thesis
        using that fs_ok_unique [OF assms(1)] unfolding nth by simp
    qed
  qed
  ultimately show ?thesis
    unfolding fs_ok_def by blast
qed

lemma files_Some_iff:
  assumes "fs_ok f"
  shows "files f name = Some c \<longleftrightarrow>
    (\<exists>i<RAMFS_MAX_FILES. ri_used (inodes f ! i) \<and> ri_name (inodes f ! i) = name \<and> c = contents (inodes f ! i))"
  using find_Some_iff [OF assms] by (auto simp: files_def)

lemma files_at:
  "fs_ok f \<Longrightarrow> i < RAMFS_MAX_FILES \<Longrightarrow> ri_used (inodes f ! i) \<Longrightarrow> files f (ri_name (inodes f ! i)) = Some (contents (inodes f ! i))"
  by (auto simp: files_Some_iff)

lemma files_set_inode:
  assumes "fs_ok f" and "fs_ok (set_inode i n f)" and "i < RAMFS_MAX_FILES"
  shows "files (set_inode i n f) =
    (let g = (if ri_used (inodes f ! i) then (files f)(ri_name (inodes f ! i) := None) else files f)
     in if ri_used n then g(ri_name n \<mapsto> contents n) else g)"
proof (rule ext)
  fix name
  let ?f = "set_inode i n f"
  have nth: "inodes ?f ! j = (if j = i then n else inodes f ! j)" for j
    using assms(1,3) by (simp add: nth_set_inode)
  show "files ?f name = (let g = (if ri_used (inodes f ! i) then (files f)(ri_name (inodes f ! i) := None) else files f)
     in if ri_used n then g(ri_name n \<mapsto> contents n) else g) name"
  proof (cases "ri_used n \<and> ri_name n = name")
    case True
    then show ?thesis
      using files_at [OF assms(2,3)] nth by (auto simp: Let_def)
  next
    case False
    have "files ?f name = Some c \<longleftrightarrow> files f name = Some c \<and> \<not> (ri_used (inodes f ! i) \<and> ri_name (inodes f ! i) = name)" for c
    proof
      assume "files ?f name = Some c"
      then obtain j where j: "j < RAMFS_MAX_FILES" "ri_used (inodes ?f ! j)" "ri_name (inodes ?f ! j) = name" "c = contents (inodes ?f ! j)"
        using files_Some_iff [OF assms(2)] by blast
      then have "j \<noteq> i"
        using False nth by auto
      moreover from this have "\<not> (ri_used (inodes f ! i) \<and> ri_name (inodes f ! i) = name)"
        using j nth fs_ok_unique [OF assms(1), of j i] assms(3) by auto
      ultimately show "files f name = Some c \<and> \<not> (ri_used (inodes f ! i) \<and> ri_name (inodes f ! i) = name)"
        using j nth files_Some_iff [OF assms(1)] by auto
    next
      assume a: "files f name = Some c \<and> \<not> (ri_used (inodes f ! i) \<and> ri_name (inodes f ! i) = name)"
      then obtain j where j: "j < RAMFS_MAX_FILES" "ri_used (inodes f ! j)" "ri_name (inodes f ! j) = name" "c = contents (inodes f ! j)"
        using files_Some_iff [OF assms(1)] by blast
      then have "j \<noteq> i"
        using a by auto
      then show "files ?f name = Some c"
        using j nth files_Some_iff [OF assms(2)] by auto
    qed
    then have "files ?f name = (if ri_used (inodes f ! i) \<and> ri_name (inodes f ! i) = name then None else files f name)"
      by (metis not_Some_eq)
    then show ?thesis
      using False by (auto simp: Let_def)
  qed
qed


section \<open>Descriptors\<close>

lemma fd_ok_set_inode:
  assumes "fs_ok f" and "i < RAMFS_MAX_FILES" and "ri_used (inodes f ! i) \<longrightarrow> ri_used n" and "fd_ok f d"
  shows "fd_ok (set_inode i n f) d"
  using assms by (auto simp: fd_ok_def nth_set_inode)

lemma fds_ok_set_inode:
  "fs_ok f \<Longrightarrow> i < RAMFS_MAX_FILES \<Longrightarrow> (ri_used (inodes f ! i) \<longrightarrow> ri_used n) \<Longrightarrow> fds_ok f tbl \<Longrightarrow> fds_ok (set_inode i n f) tbl"
  by (auto simp: fds_ok_def intro: fd_ok_set_inode)

lemma fds_ok_update: "fds_ok f tbl \<Longrightarrow> fd_ok f d \<Longrightarrow> fds_ok f (tbl[i := d])"
  using set_update_subset_insert [of tbl i d] by (auto simp: fds_ok_def)

lemma fds_ok_nth: "fds_ok f tbl \<Longrightarrow> i < FD_MAX \<Longrightarrow> fd_ok f (tbl ! i)"
  by (simp add: fds_ok_def)

lemma get_open_fd_Some: "get_open_fd tbl fd = Some i \<longleftrightarrow> 0 \<le> fd \<and> i < FD_MAX \<and> fd = int i \<and> fd_used (tbl ! i)"
  by (auto simp: get_open_fd_def valid_fd_index_def)

lemma install_fd_ok:
  assumes "fds_ok f tbl" and "0 \<le> inode \<longrightarrow> nat inode < RAMFS_MAX_FILES \<and> ri_used (inodes f ! nat inode)"
  shows "fds_ok f (snd (install_fd tbl inode flags off))"
  using assms by (auto simp: install_fd_def fd_ok_def split: option.split intro!: fds_ok_update)

lemma install_fd_at:
  assumes "install_fd tbl inode flags off = (fd, tbl')" and "0 \<le> fd" and "length tbl = FD_MAX"
  shows "get_open_fd tbl' fd = Some (nat fd) \<and> length tbl' = FD_MAX \<and>
    tbl' ! nat fd = \<lparr>fd_used = True, fd_inode = inode, fd_offset = off, fd_flags = flags\<rparr>"
  using assms by (auto simp: install_fd_def get_open_fd_Some alloc_fd_def first_idx_Some_iff split: option.splits)

section \<open>Operations on names\<close>

lemma zero_inode_wf [simp]: "inode_wf zero_inode" "contents (zero_inode\<lparr>ri_used := u, ri_name := s\<rparr>) = []"
  by (simp_all add: inode_wf_def zero_inode_def contents_def)

lemma ensure_inode_ok:
  assumes "fs_ok f" and "name_ok name" and "ensure_ramfs_inode name flags f = (r, f')"
  shows "fs_ok f'" and "fds_ok f tbl \<Longrightarrow> fds_ok f' tbl"
    and "r = None \<Longrightarrow> f' = f \<and> files f name = None \<and> (flags AND O_CREAT = 0 \<or> alloc_inode f = None)"
    and "r = Some i \<Longrightarrow> i < RAMFS_MAX_FILES \<and> ri_used (inodes f' ! i) \<and> ri_name (inodes f' ! i) = name \<and>
      files f' = (if files f name = None then (files f)(name \<mapsto> []) else files f)"
proof -
  let ?n = "zero_inode\<lparr>ri_used := True, ri_name := name\<rparr>"
  have new: "fs_ok (set_inode i ?n f)" "i < RAMFS_MAX_FILES" "\<not> ri_used (inodes f ! i)"
    if "find_inode_by_name f name = None" "alloc_inode f = Some i" for i
  proof -
    show i: "i < RAMFS_MAX_FILES" "\<not> ri_used (inodes f ! i)"
      using alloc_inode_Some [OF that(2)] assms(1) by simp_all
    have "inode_wf ?n"
      using assms(2) by (simp add: inode_wf_def zero_inode_def)
    then show "fs_ok (set_inode i ?n f)"
      using assms(1) i that(1) find_None_iff [OF assms(1)] by (intro fs_ok_set_inode) auto
  qed
  show "fs_ok f'"
    using assms new(1) by (auto simp: ensure_ramfs_inode_def split: option.splits if_splits)
  show "fds_ok f tbl \<Longrightarrow> fds_ok f' tbl"
    using assms new by (auto simp: ensure_ramfs_inode_def split: option.splits if_splits intro!: fds_ok_set_inode)
  show "r = None \<Longrightarrow> f' = f \<and> files f name = None \<and> (flags AND O_CREAT = 0 \<or> alloc_inode f = None)"
    using assms(3) by (auto simp: ensure_ramfs_inode_def files_def split: option.splits if_splits)
  show "i < RAMFS_MAX_FILES \<and> ri_used (inodes f' ! i) \<and> ri_name (inodes f' ! i) = name \<and>
      files f' = (if files f name = None then (files f)(name \<mapsto> []) else files f)" if "r = Some i"
  proof (cases "find_inode_by_name f name")
    case None
    then have f': "alloc_inode f = Some i" "f' = set_inode i ?n f"
      using assms(3) that by (auto simp: ensure_ramfs_inode_def split: option.splits if_splits)
    note n = new [OF None f'(1)]
    have "files f' = (files f)(name \<mapsto> [])"
      using files_set_inode [OF assms(1) n(1,2)] n(3) by (simp add: f'(2) Let_def)
    then show ?thesis
      using None n assms(1) by (simp add: files_def f'(2) nth_set_inode)
  next
    case (Some j)
    then show ?thesis
      using assms(1,3) that find_Some_iff [OF assms(1), of name j] by (simp add: ensure_ramfs_inode_def files_def)
  qed
qed

text \<open>Changing the contents of a file.\<close>

lemma set_contents_ok:
  assumes "fs_ok f" and "i < RAMFS_MAX_FILES" and "ri_used (inodes f ! i)"
    and "length data = RAMFS_DATA_MAX" and "unat sz \<le> RAMFS_DATA_MAX"
  defines "n \<equiv> (inodes f ! i)\<lparr>ri_data := data, ri_size := sz\<rparr>"
  defines "f' \<equiv> set_inode i n f"
  shows "fs_ok f'" and "fds_ok f tbl \<Longrightarrow> fds_ok f' tbl"
    and "files f' = (files f)(ri_name (inodes f ! i) \<mapsto> take (unat sz) data)"
    and "inodes f' ! i = n"
proof -
  have "inode_wf n"
    using fs_ok_inode [OF assms(1,2)] assms(4,5) by (simp add: n_def inode_wf_def)
  moreover have "\<forall>j<RAMFS_MAX_FILES. j \<noteq> i \<longrightarrow> ri_used (inodes f ! j) \<longrightarrow> ri_name (inodes f ! j) \<noteq> ri_name n"
    using fs_ok_unique [OF assms(1) _ assms(2) _ assms(3)] by (auto simp: n_def)
  ultimately show ok: "fs_ok f'"
    unfolding f'_def using assms(1,2) by (intro fs_ok_set_inode) auto
  show "fds_ok f tbl \<Longrightarrow> fds_ok f' tbl"
    using assms(1-3) unfolding f'_def n_def by (intro fds_ok_set_inode) auto
  show "files f' = (files f)(ri_name (inodes f ! i) \<mapsto> take (unat sz) data)"
    using files_set_inode [OF assms(1) ok [unfolded f'_def] assms(2)] assms(3)
    by (simp add: f'_def n_def Let_def contents_def)
  show "inodes f' ! i = n"
    using assms(1,2) by (simp add: f'_def nth_set_inode)
qed

lemma truncate_ok:
  assumes "fs_ok f" and "i < RAMFS_MAX_FILES" and "ri_used (inodes f ! i)"
  defines "f' \<equiv> set_inode i ((inodes f ! i)\<lparr>ri_size := 0\<rparr>) f"
  shows "fs_ok f'" and "fds_ok f tbl \<Longrightarrow> fds_ok f' tbl" and "files f' = (files f)(ri_name (inodes f ! i) \<mapsto> [])"
    and "inodes f' ! i = (inodes f ! i)\<lparr>ri_size := 0\<rparr>"
proof -
  have l: "length (ri_data (inodes f ! i)) = RAMFS_DATA_MAX"
    using fs_ok_inode [OF assms(1,2)] by (simp add: inode_wf_def)
  note r = set_contents_ok [OF assms(1-3) l, of 0, simplified, folded f'_def]
  show "fs_ok f'" and "fds_ok f tbl \<Longrightarrow> fds_ok f' tbl" and "files f' = (files f)(ri_name (inodes f ! i) \<mapsto> [])"
    and "inodes f' ! i = (inodes f ! i)\<lparr>ri_size := 0\<rparr>"
    by (fact r)+
qed

text \<open>What opening does to the map: a missing file is created when asked for, \<^verbatim>\<open>O_TRUNC\<close> empties.\<close>

definition opened :: "cstr \<Rightarrow> u32 \<Rightarrow> (cstr \<rightharpoonup> u8 list) \<Rightarrow> cstr \<rightharpoonup> u8 list" where
  "opened name flags m =
     m(name \<mapsto> (case m name of None \<Rightarrow> [] | Some c \<Rightarrow> if flags AND O_TRUNC \<noteq> 0 then [] else c))"

definition can_open :: "cstr \<Rightarrow> u32 \<Rightarrow> ramfs \<Rightarrow> bool" where
  "can_open name flags f \<longleftrightarrow> files f name \<noteq> None \<or> flags AND O_CREAT \<noteq> 0 \<and> alloc_inode f \<noteq> None"

lemma fs_open_ramfs:
  assumes "fs_ok f" and "fds_ok f tbl" and "normalize_name path = Some name"
    and "find_inode_by_name f name \<noteq> None \<or> fst (open_ext4_readonly f name flags tbl) < 0"
    and "fs_open path flags tbl f = (fd, tbl', f')"
  shows "\<not> can_open name flags f \<Longrightarrow> fd = -1 \<and> tbl' = tbl \<and> f' = f"
    and "can_open name flags f \<Longrightarrow>
      fs_ok f' \<and> (\<forall>t. fds_ok f t \<longrightarrow> fds_ok f' t) \<and> fds_ok f' tbl' \<and> files f' = opened name flags (files f) \<and>
      (\<exists>i<RAMFS_MAX_FILES. ri_used (inodes f' ! i) \<and> ri_name (inodes f' ! i) = name \<and>
         (fd, tbl') = install_fd tbl (int i) flags (if flags AND O_APPEND \<noteq> 0 then ri_size (inodes f' ! i) else 0))"
    and "files f name \<noteq> None \<Longrightarrow> flags AND O_TRUNC = 0 \<Longrightarrow> f' = f"
proof -
  have nok: "name_ok name"
    using assms(3) normalize_name_iff by blast
  obtain r f1 where en: "ensure_ramfs_inode name flags f = (r, f1)"
    by fastforce
  note e = ensure_inode_ok [OF assms(1) nok en]
  have res: "fs_open path flags tbl f =
      (case r of None \<Rightarrow> (-1, tbl, f1)
       | Some i \<Rightarrow>
           let f = (if flags AND O_TRUNC \<noteq> 0 then set_inode i ((inodes f1 ! i)\<lparr>ri_size := 0\<rparr>) f1 else f1);
               offset = (if flags AND O_APPEND \<noteq> 0 then ri_size (inodes f ! i) else 0);
               (fd, tbl) = install_fd tbl (int i) flags offset
           in (fd, tbl, f))"
    using assms(3,4) en by (auto simp: fs_open_def split: option.split prod.split)
  show "\<not> can_open name flags f \<Longrightarrow> fd = -1 \<and> tbl' = tbl \<and> f' = f"
    using res e(3) assms(5) en
    by (cases r) (auto simp: can_open_def ensure_ramfs_inode_def files_def split: option.splits if_splits)
  show "f' = f" if found: "files f name \<noteq> None" and "flags AND O_TRUNC = 0"
  proof -
    obtain j where "find_inode_by_name f name = Some j"
      using found by (auto simp: files_def)
    then have "r = Some j" "f1 = f"
      using en by (auto simp: ensure_ramfs_inode_def)
    then show ?thesis
      using res assms(5) that(2) by (auto simp: Let_def split: prod.splits)
  qed
  assume can: "can_open name flags f"
  then obtain i where r: "r = Some i"
    using e(3) by (cases r) (auto simp: can_open_def)
  note ei = e(4) [OF r]
  have i: "i < RAMFS_MAX_FILES" "ri_used (inodes f1 ! i)" "ri_name (inodes f1 ! i) = name"
    using ei by simp_all
  have f': "f' = (if flags AND O_TRUNC \<noteq> 0 then set_inode i ((inodes f1 ! i)\<lparr>ri_size := 0\<rparr>) f1 else f1)"
    and ins: "(fd, tbl') = install_fd tbl (int i) flags (if flags AND O_APPEND \<noteq> 0 then ri_size (inodes f' ! i) else 0)"
    using res assms(5) r by (auto simp: Let_def split: prod.splits)
  note t = truncate_ok [OF e(1) i(1,2)]
  have ok: "fs_ok f'" "ri_used (inodes f' ! i)" "ri_name (inodes f' ! i) = name"
    using f' e(1) t i by auto
  have fds: "\<forall>t. fds_ok f t \<longrightarrow> fds_ok f' t"
    using f' e(2) t(2) by auto
  have "fds_ok f' tbl'"
    using install_fd_ok [of f' tbl "int i" flags] fds assms(2) i(1) ok(2) ins by (metis nat_int snd_conv)
  moreover have "files f' = opened name flags (files f)"
    using f' t(3) i(3) ei by (auto simp: opened_def split: option.splits)
  ultimately show "fs_ok f' \<and> (\<forall>t. fds_ok f t \<longrightarrow> fds_ok f' t) \<and> fds_ok f' tbl' \<and> files f' = opened name flags (files f) \<and>
      (\<exists>i<RAMFS_MAX_FILES. ri_used (inodes f' ! i) \<and> ri_name (inodes f' ! i) = name \<and>
         (fd, tbl') = install_fd tbl (int i) flags (if flags AND O_APPEND \<noteq> 0 then ri_size (inodes f' ! i) else 0))"
    using ok fds ins i(1) by blast
qed


section \<open>Reading and writing\<close>

definition overwrite :: "u8 list \<Rightarrow> nat \<Rightarrow> u8 list \<Rightarrow> u8 list" where
  "overwrite c off bs = take off c @ bs @ drop (off + length bs) c"

lemma take_overwrite:
  assumes "off \<le> sz" and "sz \<le> length d" and "off + length bs \<le> length d"
  shows "take (max sz (off + length bs)) (overwrite d off bs) = overwrite (take sz d) off bs"
proof (rule nth_equalityI)
  show "length (take (max sz (off + length bs)) (overwrite d off bs)) = length (overwrite (take sz d) off bs)"
    using assms by (auto simp: overwrite_def)
  fix k assume "k < length (take (max sz (off + length bs)) (overwrite d off bs))"
  then show "take (max sz (off + length bs)) (overwrite d off bs) ! k = overwrite (take sz d) off bs ! k"
    using assms by (auto simp: overwrite_def nth_append)
qed

lemma fs_read_ramfs:
  fixes len :: u32
  assumes "fs_ok f" and "fds_ok f tbl" and "buf \<noteq> 0" and fd: "get_open_fd tbl fd = Some i"
    and "fd_flags (tbl ! i) AND 3 \<noteq> O_WRONLY" and "\<not> is_ext_fd (tbl ! i)" and "\<And>m. store buf [] m = Inr m"
  defines "d \<equiv> tbl ! i"
  defines "bs \<equiv> take (unat len) (drop (unat (fd_offset d)) (contents (inodes f ! nat (fd_inode d))))"
  shows "fs_read dev store fd buf len m tbl f =
    kbind (store buf bs m) (\<lambda>m. Inr (int (length bs), m, tbl[i := d\<lparr>fd_offset := fd_offset d + of_nat (length bs)\<rparr>], f))"
proof -
  let ?n = "inodes f ! nat (fd_inode d)"
  have "i < FD_MAX" "fd_used d"
    using fd by (auto simp: get_open_fd_Some d_def)
  then have ino: "nat (fd_inode d) < RAMFS_MAX_FILES"
    using fds_ok_nth [OF assms(2), of i] assms(6) by (simp add: d_def fd_ok_def is_ext_fd_def)
  then have wf: "inode_wf ?n"
    using assms(1) by (rule fs_ok_inode [rotated])
  have upd: "tbl[i := d] = tbl"
    by (simp add: d_def)
  note start = fs_read_def assms(3,5,6) fd d_def [symmetric] Let_def
  show ?thesis
  proof (cases "ri_size ?n \<le> fd_offset d")
    case True
    then have "bs = []"
      by (simp add: bs_def contents_def word_le_nat_alt)
    then show ?thesis
      using True ino assms(1,5,6,7) upd by (simp add: start)
  next
    case False
    define n where "n = (if len < ri_size ?n - fd_offset d then len else ri_size ?n - fd_offset d)"
    have lt: "unat (fd_offset d) < unat (ri_size ?n)"
      using False by (simp add: word_le_nat_alt)
    then have "unat (ri_size ?n - fd_offset d) = unat (ri_size ?n) - unat (fd_offset d)"
      by (simp add: unat_sub word_le_nat_alt)
    then have n: "unat n = min (unat len) (unat (ri_size ?n) - unat (fd_offset d))"
      by (auto simp: n_def word_less_nat_alt)
    have sz: "unat (ri_size ?n) \<le> RAMFS_DATA_MAX" "length (ri_data ?n) = RAMFS_DATA_MAX"
      using wf by (simp_all add: inode_wf_def)
    then have "sub_bytes (ri_data ?n) (unat (fd_offset d)) (unat n) = Inr bs"
      using lt n by (simp add: sub_bytes_def bs_def contents_def drop_take min.commute)
    moreover have l: "length bs = unat n"
      using n sz lt by (simp add: bs_def contents_def min.commute)
    moreover have "sint n = int (unat n)"
      using n sz by (intro sint_small) simp
    moreover have "of_nat (unat n) = n"
      by simp
    ultimately show ?thesis
      using False ino assms(1,5,6) by (simp add: start flip: n_def d_def)
  qed
qed

text \<open>The inode after bytes were written at an offset.\<close>

definition written :: "nat \<Rightarrow> nat \<Rightarrow> u8 list \<Rightarrow> ramfs \<Rightarrow> ramfs" where
  "written i off bs f =
     set_inode i ((inodes f ! i)\<lparr>ri_data := overwrite (ri_data (inodes f ! i)) off bs,
       ri_size := of_nat (max (unat (ri_size (inodes f ! i))) (off + length bs))\<rparr>) f"

lemma written_ok:
  assumes "fs_ok f" and "i < RAMFS_MAX_FILES" and "ri_used (inodes f ! i)" and "off + length bs \<le> RAMFS_DATA_MAX"
  shows "fs_ok (written i off bs f)" and "fds_ok f tbl \<Longrightarrow> fds_ok (written i off bs f) tbl"
    and "off \<le> unat (ri_size (inodes f ! i)) \<Longrightarrow>
      files (written i off bs f) = (files f)(ri_name (inodes f ! i) \<mapsto> overwrite (contents (inodes f ! i)) off bs)"
proof -
  let ?n = "inodes f ! i"
  have sz: "unat (ri_size ?n) \<le> RAMFS_DATA_MAX" "length (ri_data ?n) = RAMFS_DATA_MAX"
    using fs_ok_inode [OF assms(1,2)] by (simp_all add: inode_wf_def)
  have l: "length (overwrite (ri_data ?n) off bs) = RAMFS_DATA_MAX"
    using sz assms(4) by (simp add: overwrite_def)
  have u: "unat (of_nat (max (unat (ri_size ?n)) (off + length bs)) :: u32) = max (unat (ri_size ?n)) (off + length bs)"
    using sz assms(4) by (simp add: unat_of_nat)
  then have le: "unat (of_nat (max (unat (ri_size ?n)) (off + length bs)) :: u32) \<le> RAMFS_DATA_MAX"
    using sz assms(4) by simp
  note c = set_contents_ok [OF assms(1-3) l le]
  show "fs_ok (written i off bs f)" and "fds_ok f tbl \<Longrightarrow> fds_ok (written i off bs f) tbl"
    unfolding written_def by (fact c(1,2))+
  show "files (written i off bs f) = (files f)(ri_name ?n \<mapsto> overwrite (contents ?n) off bs)"
    if "off \<le> unat (ri_size ?n)"
    using c(3) u take_overwrite [OF that] sz assms(4) by (simp add: written_def contents_def)
qed

lemma fs_write_ramfs:
  fixes len :: u32
  assumes "fs_ok f" and "fds_ok f tbl" and "buf \<noteq> 0" and fd: "get_open_fd tbl fd = Some i"
    and mode: "fd_flags (tbl ! i) AND 3 = O_WRONLY \<or> fd_flags (tbl ! i) AND 3 = O_RDWR" and ram: "\<not> is_ext_fd (tbl ! i)"
    and load: "\<And>n m bs m'. load buf n m = Inr (bs, m') \<Longrightarrow> length bs = n"
  defines "d \<equiv> tbl ! i"
  defines "nd \<equiv> inodes f ! nat (fd_inode d)"
  defines "off \<equiv> if fd_flags d AND O_APPEND \<noteq> 0 then ri_size nd else fd_offset d"
  defines "n \<equiv> min (unat len) (RAMFS_DATA_MAX - unat off)"
  shows "fs_write load fd buf len m tbl f =
    (if RAMFS_DATA_MAX \<le> unat off then Inr (0, m, tbl[i := d\<lparr>fd_offset := off\<rparr>], f)
     else kbind (load buf n m) (\<lambda>(bs, m').
       Inr (int n, m', tbl[i := d\<lparr>fd_offset := off + of_nat n\<rparr>], written (nat (fd_inode d)) (unat off) bs f)))"
proof -
  have "i < FD_MAX" "fd_used d"
    using fd by (auto simp: get_open_fd_Some d_def)
  then have ino: "nat (fd_inode d) < RAMFS_MAX_FILES"
    using fds_ok_nth [OF assms(2), of i] ram by (simp add: d_def fd_ok_def is_ext_fd_def)
  then have sz: "unat (ri_size nd) \<le> RAMFS_DATA_MAX" "length (ri_data nd) = RAMFS_DATA_MAX"
    using fs_ok_inode [OF assms(1)] by (simp_all add: inode_wf_def nd_def)
  define w where "w = (if len < of_nat RAMFS_DATA_MAX - off then len else of_nat RAMFS_DATA_MAX - off)"
  have doff: "(if fd_flags d AND O_APPEND \<noteq> 0 then d\<lparr>fd_offset := ri_size nd\<rparr> else d) = d\<lparr>fd_offset := off\<rparr>"
    by (simp add: off_def)
  have d1: "fd_flags d AND 3 = O_WRONLY \<or> fd_flags d AND 3 = O_RDWR" "\<not> is_ext_fd d"
    using mode ram by (simp_all add: d_def)
  have cut: "fs_write load fd buf len m tbl f =
      (if of_nat RAMFS_DATA_MAX \<le> off then Inr (0, m, tbl[i := d\<lparr>fd_offset := off\<rparr>], f)
       else kbind (load buf (unat w) m) (\<lambda>(bs, m).
            kbind (put_bytes (ri_data nd) (unat off) bs) (\<lambda>data.
              Inr (sint w, m, tbl[i := d\<lparr>fd_offset := off + w\<rparr>],
                set_inode (nat (fd_inode d)) (nd\<lparr>ri_data := data,
                  ri_size := if ri_size nd < off + w then off + w else ri_size nd\<rparr>) f))))"
    using assms(1,3) fd ino d1
    by (simp add: fs_write_def doff Let_def w_def flip: d_def nd_def)
  show ?thesis
  proof (cases "RAMFS_DATA_MAX \<le> unat off")
    case True
    then show ?thesis
      using cut by (simp add: word_le_nat_alt)
  next
    case False
    have "unat (1024 - off) = 1024 - unat off"
      using False by (simp add: unat_sub word_le_nat_alt)
    then have w: "unat w = n"
      by (auto simp: w_def n_def word_less_nat_alt)
    have le: "unat off + n \<le> RAMFS_DATA_MAX"
      using False by (simp add: n_def)
    have "unat (off + w) = unat off + n"
      using le w by (subst unat_add_no_wrap) simp_all
    moreover have "sint w = int n"
      using le w by (subst sint_small) simp_all
    moreover have "w = of_nat n"
      by (simp flip: w)
    ultimately have sum: "unat (off + w) = unat off + n" "sint w = int n" "w = of_nat n"
      by blast+
    have s': "(if ri_size nd < off + w then off + w else ri_size nd) = of_nat (max (unat (ri_size nd)) (unat off + n))"
    proof (cases "ri_size nd < off + w")
      case True
      then show ?thesis
        using sum by (simp add: word_less_nat_alt max_def flip: sum(1))
    next
      case False
      then show ?thesis
        using sum(1) by (simp add: word_less_nat_alt max_def not_less)
    qed
    have "(\<lambda>(bs, m). kbind (put_bytes (ri_data nd) (unat off) bs) (\<lambda>data.
              Inr (sint w, m, tbl[i := d\<lparr>fd_offset := off + w\<rparr>],
                set_inode (nat (fd_inode d)) (nd\<lparr>ri_data := data,
                  ri_size := if ri_size nd < off + w then off + w else ri_size nd\<rparr>) f))) x =
         (\<lambda>(bs, m'). Inr (int n, m', tbl[i := d\<lparr>fd_offset := off + of_nat n\<rparr>], written (nat (fd_inode d)) (unat off) bs f)) x"
      if "load buf n m = Inr x" for x
    proof -
      obtain bs m' where xx: "x = (bs, m')"
        by (cases x)
      then have l: "length bs = n"
        using load that by blast
      then have "put_bytes (ri_data nd) (unat off) bs = Inr (overwrite (ri_data nd) (unat off) bs)"
        using le sz by (simp add: put_bytes_def overwrite_def)
      then show ?thesis
        unfolding s' using sum(2,3) l by (simp add: xx written_def nd_def)
    qed
    then have "kbind (load buf n m) (\<lambda>(bs, m). kbind (put_bytes (ri_data nd) (unat off) bs) (\<lambda>data.
              Inr (sint w, m, tbl[i := d\<lparr>fd_offset := off + w\<rparr>],
                set_inode (nat (fd_inode d)) (nd\<lparr>ri_data := data,
                  ri_size := if ri_size nd < off + w then off + w else ri_size nd\<rparr>) f))) =
         kbind (load buf n m) (\<lambda>(bs, m'). Inr (int n, m', tbl[i := d\<lparr>fd_offset := off + of_nat n\<rparr>],
           written (nat (fd_inode d)) (unat off) bs f))"
      by (intro kbind_cong) auto
    then show ?thesis
      using cut False w by (simp add: word_le_nat_alt)
  qed
qed


section \<open>Unlinking and renaming\<close>

lemma fs_unlink_ok:
  assumes "fs_ok f" and "\<forall>t\<in>set tbls. fds_ok f t" and "fs_unlink path tbls f = (rc, tbls', f')"
  shows "fs_ok f'" and "\<forall>t\<in>set tbls'. fds_ok f' t" and "length tbls' = length tbls"
    and "normalize_name path = Some name \<Longrightarrow> files f' = (files f)(name := None) \<and> rc = (if files f name = None then -1 else 0)"
    and "normalize_name path = None \<Longrightarrow> rc = -1 \<and> f' = f"
proof -
  have del: "fs_ok (set_inode i zero_inode f)" if "i < RAMFS_MAX_FILES" for i
    using assms(1) that by (intro fs_ok_set_inode) (auto simp: zero_inode_def inode_wf_def)
  have fd: "fd_ok (set_inode i zero_inode f) (drop_fd i d)" if "fd_ok f d" "i < RAMFS_MAX_FILES" for i d
    using that assms(1) by (auto simp: fd_ok_def drop_fd_def nth_set_inode)
  have tb: "fds_ok (set_inode i zero_inode f) (map (drop_fd i) t)" if "fds_ok f t" "i < RAMFS_MAX_FILES" for i t
    using that fd by (auto simp: fds_ok_def)
  have i: "i < RAMFS_MAX_FILES \<and> ri_used (inodes f ! i) \<and> ri_name (inodes f ! i) = s" if "find_inode_by_name f s = Some i" for i s
    using find_Some_iff [OF assms(1)] that by blast
  show "fs_ok f'"
    using assms(1,3) del i by (auto simp: fs_unlink_def split: option.splits)
  show "\<forall>t\<in>set tbls'. fds_ok f' t"
    using assms tb i by (auto simp: fs_unlink_def split: option.splits)
  show "length tbls' = length tbls"
    using assms(3) by (auto simp: fs_unlink_def split: option.splits)
  show "normalize_name path = None \<Longrightarrow> rc = -1 \<and> f' = f"
    using assms(3) by (simp add: fs_unlink_def)
  assume nm: "normalize_name path = Some name"
  show "files f' = (files f)(name := None) \<and> rc = (if files f name = None then -1 else 0)"
  proof (cases "find_inode_by_name f name")
    case None
    then show ?thesis
      using assms(3) nm by (auto simp: fs_unlink_def files_def fun_eq_iff)
  next
    case (Some k)
    then have f': "f' = set_inode k zero_inode f" "rc = 0"
      using assms(3) nm by (auto simp: fs_unlink_def)
    show ?thesis
      using files_set_inode [OF assms(1) del] i [OF Some] f' Some
      by (simp add: Let_def zero_inode_def files_def)
  qed
qed

lemma fs_rename_ok:
  assumes "fs_ok f" and "fs_rename old_path new_path f = (rc, f')"
  shows "fs_ok f'" and "fds_ok f t \<Longrightarrow> fds_ok f' t"
    and "normalize_name old_path = Some a \<Longrightarrow> normalize_name new_path = Some b \<Longrightarrow>
      (if a = b then rc = 0 \<and> files f' = files f
       else if files f a = None \<or> files f b \<noteq> None then rc = -1 \<and> files f' = files f
       else rc = 0 \<and> files f' = (files f)(a := None, b := files f a))"
    and "normalize_name old_path = None \<or> normalize_name new_path = None \<Longrightarrow> rc = -1 \<and> f' = f"
proof -
  let ?n = "\<lambda>i s. (inodes f ! i)\<lparr>ri_name := s\<rparr>"
  have mv: "fs_ok (set_inode i (?n i s) f)" if "i < RAMFS_MAX_FILES" "name_ok s" "find_inode_by_name f s = None" for i s
  proof -
    have "inode_wf (?n i s)"
      using fs_ok_inode [OF assms(1) that(1)] that(2) by (simp add: inode_wf_def)
    then show ?thesis
      using assms(1) that find_None_iff [OF assms(1)] by (intro fs_ok_set_inode) auto
  qed
  have i: "i < RAMFS_MAX_FILES \<and> ri_used (inodes f ! i) \<and> ri_name (inodes f ! i) = s" if "find_inode_by_name f s = Some i" for i s
    using find_Some_iff [OF assms(1)] that by blast
  have nm: "name_ok s" if "normalize_name p = Some s" for p s
    using that normalize_name_iff by blast
  show "fs_ok f'"
    using assms mv i nm by (auto simp: fs_rename_def split: option.splits if_splits)
  show "fds_ok f t \<Longrightarrow> fds_ok f' t"
    using assms i by (auto simp: fs_rename_def split: option.splits if_splits intro!: fds_ok_set_inode)
  show "normalize_name old_path = None \<or> normalize_name new_path = None \<Longrightarrow> rc = -1 \<and> f' = f"
    using assms(2) by (auto simp: fs_rename_def split: option.splits)
  assume ab: "normalize_name old_path = Some a" "normalize_name new_path = Some b"
  show "if a = b then rc = 0 \<and> files f' = files f
       else if files f a = None \<or> files f b \<noteq> None then rc = -1 \<and> files f' = files f
       else rc = 0 \<and> files f' = (files f)(a := None, b := files f a)"
  proof (cases "a = b \<or> find_inode_by_name f a = None \<or> find_inode_by_name f b \<noteq> None")
    case True
    then show ?thesis
      using assms(2) ab by (auto simp: fs_rename_def files_def split: option.splits if_splits)
  next
    case False
    then obtain k where k: "find_inode_by_name f a = Some k"
      by auto
    then have f': "f' = set_inode k (?n k b) f" "rc = 0"
      using assms(2) ab False by (auto simp: fs_rename_def)
    have "files f' = (files f)(a := None, b := files f a)"
      using files_set_inode [OF assms(1) mv [of k b]] i [OF k] False nm [OF ab(2)] k
      by (simp add: f' Let_def files_def contents_def)
    then show ?thesis
      using False k f' by (auto simp: files_def)
  qed
qed


section \<open>The name space as a map\<close>

text \<open>There is a free inode exactly when fewer than 32 files exist.\<close>

lemma card_files:
  assumes "fs_ok f"
  shows "card (dom (files f)) = card {i. i < RAMFS_MAX_FILES \<and> ri_used (inodes f ! i)}"
proof -
  let ?I = "{i. i < RAMFS_MAX_FILES \<and> ri_used (inodes f ! i)}"
  have "dom (files f) = (\<lambda>i. ri_name (inodes f ! i)) ` ?I"
    using files_Some_iff [OF assms] by (auto simp: dom_def)
  moreover have "inj_on (\<lambda>i. ri_name (inodes f ! i)) ?I"
    using fs_ok_unique [OF assms] by (auto simp: inj_on_def)
  ultimately show ?thesis
    by (simp add: card_image)
qed

lemma alloc_inode_None_iff:
  assumes "fs_ok f"
  shows "alloc_inode f = None \<longleftrightarrow> card (dom (files f)) = RAMFS_MAX_FILES"
proof -
  let ?I = "{i. i < RAMFS_MAX_FILES \<and> ri_used (inodes f ! i)}"
  have "alloc_inode f = None \<longleftrightarrow> (\<forall>i<RAMFS_MAX_FILES. ri_used (inodes f ! i))"
    using assms by (auto simp: alloc_inode_def first_idx_None_iff all_set_conv_all_nth)
  also have "\<dots> \<longleftrightarrow> ?I = {..<RAMFS_MAX_FILES}"
    by auto
  also have "\<dots> \<longleftrightarrow> card ?I = RAMFS_MAX_FILES"
  proof
    assume "card ?I = RAMFS_MAX_FILES"
    then have "card ?I = card {..<RAMFS_MAX_FILES}"
      by (simp only: card_lessThan)
    then show "?I = {..<RAMFS_MAX_FILES}"
      by (intro card_subset_eq) auto
  qed (simp only: card_lessThan)
  finally show ?thesis
    using card_files [OF assms] by simp
qed

text \<open>The operations of a flat name space of at most 32 files.\<close>

definition spec_open :: "cstr \<Rightarrow> u32 \<Rightarrow> (cstr \<rightharpoonup> u8 list) \<Rightarrow> cstr \<rightharpoonup> u8 list" where
  "spec_open name flags m =
     (if m name \<noteq> None \<or> flags AND O_CREAT \<noteq> 0 \<and> card (dom m) \<noteq> RAMFS_MAX_FILES then opened name flags m else m)"

definition spec_rename :: "cstr \<Rightarrow> cstr \<Rightarrow> (cstr \<rightharpoonup> u8 list) \<Rightarrow> cstr \<rightharpoonup> u8 list" where
  "spec_rename a b m = (if a = b \<or> m a = None \<or> m b \<noteq> None then m else m(a := None, b := m a))"

definition lift_name :: "(cstr \<Rightarrow> 'a \<Rightarrow> 'a) \<Rightarrow> cstr \<Rightarrow> 'a \<Rightarrow> 'a" where
  "lift_name g path m = (case normalize_name path of None \<Rightarrow> m | Some name \<Rightarrow> g name m)"

lemma fs_open_files:
  assumes "fs_ok f" and "fds_ok f tbl" and "\<not> ext4_ready f"
  shows "files (snd (snd (fs_open path flags tbl f))) = lift_name (\<lambda>s. spec_open s flags) path (files f)"
proof (cases "normalize_name path")
  case None
  then show ?thesis
    by (simp add: lift_name_def fs_open_def)
next
  case (Some name)
  obtain fd t' f' where o: "fs_open path flags tbl f = (fd, t', f')"
    by (cases "fs_open path flags tbl f")
  have "find_inode_by_name f name \<noteq> None \<or> fst (open_ext4_readonly f name flags tbl) < 0"
    using assms(3) by (simp add: open_ext4_readonly_def)
  note op = fs_open_ramfs [OF assms(1,2) Some this o]
  show ?thesis
    using op Some o alloc_inode_None_iff [OF assms(1)]
    by (cases "can_open name flags f") (auto simp: lift_name_def spec_open_def can_open_def)
qed

lemma fs_unlink_files:
  assumes "fs_ok f" and "\<forall>t\<in>set tbls. fds_ok f t"
  shows "files (snd (snd (fs_unlink path tbls f))) = lift_name (\<lambda>s m. m(s := None)) path (files f)"
proof -
  obtain rc ts f' where u: "fs_unlink path tbls f = (rc, ts, f')"
    by (cases "fs_unlink path tbls f")
  show ?thesis
    using fs_unlink_ok(4,5) [OF assms u] u by (cases "normalize_name path") (simp_all add: lift_name_def)
qed

lemma fs_rename_files:
  assumes "fs_ok f"
  shows "files (snd (fs_rename path path' f)) = lift_name (\<lambda>a. lift_name (spec_rename a) path') path (files f)"
proof -
  obtain rc f' where r: "fs_rename path path' f = (rc, f')"
    by (cases "fs_rename path path' f")
  note ok = fs_rename_ok(3,4) [OF assms r]
  show ?thesis
  proof (cases "normalize_name path = None \<or> normalize_name path' = None")
    case True
    then show ?thesis
      using ok(2) r by (auto simp: lift_name_def split: option.split)
  next
    case False
    then obtain a b where ab: "normalize_name path = Some a" "normalize_name path' = Some b"
      by auto
    show ?thesis
      using ok(1) [OF ab] ab r by (simp add: lift_name_def spec_rename_def split: if_splits)
  qed
qed

text \<open>
  C11. Opening, unlinking and renaming act on the names as on a map from names to contents: opening
  creates an empty file when it is asked to and fewer than 32 exist, \<^verbatim>\<open>O_TRUNC\<close> empties an existing one,
  unlinking removes the name, and renaming moves the contents to a name that is not in use. Paths that
  are not one component of at most 31 bytes change nothing.
\<close>

theorem fs_namespace_refines:
  assumes "fs_ok f" and "fds_ok f tbl" and "\<forall>t\<in>set tbls. fds_ok f t" and "\<not> ext4_ready f"
  shows "files (snd (snd (fs_open path flags tbl f))) = lift_name (\<lambda>s. spec_open s flags) path (files f) \<and>
    files (snd (snd (fs_unlink path tbls f))) = lift_name (\<lambda>s m. m(s := None)) path (files f) \<and>
    files (snd (fs_rename path path' f)) = lift_name (\<lambda>a. lift_name (spec_rename a) path') path (files f)"
  using fs_open_files [OF assms(1,2,4)] fs_unlink_files [OF assms(1,3)] fs_rename_files [OF assms(1)] by blast

section \<open>Reachable states\<close>

definition fs_start :: "ramfs" where
  "fs_start =
     \<lparr>inodes = replicate RAMFS_MAX_FILES zero_inode, fs_initialized = False, ext4_ready = False,
      ext4_fs = \<lparr>sb = [], block_size = 0, inode_size = 0, groups_count = 0, desc_size = 0, mounted = False, root_files = [],
        block_buf = replicate 4096 0, block_buf2 = replicate 4096 0, inode_buf = replicate 4096 0\<rparr>\<rparr>"

definition empty_tables :: "file_desc list list" where
  "empty_tables = replicate PROC_MAX (replicate FD_MAX no_file)"

text \<open>Any sequence of operations by any processes; \<open>clear\<close> is the reuse of a slot, \<open>fork\<close> copies a table.\<close>

inductive fs_reach :: "ramfs \<Rightarrow> file_desc list list \<Rightarrow> bool" where
  init: "fs_init fs_start = Inr f \<Longrightarrow> fs_reach f empty_tables"
| opened: "fs_reach f ts \<Longrightarrow> p < PROC_MAX \<Longrightarrow> fs_open path flags (ts ! p) f = (rc, t', f') \<Longrightarrow> fs_reach f' (ts[p := t'])"
| closed: "fs_reach f ts \<Longrightarrow> p < PROC_MAX \<Longrightarrow> fs_close fd (ts ! p) = (rc, t') \<Longrightarrow> fs_reach f (ts[p := t'])"
| reading: "fs_reach f ts \<Longrightarrow> p < PROC_MAX \<Longrightarrow> fs_read dev store fd buf len (m :: page_alloc) (ts ! p) f = Inr (rc, m', t', f') \<Longrightarrow>
    fs_reach f' (ts[p := t'])"
| writing: "fs_reach f ts \<Longrightarrow> p < PROC_MAX \<Longrightarrow> (\<forall>n m bs m'. load buf n m = Inr (bs, m') \<longrightarrow> length bs = n) \<Longrightarrow>
    fs_write load fd buf len (m :: page_alloc) (ts ! p) f = Inr (rc, m', t', f') \<Longrightarrow> fs_reach f' (ts[p := t'])"
| unlink: "fs_reach f ts \<Longrightarrow> fs_unlink path ts f = (rc, ts', f') \<Longrightarrow> fs_reach f' ts'"
| rename: "fs_reach f ts \<Longrightarrow> fs_rename path path' f = (rc, f') \<Longrightarrow> fs_reach f' ts"
| fork: "fs_reach f ts \<Longrightarrow> p < PROC_MAX \<Longrightarrow> q < PROC_MAX \<Longrightarrow> fs_reach f (ts[q := ts ! p])"
| clear: "fs_reach f ts \<Longrightarrow> q < PROC_MAX \<Longrightarrow> fs_reach f (ts[q := replicate FD_MAX no_file])"

definition tables_ok :: "ramfs \<Rightarrow> file_desc list list \<Rightarrow> bool" where
  "tables_ok f ts \<longleftrightarrow> length ts = PROC_MAX \<and> (\<forall>t\<in>set ts. fds_ok f t)"

lemma tables_ok_update:
  "tables_ok f ts \<Longrightarrow> (\<And>t. fds_ok f t \<Longrightarrow> fds_ok f' t) \<Longrightarrow> fds_ok f' t' \<Longrightarrow> tables_ok f' (ts[p := t'])"
  using set_update_subset_insert [of ts p t'] by (auto simp: tables_ok_def)

lemma tables_ok_nth: "tables_ok f ts \<Longrightarrow> p < PROC_MAX \<Longrightarrow> fds_ok f (ts ! p)"
  by (simp add: tables_ok_def)

lemma no_file_ok: "fds_ok f (replicate FD_MAX no_file)"
  by (simp add: fds_ok_def fd_ok_def no_file_def)

definition readme_inode :: ramfs_inode where
  "readme_inode = \<lparr>ri_used = True, ri_name = readme_name, ri_data = readme_text @ replicate 1012 0, ri_size = 12\<rparr>"

lemma fs_init_eq:
  "fs_init fs_start = Inr (set_inode 0 readme_inode (fs_start\<lparr>fs_initialized := True\<rparr>))"
proof -
  have "alloc_inode (fs_start\<lparr>inodes := replicate RAMFS_MAX_FILES zero_inode\<rparr>) = Some 0"
    by (auto simp: alloc_inode_def first_idx_Some_iff zero_inode_def)
  moreover have "length readme_text = 12"
    by (simp add: readme_text_def)
  ultimately show ?thesis
    by (simp add: fs_init_def Let_def put_bytes_def zero_inode_def set_inode_def fs_start_def readme_inode_def drop_replicate)
qed

lemma fs_init_ok:
  assumes "fs_init fs_start = Inr f"
  shows "fs_ok f" and "files f = [readme_name \<mapsto> readme_text]" and "\<not> ext4_ready f"
proof -
  let ?f0 = "fs_start\<lparr>fs_initialized := True\<rparr>"
  have f: "f = set_inode 0 readme_inode ?f0"
    using assms by (simp add: fs_init_eq)
  have z: "inodes ?f0 ! i = zero_inode" if "i < RAMFS_MAX_FILES" for i
    using that by (simp add: fs_start_def)
  have ok0: "fs_ok ?f0"
    unfolding fs_ok_def using z by (auto simp: fs_start_def) (simp_all add: zero_inode_def)
  have c: "contents readme_inode = readme_text" "inode_wf readme_inode"
    by (simp_all add: contents_def readme_inode_def readme_text_def inode_wf_def name_ok_def readme_name_def)
  show ok: "fs_ok f"
    unfolding f by (rule fs_ok_set_inode [OF ok0]) (use c z in \<open>auto simp: zero_inode_def\<close>)
  have "find_inode_by_name ?f0 s = None" for s
    using find_None_iff [OF ok0] z by (simp add: zero_inode_def)
  then have "files ?f0 = Map.empty"
    by (simp add: files_def fun_eq_iff)
  then show "files f = [readme_name \<mapsto> readme_text]"
    using files_set_inode [OF ok0 ok [unfolded f]] z [of 0] c by (simp add: f Let_def zero_inode_def) (simp add: readme_inode_def)
  show "\<not> ext4_ready f"
    by (simp add: f set_inode_def fs_start_def)
qed

lemma fs_open_inv:
  assumes "fs_ok f" and "fds_ok f tbl" and "fs_open path flags tbl f = (fd, tbl', f')"
  shows "fs_ok f' \<and> (\<forall>t. fds_ok f t \<longrightarrow> fds_ok f' t) \<and> fds_ok f' tbl'"
proof (cases "normalize_name path")
  case None
  then show ?thesis
    using assms by (simp add: fs_open_def)
next
  case (Some name)
  show ?thesis
  proof (cases "find_inode_by_name f name \<noteq> None \<or> fst (open_ext4_readonly f name flags tbl) < 0")
    case True
    show ?thesis
      using fs_open_ramfs [OF assms(1,2) Some True assms(3)] assms(1,2) by (cases "can_open name flags f") auto
  next
    case False
    then have "f' = f" "tbl' = snd (open_ext4_readonly f name flags tbl)"
      using assms(3) Some by (auto simp: fs_open_def split: prod.splits)
    moreover have "fds_ok f (snd (open_ext4_readonly f name flags tbl))"
      using assms(2) by (auto simp: open_ext4_readonly_def Let_def intro!: install_fd_ok)
    ultimately show ?thesis
      using assms(1) by simp
  qed
qed

lemma inodes_cong: "inodes f' = inodes f \<Longrightarrow> fs_ok f' = fs_ok f" "inodes f' = inodes f \<Longrightarrow> fds_ok f' t = fds_ok f t"
  by (simp_all add: fs_ok_def fds_ok_def fd_ok_def)

lemma fs_read_inv:
  assumes "fds_ok f tbl" and "fs_read dev store fd buf len m tbl f = Inr (rc, m', tbl', f')"
  shows "inodes f' = inodes f \<and> fds_ok f tbl'"
proof -
  have keep: "fds_ok f (tbl[i := (tbl ! i)\<lparr>fd_offset := x\<rparr>])" if "i < FD_MAX" for i x
    using fds_ok_nth [OF assms(1) that] assms(1) by (intro fds_ok_update) (simp_all add: fd_ok_def)
  show ?thesis
    using assms keep
    by (auto simp: fs_read_def Let_def kbind_Inr_iff get_open_fd_Some split: if_splits option.splits)
qed

lemma fs_write_inv:
  assumes "fs_ok f" and "fds_ok f tbl" and load: "\<forall>n m bs m'. load buf n m = Inr (bs, m') \<longrightarrow> length bs = n"
    and w: "fs_write load fd buf len m tbl f = Inr (rc, m', tbl', f')"
  shows "fs_ok f' \<and> (\<forall>t. fds_ok f t \<longrightarrow> fds_ok f' t) \<and> fds_ok f' tbl'"
proof (cases "get_open_fd tbl fd")
  case None
  then show ?thesis
    using assms(1,2) w by (auto simp: fs_write_def split: if_splits)
next
  case (Some i)
  let ?d = "tbl ! i"
  have i: "i < FD_MAX" "fd_used ?d"
    using Some by (auto simp: get_open_fd_Some)
  have keep: "fds_ok f (tbl[i := ?d\<lparr>fd_offset := x\<rparr>])" for x
    using fds_ok_nth [OF assms(2) i(1)] assms(2) by (intro fds_ok_update) (simp_all add: fd_ok_def)
  show ?thesis
  proof (cases "buf \<noteq> 0 \<and> (fd_flags ?d AND 3 = O_WRONLY \<or> fd_flags ?d AND 3 = O_RDWR) \<and> \<not> is_ext_fd ?d")
    case False
    then have "tbl' = tbl \<and> f' = f"
      using w Some by (auto simp: fs_write_def Let_def split: if_splits)
    then show ?thesis
      using assms(1,2) by simp
  next
    case True
    let ?nd = "inodes f ! nat (fd_inode ?d)"
    define off where "off = (if fd_flags ?d AND O_APPEND \<noteq> 0 then ri_size ?nd else fd_offset ?d)"
    define n where "n = min (unat len) (RAMFS_DATA_MAX - unat off)"
    have eq: "fs_write load fd buf len m tbl f =
      (if RAMFS_DATA_MAX \<le> unat off then Inr (0, m, tbl[i := ?d\<lparr>fd_offset := off\<rparr>], f)
       else kbind (load buf n m) (\<lambda>(bs, m').
         Inr (int n, m', tbl[i := ?d\<lparr>fd_offset := off + of_nat n\<rparr>], written (nat (fd_inode ?d)) (unat off) bs f)))"
      unfolding off_def n_def
      by (rule fs_write_ramfs [OF assms(1,2) _ Some]) (use True load in auto)
    have ino: "nat (fd_inode ?d) < RAMFS_MAX_FILES" "ri_used ?nd"
      using fds_ok_nth [OF assms(2) i(1)] i(2) True by (auto simp: fd_ok_def is_ext_fd_def)
    show ?thesis
    proof (cases "RAMFS_DATA_MAX \<le> unat off")
      case True
      then show ?thesis
        using eq w keep assms(1) by simp
    next
      case False
      then have "kbind (load buf n m) (\<lambda>(bs, m').
         Inr (int n, m', tbl[i := ?d\<lparr>fd_offset := off + of_nat n\<rparr>], written (nat (fd_inode ?d)) (unat off) bs f)) =
         Inr (rc, m', tbl', f')"
        using eq w by simp
      then obtain bs where bs: "load buf n m = Inr (bs, m')" "tbl' = tbl[i := ?d\<lparr>fd_offset := off + of_nat n\<rparr>]"
        "f' = written (nat (fd_inode ?d)) (unat off) bs f"
        by (auto simp: kbind_Inr_iff)
      have "length bs = n"
        using load bs(1) by blast
      then have "unat off + length bs \<le> RAMFS_DATA_MAX"
        using False by (simp add: n_def)
      note ok = written_ok(1,2) [OF assms(1) ino this]
      then show ?thesis
        using bs keep by blast
    qed
  qed
qed

text \<open>
  C30. The invariant of the file system holds in every state that any interleaving of system calls of
  any processes can reach from \<^verbatim>\<open>fs_init\<close>: at most one inode per name, legal names, sizes within the
  data array, and every open descriptor of every process refers to an inode in use, also after its
  file was unlinked by another process.
\<close>

theorem fs_invariant:
  assumes "fs_reach f ts"
  shows "fs_ok f \<and> tables_ok f ts"
  using assms
proof induction
  case (init f)
  then show ?case
    using fs_init_ok(1) no_file_ok by (simp add: tables_ok_def empty_tables_def)
next
  case (opened f ts p path flags rc t' f')
  then show ?case
    using fs_open_inv [OF _ tables_ok_nth opened(3)] by (auto intro: tables_ok_update)
next
  case (closed f ts p fd rc t')
  have "fds_ok f t'"
    using tables_ok_nth [of f ts p] closed
    by (auto simp: fs_close_def fd_ok_def no_file_def split: option.splits intro!: fds_ok_update)
  then show ?case
    using closed by (auto intro: tables_ok_update)
next
  case (reading f ts p dev store fd buf len m rc m' t' f')
  then have "inodes f' = inodes f" "fds_ok f t'"
    using fs_read_inv [OF tables_ok_nth reading(3)] by auto
  then show ?case
    using reading inodes_cong [of f' f] by (auto intro: tables_ok_update)
next
  case (writing f ts p load buf fd len m rc m' t' f')
  then show ?case
    using fs_write_inv [OF _ tables_ok_nth writing(3,4)] by (auto intro: tables_ok_update)
next
  case (unlink f ts path rc ts' f')
  then show ?case
    using fs_unlink_ok(1,2,3) [of f ts path rc ts' f'] by (auto simp: tables_ok_def)
next
  case (rename f ts path path' rc f')
  then show ?case
    using fs_rename_ok(1,2) [OF _ rename(2)] by (auto simp: tables_ok_def)
next
  case (fork f ts p q)
  then show ?case
    using tables_ok_nth by (auto intro: tables_ok_update)
next
  case (clear f ts q)
  then show ?case
    using no_file_ok by (auto intro: tables_ok_update)
qed

lemma fs_invariant_witness:
  "fs_reach (set_inode 0 readme_inode (fs_start\<lparr>fs_initialized := True\<rparr>)) empty_tables \<and>
   fs_ok (set_inode 0 readme_inode (fs_start\<lparr>fs_initialized := True\<rparr>))"
  using fs_reach.init [OF fs_init_eq] fs_invariant by blast

section \<open>Writing and reading back\<close>

text \<open>A caller's buffer as a list of bytes.\<close>

definition buf_load :: "u32 \<Rightarrow> nat \<Rightarrow> u8 list \<Rightarrow> (u8 list \<times> u8 list) kres" where
  "buf_load a n m = (if n \<le> length m then Inr (take n m, m) else Inl Undefined_behaviour)"

definition buf_store :: "u32 \<Rightarrow> u8 list \<Rightarrow> u8 list \<Rightarrow> u8 list kres" where
  "buf_store a bs m = Inr (bs @ drop (length bs) m)"

definition free_fds :: "file_desc list \<Rightarrow> nat" where
  "free_fds tbl = length (filter (\<lambda>d. \<not> fd_used d) tbl)"

lemma install_fd_free:
  assumes "install_fd tbl inode flags off = (fd, tbl')" and "0 < free_fds tbl"
  shows "0 \<le> fd \<and> free_fds tbl' = free_fds tbl - 1"
proof -
  have "\<exists>d\<in>set tbl. \<not> fd_used d"
    using assms(2) by (auto simp: free_fds_def filter_empty_conv)
  then obtain i where i: "alloc_fd tbl = Some i"
    by (cases "alloc_fd tbl") (auto simp: alloc_fd_def first_idx_None_iff)
  then have l: "i < length tbl" "\<not> fd_used (tbl ! i)"
    by (auto simp: alloc_fd_def first_idx_Some_iff)
  have r: "fd = int i" "tbl' = tbl[i := \<lparr>fd_used = True, fd_inode = inode, fd_offset = off, fd_flags = flags\<rparr>]"
    using assms(1) i by (auto simp: install_fd_def)
  have "free_fds tbl = Suc (free_fds (take i tbl) + free_fds (drop (Suc i) tbl))"
    using l by (subst id_take_nth_drop [OF l(1)]) (simp add: free_fds_def)
  moreover have "free_fds tbl' = free_fds (take i tbl) + free_fds (drop (Suc i) tbl)"
    using l by (simp add: r free_fds_def upd_conv_take_nth_drop)
  ultimately show ?thesis
    using r by simp
qed

lemma free_fds_offset: "free_fds (tbl[i := (tbl ! i)\<lparr>fd_offset := x\<rparr>]) = free_fds tbl"
proof (cases "i < length tbl")
  case True
  then show ?thesis
    by (subst (3) id_take_nth_drop [OF True]) (simp add: free_fds_def upd_conv_take_nth_drop)
qed (simp add: list_update_beyond)

lemma fs_open_ext4: "ext4_ready (snd (snd (fs_open path flags tbl f))) = ext4_ready f"
  by (auto simp: fs_open_def ensure_ramfs_inode_def set_inode_def Let_def split: option.split prod.split)

text \<open>
  C31. What is written to a file is what is read back: for a path that can be opened, opening it with
  \<^verbatim>\<open>O_CREAT | O_TRUNC | O_WRONLY\<close>, writing up to 1024 bytes, opening it again with \<^verbatim>\<open>O_RDONLY\<close> and reading
  1024 bytes gives the number and the values of the bytes written.
\<close>

theorem fs_roundtrip:
  assumes "fs_ok f" and "fds_ok f tbl" and "\<not> ext4_ready f" and name: "normalize_name path = Some name"
    and "files f name \<noteq> None \<or> alloc_inode f \<noteq> None" and "2 \<le> free_fds tbl" and "length bs \<le> RAMFS_DATA_MAX"
  shows "\<exists>fd1 t1 f1 t2 f2 fd2 t3 t4.
    fs_open path 0x302 tbl f = (fd1, t1, f1) \<and>
    fs_write buf_load fd1 1 (of_nat (length bs)) bs t1 f1 = Inr (int (length bs), bs, t2, f2) \<and>
    fs_open path O_RDONLY t2 f2 = (fd2, t3, f2) \<and>
    fs_read dev buf_store fd2 1 1024 [] t3 f2 = Inr (int (length bs), bs, t4, f2)"
proof -
  have noext: "find_inode_by_name g name \<noteq> None \<or> fst (open_ext4_readonly g name flags t) < 0" if "\<not> ext4_ready g" for g flags t
    using that by (simp add: open_ext4_readonly_def)
  obtain fd1 t1 f1 where o1: "fs_open path 0x302 tbl f = (fd1, t1, f1)"
    by (cases "fs_open path 0x302 tbl f")
  obtain i where f1: "fs_ok f1" "fds_ok f1 t1" "files f1 = opened name 0x302 (files f)"
    and i: "i < RAMFS_MAX_FILES" "ri_used (inodes f1 ! i)" "ri_name (inodes f1 ! i) = name"
    and ins1: "install_fd tbl (int i) 0x302 0 = (fd1, t1)"
    using fs_open_ramfs(2) [OF assms(1,2) name noext [OF assms(3)] o1] assms(5) by (auto simp: can_open_def)
  have fd1: "get_open_fd t1 fd1 = Some (nat fd1)" "length t1 = FD_MAX"
    "t1 ! nat fd1 = \<lparr>fd_used = True, fd_inode = int i, fd_offset = 0, fd_flags = 0x302\<rparr>" "0 < free_fds t1"
    using install_fd_at [OF ins1] install_fd_free [OF ins1] assms(2,6) by (auto simp: fds_ok_def)
  have "files f1 name = Some []"
    using f1(3) by (simp add: opened_def split: option.split)
  then have c1: "contents (inodes f1 ! i) = []"
    using files_at [OF f1(1) i(1,2)] i(3) by simp
  let ?d1 = "t1 ! nat fd1"
  define t2 where "t2 = t1[nat fd1 := ?d1\<lparr>fd_offset := of_nat (length bs)\<rparr>]"
  define f2 where "f2 = written i 0 bs f1"
  have ramd: "\<not> is_ext_fd ?d1"
    by (simp add: fd1(3) is_ext_fd_def)
  have l: "unat (of_nat (length bs) :: u32) = length bs"
    using assms(7) by (simp add: unat_of_nat)
  have load: "\<And>n m bs m'. buf_load 1 n m = Inr (bs, m') \<Longrightarrow> length bs = n"
    by (auto simp: buf_load_def split: if_splits)
  have mode: "fd_flags ?d1 AND 3 = O_WRONLY \<or> fd_flags ?d1 AND 3 = O_RDWR"
    by (simp add: fd1(3))
  have w: "fs_write buf_load fd1 1 (of_nat (length bs)) bs t1 f1 = Inr (int (length bs), bs, t2, f2)"
    using l assms(7)
    by (subst fs_write_ramfs [OF f1(1,2) one_neq_zero fd1(1) mode ramd load])
      (auto simp: fd1(3) buf_load_def t2_def f2_def min_def)
  note wo = written_ok [OF f1(1) i(1,2), of 0 bs]
  have f2: "fs_ok f2" "fds_ok f2 t1" "files f2 = (files f1)(name \<mapsto> bs)"
    using wo f1(2) i(3) c1 assms(7) by (simp_all add: f2_def overwrite_def)
  have t2: "fds_ok f2 t2" "0 < free_fds t2"
    using fs_write_inv [OF f1(1,2) _ w] load fd1(4) by (auto simp: t2_def free_fds_offset)
  have ext1: "\<not> ext4_ready f2"
    using assms(3) fs_open_ext4 [of path "0x302" tbl f] o1 by (simp add: f2_def written_def set_inode_def)
  obtain fd2 t3 f3 where o2: "fs_open path O_RDONLY t2 f2 = (fd2, t3, f3)"
    by (cases "fs_open path O_RDONLY t2 f2")
  note op2 = fs_open_ramfs [OF f2(1) t2(1) name noext [OF ext1] o2]
  have f3: "f3 = f2"
    using op2(3) f2(3) by simp
  obtain j where j: "j < RAMFS_MAX_FILES" "ri_used (inodes f2 ! j)" "ri_name (inodes f2 ! j) = name" "fds_ok f2 t3"
    and ins2: "install_fd t2 (int j) O_RDONLY 0 = (fd2, t3)"
    using op2(2) f2(3) f3 by (auto simp: can_open_def)
  have c2: "contents (inodes f2 ! j) = bs"
    using files_at [OF f2(1) j(1,2)] j(3) f2(3) by simp
  have fd2: "get_open_fd t3 fd2 = Some (nat fd2)"
    "t3 ! nat fd2 = \<lparr>fd_used = True, fd_inode = int j, fd_offset = 0, fd_flags = O_RDONLY\<rparr>"
    using install_fd_at [OF ins2] install_fd_free [OF ins2] t2 by (auto simp: fds_ok_def)
  have "fs_read dev buf_store fd2 1 1024 [] t3 f2 = Inr (int (length bs), bs, t3[nat fd2 := (t3 ! nat fd2)\<lparr>fd_offset := of_nat (length bs)\<rparr>], f2)"
    using fs_read_ramfs [OF f2(1) j(4) one_neq_zero fd2(1), where store = buf_store and len = 1024 and dev = dev and m = "[]"] fd2(2) c2 assms(7)
    by (simp add: is_ext_fd_def buf_store_def)
  then show ?thesis
    using o1 w o2 f3 by blast
qed


definition fs_demo :: ramfs where
  "fs_demo = set_inode 0 readme_inode (fs_start\<lparr>fs_initialized := True\<rparr>)"

lemma fs_demo_ok: "fs_ok fs_demo" "files fs_demo = [readme_name \<mapsto> readme_text]" "\<not> ext4_ready fs_demo"
  "alloc_inode fs_demo \<noteq> None"
proof -
  have i: "fs_init fs_start = Inr fs_demo"
    by (simp add: fs_init_eq fs_demo_def)
  show ok: "fs_ok fs_demo" "files fs_demo = [readme_name \<mapsto> readme_text]" "\<not> ext4_ready fs_demo"
    by (fact fs_init_ok [OF i])+
  show "alloc_inode fs_demo \<noteq> None"
    using alloc_inode_None_iff [OF ok(1)] ok(2) by simp
qed

lemma fs_roundtrip_witness:
  "\<exists>fd1 t1 f1 t2 f2 fd2 t3 t4.
    fs_open [0x2f, 0x61] 0x302 (replicate FD_MAX no_file) fs_demo = (fd1, t1, f1) \<and>
    fs_write buf_load fd1 1 3 [1, 2, 3] t1 f1 = Inr (3, [1, 2, 3], t2, f2) \<and>
    fs_open [0x2f, 0x61] O_RDONLY t2 f2 = (fd2, t3, f2) \<and>
    fs_read (\<lambda>_. None) buf_store fd2 1 1024 [] t3 f2 = Inr (3, [1, 2, 3], t4, f2)"
proof -
  have "normalize_name [0x2f, 0x61] = Some [0x61]"
    by code_simp
  moreover have "2 \<le> free_fds (replicate FD_MAX no_file)"
    by (simp add: free_fds_def no_file_def)
  ultimately show ?thesis
    using fs_roundtrip [OF fs_demo_ok(1) no_file_ok fs_demo_ok(3), of "[0x2f, 0x61]" "[0x61]" "[1, 2, 3]" "\<lambda>_. None"] fs_demo_ok(4)
    by simp
qed

lemma fs_namespace_refines_witness:
  "files (snd (snd (fs_open [0x61] 0x102 (replicate FD_MAX no_file) fs_demo))) = [readme_name \<mapsto> readme_text, [0x61] \<mapsto> []] \<and>
   files (snd (snd (fs_unlink readme_name empty_tables fs_demo))) = Map.empty \<and>
   files (snd (fs_rename readme_name [0x61] fs_demo)) = [[0x61] \<mapsto> readme_text]"
proof -
  have n: "normalize_name [0x61] = Some [0x61]" "normalize_name readme_name = Some readme_name"
    by code_simp+
  have ne: "readme_name \<noteq> [0x61]" "[0x61] \<noteq> readme_name"
    by code_simp+
  have "\<forall>t\<in>set empty_tables. fds_ok fs_demo t"
    by (simp add: empty_tables_def no_file_ok)
  then show ?thesis
    using fs_namespace_refines [OF fs_demo_ok(1) no_file_ok _ fs_demo_ok(3), of empty_tables "[0x61]" "0x102" "[0x61]"]
      fs_namespace_refines [OF fs_demo_ok(1) no_file_ok _ fs_demo_ok(3), of empty_tables readme_name 0 "[0x61]"] n ne
    by (simp add: lift_name_def spec_open_def spec_rename_def opened_def fs_demo_ok(2) fun_upd_twist)
qed

end
