(* ===== verification/Console.thy ===== *)
theory Console
  imports Ring Cstr
begin

text \<open>
  The console: \<^verbatim>\<open>printf\<close> of \<^verbatim>\<open>lib/printf.c\<close>, and the output and the keyboard queue of
  \<^verbatim>\<open>kernel/sbi/sbi.c\<close>. The firmware keeps the characters sent to it; the character it returns for the
  legacy console call is a parameter. An argument of the wrong kind, or one too few, is undefined.
\<close>

section \<open>Model\<close>

abbreviation KBDQ_CAP :: nat where "KBDQ_CAP \<equiv> 64"

record console =
  con_out :: "u8 list"
  kbdq_buf :: "u8 list"
  kbdq_head :: nat
  kbdq_tail :: nat
  kbdq_debug :: bool

definition putchar :: "u8 \<Rightarrow> console \<Rightarrow> console" where
  "putchar ch c = c\<lparr>con_out := con_out c @ [ch]\<rparr>"

datatype arg = Str cstr | Num u32

fun put_str :: "cstr \<Rightarrow> console \<Rightarrow> console" where
  "put_str [] c = c"
| "put_str (b # s) c = put_str s (putchar b c)"

text \<open>\<^verbatim>\<open>while (magnitude / divisor > 9) divisor *= 10;\<close>\<close>

function dec_divisor :: "u32 \<Rightarrow> u32 \<Rightarrow> u32" where
  "dec_divisor magnitude divisor =
     (if 9 < magnitude div divisor then dec_divisor magnitude (divisor * 10) else divisor)"
  by pat_completeness auto
termination
proof (relation "measure (\<lambda>(m, d). unat m - unat d)")
  fix m d :: u32
  assume "9 < m div d"
  then have q: "9 < unat m div unat d"
    by (simp add: word_less_nat_alt unat_div)
  then have d: "0 < unat d"
    by (cases "unat d = 0") auto
  have "10 * unat d \<le> unat m"
    using q d less_eq_div_iff_mult_less_eq [of "unat d" 10 "unat m"] by simp
  then have "unat (d * 10) = unat d * 10"
    using unat_lt_2p32 [of m] by (subst unat_mult_lem [THEN iffD1]) auto
  then show "((m, d * 10), (m, d)) \<in> measure (\<lambda>(m, d). unat m - unat d)"
    using \<open>10 * unat d \<le> unat m\<close> d by simp
qed simp

declare dec_divisor.simps [simp del]

function dec_digits :: "u32 \<Rightarrow> u32 \<Rightarrow> console \<Rightarrow> console" where
  "dec_digits magnitude divisor c =
     (if 0 < divisor then
        dec_digits (magnitude mod divisor) (divisor div 10) (putchar (ucast (0x30 + magnitude div divisor)) c)
      else c)"
  by pat_completeness auto
termination
  by (relation "measure (\<lambda>(m, d, c). unat d)") (auto simp: unat_div word_less_nat_alt)

declare dec_digits.simps [simp del]

definition print_dec :: "u32 \<Rightarrow> console \<Rightarrow> console" where
  "print_dec v c =
     (let magnitude = v;
          (magnitude, c) = (if v <s 0 then (- magnitude, putchar 0x2d c) else (magnitude, c))
      in dec_digits magnitude (dec_divisor magnitude 1) c)"

definition hex_digit :: "nat \<Rightarrow> u8" where
  "hex_digit n = map of_char ''0123456789abcdef'' ! n"

fun print_hex :: "u32 \<Rightarrow> nat \<Rightarrow> console \<Rightarrow> console" where
  "print_hex v 0 c = c"
| "print_hex v (Suc i) c = print_hex v i (putchar (hex_digit (unat (drop_bit (i * 4) v AND 0xf))) c)"

fun printf :: "cstr \<Rightarrow> arg list \<Rightarrow> console \<Rightarrow> console kres" where
  "printf [] vargs c = Inr c"
| "printf (ch # fmt) vargs c =
     (if ch = 0x25 then
        (case fmt of
           [] \<Rightarrow> Inr (putchar 0x25 c)
         | k # rest \<Rightarrow>
             if k = 0x25 then printf rest vargs (putchar 0x25 c)
             else if k = 0x73 then
               (case vargs of Str s # as \<Rightarrow> printf rest as (put_str s c) | _ \<Rightarrow> Inl Undefined_behaviour)
             else if k = 0x64 then
               (case vargs of Num v # as \<Rightarrow> printf rest as (print_dec v c) | _ \<Rightarrow> Inl Undefined_behaviour)
             else if k = 0x78 then
               (case vargs of Num v # as \<Rightarrow> printf rest as (print_hex v 8 c) | _ \<Rightarrow> Inl Undefined_behaviour)
             else printf rest vargs c)
      else printf fmt vargs (putchar ch c))"

definition lit :: "string \<Rightarrow> cstr" where
  "lit s = map of_char s"

definition kbd_enqueue_char :: "u8 \<Rightarrow> console \<Rightarrow> int \<times> console" where
  "kbd_enqueue_char ch c =
     (let nxt = (kbdq_tail c + 1) mod KBDQ_CAP in
      if nxt = kbdq_head c then (-1, c)
      else (0, c\<lparr>kbdq_buf := (kbdq_buf c)[kbdq_tail c := ch], kbdq_tail := nxt\<rparr>))"

definition getchar :: "int \<Rightarrow> console \<Rightarrow> (int \<times> console) kres" where
  "getchar sbi_char c =
     (if kbdq_head c \<noteq> kbdq_tail c then
        let ch = kbdq_buf c ! kbdq_head c;
            c = c\<lparr>kbdq_head := (kbdq_head c + 1) mod KBDQ_CAP\<rparr>
        in
        kbind (if kbdq_debug c then printf (lit ''kbdq:deq ch=%d'' @ [10]) [Num (ucast ch)] c else Inr c)
          (\<lambda>c. Inr (uint ch, c))
      else Inr (sbi_char, c))"

end
