(* ===== verification/Console_Spec.thy ===== *)
theory Console_Spec
  imports Console
begin

text \<open>
  Decimal output is the decimal representation, and the keyboard queue is a queue that refuses
  characters when it is full.
\<close>

section \<open>Decimal numbers\<close>

text \<open>The last \<open>k + 1\<close> decimal digits.\<close>

fun digs :: "nat \<Rightarrow> nat \<Rightarrow> nat list" where
  "digs 0 m = [m]"
| "digs (Suc k) m = digs k (m div 10) @ [m mod 10]"

lemma digs_Cons: "digs (Suc k) m = (m div 10 ^ Suc k) # digs k (m mod 10 ^ Suc k)"
proof (induction k arbitrary: m)
  case 0
  show ?case by simp
next
  case (Suc k)
  have "m mod (10 * 10 ^ Suc k) = 10 * (m div 10 mod 10 ^ Suc k) + m mod 10"
    by (rule mod_mult2_eq)
  then have "(m mod 10 ^ Suc (Suc k)) div 10 = m div 10 mod 10 ^ Suc k" "(m mod 10 ^ Suc (Suc k)) mod 10 = m mod 10"
    by simp_all
  moreover have "m div 10 div 10 ^ Suc k = m div 10 ^ Suc (Suc k)"
    by (metis div_mult2_eq power_Suc)
  ultimately show ?case
    using Suc.IH [of "m div 10"] by simp
qed

lemma digs_value: "foldl (\<lambda>a d. 10 * a + d) 0 (digs k m) = m"
  by (induction k arbitrary: m) auto

lemma digs_less: "m < 10 ^ Suc k \<Longrightarrow> d \<in> set (digs k m) \<Longrightarrow> d < 10"
proof (induction k arbitrary: m)
  case (Suc k)
  have "m div 10 < 10 ^ Suc k"
    using Suc.prems(1) by (intro less_mult_imp_div_less) simp
  then show ?case
    using Suc by auto
qed simp

lemma digs_hd: "10 ^ k \<le> m \<Longrightarrow> digs k m \<noteq> [] \<and> hd (digs k m) \<noteq> 0"
  by (cases k) (auto simp: digs_Cons div_eq_0_iff simp del: digs.simps(2) power_Suc) 

text \<open>The divisor found by the first loop is the power of ten of the leading digit.\<close>

lemma dec_divisor_spec:
  assumes "unat d = 10 ^ k" and "k = 0 \<or> 10 ^ k \<le> unat m"
  shows "\<exists>j. unat (dec_divisor m d) = 10 ^ j \<and> (j = 0 \<or> 10 ^ j \<le> unat m) \<and> unat m < 10 ^ Suc j"
  using assms
proof (induction "unat m - unat d" arbitrary: d k rule: less_induct)
  case less
  have d: "0 < unat d"
    using less.prems(1) by simp
  show ?case
  proof (cases "9 < m div d")
    case False
    then have "unat m div unat d < 10"
      by (simp add: word_less_nat_alt unat_div)
    then have "unat m < 10 * unat d"
      using d by (simp add: div_less_iff_less_mult)
    then show ?thesis
      using False less.prems by (intro exI [of _ k]) (simp add: dec_divisor.simps [of m d])
  next
    case True
    then have "10 \<le> unat m div unat d"
      by (simp add: word_less_nat_alt unat_div)
    then have le: "10 * unat d \<le> unat m"
      using d less_eq_div_iff_mult_less_eq [of "unat d" 10 "unat m"] by simp
    then have m10: "unat (d * 10) = unat d * 10"
      using unat_lt_2p32 [of m] by (simp add: unat_word_ariths)
    have "unat m - unat (d * 10) < unat m - unat d"
      using m10 le d by simp
    moreover have "unat (d * 10) = 10 ^ Suc k"
      using m10 less.prems(1) by simp
    moreover have "10 ^ Suc k \<le> unat m"
      using le less.prems(1) by simp
    ultimately show ?thesis
      using less.hyps [of "d * 10" "Suc k"] True by (simp add: dec_divisor.simps [of m d])
  qed
qed

lemma ucast_digit: "(ucast (0x30 + w :: u32) :: u8) = 0x30 + of_nat (unat w)"
proof -
  have "unat (ucast (0x30 + w :: u32) :: u8) = (0x30 + unat w) mod 256"
    by (simp add: unsigned_ucast_eq take_bit_eq_mod unat_word_ariths mod_mod_cancel)
  moreover have "unat (0x30 + of_nat (unat w) :: u8) = (0x30 + unat w) mod 256"
    by (simp add: unat_word_ariths unsigned_ucast_eq take_bit_eq_mod mod_simps)
  ultimately show ?thesis
    by (simp add: word_unat_eq_iff)
qed

lemma dec_digits_spec:
  assumes "unat d = 10 ^ k" and "unat m < 10 ^ Suc k"
  shows "dec_digits m d c = c\<lparr>con_out := con_out c @ map (\<lambda>x. 0x30 + of_nat x) (digs k (unat m))\<rparr>"
  using assms
proof (induction k arbitrary: m d c)
  case 0
  then have "d = 1"
    by (simp add: word_unat_eq_iff)
  moreover have "(ucast (0x30 + m) :: u8) = 0x30 + of_nat (unat m)"
    by (rule ucast_digit)
  ultimately show ?case
    by (simp add: dec_digits.simps [of _ 1] dec_digits.simps [of _ 0] putchar_def)
next
  case (Suc k)
  have pos: "0 < d"
    using Suc.prems(1) by (simp add: word_gt_0 unat_gt_0 [symmetric])
  have d10: "unat (d div 10) = 10 ^ k"
    using Suc.prems(1) by (simp add: unat_div)
  have md: "unat (m mod d) = unat m mod 10 ^ Suc k" "unat (m div d) = unat m div 10 ^ Suc k"
    using Suc.prems(1) by (simp_all add: unat_mod unat_div)
  have "(ucast (0x30 + m div d) :: u8) = 0x30 + of_nat (unat m div 10 ^ Suc k)"
    unfolding md(2) [symmetric] by (rule ucast_digit)
  moreover have "dec_digits (m mod d) (d div 10) (putchar b c) =
      c\<lparr>con_out := con_out c @ b # map (\<lambda>x. 0x30 + of_nat x) (digs k (unat m mod 10 ^ Suc k))\<rparr>" for b
    using Suc.IH [OF d10, of "m mod d"] md by (simp add: putchar_def)
  ultimately show ?case
    using pos by (simp add: dec_digits.simps [of m d] digs_Cons del: digs.simps(2) power_Suc)
qed


lemma unat_abs_sint: "unat (if sint v < 0 then - v else v :: u32) = nat \<bar>sint v\<bar>"
proof -
  have b: "- (2 ^ 31) \<le> sint v" "sint v < 2 ^ 31"
    using sint_greater_eq [of v] sint_less [of v] by simp_all
  have u: "uint (word_of_int i :: u32) = i" if "0 \<le> i" "i \<le> 2 ^ 31" for i
    using that by (simp add: unsigned_of_int take_bit_int_eq_self)
  show ?thesis
  proof (cases "sint v < 0")
    case True
    have v: "word_of_int (- sint v) = - v"
      by simp
    have "uint (word_of_int (- sint v) :: u32) = - sint v"
      by (rule u) (use True b in simp_all)
    then have "uint (- v) = - sint v"
      unfolding v .
    then show ?thesis
      using True by (metis abs_of_neg unat_eq_nat_uint)
  next
    case False
    have "uint (word_of_int (sint v) :: u32) = sint v"
      using u [of "sint v"] False b by simp
    then show ?thesis
      using False by (simp add: unat_eq_nat_uint)
  qed
qed

lemma print_dec_spec:
  "\<exists>ds. print_dec v c =
      c\<lparr>con_out := con_out c @ (if sint v < 0 then [0x2d] else []) @ map (\<lambda>x. 0x30 + of_nat x) ds\<rparr> \<and>
    (\<forall>d\<in>set ds. d < 10) \<and> foldl (\<lambda>a d. 10 * a + d) 0 ds = nat \<bar>sint v\<bar> \<and>
    ds \<noteq> [] \<and> (hd ds = 0 \<longrightarrow> sint v = 0 \<and> ds = [0])"
proof -
  define m where "m = (if sint v < 0 then - v else v)"
  have m: "unat m = nat \<bar>sint v\<bar>"
    by (simp add: m_def unat_abs_sint)
  obtain j where j: "unat (dec_divisor m 1) = 10 ^ j" "j = 0 \<or> 10 ^ j \<le> unat m" "unat m < 10 ^ Suc j"
    using dec_divisor_spec [of 1 0 m] by auto
  let ?ds = "digs j (unat m)"
  have p1: "print_dec v c = c\<lparr>con_out := con_out c @ (if sint v < 0 then [0x2d] else []) @ map (\<lambda>x. 0x30 + of_nat x) ?ds\<rparr>"
  proof (cases "sint v < 0")
    case True
    then show ?thesis
      using dec_digits_spec [OF j(1,3), of "putchar 0x2d c"]
      by (simp add: print_dec_def m_def word_sless_alt putchar_def)
  next
    case False
    then show ?thesis
      using dec_digits_spec [OF j(1,3), of c] by (simp add: print_dec_def m_def word_sless_alt)
  qed
  have p2: "?ds \<noteq> [] \<and> (hd ?ds = 0 \<longrightarrow> sint v = 0 \<and> ?ds = [0])"
  proof (cases "10 ^ j \<le> unat m")
    case True
    then show ?thesis
      using digs_hd by blast
  next
    case False
    then have "j = 0"
      using j(2) by blast
    then show ?thesis
      using m by simp
  qed
  have p3: "\<forall>d\<in>set ?ds. d < 10" "foldl (\<lambda>a d. 10 * a + d) 0 ?ds = nat \<bar>sint v\<bar>"
    using digs_less [OF j(3)] digs_value [of j "unat m"] m by metis+
  show ?thesis
    by (rule exI [of _ ?ds], intro conjI) (fact p1 p3(1) p3(2) conjunct1 [OF p2] conjunct2 [OF p2])+
qed

text \<open>
  C32. \<^verbatim>\<open>printf\<close> with \<open>%d\<close> sends the decimal representation of its argument, for every 32-bit value, the
  smallest included: a minus sign for a negative one, then digits without a leading zero whose value
  is the absolute value; nothing else of the console changes.
\<close>

theorem print_dec_correct:
  "\<exists>ds. printf (lit ''%d'') [Num v] c =
      Inr (c\<lparr>con_out := con_out c @ (if sint v < 0 then [0x2d] else []) @ map (\<lambda>x. 0x30 + of_nat x) ds\<rparr>) \<and>
    (\<forall>d\<in>set ds. d < 10) \<and> foldl (\<lambda>a d. 10 * a + d) 0 ds = nat \<bar>sint v\<bar> \<and>
    ds \<noteq> [] \<and> (hd ds = 0 \<longrightarrow> sint v = 0 \<and> ds = [0])"
  using print_dec_spec [of v c] by (simp add: lit_def)

definition console_boot :: console where
  "console_boot = \<lparr>con_out = [], kbdq_buf = replicate KBDQ_CAP 0, kbdq_head = 0, kbdq_tail = 0, kbdq_debug = True\<rparr>"

lemma print_dec_correct_witness:
  "\<exists>ds. printf (lit ''%d'') [Num (- 42)] console_boot =
      Inr (console_boot\<lparr>con_out := 0x2d # map (\<lambda>x. 0x30 + of_nat x) ds\<rparr>) \<and>
    foldl (\<lambda>a d. 10 * a + d) 0 ds = 42"
proof -
  have "sint (- 42 :: u32) = - 42"
    by code_simp
  then show ?thesis
    using print_dec_correct [of "- 42" console_boot] by (auto simp: console_boot_def)
qed

section \<open>The keyboard queue\<close>

definition kbd_ok :: "console \<Rightarrow> bool" where
  "kbd_ok c \<longleftrightarrow> ring_ok KBDQ_CAP (kbdq_buf c) (kbdq_head c) (kbdq_tail c)"

definition kbd_list :: "console \<Rightarrow> u8 list" where
  "kbd_list c = ring_list KBDQ_CAP (kbdq_buf c) (kbdq_head c) (kbdq_tail c)"

text \<open>Taking a character out, while there is one.\<close>

definition kbd_take :: "console \<Rightarrow> (u8 \<times> console) option" where
  "kbd_take c =
     (if kbdq_head c = kbdq_tail c then None
      else (case getchar 0 c of Inr (ch, c') \<Rightarrow> Some (of_int ch, c') | Inl _ \<Rightarrow> None))"

lemma print_dec_queue:
  "\<exists>xs. print_dec v c = c\<lparr>con_out := con_out c @ xs\<rparr>"
  using print_dec_spec [of v c] by blast

lemma getchar_queued:
  assumes "kbdq_head c \<noteq> kbdq_tail c"
  shows "\<exists>xs. getchar inp c = Inr (uint (kbdq_buf c ! kbdq_head c),
    c\<lparr>kbdq_head := Suc (kbdq_head c) mod KBDQ_CAP, con_out := con_out c @ xs\<rparr>)"
proof -
  let ?c = "c\<lparr>kbdq_head := Suc (kbdq_head c) mod KBDQ_CAP\<rparr>"
  have "\<exists>xs. printf (lit ''kbdq:deq ch=%d'' @ [10]) [Num w] d = Inr (d\<lparr>con_out := con_out d @ xs\<rparr>)" for w d
  proof -
    have "printf (lit ''kbdq:deq ch=%d'' @ [10]) [Num w] d = Inr (putchar 10 (print_dec w (put_str (lit ''kbdq:deq ch='') d)))"
      by (simp add: lit_def)
    then show ?thesis
      using print_dec_queue [of w "put_str (lit ''kbdq:deq ch='') d"] by (auto simp: lit_def putchar_def)
  qed
  then obtain xs where "printf (lit ''kbdq:deq ch=%d'' @ [10]) [Num (ucast (kbdq_buf c ! kbdq_head c))] ?c =
      Inr (?c\<lparr>con_out := con_out ?c @ xs\<rparr>)"
    by blast
  then show ?thesis
    using assms by (cases "kbdq_debug c") (auto simp: getchar_def intro: exI [of _ "[]"])
qed

interpretation kbd: fifo_reject 63 kbd_ok kbd_list "\<lambda>ch c. snd (kbd_enqueue_char ch c)" kbd_take id
proof unfold_locales
  fix c :: console and ch :: u8
  assume ok: "kbd_ok c"
  then have r: "ring_ok KBDQ_CAP (kbdq_buf c) (kbdq_head c) (kbdq_tail c)"
    by (simp add: kbd_ok_def)
  have full: "length (kbd_list c) < 63 \<longleftrightarrow> Suc (kbdq_tail c) mod KBDQ_CAP \<noteq> kbdq_head c"
    using r by (auto simp: kbd_list_def ring_ok_def ring_count_cases Suc_mod_cases split: if_splits)
  show "kbd_ok (snd (kbd_enqueue_char ch c))"
    using r ring_ok_push [OF r] by (simp add: kbd_ok_def kbd_enqueue_char_def Let_def)
  show "length (kbd_list c) \<le> 63"
    using r ring_count_less [of "kbdq_head c" KBDQ_CAP "kbdq_tail c"] by (simp add: kbd_list_def ring_ok_def)
  show "kbd_list (snd (kbd_enqueue_char ch c)) = kbd_list c @ [id ch]" if "length (kbd_list c) < 63"
    using that full ring_list_push [OF r, of ch] by (simp add: kbd_enqueue_char_def kbd_list_def Let_def)
  show "kbd_list (snd (kbd_enqueue_char ch c)) = kbd_list c" if "length (kbd_list c) = 63"
    using that full by (simp add: kbd_enqueue_char_def Let_def)
  show "kbd_take c = None" if "kbd_list c = []"
    using that ring_list_Nil_iff [OF r] by (simp add: kbd_take_def kbd_list_def)
  fix ys
  show "\<exists>c'. kbd_take c = Some (ch, c') \<and> kbd_list c' = ys" if l: "kbd_list c = ch # ys"
  proof -
    have ne: "kbdq_head c \<noteq> kbdq_tail c"
      using l ring_list_Nil_iff [OF r] by (auto simp: kbd_list_def)
    then show ?thesis
      using getchar_queued [OF ne, of 0] ring_list_pop [OF r ne] l by (auto simp: kbd_take_def kbd_list_def)
  qed
next
  fix c c' :: console and ch :: u8
  assume "kbd_ok c" and "kbd_take c = Some (ch, c')"
  then show "kbd_ok c'"
    using getchar_queued [of c 0] by (auto simp: kbd_take_def kbd_ok_def ring_ok_def split: if_splits)
qed

fun type_all :: "u8 list \<Rightarrow> console \<Rightarrow> console" where
  "type_all [] c = c"
| "type_all (ch # s) c = type_all s (snd (kbd_enqueue_char ch c))"

text \<open>
  Characters come out of the keyboard queue in the order they were typed: of the characters typed
  the queue holds the first ones up to its capacity of 63 and refuses the rest, and \<^verbatim>\<open>getchar\<close> returns
  the oldest, as a number between 0 and 255, whatever the firmware offers.
\<close>

theorem getchar_in_order:
  assumes "kbd_ok c"
  shows "kbd_list (type_all s c) = take 63 (kbd_list c @ s) \<and> kbd_ok (type_all s c) \<and>
    (\<forall>ch cs inp. kbd_list c = ch # cs \<longrightarrow> (\<exists>c'. getchar inp c = Inr (uint ch, c') \<and> kbd_list c' = cs \<and> kbd_ok c'))"
proof -
  have fold: "type_all s c = fold (\<lambda>ch c. snd (kbd_enqueue_char ch c)) s c" for s c
    by (induction s arbitrary: c) auto
  have r: "ring_ok KBDQ_CAP (kbdq_buf c) (kbdq_head c) (kbdq_tail c)"
    using assms by (simp add: kbd_ok_def)
  have "\<exists>c'. getchar inp c = Inr (uint ch, c') \<and> kbd_list c' = cs \<and> kbd_ok c'" if l: "kbd_list c = ch # cs" for ch cs inp
  proof -
    have ne: "kbdq_head c \<noteq> kbdq_tail c"
      using l ring_list_Nil_iff [OF r] by (auto simp: kbd_list_def)
    then show ?thesis
      using getchar_queued [OF ne, of inp] ring_list_pop [OF r ne] ring_ok_pop [OF r] l
      by (auto simp: kbd_list_def kbd_ok_def)
  qed
  then show ?thesis
    using kbd.elems_fold_push_reject [OF assms, of s] kbd.inv_fold_push [OF assms, of s] fold by simp
qed

lemma getchar_in_order_witness: "kbd_list (type_all [0x6c, 0x73] console_boot) = [0x6c, 0x73]"
proof -
  have "kbd_ok console_boot" "kbd_list console_boot = []"
    by (simp_all add: kbd_ok_def console_boot_def ring_ok_def kbd_list_def ring_list_def ring_count_def)
  then show ?thesis
    using getchar_in_order [of console_boot "[0x6c, 0x73]"] by simp
qed

end
