(* ===== verification/Context.thy ===== *)
theory Context
  imports Proc
begin

text \<open>
  The assembly of the kernel: trap entry and return (\<^verbatim>\<open>arch/riscv32/trap/entry.c\<close>), the first return to
  user mode (\<^verbatim>\<open>trap/resume.c\<close>), and \<^verbatim>\<open>switch_context\<close> (\<^verbatim>\<open>arch/riscv32/context.c\<close>), as instruction
  lists with an interpreter. All accesses are to aligned words, so memory is a map from addresses to
  words here. A forward branch carries the instructions that it skips.
\<close>

section \<open>Instructions\<close>

datatype reg =
    RA | SP | GP | TP | T0 | T1 | T2 | T3 | T4 | T5 | T6
  | S0 | S1 | S2 | S3 | S4 | S5 | S6 | S7 | S8 | S9 | S10 | S11
  | A0 | A1 | A2 | A3 | A4 | A5 | A6 | A7

datatype csr = SSTATUS | SEPC | SSCRATCH

record cpu =
  gpr :: "reg \<Rightarrow> u32"
  csrs :: "csr \<Rightarrow> u32"
  wmem :: "u32 \<Rightarrow> u32"

datatype insn =
    Sw reg u32 reg
  | Lw reg u32 reg
  | Li reg u32
  | Mv reg reg
  | Add reg reg reg
  | Addi reg reg u32
  | Andi reg reg u32
  | Csrr reg csr
  | Csrw csr reg
  | Csrw_zero csr
  | Csrrw reg csr
  | Csrrci reg csr u32
  | Bnez reg "insn list"

definition set_reg :: "reg \<Rightarrow> u32 \<Rightarrow> cpu \<Rightarrow> cpu" where
  "set_reg r v c = c\<lparr>gpr := (gpr c)(r := v)\<rparr>"

definition set_csr :: "csr \<Rightarrow> u32 \<Rightarrow> cpu \<Rightarrow> cpu" where
  "set_csr k v c = c\<lparr>csrs := (csrs c)(k := v)\<rparr>"

fun exec :: "insn \<Rightarrow> cpu \<Rightarrow> cpu"
  and run :: "insn list \<Rightarrow> cpu \<Rightarrow> cpu" where
  "exec (Sw r off b) c = c\<lparr>wmem := (wmem c)(gpr c b + off := gpr c r)\<rparr>"
| "exec (Lw r off b) c = set_reg r (wmem c (gpr c b + off)) c"
| "exec (Li r v) c = set_reg r v c"
| "exec (Mv r s) c = set_reg r (gpr c s) c"
| "exec (Add r s t) c = set_reg r (gpr c s + gpr c t) c"
| "exec (Addi r s v) c = set_reg r (gpr c s + v) c"
| "exec (Andi r s v) c = set_reg r (gpr c s AND v) c"
| "exec (Csrr r k) c = set_reg r (csrs c k) c"
| "exec (Csrw k r) c = set_csr k (gpr c r) c"
| "exec (Csrw_zero k) c = set_csr k 0 c"
| "exec (Csrrw r k) c = set_csr k (gpr c r) (set_reg r (csrs c k) c)"
| "exec (Csrrci r k v) c = set_csr k (csrs c k AND NOT v) (set_reg r (csrs c k) c)"
| "exec (Bnez r is) c = (if gpr c r \<noteq> 0 then c else run is c)"
| "run [] c = c"
| "run (i # is) c = run is (exec i c)"

section \<open>Trap entry and return\<close>

text \<open>
  The registers of a trap frame in the order of the structure; its size is 33 words rounded up to 16
  bytes, with the stack pointer, \<^verbatim>\<open>sepc\<close> and \<^verbatim>\<open>sstatus\<close> in the words 30 to 32.
\<close>

definition frame_regs :: "reg list" where
  "frame_regs =
     [RA, GP, TP, T0, T1, T2, T3, T4, T5, T6, A0, A1, A2, A3, A4, A5, A6, A7,
      S0, S1, S2, S3, S4, S5, S6, S7, S8, S9, S10, S11]"

abbreviation FRAME_SIZE :: u32 where "FRAME_SIZE \<equiv> 144"
abbreviation OFF_SP :: u32 where "OFF_SP \<equiv> 120"
abbreviation OFF_SEPC :: u32 where "OFF_SEPC \<equiv> 124"
abbreviation OFF_SSTATUS :: u32 where "OFF_SSTATUS \<equiv> 128"

definition kernel_entry_save :: "insn list" where
  "kernel_entry_save =
     [Csrrw SP SSCRATCH, Bnez SP [Csrrw SP SSCRATCH], Addi SP SP (- FRAME_SIZE)]
     @ map (\<lambda>(i, r). Sw r (4 * of_nat i) SP) (enumerate 0 frame_regs)
     @ [Csrr T0 SSCRATCH, Bnez T0 [Addi T0 SP FRAME_SIZE], Sw T0 OFF_SP SP,
        Csrr T0 SEPC, Sw T0 OFF_SEPC SP, Csrr T0 SSTATUS, Sw T0 OFF_SSTATUS SP,
        Csrw_zero SSCRATCH, Mv A0 SP]"

definition kernel_entry_restore :: "insn list" where
  "kernel_entry_restore =
     [Lw T0 OFF_SEPC SP, Csrw SEPC T0, Lw T0 OFF_SSTATUS SP, Csrw SSTATUS T0,
      Andi T0 T0 0x100, Bnez T0 [Addi T0 SP FRAME_SIZE, Csrw SSCRATCH T0]]
     @ map (\<lambda>(i, r). Lw r (4 * of_nat i) SP) (enumerate 0 frame_regs)
     @ [Lw SP OFF_SP SP]"

text \<open>The frame that a pointer points to.\<close>

definition frame_at :: "(u32 \<Rightarrow> u32) \<Rightarrow> u32 \<Rightarrow> trap_frame" where
  "frame_at m p =
     \<lparr>tf_ra = m p, tf_gp = m (p + 4), tf_tp = m (p + 8), tf_t0 = m (p + 12), tf_t1 = m (p + 16), tf_t2 = m (p + 20),
      tf_t3 = m (p + 24), tf_t4 = m (p + 28), tf_t5 = m (p + 32), tf_t6 = m (p + 36), tf_a0 = m (p + 40), tf_a1 = m (p + 44),
      tf_a2 = m (p + 48), tf_a3 = m (p + 52), tf_a4 = m (p + 56), tf_a5 = m (p + 60), tf_a6 = m (p + 64), tf_a7 = m (p + 68),
      tf_s0 = m (p + 72), tf_s1 = m (p + 76), tf_s2 = m (p + 80), tf_s3 = m (p + 84), tf_s4 = m (p + 88), tf_s5 = m (p + 92),
      tf_s6 = m (p + 96), tf_s7 = m (p + 100), tf_s8 = m (p + 104), tf_s9 = m (p + 108), tf_s10 = m (p + 112),
      tf_s11 = m (p + 116), tf_sp = m (p + 120), tf_sepc = m (p + 124), tf_sstatus = m (p + 128)\<rparr>"

text \<open>
  \<^verbatim>\<open>arch_resume_from_trap\<close> with the address of the variable \<^verbatim>\<open>current_proc\<close> and the offsets of the trap
  frame and of the end of the kernel stack in a process. The frame is read through \<^verbatim>\<open>a6\<close>, which is
  loaded last.
\<close>

definition arch_resume_from_trap :: "u32 \<Rightarrow> u32 \<Rightarrow> u32 \<Rightarrow> insn list" where
  "arch_resume_from_trap current_proc tf_offset stack_top_offset =
     [Li A6 current_proc, Lw A6 0 A6,
      Li T0 tf_offset, Add A6 A6 T0, Lw T0 OFF_SEPC A6, Csrw SEPC T0, Lw T0 OFF_SSTATUS A6, Csrw SSTATUS T0,
      Li T0 current_proc, Lw T0 0 T0, Li T1 stack_top_offset, Add T0 T0 T1, Csrw SSCRATCH T0]
     @ map (\<lambda>(i, r). Lw r (4 * of_nat i) A6) (filter (\<lambda>(i, r). r \<noteq> A6) (enumerate 0 frame_regs))
     @ [Lw SP OFF_SP A6, Lw A6 64 A6]"

section \<open>Switching between kernel stacks\<close>

definition switch_regs :: "reg list" where
  "switch_regs = [RA, S0, S1, S2, S3, S4, S5, S6, S7, S8, S9, S10, S11]"

definition switch_context :: "insn list" where
  "switch_context =
     [Csrrci T0 SSTATUS 2, Addi SP SP (- 64)]
     @ map (\<lambda>(i, r). Sw r (4 * of_nat i) SP) (enumerate 0 switch_regs)
     @ [Sw T0 52 SP, Sw SP 0 A0, Lw SP 0 A1, Lw T0 52 SP, Csrw SSTATUS T0]
     @ map (\<lambda>(i, r). Lw r (4 * of_nat i) SP) (enumerate 0 switch_regs)
     @ [Addi SP SP 64]"

section \<open>Proofs\<close>

lemmas asm_simps = set_reg_def set_csr_def frame_regs_def switch_regs_def

text \<open>The registers and the state that a frame describes.\<close>

fun frame_reg :: "trap_frame \<Rightarrow> reg \<Rightarrow> u32" where
  "frame_reg f RA = tf_ra f" | "frame_reg f SP = tf_sp f" | "frame_reg f GP = tf_gp f" | "frame_reg f TP = tf_tp f"
| "frame_reg f T0 = tf_t0 f" | "frame_reg f T1 = tf_t1 f" | "frame_reg f T2 = tf_t2 f" | "frame_reg f T3 = tf_t3 f"
| "frame_reg f T4 = tf_t4 f" | "frame_reg f T5 = tf_t5 f" | "frame_reg f T6 = tf_t6 f"
| "frame_reg f S0 = tf_s0 f" | "frame_reg f S1 = tf_s1 f" | "frame_reg f S2 = tf_s2 f" | "frame_reg f S3 = tf_s3 f"
| "frame_reg f S4 = tf_s4 f" | "frame_reg f S5 = tf_s5 f" | "frame_reg f S6 = tf_s6 f" | "frame_reg f S7 = tf_s7 f"
| "frame_reg f S8 = tf_s8 f" | "frame_reg f S9 = tf_s9 f" | "frame_reg f S10 = tf_s10 f" | "frame_reg f S11 = tf_s11 f"
| "frame_reg f A0 = tf_a0 f" | "frame_reg f A1 = tf_a1 f" | "frame_reg f A2 = tf_a2 f" | "frame_reg f A3 = tf_a3 f"
| "frame_reg f A4 = tf_a4 f" | "frame_reg f A5 = tf_a5 f" | "frame_reg f A6 = tf_a6 f" | "frame_reg f A7 = tf_a7 f"

definition frame_of :: "cpu \<Rightarrow> trap_frame" where
  "frame_of c =
     \<lparr>tf_ra = gpr c RA, tf_gp = gpr c GP, tf_tp = gpr c TP, tf_t0 = gpr c T0, tf_t1 = gpr c T1, tf_t2 = gpr c T2,
      tf_t3 = gpr c T3, tf_t4 = gpr c T4, tf_t5 = gpr c T5, tf_t6 = gpr c T6, tf_a0 = gpr c A0, tf_a1 = gpr c A1,
      tf_a2 = gpr c A2, tf_a3 = gpr c A3, tf_a4 = gpr c A4, tf_a5 = gpr c A5, tf_a6 = gpr c A6, tf_a7 = gpr c A7,
      tf_s0 = gpr c S0, tf_s1 = gpr c S1, tf_s2 = gpr c S2, tf_s3 = gpr c S3, tf_s4 = gpr c S4, tf_s5 = gpr c S5,
      tf_s6 = gpr c S6, tf_s7 = gpr c S7, tf_s8 = gpr c S8, tf_s9 = gpr c S9, tf_s10 = gpr c S10,
      tf_s11 = gpr c S11, tf_sp = gpr c SP, tf_sepc = csrs c SEPC, tf_sstatus = csrs c SSTATUS\<rparr>"

lemma run_append: "run (is @ js) c = run js (run is c)"
  by (induction "is" arbitrary: c) auto

lemma run_loads:
  assumes "b \<notin> snd ` set xs"
  shows "run (map (\<lambda>(i, r). Lw r (4 * of_nat i) b) xs) c =
    c\<lparr>gpr := fold (\<lambda>(i, r) g. g(r := wmem c (gpr c b + 4 * of_nat i))) xs (gpr c)\<rparr>"
  using assms by (induction xs arbitrary: c) (auto simp: set_reg_def)

lemma run_stores:
  "run (map (\<lambda>(i, r). Sw r (4 * of_nat i) b) xs) c =
    c\<lparr>wmem := fold (\<lambda>(i, r) m. m(gpr c b + 4 * of_nat i := gpr c r)) xs (wmem c)\<rparr>"
  by (induction xs arbitrary: c) auto

definition loaded :: "(u32 \<Rightarrow> u32) \<Rightarrow> u32 \<Rightarrow> (reg \<Rightarrow> u32) \<Rightarrow> reg \<Rightarrow> u32" where
  "loaded m p g = fold (\<lambda>(i, r) g. g(r := m (p + 4 * of_nat i))) (enumerate 0 frame_regs) g"

definition stored_frame :: "u32 \<Rightarrow> (reg \<Rightarrow> u32) \<Rightarrow> (u32 \<Rightarrow> u32) \<Rightarrow> u32 \<Rightarrow> u32" where
  "stored_frame p g m = fold (\<lambda>(i, r) m. m(p + 4 * of_nat i := g r)) (enumerate 0 frame_regs) m"

lemma loaded_reg: "loaded m p g r = (if r = SP then g SP else frame_reg (frame_at m p) r)"
  by (cases r) (simp_all add: loaded_def frame_regs_def frame_at_def)

lemma sp_not_frame: "SP \<notin> snd ` set (enumerate 0 frame_regs)"
  by (simp add: frame_regs_def)

lemma restore_spec:
  "run kernel_entry_restore c =
    c\<lparr>gpr := frame_reg (frame_at (wmem c) (gpr c SP)),
      csrs := (csrs c)(SEPC := tf_sepc (frame_at (wmem c) (gpr c SP)), SSTATUS := tf_sstatus (frame_at (wmem c) (gpr c SP)),
        SSCRATCH := if tf_sstatus (frame_at (wmem c) (gpr c SP)) AND SSTATUS_SPP = 0 then gpr c SP + FRAME_SIZE
          else csrs c SSCRATCH)\<rparr>"
proof -
  let ?f = "frame_at (wmem c) (gpr c SP)"
  have f: "tf_sepc ?f = wmem c (gpr c SP + OFF_SEPC)" "tf_sstatus ?f = wmem c (gpr c SP + OFF_SSTATUS)"
    "tf_sp ?f = wmem c (gpr c SP + OFF_SP)"
    by (simp_all add: frame_at_def)
  have sp: "loaded (wmem c) (gpr c SP) g SP = g SP" for g
    by (simp add: loaded_reg)
  have l: "(loaded (wmem c) (gpr c SP) g)(SP := wmem c (gpr c SP + OFF_SP)) = frame_reg ?f" for g
    using f(3) by (auto simp: fun_eq_iff loaded_reg)
  show ?thesis
    unfolding kernel_entry_restore_def run_append run_loads [OF sp_not_frame] f
    by (rule cpu.equality) (auto simp: asm_simps(1,2) f l sp loaded_reg fun_eq_iff simp flip: loaded_def)
qed

text \<open>Entry: the pointer to the frame, the frame, and the other words of memory.\<close>

lemma stored_frame_regs:
  "frame_at (m(p + OFF_SP := a, p + OFF_SEPC := b, p + OFF_SSTATUS := d)) p = 
    \<lparr>tf_ra = m p, tf_gp = m (p + 4), tf_tp = m (p + 8), tf_t0 = m (p + 12), tf_t1 = m (p + 16), tf_t2 = m (p + 20),
      tf_t3 = m (p + 24), tf_t4 = m (p + 28), tf_t5 = m (p + 32), tf_t6 = m (p + 36), tf_a0 = m (p + 40), tf_a1 = m (p + 44),
      tf_a2 = m (p + 48), tf_a3 = m (p + 52), tf_a4 = m (p + 56), tf_a5 = m (p + 60), tf_a6 = m (p + 64), tf_a7 = m (p + 68),
      tf_s0 = m (p + 72), tf_s1 = m (p + 76), tf_s2 = m (p + 80), tf_s3 = m (p + 84), tf_s4 = m (p + 88), tf_s5 = m (p + 92),
      tf_s6 = m (p + 96), tf_s7 = m (p + 100), tf_s8 = m (p + 104), tf_s9 = m (p + 108), tf_s10 = m (p + 112),
      tf_s11 = m (p + 116), tf_sp = a, tf_sepc = b, tf_sstatus = d\<rparr>"
  by (simp add: frame_at_def)

lemma frame_at_stored:
  "frame_at ((stored_frame p g m)(p + OFF_SP := a, p + OFF_SEPC := b, p + OFF_SSTATUS := d)) p =
    (frame_of \<lparr>gpr = g, csrs = undefined, wmem = m\<rparr>)\<lparr>tf_sp := a, tf_sepc := b, tf_sstatus := d\<rparr>"
  unfolding stored_frame_regs by (simp add: stored_frame_def frame_regs_def frame_of_def)

text \<open>The state in which \<^verbatim>\<open>handle_trap\<close> is called.\<close>

lemma entry_spec:
  assumes "csrs c SSCRATCH \<noteq> 0 \<longrightarrow> gpr c SP \<noteq> 0"
  defines "kst \<equiv> if csrs c SSCRATCH = 0 then gpr c SP else csrs c SSCRATCH"
  shows "gpr (run kernel_entry_save c) A0 = kst - FRAME_SIZE" and "gpr (run kernel_entry_save c) SP = kst - FRAME_SIZE"
    and "csrs (run kernel_entry_save c) = (csrs c)(SSCRATCH := 0)"
    and "frame_at (wmem (run kernel_entry_save c)) (kst - FRAME_SIZE) = frame_of c"
proof -
  define p where "p = kst - FRAME_SIZE"
  let ?head = "[Csrrw SP SSCRATCH, Bnez SP [Csrrw SP SSCRATCH], Addi SP SP (- FRAME_SIZE)]"
  have head: "run ?head c = c\<lparr>gpr := (gpr c)(SP := p),
      csrs := (csrs c)(SSCRATCH := if csrs c SSCRATCH = 0 then 0 else gpr c SP)\<rparr>"
    by (rule cpu.equality) (auto simp: asm_simps(1,2) p_def kst_def fun_eq_iff)
  define g where "g = (gpr c)(SP := p)"
  define m where "m = stored_frame p g (wmem c)"
  have m: "fold (\<lambda>(i, r) m. m(g SP + 4 * of_nat i := g r)) (enumerate 0 frame_regs) (wmem c) = m"
    by (simp add: m_def stored_frame_def g_def)
  have p144: "p + FRAME_SIZE = kst"
    by (simp add: p_def)
  have tail: "run [Csrr T0 SSCRATCH, Bnez T0 [Addi T0 SP FRAME_SIZE], Sw T0 OFF_SP SP,
        Csrr T0 SEPC, Sw T0 OFF_SEPC SP, Csrr T0 SSTATUS, Sw T0 OFF_SSTATUS SP, Csrw_zero SSCRATCH, Mv A0 SP]
      (c\<lparr>gpr := g, csrs := (csrs c)(SSCRATCH := if csrs c SSCRATCH = 0 then 0 else gpr c SP), wmem := m\<rparr>) =
      c\<lparr>gpr := (gpr c)(SP := p, T0 := csrs c SSTATUS, A0 := p),
        csrs := (csrs c)(SSCRATCH := 0),
        wmem := m(p + OFF_SP := gpr c SP, p + OFF_SEPC := csrs c SEPC, p + OFF_SSTATUS := csrs c SSTATUS)\<rparr>"
    using assms(1)
    by (intro cpu.equality) (auto simp: asm_simps(1,2) g_def p144, auto simp: kst_def)
  have r: "run kernel_entry_save c =
      c\<lparr>gpr := (gpr c)(SP := p, T0 := csrs c SSTATUS, A0 := p),
        csrs := (csrs c)(SSCRATCH := 0),
        wmem := m(p + OFF_SP := gpr c SP, p + OFF_SEPC := csrs c SEPC, p + OFF_SSTATUS := csrs c SSTATUS)\<rparr>"
    unfolding kernel_entry_save_def run_append run_stores head
    using m tail by (simp del: run.simps exec.simps flip: g_def)
  show "gpr (run kernel_entry_save c) A0 = kst - FRAME_SIZE" "gpr (run kernel_entry_save c) SP = kst - FRAME_SIZE"
    "csrs (run kernel_entry_save c) = (csrs c)(SSCRATCH := 0)"
    by (simp_all add: r p_def)
  show "frame_at (wmem (run kernel_entry_save c)) (kst - FRAME_SIZE) = frame_of c"
    by (simp add: r m_def g_def frame_at_stored frame_of_def flip: p_def)
qed

lemma frame_reg_of: "frame_reg (frame_of c) = gpr c"
proof
  show "frame_reg (frame_of c) r = gpr c r" for r
    by (cases r) (simp_all add: frame_of_def)
qed


text \<open>The first return to user mode loads the frame of the process.\<close>

lemma resume_spec:
  fixes c :: cpu and cp off st :: u32
  defines "f \<equiv> wmem c cp + off"
  shows "run (arch_resume_from_trap cp off st) c =
    c\<lparr>gpr := frame_reg (frame_at (wmem c) f),
      csrs := (csrs c)(SEPC := tf_sepc (frame_at (wmem c) f), SSTATUS := tf_sstatus (frame_at (wmem c) f),
        SSCRATCH := wmem c cp + st)\<rparr>"
proof -
  let ?xs = "filter (\<lambda>(i, r). r \<noteq> A6) (enumerate 0 frame_regs)"
  have a6: "A6 \<notin> snd ` set ?xs"
    by auto
  have l: "(fold (\<lambda>(i, r) g. g(r := wmem c (f + 4 * of_nat i))) ?xs g)
      (SP := wmem c (f + OFF_SP), A6 := wmem c (f + 64)) = frame_reg (frame_at (wmem c) f)" for g
  proof
    show "((fold (\<lambda>(i, r) g. g(r := wmem c (f + 4 * of_nat i))) ?xs g)
        (SP := wmem c (f + OFF_SP), A6 := wmem c (f + 64))) r = frame_reg (frame_at (wmem c) f) r" for r
      by (cases r) (simp_all add: frame_regs_def frame_at_def)
  qed
  have h: "fold (\<lambda>(i, r) g. g(r := wmem c (f + 4 * of_nat i))) ?xs g A6 = g A6" for g
    by (simp add: frame_regs_def)
  define g where "g = (gpr c)(A6 := f, T0 := wmem c cp + st, T1 := st)"
  have head: "run [Li A6 cp, Lw A6 0 A6,
      Li T0 off, Add A6 A6 T0, Lw T0 OFF_SEPC A6, Csrw SEPC T0, Lw T0 OFF_SSTATUS A6, Csrw SSTATUS T0,
      Li T0 cp, Lw T0 0 T0, Li T1 st, Add T0 T0 T1, Csrw SSCRATCH T0] c =
    c\<lparr>gpr := g, csrs := (csrs c)(SEPC := tf_sepc (frame_at (wmem c) f), SSTATUS := tf_sstatus (frame_at (wmem c) f),
        SSCRATCH := wmem c cp + st)\<rparr>"
    by (rule cpu.equality) (simp_all add: asm_simps(1,2) g_def f_def frame_at_def fun_eq_iff)
  have "g A6 = f"
    by (simp add: g_def)
  then show ?thesis
    unfolding arch_resume_from_trap_def run_append run_loads [OF a6] head
    by (intro cpu.equality) (simp_all add: asm_simps(1) h l)
qed

section \<open>Switching\<close>

text \<open>The words that \<^verbatim>\<open>switch_context\<close> leaves on the stack, and the memory after it has stored them.\<close>

definition switch_words :: "cpu \<Rightarrow> u32 list" where
  "switch_words c = map (gpr c) switch_regs @ [csrs c SSTATUS]"

definition words_at :: "(u32 \<Rightarrow> u32) \<Rightarrow> u32 \<Rightarrow> u32 list \<Rightarrow> bool" where
  "words_at m p ws \<longleftrightarrow> (\<forall>i<length ws. m (p + 4 * of_nat i) = ws ! i)"

definition switch_area :: "u32 \<Rightarrow> u32 set" where
  "switch_area p = (\<lambda>i. p + 4 * of_nat i) ` {..<14}"

definition switch_saved :: "cpu \<Rightarrow> u32 \<Rightarrow> u32" where
  "switch_saved c =
     (fold (\<lambda>(i, r) m. m(gpr c SP - 64 + 4 * of_nat i := gpr c r)) (enumerate 0 switch_regs) (wmem c))
       (gpr c SP - 64 + 52 := csrs c SSTATUS, gpr c A0 := gpr c SP - 64)"

lemma switch_spec:
  fixes c :: cpu
  defines "q \<equiv> switch_saved c (gpr c A1)"
  shows "wmem (run switch_context c) = switch_saved c"
    and "gpr (run switch_context c) SP = q + 64"
    and "csrs (run switch_context c) = (csrs c)(SSTATUS := switch_saved c (q + 52))"
    and "i < 13 \<Longrightarrow> gpr (run switch_context c) (switch_regs ! i) = switch_saved c (q + 4 * of_nat i)"
proof -
  let ?p = "gpr c SP - 64"
  let ?xs = "enumerate 0 switch_regs"
  define g where "g = (gpr c)(T0 := csrs c SSTATUS, SP := ?p)"
  define m where "m = fold (\<lambda>(i, r) m. m(?p + 4 * of_nat i := gpr c r)) ?xs (wmem c)"
  have head: "run [Csrrci T0 SSTATUS 2, Addi SP SP (- 64)] c =
      c\<lparr>gpr := g, csrs := (csrs c)(SSTATUS := csrs c SSTATUS AND NOT 2)\<rparr>"
    by (rule cpu.equality) (simp_all add: asm_simps(1,2) g_def)
  have m: "fold (\<lambda>(i, r) m. m(g SP + 4 * of_nat i := g r)) ?xs (wmem c) = m"
    by (simp add: m_def g_def switch_regs_def)
  have sp: "SP \<notin> snd ` set ?xs"
    by (simp add: switch_regs_def)
  have sv: "m(?p + 52 := csrs c SSTATUS, gpr c A0 := ?p) = switch_saved c"
    by (simp add: switch_saved_def m_def)
  define h where "h = g(SP := q, T0 := switch_saved c (q + 52))"
  have mid: "run [Sw T0 52 SP, Sw SP 0 A0, Lw SP 0 A1, Lw T0 52 SP, Csrw SSTATUS T0]
      (c\<lparr>gpr := g, csrs := (csrs c)(SSTATUS := csrs c SSTATUS AND NOT 2), wmem := m\<rparr>) =
      c\<lparr>gpr := h, csrs := (csrs c)(SSTATUS := switch_saved c (q + 52)), wmem := switch_saved c\<rparr>"
    by (rule cpu.equality) (simp_all add: asm_simps(1,2) g_def h_def sv [symmetric] q_def)
  have hsp: "h SP = q"
    by (simp add: h_def)
  have r: "run switch_context c =
      c\<lparr>gpr := (fold (\<lambda>(i, r) g. g(r := switch_saved c (q + 4 * of_nat i))) ?xs h)
          (SP := fold (\<lambda>(i, r) g. g(r := switch_saved c (q + 4 * of_nat i))) ?xs h SP + 64),
        csrs := (csrs c)(SSTATUS := switch_saved c (q + 52)), wmem := switch_saved c\<rparr>"
    unfolding switch_context_def run_append run_stores run_loads [OF sp] head
    using m mid hsp by (simp del: run.simps exec.simps) (simp add: asm_simps(1))
  show "wmem (run switch_context c) = switch_saved c" "csrs (run switch_context c) = (csrs c)(SSTATUS := switch_saved c (q + 52))"
    by (simp_all add: r)
  show "gpr (run switch_context c) SP = q + 64"
    by (simp add: r h_def switch_regs_def)
  assume "i < 13"
  then have "i = 0 \<or> i = 1 \<or> i = 2 \<or> i = 3 \<or> i = 4 \<or> i = 5 \<or> i = 6 \<or> i = 7 \<or> i = 8 \<or> i = 9 \<or> i = 10 \<or> i = 11 \<or> i = 12"
    by presburger
  then show "gpr (run switch_context c) (switch_regs ! i) = switch_saved c (q + 4 * of_nat i)"
    by (elim disjE) (simp_all add: r switch_regs_def)
qed

lemma switch_area_iff: "x \<in> switch_area p \<longleftrightarrow> (\<exists>i<14. x = p + 4 * of_nat i)"
  by (auto simp: switch_area_def)

lemma switch_saved_other:
  assumes "x \<notin> switch_area (gpr c SP - 64)" and "x \<noteq> gpr c A0"
  shows "switch_saved c x = wmem c x"
proof -
  have "x \<noteq> gpr c SP - 64 + 4 * of_nat i" if "i < 14" for i
    using assms(1) that by (auto simp: switch_area_def)
  note n = this [of 0] this [of 1] this [of 2] this [of 3] this [of 4] this [of 5] this [of 6] this [of 7]
    this [of 8] this [of 9] this [of 10] this [of 11] this [of 12] this [of 13]
  show ?thesis
    using n assms(2) by (simp add: switch_saved_def switch_regs_def)
qed

lemma switch_saved_words:
  assumes "gpr c A0 \<notin> switch_area (gpr c SP - 64)"
  shows "words_at (switch_saved c) (gpr c SP - 64) (switch_words c)" and "switch_saved c (gpr c A0) = gpr c SP - 64"
proof -
  have "gpr c A0 \<noteq> gpr c SP - 64 + 4 * of_nat i" if "i < 14" for i
    using assms that by (auto simp: switch_area_def)
  note n = this [of 0] this [of 1] this [of 2] this [of 3] this [of 4] this [of 5] this [of 6] this [of 7]
    this [of 8] this [of 9] this [of 10] this [of 11] this [of 12] this [of 13]
  show "words_at (switch_saved c) (gpr c SP - 64) (switch_words c)"
    unfolding words_at_def
  proof (intro allI impI)
    fix i
    assume "i < length (switch_words c)"
    then have "i = 0 \<or> i = 1 \<or> i = 2 \<or> i = 3 \<or> i = 4 \<or> i = 5 \<or> i = 6 \<or> i = 7 \<or> i = 8 \<or> i = 9 \<or> i = 10 \<or>
        i = 11 \<or> i = 12 \<or> i = 13"
      by (simp add: switch_words_def switch_regs_def) presburger
    then show "switch_saved c (gpr c SP - 64 + 4 * of_nat i) = switch_words c ! i"
      using n by (elim disjE) (simp_all add: switch_saved_def switch_regs_def switch_words_def)
  qed
  show "switch_saved c (gpr c A0) = gpr c SP - 64"
    by (simp add: switch_saved_def)
qed

text \<open>Switching to a stack on which \<open>ws\<close> was left.\<close>

lemma switch_to_words:
  fixes c :: cpu
  defines "q \<equiv> wmem c (gpr c A1)"
  assumes "words_at (wmem c) q ws" and "length ws = 14" and "gpr c A1 \<notin> switch_area (gpr c SP - 64)"
    and "gpr c A0 \<noteq> gpr c A1" and "gpr c A0 \<notin> switch_area q" and "switch_area q \<inter> switch_area (gpr c SP - 64) = {}"
  shows "map (gpr (run switch_context c)) switch_regs @ [csrs (run switch_context c) SSTATUS] = ws"
    and "gpr (run switch_context c) SP = q + 64"
proof -
  have a1: "switch_saved c (gpr c A1) = q"
    using assms(4,5) by (simp add: switch_saved_other q_def)
  have w: "switch_saved c (q + 4 * of_nat i) = ws ! i" if "i < 14" for i
  proof -
    have "q + 4 * of_nat i \<in> switch_area q"
      using that by (auto simp: switch_area_def)
    then show ?thesis
      using assms(2,3,6,7) that by (subst switch_saved_other) (auto simp: words_at_def)
  qed
  note sp = switch_spec [where c = c, unfolded a1]
  show "gpr (run switch_context c) SP = q + 64"
    by (rule sp)
  show "map (gpr (run switch_context c)) switch_regs @ [csrs (run switch_context c) SSTATUS] = ws"
  proof (rule nth_equalityI)
    show len: "length (map (gpr (run switch_context c)) switch_regs @ [csrs (run switch_context c) SSTATUS]) = length ws"
      by (simp add: assms(3) switch_regs_def)
    fix i
    assume i: "i < length (map (gpr (run switch_context c)) switch_regs @ [csrs (run switch_context c) SSTATUS])"
    have l13: "length switch_regs = 13"
      by (simp add: switch_regs_def)
    show "(map (gpr (run switch_context c)) switch_regs @ [csrs (run switch_context c) SSTATUS]) ! i = ws ! i"
    proof (cases "i < 13")
      case True
      then show ?thesis
        using sp(4) [OF True] w [of i] l13 by (simp add: nth_append)
    next
      case False
      then have "i = 13"
        using i l13 by simp
      then show ?thesis
        using w [of 13] sp(3) l13 by (simp add: nth_append)
    qed
  qed
qed

text \<open>
  A new process runs \<open>entry\<close> on its empty kernel stack, with interrupts off when it is a user process:
  the words are those of \<^verbatim>\<open>arch_init_switch_context\<close>.
\<close>

lemma switch_to_new_process:
  fixes c :: cpu and stack_end entry :: u32 and proc :: process and h :: hart
  defines "proc' \<equiv> arch_init_switch_context stack_end proc entry h"
  assumes "words_at (wmem c) (p_sp proc') (take 14 (stack_top_words proc'))" and "wmem c (gpr c A1) = p_sp proc'"
    and "gpr c A1 \<notin> switch_area (gpr c SP - 64)" and "gpr c A0 \<noteq> gpr c A1" and "gpr c A0 \<notin> switch_area (p_sp proc')"
    and "switch_area (p_sp proc') \<inter> switch_area (gpr c SP - 64) = {}"
  shows "gpr (run switch_context c) RA = entry \<and> gpr (run switch_context c) SP = stack_end \<and>
    (bit (csrs (run switch_context c) SSTATUS) 1 \<longleftrightarrow> \<not> is_user proc)"
proof -
  have p: "p_sp proc' = stack_end - 64"
    "take 14 (stack_top_words proc') = entry # replicate 12 0 @
      [if is_user proc then sstatus h AND NOT (SSTATUS_SIE OR SSTATUS_SUM)
       else sstatus h AND NOT (SSTATUS_SIE OR SSTATUS_SUM) OR SSTATUS_SIE]"
    by (simp_all add: proc'_def arch_init_switch_context_def Let_def numeral_eq_Suc)
  note sw = switch_to_words [of c "take 14 (stack_top_words proc')", unfolded assms(3), OF assms(2) _ assms(4-7)]
  have l: "length (take 14 (stack_top_words proc')) = 14"
    by (simp add: p)
  have "bit (2 :: u32) n \<longleftrightarrow> n = 1" for n
    using bit_exp_iff [of 1 n, where 'a = u32] by auto
  then show ?thesis
    using sw(1) [OF l] sw(2) [OF l] unfolding p
    by (auto simp: switch_regs_def bit_simps numeral_eq_Suc)
qed

section \<open>Properties\<close>

text \<open>
  C14. A trap is transparent to the code it interrupts. On entry from user mode, with the kernel stack of
  the process in \<^verbatim>\<open>sscratch\<close>, or from the kernel, with \<^verbatim>\<open>sscratch\<close> zero, \<^verbatim>\<open>handle_trap\<close> gets a frame with all
  registers, \<^verbatim>\<open>sepc\<close> and \<^verbatim>\<open>sstatus\<close> of the interrupted code, and \<^verbatim>\<open>sscratch\<close> is zero. When the handler
  leaves a frame at that place, returning loads exactly the registers and the state of that frame, and
  \<^verbatim>\<open>sscratch\<close> again holds the kernel stack when the return is to user mode. A user stack pointer of zero is
  the exception: it is taken for a trap from the kernel.
\<close>

theorem trap_transparent:
  assumes "csrs c SSCRATCH \<noteq> 0 \<longrightarrow> gpr c SP \<noteq> 0"
    and "c1 = run kernel_entry_save c" and "gpr c2 SP = gpr c1 SP" and "csrs c2 SSCRATCH = csrs c1 SSCRATCH"
    and "c3 = run kernel_entry_restore c2"
  shows "frame_at (wmem c1) (gpr c1 A0) = frame_of c \<and> csrs c1 SSCRATCH = 0 \<and>
    frame_of c3 = frame_at (wmem c2) (gpr c1 A0) \<and>
    (frame_at (wmem c2) (gpr c1 A0) = frame_of c \<longrightarrow> gpr c3 = gpr c \<and> csrs c3 SEPC = csrs c SEPC \<and> csrs c3 SSTATUS = csrs c SSTATUS) \<and>
    (tf_sstatus (frame_at (wmem c2) (gpr c1 A0)) AND SSTATUS_SPP = 0 \<longrightarrow>
       csrs c3 SSCRATCH = (if csrs c SSCRATCH = 0 then gpr c SP else csrs c SSCRATCH))"
proof -
  note e = entry_spec [OF assms(1), folded assms(2)]
  let ?f = "frame_at (wmem c2) (gpr c1 A0)"
  have sp: "gpr c2 SP = gpr c1 A0"
    using assms(3) e(1,2) by simp
  have c3: "gpr c3 = frame_reg ?f" "csrs c3 SEPC = tf_sepc ?f" "csrs c3 SSTATUS = tf_sstatus ?f"
    "tf_sstatus ?f AND SSTATUS_SPP = 0 \<Longrightarrow> csrs c3 SSCRATCH = gpr c1 A0 + FRAME_SIZE"
    unfolding assms(5) restore_spec sp by simp_all
  have "frame_of c3 = ?f"
    using c3(1-3) by (simp add: frame_of_def)
  moreover have "gpr c3 = gpr c \<and> csrs c3 SEPC = csrs c SEPC \<and> csrs c3 SSTATUS = csrs c SSTATUS" if "?f = frame_of c"
    using c3(1-3) that frame_reg_of by (simp add: frame_of_def)
  ultimately show ?thesis
    using e(1,3,4) c3(4) by simp
qed

text \<open>
  C33. A process that gives up the processor gets it back as it left it. After \<^verbatim>\<open>switch_context(prev, next)\<close>
  the state of the caller is on its own stack and nothing else in memory has changed but those words and
  \<^verbatim>\<open>*prev\<close>. Whatever runs in between, if it does not write to these words, the \<^verbatim>\<open>switch_context\<close> that takes
  this stack as its \<^verbatim>\<open>next\<close> returns with \<^verbatim>\<open>ra\<close>, \<^verbatim>\<open>s0\<close> to \<^verbatim>\<open>s11\<close>, \<^verbatim>\<open>sp\<close> and \<^verbatim>\<open>sstatus\<close> (so the interrupt flag) of
  the first call.
\<close>

theorem switch_context_roundtrip:
  assumes "c1 = run switch_context c" and "p = gpr c SP - 64" and "gpr c A0 \<notin> switch_area p"
    and "\<forall>x\<in>insert (gpr c A0) (switch_area p). wmem c2 x = wmem c1 x"
    and "gpr c2 A1 = gpr c A0" and "gpr c2 A0 \<notin> insert (gpr c A0) (switch_area p)"
    and "insert (gpr c A0) (switch_area p) \<inter> switch_area (gpr c2 SP - 64) = {}"
    and "c3 = run switch_context c2"
  shows "(\<forall>x. x \<notin> insert (gpr c A0) (switch_area p) \<longrightarrow> wmem c1 x = wmem c x) \<and>
    (\<forall>r\<in>set switch_regs. gpr c3 r = gpr c r) \<and> gpr c3 SP = gpr c SP \<and> csrs c3 SSTATUS = csrs c SSTATUS"
proof -
  have m1: "wmem c1 = switch_saved c"
    using assms(1) switch_spec(1) by simp
  have sv: "words_at (switch_saved c) p (switch_words c)" "switch_saved c (gpr c A0) = p"
    using switch_saved_words [of c] assms(2,3) by simp_all
  have q: "wmem c2 (gpr c2 A1) = p"
    using assms(4,5) m1 sv(2) by simp
  have len: "length (switch_words c) = 14"
    by (simp add: switch_words_def switch_regs_def)
  have "p + 4 * of_nat i \<in> switch_area p" if "i < 14" for i
    using that by (auto simp: switch_area_def)
  then have w: "words_at (wmem c2) p (switch_words c)"
    using sv(1) assms(4) m1 len by (simp add: words_at_def)
  have d: "gpr c2 A1 \<notin> switch_area (gpr c2 SP - 64)" "gpr c2 A0 \<noteq> gpr c2 A1" "gpr c2 A0 \<notin> switch_area p"
    "switch_area p \<inter> switch_area (gpr c2 SP - 64) = {}"
    using assms(5-7) by auto
  note sw = switch_to_words [of c2 "switch_words c", unfolded q, OF w len d, folded assms(8)]
  have "map (gpr c3) switch_regs = map (gpr c) switch_regs" "csrs c3 SSTATUS = csrs c SSTATUS"
    using sw(1) by (simp_all add: switch_words_def)
  then show ?thesis
    using sw(2) assms(2) m1 switch_saved_other [of _ c] by auto
qed

definition ctx_a :: cpu where
  "ctx_a = \<lparr>gpr = (\<lambda>r. if r = SP then 0x80201000 else if r = A0 then 0x80300000 else if r = A1 then 0x80300100 else 7),
     csrs = (\<lambda>_. 0x22), wmem = (\<lambda>a. if a = 0x80300100 then 0x80202fc0 else 0)\<rparr>"

definition ctx_b :: cpu where
  "ctx_b = (run switch_context ctx_a)
     \<lparr>gpr := (\<lambda>r. if r = SP then 0x80203000 else if r = A0 then 0x80300100 else if r = A1 then 0x80300000 else 9),
      csrs := (\<lambda>_. 0)\<rparr>"

lemma switch_area_code: "switch_area p = set (map (\<lambda>i. p + 4 * i) [0, 1, 2, 3, 4, 5, 6, 7, 8, 9, 10, 11, 12, 13])"
  by (simp add: switch_area_def lessThan_nat_numeral lessThan_Suc insert_commute)

lemma switch_context_roundtrip_witness:
  "gpr (run switch_context ctx_b) S3 = 7 \<and> gpr (run switch_context ctx_b) SP = 0x80201000 \<and>
   csrs (run switch_context ctx_b) SSTATUS = 0x22"
proof -
  have "S3 \<in> set switch_regs"
    by (simp add: switch_regs_def)
  moreover have "gpr ctx_a S3 = 7" "gpr ctx_a SP = 0x80201000" "csrs ctx_a SSTATUS = 0x22"
    by (simp_all add: ctx_a_def)
  ultimately show ?thesis
    using switch_context_roundtrip [of "run switch_context ctx_a" ctx_a "0x80200fc0" ctx_b "run switch_context ctx_b"]
    by (simp add: switch_area_code ctx_b_def) (simp add: ctx_a_def)
qed

lemma trap_transparent_witness:
  "frame_at (wmem (run kernel_entry_save ctx_a)) (gpr (run kernel_entry_save ctx_a) A0) = frame_of ctx_a"
proof -
  have "gpr ctx_a SP \<noteq> 0"
    by (simp add: ctx_a_def)
  then show ?thesis
    using trap_transparent [of ctx_a _ "run kernel_entry_save ctx_a"] by blast
qed

end
