(* ===== verification/Virtio.thy ===== *)
theory Virtio
  imports Bytes
begin

text \<open>
  What the drivers of \<^verbatim>\<open>drivers/virtio\<close> share: split virtqueues and memory-mapped registers. A device is
  hardware, so its state \<open>'d\<close> and the effect of a register access on it are parameters: a \<open>bus\<close>. The
  three drivers declare the same queue structures with 32 entries.
\<close>

record virtq_desc =
  d_addr :: u64
  d_len :: u32
  d_flags :: u16
  d_next :: u16

definition zero_desc :: virtq_desc where
  "zero_desc = \<lparr>d_addr = 0, d_len = 0, d_flags = 0, d_next = 0\<rparr>"

record virtq =
  vq_desc :: "virtq_desc list"
  avail_idx :: u16
  avail_ring :: "u16 list"
  vused_idx :: u16
  vused_ring :: "(u32 \<times> u32) list"

abbreviation VIRTQ_NUM :: nat where "VIRTQ_NUM \<equiv> 32"

abbreviation DESC_F_NEXT :: u16 where "DESC_F_NEXT \<equiv> 1"
abbreviation DESC_F_WRITE :: u16 where "DESC_F_WRITE \<equiv> 2"

text \<open>The queue after \<^verbatim>\<open>memset\<close> of its three parts.\<close>

definition zero_virtq :: virtq where
  "zero_virtq = \<lparr>vq_desc = replicate VIRTQ_NUM zero_desc, avail_idx = 0, avail_ring = replicate VIRTQ_NUM 0,
     vused_idx = 0, vused_ring = replicate VIRTQ_NUM (0, 0)\<rparr>"

definition virtq_ok :: "virtq \<Rightarrow> bool" where
  "virtq_ok q \<longleftrightarrow> length (vq_desc q) = VIRTQ_NUM \<and> length (avail_ring q) = VIRTQ_NUM \<and> length (vused_ring q) = VIRTQ_NUM"

definition set_desc :: "nat \<Rightarrow> virtq_desc \<Rightarrow> virtq \<Rightarrow> virtq" where
  "set_desc i d q = q\<lparr>vq_desc := (vq_desc q)[i := d]\<rparr>"

text \<open>\<^verbatim>\<open>avail.ring[avail.idx % NUM] = head; avail.idx++\<close>; the index wraps at 16 bits.\<close>

definition avail_push :: "u16 \<Rightarrow> virtq \<Rightarrow> virtq" where
  "avail_push head q =
     q\<lparr>avail_ring := (avail_ring q)[unat (avail_idx q) mod VIRTQ_NUM := head], avail_idx := avail_idx q + 1\<rparr>"

lemma virtq_ok_simps [simp]:
  "virtq_ok zero_virtq"
  "virtq_ok (set_desc i d q) = virtq_ok q"
  "virtq_ok (avail_push h q) = virtq_ok q"
  by (simp_all add: virtq_ok_def zero_virtq_def set_desc_def avail_push_def)

lemma queue_simps [simp]:
  "vused_idx (set_desc i d q) = vused_idx q" "vused_idx (avail_push h q) = vused_idx q"
  "vused_ring (set_desc i d q) = vused_ring q" "vused_ring (avail_push h q) = vused_ring q"
  "avail_idx (set_desc i d q) = avail_idx q" "avail_ring (set_desc i d q) = avail_ring q"
  "vq_desc (avail_push h q) = vq_desc q"
  by (simp_all add: set_desc_def avail_push_def)

record 'd bus =
  bus_read :: "u32 \<Rightarrow> 'd \<Rightarrow> u32 \<times> 'd"
  bus_write :: "u32 \<Rightarrow> u32 \<Rightarrow> 'd \<Rightarrow> 'd"

fun bus_writes :: "('d, 'z) bus_scheme \<Rightarrow> u32 \<Rightarrow> (u32 \<times> u32) list \<Rightarrow> 'd \<Rightarrow> 'd" where
  "bus_writes e dev_base [] d = d"
| "bus_writes e dev_base ((off, v) # ws) d = bus_writes e dev_base ws (bus_write e (dev_base + off) v d)"

abbreviation VIRTIO_MAGIC :: u32 where "VIRTIO_MAGIC \<equiv> 0x74726976"

definition virtio_mmio_base :: "nat \<Rightarrow> u32" where
  "virtio_mmio_base i = 0x10001000 + of_nat i * 0x1000"

definition bytes64 :: "u64 \<Rightarrow> u8 list" where
  "bytes64 w = bytes32 (ucast w) @ bytes32 (ucast (drop_bit 32 w))"

lemma length_bytes [simp]: "length (bytes32 w) = 4" "length (bytes64 v) = 8"
  by (simp_all add: bytes32_def bytes64_def)

end
