(* ===== verification/Virtio_Gpu.thy ===== *)
theory Virtio_Gpu
  imports Virtio Process Event
begin

text \<open>
  The GPU driver, \<^verbatim>\<open>drivers/virtio/virtio_gpu.c\<close>. The environment is a parameter: the registers of the
  device, what the device writes to the queue and to the response between two reads of \<^verbatim>\<open>vg_used.idx\<close>,
  and what the other processes do while the caller sleeps. Requests and responses are bytes; the
  addresses of the structures are symbols of the linked image or of the stack.
\<close>

section \<open>State\<close>

record gpu =
  vg_q :: virtq
  vg_base :: u32
  vg_ready :: bool
  vg_last_used :: u16
  vg_last_error :: int
  vg_width_px :: u32
  vg_height_px :: u32
  vg_pitch_px :: u32
  vg_resource_id :: u32
  vg_backbuffer :: u32
  vg_backbuffer_pages :: u32
  vg_waitq :: waitq

record 'd gsys =
  gg :: gpu
  gk :: sys
  gd :: 'd

record 'd genv = "'d bus" +
  gpu_dma :: "u8 list \<Rightarrow> virtq \<Rightarrow> 'd \<Rightarrow> virtq \<times> u8 list \<times> 'd"
  gpu_others :: "'d gsys \<Rightarrow> 'd gsys"
  req_addr :: u32
  resp_addr :: u32
  desc_addr :: u32
  avail_addr :: u32
  used_addr :: u32

abbreviation VG_FB_MAX_W :: u32 where "VG_FB_MAX_W \<equiv> 1024"
abbreviation VG_FB_MAX_H :: u32 where "VG_FB_MAX_H \<equiv> 768"
abbreviation VG_MMIO_STATUS :: u32 where "VG_MMIO_STATUS \<equiv> 0x070"
abbreviation VG_MMIO_QUEUE_NOTIFY :: u32 where "VG_MMIO_QUEUE_NOTIFY \<equiv> 0x050"
abbreviation VG_MMIO_INTERRUPT_STATUS :: u32 where "VG_MMIO_INTERRUPT_STATUS \<equiv> 0x060"
abbreviation VG_MMIO_INTERRUPT_ACK :: u32 where "VG_MMIO_INTERRUPT_ACK \<equiv> 0x064"
abbreviation VIRTIO_GPU_RESP_OK_NODATA :: u32 where "VIRTIO_GPU_RESP_OK_NODATA \<equiv> 0x1100"
abbreviation VIRTIO_GPU_RESP_OK_DISPLAY_INFO :: u32 where "VIRTIO_GPU_RESP_OK_DISPLAY_INFO \<equiv> 0x1101"

definition set_gpu :: "(gpu \<Rightarrow> gpu) \<Rightarrow> 'd gsys \<Rightarrow> 'd gsys" where
  "set_gpu f s = s\<lparr>gg := f (gg s)\<rparr>"

definition vg_mmio_write :: "'d genv \<Rightarrow> u32 \<Rightarrow> u32 \<Rightarrow> 'd gsys \<Rightarrow> 'd gsys" where
  "vg_mmio_write e off v s = s\<lparr>gd := bus_write e (vg_base (gg s) + off) v (gd s)\<rparr>"

definition vg_mmio_read :: "'d genv \<Rightarrow> u32 \<Rightarrow> 'd gsys \<Rightarrow> u32 \<times> 'd gsys" where
  "vg_mmio_read e off s = (let (v, d) = bus_read e (vg_base (gg s) + off) (gd s) in (v, s\<lparr>gd := d\<rparr>))"

fun vg_mmio_writes :: "'d genv \<Rightarrow> (u32 \<times> u32) list \<Rightarrow> 'd gsys \<Rightarrow> 'd gsys" where
  "vg_mmio_writes e [] s = s"
| "vg_mmio_writes e ((off, v) # ws) s = vg_mmio_writes e ws (vg_mmio_write e off v s)"

section \<open>Submitting a command\<close>

text \<open>The device may write before every read of the used index; what it sends fills the response buffer.\<close>

definition vg_observe :: "'d genv \<Rightarrow> u8 list \<Rightarrow> u8 list \<times> 'd gsys \<Rightarrow> u8 list \<times> 'd gsys" where
  "vg_observe e req = (\<lambda>(resp, s).
     let (q, bs, d) = gpu_dma e req (vg_q (gg s)) (gd s)
     in (take (length resp) bs @ drop (length bs) resp, s\<lparr>gg := (gg s)\<lparr>vg_q := q\<rparr>, gd := d\<rparr>))"

definition vg_pending :: "'d gsys \<Rightarrow> bool" where
  "vg_pending s \<longleftrightarrow> vg_last_used (gg s) = vused_idx (vg_q (gg s))"

fun vg_poll :: "'d genv \<Rightarrow> u8 list \<Rightarrow> nat \<Rightarrow> u8 list \<times> 'd gsys \<Rightarrow> u8 list \<times> 'd gsys" where
  "vg_poll e req 0 rs = rs"
| "vg_poll e req (Suc timeout) rs =
     (let rs = vg_observe e req rs in if \<not> vg_pending (snd rs) then rs else vg_poll e req timeout rs)"

text \<open>\<^verbatim>\<open>waitq_sleep(&vg_waitq)\<close>: block, yield, let the others run, and go on when scheduled again.\<close>

definition vg_sleep :: "'d genv \<Rightarrow> 'd gsys \<Rightarrow> 'd gsys kres" where
  "vg_sleep e s =
     (if current_proc (tab (gk s)) = None \<or> current_proc (tab (gk s)) = idle_proc (tab (gk s)) then Inr s
      else
        kbind (waitq_sleep_block (vg_waitq (gg s)) (tab (gk s)) (khart (gk s))) (\<lambda>(q, k, h).
        kbind (sys_do_yield ((gk s)\<lparr>tab := k, khart := h\<rparr>)) (\<lambda>S.
          let s = gpu_others e (s\<lparr>gg := (gg s)\<lparr>vg_waitq := q\<rparr>, gk := S\<rparr>)
          in Inr (s\<lparr>gk := (gk s)\<lparr>tab := waitq_sleep_resume (tab (gk s))\<rparr>\<rparr>))))"

fun vg_sleep_loop :: "'d genv \<Rightarrow> u8 list \<Rightarrow> nat \<Rightarrow> u8 list \<times> 'd gsys \<Rightarrow> (u8 list \<times> 'd gsys) kres" where
  "vg_sleep_loop e req 0 rs = Inr (vg_observe e req rs)"
| "vg_sleep_loop e req (Suc timeout) rs =
     (let (resp, s) = vg_observe e req rs in
      if \<not> vg_pending s then Inr (resp, s)
      else kbind (vg_sleep e s) (\<lambda>s. vg_sleep_loop e req timeout (resp, s)))"

definition vg_setup_descs :: "'d genv \<Rightarrow> u32 \<Rightarrow> u32 \<Rightarrow> virtq \<Rightarrow> virtq" where
  "vg_setup_descs e req_len resp_len q =
     set_desc 1 \<lparr>d_addr = ucast (resp_addr e), d_len = resp_len, d_flags = DESC_F_WRITE, d_next = 0\<rparr>
       (set_desc 0 \<lparr>d_addr = ucast (req_addr e), d_len = req_len, d_flags = DESC_F_NEXT, d_next = 1\<rparr> q)"

text \<open>The part of \<^verbatim>\<open>vg_submit\<close> after the waits; \<open>head\<close> is 0.\<close>

definition vg_complete :: "'d genv \<Rightarrow> u8 list \<Rightarrow> u8 list \<times> 'd gsys \<Rightarrow> int \<times> u8 list \<times> 'd gsys" where
  "vg_complete e req rs =
     (let (resp, s) = vg_observe e req rs in
      if vg_pending s then (-1, resp, snd (vg_mmio_read e VG_MMIO_STATUS s))
      else
        let slot = unat (vg_last_used (gg s)) mod VIRTQ_NUM; dev_id = fst (vused_ring (vg_q (gg s)) ! slot) in
        if dev_id \<noteq> 0 then (-1, resp, s)
        else (0, resp, set_gpu (\<lambda>g. g\<lparr>vg_last_used := vg_last_used g + 1\<rparr>) s))"

text \<open>
  The response buffer has the length of \<open>resp\<close> and holds its bytes when the call is made; the result has
  its bytes at the end.
\<close>

definition vg_submit :: "'d genv \<Rightarrow> u8 list \<Rightarrow> u8 list \<Rightarrow> 'd gsys \<Rightarrow> (int \<times> u8 list \<times> 'd gsys) kres" where
  "vg_submit e req resp s =
     (if \<not> vg_ready (gg s) \<or> req = [] \<or> resp = [] then Inr (-1, resp, s)
      else
        let s = set_gpu (\<lambda>g. g\<lparr>vg_q := vg_setup_descs e (of_nat (length req)) (of_nat (length resp)) (vg_q g)\<rparr>) s;
            s = set_gpu (\<lambda>g. g\<lparr>vg_q := avail_push 0 (vg_q g)\<rparr>) s;
            s = vg_mmio_write e VG_MMIO_QUEUE_NOTIFY 0 s;
            rs = vg_observe e req (vg_poll e req 20000000 (resp, s));
            (resp, s) = rs
        in
        kbind
          (if vg_pending s \<and> current_proc (tab (gk s)) \<noteq> None \<and> current_proc (tab (gk s)) \<noteq> idle_proc (tab (gk s))
           then vg_sleep_loop e req 100 (resp, s) else Inr (resp, s))
          (\<lambda>rs. Inr (vg_complete e req rs)))"

section \<open>Commands\<close>

definition ctrl_hdr :: "u32 \<Rightarrow> u8 list" where
  "ctrl_hdr ty = bytes32 ty @ replicate 20 0"

definition gpu_rect :: "u32 \<Rightarrow> u32 \<Rightarrow> u8 list" where
  "gpu_rect width height = bytes32 0 @ bytes32 0 @ bytes32 width @ bytes32 height"

text \<open>A command with a plain header as its response.\<close>

definition vg_command :: "'d genv \<Rightarrow> u8 list \<Rightarrow> 'd gsys \<Rightarrow> (int \<times> 'd gsys) kres" where
  "vg_command e req s =
     kbind (vg_submit e req (replicate 24 0) s) (\<lambda>(rc, resp, s).
       Inr (if rc < 0 then -1 else if le32 resp = VIRTIO_GPU_RESP_OK_NODATA then 0 else -1, s))"

definition vg_cmd_get_display_info :: "'d genv \<Rightarrow> 'd gsys \<Rightarrow> (int \<times> u8 list \<times> 'd gsys) kres" where
  "vg_cmd_get_display_info e s =
     kbind (vg_submit e (ctrl_hdr 0x0100) (replicate 408 0) s) (\<lambda>(rc, out, s).
       Inr (if rc < 0 then -1 else if le32 out \<noteq> VIRTIO_GPU_RESP_OK_DISPLAY_INFO then -1 else 0, out, s))"

definition vg_cmd_resource_create_2d :: "'d genv \<Rightarrow> u32 \<Rightarrow> u32 \<Rightarrow> u32 \<Rightarrow> 'd gsys \<Rightarrow> (int \<times> 'd gsys) kres" where
  "vg_cmd_resource_create_2d e resource_id width height s =
     vg_command e (ctrl_hdr 0x0101 @ bytes32 resource_id @ bytes32 1 @ bytes32 width @ bytes32 height) s"

definition vg_cmd_resource_attach_backing :: "'d genv \<Rightarrow> u32 \<Rightarrow> u32 \<Rightarrow> u32 \<Rightarrow> 'd gsys \<Rightarrow> (int \<times> 'd gsys) kres" where
  "vg_cmd_resource_attach_backing e resource_id addr len s =
     vg_command e (ctrl_hdr 0x0106 @ bytes32 resource_id @ bytes32 1 @ bytes64 (ucast addr) @ bytes32 len @ bytes32 0) s"

definition vg_cmd_set_scanout :: "'d genv \<Rightarrow> u32 \<Rightarrow> u32 \<Rightarrow> u32 \<Rightarrow> 'd gsys \<Rightarrow> (int \<times> 'd gsys) kres" where
  "vg_cmd_set_scanout e resource_id width height s =
     vg_command e (ctrl_hdr 0x0103 @ gpu_rect width height @ bytes32 0 @ bytes32 resource_id) s"

definition vg_cmd_transfer_to_host_2d :: "'d genv \<Rightarrow> u32 \<Rightarrow> u32 \<Rightarrow> u32 \<Rightarrow> 'd gsys \<Rightarrow> (int \<times> 'd gsys) kres" where
  "vg_cmd_transfer_to_host_2d e resource_id width height s =
     vg_command e (ctrl_hdr 0x0105 @ gpu_rect width height @ bytes64 0 @ bytes32 resource_id @ bytes32 0) s"

definition vg_cmd_resource_flush :: "'d genv \<Rightarrow> u32 \<Rightarrow> u32 \<Rightarrow> u32 \<Rightarrow> 'd gsys \<Rightarrow> (int \<times> 'd gsys) kres" where
  "vg_cmd_resource_flush e resource_id width height s =
     vg_command e (ctrl_hdr 0x0104 @ gpu_rect width height @ bytes32 resource_id @ bytes32 0) s"

definition vg_cmd_resource_unref :: "'d genv \<Rightarrow> u32 \<Rightarrow> 'd gsys \<Rightarrow> 'd gsys kres" where
  "vg_cmd_resource_unref e resource_id s =
     kbind (vg_submit e (ctrl_hdr 0x0102 @ bytes32 resource_id @ bytes32 0) (replicate 24 0) s) (\<lambda>(rc, resp, s). Inr s)"

definition vg_release_backbuffer :: "ld_layout \<Rightarrow> 'd gsys \<Rightarrow> 'd gsys kres" where
  "vg_release_backbuffer L s =
     (if vg_backbuffer (gg s) = 0 \<or> vg_backbuffer_pages (gg s) = 0 then Inr s
      else
        kbind (free_pages L (vg_backbuffer (gg s)) (vg_backbuffer_pages (gg s)) (pa_state (kvm (gk s)))) (\<lambda>pa.
          Inr (set_gpu (\<lambda>g. g\<lparr>vg_backbuffer := 0, vg_backbuffer_pages := 0\<rparr>) (s\<lparr>gk := set_pa pa (gk s)\<rparr>))))"

section \<open>Presenting and accessors\<close>

definition virtio_gpu_present :: "'d genv \<Rightarrow> 'd gsys \<Rightarrow> 'd gsys kres" where
  "virtio_gpu_present e s =
     (if \<not> vg_ready (gg s) then Inr s
      else
        kbind (vg_cmd_transfer_to_host_2d e (vg_resource_id (gg s)) (vg_width_px (gg s)) (vg_height_px (gg s)) s) (\<lambda>(rc, s).
          if rc < 0 then Inr s
          else
            kbind (vg_cmd_resource_flush e (vg_resource_id (gg s)) (vg_width_px (gg s)) (vg_height_px (gg s)) s)
              (\<lambda>(rc, s). Inr s)))"

definition virtio_gpu_is_ready :: "gpu \<Rightarrow> bool" where
  "virtio_gpu_is_ready g = vg_ready g"

definition virtio_gpu_width :: "gpu \<Rightarrow> int" where
  "virtio_gpu_width g = sint (vg_width_px g)"

definition virtio_gpu_height :: "gpu \<Rightarrow> int" where
  "virtio_gpu_height g = sint (vg_height_px g)"

definition virtio_gpu_pitch :: "gpu \<Rightarrow> int" where
  "virtio_gpu_pitch g = sint (vg_pitch_px g)"

definition virtio_gpu_backbuffer :: "gpu \<Rightarrow> u32" where
  "virtio_gpu_backbuffer g = (if \<not> vg_ready g then 0 else vg_backbuffer g)"

section \<open>Initialisation\<close>

fun vg_probe :: "'d genv \<Rightarrow> nat list \<Rightarrow> 'd \<Rightarrow> u32 \<times> 'd" where
  "vg_probe e [] d = (0, d)"
| "vg_probe e (i # is) d =
     (let dev_base = virtio_mmio_base i; (magic, d) = bus_read e dev_base d in
      if magic = VIRTIO_MAGIC then
        let (dev, d) = bus_read e (dev_base + 8) d in
        if dev = 16 then (dev_base, d) else vg_probe e is d
      else vg_probe e is d)"

text \<open>The error code of a failed step goes to \<^verbatim>\<open>vg_last_error\<close>; \<open>None\<close> means that the step succeeded.\<close>

definition vg_negotiate :: "'d genv \<Rightarrow> 'd gsys \<Rightarrow> int option \<times> 'd gsys" where
  "vg_negotiate e s =
     (let s = vg_mmio_writes e [(VG_MMIO_STATUS, 0), (VG_MMIO_STATUS, 1), (VG_MMIO_STATUS, 3), (0x014, 0)] s;
          (lo, s) = vg_mmio_read e 0x010 s;
          s = vg_mmio_write e 0x014 1 s;
          (hi, s) = vg_mmio_read e 0x010 s;
          dev_features = ucast lo OR push_bit 32 (ucast hi) :: u64
      in
      if dev_features AND push_bit 32 1 = 0 then (Some 7, s)
      else
        let drv_features = push_bit 32 1 :: u64;
            s = vg_mmio_writes e
                  [(0x024, 0), (0x020, ucast drv_features), (0x024, 1), (0x020, ucast (drop_bit 32 drv_features)),
                   (VG_MMIO_STATUS, 11)] s;
            (status, s) = vg_mmio_read e VG_MMIO_STATUS s
        in
        if status AND 8 = 0 then (Some 8, s) else (None, s))"

definition vg_queue_setup :: "'d genv \<Rightarrow> 'd gsys \<Rightarrow> int option \<times> 'd gsys" where
  "vg_queue_setup e s =
     (let s = vg_mmio_write e 0x030 0 s;
          (qmax, s) = vg_mmio_read e 0x034 s
      in
      if qmax < of_nat VIRTQ_NUM then (Some 2, s)
      else
        let s = vg_mmio_write e 0x038 (of_nat VIRTQ_NUM) s;
            s = set_gpu (\<lambda>g. g\<lparr>vg_q := zero_virtq, vg_last_used := 0\<rparr>) s;
            s = vg_mmio_writes e
                  [(0x080, desc_addr e), (0x084, 0), (0x090, avail_addr e), (0x094, 0), (0x0a0, used_addr e), (0x0a4, 0),
                   (0x044, 1), (VG_MMIO_STATUS, 15)] s
        in (None, set_gpu (\<lambda>g. g\<lparr>vg_ready := True, vg_waitq := waitq_init (vg_waitq g)\<rparr>) s))"

text \<open>The first enabled mode with a size; a mode is 24 bytes and the modes start after the header.\<close>

fun vg_first_mode :: "u8 list \<Rightarrow> nat list \<Rightarrow> u32 \<times> u32" where
  "vg_first_mode out [] = (0, 0)"
| "vg_first_mode out (i # is) =
     (let m = drop (24 + 24 * i) out; w = le32 (drop 8 m); h = le32 (drop 12 m) in
      if le32 (drop 16 m) \<noteq> 0 \<and> 0 < w \<and> 0 < h then (w, h) else vg_first_mode out is)"

definition vg_choose_size :: "u8 list \<Rightarrow> u32 \<times> u32" where
  "vg_choose_size out =
     (let (w, h) = vg_first_mode out [0..<16];
          (w, h) = (if w = 0 \<or> h = 0 then (640, 480) else (w, h))
      in (if VG_FB_MAX_W < w then VG_FB_MAX_W else w, if VG_FB_MAX_H < h then VG_FB_MAX_H else h))"

text \<open>An error exit: \<^verbatim>\<open>vg_ready = 0\<close> and the code.\<close>

definition vg_fail :: "int \<Rightarrow> 'd gsys \<Rightarrow> (int \<times> 'd gsys) kres" where
  "vg_fail code s = Inr (-1, set_gpu (\<lambda>g. g\<lparr>vg_ready := False, vg_last_error := code\<rparr>) s)"

definition vg_undo :: "ld_layout \<Rightarrow> 'd genv \<Rightarrow> int \<Rightarrow> 'd gsys \<Rightarrow> (int \<times> 'd gsys) kres" where
  "vg_undo L e code s =
     kbind (vg_cmd_resource_unref e (vg_resource_id (gg s)) s) (\<lambda>s.
     kbind (vg_release_backbuffer L s) (vg_fail code))"

definition vg_setup_scanout :: "ld_layout \<Rightarrow> 'd genv \<Rightarrow> u32 \<Rightarrow> 'd gsys \<Rightarrow> (int \<times> 'd gsys) kres" where
  "vg_setup_scanout L e bytes s =
     kbind (vg_cmd_resource_create_2d e (vg_resource_id (gg s)) (vg_width_px (gg s)) (vg_height_px (gg s)) s) (\<lambda>(rc, s).
       if rc < 0 then kbind (vg_release_backbuffer L s) (vg_fail 4)
       else
         kbind (vg_cmd_resource_attach_backing e (vg_resource_id (gg s)) (vg_backbuffer (gg s)) bytes s) (\<lambda>(rc, s).
           if rc < 0 then vg_undo L e 5 s
           else
             kbind (vg_cmd_set_scanout e (vg_resource_id (gg s)) (vg_width_px (gg s)) (vg_height_px (gg s)) s) (\<lambda>(rc, s).
               if rc < 0 then vg_undo L e 6 s
               else
                 let pa = pa_state (kvm (gk s));
                     s = s\<lparr>gk := set_pa (pa\<lparr>pmem := memset (vg_backbuffer (gg s)) 0 bytes (pmem pa)\<rparr>) (gk s)\<rparr>
                 in
                 kbind (virtio_gpu_present e s) (\<lambda>s. Inr (0, set_gpu (\<lambda>g. g\<lparr>vg_last_error := 0\<rparr>) s)))))"

definition vg_setup_display :: "ld_layout \<Rightarrow> 'd genv \<Rightarrow> 'd gsys \<Rightarrow> (int \<times> 'd gsys) kres" where
  "vg_setup_display L e s =
     kbind (vg_cmd_get_display_info e s) (\<lambda>(rc, out, s).
       if rc < 0 then vg_fail 3 s
       else
         let (w, h) = vg_choose_size out;
             s = set_gpu (\<lambda>g. g\<lparr>vg_width_px := w, vg_height_px := h, vg_pitch_px := w * 4, vg_resource_id := 1\<rparr>) s;
             bytes = vg_pitch_px (gg s) * vg_height_px (gg s);
             s = set_gpu (\<lambda>g. g\<lparr>vg_backbuffer_pages := (bytes + PAGE_SIZE - 1) div PAGE_SIZE\<rparr>) s
         in
         kbind (alloc_pages_try L (vg_backbuffer_pages (gg s)) (pa_state (kvm (gk s)))) (\<lambda>(bb_pa, pa).
           let s = s\<lparr>gk := set_pa pa (gk s)\<rparr> in
           if bb_pa = 0 \<or> bb_pa < 0x80000000 then vg_fail 9 s
           else vg_setup_scanout L e bytes (set_gpu (\<lambda>g. g\<lparr>vg_backbuffer := bb_pa\<rparr>) s)))"

definition vg_error :: "int \<Rightarrow> 'd gsys \<Rightarrow> (int \<times> 'd gsys) kres" where
  "vg_error code s = Inr (-1, set_gpu (\<lambda>g. g\<lparr>vg_last_error := code\<rparr>) s)"

definition virtio_gpu_init :: "ld_layout \<Rightarrow> 'd genv \<Rightarrow> 'd gsys \<Rightarrow> (int \<times> 'd gsys) kres" where
  "virtio_gpu_init L e s =
     (if vg_ready (gg s) then Inr (0, s)
      else
        let s = set_gpu (\<lambda>g. g\<lparr>vg_last_error := 0, vg_resource_id := 0\<rparr>) s in
        kbind (vg_release_backbuffer L s) (\<lambda>s.
          let (dev_base, d) = vg_probe e [0..<32] (gd s);
              s = set_gpu (\<lambda>g. g\<lparr>vg_base := dev_base\<rparr>) (s\<lparr>gd := d\<rparr>)
          in
          if dev_base = 0 then vg_error 1 s
          else
            (case vg_negotiate e s of
               (Some code, s) \<Rightarrow> vg_error code s
             | (None, s) \<Rightarrow>
                 (case vg_queue_setup e s of
                    (Some code, s) \<Rightarrow> vg_error code s
                  | (None, s) \<Rightarrow> vg_setup_display L e s))))"

section \<open>Interrupts\<close>

definition virtio_gpu_handle_irq :: "'d genv \<Rightarrow> kevents \<Rightarrow> 'd gsys \<Rightarrow> (kevents \<times> 'd gsys) kres" where
  "virtio_gpu_handle_irq e ev s =
     (if vg_base (gg s) = 0 then Inr (ev, s)
      else
        let (st, s) = vg_mmio_read e VG_MMIO_INTERRUPT_STATUS s in
        if st = 0 then Inr (ev, s)
        else
          let s = vg_mmio_write e VG_MMIO_INTERRUPT_ACK st s in
          kbind (waitq_wake_all (vg_waitq (gg s)) (tab (gk s)) (khart (gk s))) (\<lambda>(q, k, h).
          kbind (kevent_push KEVENT_TYPE_GPU_IRQ st 0 0 0 h ev) (\<lambda>(rc, h, ev).
            Inr (ev, s\<lparr>gg := (gg s)\<lparr>vg_waitq := q\<rparr>, gk := (gk s)\<lparr>tab := k, khart := h\<rparr>\<rparr>))))"

end
