(* ===== verification/Syscall.thy ===== *)
theory Syscall
  imports Process Ramfs Console Virtio_Gpu
begin

text \<open>
  System calls: the adapters of \<^verbatim>\<open>kernel/syscall\<close>, the dispatcher, and \<^verbatim>\<open>arch_handle_ecall\<close> of
  \<^verbatim>\<open>arch/riscv32/trap/syscall.c\<close>. The state of the kernel puts the components together. A call returns a
  value, or it switches to another process and goes on later, or its process is gone; what a suspended
  call has left to do is a value of \<open>pending\<close>. A system call is made by a process, so \<^verbatim>\<open>current_proc\<close> is not
  null; the file calls follow it without a check.
\<close>

section \<open>The state of the kernel\<close>

record 'd kernel =
  kg :: "'d gsys"
  kfs :: ramfs
  kcon :: console
  kevs :: kevents

text \<open>
  What the kernel is linked with and runs on: the layout of the image, the GPU and its environment, the
  block device below the ext4 image, the character that the firmware returns, and the bytes that fill
  the hole in \<^verbatim>\<open>struct sys_event\<close>.
\<close>

record 'd kenv =
  klayout :: ld_layout
  kgenv :: "'d genv"
  kblk :: blockdev
  ksbi :: int
  khole :: "u8 list"

definition ksys :: "'d kernel \<Rightarrow> sys" where
  "ksys K = gk (kg K)"

definition set_ksys :: "sys \<Rightarrow> 'd kernel \<Rightarrow> 'd kernel" where
  "set_ksys S K = K\<lparr>kg := (kg K)\<lparr>gk := S\<rparr>\<rparr>"

definition kpa :: "'d kernel \<Rightarrow> page_alloc" where
  "kpa K = pa_state (kvm (ksys K))"

definition set_kpa :: "page_alloc \<Rightarrow> 'd kernel \<Rightarrow> 'd kernel" where
  "set_kpa pa K = set_ksys (set_pa pa (ksys K)) K"

definition kcur :: "'d kernel \<Rightarrow> process option" where
  "kcur K = cur (ksys K)"

definition ksatp :: "'d kernel \<Rightarrow> u32" where
  "ksatp K = satp (khart (ksys K))"

definition set_kcur :: "process option \<Rightarrow> 'd kernel \<Rightarrow> 'd kernel" where
  "set_kcur p K =
     (case (current_proc (tab (ksys K)), p) of
        (Some c, Some p) \<Rightarrow> set_ksys (set_proc c p (ksys K)) K
      | _ \<Rightarrow> K)"

definition kfds :: "'d kernel \<Rightarrow> file_desc list kres" where
  "kfds K = (case kcur K of None \<Rightarrow> Inl Unexpected_trap | Some p \<Rightarrow> Inr (fds p))"

definition set_kfds :: "file_desc list \<Rightarrow> 'd kernel \<Rightarrow> 'd kernel" where
  "set_kfds tbl K = set_kcur (map_option (\<lambda>p. p\<lparr>fds := tbl\<rparr>) (kcur K)) K"

datatype pending = P_yield | P_waitpid int u32 u32

datatype sys_outcome = Ret int | Suspend pending | Gone

type_synonym 'd sysret = "(sys_outcome \<times> 'd kernel) kres"

text \<open>A call that always returns.\<close>

definition returns :: "(int \<times> 'd kernel) kres \<Rightarrow> 'd sysret" where
  "returns m = kbind m (\<lambda>(v, K). Inr (Ret v, K))"

section \<open>Devices and events\<close>

definition sys_putchar :: "int \<Rightarrow> 'd kernel \<Rightarrow> int \<times> 'd kernel" where
  "sys_putchar ch K = (0, K\<lparr>kcon := putchar (of_int ch) (kcon K)\<rparr>)"

definition sys_getchar :: "'d kenv \<Rightarrow> 'd kernel \<Rightarrow> (int \<times> 'd kernel) kres" where
  "sys_getchar E K = kbind (getchar (ksbi E) (kcon K)) (\<lambda>(ch, c). Inr (ch, K\<lparr>kcon := c\<rparr>))"

definition kcopy_to_user :: "'d kenv \<Rightarrow> u32 \<Rightarrow> u8 list \<Rightarrow> 'd kernel \<Rightarrow> (int \<times> 'd kernel) kres" where
  "kcopy_to_user E dst bs K =
     kbind (copy_to_user (klayout E) (kcur K) (ksatp K) dst bs (kpa K)) (\<lambda>(rc, pa). Inr (rc, set_kpa pa K))"

definition gpu_info_bytes :: "gpu \<Rightarrow> u8 list" where
  "gpu_info_bytes g =
     bytes32 (of_int (virtio_gpu_width g)) @ bytes32 (of_int (virtio_gpu_height g)) @ bytes32 (of_int (virtio_gpu_pitch g)) @
     bytes32 1 @ bytes32 0"

definition sys_gpu_info :: "'d kenv \<Rightarrow> u32 \<Rightarrow> 'd kernel \<Rightarrow> (int \<times> 'd kernel) kres" where
  "sys_gpu_info E user_info K = kcopy_to_user E user_info (gpu_info_bytes (gg (kg K))) K"

definition sys_gpu_flush :: "'d kenv \<Rightarrow> 'd kernel \<Rightarrow> (int \<times> 'd kernel) kres" where
  "sys_gpu_flush E K =
     (if \<not> virtio_gpu_is_ready (gg (kg K)) then Inr (-1, K)
      else kbind (virtio_gpu_present (kgenv E) (kg K)) (\<lambda>g. Inr (0, K\<lparr>kg := g\<rparr>)))"

text \<open>\<^verbatim>\<open>struct sys_event\<close> is 32 bytes: five words, a hole of four bytes, and the number.\<close>

definition sys_event_bytes :: "u8 list \<Rightarrow> k_event \<Rightarrow> u8 list" where
  "sys_event_bytes hole ev =
     bytes32 (ev_type ev) @ bytes32 (ev_a ev) @ bytes32 (ev_b ev) @ bytes32 (ev_c ev) @ bytes32 (ev_d ev) @
     hole @ bytes64 (ev_seq ev)"

definition sys_get_event :: "'d kenv \<Rightarrow> u32 \<Rightarrow> 'd kernel \<Rightarrow> (int \<times> 'd kernel) kres" where
  "sys_get_event E user_event K =
     (if user_event = 0 \<or> \<not> proc_user_writable_ok (kcur K) user_event 32 then Inr (-1, K)
      else
        kbind (kevent_pop True (khart (ksys K)) (kevs K)) (\<lambda>(rc, ev, h, k).
          let K = set_ksys ((ksys K)\<lparr>khart := h\<rparr>) (K\<lparr>kevs := k\<rparr>) in
          case ev of
            None \<Rightarrow> Inr (rc, K)
          | Some ev \<Rightarrow>
              if rc \<le> 0 then Inr (rc, K)
              else
                kbind (kcopy_to_user E user_event (sys_event_bytes (khole E) ev) K) (\<lambda>(rc, K).
                  Inr (if rc < 0 then -1 else 1, K))))"

definition sys_wmctl :: "int \<Rightarrow> u32 \<Rightarrow> int" where
  "sys_wmctl cmd user_arg = -1"

section \<open>Files\<close>

abbreviation USER_PATH_MAX :: u32 where "USER_PATH_MAX \<equiv> 256"

text \<open>A path from user memory; the bytes end with the terminator when the copy succeeds.\<close>

definition kcopy_path :: "'d kenv \<Rightarrow> u32 \<Rightarrow> 'd kernel \<Rightarrow> (cstr option \<times> 'd kernel) kres" where
  "kcopy_path E user_path K =
     kbind (copy_string_from_user (klayout E) (kcur K) (ksatp K) user_path USER_PATH_MAX (kpa K)) (\<lambda>(rc, bs, pa).
       Inr (if rc < 0 then None else Some (butlast bs), set_kpa pa K))"

definition sys_open :: "'d kenv \<Rightarrow> u32 \<Rightarrow> u32 \<Rightarrow> 'd kernel \<Rightarrow> (int \<times> 'd kernel) kres" where
  "sys_open E user_path flags K =
     kbind (kcopy_path E user_path K) (\<lambda>(path, K).
       case path of
         None \<Rightarrow> Inr (-1, K)
       | Some kpath \<Rightarrow>
           kbind (kfds K) (\<lambda>tbl.
             let (rc, tbl, f) = fs_open kpath flags tbl (kfs K) in Inr (rc, set_kfds tbl (K\<lparr>kfs := f\<rparr>))))"

definition sys_close :: "int \<Rightarrow> 'd kernel \<Rightarrow> (int \<times> 'd kernel) kres" where
  "sys_close fd K = kbind (kfds K) (\<lambda>tbl. let (rc, tbl) = fs_close fd tbl in Inr (rc, set_kfds tbl K))"

definition sys_read :: "'d kenv \<Rightarrow> int \<Rightarrow> u32 \<Rightarrow> u32 \<Rightarrow> 'd kernel \<Rightarrow> (int \<times> 'd kernel) kres" where
  "sys_read E fd user_buf len K =
     (if len \<noteq> 0 \<and> \<not> proc_user_writable_ok (kcur K) user_buf len then Inr (-1, K)
      else
        kbind (kfds K) (\<lambda>tbl.
        kbind (fs_read (kblk E) (store_bytes (klayout E) (kcur K) (ksatp K)) fd user_buf len (kpa K) tbl (kfs K))
          (\<lambda>(rc, pa, tbl, f). Inr (rc, set_kfds tbl (set_kpa pa (K\<lparr>kfs := f\<rparr>))))))"

definition sys_write :: "'d kenv \<Rightarrow> int \<Rightarrow> u32 \<Rightarrow> u32 \<Rightarrow> 'd kernel \<Rightarrow> (int \<times> 'd kernel) kres" where
  "sys_write E fd user_buf len K =
     (if len \<noteq> 0 \<and> \<not> proc_user_readable_ok (kcur K) user_buf len then Inr (-1, K)
      else
        kbind (kfds K) (\<lambda>tbl.
        kbind (fs_write (load_bytes (klayout E) (kcur K) (ksatp K)) fd user_buf len (kpa K) tbl (kfs K))
          (\<lambda>(rc, pa, tbl, f). Inr (rc, set_kfds tbl (set_kpa pa (K\<lparr>kfs := f\<rparr>))))))"

text \<open>The descriptor tables of all processes.\<close>

definition set_all_fds :: "file_desc list list \<Rightarrow> process list \<Rightarrow> process list" where
  "set_all_fds tbls ps = map2 (\<lambda>p tbl. p\<lparr>fds := tbl\<rparr>) ps tbls"

definition sys_unlink :: "'d kenv \<Rightarrow> u32 \<Rightarrow> 'd kernel \<Rightarrow> (int \<times> 'd kernel) kres" where
  "sys_unlink E user_path K =
     kbind (kcopy_path E user_path K) (\<lambda>(path, K).
       case path of
         None \<Rightarrow> Inr (-1, K)
       | Some kpath \<Rightarrow>
           let S = ksys K; ps = procs (tab S);
               (rc, tbls, f) = fs_unlink kpath (map fds ps) (kfs K)
           in Inr (rc, set_ksys (S\<lparr>tab := (tab S)\<lparr>procs := set_all_fds tbls ps\<rparr>\<rparr>) (K\<lparr>kfs := f\<rparr>)))"

definition sys_rename :: "'d kenv \<Rightarrow> u32 \<Rightarrow> u32 \<Rightarrow> 'd kernel \<Rightarrow> (int \<times> 'd kernel) kres" where
  "sys_rename E user_old_path user_new_path K =
     kbind (kcopy_path E user_old_path K) (\<lambda>(old, K).
       case old of
         None \<Rightarrow> Inr (-1, K)
       | Some kold \<Rightarrow>
           kbind (kcopy_path E user_new_path K) (\<lambda>(new, K).
             case new of
               None \<Rightarrow> Inr (-1, K)
             | Some knew \<Rightarrow> let (rc, f) = fs_rename kold knew (kfs K) in Inr (rc, K\<lparr>kfs := f\<rparr>)))"

definition sys_listdir :: "'d kenv \<Rightarrow> u32 \<Rightarrow> u32 \<Rightarrow> 'd kernel \<Rightarrow> (int \<times> 'd kernel) kres" where
  "sys_listdir E user_buf len K =
     (if len \<noteq> 0 \<and> \<not> proc_user_writable_ok (kcur K) user_buf len then Inr (-1, K)
      else
        let (rc, bs) = fs_listdir user_buf len (kfs K) in
        kbind (store_bytes (klayout E) (kcur K) (ksatp K) user_buf bs (kpa K)) (\<lambda>pa. Inr (rc, set_kpa pa K)))"

section \<open>Memory\<close>

definition sys_mmap :: "'d kenv \<Rightarrow> u32 \<Rightarrow> u32 \<Rightarrow> u32 \<Rightarrow> u32 \<Rightarrow> 'd kernel \<Rightarrow> (int \<times> 'd kernel) kres" where
  "sys_mmap E user_addr len prot flags K =
     kbind (proc_mmap (klayout E) (kcur K) user_addr len prot flags (kpa K)) (\<lambda>(rc, p, pa).
       Inr (rc, set_kcur p (set_kpa pa K)))"

definition sys_munmap :: "'d kenv \<Rightarrow> u32 \<Rightarrow> u32 \<Rightarrow> 'd kernel \<Rightarrow> (int \<times> 'd kernel) kres" where
  "sys_munmap E user_addr len K =
     kbind (proc_munmap (klayout E) (kcur K) user_addr len (kpa K)) (\<lambda>(rc, p, pa). Inr (rc, set_kcur p (set_kpa pa K)))"

section \<open>Processes\<close>

definition sys_yield :: "'d kernel \<Rightarrow> 'd sysret" where
  "sys_yield K = kbind (sys_do_yield (ksys K)) (\<lambda>S. Inr (Suspend P_yield, set_ksys S K))"

definition sys_exit :: "int \<Rightarrow> 'd kernel \<Rightarrow> 'd sysret" where
  "sys_exit status K = kbind (proc_exit status (ksys K)) (\<lambda>S. Inr (Gone, set_ksys S K))"

definition sys_fork :: "'d kenv \<Rightarrow> 'd kernel \<Rightarrow> (int \<times> 'd kernel) kres" where
  "sys_fork E K = kbind (proc_fork (klayout E) (ksys K)) (\<lambda>(rc, S). Inr (rc, set_ksys S K))"

definition sys_exec :: "'d kenv \<Rightarrow> u32 \<Rightarrow> u32 \<Rightarrow> 'd kernel \<Rightarrow> (int \<times> 'd kernel) kres" where
  "sys_exec E entry_pc argv K = kbind (proc_exec (klayout E) entry_pc argv (ksys K)) (\<lambda>(rc, S). Inr (rc, set_ksys S K))"

text \<open>What \<^verbatim>\<open>sys_waitpid\<close> does with the result of \<^verbatim>\<open>proc_waitpid\<close>; a reaped child has stored its status.\<close>

definition waitpid_done :: "'d kenv \<Rightarrow> u32 \<Rightarrow> int \<Rightarrow> int option \<Rightarrow> 'd kernel \<Rightarrow> 'd sysret" where
  "waitpid_done E status_ptr pid_result st K =
     (if 0 < pid_result \<and> status_ptr \<noteq> 0 then
        kbind (kcopy_to_user E status_ptr (bytes32 (of_int (case st of None \<Rightarrow> 0 | Some v \<Rightarrow> v))) K) (\<lambda>(rc, K).
          Inr (Ret (if rc < 0 then -1 else pid_result), K))
      else Inr (Ret pid_result, K))"

definition waitpid_outcome :: "'d kenv \<Rightarrow> int \<Rightarrow> u32 \<Rightarrow> u32 \<Rightarrow> wait_result \<times> sys \<Rightarrow> 'd kernel \<Rightarrow> 'd sysret" where
  "waitpid_outcome E wpid status_ptr options = (\<lambda>(r, S) K.
     (case r of
        Wait_return v st \<Rightarrow> waitpid_done E status_ptr v st (set_ksys S K)
      | Wait_block \<Rightarrow> Inr (Suspend (P_waitpid wpid status_ptr options), set_ksys S K)))"

definition sys_waitpid :: "'d kenv \<Rightarrow> int \<Rightarrow> u32 \<Rightarrow> u32 \<Rightarrow> 'd kernel \<Rightarrow> 'd sysret" where
  "sys_waitpid E wpid status_ptr options K =
     (if status_ptr \<noteq> 0 \<and> \<not> proc_user_writable_ok (kcur K) status_ptr 4 then Inr (Ret (-1), K)
      else
        kbind (proc_waitpid (klayout E) wpid options (ksys K)) (\<lambda>rs. waitpid_outcome E wpid status_ptr options rs K))"

definition sys_wait :: "'d kenv \<Rightarrow> u32 \<Rightarrow> 'd kernel \<Rightarrow> 'd sysret" where
  "sys_wait E status_ptr K = sys_waitpid E (-1) status_ptr 0 K"

text \<open>A suspended call when its process runs again.\<close>

definition sys_resume :: "'d kenv \<Rightarrow> pending \<Rightarrow> 'd kernel \<Rightarrow> 'd sysret" where
  "sys_resume E p K =
     (case p of
        P_yield \<Rightarrow> Inr (Ret 0, K)
      | P_waitpid wpid status_ptr options \<Rightarrow>
          kbind (waitpid_resume (klayout E) wpid options (ksys K)) (\<lambda>rs. waitpid_outcome E wpid status_ptr options rs K))"

section \<open>The dispatcher\<close>

abbreviation SYS_EXEC :: u32 where "SYS_EXEC \<equiv> 6"

text \<open>The flag is \<^verbatim>\<open>context_replaced\<close>.\<close>

definition syscall_dispatch :: "'d kenv \<Rightarrow> u32 \<Rightarrow> u32 list \<Rightarrow> 'd kernel \<Rightarrow> (sys_outcome \<times> bool \<times> 'd kernel) kres" where
  "syscall_dispatch E number args K =
     (let a = (\<lambda>i. args ! i) in
      if number = SYS_EXEC then
        kbind (sys_exec E (a 0) (a 1) K) (\<lambda>(v, K). Inr (Ret v, v = 0, K))
      else
        kbind
          (if number = 1 then returns (Inr (sys_putchar (sint (a 0)) K))
           else if number = 2 then returns (sys_getchar E K)
           else if number = 3 then sys_yield K
           else if number = 4 then sys_exit (sint (a 0)) K
           else if number = 5 then returns (sys_fork E K)
           else if number = 7 then sys_wait E (a 0) K
           else if number = 8 then sys_waitpid E (sint (a 0)) (a 1) (a 2) K
           else if number = 20 then returns (sys_open E (a 0) (a 1) K)
           else if number = 21 then returns (sys_close (sint (a 0)) K)
           else if number = 22 then returns (sys_read E (sint (a 0)) (a 1) (a 2) K)
           else if number = 23 then returns (sys_write E (sint (a 0)) (a 1) (a 2) K)
           else if number = 24 then returns (sys_unlink E (a 0) K)
           else if number = 25 then returns (sys_rename E (a 0) (a 1) K)
           else if number = 26 then returns (sys_listdir E (a 0) (a 1) K)
           else if number = 40 then returns (sys_mmap E (a 0) (a 1) (a 2) (a 3) K)
           else if number = 41 then returns (sys_munmap E (a 0) (a 1) K)
           else if number = 60 then returns (sys_gpu_info E (a 0) K)
           else if number = 61 then returns (sys_gpu_flush E K)
           else if number = 62 then returns (sys_get_event E (a 0) K)
           else if number = 63 then Inr (Ret (sys_wmctl (sint (a 0)) (a 1)), K)
           else Inr (Ret (-1), K))
          (\<lambda>(r, K). Inr (r, False, K)))"

section \<open>The trap for a system call\<close>

text \<open>
  How a trap ends: return with a frame; switched away in a call of the process with this index, made
  from user mode or not, with this frame on its kernel stack; or the process is gone.
\<close>

datatype trap_exit =
    To_frame trap_frame
  | Switched pending "nat option" bool trap_frame
  | Exited

definition save_context :: "nat option \<Rightarrow> trap_frame \<Rightarrow> 'd kernel \<Rightarrow> 'd kernel" where
  "save_context proc f K =
     (case proc of
        None \<Rightarrow> K
      | Some c \<Rightarrow> set_ksys (set_proc c ((proc_at c (ksys K))\<lparr>p_trap_frame := f, p_sepc := tf_sepc f\<rparr>) (ksys K)) K)"

definition ecall_enter :: "nat option \<Rightarrow> trap_frame \<Rightarrow> 'd kernel \<Rightarrow> 'd kernel" where
  "ecall_enter proc f K =
     (case proc of
        None \<Rightarrow> K
      | Some c \<Rightarrow>
          let K = save_context proc f K;
              S = set_proc c ((proc_at c (ksys K))\<lparr>has_trap_frame := True\<rparr>) (ksys K)
          in set_ksys (S\<lparr>khart := (khart S)\<lparr>sstatus := sstatus (khart S) OR SSTATUS_SUM\<rparr>\<rparr>) K)"

text \<open>After the call has returned.\<close>

definition ecall_finish :: "nat option \<Rightarrow> bool \<Rightarrow> int \<Rightarrow> bool \<Rightarrow> trap_frame \<Rightarrow> 'd kernel \<Rightarrow> trap_frame \<times> 'd kernel" where
  "ecall_finish proc from_user v replaced f K =
     (case (if from_user then proc else None) of
        None \<Rightarrow> (f\<lparr>tf_a0 := of_int v\<rparr>, K)
      | Some c \<Rightarrow>
          let f = (if replaced then p_trap_frame (proc_at c (ksys K)) else f\<lparr>tf_a0 := of_int v\<rparr>)
          in (f, save_context proc f K))"

definition ecall_outcome ::
    "nat option \<Rightarrow> bool \<Rightarrow> trap_frame \<Rightarrow> sys_outcome \<times> bool \<times> 'd kernel \<Rightarrow> (trap_exit \<times> 'd kernel) kres" where
  "ecall_outcome proc from_user f = (\<lambda>(r, replaced, K).
     case r of
       Ret v \<Rightarrow> let (f, K) = ecall_finish proc from_user v replaced f K in Inr (To_frame f, K)
     | Suspend p \<Rightarrow> Inr (Switched p proc from_user f, K)
     | Gone \<Rightarrow> Inr (Exited, K))"

definition arch_handle_ecall :: "'d kenv \<Rightarrow> trap_frame \<Rightarrow> 'd kernel \<Rightarrow> (trap_exit \<times> 'd kernel) kres" where
  "arch_handle_ecall E f K =
     (let number = tf_a7 f;
          args = [tf_a0 f, tf_a1 f, tf_a2 f, tf_a3 f, tf_a4 f, tf_a5 f];
          proc = current_proc (tab (ksys K));
          from_user = (tf_sstatus f AND SSTATUS_SPP = 0);
          f = f\<lparr>tf_sepc := tf_sepc f + 4\<rparr>;
          K = (if from_user then ecall_enter proc f K else K)
      in kbind (syscall_dispatch E number args K) (ecall_outcome proc from_user f))"

text \<open>The rest of \<^verbatim>\<open>arch_handle_ecall\<close> when a suspended process is scheduled again.\<close>

definition ecall_resume :: "'d kenv \<Rightarrow> pending \<Rightarrow> nat option \<Rightarrow> bool \<Rightarrow> trap_frame \<Rightarrow> 'd kernel \<Rightarrow> (trap_exit \<times> 'd kernel) kres" where
  "ecall_resume E p proc from_user f K =
     kbind (sys_resume E p K) (\<lambda>(r, K). ecall_outcome proc from_user f (r, False, K))"

end
