(* ===== verification/Virtio_Blk.thy ===== *)
theory Virtio_Blk
  imports Virtio Sched
begin

text \<open>
  The block device driver, \<^verbatim>\<open>drivers/virtio/virtio_blk.c\<close>. \<^verbatim>\<open>blk_read\<close> is modelled by its parts between the
  places where the process may sleep: claiming a slot, posting the request, and looking for its
  completion. The registers of the device are a bus; what the device does with a posted request belongs
  to the properties. The \<open>blk_slots\<close> array lies at an address of the linked image; a slot takes 19 bytes.
\<close>

section \<open>State\<close>

record blk_slot =
  req_type :: u32
  req_reserved :: u32
  req_sector :: u64
  slot_status :: u8
  slot_in_use :: bool
  slot_done :: bool

record blk =
  bq :: virtq
  blk_slots :: "blk_slot list"
  blk_used_idx :: u16
  blk_ready :: bool
  virtio_base :: u32
  blk_waitq :: waitq
  blk_lock :: u32

abbreviation BLK_REQ_MAX :: nat where "BLK_REQ_MAX \<equiv> 8"

definition zero_slot :: blk_slot where
  "zero_slot = \<lparr>req_type = 0, req_reserved = 0, req_sector = 0, slot_status = 0, slot_in_use = False, slot_done = False\<rparr>"

definition set_slot :: "nat \<Rightarrow> blk_slot \<Rightarrow> blk \<Rightarrow> blk" where
  "set_slot i x b = b\<lparr>blk_slots := (blk_slots b)[i := x]\<rparr>"

definition slot_req_addr :: "u32 \<Rightarrow> nat \<Rightarrow> u32" where
  "slot_req_addr slots_addr i = slots_addr + of_nat (19 * i)"

definition slot_status_addr :: "u32 \<Rightarrow> nat \<Rightarrow> u32" where
  "slot_status_addr slots_addr i = slots_addr + of_nat (19 * i) + 16"

definition blk_head_for_slot :: "nat \<Rightarrow> u16" where
  "blk_head_for_slot slot_idx = of_nat (slot_idx * 3)"

section \<open>Completed requests\<close>

text \<open>One entry of the used ring; an entry that is not the head of a slot in use is skipped.\<close>

definition blk_process_one :: "blk \<Rightarrow> blk" where
  "blk_process_one b =
     (let ring_idx = unat (blk_used_idx b) mod VIRTQ_NUM;
          head = fst (vused_ring (bq b) ! ring_idx);
          b = b\<lparr>blk_used_idx := blk_used_idx b + 1\<rparr>
      in
      if head mod 3 \<noteq> 0 then b
      else
        let slot_idx = head div 3 in
        if of_nat BLK_REQ_MAX \<le> slot_idx then b
        else if \<not> slot_in_use (blk_slots b ! unat slot_idx) then b
        else set_slot (unat slot_idx) ((blk_slots b ! unat slot_idx)\<lparr>slot_done := True\<rparr>) b)"

lemma process_one_idx: "blk_used_idx (blk_process_one b) = blk_used_idx b + 1" "bq (blk_process_one b) = bq b"
  by (simp_all add: blk_process_one_def set_slot_def Let_def)

text \<open>The loop ends because the 16-bit index comes round to \<^verbatim>\<open>used.idx\<close>.\<close>

function blk_process_used_locked :: "blk \<Rightarrow> blk" where
  "blk_process_used_locked b =
     (if blk_used_idx b \<noteq> vused_idx (bq b) then blk_process_used_locked (blk_process_one b) else b)"
  by pat_completeness auto
termination
proof (relation "measure (\<lambda>b. unat (vused_idx (bq b) - blk_used_idx b))")
  fix b :: blk
  assume "blk_used_idx b \<noteq> vused_idx (bq b)"
  then have "vused_idx (bq b) - blk_used_idx b \<noteq> 0"
    by simp
  then have "unat (vused_idx (bq b) - blk_used_idx b - 1) < unat (vused_idx (bq b) - blk_used_idx b)"
    by (simp add: unat_minus_one unat_gt_0)
  then show "(blk_process_one b, b) \<in> measure (\<lambda>b. unat (vused_idx (bq b) - blk_used_idx b))"
    by (simp add: process_one_idx diff_diff_eq)
qed simp

declare blk_process_used_locked.simps [simp del]

section \<open>Initialisation\<close>

fun blk_probe :: "('d, 'z) bus_scheme \<Rightarrow> nat list \<Rightarrow> 'd \<Rightarrow> u32 \<times> 'd" where
  "blk_probe e [] d = (0, d)"
| "blk_probe e (i # is) d =
     (let dev_base = virtio_mmio_base i;
          (magic, d) = bus_read e dev_base d;
          (version, d) = bus_read e (dev_base + 4) d;
          (device, d) = bus_read e (dev_base + 8) d
      in if magic = VIRTIO_MAGIC \<and> (version = 1 \<or> version = 2) \<and> device = 2 then (dev_base, d) else blk_probe e is d)"

text \<open>The three addresses are those of the descriptors, the available and the used ring.\<close>

definition blk_init :: "('d, 'z) bus_scheme \<Rightarrow> u32 \<Rightarrow> u32 \<Rightarrow> u32 \<Rightarrow> blk \<times> 'd \<Rightarrow> int \<times> blk \<times> 'd" where
  "blk_init e desc avail used = (\<lambda>(b, d).
     let (dev_base, d) = blk_probe e [0..<8] d; b = b\<lparr>virtio_base := dev_base\<rparr> in
     if dev_base = 0 then (-1, b, d)
     else
       let d = bus_writes e dev_base
                 [(0x070, 0), (0x070, 1), (0x070, 3), (0x024, 0), (0x020, 0), (0x024, 1), (0x020, 0), (0x070, 11)] d;
           (status, d) = bus_read e (dev_base + 0x070) d
       in
       if status AND 8 = 0 then (-1, b, d)
       else
         let d = bus_write e (dev_base + 0x030) 0 d; (qmax, d) = bus_read e (dev_base + 0x034) d in
         if qmax < of_nat VIRTQ_NUM then (-1, b, d)
         else if VIRTQ_NUM < BLK_REQ_MAX * 3 then (-1, b, d)
         else
           let d = bus_write e (dev_base + 0x038) (of_nat VIRTQ_NUM) d;
               b = b\<lparr>bq := zero_virtq\<rparr>;
               d = bus_writes e dev_base
                     [(0x080, desc), (0x084, 0), (0x090, avail), (0x094, 0), (0x0a0, used), (0x0a4, 0), (0x044, 1), (0x070, 15)] d;
               b = b\<lparr>blk_used_idx := 0, blk_ready := True, blk_slots := replicate BLK_REQ_MAX zero_slot,
                     blk_waitq := waitq_init (blk_waitq b)\<rparr>
           in (0, b, d))"

section \<open>Reading a sector\<close>

text \<open>The loop that looks for a free slot: one pass, with the lock held. \<open>None\<close> means that the caller has to wait.\<close>

definition blk_claim :: "blk \<Rightarrow> hart \<Rightarrow> (nat option \<times> blk \<times> hart) kres" where
  "blk_claim b h =
     kbind (spin_lock_irqsave (blk_lock b) h) (\<lambda>(s, lk, h).
       let b = blk_process_used_locked (b\<lparr>blk_lock := lk\<rparr>);
           slot_idx = first_idx (\<lambda>x. \<not> slot_in_use x) (blk_slots b);
           b = (case slot_idx of
                  None \<Rightarrow> b
                | Some i \<Rightarrow> set_slot i ((blk_slots b ! i)\<lparr>slot_in_use := True, slot_done := False, slot_status := 0xff\<rparr>) b);
           (lk, h) = spin_unlock_irqrestore (blk_lock b) s h
       in Inr (slot_idx, b\<lparr>blk_lock := lk\<rparr>, h))"

text \<open>The three descriptors of a slot.\<close>

definition blk_descs :: "u32 \<Rightarrow> nat \<Rightarrow> u32 \<Rightarrow> virtq \<Rightarrow> virtq" where
  "blk_descs slots_addr i buf q =
     (let head = blk_head_for_slot i; d0 = head; d1 = head + 1; d2 = head + 2;
          q = set_desc (unat d0) \<lparr>d_addr = ucast (slot_req_addr slots_addr i), d_len = 16, d_flags = DESC_F_NEXT, d_next = d1\<rparr> q;
          q = set_desc (unat d1) \<lparr>d_addr = ucast buf, d_len = 512, d_flags = DESC_F_NEXT OR DESC_F_WRITE, d_next = d2\<rparr> q
      in set_desc (unat d2) \<lparr>d_addr = ucast (slot_status_addr slots_addr i), d_len = 1, d_flags = DESC_F_WRITE, d_next = 0\<rparr> q)"

definition blk_post :: "('d, 'z) bus_scheme \<Rightarrow> u32 \<Rightarrow> nat \<Rightarrow> u32 \<Rightarrow> u32 \<Rightarrow> blk \<times> 'd \<Rightarrow> hart \<Rightarrow> (blk \<times> 'd \<times> hart) kres" where
  "blk_post e slots_addr i sector buf = (\<lambda>(b, d) h.
     let b = set_slot i ((blk_slots b ! i)\<lparr>req_type := 0, req_reserved := 0, req_sector := ucast sector\<rparr>) b in
     kbind (spin_lock_irqsave (blk_lock b) h) (\<lambda>(s, lk, h).
       let b = b\<lparr>blk_lock := lk, bq := avail_push (blk_head_for_slot i) (blk_descs slots_addr i buf (bq b))\<rparr>;
           d = bus_write e (virtio_base b + 0x050) 0 d;
           (lk, h) = spin_unlock_irqrestore (blk_lock b) s h
       in Inr (b\<lparr>blk_lock := lk\<rparr>, d, h)))"

text \<open>One pass of the final loop; \<open>None\<close> means that the request is not done and the caller waits.\<close>

definition blk_finish :: "nat \<Rightarrow> blk \<Rightarrow> ktab \<Rightarrow> hart \<Rightarrow> (int option \<times> blk \<times> ktab \<times> hart) kres" where
  "blk_finish i b k h =
     kbind (spin_lock_irqsave (blk_lock b) h) (\<lambda>(s, lk, h).
       let b = blk_process_used_locked (b\<lparr>blk_lock := lk\<rparr>); slot = blk_slots b ! i in
       if slot_done slot then
         let ok = (slot_status slot = 0);
             b = set_slot i (slot\<lparr>slot_done := False, slot_in_use := False\<rparr>) b;
             (lk, h) = spin_unlock_irqrestore (blk_lock b) s h;
             b = b\<lparr>blk_lock := lk\<rparr>
         in
         kbind (waitq_wake_all (blk_waitq b) k h) (\<lambda>(q, k, h).
           Inr (Some (if ok then 0 else -1), b\<lparr>blk_waitq := q\<rparr>, k, h))
       else
         let (lk, h) = spin_unlock_irqrestore (blk_lock b) s h in Inr (None, b\<lparr>blk_lock := lk\<rparr>, k, h))"

text \<open>The test at the start of \<^verbatim>\<open>blk_read\<close>.\<close>

definition blk_read_ok :: "u32 \<Rightarrow> blk \<Rightarrow> bool" where
  "blk_read_ok buf b \<longleftrightarrow> blk_ready b \<and> buf \<noteq> 0"

section \<open>Interrupts\<close>

definition blk_handle_irq :: "('d, 'z) bus_scheme \<Rightarrow> blk \<times> 'd \<Rightarrow> ktab \<Rightarrow> hart \<Rightarrow> (blk \<times> 'd \<times> ktab \<times> hart) kres" where
  "blk_handle_irq e = (\<lambda>(b, d) k h.
     if virtio_base b = 0 then Inr (b, d, k, h)
     else
       let (st, d) = bus_read e (virtio_base b + 0x060) d in
       if st = 0 then Inr (b, d, k, h)
       else
         let d = bus_write e (virtio_base b + 0x064) st d in
         kbind (spin_lock_irqsave (blk_lock b) h) (\<lambda>(s, lk, h).
           let b = blk_process_used_locked (b\<lparr>blk_lock := lk\<rparr>);
               (lk, h) = spin_unlock_irqrestore (blk_lock b) s h;
               b = b\<lparr>blk_lock := lk\<rparr>
           in
           kbind (waitq_wake_all (blk_waitq b) k h) (\<lambda>(q, k, h). Inr (b\<lparr>blk_waitq := q\<rparr>, d, k, h))))"

end
