(* ===== verification/Selection.thy ===== *)
theory Selection
  imports Main "HOL-Library.Multiset"
begin

text \<open>
  The selection sort that \<^verbatim>\<open>virtio_input_init\<close>, \<^verbatim>\<open>wm_repack_z\<close> and \<^verbatim>\<open>wm_render_gpu\<close> write out: for every
  position, look for the first smallest key behind it and swap. It sorts by the key.
\<close>

section \<open>The loops\<close>

fun find_best :: "('a \<Rightarrow> int) \<Rightarrow> 'a list \<Rightarrow> nat list \<Rightarrow> nat \<Rightarrow> nat" where
  "find_best key xs [] best = best"
| "find_best key xs (j # js) best = find_best key xs js (if key (xs ! j) < key (xs ! best) then j else best)"

definition swap :: "nat \<Rightarrow> nat \<Rightarrow> 'a list \<Rightarrow> 'a list" where
  "swap i j xs = xs[i := xs ! j, j := xs ! i]"

fun select_loop :: "('a \<Rightarrow> int) \<Rightarrow> nat list \<Rightarrow> 'a list \<Rightarrow> 'a list" where
  "select_loop key [] xs = xs"
| "select_loop key (i # is) xs = select_loop key is (swap i (find_best key xs [Suc i..<length xs] i) xs)"

definition selection_sort :: "('a \<Rightarrow> int) \<Rightarrow> 'a list \<Rightarrow> 'a list" where
  "selection_sort key xs = select_loop key [0..<length xs] xs"

section \<open>It sorts\<close>

lemma find_best_min:
  assumes "find_best key xs js best = b"
  shows "b \<in> insert best (set js)" and "\<forall>j\<in>insert best (set js). key (xs ! b) \<le> key (xs ! j)"
  using assms by (induction js arbitrary: best) (force split: if_splits)+

lemma mset_swap: "i < length xs \<Longrightarrow> j < length xs \<Longrightarrow> mset (swap i j xs) = mset xs"
  by (simp add: swap_def Multiset.mset_swap)

lemma length_swap [simp]: "length (swap i j xs) = length xs"
  by (simp add: swap_def)

text \<open>The first \<open>i\<close> elements are sorted and none of them is above a later one.\<close>

definition sel_inv :: "('a \<Rightarrow> int) \<Rightarrow> nat \<Rightarrow> 'a list \<Rightarrow> bool" where
  "sel_inv key i xs \<longleftrightarrow> (\<forall>a b. a < b \<and> b < length xs \<and> a < i \<longrightarrow> key (xs ! a) \<le> key (xs ! b))"

lemma sel_inv_step:
  assumes "sel_inv key i xs" and "i < length xs"
  defines "j \<equiv> find_best key xs [Suc i..<length xs] i"
  shows "sel_inv key (Suc i) (swap i j xs)" and "j < length xs"
proof -
  have j: "i \<le> j" "j < length xs" and m: "\<forall>k. i \<le> k \<and> k < length xs \<longrightarrow> key (xs ! j) \<le> key (xs ! k)"
    using find_best_min [of key xs "[Suc i..<length xs]" i j] assms(2) unfolding j_def
    by (auto simp: le_less Suc_le_eq)
  then show "j < length xs"
    by simp
  show "sel_inv key (Suc i) (swap i j xs)"
    unfolding sel_inv_def
  proof (intro allI impI)
    fix a b assume ab: "a < b \<and> b < length (swap i j xs) \<and> a < Suc i"
    show "key (swap i j xs ! a) \<le> key (swap i j xs ! b)"
    proof (cases "a < i")
      case True
      then have "key (xs ! a) \<le> key (xs ! k)" if "i \<le> k" "k < length xs" for k
        using assms(1) that by (simp add: sel_inv_def)
      moreover have "key (xs ! a) \<le> key (xs ! b)"
        using assms(1) ab True by (simp add: sel_inv_def)
      ultimately show ?thesis
        using ab j True assms(2) by (auto simp: swap_def nth_list_update)
    next
      case False
      then have "a = i"
        using ab by simp
      then show ?thesis
        using ab j m assms(2) by (auto simp: swap_def nth_list_update)
    qed
  qed
qed

lemma select_loop_sorts:
  assumes "sel_inv key i xs" and "i \<le> length xs"
  shows "sel_inv key (length xs) (select_loop key [i..<length xs] xs) \<and> mset (select_loop key [i..<length xs] xs) = mset xs"
  using assms
proof (induction "length xs - i" arbitrary: i xs)
  case 0
  then show ?case
    by simp
next
  case (Suc n)
  let ?xs = "swap i (find_best key xs [Suc i..<length xs] i) xs"
  have i: "i < length xs"
    using Suc(2) by simp
  note st = sel_inv_step [OF Suc(3) i]
  have "sel_inv key (length ?xs) (select_loop key [Suc i..<length ?xs] ?xs) \<and>
      mset (select_loop key [Suc i..<length ?xs] ?xs) = mset ?xs"
    using Suc(1) [of ?xs "Suc i"] Suc(2) st(1) i by simp
  then show ?case
    using i st(2) by (simp add: upt_conv_Cons mset_swap)
qed

lemma selection_sort_sorts:
  shows "sorted (map key (selection_sort key xs))" and "mset (selection_sort key xs) = mset xs"
  using select_loop_sorts [of key 0 xs]
  by (auto simp: selection_sort_def sel_inv_def sorted_iff_nth_mono_less dest: mset_eq_length)

lemma set_selection_sort: "set (selection_sort key xs) = set xs" and length_selection_sort: "length (selection_sort key xs) = length xs"
  using selection_sort_sorts(2) [of key xs] by (metis set_mset_mset, metis size_mset)

end
