(* ===== verification/Virtio_Input.thy ===== *)
theory Virtio_Input
  imports Virtio Event Cstr Selection
begin

text \<open>
  The input driver, \<^verbatim>\<open>drivers/virtio/virtio_input.c\<close>: up to four devices, each with a queue of 32 event
  buffers. The registers are a bus. The used rings and the event buffers are written by the devices; a
  call sees them as they are when it starts. Messages to the console are left out.
\<close>

section \<open>State\<close>

record virtio_input_event =
  ie_type :: u16
  ie_code :: u16
  ie_value :: u32

definition zero_ie :: virtio_input_event where
  "zero_ie = \<lparr>ie_type = 0, ie_code = 0, ie_value = 0\<rparr>"

record vinput =
  vi_q :: "virtq list"
  vi_events :: "virtio_input_event list list"
  vi_bases :: "u32 list"
  vi_last_used :: "u16 list"
  vi_dev_count :: nat
  vi_rr_next :: nat
  vi_ev_debug_budget :: nat

abbreviation VI_QNUM :: nat where "VI_QNUM \<equiv> 32"
abbreviation VI_MAX_DEVICES :: nat where "VI_MAX_DEVICES \<equiv> 4"

definition vi_set_q :: "nat \<Rightarrow> virtq \<Rightarrow> vinput \<Rightarrow> vinput" where
  "vi_set_q dev q v = v\<lparr>vi_q := (vi_q v)[dev := q]\<rparr>"

definition vi_queue_push :: "nat \<Rightarrow> u16 \<Rightarrow> vinput \<Rightarrow> vinput" where
  "vi_queue_push dev i v = vi_set_q dev (avail_push i (vi_q v ! dev)) v"

section \<open>Names of devices\<close>

definition vi_char_is_letter :: "u8 \<Rightarrow> bool" where
  "vi_char_is_letter c \<longleftrightarrow> (0x61 \<le> c \<and> c \<le> 0x7a) \<or> (0x41 \<le> c \<and> c \<le> 0x5a)"

definition vi_to_lower :: "u8 \<Rightarrow> u8" where
  "vi_to_lower c = (if 0x41 \<le> c \<and> c \<le> 0x5a then c - 0x41 + 0x61 else c)"

text \<open>The inner loop: the rest of the name behind the word when the word is there.\<close>

fun match_word :: "cstr \<Rightarrow> cstr \<Rightarrow> cstr option" where
  "match_word name [] = Some name"
| "match_word [] (w # word) = None"
| "match_word (c # name) (w # word) = (if vi_to_lower c = w then match_word name word else None)"

text \<open>The character at the start of a string, the terminator when it is empty.\<close>

definition first_char :: "cstr \<Rightarrow> u8" where
  "first_char s = (case s of [] \<Rightarrow> 0 | c # _ \<Rightarrow> c)"

fun name_word_loop :: "u8 \<Rightarrow> cstr \<Rightarrow> cstr \<Rightarrow> bool" where
  "name_word_loop prev [] word = False"
| "name_word_loop prev (c # name) word =
     (case match_word (c # name) word of
        Some rest \<Rightarrow>
          if \<not> vi_char_is_letter prev \<and> \<not> vi_char_is_letter (first_char rest) then True
          else name_word_loop c name word
      | None \<Rightarrow> name_word_loop c name word)"

definition vi_name_contains_word :: "cstr \<Rightarrow> cstr \<Rightarrow> bool" where
  "vi_name_contains_word name word = name_word_loop 0x20 name word"

text \<open>The bytes of the name, up to a zero byte.\<close>

fun vi_name_bytes :: "('d, 'z) bus_scheme \<Rightarrow> u32 \<Rightarrow> nat \<Rightarrow> 'd \<Rightarrow> cstr \<times> 'd" where
  "vi_name_bytes e addr 0 d = ([], d)"
| "vi_name_bytes e addr (Suc n) d =
     (let (v, d) = bus_read e addr d; c = ucast v :: u8 in
      if c = 0 then ([], d) else let (s, d) = vi_name_bytes e (addr + 1) n d in (c # s, d))"

definition vi_read_device_name :: "('d, 'z) bus_scheme \<Rightarrow> u32 \<Rightarrow> int \<Rightarrow> 'd \<Rightarrow> int \<times> cstr \<times> 'd" where
  "vi_read_device_name e dev_base name_sz d =
     (if name_sz \<le> 0 then (-1, [], d)
      else
        let d = bus_writes e dev_base [(0x0fc, 1), (0x100, 0)] d; (sz, d) = bus_read e (dev_base + 0x104) d in
        if sz = 0 then (-1, [], d)
        else
          let n = sint sz; n = (if name_sz \<le> n then name_sz - 1 else n);
              (name, d) = vi_name_bytes e (dev_base + 0x108) (nat n) d
          in (0, name, d))"

section \<open>Initialisation\<close>

definition vi_zero_device :: "nat \<Rightarrow> vinput \<Rightarrow> vinput" where
  "vi_zero_device dev v = (vi_set_q dev zero_virtq v)\<lparr>vi_events := (vi_events v)[dev := replicate VI_QNUM zero_ie]\<rparr>"

text \<open>\<open>events_addr\<close> is the address of the buffers of the device; a buffer has 8 bytes.\<close>

definition vi_fill_one :: "u32 \<Rightarrow> nat \<Rightarrow> nat \<Rightarrow> vinput \<Rightarrow> vinput" where
  "vi_fill_one events_addr dev i v =
     vi_queue_push dev (of_nat i)
       (vi_set_q dev (set_desc i \<lparr>d_addr = ucast (events_addr + of_nat (8 * i)), d_len = 8, d_flags = DESC_F_WRITE, d_next = 0\<rparr>
          (vi_q v ! dev)) v)"

record 'd ienv = "'d bus" +
  vi_events_addr :: "nat \<Rightarrow> u32"
  vi_desc_addr :: "nat \<Rightarrow> u32"
  vi_avail_addr :: "nat \<Rightarrow> u32"
  vi_used_addr :: "nat \<Rightarrow> u32"

definition vi_init_one_device :: "'d ienv \<Rightarrow> nat \<Rightarrow> u32 \<Rightarrow> vinput \<times> 'd \<Rightarrow> int \<times> vinput \<times> 'd" where
  "vi_init_one_device e dev dev_base = (\<lambda>(v, d).
     let d = bus_writes e dev_base [(0x070, 0), (0x070, 1), (0x070, 3), (0x014, 0)] d;
         (lo, d) = bus_read e (dev_base + 0x010) d;
         d = bus_write e (dev_base + 0x014) 1 d;
         (hi, d) = bus_read e (dev_base + 0x010) d;
         dev_features = ucast lo OR push_bit 32 (ucast hi) :: u64
     in
     if dev_features AND push_bit 32 1 = 0 then (-1, v, d)
     else
       let drv_features = push_bit 32 1 :: u64;
           d = bus_writes e dev_base
                 [(0x024, 0), (0x020, ucast drv_features), (0x024, 1), (0x020, ucast (drop_bit 32 drv_features)), (0x070, 11)] d;
           (status, d) = bus_read e (dev_base + 0x070) d
       in
       if status AND 8 = 0 then (-1, v, d)
       else
         let d = bus_write e (dev_base + 0x030) 0 d; (qmax, d) = bus_read e (dev_base + 0x034) d in
         if qmax < of_nat VI_QNUM then (-1, v, d)
         else
           let d = bus_write e (dev_base + 0x038) (of_nat VI_QNUM) d;
               v = fold (vi_fill_one (vi_events_addr e dev) dev) [0..<VI_QNUM] (vi_zero_device dev v);
               d = bus_writes e dev_base
                     [(0x080, vi_desc_addr e dev), (0x084, 0), (0x090, vi_avail_addr e dev), (0x094, 0),
                      (0x0a0, vi_used_addr e dev), (0x0a4, 0), (0x044, 1), (0x050, 0), (0x070, 15)] d
           in (0, v\<lparr>vi_last_used := (vi_last_used v)[dev := 0], vi_bases := (vi_bases v)[dev := dev_base]\<rparr>, d))"

record vi_candidate =
  c_base :: u32
  c_score :: int

definition vi_score :: "int \<Rightarrow> cstr \<Rightarrow> int" where
  "vi_score rc name =
     (if rc = 0 then
        if vi_name_contains_word name (map of_char ''mouse'') \<or> vi_name_contains_word name (map of_char ''tablet'') then 0
        else if vi_name_contains_word name (map of_char ''keyboard'') then 1 else 2
      else 2)"

fun vi_collect :: "('d, 'z) bus_scheme \<Rightarrow> nat list \<Rightarrow> vi_candidate list \<Rightarrow> 'd \<Rightarrow> vi_candidate list \<times> 'd" where
  "vi_collect e [] cand d = (cand, d)"
| "vi_collect e (i # is) cand d =
     (let dev_base = virtio_mmio_base i;
          (magic, d) = bus_read e dev_base d;
          (version, d) = bus_read e (dev_base + 4) d;
          (dev, d) = bus_read e (dev_base + 8) d
      in
      if \<not> (magic = VIRTIO_MAGIC \<and> (version = 1 \<or> version = 2) \<and> dev = 18) then vi_collect e is cand d
      else
        let (rc, name, d) = vi_read_device_name e dev_base 64 d;
            cand = (if length cand < VI_MAX_DEVICES then cand @ [\<lparr>c_base = dev_base, c_score = vi_score rc name\<rparr>] else cand)
        in vi_collect e is cand d)"

fun vi_init_devices :: "'d ienv \<Rightarrow> vi_candidate list \<Rightarrow> vinput \<times> 'd \<Rightarrow> vinput \<times> 'd" where
  "vi_init_devices e [] vd = vd"
| "vi_init_devices e (c # cs) vd =
     (let (v, d) = vd in
      if vi_dev_count v < VI_MAX_DEVICES then
        let (rc, v, d) = vi_init_one_device e (vi_dev_count v) (c_base c) (v, d);
            v = (if rc = 0 then v\<lparr>vi_dev_count := vi_dev_count v + 1\<rparr> else v)
        in vi_init_devices e cs (v, d)
      else (v, d))"

definition virtio_input_init :: "'d ienv \<Rightarrow> vinput \<times> 'd \<Rightarrow> int \<times> vinput \<times> 'd" where
  "virtio_input_init e = (\<lambda>(v, d).
     let v = v\<lparr>vi_bases := replicate VI_MAX_DEVICES 0, vi_last_used := replicate VI_MAX_DEVICES 0, vi_dev_count := 0, vi_rr_next := 0\<rparr>;
         (cand, d) = vi_collect e [0..<8] [] d;
         cand = selection_sort c_score cand;
         (v, d) = vi_init_devices e cand (v, d)
     in (if 0 < vi_dev_count v then 0 else -1, v, d))"

section \<open>Events\<close>

text \<open>One device of the round: \<open>None\<close> when it has nothing, or an entry with a bad number, which is skipped.\<close>

definition vi_try_device :: "'d ienv \<Rightarrow> nat \<Rightarrow> vinput \<times> 'd \<Rightarrow> virtio_input_event option \<times> vinput \<times> 'd" where
  "vi_try_device e dev = (\<lambda>(v, d).
     if vi_last_used v ! dev = vused_idx (vi_q v ! dev) then (None, v, d)
     else
       let slot = unat (vi_last_used v ! dev) mod VI_QNUM;
           ident = fst (vused_ring (vi_q v ! dev) ! slot);
           v = v\<lparr>vi_last_used := (vi_last_used v)[dev := vi_last_used v ! dev + 1]\<rparr>
       in
       if of_nat VI_QNUM \<le> ident then (None, v, d)
       else
         let ev = vi_events v ! dev ! unat ident;
             v = v\<lparr>vi_ev_debug_budget := vi_ev_debug_budget v - 1\<rparr>;
             v = vi_queue_push dev (ucast ident) v;
             d = bus_write e (vi_bases v ! dev + 0x050) 0 d
         in (Some ev, v\<lparr>vi_rr_next := (dev + 1) mod vi_dev_count v\<rparr>, d))"

fun vi_fetch_loop :: "'d ienv \<Rightarrow> nat list \<Rightarrow> vinput \<times> 'd \<Rightarrow> (nat \<times> virtio_input_event) option \<times> vinput \<times> 'd" where
  "vi_fetch_loop e [] vd = (None, vd)"
| "vi_fetch_loop e (dev # devs) vd =
     (case vi_try_device e dev vd of
        (Some ev, vd) \<Rightarrow> (Some (dev, ev), vd)
      | (None, vd) \<Rightarrow> vi_fetch_loop e devs vd)"

text \<open>The devices in the order of the round, from the one that is next.\<close>

definition vi_round :: "vinput \<Rightarrow> nat list" where
  "vi_round v = map (\<lambda>n. (vi_rr_next v + n) mod vi_dev_count v) [0..<vi_dev_count v]"

definition vi_fetch_one_event :: "'d ienv \<Rightarrow> vinput \<times> 'd \<Rightarrow> (nat \<times> virtio_input_event) option \<times> vinput \<times> 'd" where
  "vi_fetch_one_event e vd = (if vi_dev_count (fst vd) = 0 then (None, vd) else vi_fetch_loop e (vi_round (fst vd)) vd)"

definition virtio_input_next_event :: "'d ienv \<Rightarrow> vinput \<times> 'd \<Rightarrow> virtio_input_event option \<times> vinput \<times> 'd" where
  "virtio_input_next_event e vd = (let (r, vd) = vi_fetch_one_event e vd in (map_option snd r, vd))"

section \<open>Interrupts\<close>

fun vi_ack_loop :: "('d, 'z) bus_scheme \<Rightarrow> u32 list \<Rightarrow> 'd \<Rightarrow> 'd" where
  "vi_ack_loop e [] d = d"
| "vi_ack_loop e (dev_base # bases) d =
     (if dev_base = 0 then vi_ack_loop e bases d
      else
        let (st, d) = bus_read e (dev_base + 0x060) d;
            d = (if st \<noteq> 0 then bus_write e (dev_base + 0x064) st d else d)
        in vi_ack_loop e bases d)"

text \<open>The loop ends when no device has an event; \<open>None\<close> would mean that it never does.\<close>

partial_function (option) vi_irq_loop ::
    "'d ienv \<Rightarrow> vinput \<times> 'd \<Rightarrow> hart \<Rightarrow> kevents \<Rightarrow> ((vinput \<times> 'd) \<times> hart \<times> kevents) kres option" where
  "vi_irq_loop e vd h k =
     (case vi_fetch_one_event e vd of
        (None, vd) \<Rightarrow> Some (Inr (vd, h, k))
      | (Some (dev, ev), vd) \<Rightarrow>
          (case kevent_push KEVENT_TYPE_INPUT (ucast (ie_type ev)) (ucast (ie_code ev)) (ie_value ev) 0 h k of
             Inl x \<Rightarrow> Some (Inl x)
           | Inr (rc, h, k) \<Rightarrow> vi_irq_loop e vd h k))"

definition virtio_input_handle_irq ::
    "'d ienv \<Rightarrow> vinput \<times> 'd \<Rightarrow> hart \<Rightarrow> kevents \<Rightarrow> ((vinput \<times> 'd) \<times> hart \<times> kevents) kres option" where
  "virtio_input_handle_irq e vd h k =
     (let (v, d) = vd; d = vi_ack_loop e (take (vi_dev_count v) (vi_bases v)) d in vi_irq_loop e (v, d) h k)"

end
