(* ===== verification/Trap.thy ===== *)
theory Trap
  imports Syscall Virtio_Blk Virtio_Input
begin

text \<open>
  Traps: \<^verbatim>\<open>arch/riscv32/trap/trap.c\<close> and the interrupt controller of \<^verbatim>\<open>arch/riscv32/plic.c\<close>. The machine is the
  kernel with its two other drivers and the record of the last fault of a user process. All devices share
  one state behind the bus; the pending interrupts that \<^verbatim>\<open>sip\<close> shows are a function of it.
\<close>

section \<open>The machine\<close>

record 'd machine =
  mk :: "'d kernel"
  mblk :: blk
  mvi :: vinput
  g_last_user_scause :: u32
  g_last_user_stval :: u32
  g_last_user_sepc :: u32

record 'd menv =
  menv_k :: "'d kenv"
  menv_i :: "'d ienv"
  kernel_entry_addr :: u32
  csr_sip :: "'d \<Rightarrow> u32"

definition mdev :: "'d machine \<Rightarrow> 'd" where
  "mdev M = gd (kg (mk M))"

definition set_mdev :: "'d \<Rightarrow> 'd machine \<Rightarrow> 'd machine" where
  "set_mdev d M = M\<lparr>mk := (mk M)\<lparr>kg := (kg (mk M))\<lparr>gd := d\<rparr>\<rparr>\<rparr>"

definition msys :: "'d machine \<Rightarrow> sys" where
  "msys M = ksys (mk M)"

definition set_msys :: "sys \<Rightarrow> 'd machine \<Rightarrow> 'd machine" where
  "set_msys S M = M\<lparr>mk := set_ksys S (mk M)\<rparr>"

section \<open>Set-up\<close>

definition arch_trap_init :: "u32 \<Rightarrow> hart \<Rightarrow> hart" where
  "arch_trap_init kernel_entry h = h\<lparr>stvec := kernel_entry, sscratch := 0, sie := 0, sstatus := sstatus h AND NOT SSTATUS_SIE\<rparr>"

abbreviation SIE_SEIE :: u32 where "SIE_SEIE \<equiv> 0x200"

definition arch_trap_enable_interrupts :: "hart \<Rightarrow> hart" where
  "arch_trap_enable_interrupts h = h\<lparr>sie := SIE_SEIE, sstatus := sstatus h OR SSTATUS_SIE\<rparr>"

section \<open>The interrupt controller\<close>

abbreviation PLIC_BASE :: u32 where "PLIC_BASE \<equiv> 0x0c000000"
abbreviation PLIC_SENABLE :: u32 where "PLIC_SENABLE \<equiv> PLIC_BASE + 0x2080"
abbreviation PLIC_SPRIORITY :: u32 where "PLIC_SPRIORITY \<equiv> PLIC_BASE + 0x201000"
abbreviation PLIC_SCLAIM :: u32 where "PLIC_SCLAIM \<equiv> PLIC_BASE + 0x201004"

definition PLIC_PRIORITY :: "nat \<Rightarrow> u32" where
  "PLIC_PRIORITY irq = PLIC_BASE + of_nat irq * 4"

definition plic_init :: "('d, 'z) bus_scheme \<Rightarrow> 'd \<Rightarrow> 'd" where
  "plic_init e d =
     bus_writes e 0
       (map (\<lambda>irq. (PLIC_PRIORITY irq, 1)) [1..<65] @
        [(PLIC_SENABLE, 0xffffffff), (PLIC_SENABLE + 4, 0xffffffff), (PLIC_SPRIORITY, 0)]) d"

definition plic_claim :: "('d, 'z) bus_scheme \<Rightarrow> 'd \<Rightarrow> u32 \<times> 'd" where
  "plic_claim e d = bus_read e PLIC_SCLAIM d"

definition plic_complete :: "('d, 'z) bus_scheme \<Rightarrow> u32 \<Rightarrow> 'd \<Rightarrow> 'd" where
  "plic_complete e irq d = bus_write e PLIC_SCLAIM irq d"

section \<open>Causes\<close>

abbreviation SCAUSE_SUPERVISOR_EXTERNAL_IRQ :: u32 where "SCAUSE_SUPERVISOR_EXTERNAL_IRQ \<equiv> 0x80000009"

definition is_syscall_scause :: "u32 \<Rightarrow> bool" where
  "is_syscall_scause c \<longleftrightarrow> c = 8 \<or> c = 9"

definition page_fault_access :: "u32 \<Rightarrow> u32" where
  "page_fault_access c = (if c = 12 then VMA_PROT_X else if c = 13 then VMA_PROT_R else if c = 15 then VMA_PROT_W else 0)"

section \<open>External interrupts\<close>

text \<open>
  The three handlers in turn. The input handler is a loop of its own; \<open>None\<close> would mean that it does not
  end.
\<close>

definition virtio_irqs :: "'d menv \<Rightarrow> 'd machine \<Rightarrow> 'd machine kres option" where
  "virtio_irqs E M =
     (let genv = kgenv (menv_k E) in
      case virtio_input_handle_irq (menv_i E) (mvi M, mdev M) (khart (msys M)) (kevs (mk M)) of
        None \<Rightarrow> None
      | Some r \<Rightarrow> Some (
          kbind r (\<lambda>((v, d), h, k).
            let M = M\<lparr>mvi := v, mk := (mk M)\<lparr>kevs := k\<rparr>\<rparr>;
                M = set_msys ((msys M)\<lparr>khart := h\<rparr>) (set_mdev d M)
            in
            kbind (blk_handle_irq genv (mblk M, mdev M) (tab (msys M)) (khart (msys M))) (\<lambda>(b, d, t, h).
              let M = set_mdev d (M\<lparr>mblk := b\<rparr>);
                  M = set_msys ((msys M)\<lparr>tab := t, khart := h\<rparr>) M
              in
              kbind (virtio_gpu_handle_irq genv (kevs (mk M)) (kg (mk M))) (\<lambda>(k, g).
                Inr (M\<lparr>mk := (mk M)\<lparr>kevs := k, kg := g\<rparr>\<rparr>))))))"

partial_function (option) handle_external_interrupt :: "'d menv \<Rightarrow> 'd machine \<Rightarrow> 'd machine kres option" where
  "handle_external_interrupt E M =
     (let genv = kgenv (menv_k E); (irq, d) = plic_claim genv (mdev M); M = set_mdev d M in
      if irq = 0 then Some (Inr M)
      else
        (case (if irq \<le> 64 then virtio_irqs E M else Some (Inr M)) of
           None \<Rightarrow> None
         | Some (Inl x) \<Rightarrow> Some (Inl x)
         | Some (Inr M) \<Rightarrow> handle_external_interrupt E (set_mdev (plic_complete genv irq (mdev M)) M)))"

section \<open>The dump of a trap\<close>

definition scause_name :: "u32 \<Rightarrow> cstr" where
  "scause_name c =
     (if c = 8 then lit ''ecall-u'' else if c = 9 then lit ''ecall-s''
      else if c = SCAUSE_SUPERVISOR_EXTERNAL_IRQ then lit ''sext-irq'' else if c = 12 then lit ''inst-page-fault''
      else if c = 13 then lit ''load-page-fault'' else if c = 15 then lit ''store-page-fault'' else lit ''unknown'')"

definition dump_trap_frame :: "trap_frame option \<Rightarrow> console \<Rightarrow> console kres" where
  "dump_trap_frame fr c =
     (case fr of
        None \<Rightarrow> printf (lit ''trap tf: <null>'' @ [10]) [] c
      | Some f \<Rightarrow>
          kbind (printf (lit ''trap tf0: ra=%x sp=%x gp=%x tp=%x'' @ [10]) (map Num [tf_ra f, tf_sp f, tf_gp f, tf_tp f]) c) (\<lambda>c.
          kbind (printf (lit ''trap tf1: a0=%x a1=%x a2=%x a3=%x a4=%x a5=%x a6=%x a7=%x'' @ [10])
                  (map Num [tf_a0 f, tf_a1 f, tf_a2 f, tf_a3 f, tf_a4 f, tf_a5 f, tf_a6 f, tf_a7 f]) c) (\<lambda>c.
          kbind (printf (lit ''trap tf2: t0=%x t1=%x t2=%x t3=%x t4=%x t5=%x t6=%x'' @ [10])
                  (map Num [tf_t0 f, tf_t1 f, tf_t2 f, tf_t3 f, tf_t4 f, tf_t5 f, tf_t6 f]) c) (\<lambda>c.
          printf (lit ''trap tf3: s0=%x s1=%x s2=%x s3=%x s4=%x s5=%x s6=%x s7=%x s8=%x s9=%x s10=%x s11=%x'' @ [10])
            (map Num [tf_s0 f, tf_s1 f, tf_s2 f, tf_s3 f, tf_s4 f, tf_s5 f, tf_s6 f, tf_s7 f, tf_s8 f, tf_s9 f, tf_s10 f, tf_s11 f]) c))))"

fun proc_state_num :: "proc_state \<Rightarrow> u32" where
  "proc_state_num PROC_UNUSED = 0"
| "proc_state_num PROC_RUNNABLE = 1"
| "proc_state_num PROC_BLOCKED = 2"
| "proc_state_num PROC_ZOMBIE = 3"

definition dump_trap_context :: "'d menv \<Rightarrow> u32 \<Rightarrow> u32 \<Rightarrow> u32 \<Rightarrow> trap_frame option \<Rightarrow> 'd machine \<Rightarrow> console kres" where
  "dump_trap_context E cause tval pc f M =
     (let h = khart (msys M) in
      kbind (printf (lit ''trap: scause=%x(%s) stval=%x sepc=%x sstatus=%x satp=%x sip=%x sie=%x'' @ [10])
              [Num cause, Str (scause_name cause), Num tval, Num pc, Num (sstatus h), Num (satp h), Num (csr_sip E (mdev M)), Num (sie h)]
              (kcon (mk M))) (\<lambda>c.
      kbind (case kcur (mk M) of
               None \<Rightarrow> printf (lit ''trap proc: none'' @ [10]) [] c
             | Some p \<Rightarrow>
                 printf (lit ''trap proc: pid=%d state=%d is_user=%d sp=%x proc_sepc=%x proc_satp=%x'' @ [10])
                   (map Num [of_int (pid p), proc_state_num (state p), if is_user p then 1 else 0, p_sp p, p_sepc p, p_satp p]) c)
        (dump_trap_frame f)))"

section \<open>The trap handler\<close>

text \<open>
  The end of \<^verbatim>\<open>handle_trap\<close>: a fault that was not served ends a user process; otherwise the machine is shut down
  (\<^verbatim>\<open>shutdown_and_halt\<close>), which does not return.
\<close>

definition trap_unserved :: "'d menv \<Rightarrow> trap_frame \<Rightarrow> 'd machine \<Rightarrow> (trap_exit \<times> 'd machine) kres" where
  "trap_unserved E f M =
     (let cause = scause (khart (msys M)); tval = stval (khart (msys M)); pc = tf_sepc f;
          unexpected =
            kbind (printf (lit ''kernel: unexpected trap; shutting down'' @ [10]) [] (kcon (mk M))) (\<lambda>c.
            kbind (dump_trap_context E cause tval pc (Some f) (M\<lparr>mk := (mk M)\<lparr>kcon := c\<rparr>\<rparr>)) (\<lambda>c. Inl Unexpected_trap))
      in
      case kcur (mk M) of
        None \<Rightarrow> unexpected
      | Some p \<Rightarrow>
          if is_user p then
            let M = M\<lparr>g_last_user_scause := cause, g_last_user_stval := tval, g_last_user_sepc := pc\<rparr> in
            kbind (dump_trap_context E cause tval pc (Some f) M) (\<lambda>c.
            let M = M\<lparr>mk := (mk M)\<lparr>kcon := c\<rparr>\<rparr> in
            kbind (proc_exit 128 (msys M)) (\<lambda>S. Inr (Exited, set_msys S M)))
          else unexpected)"

definition trap_fault :: "'d menv \<Rightarrow> trap_frame \<Rightarrow> 'd machine \<Rightarrow> (trap_exit \<times> 'd machine) kres" where
  "trap_fault E f M =
     (let h = khart (msys M); access = page_fault_access (scause h) in
      case kcur (mk M) of
        None \<Rightarrow> trap_unserved E f M
      | Some p \<Rightarrow>
          if is_user p \<and> access \<noteq> 0 then
            kbind (proc_handle_user_page_fault (klayout (menv_k E)) (Some p) (stval h) access (kpa (mk M))) (\<lambda>(rc, pa).
              let M = M\<lparr>mk := set_kpa pa (mk M)\<rparr> in
              if rc = 0 then Inr (To_frame f, M) else trap_unserved E f M)
          else trap_unserved E f M)"

definition handle_trap :: "'d menv \<Rightarrow> trap_frame \<Rightarrow> 'd machine \<Rightarrow> (trap_exit \<times> 'd machine) kres option" where
  "handle_trap E f M =
     (let c = scause (khart (msys M)) in
      if c = SCAUSE_SUPERVISOR_EXTERNAL_IRQ then
        map_option (\<lambda>r. kbind r (\<lambda>M. Inr (To_frame f, M))) (handle_external_interrupt E M)
      else if is_syscall_scause c then
        Some (kbind (arch_handle_ecall (menv_k E) f (mk M)) (\<lambda>(x, K). Inr (x, M\<lparr>mk := K\<rparr>)))
      else Some (trap_fault E f M))"

end
