(* ===== verification/Boot.thy ===== *)
theory Boot
  imports Trap
begin

text \<open>
  The start of the kernel, \<^verbatim>\<open>kernel/main.c\<close>. The messages on the console are left out. \<^verbatim>\<open>halt_forever\<close> ends a
  run, so a boot that fails is an error (\<^verbatim>\<open>fatal_boot_error\<close>). The static variables of the machine that the linker puts
  into \<^verbatim>\<open>.bss\<close> are the fields that \<open>clear_bss\<close> sets to zero; \<^verbatim>\<open>vi_ev_debug_budget\<close> starts at another value and is
  not among them.
\<close>

section \<open>Clearing .bss\<close>

definition zero_pa :: "page_alloc \<Rightarrow> page_alloc" where
  "zero_pa s = s\<lparr>free_runs := [], free_meta_nodes := [], next_paddr := 0, meta_top := 0, allocator_initialized := False,
     alloc_lock := 0, page_refcnt := [], managed_page_count := 0, free_meta_oom_warned := False\<rparr>"

definition zero_sys :: "sys \<Rightarrow> sys" where
  "zero_sys S = S\<lparr>tab := \<lparr>procs = replicate PROC_MAX zero_process, current_proc = None, idle_proc = None\<rparr>,
     kvm := \<lparr>pa_state = zero_pa (pa_state (kvm S)), kernel_root_pt = 0, kernel_satp_value = 0\<rparr>\<rparr>"

definition zero_waitq :: waitq where
  "zero_waitq = \<lparr>waiters = replicate PROC_MAX None, wq_lock = 0\<rparr>"

definition zero_gpu :: gpu where
  "zero_gpu = \<lparr>vg_q = zero_virtq, vg_base = 0, vg_ready = False, vg_last_used = 0, vg_last_error = 0, vg_width_px = 0,
     vg_height_px = 0, vg_pitch_px = 0, vg_resource_id = 0, vg_backbuffer = 0, vg_backbuffer_pages = 0, vg_waitq = zero_waitq\<rparr>"

definition zero_blk :: blk where
  "zero_blk = \<lparr>bq = zero_virtq, blk_slots = replicate BLK_REQ_MAX zero_slot, blk_used_idx = 0, blk_ready = False,
     virtio_base = 0, blk_waitq = zero_waitq, blk_lock = 0\<rparr>"

definition zero_vinput :: "vinput \<Rightarrow> vinput" where
  "zero_vinput v = v\<lparr>vi_q := replicate VI_MAX_DEVICES zero_virtq, vi_events := replicate VI_MAX_DEVICES (replicate VI_QNUM zero_ie),
     vi_bases := replicate VI_MAX_DEVICES 0, vi_last_used := replicate VI_MAX_DEVICES 0, vi_dev_count := 0, vi_rr_next := 0\<rparr>"

definition zero_fs :: "ramfs \<Rightarrow> ramfs" where
  "zero_fs f = f\<lparr>inodes := replicate RAMFS_MAX_FILES zero_inode, fs_initialized := False, ext4_ready := False\<rparr>"

definition zero_kevents :: kevents where
  "zero_kevents = \<lparr>g_q = replicate 128 zero_event, g_head = 0, g_tail = 0, g_seq = 0, g_lock = 0\<rparr>"

definition clear_bss :: "'d machine \<Rightarrow> 'd machine" where
  "clear_bss M =
     M\<lparr>mk := (mk M)\<lparr>kg := (kg (mk M))\<lparr>gg := zero_gpu, gk := zero_sys (gk (kg (mk M)))\<rparr>, kfs := zero_fs (kfs (mk M)), kevs := zero_kevents\<rparr>,
       mblk := zero_blk, mvi := zero_vinput (mvi M), g_last_user_scause := 0, g_last_user_stval := 0, g_last_user_sepc := 0\<rparr>"

section \<open>Boot\<close>

text \<open>The addresses of \<^verbatim>\<open>idle_entry\<close> and \<^verbatim>\<open>user_init_entry\<close> are parameters.\<close>

definition kernel_boot :: "'d menv \<Rightarrow> u32 \<Rightarrow> u32 \<Rightarrow> 'd machine \<Rightarrow> 'd machine kres" where
  "kernel_boot E idle_entry user_init_entry M =
     (let L = klayout (menv_k E);
          M = clear_bss M;
          S = msys M;
          M = set_msys (S\<lparr>khart := arch_trap_init (kernel_entry_addr E) (khart S)\<rparr>) M
      in
      kbind (kevent_init (kevs (mk M))) (\<lambda>q.
        let M = M\<lparr>mk := (mk M)\<lparr>kevs := q\<rparr>\<rparr>;
            M = set_mdev (plic_init (menv_i E) (mdev M)) M;
            S = msys M
        in
        kbind (vm_init L (kvm S) (khart S)) (\<lambda>(rc, v, h).
          let S = S\<lparr>kvm := v, khart := h\<rparr> in
          if rc < 0 then Inl Fatal_boot_error
          else
            (case create_process L idle_entry S of
               (None, S) \<Rightarrow> Inl Fatal_boot_error
             | (Some i, S) \<Rightarrow>
                 let S = S\<lparr>tab := (tab S)\<lparr>idle_proc := Some i, current_proc := Some i\<rparr>,
                           khart := arch_trap_enable_interrupts (khart S)\<rparr>
                 in
                 kbind (fs_init (kfs (mk M))) (\<lambda>f.
                   let S = snd (create_process L user_init_entry S)
                   in Inr (set_msys S (M\<lparr>mk := (mk M)\<lparr>kfs := f\<rparr>\<rparr>)))))))"

definition has_live_app_proc :: "sys \<Rightarrow> bool" where
  "has_live_app_proc S \<longleftrightarrow>
     (\<exists>p\<in>set (procs (tab S)). pid p \<noteq> 0 \<and> (state p = PROC_RUNNABLE \<or> state p = PROC_BLOCKED))"

text \<open>One pass of the final loop, up to the context switch inside \<^verbatim>\<open>yield\<close>.\<close>

definition kernel_loop :: "ld_layout \<Rightarrow> u32 \<Rightarrow> sys \<Rightarrow> sys kres" where
  "kernel_loop L user_init_entry S =
     kbind (proc_reap_orphan_zombies L S) (\<lambda>S.
       let S = (if \<not> has_live_app_proc S then snd (create_process L user_init_entry S) else S) in sys_do_yield S)"

end
