(* ===== verification/Virtio_Gpu_Spec.thy ===== *)
theory Virtio_Gpu_Spec
  imports Virtio_Gpu Page_Alloc_Spec
begin

text \<open>
  Properties of the GPU driver for every behaviour of the device. \<open>vg_keep\<close> says what a command leaves
  alone: the variables of the driver other than the queue and its wait queue, and the memory of the
  kernel.
\<close>

section \<open>What a command leaves alone\<close>

definition vg_keep :: "'d gsys \<Rightarrow> 'd gsys \<Rightarrow> bool" where
  "vg_keep s s' \<longleftrightarrow>
     vg_base (gg s') = vg_base (gg s) \<and> vg_ready (gg s') = vg_ready (gg s) \<and> vg_last_error (gg s') = vg_last_error (gg s) \<and>
     vg_width_px (gg s') = vg_width_px (gg s) \<and> vg_height_px (gg s') = vg_height_px (gg s) \<and>
     vg_pitch_px (gg s') = vg_pitch_px (gg s) \<and> vg_resource_id (gg s') = vg_resource_id (gg s) \<and>
     vg_backbuffer (gg s') = vg_backbuffer (gg s) \<and> vg_backbuffer_pages (gg s') = vg_backbuffer_pages (gg s) \<and>
     wq_lock (vg_waitq (gg s')) = wq_lock (vg_waitq (gg s)) \<and>
     kvm (gk s') = kvm (gk s) \<and> (current_proc (tab (gk s')) = None \<longleftrightarrow> current_proc (tab (gk s)) = None) \<and>
     idle_proc (tab (gk s')) = idle_proc (tab (gk s))"

lemma vg_keep_refl [simp]: "vg_keep s s"
  by (simp add: vg_keep_def)

lemma vg_keep_trans [trans]: "vg_keep s s' \<Longrightarrow> vg_keep s' s'' \<Longrightarrow> vg_keep s s''"
  by (simp add: vg_keep_def)

text \<open>
  The other processes may run the rest of the kernel while the caller sleeps, but not this driver, and
  they give back the pages they take.
\<close>

definition others_ok :: "'d genv \<Rightarrow> bool" where
  "others_ok e \<longleftrightarrow> (\<forall>s. vg_keep s (gpu_others e s))"

lemma observe_keep: "vg_keep s (snd (vg_observe e req (resp, s)))" and observe_length:
  "length (fst (vg_observe e req (resp, s))) = length resp"
  by (auto simp: vg_observe_def vg_keep_def split: prod.split)

lemma poll_keep:
  "vg_keep s (snd (vg_poll e req t (resp, s))) \<and> length (fst (vg_poll e req t (resp, s))) = length resp"
proof (induction t arbitrary: resp s)
  case (Suc t)
  obtain r1 s1 where o: "vg_observe e req (resp, s) = (r1, s1)"
    by fastforce
  then have "vg_keep s s1" "length r1 = length resp"
    using observe_keep [of s e req resp] observe_length [of e req resp s] by simp_all
  then show ?case
    using Suc [of s1 r1] o by (auto simp: Let_def intro: vg_keep_trans)
qed simp

lemma yield_ok:
  assumes "current_proc (tab S) \<noteq> None" and "idle_proc (tab S) \<noteq> None"
  obtains S' where "sys_do_yield S = Inr S'" and "kvm S' = kvm S" and "current_proc (tab S') \<noteq> None"
    and "idle_proc (tab S') = idle_proc (tab S)"
proof -
  obtain c i where ci: "current_proc (tab S) = Some c" "idle_proc (tab S) = Some i"
    using assms by auto
  obtain pick ps where "yield_choose c (procs (tab S)) = (pick, ps)"
    by fastforce
  then show ?thesis
    using ci by (intro that [of "S\<lparr>tab := fst (the (yield (tab S) (khart S))), khart := snd (the (yield (tab S) (khart S)))\<rparr>"])
      (auto simp: sys_do_yield_def yield_def Let_def split: option.split)
qed

lemma sleep_keep:
  assumes "others_ok e" and "idle_proc (tab (gk s)) \<noteq> None" and "wq_lock (vg_waitq (gg s)) = 0"
  obtains s' where "vg_sleep e s = Inr s'" and "vg_keep s s'"
proof (cases "current_proc (tab (gk s)) = None \<or> current_proc (tab (gk s)) = idle_proc (tab (gk s))")
  case True
  then show ?thesis
    using that [of s] by (auto simp: vg_sleep_def)
next
  case False
  then obtain c where c: "current_proc (tab (gk s)) = Some c" "current_proc (tab (gk s)) \<noteq> idle_proc (tab (gk s))"
    by auto
  define q where "q = waitq_enter c ((vg_waitq (gg s))\<lparr>wq_lock := 1\<rparr>)"
  have b: "waitq_sleep_block (vg_waitq (gg s)) (tab (gk s)) (khart (gk s)) =
      Inr (q\<lparr>wq_lock := 0\<rparr>, set_state c PROC_BLOCKED (tab (gk s)), khart (gk s))"
    using c assms(3) by (simp add: waitq_sleep_block_def q_def Let_def)
  let ?S = "(gk s)\<lparr>tab := set_state c PROC_BLOCKED (tab (gk s)), khart := khart (gk s)\<rparr>"
  obtain S' where y: "sys_do_yield ?S = Inr S'" "kvm S' = kvm (gk s)" "current_proc (tab S') \<noteq> None"
    "idle_proc (tab S') = idle_proc (tab (gk s))"
    by (rule yield_ok [of ?S]) (use c assms(2) in \<open>auto simp: set_state_def\<close>)
  let ?s = "s\<lparr>gg := (gg s)\<lparr>vg_waitq := q\<lparr>wq_lock := 0\<rparr>\<rparr>, gk := S'\<rparr>"
  have k1: "vg_keep s ?s"
    using y c assms(3) by (simp add: vg_keep_def)
  have k2: "vg_keep ?s (gpu_others e ?s)"
    using assms(1) unfolding others_ok_def by blast
  have k3: "vg_keep t (t\<lparr>gk := (gk t)\<lparr>tab := waitq_sleep_resume (tab (gk t))\<rparr>\<rparr>)" for t :: "'a gsys"
    by (auto simp: vg_keep_def waitq_sleep_resume_def set_state_def split: option.split)
  show ?thesis
    by (rule that) (use b y c vg_keep_trans [OF vg_keep_trans [OF k1 k2] k3] in \<open>auto simp: vg_sleep_def Let_def\<close>)
qed

lemma sleep_loop_keep:
  assumes "others_ok e" and "idle_proc (tab (gk s)) \<noteq> None" and "wq_lock (vg_waitq (gg s)) = 0"
  shows "\<exists>resp' s'. vg_sleep_loop e req t (resp, s) = Inr (resp', s') \<and> vg_keep s s' \<and> length resp' = length resp"
  using assms(2,3)
proof (induction t arbitrary: resp s)
  case 0
  then show ?case
    using observe_keep [of s e req resp] observe_length [of e req resp s]
    by (cases "vg_observe e req (resp, s)") auto
next
  case (Suc t)
  obtain r1 s1 where o: "vg_observe e req (resp, s) = (r1, s1)"
    by fastforce
  have k1: "vg_keep s s1" and l1: "length r1 = length resp"
    using observe_keep [of s e req resp] observe_length [of e req resp s] o by simp_all
  have p1: "idle_proc (tab (gk s1)) \<noteq> None" "wq_lock (vg_waitq (gg s1)) = 0"
    using k1 Suc.prems by (simp_all add: vg_keep_def)
  obtain s2 where s2: "vg_sleep e s1 = Inr s2" and k2: "vg_keep s1 s2"
    by (rule sleep_keep [OF assms(1) p1])
  have p2: "idle_proc (tab (gk s2)) \<noteq> None" "wq_lock (vg_waitq (gg s2)) = 0"
    using k2 p1 by (simp_all add: vg_keep_def)
  show ?case
    using Suc.IH [OF p2, of r1] s2 o k1 l1 vg_keep_trans [OF vg_keep_trans [OF k1 k2]] by auto
qed

lemma complete_keep:
  "vg_complete e req (resp, s) = (rc, resp', s') \<Longrightarrow> vg_keep s s' \<and> length resp' = length resp \<and> (rc = 0 \<or> rc = -1)"
  using observe_keep [of s e req resp] observe_length [of e req resp s]
  by (auto simp: vg_complete_def Let_def vg_mmio_read_def set_gpu_def vg_keep_def split: prod.splits if_splits)

lemma submit_keep:
  assumes "others_ok e" and "idle_proc (tab (gk s)) \<noteq> None" and "wq_lock (vg_waitq (gg s)) = 0"
  shows "\<exists>rc resp' s'. vg_submit e req resp s = Inr (rc, resp', s') \<and> vg_keep s s' \<and> length resp' = length resp \<and>
    (rc = 0 \<or> rc = -1)"
proof (cases "\<not> vg_ready (gg s) \<or> req = [] \<or> resp = []")
  case False
  define s0 where "s0 = vg_mmio_write e VG_MMIO_QUEUE_NOTIFY 0 (set_gpu (\<lambda>g. g\<lparr>vg_q := avail_push 0 (vg_q g)\<rparr>)
    (set_gpu (\<lambda>g. g\<lparr>vg_q := vg_setup_descs e (of_nat (length req)) (of_nat (length resp)) (vg_q g)\<rparr>) s))"
  have k0: "vg_keep s s0"
    by (simp add: s0_def vg_mmio_write_def set_gpu_def vg_keep_def)
  obtain r1 s1 where o1: "vg_poll e req 20000000 (resp, s0) = (r1, s1)"
    by fastforce
  obtain r2 s2 where o2: "vg_observe e req (r1, s1) = (r2, s2)"
    by fastforce
  have "vg_keep s0 s1" "length r1 = length resp"
    using poll_keep [of s0 e req 20000000 resp] o1 by simp_all
  then have k2: "vg_keep s s2" and l2: "length r2 = length resp"
    using k0 observe_keep [of s1 e req r1] observe_length [of e req r1 s1] o2 by (auto intro: vg_keep_trans)
  have p2: "idle_proc (tab (gk s2)) \<noteq> None" "wq_lock (vg_waitq (gg s2)) = 0"
    using k2 assms(2,3) by (simp_all add: vg_keep_def)
  let ?wait = "if vg_pending s2 \<and> current_proc (tab (gk s2)) \<noteq> None \<and> current_proc (tab (gk s2)) \<noteq> idle_proc (tab (gk s2))
    then vg_sleep_loop e req 100 (r2, s2) else Inr (r2, s2)"
  have "\<exists>r3 s3. ?wait = Inr (r3, s3) \<and> vg_keep s2 s3 \<and> length r3 = length r2"
    using sleep_loop_keep [OF assms(1) p2, of req 100 r2] by (simp add: vg_keep_def)
  then obtain r3 s3 where o3: "?wait = Inr (r3, s3)" and k3: "vg_keep s2 s3" and l3: "length r3 = length r2"
    by blast
  obtain rc r4 s4 where o4: "vg_complete e req (r3, s3) = (rc, r4, s4)"
    by (cases "vg_complete e req (r3, s3)") auto
  have k4: "vg_keep s3 s4" "length r4 = length r3" "rc = 0 \<or> rc = -1"
    using complete_keep [OF o4] by auto
  have "vg_submit e req resp s = Inr (rc, r4, s4)"
    using False o1 o2 o3 o4 unfolding vg_submit_def s0_def by (simp add: Let_def)
  then show ?thesis
    using k2 k3 k4 l2 l3 by (auto intro: vg_keep_trans)
qed (auto simp: vg_submit_def)

text \<open>What the commands need of the state and keep.\<close>

definition vg_calm :: "'d gsys \<Rightarrow> bool" where
  "vg_calm s \<longleftrightarrow> idle_proc (tab (gk s)) \<noteq> None \<and> wq_lock (vg_waitq (gg s)) = 0"

lemma vg_keep_calm: "vg_keep s s' \<Longrightarrow> vg_calm s' = vg_calm s"
  by (simp add: vg_keep_def vg_calm_def)

lemma command_keep:
  assumes "others_ok e" and "vg_calm s"
  shows "\<exists>rc s'. vg_command e req s = Inr (rc, s') \<and> vg_keep s s' \<and> (rc = 0 \<or> rc = -1)"
  using submit_keep [of e s req "replicate 24 0"] assms unfolding vg_calm_def by (auto simp: vg_command_def)

lemmas cmd_defs = vg_cmd_resource_create_2d_def vg_cmd_resource_attach_backing_def vg_cmd_set_scanout_def
  vg_cmd_transfer_to_host_2d_def vg_cmd_resource_flush_def

lemma present_keep:
  assumes "others_ok e" and "vg_calm s"
  shows "\<exists>s'. virtio_gpu_present e s = Inr s' \<and> vg_keep s s'"
proof (cases "vg_ready (gg s)")
  case True
  obtain rc s1 where c1: "vg_cmd_transfer_to_host_2d e (vg_resource_id (gg s)) (vg_width_px (gg s)) (vg_height_px (gg s)) s =
      Inr (rc, s1)" and k1: "vg_keep s s1"
    using command_keep [OF assms] unfolding cmd_defs by blast
  obtain rc' s2 where "vg_cmd_resource_flush e (vg_resource_id (gg s1)) (vg_width_px (gg s1)) (vg_height_px (gg s1)) s1 =
      Inr (rc', s2)" and k2: "vg_keep s1 s2"
    using command_keep [OF assms(1), of s1] assms(2) vg_keep_calm [OF k1] unfolding cmd_defs by blast
  then show ?thesis
    using True c1 k1 by (auto simp: virtio_gpu_present_def intro: vg_keep_trans)
qed (simp add: virtio_gpu_present_def)

section \<open>The frame buffer\<close>

abbreviation gpu_pa :: "'d gsys \<Rightarrow> page_alloc" where "gpu_pa s \<equiv> pa_state (kvm (gk s))"

definition bb_pages :: "gpu \<Rightarrow> nat set" where
  "bb_pages g = {pfn (vg_backbuffer g)..<pfn (vg_backbuffer g) + unat (vg_backbuffer_pages g)}"

text \<open>The size of the screen and the pages behind it.\<close>

definition screen_ok :: "gpu \<Rightarrow> bool" where
  "screen_ok g \<longleftrightarrow> 0 < vg_width_px g \<and> vg_width_px g \<le> VG_FB_MAX_W \<and> 0 < vg_height_px g \<and> vg_height_px g \<le> VG_FB_MAX_H \<and>
     vg_pitch_px g = vg_width_px g * 4 \<and>
     unat (vg_width_px g) * unat (vg_height_px g) * 4 \<le> unat (vg_backbuffer_pages g) * 4096 \<and>
     unat (vg_backbuffer_pages g) \<le> 768"

definition fb_ok :: "ld_layout \<Rightarrow> gpu \<Rightarrow> page_alloc \<Rightarrow> bool" where
  "fb_ok L g pa \<longleftrightarrow> screen_ok g \<and> vg_backbuffer g \<noteq> 0 \<and> unat (vg_backbuffer g) mod 4096 = 0 \<and>
     pfn (free_ram L) \<le> pfn (vg_backbuffer g) \<and>
     pfn (vg_backbuffer g) + unat (vg_backbuffer_pages g) \<le> pfn (free_ram L) + 8188 \<and>
     (\<forall>q\<in>bb_pages g. refs L pa q = 1)"

lemma choose_size_bounds:
  assumes "vg_choose_size out = (w, h)"
  shows "0 < w" and "w \<le> VG_FB_MAX_W" and "0 < h" and "h \<le> VG_FB_MAX_H"
  using assms by (auto simp: vg_choose_size_def Let_def word_neq_0_conv [symmetric] split: prod.splits if_splits)

lemma screen_bytes:
  assumes "0 < w" and "w \<le> VG_FB_MAX_W" and "0 < h" and "h \<le> VG_FB_MAX_H"
  defines "bytes \<equiv> w * 4 * h"
  shows "unat bytes = unat w * 4 * unat h" and "unat bytes \<le> 3145728"
    and "unat ((bytes + PAGE_SIZE - 1) div PAGE_SIZE) = (unat w * 4 * unat h + 4095) div 4096"
proof -
  have w: "unat w \<le> 1024" and h: "unat h \<le> 768"
    using assms(2,4) by (simp_all add: word_le_nat_alt)
  have m: "unat w * 4 * unat h \<le> 1024 * 4 * 768"
    using mult_le_mono [OF mult_le_mono1 [OF w, of 4] h] by simp
  have "unat (w * 4) = unat w * 4"
    using w by (subst unat_mult_lem [THEN iffD1]) auto
  then show b: "unat bytes = unat w * 4 * unat h"
    unfolding bytes_def using m by (subst unat_mult_lem [THEN iffD1]) auto
  then show b2: "unat bytes \<le> 3145728"
    using m by simp
  have "unat (bytes + 4095) = unat bytes + 4095"
    using b2 by (subst unat_add_lem [THEN iffD1]) auto
  then show "unat ((bytes + PAGE_SIZE - 1) div PAGE_SIZE) = (unat w * 4 * unat h + 4095) div 4096"
    using b by (simp add: unat_div add_diff_eq [symmetric])
qed

text \<open>Pages given back, up to the pages that the allocator loses when it has no node left for them.\<close>

definition same_refs :: "ld_layout \<Rightarrow> page_alloc \<Rightarrow> page_alloc \<Rightarrow> bool" where
  "same_refs L pa pa' \<longleftrightarrow> free_meta_oom_warned pa' \<or> refs L pa' = refs L pa"

lemma release_spec:
  assumes "ld_ok L" and "pa_inv L (gpu_pa s)" and "fb_ok L (gg s) (gpu_pa s)" and "\<forall>q\<in>bb_pages (gg s). refs L pa q = 0"
    and "refs L (gpu_pa s) = (\<lambda>q. if q \<in> bb_pages (gg s) then 1 else refs L pa q)"
  obtains s' where "vg_release_backbuffer L s = Inr s'" and "pa_inv L (gpu_pa s')" and "same_refs L pa (gpu_pa s')"
    and "vg_backbuffer (gg s') = 0" and "vg_calm s' = vg_calm s"
proof -
  have fb: "vg_backbuffer (gg s) \<noteq> 0" "vg_backbuffer_pages (gg s) \<noteq> 0"
    using assms(3) by (auto simp: fb_ok_def screen_ok_def unat_gt_0 word_neq_0_conv [symmetric] unat_eq_0)
  have "\<exists>s'. free_pages L (vg_backbuffer (gg s)) (vg_backbuffer_pages (gg s)) (gpu_pa s) = Inr s' \<and> pa_inv L s' \<and>
      dropped L (bb_pages (gg s)) (gpu_pa s) s'"
    using free_pages_spec [OF assms(1,2), of "vg_backbuffer_pages (gg s)" "vg_backbuffer (gg s)"] fb assms(3,5)
    by (auto simp: fb_ok_def bb_pages_def split: if_splits)
  then obtain s' where s': "free_pages L (vg_backbuffer (gg s)) (vg_backbuffer_pages (gg s)) (gpu_pa s) = Inr s'"
    "pa_inv L s'" "dropped L (bb_pages (gg s)) (gpu_pa s) s'"
    by blast
  have "same_refs L pa s'"
    using s'(3) assms(4) unfolding same_refs_def dropped_def assms(5) by (auto simp: fun_eq_iff split: if_splits) metis
  then show ?thesis
    using fb s'
    by (intro that [of "set_gpu (\<lambda>g. g\<lparr>vg_backbuffer := 0, vg_backbuffer_pages := 0\<rparr>) (s\<lparr>gk := set_pa s' (gk s)\<rparr>)"])
      (auto simp: vg_release_backbuffer_def set_gpu_def set_pa_def vg_calm_def)
qed

section \<open>Initialisation\<close>

definition gpu_outcome :: "ld_layout \<Rightarrow> page_alloc \<Rightarrow> int \<times> 'd gsys \<Rightarrow> bool" where
  "gpu_outcome L pa = (\<lambda>(rc, s').
     pa_inv L (gpu_pa s') \<and>
     (if rc = 0 then
        vg_ready (gg s') \<and> vg_last_error (gg s') = 0 \<and> fb_ok L (gg s') (gpu_pa s') \<and>
        (\<forall>q\<in>bb_pages (gg s'). refs L pa q = 0) \<and> (\<forall>q. q \<notin> bb_pages (gg s') \<longrightarrow> refs L (gpu_pa s') q = refs L pa q)
      else
        rc = -1 \<and> \<not> vg_ready (gg s') \<and> vg_last_error (gg s') \<in> {1..9} \<and> vg_backbuffer (gg s') = 0 \<and>
        same_refs L pa (gpu_pa s')))"

text \<open>The state while the screen is being set up: the back buffer is allocated.\<close>

definition gpu_setup :: "ld_layout \<Rightarrow> page_alloc \<Rightarrow> 'd gsys \<Rightarrow> bool" where
  "gpu_setup L pa s \<longleftrightarrow> vg_calm s \<and> vg_ready (gg s) \<and> pa_inv L (gpu_pa s) \<and> fb_ok L (gg s) (gpu_pa s) \<and>
     (\<forall>q\<in>bb_pages (gg s). refs L pa q = 0) \<and>
     refs L (gpu_pa s) = (\<lambda>q. if q \<in> bb_pages (gg s) then 1 else refs L pa q)"

lemma keep_setup: "vg_keep s s' \<Longrightarrow> gpu_setup L pa s \<Longrightarrow> gpu_setup L pa s'"
  by (simp add: gpu_setup_def vg_keep_def vg_calm_def fb_ok_def screen_ok_def bb_pages_def)

lemma setup_command:
  assumes "others_ok e" and "gpu_setup L pa s"
  shows "\<exists>rc s'. vg_command e req s = Inr (rc, s') \<and> gpu_setup L pa s' \<and> (rc = 0 \<or> rc = -1)"
proof -
  have "vg_calm s"
    using assms(2) by (simp add: gpu_setup_def)
  then obtain rc s' where "vg_command e req s = Inr (rc, s')" "vg_keep s s'" "rc = 0 \<or> rc = -1"
    using command_keep [OF assms(1), of s req] by blast
  then show ?thesis
    using keep_setup [OF _ assms(2)] by blast
qed

lemma release_fail:
  assumes "ld_ok L" and "gpu_setup L pa s" and "code \<in> {1..9}"
  shows "\<exists>r. kbind (vg_release_backbuffer L s) (vg_fail code) = Inr r \<and> gpu_outcome L pa r"
proof -
  obtain s' where s': "vg_release_backbuffer L s = Inr s'" "pa_inv L (gpu_pa s')" "same_refs L pa (gpu_pa s')"
    "vg_backbuffer (gg s') = 0"
    by (rule release_spec [OF assms(1), of s pa]) (use assms(2) in \<open>auto simp: gpu_setup_def\<close>)
  then show ?thesis
    using assms(3) by (auto simp: vg_fail_def gpu_outcome_def set_gpu_def)
qed

lemma undo_fail:
  assumes "ld_ok L" and "others_ok e" and "gpu_setup L pa s" and "code \<in> {1..9}"
  shows "\<exists>r. vg_undo L e code s = Inr r \<and> gpu_outcome L pa r"
proof -
  have "\<exists>s'. vg_cmd_resource_unref e (vg_resource_id (gg s)) s = Inr s' \<and> vg_keep s s'"
    using submit_keep [OF assms(2), of s "ctrl_hdr 0x0102 @ bytes32 (vg_resource_id (gg s)) @ bytes32 0" "replicate 24 0"] assms(3)
    by (auto simp: vg_cmd_resource_unref_def gpu_setup_def vg_calm_def)
  then show ?thesis
    using release_fail [OF assms(1) keep_setup assms(4)] assms(3) by (auto simp: vg_undo_def)
qed

lemma setup_scanout_spec:
  assumes "ld_ok L" and "others_ok e" and "gpu_setup L pa s"
  shows "\<exists>r. vg_setup_scanout L e bytes s = Inr r \<and> gpu_outcome L pa r"
proof -
  have calm: "gpu_setup L pa t \<Longrightarrow> vg_calm t" for t
    by (simp add: gpu_setup_def)
  obtain rc1 s1 where c1: "vg_cmd_resource_create_2d e (vg_resource_id (gg s)) (vg_width_px (gg s)) (vg_height_px (gg s)) s =
      Inr (rc1, s1)" and k1: "gpu_setup L pa s1" and r1: "rc1 = 0 \<or> rc1 = -1"
    using setup_command [OF assms(2) assms(3)] unfolding cmd_defs by blast
  obtain rc2 s2 where c2: "vg_cmd_resource_attach_backing e (vg_resource_id (gg s1)) (vg_backbuffer (gg s1)) bytes s1 =
      Inr (rc2, s2)" and k2: "gpu_setup L pa s2" and r2: "rc2 = 0 \<or> rc2 = -1"
    using setup_command [OF assms(2) k1] unfolding cmd_defs by blast
  obtain rc3 s3 where c3: "vg_cmd_set_scanout e (vg_resource_id (gg s2)) (vg_width_px (gg s2)) (vg_height_px (gg s2)) s2 =
      Inr (rc3, s3)" and k3: "gpu_setup L pa s3" and r3: "rc3 = 0 \<or> rc3 = -1"
    using setup_command [OF assms(2) k2] unfolding cmd_defs by blast
  define s4 where "s4 = s3\<lparr>gk := set_pa ((gpu_pa s3)\<lparr>pmem := memset (vg_backbuffer (gg s3)) 0 bytes (pmem (gpu_pa s3))\<rparr>) (gk s3)\<rparr>"
  have "pa_inv L (t\<lparr>pmem := m\<rparr>) = pa_inv L t" for t m
    by (simp add: pa_inv_def)
  then have k4: "gpu_setup L pa s4"
    using k3 by (simp add: s4_def gpu_setup_def vg_calm_def set_pa_def fb_ok_def)
  obtain s5 where c5: "virtio_gpu_present e s4 = Inr s5" and k5: "gpu_setup L pa s5"
    using present_keep [OF assms(2) calm [OF k4]] keep_setup [OF _ k4] by blast
  have "gpu_outcome L pa (0, set_gpu (\<lambda>g. g\<lparr>vg_last_error := 0\<rparr>) s5)"
    using k5 by (simp add: gpu_outcome_def gpu_setup_def set_gpu_def fb_ok_def screen_ok_def bb_pages_def)
  then show ?thesis
    using release_fail [OF assms(1) k1, of 4] undo_fail [OF assms(1,2) k2, of 5] undo_fail [OF assms(1,2) k3, of 6]
      c1 c2 c3 c5 r1 r2 r3
    by (auto simp: vg_setup_scanout_def Let_def s4_def)
qed

lemma setup_display_spec:
  assumes "ld_ok L" and "others_ok e" and "vg_calm s" and "vg_ready (gg s)" and "pa_inv L (gpu_pa s)" and "vg_backbuffer (gg s) = 0"
  shows "\<exists>r. vg_setup_display L e s = Inr r \<and> gpu_outcome L (gpu_pa s) r"
proof -
  obtain rc out s1 where c1: "vg_cmd_get_display_info e s = Inr (rc, out, s1)" and k1: "vg_keep s s1"
    using submit_keep [OF assms(2), of s "ctrl_hdr 0x0100" "replicate 408 0"] assms(3)
    by (fastforce simp: vg_cmd_get_display_info_def vg_calm_def)
  obtain w h where wh: "vg_choose_size out = (w, h)"
    by fastforce
  note b = choose_size_bounds [OF wh]
  note sb = screen_bytes [OF b]
  let ?n = "(w * 4 * h + PAGE_SIZE - 1) div PAGE_SIZE"
  have n: "unat w * unat h * 4 \<le> unat ?n * 4096" "unat ?n \<le> 768"
    unfolding sb(3) using sb(1,2) div_mult_mod_eq [of "unat w * 4 * unat h + 4095" 4096] by (auto simp: mult.commute mult.left_commute)
  have same: "gpu_pa s1 = gpu_pa s" "vg_backbuffer (gg s1) = 0" "vg_calm s1" "vg_ready (gg s1)"
    using k1 assms(3,4,6) vg_keep_calm [OF k1] by (auto simp: vg_keep_def)
  define s2 where "s2 = set_gpu (\<lambda>g. g\<lparr>vg_backbuffer_pages := ?n\<rparr>) (set_gpu (\<lambda>g. g\<lparr>vg_width_px := w, vg_height_px := h,
    vg_pitch_px := w * 4, vg_resource_id := 1\<rparr>) s1)"
  obtain p pa where al: "alloc_pages_try L ?n (gpu_pa s) = Inr (p, pa)" and inv: "pa_inv L pa"
    and res: "if ?n = 0 \<or> no_room L ?n (gpu_pa s) then p = 0 \<and> refused (gpu_pa s) pa L
      else p \<noteq> 0 \<and> handed_out L p (unat ?n) (gpu_pa s) pa"
    using alloc_pages_try_spec [OF assms(1,5), of ?n] n(2) by auto
  have d: "vg_setup_display L e s =
      (if rc < 0 then vg_fail 3 s1
       else if p = 0 \<or> p < 0x80000000 then vg_fail 9 (s2\<lparr>gk := set_pa pa (gk s2)\<rparr>)
       else vg_setup_scanout L e (w * 4 * h) (set_gpu (\<lambda>g. g\<lparr>vg_backbuffer := p\<rparr>) (s2\<lparr>gk := set_pa pa (gk s2)\<rparr>)))"
    using c1 wh al by (simp add: vg_setup_display_def s2_def set_gpu_def same Let_def)
  have f3: "gpu_outcome L (gpu_pa s) (-1, set_gpu (\<lambda>g. g\<lparr>vg_ready := False, vg_last_error := 3\<rparr>) s1)"
    using assms(5) same by (simp add: gpu_outcome_def set_gpu_def same_refs_def)
  have f9: "gpu_outcome L (gpu_pa s) (-1, set_gpu (\<lambda>g. g\<lparr>vg_ready := False, vg_last_error := 9\<rparr>) (s2\<lparr>gk := set_pa pa (gk s2)\<rparr>))"
    if "p = 0"
    using that inv same res by (auto simp: gpu_outcome_def set_gpu_def same_refs_def set_pa_def s2_def refused_def split: if_splits)
  have hi: "\<not> p < 0x80000000" and st: "gpu_setup L (gpu_pa s) (set_gpu (\<lambda>g. g\<lparr>vg_backbuffer := p\<rparr>) (s2\<lparr>gk := set_pa pa (gk s2)\<rparr>))"
    if "p \<noteq> 0"
  proof -
    have ho: "handed_out L p (unat ?n) (gpu_pa s) pa"
      using res that by (auto split: if_splits)
    then have "unat p = pfn p * 4096" "524800 \<le> pfn p"
      using ram_pfn(4) [OF assms(1)] pfn_aligned [of p] by (auto simp: handed_out_def)
    then show "\<not> p < 0x80000000"
      by (simp add: word_less_nat_alt)
    show "gpu_setup L (gpu_pa s) (set_gpu (\<lambda>g. g\<lparr>vg_backbuffer := p\<rparr>) (s2\<lparr>gk := set_pa pa (gk s2)\<rparr>))"
      using ho that same b n inv
      by (auto simp: gpu_setup_def set_gpu_def s2_def set_pa_def vg_calm_def fb_ok_def screen_ok_def bb_pages_def handed_out_def)
  qed
  show ?thesis
    using d f3 f9 hi setup_scanout_spec [OF assms(1,2) st] by (auto simp: vg_fail_def)
qed

lemma writes_keep: "vg_keep s (vg_mmio_writes e ws s)"
proof (induction ws arbitrary: s)
  case (Cons x ws)
  have "vg_keep s (vg_mmio_write e (fst x) (snd x) s)"
    by (simp add: vg_mmio_write_def vg_keep_def)
  then show ?case
    using vg_keep_trans Cons [of "vg_mmio_write e (fst x) (snd x) s"] by (cases x) auto
qed simp

lemma read_keep: "vg_mmio_read e off s = (v, s') \<Longrightarrow> vg_keep s s'"
  by (auto simp: vg_mmio_read_def vg_keep_def split: prod.splits)

lemma write_keep: "vg_keep s (vg_mmio_write e off v s)"
  by (simp add: vg_mmio_write_def vg_keep_def)

lemma negotiate_keep:
  assumes "vg_negotiate e s = (r, s')"
  shows "vg_keep s s'" and "r = Some code \<Longrightarrow> code \<in> {1..9}"
proof -
  obtain lo s2 where r2: "vg_mmio_read e 0x010
      (vg_mmio_writes e [(VG_MMIO_STATUS, 0), (VG_MMIO_STATUS, 1), (VG_MMIO_STATUS, 3), (0x014, 0)] s) = (lo, s2)"
    by fastforce
  obtain hi s3 where r3: "vg_mmio_read e 0x010 (vg_mmio_write e 0x014 1 s2) = (hi, s3)"
    by fastforce
  define s4 where "s4 = vg_mmio_writes e [(0x024, 0), (0x020, ucast (push_bit 32 1 :: u64)), (0x024, 1),
    (0x020, ucast (drop_bit 32 (push_bit 32 1 :: u64))), (VG_MMIO_STATUS, 11)] s3"
  obtain st s5 where r5: "vg_mmio_read e VG_MMIO_STATUS s4 = (st, s5)"
    by fastforce
  have "vg_keep s s3"
    using vg_keep_trans [OF writes_keep read_keep [OF r2]] vg_keep_trans [OF write_keep read_keep [OF r3]] vg_keep_trans by blast
  moreover from this have "vg_keep s s5"
    using vg_keep_trans [OF _ vg_keep_trans [OF writes_keep read_keep [OF r5 [unfolded s4_def]]]] by blast
  moreover have "(r, s') = (Some 7, s3) \<or> (r, s') = (Some 8, s5) \<or> (r, s') = (None, s5)"
    using assms r2 r3 r5 unfolding vg_negotiate_def s4_def
    by (auto simp: Let_def split: prod.splits if_splits simp del: vg_mmio_writes.simps)
  ultimately show "vg_keep s s'" and "r = Some code \<Longrightarrow> code \<in> {1..9}"
    by auto
qed

lemma queue_setup_keep:
  assumes "vg_queue_setup e s = (r, s')"
  shows "kvm (gk s') = kvm (gk s)" and "idle_proc (tab (gk s')) = idle_proc (tab (gk s))"
    and "vg_backbuffer (gg s') = vg_backbuffer (gg s)"
    and "r = None \<Longrightarrow> vg_ready (gg s') \<and> wq_lock (vg_waitq (gg s')) = 0"
    and "r = Some code \<Longrightarrow> code = 2 \<and> vg_ready (gg s') = vg_ready (gg s)"
proof -
  have w: "vg_keep t (vg_mmio_writes e ws t)" for t ws
    by (rule writes_keep)
  show "kvm (gk s') = kvm (gk s)" "idle_proc (tab (gk s')) = idle_proc (tab (gk s))" "vg_backbuffer (gg s') = vg_backbuffer (gg s)"
    "r = None \<Longrightarrow> vg_ready (gg s') \<and> wq_lock (vg_waitq (gg s')) = 0"
    "r = Some code \<Longrightarrow> code = 2 \<and> vg_ready (gg s') = vg_ready (gg s)"
    using assms by (auto simp: vg_queue_setup_def vg_mmio_write_def vg_mmio_read_def set_gpu_def waitq_init_def Let_def
        split: prod.splits if_splits)
qed

lemma virtio_gpu_init_spec:
  assumes "ld_ok L" and "others_ok e" and "idle_proc (tab (gk s)) \<noteq> None" and "\<not> vg_ready (gg s)"
    and "vg_backbuffer (gg s) = 0" and "pa_inv L (gpu_pa s)"
  shows "\<exists>r. virtio_gpu_init L e s = Inr r \<and> gpu_outcome L (gpu_pa s) r"
proof -
  define s0 where "s0 = set_gpu (\<lambda>g. g\<lparr>vg_last_error := 0, vg_resource_id := 0\<rparr>) s"
  obtain dev_base d where pr: "vg_probe e [0..<32] (gd s0) = (dev_base, d)"
    by fastforce
  define s1 where "s1 = set_gpu (\<lambda>g. g\<lparr>vg_base := dev_base\<rparr>) (s0\<lparr>gd := d\<rparr>)"
  obtain r2 s2 where n: "vg_negotiate e s1 = (r2, s2)"
    by fastforce
  obtain r3 s3 where q: "vg_queue_setup e s2 = (r3, s3)"
    by fastforce
  have rel: "vg_release_backbuffer L s0 = Inr s0"
    using assms(5) by (simp add: vg_release_backbuffer_def s0_def set_gpu_def)
  have init: "virtio_gpu_init L e s = (if dev_base = 0 then vg_error 1 s1 else case r2 of Some c \<Rightarrow> vg_error c s2
      | None \<Rightarrow> (case r3 of Some c \<Rightarrow> vg_error c s3 | None \<Rightarrow> vg_setup_display L e s3))"
    using assms(4) rel pr n q unfolding virtio_gpu_init_def
    by (simp add: s0_def [symmetric] s1_def [symmetric] Let_def split: option.split) (auto simp: s1_def)
  have s1: "gpu_pa s1 = gpu_pa s" "vg_backbuffer (gg s1) = 0" "\<not> vg_ready (gg s1)" "idle_proc (tab (gk s1)) \<noteq> None"
    using assms by (simp_all add: s1_def s0_def set_gpu_def)
  have s2: "gpu_pa s2 = gpu_pa s" "vg_backbuffer (gg s2) = 0" "\<not> vg_ready (gg s2)" "idle_proc (tab (gk s2)) \<noteq> None"
    using negotiate_keep(1) [OF n] s1 by (simp_all add: vg_keep_def)
  note qk = queue_setup_keep [OF q]
  have err: "\<exists>r. vg_error code t = Inr r \<and> gpu_outcome L (gpu_pa s) r"
    if "gpu_pa t = gpu_pa s" "vg_backbuffer (gg t) = 0" "\<not> vg_ready (gg t)" "code \<in> {1..9}" for code and t :: "'a gsys"
    using that assms(6) by (simp add: vg_error_def gpu_outcome_def set_gpu_def same_refs_def)
  have disp: "\<exists>r. vg_setup_display L e s3 = Inr r \<and> gpu_outcome L (gpu_pa s) r" if "r3 = None"
    using setup_display_spec [OF assms(1,2), of s3] qk(1-3) qk(4) [OF that] s2 assms(6) by (auto simp: vg_calm_def)
  show ?thesis
    using init err [of s1 1] err [of s2] err [of s3] disp s1 s2 negotiate_keep(2) [OF n] qk(1,3,5)
    by (auto split: option.split)
qed


text \<open>A device that answers every command at once with success.\<close>

definition demo_env :: "unit genv" where
  "demo_env =
     \<lparr>bus_read = (\<lambda>a d. (if a = 0x10001000 then VIRTIO_MAGIC else if a = 0x10001008 then 16 else 63, d)),
      bus_write = (\<lambda>_ _ d. d),
      gpu_dma = (\<lambda>req q d. (q\<lparr>vused_idx := avail_idx q\<rparr>, bytes32 (if le32 req = 0x0100 then 0x1101 else 0x1100), d)),
      gpu_others = (\<lambda>s. s), req_addr = 0x80300000, resp_addr = 0x80300100, desc_addr = 0x80301000, avail_addr = 0x80302000,
      used_addr = 0x80303000\<rparr>"

definition gpu_boot :: gpu where
  "gpu_boot = \<lparr>vg_q = zero_virtq, vg_base = 0, vg_ready = False, vg_last_used = 0, vg_last_error = 0, vg_width_px = 0,
     vg_height_px = 0, vg_pitch_px = 0, vg_resource_id = 0, vg_backbuffer = 0, vg_backbuffer_pages = 0,
     vg_waitq = \<lparr>waiters = replicate PROC_MAX None, wq_lock = 0\<rparr>\<rparr>"

definition gsys_boot :: "unit gsys" where
  "gsys_boot = \<lparr>gg = gpu_boot,
     gk = \<lparr>tab = \<lparr>procs = replicate PROC_MAX zero_process, current_proc = Some 0, idle_proc = Some 0\<rparr>,
           kvm = \<lparr>pa_state = pa_boot (\<lambda>_. 0), kernel_root_pt = 0, kernel_satp_value = 0\<rparr>, khart = hart_boot\<rparr>,
     gd = ()\<rparr>"


end
