(* ===== verification/Syscall_Spec.thy ===== *)
theory Syscall_Spec
  imports Syscall Ramfs_Spec Console_Spec Virtio_Gpu_Spec
begin

text \<open>
  Properties of system calls: what a user process finds in its registers when a call returns, that no call
  gives it the privileges of the kernel, and the two returns of a fork.
\<close>

section \<open>The saved context of the caller\<close>

lemma proc_at_set_proc: "proc_at j (set_proc i p S) = (if j = i \<and> i < length (procs (tab S)) then p else proc_at j S)"
  by (cases "i < length (procs (tab S))") (auto simp: proc_at_def set_proc_def list_update_beyond)

lemma ksys_set [simp]:
  "ksys (set_ksys S K) = S" "kfs (set_ksys S K) = kfs K" "kcon (set_ksys S K) = kcon K" "kevs (set_ksys S K) = kevs K"
  by (simp_all add: ksys_def set_ksys_def)

lemma set_proc_simps [simp]:
  "length (procs (tab (set_proc i p S))) = length (procs (tab S))" "current_proc (tab (set_proc i p S)) = current_proc (tab S)"
  "idle_proc (tab (set_proc i p S)) = idle_proc (tab S)"
  "kvm (set_proc i p S) = kvm S" "khart (set_proc i p S) = khart S"
  by (simp_all add: set_proc_def)

lemma set_pa_simps [simp]:
  "tab (set_pa s S) = tab S" "khart (set_pa s S) = khart S" "pa_state (kvm (set_pa s S)) = s" "proc_at i (set_pa s S) = proc_at i S"
  "proc_at i (S\<lparr>kvm := v\<rparr>) = proc_at i S"
  by (simp_all add: set_pa_def proc_at_def)

lemma save_context_frame:
  "c < length (procs (tab (ksys K))) \<Longrightarrow> p_trap_frame (proc_at c (ksys (save_context (Some c) f K))) = f"
  by (simp add: save_context_def proc_at_set_proc)

lemma ecall_enter_state:
  fixes K :: "'d kernel" and f :: trap_frame
  assumes "c < length (procs (tab (ksys K)))"
  defines "K' \<equiv> ecall_enter (Some c) f K"
  shows "proc_at c (ksys K') = (proc_at c (ksys K))\<lparr>p_trap_frame := f, p_sepc := tf_sepc f, has_trap_frame := True\<rparr>"
    and "i \<noteq> c \<Longrightarrow> proc_at i (ksys K') = proc_at i (ksys K)"
    and "length (procs (tab (ksys K'))) = length (procs (tab (ksys K)))"
    and "current_proc (tab (ksys K')) = current_proc (tab (ksys K))"
    and "kfs K' = kfs K" and "kcon K' = kcon K" and "kevs K' = kevs K" and "kvm (ksys K') = kvm (ksys K)"
proof -
  have h: "proc_at i (S\<lparr>khart := h\<rparr>) = proc_at i S" for i S h
    by (simp add: proc_at_def)
  show "proc_at c (ksys K') = (proc_at c (ksys K))\<lparr>p_trap_frame := f, p_sepc := tf_sepc f, has_trap_frame := True\<rparr>"
    using assms(1) by (simp add: K'_def ecall_enter_def save_context_def proc_at_set_proc h Let_def)
  show "i \<noteq> c \<Longrightarrow> proc_at i (ksys K') = proc_at i (ksys K)"
    by (simp add: K'_def ecall_enter_def save_context_def proc_at_set_proc h Let_def)
qed (simp_all add: K'_def ecall_enter_def save_context_def Let_def)

section \<open>Exec\<close>

lemma proc_exec_frame:
  assumes "proc_exec L entry_pc argv S = Inr (0, S')" and "current_proc (tab S) = Some c" and "c < length (procs (tab S))"
  shows "\<exists>argc top. p_trap_frame (proc_at c S') =
      zero_frame\<lparr>tf_sp := top, tf_a0 := argc, tf_a1 := argv, tf_sepc := entry_pc, tf_sstatus := SSTATUS_SPIE\<rparr>"
    and "entry_pc \<noteq> 0" and "length (procs (tab S')) = length (procs (tab S))"
  using assms
  by (auto simp: proc_exec_def kbind_Inr_iff Let_def arch_init_user_context_def proc_at_set_proc case_prod_unfold
      split: if_splits option.splits) blast

section \<open>Fork\<close>

lemma proc_fork_child:
  assumes "proc_fork L S = Inr (v, S')" and "current_proc (tab S) = Some c" and "c < length (procs (tab S))"
    and "state (proc_at c S) \<noteq> PROC_UNUSED" and "v \<noteq> -1"
  obtains i where "v = int i + 1" and "i < length (procs (tab S))" and "i \<noteq> c" and "state (proc_at i S) = PROC_UNUSED"
    and "p_trap_frame (proc_at i S') = (p_trap_frame (proc_at c S))\<lparr>tf_a0 := 0\<rparr>"
    and "parent_pid (proc_at i S') = pid (proc_at c S)" and "state (proc_at i S') = PROC_RUNNABLE" and "is_user (proc_at i S')"
    and "fds (proc_at i S') = fds (proc_at c S)" and "vmas (proc_at i S') = vmas (proc_at c S)"
    and "proc_at c S' = proc_at c S" and "length (procs (tab S')) = length (procs (tab S))"
proof -
  obtain i where i: "alloc_process_slot S = Some i" and u: "is_user (proc_at c S)" "has_trap_frame (proc_at c S)"
    using assms(1,2,5) by (auto simp: proc_fork_def cur_def split: if_splits option.splits)
  then have il: "i < length (procs (tab S))" and iu: "state (proc_at i S) = PROC_UNUSED"
    by (auto simp: alloc_process_slot_def proc_at_def dest: first_idx_SomeD)
  have ic: "i \<noteq> c"
    using assms(4) iu by auto
  let ?p = "proc_at c S"
  obtain pa1 vm1 sv sv2 pa2 child where v: "v = pid child" and S': "S' = set_proc i child (set_pa pa2 ((set_pa pa1 S)\<lparr>kvm := vm1\<rparr>))"
    and ch: "child = arch_init_switch_context (kstack_end L i)
      ((arch_clone_user_context ((init_process_common (int i + 1) (pid ?p) True (priority ?p))
          \<lparr>user_stack_pages := user_stack_pages ?p, user_stack_paddr := sv, user_stack_base := user_stack_base ?p, p_satp := sv2,
           vmas := vmas ?p, fds := fds ?p\<rparr>) ?p (user_stack_base ?p + (tf_sp (p_trap_frame ?p) - user_stack_base ?p)))
        \<lparr>user_stack_paddr := user_stack_paddr ?p\<rparr>) (arch_resume_from_trap_addr L) (khart S)"
    using assms(1,2,5) i u
    by (auto simp: proc_fork_def cur_def kbind_Inr_iff Let_def arch_user_stack_pointer_def case_prod_unfold split: if_splits)
  have tab: "procs (tab (set_pa pa2 ((set_pa pa1 S)\<lparr>kvm := vm1\<rparr>))) = procs (tab S)"
    by simp
  show ?thesis
    using il iu ic S' v
    by (intro that [of i]) (simp_all add: proc_at_set_proc ch arch_init_switch_context_def arch_clone_user_context_def
        init_process_common_def Let_def)
qed

section \<open>Properties\<close>

definition syscall_numbers :: "u32 set" where
  "syscall_numbers = {1, 2, 3, 4, 5, 6, 7, 8, 20, 21, 22, 23, 24, 25, 26, 40, 41, 60, 61, 62, 63}"

lemma dispatch_unknown: "n \<notin> syscall_numbers \<Longrightarrow> syscall_dispatch E n args K = Inr (Ret (-1), False, K)"
  by (simp add: syscall_numbers_def syscall_dispatch_def)

lemma dispatch_replaced:
  assumes "syscall_dispatch E n args K = Inr (r, b, K')" and b
  shows "n = SYS_EXEC" and "r = Ret 0" and "proc_exec (klayout E) (args ! 0) (args ! 1) (ksys K) = Inr (0, ksys K')"
proof -
  show n: "n = SYS_EXEC"
    using assms by (cases "n = SYS_EXEC") (auto simp: syscall_dispatch_def Let_def kbind_Inr_iff)
  show "r = Ret 0" and "proc_exec (klayout E) (args ! 0) (args ! 1) (ksys K) = Inr (0, ksys K')"
    using assms unfolding n by (auto simp: syscall_dispatch_def sys_exec_def kbind_Inr_iff Let_def)
qed

text \<open>
  What a process finds when a system call returns. A call from user mode that returns leaves the
  process in user mode. The frame it returns with is the one it trapped with, except that the program
  counter is behind the \<^verbatim>\<open>ecall\<close> and \<^verbatim>\<open>a0\<close> holds the result; only a successful exec replaces the frame, by
  one that starts at the given entry, with the argument vector in \<^verbatim>\<open>a1\<close> and all other registers cleared. A
  number that is no system call gives -1 and changes nothing but the saved context of the process.
\<close>

lemma ecall_frame:
  assumes "current_proc (tab (ksys K)) = Some c" and "c < length (procs (tab (ksys K)))"
    and "tf_sstatus f AND SSTATUS_SPP = 0" and "arch_handle_ecall E f K = Inr (To_frame f', K')"
  shows "tf_sstatus f' AND SSTATUS_SPP = 0 \<and>
    (f' = f\<lparr>tf_sepc := tf_sepc f + 4, tf_a0 := tf_a0 f'\<rparr> \<or>
     tf_a7 f = SYS_EXEC \<and> tf_a0 f \<noteq> 0 \<and>
       (\<exists>argc top. f' = zero_frame\<lparr>tf_sp := top, tf_a0 := argc, tf_a1 := tf_a1 f, tf_sepc := tf_a0 f, tf_sstatus := SSTATUS_SPIE\<rparr>)) \<and>
    (tf_a7 f \<notin> syscall_numbers \<longrightarrow>
       f' = f\<lparr>tf_sepc := tf_sepc f + 4, tf_a0 := - 1\<rparr> \<and>
       K' = save_context (Some c) f' (ecall_enter (Some c) (f\<lparr>tf_sepc := tf_sepc f + 4\<rparr>) K))"
proof -
  let ?f = "f\<lparr>tf_sepc := tf_sepc f + 4\<rparr>"
  let ?K = "ecall_enter (Some c) ?f K"
  let ?args = "[tf_a0 f, tf_a1 f, tf_a2 f, tf_a3 f, tf_a4 f, tf_a5 f]"
  note en = ecall_enter_state [where f = ?f, OF assms(2)]
  obtain r b K1 where d: "syscall_dispatch E (tf_a7 f) ?args ?K = Inr (r, b, K1)"
    and out: "ecall_outcome (Some c) True ?f (r, b, K1) = Inr (To_frame f', K')"
    using assms(1,3,4) by (auto simp: arch_handle_ecall_def Let_def kbind_Inr_iff)
  obtain v where v: "r = Ret v"
    using out by (cases r) (auto simp: ecall_outcome_def)
  show ?thesis
  proof (cases b)
    case True
    note x = dispatch_replaced [OF d True]
    have fr: "f' = p_trap_frame (proc_at c (ksys K1))"
      using out v True by (simp add: ecall_outcome_def ecall_finish_def Let_def)
    have "current_proc (tab (ksys ?K)) = Some c" "c < length (procs (tab (ksys ?K)))"
      using en(3,4) assms(1,2) by simp_all
    note e = proc_exec_frame [OF x(3) this]
    have "tf_sstatus f' = SSTATUS_SPIE"
      using e(1) fr by auto
    then show ?thesis
      using e(1,2) fr x(1) by (auto simp: syscall_numbers_def)
  next
    case False
    then have fr: "f' = ?f\<lparr>tf_a0 := of_int v\<rparr>" "K' = save_context (Some c) f' K1"
      using out v by (auto simp add: ecall_outcome_def ecall_finish_def Let_def)
    moreover have "v = -1 \<and> K1 = ?K" if "tf_a7 f \<notin> syscall_numbers"
      using dispatch_unknown [OF that, of E ?args ?K] d v by simp
    ultimately show ?thesis
      using assms(3) by simp
  qed
qed


section \<open>Witnesses\<close>

text \<open>A kernel with a user process in slot 2, all other slots taken.\<close>

definition demo_kernel :: "unit kernel" where
  "demo_kernel =
     \<lparr>kg = gsys_boot\<lparr>gk := (gk gsys_boot)\<lparr>tab :=
        \<lparr>procs = replicate PROC_MAX (zero_process\<lparr>pid := 3, state := PROC_RUNNABLE, is_user := True\<rparr>),
         current_proc = Some 2, idle_proc = Some 0\<rparr>\<rparr>\<rparr>,
      kfs = fs_demo, kcon = console_boot, kevs = kevents_boot\<rparr>"

definition demo_kenv :: "unit kenv" where
  "demo_kenv = \<lparr>klayout = ld_example, kgenv = demo_env, kblk = (\<lambda>_. None), ksbi = -1, khole = [0, 0, 0, 0]\<rparr>"

definition putchar_frame :: trap_frame where
  "putchar_frame = zero_frame\<lparr>tf_a7 := 1, tf_a0 := 0x41, tf_s3 := 77, tf_sepc := 0x80210000\<rparr>"

lemma demo_state:
  "current_proc (tab (ksys demo_kernel)) = Some 2" "length (procs (tab (ksys demo_kernel))) = 8"
  "i < 8 \<Longrightarrow> proc_at i (ksys demo_kernel) = zero_process\<lparr>pid := 3, state := PROC_RUNNABLE, is_user := True\<rparr>"
  by (simp_all add: demo_kernel_def ksys_def proc_at_def)


end
