(* ===== verification/Trap_Spec.thy ===== *)
theory Trap_Spec
  imports Trap Syscall_Spec
begin

text \<open>
  What a trap from user mode can return with. Together with the entry code this bounds what the kernel does
  to the registers of a user process.
\<close>

lemma trap_unserved_exits: "trap_unserved E f M = Inr (x, M') \<Longrightarrow> x = Exited"
  by (auto simp: trap_unserved_def Let_def kbind_Inr_iff split: option.splits if_splits)

lemma trap_fault_frame: "trap_fault E f M = Inr (To_frame f', M') \<Longrightarrow> f' = f"
  by (auto simp: trap_fault_def Let_def kbind_Inr_iff split: option.splits if_splits dest: trap_unserved_exits)

text \<open>
  C2. The return from a trap. When a trap that came from user mode returns, it returns to user mode. After
  an interrupt or a fault that was served, every register and the program counter are those of the
  interrupted code. After a system call only \<^verbatim>\<open>a0\<close> has changed and the program counter is behind the \<^verbatim>\<open>ecall\<close>,
  except for a successful exec, which starts the new program at its entry with cleared registers. A
  number that is no system call gives -1 and changes no state but the saved context of the process.
\<close>

theorem handle_trap_user_frame:
  assumes "current_proc (tab (msys M)) = Some c" and "c < length (procs (tab (msys M)))"
    and "tf_sstatus f AND SSTATUS_SPP = 0" and "handle_trap E f M = Some (Inr (To_frame f', M'))"
  shows "tf_sstatus f' AND SSTATUS_SPP = 0 \<and>
    (if is_syscall_scause (scause (khart (msys M))) then
       (f' = f\<lparr>tf_sepc := tf_sepc f + 4, tf_a0 := tf_a0 f'\<rparr> \<or>
        tf_a7 f = SYS_EXEC \<and> tf_a0 f \<noteq> 0 \<and>
          (\<exists>argc top. f' = zero_frame\<lparr>tf_sp := top, tf_a0 := argc, tf_a1 := tf_a1 f, tf_sepc := tf_a0 f, tf_sstatus := SSTATUS_SPIE\<rparr>)) \<and>
       (tf_a7 f \<notin> syscall_numbers \<longrightarrow>
          f' = f\<lparr>tf_sepc := tf_sepc f + 4, tf_a0 := - 1\<rparr> \<and>
          M' = M\<lparr>mk := save_context (Some c) f' (ecall_enter (Some c) (f\<lparr>tf_sepc := tf_sepc f + 4\<rparr>) (mk M))\<rparr>)
     else f' = f)"
proof (cases "is_syscall_scause (scause (khart (msys M)))")
  case True
  then have "scause (khart (msys M)) \<noteq> SCAUSE_SUPERVISOR_EXTERNAL_IRQ"
    by (auto simp: is_syscall_scause_def)
  then obtain K' where "arch_handle_ecall (menv_k E) f (mk M) = Inr (To_frame f', K')" "M' = M\<lparr>mk := K'\<rparr>"
    using True assms(4) by (auto simp: handle_trap_def Let_def kbind_Inr_iff)
  then show ?thesis
    using True ecall_frame [of "mk M" c f "menv_k E" f' K'] assms(1-3) by (simp add: msys_def)
next
  case False
  then have "f' = f"
    using assms(4)
    by (auto simp: handle_trap_def Let_def kbind_Inr_iff split: if_splits dest: trap_fault_frame)
  then show ?thesis
    using False assms(3) by simp
qed

text \<open>A system call that prints a character.\<close>

definition demo_machine :: "unit machine" where
  "demo_machine =
     \<lparr>mk = set_ksys ((ksys demo_kernel)\<lparr>khart := hart_boot\<lparr>scause := 8\<rparr>\<rparr>) demo_kernel,
      mblk = \<lparr>bq = zero_virtq, blk_slots = replicate 8 zero_slot, blk_used_idx = 0, blk_ready = False, virtio_base = 0,
        blk_waitq = \<lparr>waiters = replicate PROC_MAX None, wq_lock = 0\<rparr>, blk_lock = 0\<rparr>,
      mvi = \<lparr>vi_q = [], vi_events = [], vi_bases = [], vi_last_used = [], vi_dev_count = 0, vi_rr_next = 0, vi_ev_debug_budget = 0\<rparr>,
      g_last_user_scause = 0, g_last_user_stval = 0, g_last_user_sepc = 0\<rparr>"

definition demo_menv :: "unit menv" where
  "demo_menv = \<lparr>menv_k = demo_kenv,
     menv_i = \<lparr>bus_read = (\<lambda>_ d. (0, d)), bus_write = (\<lambda>_ _ d. d), vi_events_addr = (\<lambda>_. 0), vi_desc_addr = (\<lambda>_. 0),
       vi_avail_addr = (\<lambda>_. 0), vi_used_addr = (\<lambda>_. 0)\<rparr>,
     kernel_entry_addr = 0x80200000, csr_sip = (\<lambda>_. 0)\<rparr>"

lemma handle_trap_user_frame_witness:
  "\<exists>f' M'. handle_trap demo_menv putchar_frame demo_machine = Some (Inr (To_frame f', M')) \<and>
     tf_s3 f' = 77 \<and> tf_sepc f' = 0x80210004"
proof -
  have c: "scause (khart (msys demo_machine)) = 8" "current_proc (tab (msys demo_machine)) = Some 2"
    "2 < length (procs (tab (msys demo_machine)))"
    using demo_state(1,2) by (simp_all add: demo_machine_def msys_def)
  have spp: "tf_sstatus putchar_frame AND SSTATUS_SPP = 0"
    by (simp add: putchar_frame_def zero_frame_def)
  have "\<exists>f' K'. arch_handle_ecall demo_kenv putchar_frame (mk demo_machine) = Inr (To_frame f', K')"
    by (simp add: arch_handle_ecall_def Let_def syscall_dispatch_def returns_def sys_putchar_def ecall_outcome_def
      putchar_frame_def zero_frame_def case_prod_unfold)
  then obtain f' M' where r: "handle_trap demo_menv putchar_frame demo_machine = Some (Inr (To_frame f', M'))"
    using c(1) by (auto simp: handle_trap_def is_syscall_scause_def demo_menv_def)
  have "tf_a7 putchar_frame \<noteq> SYS_EXEC"
    by (simp add: putchar_frame_def)
  then have f': "f' = putchar_frame\<lparr>tf_sepc := tf_sepc putchar_frame + 4, tf_a0 := tf_a0 f'\<rparr>"
    using handle_trap_user_frame [OF c(2,3) spp r] c(1) by (simp add: is_syscall_scause_def)
  have "tf_s3 f' = tf_s3 putchar_frame" "tf_sepc f' = tf_sepc putchar_frame + 4"
    using arg_cong [OF f', of tf_s3] arg_cong [OF f', of tf_sepc] by simp_all
  then show ?thesis
    using r by (simp add: putchar_frame_def)
qed

end
