(* ===== verification/Boot_Spec.thy ===== *)
theory Boot_Spec
  imports Boot Trap_Spec Process_Spec Ramfs_Spec
begin

text \<open>
  The kernel comes up: from any contents of memory, with every component initialised by its own function,
  \<^verbatim>\<open>kernel_main\<close> reaches its final loop in a state in which the contracts of the components hold, and the first pass of
  the loop starts the shell.
\<close>

section \<open>The components after .bss is cleared\<close>

lemma zero_pa_boot: "zero_pa s = pa_boot (pmem s)"
  by (simp add: zero_pa_def pa_boot_def)

lemma boot_has_room:
  assumes "ld_ok L"
  shows "\<not> no_room L 1 (pa_boot m)"
proof -
  note L = ld_ok_free_ram [OF assms] and T = unat_ref_top [OF assms]
  have "unat (free_ram_end L - free_ram L) = 0x2000000"
    using L by (subst unat_sub) (simp_all add: word_le_nat_alt)
  then have "unat ((free_ram_end L - free_ram L) div 4096) = unat (8192 :: u32)"
    by (simp add: unat_div)
  then have cnt: "(free_ram_end L - free_ram L) div 4096 = 8192"
    by (simp only: word_unat_eq_iff)
  have "\<not> ref_top L \<le> free_ram L"
    using T L by (simp add: word_le_nat_alt)
  then show ?thesis
    using T L by (simp add: no_room_def init_allocator_if_needed_def pa_boot_def Let_def cnt ref_top_def)
qed

lemma zero_fs_init: "\<exists>f'. fs_init (zero_fs f) = Inr f' \<and> fs_ok f' \<and> files f' = [readme_name \<mapsto> readme_text]"
proof -
  define f0 where "f0 = set_inode 0 readme_inode (fs_start\<lparr>fs_initialized := True\<rparr>)"
  define f1 where "f1 = set_inode 0 readme_inode (fs_start\<lparr>fs_initialized := True, ext4_fs := ext4_fs f\<rparr>)"
  have "alloc_inode (zero_fs f\<lparr>inodes := replicate RAMFS_MAX_FILES zero_inode\<rparr>) = Some 0"
    by (auto simp: alloc_inode_def first_idx_Some_iff zero_inode_def zero_fs_def)
  moreover have "length readme_text = 12"
    by (simp add: readme_text_def)
  ultimately have i: "fs_init (zero_fs f) = Inr f1"
    by (simp add: fs_init_def Let_def put_bytes_def zero_inode_def set_inode_def fs_start_def readme_inode_def drop_replicate
        zero_fs_def f1_def)
  have eq: "inodes f1 = inodes f0"
    by (simp add: f0_def f1_def set_inode_def)
  note ok = fs_init_ok [OF fs_init_eq, folded f0_def]
  have "files f1 = files f0"
    by (simp add: files_def find_inode_by_name_def eq fun_eq_iff)
  then show ?thesis
    using i ok inodes_cong(1) [OF eq] by auto
qed

lemma boot_machine_simps:
  "msys (set_msys S M) = S" "msys (set_mdev d M) = msys M" "msys (clear_bss M) = zero_sys (msys M)"
  "msys (M\<lparr>mk := (mk M)\<lparr>kevs := q\<rparr>\<rparr>) = msys M" "msys (M\<lparr>mk := (mk M)\<lparr>kfs := f\<rparr>\<rparr>) = msys M"
  "kevs (mk (set_msys S M)) = kevs (mk M)" "kevs (mk (set_mdev d M)) = kevs (mk M)" "kevs (mk (clear_bss M)) = zero_kevents"
  "kfs (mk (set_msys S M)) = kfs (mk M)" "kfs (mk (set_mdev d M)) = kfs (mk M)" "kfs (mk (clear_bss M)) = zero_fs (kfs (mk M))"
  by (simp_all add: msys_def set_msys_def ksys_def set_ksys_def set_mdev_def clear_bss_def)

section \<open>Boot\<close>

definition new_thread :: "ld_layout \<Rightarrow> nat \<Rightarrow> u32 \<Rightarrow> u32 \<Rightarrow> hart \<Rightarrow> process" where
  "new_thread L i pc sv h =
     arch_init_switch_context (kstack_end L i) ((init_process_common (int i + 1) 0 False PROC_PRIORITY_MIN)\<lparr>p_satp := sv\<rparr>) pc h"

lemma new_thread_simps [simp]:
  "pid (new_thread L i pc sv h) = int i + 1" "state (new_thread L i pc sv h) = PROC_RUNNABLE" "budget (new_thread L i pc sv h) = 1"
  "p_satp (new_thread L i pc sv h) = sv" "stack_top_words (new_thread L i pc sv h) ! 0 = pc" "is_user (new_thread L i pc sv h) = False"
  by (simp_all add: new_thread_def arch_init_switch_context_def init_process_common_def Let_def)

definition boot_procs :: "ld_layout \<Rightarrow> u32 \<Rightarrow> u32 \<Rightarrow> u32 \<Rightarrow> hart \<Rightarrow> hart \<Rightarrow> process list" where
  "boot_procs L idle_entry user_init_entry sv h h' =
     [new_thread L 0 idle_entry sv h, new_thread L 1 user_init_entry sv h'] @ replicate 6 zero_process"

text \<open>The machine at the final loop.\<close>

definition booted :: "'d menv \<Rightarrow> u32 \<Rightarrow> u32 \<Rightarrow> 'd machine \<Rightarrow> bool" where
  "booted E idle_entry user_init_entry M \<longleftrightarrow>
     (let L = klayout (menv_k E); S = msys M; h = khart S in
      vm_ready L (kvm S) \<and> satp h = kernel_satp_value (kvm S) \<and> stvec h = kernel_entry_addr E \<and> sscratch h = 0 \<and>
      sie h = SIE_SEIE \<and> sstatus h AND SSTATUS_SIE \<noteq> 0 \<and>
      kevent_payloads (kevs (mk M)) = [] \<and> fs_ok (kfs (mk M)) \<and> files (kfs (mk M)) = [readme_name \<mapsto> readme_text] \<and>
      idle_proc (tab S) = Some 0 \<and> current_proc (tab S) = Some 0 \<and>
      (\<exists>h1 h2. procs (tab S) = boot_procs L idle_entry user_init_entry (satp h) h1 h2))"

lemma alloc_first: "procs (tab S) = replicate 8 zero_process \<Longrightarrow> alloc_process_slot S = Some 0"
  and alloc_second: "procs (tab S) = p # replicate 7 zero_process \<Longrightarrow> state p \<noteq> PROC_UNUSED \<Longrightarrow> alloc_process_slot S = Some 1"
  by (simp_all add: alloc_process_slot_def numeral_eq_Suc zero_process_def)

lemma create_thread:
  assumes "alloc_process_slot S = Some i"
  shows "create_process L pc S =
    (Some i, S\<lparr>tab := (tab S)\<lparr>procs := (procs (tab S))[i := new_thread L i pc (kernel_satp_value (kvm S)) (khart S)]\<rparr>\<rparr>)"
  using assms by (simp add: create_process_def new_thread_def Let_def set_proc_def)

lemma boot_spec:
  assumes "ld_ok (klayout (menv_k E))"
  shows "\<exists>M'. kernel_boot E idle_entry user_init_entry M = Inr M' \<and> booted E idle_entry user_init_entry M'"
proof -
  let ?L = "klayout (menv_k E)"
  define S0 where "S0 = zero_sys (msys M)"
  define h0 where "h0 = arch_trap_init (kernel_entry_addr E) (khart (msys M))"
  have pa0: "pa_state (kvm S0) = pa_boot (pmem (pa_state (kvm (msys M))))"
    by (simp add: S0_def zero_sys_def zero_pa_boot)
  obtain v where v: "vm_init ?L (kvm S0) h0 = Inr (0, v, h0\<lparr>satp := kernel_satp_value v\<rparr>)" "vm_ready ?L v"
    by (rule vm_init_spec [OF assms, of "kvm S0" h0]) (use boot_has_room [OF assms] in \<open>auto simp: pa0 vm_ready_def\<close>)
  obtain f where f: "fs_init (zero_fs (kfs (mk M))) = Inr f" "fs_ok f" "files f = [readme_name \<mapsto> readme_text]"
    using zero_fs_init by blast
  define h1 where "h1 = h0\<lparr>satp := kernel_satp_value v\<rparr>"
  define h2 where "h2 = arch_trap_enable_interrupts h1"
  let ?ps = "boot_procs ?L idle_entry user_init_entry (kernel_satp_value v) h1 h2"
  have c1: "create_process ?L idle_entry \<lparr>tab = tab S0, kvm = v, khart = h1\<rparr> =
      (Some 0, \<lparr>tab = (tab S0)\<lparr>procs := new_thread ?L 0 idle_entry (kernel_satp_value v) h1 # replicate 7 zero_process\<rparr>, kvm = v, khart = h1\<rparr>)"
    by (subst create_thread [where i = 0]) (simp_all add: S0_def zero_sys_def alloc_first numeral_eq_Suc)
  have c2: "create_process ?L user_init_entry \<lparr>tab = \<lparr>procs = new_thread ?L 0 idle_entry (kernel_satp_value v) h1 # replicate 7 zero_process,
        current_proc = Some 0, idle_proc = Some 0\<rparr>, kvm = v, khart = h2\<rparr> =
      (Some 1, \<lparr>tab = \<lparr>procs = ?ps, current_proc = Some 0, idle_proc = Some 0\<rparr>, kvm = v, khart = h2\<rparr>)"
    by (subst create_thread [where i = 1]) (simp_all add: alloc_second boot_procs_def numeral_eq_Suc)
  have S0: "S0\<lparr>kvm := v, khart := h1\<rparr> = \<lparr>tab = tab S0, kvm = v, khart = h1\<rparr>"
    "S0\<lparr>khart := h1, kvm := v\<rparr> = \<lparr>tab = tab S0, kvm = v, khart = h1\<rparr>"
    by (cases S0; simp)+
  have q: "kevent_init zero_kevents = Inr zero_kevents" "kevent_payloads zero_kevents = []"
    by (simp_all add: kevent_init_def zero_kevents_def spin_unlock_def kevent_payloads_def kevent_list_def ring_list_def ring_count_def)
  have ps: "(tab S0)\<lparr>procs := a, idle_proc := b, current_proc := c\<rparr> = \<lparr>procs = a, current_proc = c, idle_proc = b\<rparr>" for a b c
    by (cases "tab S0") simp
  have khart0: "khart S0 = khart (msys M)"
    by (simp add: S0_def zero_sys_def)
  have "\<exists>M'. kernel_boot E idle_entry user_init_entry M = Inr M' \<and> msys M' = \<lparr>tab = \<lparr>procs = ?ps, current_proc = Some 0, idle_proc = Some 0\<rparr>, kvm = v, khart = h2\<rparr> \<and>
      kevs (mk M') = zero_kevents \<and> kfs (mk M') = f"
    unfolding kernel_boot_def
    using v(1) f(1) c1 c2
    by (simp add: Let_def boot_machine_simps q h0_def [symmetric] h1_def [symmetric] h2_def [symmetric] S0 ps
        S0_def [symmetric] khart0)
  moreover have "satp h2 = kernel_satp_value v" "stvec h2 = kernel_entry_addr E" "sscratch h2 = 0" "sie h2 = SIE_SEIE" "sstatus h2 AND SSTATUS_SIE \<noteq> 0"
    by (simp_all add: h2_def h1_def h0_def arch_trap_enable_interrupts_def arch_trap_init_def word_ao_absorbs)
  ultimately show ?thesis
    using v(2) f(2,3) q(2) by (fastforce simp: booted_def Let_def)
qed

section \<open>The first pass of the loop\<close>

lemma reap_loop_none:
  assumes "\<And>i. i \<in> set is \<Longrightarrow> state (proc_at i S) \<noteq> PROC_ZOMBIE"
  shows "reap_loop L is S = Inr S"
  using assms by (induction "is") simp_all

lemma boot_procs_at:
  "i < 8 \<Longrightarrow> boot_procs L a b sv h h' ! i =
     (if i = 0 then new_thread L 0 a sv h else if i = 1 then new_thread L 1 b sv h' else zero_process)"
  by (auto simp: boot_procs_def nth_Cons' nth_append)

lemma boot_reap:
  assumes "procs (tab S) = boot_procs L a b sv h h'"
  shows "proc_reap_orphan_zombies L S = Inr S"
  unfolding proc_reap_orphan_zombies_def
  by (rule reap_loop_none) (auto simp: proc_at_def assms boot_procs_at zero_process_def)

lemma boot_pick:
  assumes "procs k = boot_procs L a b sv h h'" and "current_proc k = Some 0"
  shows "yield k hh = Some (k\<lparr>procs := (procs k)[0 := (procs k ! 0)\<lparr>budget := 0\<rparr>], current_proc := Some 1\<rparr>, vm_activate sv hh)"
proof -
  define ps where "ps = (procs k)[0 := (procs k ! 0)\<lparr>budget := 0\<rparr>]"
  have ch: "charge_current 0 (procs k) = ps"
    by (simp add: ps_def charge_current_def assms(1) boot_procs_at is_eligible_for_pick_def is_schedulable_def)
  have "length ps = 8"
    by (simp add: ps_def assms(1) boot_procs_def)
  then have el: "is_eligible_for_pick (ps ! i) \<longleftrightarrow> i = 1" if "i < 8" for i
    using that by (auto simp: ps_def nth_list_update assms(1) boot_procs_at is_eligible_for_pick_def is_schedulable_def zero_process_def)
  have b: "budget (ps ! 1) = 1"
    by (simp add: ps_def assms(1) boot_procs_at)
  have "round_robin 0 = [1, 2, 3, 4, 5, 6, 7, 0]"
    by (simp add: round_robin_def upt_rec)
  then have "pick_next_runnable_index ps 0 = Some 1"
    unfolding pick_next_runnable_index_def by (simp add: el b del: One_nat_def)
  moreover have "p_satp (ps ! 1) = sv"
    by (simp add: ps_def assms(1) boot_procs_at)
  ultimately show ?thesis
    using assms(2) by (simp add: yield_def yield_choose_def ch Let_def flip: ps_def)
qed

lemma boot_has_live: "procs (tab S) = boot_procs L a b sv h h' \<Longrightarrow> has_live_app_proc S"
  by (auto simp: has_live_app_proc_def boot_procs_def)



end
