(* ===== verification/Fork_Spec.thy ===== *)
theory Fork_Spec
  imports Address_Space
begin

text \<open>
  What \<^verbatim>\<open>proc_vm_clone\<close> does for fork: every page of a writable area that the parent has is mapped in both address spaces
  afterwards, without the right to write, and no byte of it has changed. Together with copy on write this is the promise of
  fork: the child starts with the memory of its parent, and a later write of one is not seen by the other.
\<close>

section \<open>Two address spaces\<close>

definition tables :: "u32 \<Rightarrow> u32 \<Rightarrow> page_alloc \<Rightarrow> nat set" where
  "tables r1 r2 s = pt_pages (pmem s) r1 \<union> pt_pages (pmem s) r2"

definition two_spaces :: "ld_layout \<Rightarrow> u32 \<Rightarrow> u32 \<Rightarrow> page_alloc \<Rightarrow> bool" where
  "two_spaces L r1 r2 s \<longleftrightarrow> pa_inv L s \<and> pt_ok L s r1 \<and> pt_ok L s r2 \<and> pt_pages (pmem s) r1 \<inter> pt_pages (pmem s) r2 = {}"

definition used_page :: "ld_layout \<Rightarrow> page_alloc \<Rightarrow> nat \<Rightarrow> bool" where
  "used_page L s q \<longleftrightarrow> 0 < refs L s q \<or> \<not> in_ram L q"

text \<open>Pages in use stay in use with their contents, but for the tables themselves and the pages of \<open>Z\<close>.\<close>

definition kept :: "ld_layout \<Rightarrow> u32 \<Rightarrow> u32 \<Rightarrow> nat set \<Rightarrow> page_alloc \<Rightarrow> page_alloc \<Rightarrow> bool" where
  "kept L r1 r2 Z s s' \<longleftrightarrow> two_spaces L r1 r2 s' \<and>
     (\<forall>q. q \<notin> Z \<and> used_page L s q \<longrightarrow> used_page L s' q) \<and>
     (\<forall>q. q \<notin> Z \<and> used_page L s q \<and> q \<notin> tables r1 r2 s \<longrightarrow> q \<notin> tables r1 r2 s') \<and>
     (\<forall>x. pfn x \<notin> Z \<and> used_page L s (pfn x) \<and> pfn x \<notin> tables r1 r2 s \<longrightarrow> pmem s' x = pmem s x)"

lemma kept_refl: "two_spaces L r1 r2 s \<Longrightarrow> kept L r1 r2 Z s s"
  by (simp add: kept_def)

lemma kept_trans: "kept L r1 r2 Z s s1 \<Longrightarrow> kept L r1 r2 Z s1 s2 \<Longrightarrow> kept L r1 r2 Z s s2"
  unfolding kept_def by metis

lemma kept_mono: "kept L r1 r2 Z s s' \<Longrightarrow> Z \<subseteq> Z' \<Longrightarrow> kept L r1 r2 Z' s s'"
  unfolding kept_def by blast

lemma two_sym: "two_spaces L r1 r2 s = two_spaces L r2 r1 s"
  by (auto simp: two_spaces_def)

lemma kept_sym: "kept L r1 r2 Z s s' = kept L r2 r1 Z s s'"
  by (simp add: kept_def tables_def Un_commute two_sym [of L r1])

text \<open>A step that changes reference counts only.\<close>

lemma kept_counts:
  assumes "two_spaces L r1 r2 s" and "pa_inv L s'" and "pmem s' = pmem s"
    and "\<And>q. q \<notin> Z \<Longrightarrow> 0 < refs L s q \<Longrightarrow> 0 < refs L s' q" and "Z \<inter> tables r1 r2 s = {}"
  shows "kept L r1 r2 Z s s'"
proof -
  have t: "tables r1 r2 s' = tables r1 r2 s"
    by (simp add: tables_def assms(3))
  have "pt_ok L s' r" if "r \<in> {r1, r2}" for r
  proof (rule pt_ok_refs)
    show ok: "pt_ok L s r"
      using that assms(1) by (auto simp: two_spaces_def)
    show "0 < refs L s' q" if "q \<in> pt_pages (pmem s) r" for q
      using assms(4,5) pt_pages_used [OF ok that] that \<open>r \<in> {r1, r2}\<close> by (auto simp: tables_def)
  qed (rule assms(3))
  then have "two_spaces L r1 r2 s'"
    using assms(1-3) by (simp add: two_spaces_def)
  then show ?thesis
    using assms(3) by (auto simp: kept_def t used_page_def dest: assms(4))
qed

text \<open>Mapping a page in one of the spaces.\<close>

lemma map_two:
  assumes "ld_ok L" and two: "two_spaces L r1 r2 s"
  obtains (oom) s' where "vm_map_page L r1 va pa flags s = Inr (-1, s')" and "two_spaces L r1 r2 s'"
      and "refs L s' = refs L s" and "pmem s' = pmem s"
    | (mapped) s' where "vm_map_page L r1 va pa flags s = Inr (0, s')" and "kept L r1 r2 {} s s'"
      and "remapped r1 va (leaf_at pa flags) (pmem s) (pmem s')" and "\<And>va'. pt_walk (pmem s') r2 va' = pt_walk (pmem s) r2 va'"
      and "\<And>q. 0 < refs L s q \<Longrightarrow> refs L s' q = refs L s q"
proof -
  have ok: "pa_inv L s" "pt_ok L s r1" "pt_ok L s r2" and dis: "pt_pages (pmem s) r1 \<inter> pt_pages (pmem s) r2 = {}"
    using two by (simp_all add: two_spaces_def)
  show ?thesis
  proof (rule map_page_spec [OF assms(1) ok(1,2), of va pa flags])
    fix s' assume m: "vm_map_page L r1 va pa flags s = Inr (-1, s')" "pa_inv L s'" "refs L s' = refs L s" "pmem s' = pmem s"
    then show ?thesis
      using oom [OF m(1) _ m(3,4)] two by (simp add: two_spaces_def pt_ok_def)
  next
    fix s' assume m: "vm_map_page L r1 va pa flags s = Inr (0, s')" "pa_inv L s'" "pt_ok L s' r1"
      "remapped r1 va (leaf_at pa flags) (pmem s) (pmem s')"
      "refs L s' = refs L s \<and> pt_pages (pmem s') r1 = pt_pages (pmem s) r1 \<or>
        (\<exists>q. refs L s q = 0 \<and> refs L s' = (refs L s)(q := 1) \<and>
          pt_pages (pmem s') r1 = insert q (pt_pages (pmem s) r1))"
      "\<forall>x. pfn x \<notin> pt_pages (pmem s') r1 \<longrightarrow> pmem s' x = pmem s x"
    have refs: "refs L s' q = refs L s q" if "0 < refs L s q" for q
      using m(5) that by auto
    have new: "q \<notin> pt_pages (pmem s') r1" if "used_page L s q" "q \<notin> pt_pages (pmem s) r1" for q
      using m(5) that pt_pages_ram [OF m(3), of q] by (auto simp: used_page_def)
    have r2: "used_page L s q" "q \<notin> pt_pages (pmem s') r1" if "q \<in> pt_pages (pmem s) r2" for q
      using new [of q] that pt_pages_used [OF ok(3) that] dis by (auto simp: used_page_def)
    have same: "pmem s' x = pmem s x" if "pfn x \<in> pt_pages (pmem s) r2" for x
      using m(6) r2(2) that by blast
    note f = pt_frame [OF ok(3) same]
    have "pt_ok L s' r2"
      using pt_ok_refs [OF f(3), of s'] f(2) refs pt_pages_used [OF ok(3)] by simp
    then have "two_spaces L r1 r2 s'"
      using m(2,3) f(2) r2(2) by (auto simp: two_spaces_def)
    then have "kept L r1 r2 {} s s'"
      using refs new m(6) f(2) by (auto simp: kept_def tables_def used_page_def)
    then show ?thesis
      using mapped m(1,4) f(1) refs by blast
  qed
qed

section \<open>One page\<close>

text \<open>The body of the loop of \<^verbatim>\<open>proc_vm_clone\<close>.\<close>

definition clone_one :: "ld_layout \<Rightarrow> u32 \<Rightarrow> u32 \<Rightarrow> u32 \<times> u32 \<Rightarrow> page_alloc \<Rightarrow> (int \<times> page_alloc) kres" where
  "clone_one L psv csv = (\<lambda>(va, cow_prot) s.
     case vm_query_user_page (pmem s) psv va of
       None \<Rightarrow> Inr (0, s)
     | Some (parent_pa, _) \<Rightarrow>
         let old_child = vm_query_user_page (pmem s) csv va in
         kbind (vm_map_user_page L psv va parent_pa cow_prot s) (\<lambda>(rc, s).
           if rc < 0 then Inr (-1, s)
           else
             kbind (page_inc_ref L parent_pa s) (\<lambda>s.
             kbind (vm_map_user_page L csv va parent_pa cow_prot s) (\<lambda>(rc, s).
               if rc < 0 then kbind (page_dec_ref L parent_pa s) (\<lambda>s. Inr (-1, s))
               else
                 (case old_child of
                    Some (old_child_pa, _) \<Rightarrow>
                      if old_child_pa \<noteq> parent_pa then kbind (free_pages L old_child_pa 1 s) (\<lambda>s. Inr (0, s)) else Inr (0, s)
                  | None \<Rightarrow> Inr (0, s))))))"

fun clone_list :: "ld_layout \<Rightarrow> u32 \<Rightarrow> u32 \<Rightarrow> (u32 \<times> u32) list \<Rightarrow> page_alloc \<Rightarrow> (int \<times> page_alloc) kres" where
  "clone_list L psv csv [] s = Inr (0, s)"
| "clone_list L psv csv (p # ps) s =
     kbind (clone_one L psv csv p s) (\<lambda>(rc, s). if rc < 0 then Inr (-1, s) else clone_list L psv csv ps s)"

lemma clone_pages_list: "clone_pages L psv csv prot vas s = clone_list L psv csv (map (\<lambda>va. (va, prot)) vas) s"
proof (induction vas arbitrary: s)
  case (Cons va vas)
  then show ?case
    by (auto simp: clone_one_def Let_def kbind_assoc split_beta split: option.split intro!: kbind_cong)
qed simp

lemma clone_list_append:
  "clone_list L psv csv (ps @ qs) s =
     kbind (clone_list L psv csv ps s) (\<lambda>(rc, s). if rc < 0 then Inr (-1, s) else clone_list L psv csv qs s)"
proof (induction ps arbitrary: s)
  case (Cons p ps)
  then show ?case
    by (auto simp: kbind_assoc split_beta intro!: kbind_cong)
qed simp

text \<open>The pages of the writable areas, with the rights without writing.\<close>

definition cow_pages :: "user_vma list \<Rightarrow> (u32 \<times> u32) list" where
  "cow_pages vs =
     concat (map (\<lambda>v. map (\<lambda>va. (va, v_prot v AND NOT VMA_PROT_W)) (page_range (v_start v) (v_end v)))
       (filter (\<lambda>v. v_used v \<and> v_prot v AND VMA_PROT_W \<noteq> 0) vs))"

lemma clone_vmas_list: "clone_vmas L psv csv vs s = clone_list L psv csv (cow_pages vs) s"
  by (induction vs arbitrary: s) (auto simp: cow_pages_def clone_pages_list clone_list_append split_beta intro!: kbind_cong)

text \<open>
  What the parent and the child have at a page before it is cloned. The frame of the parent is counted, unless it belongs
  to the linked image, and is no table. Another frame of the child is counted too; the child gives it back.
\<close>

definition old_frame :: "mem \<Rightarrow> u32 \<Rightarrow> u32 \<Rightarrow> u32 \<Rightarrow> nat set" where
  "old_frame m psv csv va =
     (case (vm_query_user_page m psv va, vm_query_user_page m csv va) of
        (Some (pa, _), Some (c, _)) \<Rightarrow> if c \<noteq> pa then {pfn c} else {}
      | _ \<Rightarrow> {})"

definition page_ready :: "ld_layout \<Rightarrow> u32 \<Rightarrow> u32 \<Rightarrow> page_alloc \<Rightarrow> u32 \<Rightarrow> bool" where
  "page_ready L psv csv s va \<longleftrightarrow> is_page_aligned va \<and>
     (\<forall>pa pp. vm_query_user_page (pmem s) psv va = Some (pa, pp) \<longrightarrow>
        pfn pa \<notin> tables (vm_root_from_satp psv) (vm_root_from_satp csv) s \<and>
        (managed L pa \<longrightarrow> 0 < refs L s (pfn pa) \<and> refs L s (pfn pa) < 65535) \<and>
        (\<forall>c cp. vm_query_user_page (pmem s) csv va = Some (c, cp) \<and> c \<noteq> pa \<longrightarrow>
           managed L c \<and> 0 < refs L s (pfn c) \<and> pfn c \<notin> tables (vm_root_from_satp psv) (vm_root_from_satp csv) s))"

definition same_elsewhere :: "u32 \<Rightarrow> u32 \<Rightarrow> nat set \<Rightarrow> mem \<Rightarrow> mem \<Rightarrow> bool" where
  "same_elsewhere psv csv N m m' \<longleftrightarrow>
     (\<forall>va'. pfn va' \<notin> N \<longrightarrow> vm_query_user_page m' psv va' = vm_query_user_page m psv va' \<and>
        vm_query_user_page m' csv va' = vm_query_user_page m csv va')"

definition page_result :: "ld_layout \<Rightarrow> u32 \<Rightarrow> u32 \<Rightarrow> int \<Rightarrow> u32 \<times> u32 \<Rightarrow> page_alloc \<Rightarrow> page_alloc \<Rightarrow> bool" where
  "page_result L psv csv rc = (\<lambda>(va, prot) s s'.
     \<forall>pa pp va'. vm_query_user_page (pmem s) psv va = Some (pa, pp) \<longrightarrow>
       (pfn va' = pfn va \<longrightarrow>
         (vm_query_user_page (pmem s') psv va' = leaf_at pa (flags_of_prot prot) va' \<and>
            (rc = 0 \<longrightarrow> vm_query_user_page (pmem s') csv va' = leaf_at pa (flags_of_prot prot) va')) \<or>
         rc \<noteq> 0 \<and> vm_query_user_page (pmem s') psv va' = vm_query_user_page (pmem s) psv va') \<and>
       (rc = 0 \<and> managed L pa \<longrightarrow> refs L s' (pfn pa) = refs L s (pfn pa) + 1))"

lemma clone_one_absent: "vm_query_user_page (pmem s) psv va = None \<Longrightarrow> clone_one L psv csv (va, prot) s = Inr (0, s)"
  by (simp add: clone_one_def)

lemma managed_ram: "unat a mod 4096 = 0 \<Longrightarrow> managed L a \<longleftrightarrow> in_ram L (pfn a)"
  by (simp add: managed_def in_ram_def)

lemma inc_ref_kept:
  assumes "ld_ok L" and two: "two_spaces L r1 r2 s" and "unat pa mod 4096 = 0"
    and "managed L pa \<Longrightarrow> 0 < refs L s (pfn pa) \<and> refs L s (pfn pa) < 65535"
  obtains s' where "page_inc_ref L pa s = Inr s'" and "kept L r1 r2 {} s s'" and "pmem s' = pmem s"
    and "refs L s' = (if managed L pa then (refs L s)(pfn pa := refs L s (pfn pa) + 1) else refs L s)"
proof -
  have inv: "pa_inv L s"
    using two by (simp add: two_spaces_def)
  have lt: "refs L s (pfn pa) < 65535"
    using assms(3,4) refs_unmanaged [of pa L s] by (cases "managed L pa") simp_all
  obtain s' where s': "page_inc_ref L pa s = Inr s'" "pa_inv L s'" "pmem s' = pmem s"
    "refs L s' = (if managed L pa then (refs L s)(pfn pa := refs L s (pfn pa) + 1) else refs L s)"
  proof (cases "managed L pa")
    case True
    then show ?thesis
      using page_inc_ref_spec [OF assms(1) inv lt] assms(4) that by auto
  next
    case False
    then obtain s' where s': "page_inc_ref L pa s = Inr s'" "pa_inv L s'" "dropped L {} s s'"
      using page_inc_ref_spec [OF assms(1) inv lt] by auto
    then have "refs L s' = refs L s" "pmem s' = pmem s"
      using dropped_other [OF s'(3)] by (auto simp: dropped_def)
    then show ?thesis
      using that [of s'] s' False by simp
  qed
  have "kept L r1 r2 {} s s'"
    using s'(4) by (intro kept_counts [OF two s'(2,3)]) auto
  then show ?thesis
    using that s' by blast
qed

text \<open>The second half of the body: the page in the child.\<close>

definition drop_old :: "ld_layout \<Rightarrow> u32 \<Rightarrow> (u32 \<times> u32) option \<Rightarrow> page_alloc \<Rightarrow> (int \<times> page_alloc) kres" where
  "drop_old L pa old_child s =
     (case old_child of
        Some (old_child_pa, _) \<Rightarrow>
          if old_child_pa \<noteq> pa then kbind (free_pages L old_child_pa 1 s) (\<lambda>s. Inr (0, s)) else Inr (0, s)
      | None \<Rightarrow> Inr (0, s))"

definition clone_child :: "ld_layout \<Rightarrow> u32 \<Rightarrow> u32 \<Rightarrow> u32 \<Rightarrow> u32 \<Rightarrow> (u32 \<times> u32) option \<Rightarrow> page_alloc \<Rightarrow> (int \<times> page_alloc) kres" where
  "clone_child L r va pa flags old_child s =
     kbind (vm_map_page L r va pa flags s) (\<lambda>(rc, s).
       if rc < 0 then kbind (page_dec_ref L pa s) (\<lambda>s. Inr (-1, s))
       else drop_old L pa old_child s)"

definition replaced :: "u32 \<Rightarrow> (u32 \<times> u32) option \<Rightarrow> nat set" where
  "replaced pa old_child = (case old_child of Some (c, _) \<Rightarrow> if c \<noteq> pa then {pfn c} else {} | None \<Rightarrow> {})"

lemma give_back:
  assumes L: "ld_ok L" and k: "kept L r1 r2 {} s0 s"
    and old: "\<And>c cp. old_child = Some (c, cp) \<Longrightarrow> c \<noteq> pa \<Longrightarrow> managed L c \<and> 0 < refs L s (pfn c) \<and> pfn c \<notin> tables r1 r2 s"
  obtains s' where "drop_old L pa old_child s = Inr (0, s')"
    and "kept L r1 r2 (replaced pa old_child) s0 s'" and "pmem s' = pmem s" and "\<And>q. q \<notin> replaced pa old_child \<Longrightarrow> refs L s' q = refs L s q"
proof (cases "replaced pa old_child = {}")
  case True
  then show ?thesis
    using k by (intro that [of s]) (auto simp: drop_old_def replaced_def split: option.splits if_splits)
next
  case False
  then obtain c cp where c: "old_child = Some (c, cp)" "c \<noteq> pa" "replaced pa old_child = {pfn c}"
    by (auto simp: replaced_def split: option.splits if_splits)
  have two: "two_spaces L r1 r2 s" and inv: "pa_inv L s"
    using k by (simp_all add: kept_def two_spaces_def)
  have cc: "managed L c" "0 < refs L s (pfn c)" "pfn c \<notin> tables r1 r2 s"
    using old [OF c(1,2)] by simp_all
  obtain s' where f: "free_pages L c 1 s = Inr s'" "pa_inv L s'" "dropped L {pfn c} s s'"
    by (rule free_one_page [OF L inv cc(1,2)])
  have refs: "refs L s' q = refs L s q" if "q \<notin> {pfn c}" for q
    by (rule dropped_other [OF f(3) that])
  have mem: "pmem s' = pmem s"
    using f(3) by (simp add: dropped_def)
  have "kept L r1 r2 {pfn c} s s'"
    using refs cc(3) by (intro kept_counts [OF two f(2) mem]) auto
  then have "kept L r1 r2 {pfn c} s0 s'"
    using kept_trans kept_mono [OF k] by blast
  then show ?thesis
    using that [of s'] c f(1) refs mem by (simp add: drop_old_def)
qed

lemma clone_child_spec:
  assumes L: "ld_ok L" and two: "two_spaces L r1 r2 s" and pa: "managed L pa \<Longrightarrow> 1 < refs L s (pfn pa)" "pfn pa \<notin> tables r1 r2 s"
    and old: "\<And>c cp. old_child = Some (c, cp) \<Longrightarrow> c \<noteq> pa \<Longrightarrow> managed L c \<and> 0 < refs L s (pfn c) \<and> pfn c \<notin> tables r1 r2 s"
  obtains (oom) s' where "clone_child L r1 va pa flags old_child s = Inr (-1, s')" and "kept L r1 r2 {} s s'" and "pmem s' = pmem s"
      and "\<And>q. q \<noteq> pfn pa \<Longrightarrow> refs L s' q = refs L s q"
    | (mapped) s' where "clone_child L r1 va pa flags old_child s = Inr (0, s')" and "kept L r1 r2 (replaced pa old_child) s s'"
      and "remapped r1 va (leaf_at pa flags) (pmem s) (pmem s')" and "\<And>va'. pt_walk (pmem s') r2 va' = pt_walk (pmem s) r2 va'"
      and "\<And>q. 0 < refs L s q \<Longrightarrow> q \<notin> replaced pa old_child \<Longrightarrow> refs L s' q = refs L s q"
proof (rule map_two [OF L two, of va pa flags])
  fix s1 assume m: "vm_map_page L r1 va pa flags s = Inr (-1, s1)" "two_spaces L r1 r2 s1" "refs L s1 = refs L s" "pmem s1 = pmem s"
  have inv: "pa_inv L s1"
    using m(2) by (simp add: two_spaces_def)
  obtain s2 where d: "page_dec_ref L pa s1 = Inr s2" "pa_inv L s2" "dropped L (if managed L pa then {pfn pa} else {}) s1 s2"
    using dec_ref_old [OF L inv, of pa] pa(1) m(3) by (metis less_trans zero_less_one)
  have refs: "refs L s2 q = refs L s q" if "q \<noteq> pfn pa" for q
    using dropped_other [OF d(3)] m(3) that by simp
  have mem: "pmem s2 = pmem s"
    using d(3) m(4) by (simp add: dropped_def)
  have pos: "0 < refs L s2 q" if "0 < refs L s q" for q
  proof (cases "q = pfn pa \<and> managed L pa")
    case True
    then have "refs L s2 q = refs L s q - 1 \<or> refs L s q = 1"
      using d(3) m(3) unfolding dropped_def by (metis singletonI)
    then show ?thesis
      using pa(1) True by auto
  next
    case False
    then show ?thesis
      using dropped_other [OF d(3), of q] m(3) that by auto
  qed
  have "kept L r1 r2 {} s s2"
    using pos by (intro kept_counts [OF two d(2) mem]) simp_all
  then show ?thesis
    using oom [of s2] m(1) d(1) mem refs by (simp add: clone_child_def)
next
  fix s1 assume m: "vm_map_page L r1 va pa flags s = Inr (0, s1)" "kept L r1 r2 {} s s1"
    "remapped r1 va (leaf_at pa flags) (pmem s) (pmem s1)" "\<And>va'. pt_walk (pmem s1) r2 va' = pt_walk (pmem s) r2 va'"
    "\<And>q. 0 < refs L s q \<Longrightarrow> refs L s1 q = refs L s q"
  have "managed L c \<and> 0 < refs L s1 (pfn c) \<and> pfn c \<notin> tables r1 r2 s1" if "old_child = Some (c, cp)" "c \<noteq> pa" for c cp
    using old [OF that] m(2,5) by (auto simp: kept_def used_page_def)
  then obtain s2 where g: "drop_old L pa old_child s1 = Inr (0, s2)" "kept L r1 r2 (replaced pa old_child) s s2" "pmem s2 = pmem s1"
    "\<And>q. q \<notin> replaced pa old_child \<Longrightarrow> refs L s2 q = refs L s1 q"
    using give_back [OF L m(2), of old_child pa thesis] by blast
  have "clone_child L r1 va pa flags old_child s = Inr (0, s2)"
    using m(1) g(1) by (simp add: clone_child_def)
  then show ?thesis
    using mapped [of s2] m(3-5) g(2-4) by simp
qed

lemma clone_one_child:
  assumes "vm_query_user_page (pmem s) psv va = Some (pa, pp)" and "is_page_aligned va" and "is_page_aligned pa"
  shows "clone_one L psv csv (va, prot) s =
    kbind (vm_map_page L (vm_root_from_satp psv) va pa (flags_of_prot prot) s) (\<lambda>(rc, s1).
      if rc < 0 then Inr (-1, s1)
      else kbind (page_inc_ref L pa s1)
        (clone_child L (vm_root_from_satp csv) va pa (flags_of_prot prot) (vm_query_user_page (pmem s) csv va)))"
  using assms by (simp add: clone_one_def clone_child_def [abs_def] drop_old_def vm_map_user_page_def Let_def cong: if_cong)

text \<open>The frames whose counts a page changes.\<close>

definition page_frames :: "mem \<Rightarrow> u32 \<Rightarrow> u32 \<Rightarrow> u32 \<Rightarrow> nat set" where
  "page_frames m psv csv va =
     (case vm_query_user_page m psv va of None \<Rightarrow> {} | Some (pa, _) \<Rightarrow> insert (pfn pa) (old_frame m psv csv va))"

definition cloned_one :: "ld_layout \<Rightarrow> u32 \<Rightarrow> u32 \<Rightarrow> int \<Rightarrow> u32 \<times> u32 \<Rightarrow> page_alloc \<Rightarrow> page_alloc \<Rightarrow> bool" where
  "cloned_one L psv csv rc p s s' \<longleftrightarrow>
     kept L (vm_root_from_satp psv) (vm_root_from_satp csv) (old_frame (pmem s) psv csv (fst p)) s s' \<and>
     same_elsewhere psv csv {pfn (fst p)} (pmem s) (pmem s') \<and> page_result L psv csv rc p s s' \<and>
     (\<forall>q. 0 < refs L s q \<and> q \<notin> page_frames (pmem s) psv csv (fst p) \<longrightarrow> refs L s' q = refs L s q)"

lemma remapped_elsewhere:
  assumes "remapped (vm_root_from_satp psv) va f m m1" and "\<And>va'. pt_walk m1 (vm_root_from_satp csv) va' = pt_walk m (vm_root_from_satp csv) va'"
  shows "same_elsewhere psv csv {pfn va} m m1"
  using assms by (simp add: same_elsewhere_def remapped_def query_walk)

lemma elsewhere_trans: "same_elsewhere psv csv N m m1 \<Longrightarrow> same_elsewhere psv csv N m1 m2 \<Longrightarrow> same_elsewhere psv csv N m m2"
  by (simp add: same_elsewhere_def)

lemma elsewhere_sym: "same_elsewhere psv csv N m m1 = same_elsewhere csv psv N m m1"
  by (auto simp: same_elsewhere_def)

lemma old_frame_replaced: "vm_query_user_page m psv va = Some (pa, pp) \<Longrightarrow> old_frame m psv csv va = replaced pa (vm_query_user_page m csv va)"
  by (auto simp: old_frame_def replaced_def split: option.split)

text \<open>The first half of the body: the page in the parent.\<close>

lemma clone_parent_spec:
  assumes L: "ld_ok L" and two: "two_spaces L r1 r2 s" and al: "unat pa mod 4096 = 0"
    and pa: "managed L pa \<Longrightarrow> 0 < refs L s (pfn pa) \<and> refs L s (pfn pa) < 65535"
  obtains (oom) s1 where "vm_map_page L r1 va pa flags s = Inr (-1, s1)" and "kept L r1 r2 {} s s1"
      and "refs L s1 = refs L s" and "pmem s1 = pmem s"
    | (mapped) s1 s2 where "vm_map_page L r1 va pa flags s = Inr (0, s1)" and "page_inc_ref L pa s1 = Inr s2" and "kept L r1 r2 {} s s2"
      and "remapped r1 va (leaf_at pa flags) (pmem s) (pmem s2)" and "\<And>va'. pt_walk (pmem s2) r2 va' = pt_walk (pmem s) r2 va'"
      and "managed L pa \<Longrightarrow> refs L s2 (pfn pa) = refs L s (pfn pa) + 1" and "\<And>q. 0 < refs L s q \<Longrightarrow> q \<noteq> pfn pa \<Longrightarrow> refs L s2 q = refs L s q"
proof (rule map_two [OF L two, of va pa flags])
  fix s1 assume m: "vm_map_page L r1 va pa flags s = Inr (-1, s1)" "two_spaces L r1 r2 s1" "refs L s1 = refs L s" "pmem s1 = pmem s"
  then have "kept L r1 r2 {} s s1"
    by (intro kept_counts [OF two]) (auto simp: two_spaces_def)
  then show ?thesis
    using oom m by blast
next
  fix s1 assume m: "vm_map_page L r1 va pa flags s = Inr (0, s1)" "kept L r1 r2 {} s s1"
    "remapped r1 va (leaf_at pa flags) (pmem s) (pmem s1)" "\<And>va'. pt_walk (pmem s1) r2 va' = pt_walk (pmem s) r2 va'"
    "\<And>q. 0 < refs L s q \<Longrightarrow> refs L s1 q = refs L s q"
  have two1: "two_spaces L r1 r2 s1"
    using m(2) by (simp add: kept_def)
  have pa1: "0 < refs L s1 (pfn pa) \<and> refs L s1 (pfn pa) < 65535" if "managed L pa"
    using pa [OF that] m(5) by simp
  obtain s2 where i: "page_inc_ref L pa s1 = Inr s2" "kept L r1 r2 {} s1 s2" "pmem s2 = pmem s1"
    "refs L s2 = (if managed L pa then (refs L s1)(pfn pa := refs L s1 (pfn pa) + 1) else refs L s1)"
    by (rule inc_ref_kept [OF L two1 al pa1])
  have "refs L s2 (pfn pa) = refs L s (pfn pa) + 1" if "managed L pa"
    using pa [OF that] m(5) that by (simp add: i(4))
  moreover have "refs L s2 q = refs L s q" if "0 < refs L s q" "q \<noteq> pfn pa" for q
    using m(5) that by (simp add: i(4))
  ultimately show ?thesis
    using mapped [OF m(1) i(1) kept_trans [OF m(2) i(2)]] m(3,4) i(3) by simp
qed

lemma replaced_ne:
  assumes "unat pa mod 4096 = 0" and "\<And>c cp. old_child = Some (c, cp) \<Longrightarrow> c \<noteq> pa \<Longrightarrow> managed L c"
  shows "pfn pa \<notin> replaced pa old_child"
proof
  assume "pfn pa \<in> replaced pa old_child"
  then obtain c cp where c: "old_child = Some (c, cp)" "c \<noteq> pa" "pfn pa = pfn c"
    by (auto simp: replaced_def split: option.splits if_splits)
  then have "unat c mod 4096 = 0"
    using assms(2) by (simp add: managed_def)
  then show False
    using aligned_pfn_eq [OF assms(1), of c] c by simp
qed

lemma clone_one_spec:
  assumes L: "ld_ok L" and two: "two_spaces L (vm_root_from_satp psv) (vm_root_from_satp csv) s" and ready: "page_ready L psv csv s va"
  shows "\<exists>rc s'. clone_one L psv csv (va, prot) s = Inr (rc, s') \<and> rc \<in> {0, -1} \<and> cloned_one L psv csv rc (va, prot) s s'"
proof (cases "vm_query_user_page (pmem s) psv va")
  case None
  then show ?thesis
    using kept_refl [OF two] by (simp add: clone_one_absent cloned_one_def same_elsewhere_def page_result_def)
next
  case (Some a)
  obtain pa pp where a: "vm_query_user_page (pmem s) psv va = Some (pa, pp)"
    using Some by (cases a) auto
  let ?p = "vm_root_from_satp psv" and ?c = "vm_root_from_satp csv" and ?f = "flags_of_prot prot"
  let ?old = "vm_query_user_page (pmem s) csv va" and ?Z = "old_frame (pmem s) psv csv va"
  have al: "is_page_aligned va" "is_page_aligned pa" "unat pa mod 4096 = 0"
    using ready query_aligned [OF a] by (simp_all add: page_ready_def is_page_aligned_iff)
  have pa: "pfn pa \<notin> tables ?p ?c s" "managed L pa \<Longrightarrow> 0 < refs L s (pfn pa) \<and> refs L s (pfn pa) < 65535"
    and old: "\<And>c cp. ?old = Some (c, cp) \<Longrightarrow> c \<noteq> pa \<Longrightarrow> managed L c \<and> 0 < refs L s (pfn c) \<and> pfn c \<notin> tables ?p ?c s"
    using ready a by (auto simp: page_ready_def)
  have up: "used_page L s (pfn pa)"
    using pa(2) managed_ram [OF al(3)] by (auto simp: used_page_def)
  have fr: "page_frames (pmem s) psv csv va = insert (pfn pa) ?Z" "?Z = replaced pa ?old"
    using old_frame_replaced [OF a] by (simp_all add: page_frames_def a)
  note run = clone_one_child [OF a al(1,2), of L csv prot]
  show ?thesis
  proof (rule clone_parent_spec [OF L two al(3) pa(2), where va = va and flags = ?f])
    fix s1 assume m: "vm_map_page L ?p va pa ?f s = Inr (-1, s1)" "kept L ?p ?c {} s s1" "refs L s1 = refs L s" "pmem s1 = pmem s"
    have "cloned_one L psv csv (-1) (va, prot) s s1"
      using kept_mono [OF m(2), of ?Z] m(3,4) by (simp add: cloned_one_def same_elsewhere_def page_result_def)
    then show ?thesis
      using m(1) by (intro exI [of _ "-1"] exI [of _ s1]) (simp add: run)
  next
    fix s1 s2 assume m: "vm_map_page L ?p va pa ?f s = Inr (0, s1)" "page_inc_ref L pa s1 = Inr s2" "kept L ?p ?c {} s s2"
      "remapped ?p va (leaf_at pa ?f) (pmem s) (pmem s2)" "\<And>va'. pt_walk (pmem s2) ?c va' = pt_walk (pmem s) ?c va'"
      "managed L pa \<Longrightarrow> refs L s2 (pfn pa) = refs L s (pfn pa) + 1" "\<And>q. 0 < refs L s q \<Longrightarrow> q \<noteq> pfn pa \<Longrightarrow> refs L s2 q = refs L s q"
    have two2: "two_spaces L ?c ?p s2" and t2: "tables ?c ?p s2 = tables ?p ?c s2"
      using m(3) two_sym by (auto simp: kept_def tables_def)
    have pa2: "1 < refs L s2 (pfn pa)" if "managed L pa"
      using m(6) [OF that] pa(2) [OF that] by simp
    have paT: "pfn pa \<notin> tables ?c ?p s2"
      using m(3) up pa(1) t2 by (simp add: kept_def)
    have old2: "managed L c \<and> 0 < refs L s2 (pfn c) \<and> pfn c \<notin> tables ?c ?p s2" if "?old = Some (c, cp)" "c \<noteq> pa" for c cp
    proof -
      have c: "managed L c" "0 < refs L s (pfn c)" "pfn c \<notin> tables ?p ?c s"
        using old [OF that] by simp_all
      moreover have "pfn c \<noteq> pfn pa"
        using c(1) aligned_pfn_eq [of c pa] al(3) that(2) by (auto simp: managed_def)
      ultimately show ?thesis
        using m(3) m(7) [of "pfn c"] t2 by (simp add: kept_def used_page_def)
    qed
    have par: "vm_query_user_page (pmem s2) psv va' = leaf_at pa ?f va'" if "pfn va' = pfn va" for va'
      using m(4) that by (simp add: remapped_def query_walk)
    note e1 = remapped_elsewhere [OF m(4,5)]
    show ?thesis
    proof (rule clone_child_spec [OF L two2 pa2 paT old2, where va = va and flags = ?f])
      fix s' assume c: "clone_child L ?c va pa ?f ?old s2 = Inr (-1, s')" "kept L ?c ?p {} s2 s'" "pmem s' = pmem s2"
        "\<And>q. q \<noteq> pfn pa \<Longrightarrow> refs L s' q = refs L s2 q"
      have "kept L ?p ?c {} s s'"
        using kept_trans [OF m(3)] c(2) kept_sym by blast
      then have "cloned_one L psv csv (-1) (va, prot) s s'"
        using e1 par c(3,4) m(7) a kept_mono [of L ?p ?c "{}" s s' ?Z] by (simp add: cloned_one_def page_result_def fr(1))
      then show ?thesis
        using m(1,2) c(1) by (intro exI [of _ "-1"] exI [of _ s']) (simp add: run)
    next
      fix s' assume c: "clone_child L ?c va pa ?f ?old s2 = Inr (0, s')" "kept L ?c ?p (replaced pa ?old) s2 s'"
        "remapped ?c va (leaf_at pa ?f) (pmem s2) (pmem s')" "\<And>va'. pt_walk (pmem s') ?p va' = pt_walk (pmem s2) ?p va'"
        "\<And>q. 0 < refs L s2 q \<Longrightarrow> q \<notin> replaced pa ?old \<Longrightarrow> refs L s' q = refs L s2 q"
      have "cloned_one L psv csv 0 (va, prot) s s'"
        unfolding cloned_one_def fst_conv
      proof (intro conjI)
        show "kept L ?p ?c ?Z s s'"
        proof (rule kept_trans [OF kept_mono [OF m(3) empty_subsetI]])
          show "kept L ?p ?c ?Z s2 s'"
            using c(2) unfolding fr(2) by (subst kept_sym)
        qed
        show "same_elsewhere psv csv {pfn va} (pmem s) (pmem s')"
          using elsewhere_trans [OF e1, of "pmem s'"] remapped_elsewhere [OF c(3,4)] elsewhere_sym [of psv csv] by simp
        have "pfn pa \<notin> replaced pa ?old"
          using old by (intro replaced_ne [OF al(3)]) blast
        then have "refs L s' (pfn pa) = refs L s (pfn pa) + 1" if "managed L pa"
          using c(5) m(6) [OF that] by simp
        then show "page_result L psv csv 0 (va, prot) s s'"
          using a par c(3,4) by (simp add: page_result_def remapped_def query_walk)
        show "\<forall>q. 0 < refs L s q \<and> q \<notin> page_frames (pmem s) psv csv va \<longrightarrow> refs L s' q = refs L s q"
          using c(5) m(7) by (simp add: fr)
      qed
      then show ?thesis
        using m(1,2) c(1) by (intro exI [of _ 0] exI [of _ s']) (simp add: run)
    qed (use a in auto)
  qed auto
qed

section \<open>All pages\<close>

lemma elsewhere_query:
  assumes "same_elsewhere psv csv {pfn va} m m1" and "pfn va' \<noteq> pfn va"
  shows "vm_query_user_page m1 psv va' = vm_query_user_page m psv va'" and "vm_query_user_page m1 csv va' = vm_query_user_page m csv va'"
    and "old_frame m1 psv csv va' = old_frame m psv csv va'" and "page_frames m1 psv csv va' = page_frames m psv csv va'"
proof -
  show q: "vm_query_user_page m1 psv va' = vm_query_user_page m psv va'" "vm_query_user_page m1 csv va' = vm_query_user_page m csv va'"
    using assms by (simp_all add: same_elsewhere_def)
  show o: "old_frame m1 psv csv va' = old_frame m psv csv va'"
    by (simp add: old_frame_def q)
  show "page_frames m1 psv csv va' = page_frames m psv csv va'"
    unfolding page_frames_def q o ..
qed

lemma page_ready_step:
  assumes "cloned_one L psv csv rc p s s1" and "page_ready L psv csv s va" and "pfn va \<noteq> pfn (fst p)"
    and dis: "page_frames (pmem s) psv csv (fst p) \<inter> page_frames (pmem s) psv csv va = {}"
  shows "page_ready L psv csv s1 va"
proof -
  let ?T = "tables (vm_root_from_satp psv) (vm_root_from_satp csv)" and ?Z = "old_frame (pmem s) psv csv (fst p)"
  note q = elsewhere_query [of psv csv "fst p" "pmem s" "pmem s1" va]
  have e: "same_elsewhere psv csv {pfn (fst p)} (pmem s) (pmem s1)" and k: "kept L (vm_root_from_satp psv) (vm_root_from_satp csv) ?Z s s1"
    and refs: "\<And>q. 0 < refs L s q \<Longrightarrow> q \<notin> page_frames (pmem s) psv csv (fst p) \<Longrightarrow> refs L s1 q = refs L s q"
    using assms(1) by (simp_all add: cloned_one_def)
  have old: "?Z \<subseteq> page_frames (pmem s) psv csv (fst p)"
    by (auto simp: page_frames_def old_frame_def split: option.splits)
  have T: "x \<notin> ?T s1" if "x \<in> page_frames (pmem s) psv csv va" "used_page L s x" "x \<notin> ?T s" for x
    using k that dis old unfolding kept_def by blast
  have R: "refs L s1 x = refs L s x" if "x \<in> page_frames (pmem s) psv csv va" "0 < refs L s x" for x
    using refs that dis by blast
  have al: "is_page_aligned va"
    using assms(2) by (simp add: page_ready_def)
  show ?thesis
    unfolding page_ready_def q(1,2) [OF e assms(3)]
  proof (intro conjI allI impI)
    fix pa pp assume a: "vm_query_user_page (pmem s) psv va = Some (pa, pp)"
    have f: "pfn pa \<in> page_frames (pmem s) psv csv va"
      by (simp add: page_frames_def a)
    have pa: "pfn pa \<notin> ?T s" "managed L pa \<Longrightarrow> 0 < refs L s (pfn pa) \<and> refs L s (pfn pa) < 65535"
      using assms(2) a by (auto simp: page_ready_def)
    have "unat pa mod 4096 = 0"
      using query_aligned [OF a al] by (simp add: is_page_aligned_iff)
    then have "used_page L s (pfn pa)"
      using pa(2) managed_ram by (auto simp: used_page_def)
    then show "pfn pa \<notin> ?T s1"
      using T f pa(1) by blast
    show "0 < refs L s1 (pfn pa)" "refs L s1 (pfn pa) < 65535" if "managed L pa"
      using R [OF f] pa(2) [OF that] by simp_all
    fix c cp assume c: "vm_query_user_page (pmem s) csv va = Some (c, cp) \<and> c \<noteq> pa"
    then have "pfn c \<in> page_frames (pmem s) psv csv va"
      using a by (simp add: page_frames_def old_frame_def)
    moreover have "managed L c" "0 < refs L s (pfn c)" "pfn c \<notin> ?T s"
      using assms(2) a c by (auto simp: page_ready_def)
    ultimately show "managed L c" "0 < refs L s1 (pfn c)" "pfn c \<notin> ?T s1"
      using R T by (auto simp: used_page_def)
  qed (rule al)
qed

text \<open>What is left to clone: the pages are ready, and no frame belongs to two of them.\<close>

definition clone_ready :: "ld_layout \<Rightarrow> u32 \<Rightarrow> u32 \<Rightarrow> (u32 \<times> u32) list \<Rightarrow> page_alloc \<Rightarrow> bool" where
  "clone_ready L psv csv ps s \<longleftrightarrow>
     two_spaces L (vm_root_from_satp psv) (vm_root_from_satp csv) s \<and> distinct (map (pfn \<circ> fst) ps) \<and>
     (\<forall>p\<in>set ps. page_ready L psv csv s (fst p)) \<and>
     sorted_wrt (\<lambda>p p'. page_frames (pmem s) psv csv (fst p) \<inter> page_frames (pmem s) psv csv (fst p') = {}) ps"

definition cloned :: "ld_layout \<Rightarrow> u32 \<Rightarrow> u32 \<Rightarrow> int \<Rightarrow> (u32 \<times> u32) list \<Rightarrow> page_alloc \<Rightarrow> page_alloc \<Rightarrow> bool" where
  "cloned L psv csv rc ps s s' \<longleftrightarrow>
     kept L (vm_root_from_satp psv) (vm_root_from_satp csv) (\<Union>p\<in>set ps. old_frame (pmem s) psv csv (fst p)) s s' \<and>
     same_elsewhere psv csv ((pfn \<circ> fst) ` set ps) (pmem s) (pmem s') \<and> (\<forall>p\<in>set ps. page_result L psv csv rc p s s') \<and>
     (\<forall>q. 0 < refs L s q \<and> q \<notin> (\<Union>p\<in>set ps. page_frames (pmem s) psv csv (fst p)) \<longrightarrow> refs L s' q = refs L s q)"

lemma clone_readyD:
  assumes "clone_ready L psv csv (p # ps) s"
  shows "two_spaces L (vm_root_from_satp psv) (vm_root_from_satp csv) s"
    and "p' \<in> set (p # ps) \<Longrightarrow> page_ready L psv csv s (fst p')"
    and "p' \<in> set ps \<Longrightarrow> page_frames (pmem s) psv csv (fst p) \<inter> page_frames (pmem s) psv csv (fst p') = {}"
    and "p' \<in> set ps \<Longrightarrow> pfn (fst p') \<noteq> pfn (fst p)"
proof -
  show "pfn (fst p') \<noteq> pfn (fst p)" if "p' \<in> set ps"
  proof
    assume "pfn (fst p') = pfn (fst p)"
    then have "pfn (fst p) \<in> (pfn \<circ> fst) ` set ps"
      using that by (metis comp_apply imageI)
    then show False
      using assms by (simp add: clone_ready_def)
  qed
qed (use assms in \<open>auto simp: clone_ready_def\<close>)

lemma clone_ready_step:
  assumes "clone_ready L psv csv (p # ps) s" and "cloned_one L psv csv rc p s s1"
  shows "clone_ready L psv csv ps s1"
proof -
  have e: "same_elsewhere psv csv {pfn (fst p)} (pmem s) (pmem s1)" and two: "two_spaces L (vm_root_from_satp psv) (vm_root_from_satp csv) s1"
    using assms(2) by (simp_all add: cloned_one_def kept_def)
  have ne: "pfn (fst p') \<noteq> pfn (fst p)" if "p' \<in> set ps" for p'
    by (rule clone_readyD(4) [OF assms(1) that])
  have "page_ready L psv csv s1 (fst p')" if "p' \<in> set ps" for p'
    using assms(1) that by (intro page_ready_step [OF assms(2) _ ne [OF that]]) (auto simp: clone_ready_def)
  moreover have "sorted_wrt (\<lambda>p p'. page_frames (pmem s1) psv csv (fst p) \<inter> page_frames (pmem s1) psv csv (fst p') = {}) ps"
    by (rule sorted_wrt_mono_rel [of _ "\<lambda>p p'. page_frames (pmem s) psv csv (fst p) \<inter> page_frames (pmem s) psv csv (fst p') = {}"])
      (use assms(1) elsewhere_query(4) [OF e ne] in \<open>auto simp: clone_ready_def\<close>)
  ultimately show ?thesis
    using assms(1) two by (simp add: clone_ready_def)
qed

lemma page_result_stop:
  assumes "same_elsewhere psv csv {pfn va} (pmem s) (pmem s1)" and "pfn (fst p) \<noteq> pfn va"
  shows "page_result L psv csv (-1) p s s1"
  using assms by (cases p) (simp add: page_result_def same_elsewhere_def)

lemma page_result_first:
  assumes "page_result L psv csv 0 p s s1" and "same_elsewhere psv csv N (pmem s1) (pmem s')" and "pfn (fst p) \<notin> N"
    and "\<And>pa pp. vm_query_user_page (pmem s) psv (fst p) = Some (pa, pp) \<Longrightarrow> managed L pa \<Longrightarrow> refs L s' (pfn pa) = refs L s1 (pfn pa)"
  shows "page_result L psv csv rc p s s'"
  using assms by (cases p) (auto simp: page_result_def same_elsewhere_def)

lemma page_result_later:
  assumes "page_result L psv csv rc p s1 s'" and "same_elsewhere psv csv {pfn va} (pmem s) (pmem s1)" and "pfn (fst p) \<noteq> pfn va"
    and "\<And>pa pp. vm_query_user_page (pmem s) psv (fst p) = Some (pa, pp) \<Longrightarrow> managed L pa \<Longrightarrow> refs L s1 (pfn pa) = refs L s (pfn pa)"
  shows "page_result L psv csv rc p s s'"
  using assms by (cases p) (auto simp: page_result_def same_elsewhere_def)

lemma frames_of_page: "vm_query_user_page m psv va = Some (pa, pp) \<Longrightarrow> pfn pa \<in> page_frames m psv csv va"
  by (simp add: page_frames_def)

lemma old_in_frames: "old_frame m psv csv va \<subseteq> page_frames m psv csv va"
  by (auto simp: page_frames_def old_frame_def split: option.splits)

lemma cloned_step:
  assumes ready: "clone_ready L psv csv (p # ps) s" and one: "cloned_one L psv csv 0 p s s1" and rest: "cloned L psv csv rc ps s1 s'"
  shows "cloned L psv csv rc (p # ps) s s'"
proof -
  let ?F = "\<lambda>s p. page_frames (pmem s) psv csv (fst p)" and ?O = "\<lambda>s p. old_frame (pmem s) psv csv (fst p)"
  let ?p = "vm_root_from_satp psv" and ?c = "vm_root_from_satp csv"
  have pr: "\<And>p'. p' \<in> set ps \<Longrightarrow> page_ready L psv csv s (fst p')"
    and dis: "\<And>p'. p' \<in> set ps \<Longrightarrow> ?F s p \<inter> ?F s p' = {}" and ne: "\<And>p'. p' \<in> set ps \<Longrightarrow> pfn (fst p') \<noteq> pfn (fst p)"
    using clone_readyD [OF ready] by simp_all
  have e: "same_elsewhere psv csv {pfn (fst p)} (pmem s) (pmem s1)" and k: "kept L ?p ?c (?O s p) s s1"
    and r1: "page_result L psv csv 0 p s s1" and c1: "\<And>q. 0 < refs L s q \<Longrightarrow> q \<notin> ?F s p \<Longrightarrow> refs L s1 q = refs L s q"
    using one by (simp_all add: cloned_one_def)
  have F: "?F s1 p' = ?F s p'" "?O s1 p' = ?O s p'" if "p' \<in> set ps" for p'
    using elsewhere_query(3,4) [OF e ne [OF that]] by simp_all
  have k2: "kept L ?p ?c (\<Union>p\<in>set ps. ?O s p) s1 s'" and e2: "same_elsewhere psv csv ((pfn \<circ> fst) ` set ps) (pmem s1) (pmem s')"
    and r2: "\<And>p'. p' \<in> set ps \<Longrightarrow> page_result L psv csv rc p' s1 s'"
    and c2: "\<And>q. 0 < refs L s1 q \<Longrightarrow> q \<notin> (\<Union>p\<in>set ps. ?F s p) \<Longrightarrow> refs L s' q = refs L s1 q"
    using rest F by (simp_all add: cloned_def)
  have "kept L ?p ?c (\<Union>p\<in>set (p # ps). ?O s p) s s'"
    by (rule kept_trans [OF kept_mono [OF k] kept_mono [OF k2]]) auto
  moreover have "same_elsewhere psv csv ((pfn \<circ> fst) ` set (p # ps)) (pmem s) (pmem s')"
    using e e2 by (simp add: same_elsewhere_def)
  moreover have "page_result L psv csv rc p s s'"
  proof (rule page_result_first [OF r1 e2])
    show "pfn (fst p) \<notin> (pfn \<circ> fst) ` set ps"
      using ready by (simp add: clone_ready_def)
    fix pa pp assume a: "vm_query_user_page (pmem s) psv (fst p) = Some (pa, pp)" "managed L pa"
    then have "refs L s1 (pfn pa) = refs L s (pfn pa) + 1"
      using r1 by (cases p) (simp add: page_result_def)
    then show "refs L s' (pfn pa) = refs L s1 (pfn pa)"
      using frames_of_page [OF a(1)] dis by (intro c2) auto
  qed
  moreover have "page_result L psv csv rc p' s s'" if "p' \<in> set ps" for p'
  proof (rule page_result_later [OF r2 [OF that] e ne [OF that]])
    fix pa pp assume a: "vm_query_user_page (pmem s) psv (fst p') = Some (pa, pp)" "managed L pa"
    then have "0 < refs L s (pfn pa)"
      using pr [OF that] by (simp add: page_ready_def)
    then show "refs L s1 (pfn pa) = refs L s (pfn pa)"
      using frames_of_page [OF a(1)] dis [OF that] by (intro c1) auto
  qed
  moreover have "refs L s' q = refs L s q" if "0 < refs L s q" "q \<notin> (\<Union>p\<in>set (p # ps). ?F s p)" for q
    using c1 [of q] c2 [of q] that by simp
  ultimately show ?thesis
    by (simp add: cloned_def)
qed

lemma clone_list_spec:
  assumes "ld_ok L" and "clone_ready L psv csv ps s"
  shows "\<exists>rc s'. clone_list L psv csv ps s = Inr (rc, s') \<and> rc \<in> {0, -1} \<and> cloned L psv csv rc ps s s'"
  using assms(2)
proof (induction ps arbitrary: s)
  case Nil
  then show ?case
    using kept_refl by (auto simp: clone_ready_def cloned_def same_elsewhere_def)
next
  case (Cons p ps)
  let ?F = "\<lambda>s p. page_frames (pmem s) psv csv (fst p)" and ?O = "\<lambda>s p. old_frame (pmem s) psv csv (fst p)"
  note ne = clone_readyD(4) [OF Cons.prems]
  obtain rc1 s1 where one: "clone_one L psv csv p s = Inr (rc1, s1)" "rc1 \<in> {0, -1}" "cloned_one L psv csv rc1 p s s1"
    using clone_one_spec [OF assms(1) clone_readyD(1,2) [OF Cons.prems], of p "snd p"] by (cases p) auto
  have e: "same_elsewhere psv csv {pfn (fst p)} (pmem s) (pmem s1)" and k: "kept L (vm_root_from_satp psv) (vm_root_from_satp csv) (?O s p) s s1"
    and r1: "page_result L psv csv rc1 p s s1" and c1: "\<And>q. 0 < refs L s q \<Longrightarrow> q \<notin> ?F s p \<Longrightarrow> refs L s1 q = refs L s q"
    using one(3) by (simp_all add: cloned_one_def)
  show ?case
  proof (cases "rc1 = 0")
    case False
    then have "cloned L psv csv (-1) (p # ps) s s1"
      using one(2) r1 kept_mono [OF k] page_result_stop [OF e ne] c1 e by (auto simp: cloned_def same_elsewhere_def)
    then show ?thesis
      using one False by auto
  next
    case True
    have "clone_ready L psv csv ps s1"
      by (rule clone_ready_step [OF Cons.prems one(3)])
    then obtain rc s' where IH: "clone_list L psv csv ps s1 = Inr (rc, s')" "rc \<in> {0, -1}" "cloned L psv csv rc ps s1 s'"
      using Cons.IH by blast
    then show ?thesis
      using cloned_step [OF Cons.prems, of s1 rc s'] one(1,3) True by auto
  qed
qed

section \<open>The areas of a process\<close>

lemma page_range_pfns:
  assumes "vma_ok v" and "v_used v"
  shows "map pfn (page_range (v_start v) (v_end v)) = [pfn (v_start v)..<pfn (v_end v)]"
    and "\<forall>va\<in>set (page_range (v_start v) (v_end v)). is_page_aligned va"
proof -
  have al: "unat (v_start v) mod 4096 = 0" "unat (v_end v) mod 4096 = 0" "unat (v_start v) < unat (v_end v)"
    using assms by (simp_all add: vma_ok_def is_page_aligned_iff word_less_nat_alt)
  have k: "(unat (v_end v) - unat (v_start v) + 4095) div 4096 = pfn (v_end v) - pfn (v_start v)"
    using al by (auto simp: pfn_def elim!: dvdE)
  have "pfn (v_start v) \<le> pfn (v_end v)" "pfn (v_end v) < 1048576"
    using al(3) unat_lt_2p32 [of "v_end v"] by (auto simp: pfn_def div_le_mono)
  then show "map pfn (page_range (v_start v) (v_end v)) = [pfn (v_start v)..<pfn (v_end v)]"
    "\<forall>va\<in>set (page_range (v_start v) (v_end v)). is_page_aligned va"
    using page_addrs_facts [OF al(1), of "pfn (v_end v) - pfn (v_start v)"] by (simp_all add: page_range_def k is_page_aligned_iff)
qed

lemma cow_pages_Cons:
  "cow_pages (v # vs) =
     (if v_used v \<and> v_prot v AND VMA_PROT_W \<noteq> 0
      then map (\<lambda>va. (va, v_prot v AND NOT VMA_PROT_W)) (page_range (v_start v) (v_end v)) else []) @ cow_pages vs"
  by (simp add: cow_pages_def)

lemma vmas_ok_Cons: "vmas_ok (v # vs) \<Longrightarrow> vma_ok v \<and> vmas_ok vs \<and> (\<forall>w\<in>set vs. apart v w)"
  unfolding vmas_ok_def by (fastforce simp: in_set_conv_nth)

lemma cow_pages_in:
  assumes "p \<in> set (cow_pages vs)" and "vmas_ok vs"
  obtains v where "v \<in> set vs" and "v_used v" and "v_prot v AND VMA_PROT_W \<noteq> 0" and "snd p = v_prot v AND NOT VMA_PROT_W"
    and "is_page_aligned (fst p)" and "pfn (v_start v) \<le> pfn (fst p)" and "pfn (fst p) < pfn (v_end v)"
proof -
  obtain v va where v: "v \<in> set vs" "v_used v" "v_prot v AND VMA_PROT_W \<noteq> 0" "va \<in> set (page_range (v_start v) (v_end v))"
    "p = (va, v_prot v AND NOT VMA_PROT_W)"
    using assms(1) by (auto simp: cow_pages_def)
  have ok: "vma_ok v"
    using assms(2) v(1) by (simp add: vmas_ok_def)
  have "pfn va \<in> set [pfn (v_start v)..<pfn (v_end v)]"
    using v(4) unfolding page_range_pfns(1) [OF ok v(2), symmetric] by simp
  then show ?thesis
    using that v page_range_pfns(2) [OF ok v(2)] by auto
qed

lemma cow_pages_distinct: "vmas_ok vs \<Longrightarrow> distinct (map (pfn \<circ> fst) (cow_pages vs))"
proof (induction vs)
  case (Cons v vs)
  have ok: "vma_ok v" "vmas_ok vs" "\<forall>w\<in>set vs. apart v w"
    using vmas_ok_Cons [OF Cons.prems] by simp_all
  show ?case
  proof (cases "v_used v \<and> v_prot v AND VMA_PROT_W \<noteq> 0")
    case True
    have "pfn (fst p) \<notin> {pfn (v_start v)..<pfn (v_end v)}" if p: "p \<in> set (cow_pages vs)" for p
    proof -
      obtain w where w: "w \<in> set vs" "v_used w" "pfn (v_start w) \<le> pfn (fst p)" "pfn (fst p) < pfn (v_end w)"
        by (rule cow_pages_in [OF p ok(2)])
      then have "v_end v \<le> v_start w \<or> v_end w \<le> v_start v"
        using ok(3) True by (auto simp: apart_def)
      then have "pfn (v_end v) \<le> pfn (v_start w) \<or> pfn (v_end w) \<le> pfn (v_start v)"
        by (auto simp: pfn_def word_le_nat_alt div_le_mono)
      then show ?thesis
        using w(3,4) by auto
    qed
    then show ?thesis
      using Cons.IH [OF ok(2)] page_range_pfns(1) [OF ok(1)] True by (auto simp: cow_pages_Cons comp_def)
  next
    case False
    then have "cow_pages (v # vs) = cow_pages vs"
      by (auto simp: cow_pages_Cons)
    then show ?thesis
      using Cons.IH [OF ok(2)] by simp
  qed
qed (simp add: cow_pages_def)

section \<open>Fork\<close>

lemma parent_frame_kept:
  assumes "clone_ready L psv csv ps s" and "p \<in> set ps" and "vm_query_user_page (pmem s) psv (fst p) = Some (pa, pp)"
  shows "pfn pa \<notin> (\<Union>p\<in>set ps. old_frame (pmem s) psv csv (fst p))"
proof -
  let ?F = "\<lambda>p. page_frames (pmem s) psv csv (fst p)" and ?O = "\<lambda>p. old_frame (pmem s) psv csv (fst p)"
  have ready: "page_ready L psv csv s (fst p)" and al: "unat pa mod 4096 = 0"
    using assms query_aligned [OF assms(3)] by (auto simp: clone_ready_def page_ready_def is_page_aligned_iff)
  have own: "pfn pa \<notin> ?O p"
    using ready assms(3) replaced_ne [OF al, of _ L] unfolding old_frame_replaced [OF assms(3)] page_ready_def by blast
  have in_F: "pfn pa \<in> ?F p"
    by (rule frames_of_page [OF assms(3)])
  have "sorted_wrt (\<lambda>p p'. ?F p \<inter> ?F p' = {}) ps"
    using assms(1) by (simp add: clone_ready_def)
  then have "p' = p \<or> ?F p \<inter> ?F p' = {}" if "p' \<in> set ps" for p'
    using assms(2) that by (induction ps) auto
  then show ?thesis
    using own in_F old_in_frames [of "pmem s" psv csv] by blast
qed

lemma readonly_leaf:
  assumes "is_page_aligned pa" and "prot AND 5 \<noteq> 0"
  obtains perm where "perm AND PTE_W = 0"
    and "\<And>va. leaf_at pa (flags_of_prot (prot AND NOT VMA_PROT_W)) va = Some (pa OR (va AND 0xfff), perm)"
proof -
  let ?f = "flags_of_prot (prot AND NOT VMA_PROT_W)"
  have w: "(prot AND NOT 2) AND 2 = 0" "(prot AND NOT 2) AND 1 = prot AND 1" "(prot AND NOT 2) AND 4 = prot AND 4"
    by (simp_all add: and.assoc)
  have "prot AND 1 \<noteq> 0 \<or> prot AND 4 \<noteq> 0"
  proof (rule ccontr)
    assume "\<not> ?thesis"
    then have "prot AND (1 OR 4) = 0"
      by (simp only: bit.conj_disj_distrib) simp
    then show False
      using assms(2) by simp
  qed
  then have "?f AND 7 \<noteq> 0"
    using w by (auto simp: flags_of_prot_def Let_def)
  moreover have "pte_perm_from_flags ?f AND PTE_W = 0"
    using w by (simp add: flags_of_prot_def pte_perm_from_flags_def Let_def)
  moreover have "page_floor pa = pa"
    using assms(1) by (simp add: is_page_aligned_iff page_floor_aligned_id)
  ultimately show ?thesis
    using that [of "pte_perm_from_flags ?f"] by (simp add: leaf_at_def)
qed

text \<open>What fork promises of a page of a writable area that the parent has.\<close>

definition page_shared :: "ld_layout \<Rightarrow> u32 \<Rightarrow> u32 \<Rightarrow> int \<Rightarrow> u32 \<Rightarrow> page_alloc \<Rightarrow> page_alloc \<Rightarrow> bool" where
  "page_shared L psv csv rc page s s' \<longleftrightarrow>
     (\<forall>pa pp. vm_query_user_page (pmem s) psv page = Some (pa, pp) \<longrightarrow>
        (\<forall>x. pfn x = pfn pa \<longrightarrow> pmem s' x = pmem s x) \<and> (rc = 0 \<and> managed L pa \<longrightarrow> refs L s' (pfn pa) = refs L s (pfn pa) + 1) \<and>
        (\<exists>perm. perm AND PTE_W = 0 \<and> (\<forall>va. pfn va = pfn page \<longrightarrow>
           (vm_query_user_page (pmem s') psv va = Some (pa OR (va AND 0xfff), perm) \<and>
              (rc = 0 \<longrightarrow> vm_query_user_page (pmem s') csv va = Some (pa OR (va AND 0xfff), perm))) \<or>
           rc \<noteq> 0 \<and> vm_query_user_page (pmem s') psv va = vm_query_user_page (pmem s) psv va)))"

lemma cloned_shared:
  assumes ready: "clone_ready L psv csv ps s" and c: "cloned L psv csv rc ps s s'" and p: "p \<in> set ps"
    and v: "snd p = prot AND NOT VMA_PROT_W" "prot AND 5 \<noteq> 0"
  shows "page_shared L psv csv rc (fst p) s s'"
  unfolding page_shared_def
proof (intro allI impI conjI)
  fix pa pp assume a: "vm_query_user_page (pmem s) psv (fst p) = Some (pa, pp)"
  have pr: "page_ready L psv csv s (fst p)"
    using ready p by (simp add: clone_ready_def)
  then have al: "is_page_aligned pa" "unat pa mod 4096 = 0"
    using query_aligned [OF a] by (simp_all add: page_ready_def is_page_aligned_iff)
  have used: "pfn pa \<notin> tables (vm_root_from_satp psv) (vm_root_from_satp csv) s" "used_page L s (pfn pa)"
    using pr a managed_ram [OF al(2), of L] by (auto simp: page_ready_def used_page_def)
  show "\<And>x. pfn x = pfn pa \<Longrightarrow> pmem s' x = pmem s x"
    using c used parent_frame_kept [OF ready p a] by (simp add: cloned_def kept_def)
  have res: "page_result L psv csv rc p s s'"
    using c p by (simp add: cloned_def)
  then show "rc = 0 \<and> managed L pa \<Longrightarrow> refs L s' (pfn pa) = refs L s (pfn pa) + 1"
    using a by (simp add: page_result_def split_beta)
  obtain perm where "perm AND PTE_W = 0" "\<And>va. leaf_at pa (flags_of_prot (snd p)) va = Some (pa OR (va AND 0xfff), perm)"
    using readonly_leaf [OF al(1) v(2)] v(1) by metis
  then show "\<exists>perm. perm AND PTE_W = 0 \<and> (\<forall>va. pfn va = pfn (fst p) \<longrightarrow>
        (vm_query_user_page (pmem s') psv va = Some (pa OR (va AND 0xfff), perm) \<and>
           (rc = 0 \<longrightarrow> vm_query_user_page (pmem s') csv va = Some (pa OR (va AND 0xfff), perm))) \<or>
        rc \<noteq> 0 \<and> vm_query_user_page (pmem s') psv va = vm_query_user_page (pmem s) psv va)"
    using res a by (intro exI [of _ perm]) (simp add: page_result_def split_beta)
qed


text \<open>A parent with one page of RAM in a writable area, and a child with an empty address space.\<close>

definition fork_parent :: "u32 \<Rightarrow> u32 \<Rightarrow> process" where
  "fork_parent sv va = zero_process\<lparr>p_satp := sv, vmas := [\<lparr>v_used = True, v_start = va, v_end = va + 4096, v_prot = 3\<rparr>]\<rparr>"

lemma fork_parent_pages:
  assumes "is_page_aligned va" and "va < 0x20400000"
  shows "vmas_ok (vmas (fork_parent sv va))" and "cow_pages (vmas (fork_parent sv va)) = [(va, 1)]"
proof -
  have lt: "unat va < 541065216"
    using assms(2) by (simp add: word_less_nat_alt)
  then have u: "unat (va + 4096) = unat va + 4096"
    by (simp add: unat_word_ariths)
  have "is_page_aligned (va + 4096)"
    using assms(1) u by (simp add: is_page_aligned_iff)
  then show "vmas_ok (vmas (fork_parent sv va))"
    using assms(1) u by (simp add: fork_parent_def vmas_ok_def vma_ok_def word_less_nat_alt)
  show "cow_pages (vmas (fork_parent sv va)) = [(va, 1)]"
    using u by (simp add: fork_parent_def cow_pages_def page_range_def page_addrs_def)
qed

lemma fork_example:
  obtains s p c d va where "two_spaces ld_example p c s" and "unat p mod 4096 = 0" and "unat c mod 4096 = 0" and "is_page_aligned va"
    and "va < 0x20400000" and "pt_walk (pmem s) p va = Some (d, 18)" and "pt_walk (pmem s) c va = None"
    and "pfn d \<notin> tables p c s" and "refs ld_example s (pfn d) = 1"
proof -
  obtain s p where k: "pa_inv ld_example s" "unat p mod 4096 = 0" "pfn (free_ram ld_example) \<le> pfn p"
    "pfn p + 3 \<le> pfn (free_ram ld_example) + 8192" "\<forall>q\<in>{pfn p..<pfn p + 3}. refs ld_example s q = 1" "\<forall>x. pmem s x = 0"
    by (rule three_pages)
  define c d where "c = p + 1 * 4096" and "d = p + 2 * 4096"
  have lt: "pfn p + 2 < 1048576"
    using k(4) ram_pfn(2) [OF ld_ok_example] by simp
  have cd: "unat c mod 4096 = 0" "pfn c = pfn p + 1" "unat d mod 4096 = 0" "pfn d = pfn p + 2"
    using add_pages [OF k(2), of 1] add_pages [OF k(2), of 2] lt by (simp_all add: c_def d_def)
  have mg: "managed ld_example p" "managed ld_example c"
    using k(2-4) cd by (simp_all add: managed_def)
  define b where "b = d AND NOT 0x3fffff"
  define va where "va = (0x20000000 OR (d AND 0x3fffff) :: u32)"
  let ?m = "pte_write p 128 (pte_from_pa b 18) (pmem s)"
  let ?s = "s\<lparr>pmem := ?m\<rparr>"
  have z: "pte_read (pmem s) t i = 0" for t i
    using k(6) by (simp add: pte_read_def load32_def)
  have pc: "p \<noteq> c"
    using cd(2) by auto
  have rd: "\<forall>i<1024. pte_read ?m p i = (if i = 128 then pte_from_pa b 18 else 0)" "\<forall>i<1024. pte_read ?m c i = 0"
    using pte_read_write [OF k(2) _ k(2), of 128] pte_read_write [OF k(2) _ cd(1), of 128] z pc by auto
  have rf: "0 < refs ld_example ?s (pfn p)" "0 < refs ld_example ?s (pfn c)" "refs ld_example ?s (pfn d) = 1"
    using k(5) cd by auto
  have bz: "b AND 0x3fffff = 0"
    by (simp add: b_def and.assoc)
  note P = single_leaf [of ld_example p ?s 128 b] and C = single_leaf [of ld_example c ?s 2000 0]
  have okP: "pt_ok ld_example ?s p" and okC: "pt_ok ld_example ?s c"
    using P(1) C(1) mg rf rd bz by auto
  have vp: "vpn1 va = 128" "va AND 0x3fffff = d AND 0x3fffff"
    by (simp_all add: va_def vpn1_window bit.conj_disj_distrib2 and.assoc)
  have od: "b OR (d AND 0x3fffff) = d"
    by (simp add: b_def flip: bit.conj_disj_distrib)
  have wP: "pt_walk ?m p va = Some (d, 18)"
    using P(3) [of va] mg rf rd bz vp od by simp
  have wC: "pt_walk ?m c va = None"
    using rd(2) vpn_less(1) [of va] by (simp add: pt_walk_def is_valid_def Let_def)
  have va_al: "is_page_aligned va"
  proof -
    have "d AND 0x3fffff AND 4095 = 0"
      using cd(3) unfolding is_page_aligned_iff [symmetric] is_page_aligned_def by simp
    then show ?thesis
      by (simp add: is_page_aligned_def va_def bit.conj_disj_distrib2 and.assoc)
  qed
  have pp: "pt_pages ?m p = {pfn p}" "pt_pages ?m c = {pfn c}"
    using P(2) C(2) mg rf rd bz by auto
  have "va < 0x20400000"
  proof -
    have "unat (d AND mask 22) < 4194304"
      by (simp add: unat_and_mask)
    then have lt: "unat (d AND 0x3fffff) < 4194304"
      by (simp add: mask_22)
    have "0x20000000 AND (d AND 0x3fffff) = (d AND (0x20000000 AND 0x3fffff) :: u32)"
      by (simp only: ac_simps)
    then have "va = 0x20000000 + (d AND 0x3fffff)"
      using word_plus_and_or [where x = "0x20000000" and y = "d AND 0x3fffff"] by (simp add: va_def)
    then show ?thesis
      using lt by (simp add: word_less_nat_alt unat_word_ariths)
  qed
  then show ?thesis
    using that [of p c ?s va d] k(1,2) cd okP okC pp va_al wP wC rf(3) by (simp add: two_spaces_def tables_def)
qed


end
