(* ===== verification/Fault_Spec.thy ===== *)
theory Fault_Spec
  imports Trap_Spec Process_Spec
begin

text \<open>
  The end of a program that touches memory it may not: the trap handler, the page fault code, the dump on the
  console and the exit of the process together.
\<close>

section \<open>The dump always prints\<close>

text \<open>The kinds of the arguments a format consumes; \<open>True\<close> is a string.\<close>

fun fmt_kinds :: "cstr \<Rightarrow> bool list" where
  "fmt_kinds [] = []"
| "fmt_kinds (ch # fmt) =
     (if ch = 0x25 then
        (case fmt of
           [] \<Rightarrow> []
         | k # rest \<Rightarrow> if k = 0x73 then True # fmt_kinds rest else if k = 0x64 \<or> k = 0x78 then False # fmt_kinds rest else fmt_kinds rest)
      else fmt_kinds fmt)"

fun is_str :: "arg \<Rightarrow> bool" where
  "is_str (Str s) = True"
| "is_str (Num v) = False"

lemma is_str_iff: "is_str a = (\<exists>s. a = Str s)" "(\<not> is_str a) = (\<exists>v. a = Num v)"
  by (cases a; simp)+

lemma printf_returns: "fmt_kinds fmt = map is_str vargs \<Longrightarrow> \<exists>c'. printf fmt vargs c = Inr c'"
proof (induction fmt arbitrary: vargs c rule: fmt_kinds.induct)
  case (2 ch fmt)
  show ?case
  proof (cases "ch = 0x25")
    case True
    show ?thesis
    proof (cases fmt)
      case (Cons k rest)
      note IH = "2.IH"(1-3) [OF True Cons]
      consider "k = 0x73" | "k = 0x64 \<or> k = 0x78" | "k \<noteq> 0x73" "k \<noteq> 0x64" "k \<noteq> 0x78"
        by blast
      then show ?thesis
      proof cases
        case 1
        then obtain s as where "vargs = Str s # as" "fmt_kinds rest = map is_str as"
          using "2.prems" True Cons by (auto simp: is_str_iff)
        then show ?thesis
          using IH(1) 1 True Cons by simp
      next
        case 2
        then obtain v as where "vargs = Num v # as" "fmt_kinds rest = map is_str as"
          using "2.prems" True Cons by (auto simp: is_str_iff(2))
        then show ?thesis
          using IH(2) 2 True Cons by auto
      next
        case 3
        then show ?thesis
          using IH(3) "2.prems" True Cons by simp
      qed
    qed (simp add: True)
  next
    case False
    then show ?thesis
      using "2.IH"(4) "2.prems" by simp
  qed
qed simp

lemma printf_nums:
  "fmt_kinds fmt = replicate (length vs) False \<Longrightarrow> \<exists>c'. printf fmt (map Num vs) c = Inr c'"
  by (intro printf_returns) (simp add: map_replicate_const comp_def)

lemma kbind_returns: "\<exists>x. m = Inr x \<Longrightarrow> (\<And>x. \<exists>y. f x = Inr y) \<Longrightarrow> \<exists>y. kbind m f = Inr y"
  by auto

lemma frame_kinds:
  "fmt_kinds (lit ''trap tf: <null>'' @ [10]) = []"
  "fmt_kinds (lit ''trap tf0: ra=%x sp=%x gp=%x tp=%x'' @ [10]) = replicate 4 False"
  "fmt_kinds (lit ''trap tf1: a0=%x a1=%x a2=%x a3=%x a4=%x a5=%x a6=%x a7=%x'' @ [10]) = replicate 8 False"
  "fmt_kinds (lit ''trap tf2: t0=%x t1=%x t2=%x t3=%x t4=%x t5=%x t6=%x'' @ [10]) = replicate 7 False"
  "fmt_kinds (lit ''trap tf3: s0=%x s1=%x s2=%x s3=%x s4=%x s5=%x s6=%x s7=%x s8=%x s9=%x s10=%x s11=%x'' @ [10]) = replicate 12 False"
  by code_simp+

lemma context_kinds:
  "fmt_kinds (lit ''trap: scause=%x(%s) stval=%x sepc=%x sstatus=%x satp=%x sip=%x sie=%x'' @ [10]) = [False, True] @ replicate 6 False"
  "fmt_kinds (lit ''trap proc: none'' @ [10]) = []"
  "fmt_kinds (lit ''trap proc: pid=%d state=%d is_user=%d sp=%x proc_sepc=%x proc_satp=%x'' @ [10]) = replicate 6 False"
  by code_simp+

lemma dump_frame_returns: "\<exists>c'. dump_trap_frame fr c = Inr c'"
proof (cases fr)
  case None
  then show ?thesis
    using printf_returns [of _ "[]"] frame_kinds(1) by (simp add: dump_trap_frame_def)
next
  case (Some f)
  show ?thesis
    unfolding dump_trap_frame_def Some option.case
    by (intro kbind_returns printf_nums; simp only: frame_kinds list.size; simp add: eval_nat_numeral)
qed

lemma dump_context_returns: "\<exists>c'. dump_trap_context E cause tval pc f M = Inr c'"
proof -
  have "\<exists>c'. (case kcur (mk M) of
               None \<Rightarrow> printf (lit ''trap proc: none'' @ [10]) [] c
             | Some p \<Rightarrow>
                 printf (lit ''trap proc: pid=%d state=%d is_user=%d sp=%x proc_sepc=%x proc_satp=%x'' @ [10])
                   (map Num [of_int (pid p), proc_state_num (state p), if is_user p then 1 else 0, p_sp p, p_sepc p, p_satp p]) c) =
             Inr c'" for c
  proof (cases "kcur (mk M)")
    case None
    then show ?thesis
      using printf_returns [of _ "[]"] context_kinds(2) by simp
  next
    case (Some p)
    show ?thesis
      unfolding Some option.case by (intro printf_nums; simp only: context_kinds list.size; simp add: eval_nat_numeral)
  qed
  then show ?thesis
    unfolding dump_trap_context_def Let_def
    by (intro kbind_returns dump_frame_returns printf_returns; (simp only: context_kinds)?; simp add: eval_nat_numeral)
qed

section \<open>An illegal access\<close>

lemma proc_exit_kvm: "proc_exit st S = Inr S' \<Longrightarrow> kvm S' = kvm S"
  by (auto simp: proc_exit_def exit_mark_def sys_do_yield_def set_proc_def Let_def split: option.splits if_splits)

lemma page_fault_access_cases: "page_fault_access c \<noteq> 0 \<longleftrightarrow> c \<in> {12, 13, 15}"
  by (auto simp: page_fault_access_def)

text \<open>
  C3. An illegal access ends the program and nothing else. When a user process faults at an address that lies in none of
  its areas, or in one without the needed right, the handler returns: the process is a zombie with exit status 128 and no open
  files, a blocked parent becomes runnable, the cause is recorded and the registers are printed; no byte of physical
  memory, no page and no file has changed, and the process never runs again.
\<close>

theorem illegal_access_ends_process:
  assumes "tab_ok (tab (msys M)) c" and "idle_proc (tab (msys M)) = Some d" and "d < 8" and "d \<noteq> c" and "pids_ok (msys M)"
    and "state (proc_at c (msys M)) = PROC_RUNNABLE" and "is_user (proc_at c (msys M))" and "vmas_ok (vmas (proc_at c (msys M)))"
    and "scause (khart (msys M)) \<in> {12, 13, 15}"
    and "\<not> byte_ok (vmas (proc_at c (msys M))) (page_fault_access (scause (khart (msys M)))) (page_floor (stval (khart (msys M))))"
  shows "\<exists>M'. handle_trap E f M = Some (Inr (Exited, M')) \<and>
    state (proc_at c (msys M')) = PROC_ZOMBIE \<and> exit_status (proc_at c (msys M')) = 128 \<and>
    (\<forall>fd\<in>set (fds (proc_at c (msys M'))). \<not> fd_used fd) \<and>
    (\<forall>i<8. state (proc_at i (msys M)) = PROC_BLOCKED \<and> pid (proc_at i (msys M)) = parent_pid (proc_at c (msys M)) \<longrightarrow>
       state (proc_at i (msys M')) = PROC_RUNNABLE) \<and>
    g_last_user_scause M' = scause (khart (msys M)) \<and> g_last_user_stval M' = stval (khart (msys M)) \<and> g_last_user_sepc M' = tf_sepc f \<and>
    dump_trap_context E (scause (khart (msys M))) (stval (khart (msys M))) (tf_sepc f) (Some f) M = Inr (kcon (mk M')) \<and>
    kpa (mk M') = kpa (mk M) \<and> kfs (mk M') = kfs (mk M) \<and>
    (\<forall>n k h. yields n (tab (msys M')) (khart (msys M')) = Some (k, h) \<longrightarrow> current_proc k \<noteq> Some c)"
proof -
  let ?h = "khart (msys M)" and ?p = "proc_at c (msys M)"
  have cur: "kcur (mk M) = Some ?p"
    using assms(1) by (simp add: kcur_def cur_def msys_def tab_ok_def)
  obtain S' where S': "proc_exit 128 (msys M) = Inr S'" "state (proc_at c S') = PROC_ZOMBIE" "exit_status (proc_at c S') = 128"
    "\<forall>fd\<in>set (fds (proc_at c S')). \<not> fd_used fd"
    "\<forall>i<8. state (proc_at i (msys M)) = PROC_BLOCKED \<and> pid (proc_at i (msys M)) = parent_pid ?p \<longrightarrow> state (proc_at i S') = PROC_RUNNABLE"
    "\<forall>n k h. yields n (tab S') (khart S') = Some (k, h) \<longrightarrow> current_proc k \<noteq> Some c"
    using proc_exit_spec [OF assms(1-6), of 128] by blast
  obtain con where con: "dump_trap_context E (scause ?h) (stval ?h) (tf_sepc f) (Some f) M = Inr con"
    using dump_context_returns by blast
  define M1 where "M1 = M\<lparr>g_last_user_scause := scause ?h, g_last_user_stval := stval ?h, g_last_user_sepc := tf_sepc f, mk := (mk M)\<lparr>kcon := con\<rparr>\<rparr>"
  have "dump_trap_context E (scause ?h) (stval ?h) (tf_sepc f) (Some f)
      (M\<lparr>g_last_user_scause := scause ?h, g_last_user_stval := stval ?h, g_last_user_sepc := tf_sepc f\<rparr>) = Inr con"
    using con by (simp add: dump_trap_context_def msys_def mdev_def)
  then have "trap_unserved E f M = Inr (Exited, set_msys S' M1)"
    using cur assms(7) S'(1) by (simp add: trap_unserved_def Let_def M1_def msys_def ksys_def)
  moreover have "page_fault_access (scause ?h) \<noteq> 0"
    using assms(9) by (simp add: page_fault_access_cases)
  moreover have "proc_handle_user_page_fault (klayout (menv_k E)) (Some ?p) (stval ?h) (page_fault_access (scause ?h)) (kpa (mk M)) =
      Inr (- 1, kpa (mk M))"
    using assms(8,10) by (intro page_fault_denied) simp_all
  moreover have "M\<lparr>mk := set_kpa (kpa (mk M)) (mk M)\<rparr> = M"
    by (simp add: set_kpa_def kpa_def set_ksys_def ksys_def set_pa_def)
  ultimately have "trap_fault E f M = Inr (Exited, set_msys S' M1)"
    using cur assms(7) by (simp add: trap_fault_def Let_def)
  then have "handle_trap E f M = Some (Inr (Exited, set_msys S' M1))"
    using assms(9) by (auto simp: handle_trap_def Let_def is_syscall_scause_def)
  moreover have "msys (set_msys S' M1) = S'" "kcon (mk (set_msys S' M1)) = con" "kfs (mk (set_msys S' M1)) = kfs (mk M)"
    "kpa (mk (set_msys S' M1)) = kpa (mk M)"
    using proc_exit_kvm [OF S'(1)] by (simp_all add: msys_def set_msys_def set_ksys_def ksys_def kpa_def M1_def)
  ultimately show ?thesis
    using S'(2-6) con by (intro exI [of _ "set_msys S' M1"]) (simp add: set_msys_def M1_def)
qed

text \<open>A program without any area reads address 4096.\<close>

definition fault_machine :: "unit machine" where
  "fault_machine = set_msys
     \<lparr>tab = sample_tab\<lparr>procs := (procs sample_tab)[2 := (procs sample_tab ! 2)\<lparr>is_user := True\<rparr>]\<rparr>,
      kvm = \<lparr>pa_state = pa_boot (\<lambda>_. 0), kernel_root_pt = 0, kernel_satp_value = 0\<rparr>,
      khart = hart_boot\<lparr>scause := 13, stval := 0x1000\<rparr>\<rparr> demo_machine"

lemma illegal_access_ends_process_witness:
  "\<exists>M'. handle_trap demo_menv zero_frame fault_machine = Some (Inr (Exited, M')) \<and> state (proc_at 2 (msys M')) = PROC_ZOMBIE \<and>
     exit_status (proc_at 2 (msys M')) = 128 \<and> g_last_user_stval M' = 0x1000"
proof -
  have sys: "msys fault_machine =
     \<lparr>tab = sample_tab\<lparr>procs := (procs sample_tab)[2 := (procs sample_tab ! 2)\<lparr>is_user := True\<rparr>]\<rparr>,
      kvm = \<lparr>pa_state = pa_boot (\<lambda>_. 0), kernel_root_pt = 0, kernel_satp_value = 0\<rparr>,
      khart = hart_boot\<lparr>scause := 13, stval := 0x1000\<rparr>\<rparr>"
    by (simp add: fault_machine_def msys_def set_msys_def set_ksys_def ksys_def)
  have tab: "tab_ok (tab (msys fault_machine)) 2" "idle_proc (tab (msys fault_machine)) = Some 0"
    by (simp_all add: sys sample_tab_def tab_ok_def)
  have pids: "pids_ok (msys fault_machine)"
    by (auto simp: sys pids_ok_def proc_at_def sample_tab_def nth_list_update)
  have p: "proc_at 2 (msys fault_machine) = zero_process\<lparr>pid := 3, state := PROC_RUNNABLE, budget := 4, is_user := True\<rparr>"
    by (simp add: sys proc_at_def sample_tab_def)
  have h: "khart (msys fault_machine) = hart_boot\<lparr>scause := 13, stval := 0x1000\<rparr>"
    by (simp add: sys)
  have v: "vmas_ok (vmas (proc_at 2 (msys fault_machine)))"
    "\<not> byte_ok (vmas (proc_at 2 (msys fault_machine))) (page_fault_access (scause (khart (msys fault_machine))))
        (page_floor (stval (khart (msys fault_machine))))"
    by (auto simp: p zero_process_def vmas_ok_def vma_ok_def apart_def byte_ok_def in_vma_def no_vma_def)
  show ?thesis
    using illegal_access_ends_process [OF tab _ _ pids _ _ v(1) _ v(2), of demo_menv zero_frame] by (auto simp: p h)
qed

end
