(* ===== verification/Wm.thy ===== *)
theory Wm
  imports Virtio_Gpu Virtio_Input Cstr Selection
begin

text \<open>
  The window manager, \<^verbatim>\<open>kernel/gui/wm.c\<close>. A window is an index into \<^verbatim>\<open>wm_windows\<close>. C integers are \<open>int\<close>; results
  are those of the code as long as no sum leaves the 32-bit range, where C leaves them undefined. The
  frame buffer and images are bytes of physical memory, which the kernel maps one to one. \<^verbatim>\<open>strncpy\<close> into a
  buffer may store one byte more than the buffer has (see the theory of C strings); the byte goes to the
  member that follows.
\<close>

section \<open>State\<close>

record wm_event =
  we_type :: u32
  we_window_id :: u32
  we_timestamp :: u64
  we_a :: u32
  we_b :: u32
  we_c :: u32
  we_d :: u32

definition zero_wm_event :: wm_event where
  "zero_wm_event = \<lparr>we_type = 0, we_window_id = 0, we_timestamp = 0, we_a = 0, we_b = 0, we_c = 0, we_d = 0\<rparr>"

abbreviation WM_EV_FOCUS_IN :: u32 where "WM_EV_FOCUS_IN \<equiv> 1"
abbreviation WM_EV_FOCUS_OUT :: u32 where "WM_EV_FOCUS_OUT \<equiv> 2"
abbreviation WM_EV_POINTER_MOVE :: u32 where "WM_EV_POINTER_MOVE \<equiv> 3"
abbreviation WM_EV_OVERFLOW :: u32 where "WM_EV_OVERFLOW \<equiv> 5"
abbreviation WM_EV_WHEEL :: u32 where "WM_EV_WHEEL \<equiv> 6"

abbreviation WM_MAX_WINDOWS :: nat where "WM_MAX_WINDOWS \<equiv> 8"
abbreviation WM_TITLE_MAX :: nat where "WM_TITLE_MAX \<equiv> 24"
abbreviation WM_TEXT_MAX :: nat where "WM_TEXT_MAX \<equiv> 4096"
abbreviation WM_EVENT_RING_SIZE :: nat where "WM_EVENT_RING_SIZE \<equiv> 256"
abbreviation WM_TEXT_SCREEN_W :: int where "WM_TEXT_SCREEN_W \<equiv> 80"
abbreviation WM_TEXT_SCREEN_H :: int where "WM_TEXT_SCREEN_H \<equiv> 25"
abbreviation WM_TASKBAR_PX :: int where "WM_TASKBAR_PX \<equiv> 28"

record wm_window =
  w_used :: bool
  w_id :: int
  w_visible :: bool
  w_focusable :: bool
  w_x :: int
  w_y :: int
  w_w :: int
  w_h :: int
  w_z :: int
  w_title :: "u8 list"
  w_text :: "u8 list"
  w_has_image :: u32
  w_image_w :: int
  w_image_h :: int
  w_image_pixels :: u32
  w_image_bytes :: u32
  w_ring :: "wm_event list"
  w_ev_head :: nat
  w_ev_tail :: nat
  w_ev_overflow_latched :: bool

definition zero_window :: wm_window where
  "zero_window = \<lparr>w_used = False, w_id = 0, w_visible = False, w_focusable = False, w_x = 0, w_y = 0, w_w = 0, w_h = 0, w_z = 0,
     w_title = replicate WM_TITLE_MAX 0, w_text = replicate WM_TEXT_MAX 0, w_has_image = 0, w_image_w = 0, w_image_h = 0,
     w_image_pixels = 0, w_image_bytes = 0, w_ring = replicate WM_EVENT_RING_SIZE zero_wm_event, w_ev_head = 0,
     w_ev_tail = 0, w_ev_overflow_latched = False\<rparr>"

record wm =
  wm_windows :: "wm_window list"
  wm_next_id :: int
  wm_next_z :: int
  wm_screen_w :: int
  wm_screen_h :: int
  wm_cursor_x :: int
  wm_cursor_y :: int
  wm_cursor_visible :: bool
  wm_focus_id :: int
  wm_event_tick :: u64
  wm_gpu_ready :: bool
  wm_dirty_valid :: bool
  wm_dirty_x0 :: int
  wm_dirty_y0 :: int
  wm_dirty_x1 :: int
  wm_dirty_y1 :: int
  wm_clip_enabled :: bool
  wm_clip_x0 :: int
  wm_clip_y0 :: int
  wm_clip_x1 :: int
  wm_clip_y1 :: int

definition win :: "nat \<Rightarrow> wm \<Rightarrow> wm_window" where
  "win i m = wm_windows m ! i"

definition set_win :: "nat \<Rightarrow> wm_window \<Rightarrow> wm \<Rightarrow> wm" where
  "set_win i x m = m\<lparr>wm_windows := (wm_windows m)[i := x]\<rparr>"

section \<open>The dirty rectangle\<close>

definition wm_mark_dirty_rect :: "int \<Rightarrow> int \<Rightarrow> int \<Rightarrow> int \<Rightarrow> wm \<Rightarrow> wm" where
  "wm_mark_dirty_rect x y w h m =
     (if w \<le> 0 \<or> h \<le> 0 then m
      else
        let x0 = x; y0 = y; x1 = x + w; y1 = y + h in
        if x1 \<le> 0 \<or> y1 \<le> 0 \<or> wm_screen_w m \<le> x0 \<or> wm_screen_h m \<le> y0 then m
        else
          let x0 = (if x0 < 0 then 0 else x0); y0 = (if y0 < 0 then 0 else y0);
              x1 = (if wm_screen_w m < x1 then wm_screen_w m else x1);
              y1 = (if wm_screen_h m < y1 then wm_screen_h m else y1)
          in
          if x1 \<le> x0 \<or> y1 \<le> y0 then m
          else if \<not> wm_dirty_valid m then
            m\<lparr>wm_dirty_valid := True, wm_dirty_x0 := x0, wm_dirty_y0 := y0, wm_dirty_x1 := x1, wm_dirty_y1 := y1\<rparr>
          else
            m\<lparr>wm_dirty_x0 := (if x0 < wm_dirty_x0 m then x0 else wm_dirty_x0 m),
              wm_dirty_y0 := (if y0 < wm_dirty_y0 m then y0 else wm_dirty_y0 m),
              wm_dirty_x1 := (if wm_dirty_x1 m < x1 then x1 else wm_dirty_x1 m),
              wm_dirty_y1 := (if wm_dirty_y1 m < y1 then y1 else wm_dirty_y1 m)\<rparr>)"

definition wm_mark_dirty_window_box :: "int \<Rightarrow> int \<Rightarrow> int \<Rightarrow> int \<Rightarrow> wm \<Rightarrow> wm" where
  "wm_mark_dirty_window_box x y w h m = wm_mark_dirty_rect (x - 4) (y - 4) (w + 8) (h + 8) m"

definition wm_mark_dirty_window :: "nat option \<Rightarrow> wm \<Rightarrow> wm" where
  "wm_mark_dirty_window p m =
     (case p of
        None \<Rightarrow> m
      | Some i \<Rightarrow>
          if \<not> w_used (win i m) then m
          else wm_mark_dirty_window_box (w_x (win i m)) (w_y (win i m)) (w_w (win i m)) (w_h (win i m)) m)"

definition wm_usable_h :: "wm \<Rightarrow> int" where
  "wm_usable_h m =
     (if wm_gpu_ready m then let h = wm_screen_h m - WM_TASKBAR_PX in if 1 < h then h else 1 else WM_TEXT_SCREEN_H - 1)"

definition wm_screen_width :: "wm \<Rightarrow> int" where
  "wm_screen_width m = wm_screen_w m"

definition wm_screen_height :: "wm \<Rightarrow> int" where
  "wm_screen_height m = wm_screen_h m"

definition wm_mark_dirty_taskbar :: "wm \<Rightarrow> wm" where
  "wm_mark_dirty_taskbar m =
     (let y0 = wm_usable_h m; y0 = (if y0 < 0 then 0 else y0)
      in wm_mark_dirty_rect 0 y0 (wm_screen_w m) (wm_screen_h m - y0) m)"

definition wm_mark_dirty_full :: "wm \<Rightarrow> wm" where
  "wm_mark_dirty_full m =
     m\<lparr>wm_dirty_valid := True, wm_dirty_x0 := 0, wm_dirty_y0 := 0, wm_dirty_x1 := wm_screen_w m, wm_dirty_y1 := wm_screen_h m\<rparr>"

section \<open>Events of a window\<close>

definition wm_find :: "int \<Rightarrow> wm \<Rightarrow> nat option" where
  "wm_find i m = first_idx (\<lambda>w. w_used w \<and> w_id w = i) (wm_windows m)"

text \<open>The clock is \<^verbatim>\<open>wm_event_tick\<close>, read and advanced when an event is stored.\<close>

definition wm_queue_event :: "nat option \<Rightarrow> u32 \<Rightarrow> u32 \<Rightarrow> u32 \<Rightarrow> u32 \<Rightarrow> u32 \<Rightarrow> u32 \<Rightarrow> wm \<Rightarrow> wm" where
  "wm_queue_event p ty window_id a b c d m =
     (case p of
        None \<Rightarrow> m
      | Some i \<Rightarrow>
          let w = win i m in
          if \<not> w_used w then m
          else
            let last = (w_ev_tail w + WM_EVENT_RING_SIZE - 1) mod WM_EVENT_RING_SIZE;
                prev = w_ring w ! last;
                tick = wm_event_tick m;
                m' = m\<lparr>wm_event_tick := tick + 1\<rparr>
            in
            if w_ev_head w \<noteq> w_ev_tail w \<and> ty = WM_EV_POINTER_MOVE \<and> we_type prev = WM_EV_POINTER_MOVE \<and> we_window_id prev = window_id
            then
              set_win i (w\<lparr>w_ring := (w_ring w)[last := prev\<lparr>we_timestamp := tick, we_a := a, we_b := b, we_c := c, we_d := d\<rparr>]\<rparr>) m'
            else if w_ev_head w \<noteq> w_ev_tail w \<and> ty = WM_EV_WHEEL \<and> we_type prev = WM_EV_WHEEL \<and> we_window_id prev = window_id
            then
              set_win i (w\<lparr>w_ring := (w_ring w)[last := prev\<lparr>we_timestamp := tick, we_a := we_a prev + a, we_b := b, we_c := c,
                we_d := d\<rparr>]\<rparr>) m'
            else
              let nxt = (w_ev_tail w + 1) mod WM_EVENT_RING_SIZE in
              if nxt = w_ev_head w then
                if \<not> w_ev_overflow_latched w then
                  let w = w\<lparr>w_ev_overflow_latched := True,
                      w_ring := (w_ring w)[w_ev_tail w := (w_ring w ! w_ev_tail w)\<lparr>we_type := WM_EV_OVERFLOW,
                        we_window_id := of_int (w_id w), we_timestamp := tick\<rparr>],
                      w_ev_tail := nxt\<rparr>;
                      w = (if w_ev_tail w = w_ev_head w then w\<lparr>w_ev_head := (w_ev_head w + 1) mod WM_EVENT_RING_SIZE\<rparr> else w)
                  in set_win i w m'
                else m
              else
                set_win i (w\<lparr>w_ring := (w_ring w)[w_ev_tail w := \<lparr>we_type = ty, we_window_id = window_id, we_timestamp = tick,
                    we_a = a, we_b = b, we_c = c, we_d = d\<rparr>], w_ev_tail := nxt\<rparr>) m')"

definition wm_poll_event :: "int \<Rightarrow> wm \<Rightarrow> wm_event option \<times> wm" where
  "wm_poll_event window_id m =
     (case wm_find window_id m of
        None \<Rightarrow> (None, m)
      | Some i \<Rightarrow>
          let w = win i m in
          if w_ev_head w = w_ev_tail w then (None, m)
          else (Some (w_ring w ! w_ev_head w), set_win i (w\<lparr>w_ev_head := (w_ev_head w + 1) mod WM_EVENT_RING_SIZE\<rparr>) m))"

section \<open>Focus and order\<close>

definition focus_event :: "u32 \<Rightarrow> nat option \<Rightarrow> wm \<Rightarrow> wm" where
  "focus_event ty p m = (case p of None \<Rightarrow> m | Some i \<Rightarrow> wm_queue_event p ty (of_int (w_id (win i m))) 0 0 0 0 m)"

definition wm_set_focus_internal :: "int \<Rightarrow> wm \<Rightarrow> int \<times> wm" where
  "wm_set_focus_internal i m =
     (if wm_focus_id m = i then (0, m)
      else
        let oldw = wm_find (wm_focus_id m) m; neww = wm_find i m in
        if 0 < i \<and> (case neww of None \<Rightarrow> True | Some j \<Rightarrow> \<not> w_focusable (win j m) \<or> \<not> w_visible (win j m)) then (-1, m)
        else
          let m = m\<lparr>wm_focus_id := i\<rparr>;
              m = focus_event WM_EV_FOCUS_OUT oldw m;
              m = focus_event WM_EV_FOCUS_IN neww m
          in (0, wm_mark_dirty_window neww (wm_mark_dirty_window oldw (wm_mark_dirty_taskbar m))))"

definition covers :: "int \<Rightarrow> int \<Rightarrow> wm_window \<Rightarrow> bool" where
  "covers x y w \<longleftrightarrow> \<not> (x < w_x w \<or> y < w_y w \<or> w_x w + w_w w \<le> x \<or> w_y w + w_h w \<le> y)"

fun top_loop :: "wm \<Rightarrow> int \<Rightarrow> int \<Rightarrow> int \<Rightarrow> nat list \<Rightarrow> nat option \<Rightarrow> int \<Rightarrow> nat option" where
  "top_loop m x y ignore_id [] best best_z = best"
| "top_loop m x y ignore_id (i # is) best best_z =
     (let w = win i m in
      if \<not> w_used w \<or> \<not> w_visible w \<or> w_id w = ignore_id then top_loop m x y ignore_id is best best_z
      else if \<not> covers x y w then top_loop m x y ignore_id is best best_z
      else if best_z < w_z w then top_loop m x y ignore_id is (Some i) (w_z w)
      else top_loop m x y ignore_id is best best_z)"

definition wm_top_at :: "int \<Rightarrow> int \<Rightarrow> int \<Rightarrow> wm \<Rightarrow> nat option" where
  "wm_top_at x y ignore_id m = top_loop m x y ignore_id [0..<WM_MAX_WINDOWS] None (-1)"

text \<open>The indices of the windows in the order in which they are painted: by \<open>z\<close>.\<close>

definition z_order :: "(wm_window \<Rightarrow> bool) \<Rightarrow> wm \<Rightarrow> nat list" where
  "z_order P m = selection_sort (\<lambda>i. w_z (win i m)) (filter (\<lambda>i. P (win i m)) [0..<WM_MAX_WINDOWS])"

definition wm_repack_z :: "wm \<Rightarrow> wm" where
  "wm_repack_z m =
     (let order = z_order w_used m;
          m = fold (\<lambda>(k, i) m. set_win i ((win i m)\<lparr>w_z := int k + 1\<rparr>) m) (enumerate 0 order) m
      in m\<lparr>wm_next_z := int (length order) + 1\<rparr>)"

section \<open>Windows\<close>

text \<open>What \<^verbatim>\<open>strncpy\<close> stores: up to and including one byte behind the buffer when the string is short.\<close>

definition strncpy_bytes :: "cstr \<Rightarrow> nat \<Rightarrow> u8 list" where
  "strncpy_bytes s n = (if length s < n then s @ replicate (n + 1 - length s) 0 else take n s)"

definition store_title :: "cstr \<Rightarrow> wm_window \<Rightarrow> wm_window" where
  "store_title s w =
     (let bs = strncpy_bytes s WM_TITLE_MAX; w = w\<lparr>w_title := take WM_TITLE_MAX bs\<rparr>
      in if WM_TITLE_MAX < length bs then w\<lparr>w_text := (w_text w)[0 := bs ! WM_TITLE_MAX]\<rparr> else w)"

text \<open>The member behind the text is the integer \<^verbatim>\<open>has_image\<close>; its lowest byte comes first.\<close>

definition store_text :: "cstr \<Rightarrow> wm_window \<Rightarrow> wm_window" where
  "store_text s w =
     (let bs = strncpy_bytes s WM_TEXT_MAX; w = w\<lparr>w_text := take WM_TEXT_MAX bs\<rparr>
      in if WM_TEXT_MAX < length bs
         then w\<lparr>w_has_image := (w_has_image w AND NOT 0xff) OR ucast (bs ! WM_TEXT_MAX)\<rparr> else w)"

text \<open>\<^verbatim>\<open>a % b\<close> of C; a zero divisor is undefined.\<close>

definition c_mod :: "int \<Rightarrow> int \<Rightarrow> int kres" where
  "c_mod a b = (if b = 0 then Inl Undefined_behaviour else Inr (sgn a * (\<bar>a\<bar> mod \<bar>b\<bar>)))"

text \<open>The title is a string; a null title stands for \<^verbatim>\<open>window\<close>.\<close>

definition wm_create :: "cstr option \<Rightarrow> int \<Rightarrow> int \<Rightarrow> wm \<Rightarrow> (int \<times> wm) kres" where
  "wm_create title w h m =
     (case first_idx (\<lambda>x. \<not> w_used x) (wm_windows m) of
        None \<Rightarrow> Inr (-1, m)
      | Some slot \<Rightarrow>
          let ident = wm_next_id m; m = m\<lparr>wm_next_id := wm_next_id m + 1\<rparr>;
              x = zero_window\<lparr>w_used := True, w_id := ident, w_visible := True, w_focusable := True, w_w := w, w_h := h\<rparr>
          in
          kbind (c_mod (ident * 37) (wm_screen_w m - w + 1)) (\<lambda>px.
          kbind (c_mod (ident * 2) (wm_usable_h m - h + 1)) (\<lambda>py.
            let x = x\<lparr>w_x := px, w_y := py, w_z := wm_next_z m\<rparr>;
                m = m\<lparr>wm_next_z := wm_next_z m + 1\<rparr>;
                x = store_title (case title of None \<Rightarrow> map of_char ''window'' | Some s \<Rightarrow> s) x;
                x = store_text (map of_char ''(empty)'') x;
                m = set_win slot x m
            in Inr (ident, wm_mark_dirty_taskbar (wm_mark_dirty_window (Some slot) m)))))"

definition wm_move :: "int \<Rightarrow> int \<Rightarrow> int \<Rightarrow> wm \<Rightarrow> int \<times> wm" where
  "wm_move i x y m =
     (case wm_find i m of
        None \<Rightarrow> (-1, m)
      | Some j \<Rightarrow>
          let m = wm_mark_dirty_window (Some j) m; m = set_win j ((win j m)\<lparr>w_x := x, w_y := y\<rparr>) m
          in (0, wm_mark_dirty_window (Some j) m))"

definition wm_resize :: "int \<Rightarrow> int \<Rightarrow> int \<Rightarrow> wm \<Rightarrow> int \<times> wm" where
  "wm_resize i w h m =
     (case wm_find i m of
        None \<Rightarrow> (-1, m)
      | Some j \<Rightarrow>
          let m = wm_mark_dirty_window (Some j) m; m = set_win j ((win j m)\<lparr>w_w := w, w_h := h\<rparr>) m
          in (0, wm_mark_dirty_window (Some j) m))"

definition wm_focus :: "int \<Rightarrow> wm \<Rightarrow> int \<times> wm" where
  "wm_focus i m =
     (case wm_find i m of
        None \<Rightarrow> (-1, m)
      | Some j \<Rightarrow>
          let m = set_win j ((win j m)\<lparr>w_z := wm_next_z m\<rparr>) m; m = m\<lparr>wm_next_z := wm_next_z m + 1\<rparr>
          in wm_set_focus_internal i m)"

definition wm_set_text :: "int \<Rightarrow> cstr \<Rightarrow> wm \<Rightarrow> int \<times> wm" where
  "wm_set_text i s m =
     (case wm_find i m of
        None \<Rightarrow> (-1, m)
      | Some j \<Rightarrow> (0, wm_mark_dirty_window (Some j) (set_win j (store_text s (win j m)) m)))"

section \<open>Images\<close>

definition image_pages :: "u32 \<Rightarrow> u32" where
  "image_pages bytes = (bytes + PAGE_SIZE - 1) div PAGE_SIZE"

definition wm_window_free_image :: "ld_layout \<Rightarrow> nat \<Rightarrow> wm \<times> page_alloc \<Rightarrow> (wm \<times> page_alloc) kres" where
  "wm_window_free_image L j = (\<lambda>(m, pa).
     let w = win j m in
     kbind (if w_image_pixels w \<noteq> 0 \<and> 0 < w_image_bytes w then free_pages L (w_image_pixels w) (image_pages (w_image_bytes w)) pa
            else Inr pa) (\<lambda>pa.
       Inr (set_win j (w\<lparr>w_image_pixels := 0, w_image_bytes := 0, w_has_image := 0, w_image_w := 0, w_image_h := 0\<rparr>) m, pa)))"

definition wm_close :: "ld_layout \<Rightarrow> int \<Rightarrow> wm \<times> page_alloc \<Rightarrow> (int \<times> wm \<times> page_alloc) kres" where
  "wm_close L i = (\<lambda>(m, pa).
     case wm_find i m of
       None \<Rightarrow> Inr (-1, m, pa)
     | Some j \<Rightarrow>
         kbind (wm_window_free_image L j (wm_mark_dirty_window (Some j) m, pa)) (\<lambda>(m, pa).
           let m = set_win j ((win j m)\<lparr>w_used := False\<rparr>) m;
               m = (if wm_focus_id m = i then m\<lparr>wm_focus_id := 0\<rparr> else m)
           in Inr (0, wm_mark_dirty_taskbar m, pa)))"

text \<open>A buffer that is too small is replaced by a new one.\<close>

definition image_buffer :: "ld_layout \<Rightarrow> nat \<Rightarrow> u32 \<Rightarrow> wm \<times> page_alloc \<Rightarrow> (wm \<times> page_alloc) kres" where
  "image_buffer L j bytes = (\<lambda>(m, pa).
     if w_image_pixels (win j m) = 0 \<or> w_image_bytes (win j m) < bytes then
       kbind (wm_window_free_image L j (m, pa)) (\<lambda>(m, pa).
       kbind (alloc_pages L (image_pages bytes) pa) (\<lambda>(p, pa).
         Inr (set_win j ((win j m)\<lparr>w_image_pixels := p, w_image_bytes := bytes\<rparr>) m, pa)))
     else Inr (m, pa))"

text \<open>A failed allocation is not noticed; the copy to address 0 then faults in the kernel.\<close>

definition wm_set_image :: "ld_layout \<Rightarrow> int \<Rightarrow> u32 \<Rightarrow> int \<Rightarrow> int \<Rightarrow> wm \<times> page_alloc \<Rightarrow> (int \<times> wm \<times> page_alloc) kres" where
  "wm_set_image L i pixels w h = (\<lambda>(m, pa).
     case wm_find i m of
       None \<Rightarrow> Inr (-1, m, pa)
     | Some j \<Rightarrow>
         if pixels = 0 then kbind (wm_window_free_image L j (m, pa)) (\<lambda>(m, pa). Inr (0, m, pa))
         else
           let bytes = of_int (w * h * 4) :: u32 in
           kbind (image_buffer L j bytes (m, pa)) (\<lambda>(m, pa).
             let x = win j m in
             if w_image_pixels x = 0 \<and> bytes \<noteq> 0 then Inl Unexpected_trap
             else
               let pa = pa\<lparr>pmem := memcpy (w_image_pixels x) pixels bytes (pmem pa)\<rparr>;
                   m = set_win j (x\<lparr>w_image_w := w, w_image_h := h, w_has_image := 1\<rparr>) m
               in Inr (0, wm_mark_dirty_window (Some j) m, pa)))"

section \<open>Rendering\<close>

definition put_pixel :: "u32 \<Rightarrow> int \<Rightarrow> int \<Rightarrow> int \<Rightarrow> u32 \<Rightarrow> mem \<Rightarrow> mem" where
  "put_pixel fb fb_w x y c m = store32 (fb + 4 * of_int (y * fb_w + x)) (0xff000000 OR c) m"

definition clipped :: "wm \<Rightarrow> int \<Rightarrow> int \<Rightarrow> bool" where
  "clipped m x y \<longleftrightarrow> wm_clip_enabled m \<and> (x < wm_clip_x0 m \<or> y < wm_clip_y0 m \<or> wm_clip_x1 m \<le> x \<or> wm_clip_y1 m \<le> y)"

definition fill_row :: "wm \<Rightarrow> u32 \<Rightarrow> int \<Rightarrow> int \<Rightarrow> int \<Rightarrow> int \<Rightarrow> u32 \<Rightarrow> mem \<Rightarrow> mem" where
  "fill_row m fb fb_w x w yy color =
     fold (\<lambda>xx mem. if xx < 0 \<or> fb_w \<le> xx then mem else if clipped m xx yy then mem else put_pixel fb fb_w xx yy color mem)
       [x..x + w - 1]"

definition wm_gpu_fill_rect :: "wm \<Rightarrow> u32 \<Rightarrow> int \<Rightarrow> int \<Rightarrow> int \<Rightarrow> int \<Rightarrow> int \<Rightarrow> int \<Rightarrow> u32 \<Rightarrow> mem \<Rightarrow> mem" where
  "wm_gpu_fill_rect m fb fb_w fb_h x y w h color mem =
     (if fb = 0 then mem
      else fold (\<lambda>yy mem. if yy < 0 \<or> fb_h \<le> yy then mem else fill_row m fb fb_w x w yy color mem) [y..y + h - 1] mem)"

definition blit_pixel :: "wm \<Rightarrow> wm_window \<Rightarrow> u32 \<Rightarrow> int \<Rightarrow> int \<Rightarrow> int \<Rightarrow> int \<Rightarrow> mem \<Rightarrow> mem" where
  "blit_pixel m w fb fb_w fb_h yy xx mem =
     (let dx = w_x w + xx; dy = w_y w + yy in
      if 0 \<le> dx \<and> dx < fb_w \<and> 0 \<le> dy \<and> dy < fb_h then
        if clipped m dx dy then mem
        else put_pixel fb fb_w dx dy (load32 mem (w_image_pixels w + 4 * of_int (yy * w_image_w w + xx))) mem
      else mem)"

definition blit_image :: "wm \<Rightarrow> wm_window \<Rightarrow> u32 \<Rightarrow> int \<Rightarrow> int \<Rightarrow> mem \<Rightarrow> mem" where
  "blit_image m w fb fb_w fb_h =
     fold (\<lambda>yy. fold (blit_pixel m w fb fb_w fb_h yy) [0..min (w_image_w w) (w_w w) - 1]) [0..min (w_image_h w) (w_h w) - 1]"

definition paint_window :: "wm \<Rightarrow> u32 \<Rightarrow> int \<Rightarrow> int \<Rightarrow> nat \<Rightarrow> mem \<Rightarrow> mem" where
  "paint_window m fb fb_w fb_h i mem =
     (let w = win i m;
          color = (if w_id w = wm_focus_id m then 0x003b4d63 else 0x00242a33);
          mem = wm_gpu_fill_rect m fb fb_w fb_h (w_x w) (w_y w) (w_w w) (w_h w) color mem
      in if w_has_image w \<noteq> 0 \<and> w_image_pixels w \<noteq> 0 then blit_image m w fb fb_w fb_h mem else mem)"

definition paint_screen :: "wm \<Rightarrow> u32 \<Rightarrow> int \<Rightarrow> int \<Rightarrow> mem \<Rightarrow> mem" where
  "paint_screen m fb fb_w fb_h mem =
     (let mem = wm_gpu_fill_rect m fb fb_w fb_h 0 0 fb_w fb_h 0x00162236 mem;
          mem = fold (paint_window m fb fb_w fb_h) (z_order (\<lambda>w. w_used w \<and> w_visible w) m) mem
      in wm_gpu_fill_rect m fb fb_w fb_h (wm_cursor_x m) (wm_cursor_y m) 8 8 0x00ffffff mem)"

definition wm_render_gpu :: "'d genv \<Rightarrow> wm \<times> 'd gsys \<Rightarrow> (wm \<times> 'd gsys) kres" where
  "wm_render_gpu e = (\<lambda>(m, s).
     let fb = virtio_gpu_backbuffer (gg s) in
     if fb = 0 \<or> \<not> wm_dirty_valid m then Inr (m, s)
     else
       let fb_w = virtio_gpu_width (gg s); fb_h = virtio_gpu_height (gg s);
           m = m\<lparr>wm_clip_enabled := True, wm_clip_x0 := wm_dirty_x0 m, wm_clip_y0 := wm_dirty_y0 m,
                 wm_clip_x1 := wm_dirty_x1 m, wm_clip_y1 := wm_dirty_y1 m\<rparr>;
           pa = pa_state (kvm (gk s));
           s = s\<lparr>gk := set_pa (pa\<lparr>pmem := paint_screen m fb fb_w fb_h (pmem pa)\<rparr>) (gk s)\<rparr>;
           m = m\<lparr>wm_clip_enabled := False, wm_dirty_valid := False\<rparr>
       in kbind (virtio_gpu_present e s) (\<lambda>s. Inr (m, s)))"

definition wm_render :: "'d genv \<Rightarrow> wm \<times> 'd gsys \<Rightarrow> (wm \<times> 'd gsys) kres" where
  "wm_render e = (\<lambda>(m, s).
     let m = wm_repack_z m in if wm_gpu_ready m then wm_render_gpu e (m, s) else Inr (m, s))"

section \<open>Initialisation and input\<close>

definition wm_init :: "ld_layout \<Rightarrow> 'd genv \<Rightarrow> wm \<times> 'd gsys \<Rightarrow> (wm \<times> 'd gsys) kres" where
  "wm_init L e = (\<lambda>(m, s).
     let m = m\<lparr>wm_windows := replicate WM_MAX_WINDOWS zero_window, wm_next_id := 1, wm_next_z := 1\<rparr> in
     kbind (virtio_gpu_init L e s) (\<lambda>(gpu_rc, s).
       let m = m\<lparr>wm_gpu_ready := (gpu_rc = 0)\<rparr>;
           m = (if wm_gpu_ready m
                then m\<lparr>wm_screen_w := virtio_gpu_width (gg s), wm_screen_h := virtio_gpu_height (gg s)\<rparr>
                else m\<lparr>wm_screen_w := WM_TEXT_SCREEN_W, wm_screen_h := WM_TEXT_SCREEN_H\<rparr>);
           m = m\<lparr>wm_cursor_x := wm_screen_w m div 2, wm_cursor_y := wm_usable_h m div 2, wm_cursor_visible := True,
                 wm_dirty_valid := False\<rparr>
       in Inr (wm_mark_dirty_full m, s)))"

definition wm_input_init :: "'d ienv \<Rightarrow> vinput \<times> 'd \<Rightarrow> int \<times> vinput \<times> 'd" where
  "wm_input_init e vd = virtio_input_init e vd"

definition wm_cursor_move :: "int \<Rightarrow> int \<Rightarrow> wm \<Rightarrow> wm" where
  "wm_cursor_move dx dy m =
     wm_mark_dirty_full (m\<lparr>wm_cursor_x := wm_cursor_x m + dx, wm_cursor_y := wm_cursor_y m + dy\<rparr>)"

definition vi_u32_to_s32 :: "u32 \<Rightarrow> int" where
  "vi_u32_to_s32 v = (if v AND 0x80000000 \<noteq> 0 then - sint (NOT v + 1) else sint v)"

text \<open>One event of the mouse; the flag is \<^verbatim>\<open>changed\<close>.\<close>

definition wm_mouse_event :: "virtio_input_event \<Rightarrow> bool \<times> wm \<Rightarrow> bool \<times> wm" where
  "wm_mouse_event ev = (\<lambda>(changed, m).
     let (changed, m) =
           (if ie_type ev = 2 \<and> ie_code ev = 0 then (True, m\<lparr>wm_cursor_x := wm_cursor_x m + vi_u32_to_s32 (ie_value ev)\<rparr>)
            else (changed, m));
         (changed, m) =
           (if ie_type ev = 2 \<and> ie_code ev = 1 then (True, m\<lparr>wm_cursor_y := wm_cursor_y m + vi_u32_to_s32 (ie_value ev)\<rparr>)
            else (changed, m))
     in
     if ie_type ev = 1 \<and> ie_code ev = 272 then
       let m = (if ie_value ev \<noteq> 0 then
                  (case wm_top_at (wm_cursor_x m) (wm_cursor_y m) 0 m of
                     None \<Rightarrow> m
                   | Some i \<Rightarrow> snd (wm_focus (w_id (win i m)) m))
                else m)
       in (True, m)
     else (changed, m))"

partial_function (option) wm_mouse_loop :: "'d ienv \<Rightarrow> bool \<times> wm \<Rightarrow> vinput \<times> 'd \<Rightarrow> ((bool \<times> wm) \<times> vinput \<times> 'd) option" where
  "wm_mouse_loop e cm vd =
     (case virtio_input_next_event e vd of
        (None, vd) \<Rightarrow> Some (cm, vd)
      | (Some ev, vd) \<Rightarrow> wm_mouse_loop e (wm_mouse_event ev cm) vd)"

definition wm_poll_mouse_input :: "'d ienv \<Rightarrow> wm \<Rightarrow> vinput \<times> 'd \<Rightarrow> (bool \<times> wm \<times> vinput \<times> 'd) option" where
  "wm_poll_mouse_input e m vd =
     (case wm_mouse_loop e (False, m) vd of
        None \<Rightarrow> None
      | Some ((changed, m), vd) \<Rightarrow> Some (changed, if changed then wm_mark_dirty_full m else m, vd))"

end
