(* ===== verification/Virtio_Input_Spec.thy ===== *)
theory Virtio_Input_Spec
  imports Virtio_Input
begin

text \<open>
  Properties of the input driver: the search for a word in the name of a device finds exactly the whole
  words, and an interrupt moves every waiting event to the queue of the kernel, in order for each device.
\<close>

section \<open>Words in names\<close>

lemma match_word_take:
  "match_word name word = Some rest \<longleftrightarrow>
    length word \<le> length name \<and> map vi_to_lower (take (length word) name) = word \<and> rest = drop (length word) name"
  by (induction name word rule: match_word.induct) auto

lemma match_word_iff: "match_word name word = Some rest \<longleftrightarrow> (\<exists>mid. name = mid @ rest \<and> map vi_to_lower mid = word)"
proof
  assume "match_word name word = Some rest"
  then show "\<exists>mid. name = mid @ rest \<and> map vi_to_lower mid = word"
    by (intro exI [of _ "take (length word) name"]) (auto simp: match_word_take)
qed (auto simp: match_word_take)

text \<open>A whole word of a name, in any case, with \<open>prev\<close> the character before the name.\<close>

definition whole_word :: "u8 \<Rightarrow> cstr \<Rightarrow> cstr \<Rightarrow> bool" where
  "whole_word prev name word \<longleftrightarrow>
     (\<exists>pre mid post. name = pre @ mid @ post \<and> map vi_to_lower mid = word \<and>
        \<not> vi_char_is_letter (last (prev # pre)) \<and> \<not> vi_char_is_letter (first_char post))"

lemma name_word_loop_iff:
  assumes "word \<noteq> []"
  shows "name_word_loop prev name word \<longleftrightarrow> whole_word prev name word"
proof (induction name arbitrary: prev)
  case Nil
  then show ?case
    using assms by (auto simp: whole_word_def)
next
  case (Cons c name)
  have "whole_word prev (c # name) word \<longleftrightarrow>
      (\<exists>mid post. c # name = mid @ post \<and> map vi_to_lower mid = word \<and> \<not> vi_char_is_letter prev \<and>
        \<not> vi_char_is_letter (first_char post)) \<or> whole_word c name word" (is "?W \<longleftrightarrow> ?A \<or> ?B")
  proof
    assume ?W
    then obtain pre mid post where w: "c # name = pre @ mid @ post" "map vi_to_lower mid = word"
      "\<not> vi_char_is_letter (last (prev # pre))" "\<not> vi_char_is_letter (first_char post)"
      by (auto simp: whole_word_def)
    show "?A \<or> ?B"
    proof (cases pre)
      case Nil
      then show ?thesis
        using w by auto
    next
      case (Cons c' pre')
      then have ?B
        using w unfolding whole_word_def by (intro exI [of _ pre'] exI [of _ mid] exI [of _ post]) auto
      then show ?thesis
        by blast
    qed
  next
    assume "?A \<or> ?B"
    then show ?W
    proof
      assume ?A
      then obtain mid post where "c # name = mid @ post" "map vi_to_lower mid = word" "\<not> vi_char_is_letter prev"
        "\<not> vi_char_is_letter (first_char post)"
        by blast
      then show ?W
        unfolding whole_word_def by (intro exI [of _ "[]"] exI [of _ mid] exI [of _ post]) simp
    next
      assume ?B
      then obtain pre mid post where "name = pre @ mid @ post" "map vi_to_lower mid = word"
        "\<not> vi_char_is_letter (last (c # pre))" "\<not> vi_char_is_letter (first_char post)"
        by (auto simp: whole_word_def)
      then show ?W
        unfolding whole_word_def by (intro exI [of _ "c # pre"] exI [of _ mid] exI [of _ post]) simp
    qed
  qed
  moreover have "?A \<longleftrightarrow> (\<exists>rest. match_word (c # name) word = Some rest \<and> \<not> vi_char_is_letter prev \<and>
      \<not> vi_char_is_letter (first_char rest))"
    by (auto simp: match_word_iff)
  ultimately show ?case
    using Cons [of c] by (auto split: option.split)
qed

text \<open>
  \<^verbatim>\<open>vi_name_contains_word\<close> answers yes exactly when the lower-case word stands in the name of the device,
  in any mixture of cases, with no letter next to it on either side.
\<close>

theorem vi_name_contains_word_correct:
  assumes "word \<noteq> []"
  shows "vi_name_contains_word name word \<longleftrightarrow>
    (\<exists>pre mid post. name = pre @ mid @ post \<and> map vi_to_lower mid = word \<and>
      (pre = [] \<or> \<not> vi_char_is_letter (last pre)) \<and> (post = [] \<or> \<not> vi_char_is_letter (hd post)))"
proof -
  have "\<not> vi_char_is_letter 0x20" "\<not> vi_char_is_letter 0"
    by (simp_all add: vi_char_is_letter_def)
  then have "vi_char_is_letter (last (0x20 # pre)) \<longleftrightarrow> pre \<noteq> [] \<and> vi_char_is_letter (last pre)"
    "vi_char_is_letter (first_char pre) \<longleftrightarrow> pre \<noteq> [] \<and> vi_char_is_letter (hd pre)" for pre
    by (auto simp: first_char_def split: list.split)
  then show ?thesis
    unfolding vi_name_contains_word_def name_word_loop_iff [OF assms] whole_word_def by blast
qed

lemma vi_name_contains_word_correct_witness:
  "vi_name_contains_word (map of_char ''QEMU Virtio Mouse'') (map of_char ''mouse'') \<and>
   \<not> vi_name_contains_word (map of_char ''x'') (map of_char ''mouse'')"
proof -
  have "map of_char ''QEMU Virtio Mouse'' = map of_char ''QEMU Virtio '' @ map of_char ''Mouse'' @ ([] :: u8 list)"
    by simp
  moreover have "map vi_to_lower (map of_char ''Mouse'') = map of_char ''mouse''"
    by (simp add: vi_to_lower_def)
  moreover have "\<not> vi_char_is_letter (last (map of_char ''QEMU Virtio ''))"
    by (simp add: vi_char_is_letter_def)
  ultimately have "vi_name_contains_word (map of_char ''QEMU Virtio Mouse'') (map of_char ''mouse'')"
    using vi_name_contains_word_correct [of "map of_char ''mouse''" "map of_char ''QEMU Virtio Mouse''"] by blast
  moreover have "\<not> vi_name_contains_word (map of_char ''x'') (map of_char ''mouse'')"
    by (simp add: vi_name_contains_word_def)
  ultimately show ?thesis
    by blast
qed

section \<open>Waiting events\<close>

text \<open>Where the \<open>n\<close>-th waiting entry of a device is, and the waiting events of a device, oldest first.\<close>

definition vi_ident :: "vinput \<Rightarrow> nat \<Rightarrow> nat \<Rightarrow> u32" where
  "vi_ident v dev n = fst (vused_ring (vi_q v ! dev) ! (unat (vi_last_used v ! dev + of_nat n) mod VI_QNUM))"

definition vi_count :: "vinput \<Rightarrow> nat \<Rightarrow> nat" where
  "vi_count v dev = unat (vused_idx (vi_q v ! dev) - vi_last_used v ! dev)"

definition vi_pending :: "vinput \<Rightarrow> nat \<Rightarrow> virtio_input_event list" where
  "vi_pending v dev = map (\<lambda>n. vi_events v ! dev ! unat (vi_ident v dev n)) [0..<vi_count v dev]"

definition vi_ok :: "vinput \<Rightarrow> bool" where
  "vi_ok v \<longleftrightarrow> length (vi_q v) = VI_MAX_DEVICES \<and> length (vi_last_used v) = VI_MAX_DEVICES \<and> vi_dev_count v \<le> VI_MAX_DEVICES \<and>
     (\<forall>dev<vi_dev_count v. \<forall>n<vi_count v dev. vi_ident v dev n < of_nat VI_QNUM)"

lemma vi_pending_Nil: "vi_pending v dev = [] \<longleftrightarrow> vi_last_used v ! dev = vused_idx (vi_q v ! dev)"
  by (auto simp: vi_pending_def vi_count_def unat_eq_zero)

text \<open>Taking one event from a device.\<close>

lemma try_device_none: "vi_pending v dev = [] \<Longrightarrow> vi_try_device e dev (v, d) = (None, v, d)"
  by (simp add: vi_pending_Nil vi_try_device_def)

lemma try_device_some:
  assumes "vi_ok v" and "dev < vi_dev_count v" and "vi_pending v dev \<noteq> []"
  obtains v' d' ev where "vi_try_device e dev (v, d) = (Some ev, v', d')" and "vi_pending v dev = ev # vi_pending v' dev"
    and "\<And>i. i \<noteq> dev \<Longrightarrow> vi_pending v' i = vi_pending v i" and "vi_ok v'" and "vi_dev_count v' = vi_dev_count v"
proof -
  let ?q = "vi_q v ! dev" and ?l = "vi_last_used v ! dev"
  have len: "dev < length (vi_q v)" "dev < length (vi_last_used v)"
    using assms(1,2) by (simp_all add: vi_ok_def)
  have ne: "?l \<noteq> vused_idx ?q"
    using assms(3) by (simp add: vi_pending_Nil)
  define ident where "ident = vi_ident v dev 0"
  have id32: "ident < 32"
    using assms ne by (auto simp: vi_ok_def ident_def vi_pending_def)
  define v' where "v' = (vi_queue_push dev (ucast ident)
    (v\<lparr>vi_last_used := (vi_last_used v)[dev := ?l + 1], vi_ev_debug_budget := vi_ev_debug_budget v - 1\<rparr>))
      \<lparr>vi_rr_next := (dev + 1) mod vi_dev_count v\<rparr>"
  define ev where "ev = vi_events v ! dev ! unat ident"
  define d' where "d' = bus_write e (vi_bases v ! dev + 0x050) 0 d"
  have run: "vi_try_device e dev (v, d) = (Some ev, v', d')"
    using ne id32 len by (simp add: vi_try_device_def v'_def ev_def d'_def ident_def vi_ident_def Let_def vi_queue_push_def vi_set_q_def)
  have flds: "vi_events v' = vi_events v" "vi_dev_count v' = vi_dev_count v" "length (vi_q v') = length (vi_q v)"
    "length (vi_last_used v') = length (vi_last_used v)" "vi_last_used v' ! dev = ?l + 1"
    "vused_idx (vi_q v' ! dev) = vused_idx ?q" "vused_ring (vi_q v' ! dev) = vused_ring ?q"
    using len by (simp_all add: v'_def vi_queue_push_def vi_set_q_def)
  have oth: "vi_q v' ! i = vi_q v ! i" "vi_last_used v' ! i = vi_last_used v ! i" if "i \<noteq> dev" for i
    using that by (simp_all add: v'_def vi_queue_push_def vi_set_q_def)
  have "vused_idx ?q - ?l \<noteq> 0"
    using ne by simp
  then have cnt: "vi_count v dev = Suc (vi_count v' dev)"
    using flds by (simp add: vi_count_def unat_minus_one unat_gt_0 diff_diff_eq [symmetric] Suc_pred unat_eq_zero)
  have idn: "vi_ident v' dev n = vi_ident v dev (Suc n)" for n
    using flds by (simp add: vi_ident_def add.assoc)
  have pend: "vi_pending v dev = ev # vi_pending v' dev"
    using flds by (simp add: vi_pending_def cnt upt_conv_Cons map_Suc_upt [symmetric] idn ev_def ident_def o_def del: upt_Suc map_Suc_upt)
  have opend: "vi_pending v' i = vi_pending v i" "vi_count v' i = vi_count v i" "vi_ident v' i = vi_ident v i" if "i \<noteq> dev" for i
    using oth [OF that] flds by (simp_all add: vi_pending_def vi_count_def vi_ident_def fun_eq_iff)
  have "vi_ident v' i n < of_nat VI_QNUM" if "i < vi_dev_count v" "n < vi_count v' i" for i n
    using assms(1) that opend [of i] cnt idn [of n] by (cases "i = dev") (auto simp: vi_ok_def)
  then have "vi_ok v'"
    using assms(1) flds by (simp add: vi_ok_def)
  then show ?thesis
    using that run pend opend(1) flds(2) by blast
qed

section \<open>One event\<close>

lemma vi_round_set:
  assumes "0 < vi_dev_count v"
  shows "set (vi_round v) = {..<vi_dev_count v}"
proof
  let ?c = "vi_dev_count v"
  show "set (vi_round v) \<subseteq> {..<?c}"
    using assms by (auto simp: vi_round_def)
  show "{..<?c} \<subseteq> set (vi_round v)"
  proof
    fix dev assume dev: "dev \<in> {..<?c}"
    let ?n = "(dev + (?c - vi_rr_next v mod ?c)) mod ?c"
    have "(vi_rr_next v + ?n) mod ?c = (vi_rr_next v mod ?c + (dev + (?c - vi_rr_next v mod ?c))) mod ?c"
      by (simp add: mod_simps)
    also have "vi_rr_next v mod ?c + (dev + (?c - vi_rr_next v mod ?c)) = dev + ?c"
      using assms mod_less_divisor [OF assms, of "vi_rr_next v"] by linarith
    finally have "(vi_rr_next v + ?n) mod ?c = dev"
      using dev by simp
    then have "dev = (\<lambda>n. (vi_rr_next v + n) mod ?c) ?n"
      by simp
    moreover have "?n \<in> set [0..<?c]"
      using assms by simp
    ultimately show "dev \<in> set (vi_round v)"
      unfolding vi_round_def set_map by (rule image_eqI)
  qed
qed

lemma fetch_loop_none: "\<forall>dev\<in>set devs. vi_pending v dev = [] \<Longrightarrow> vi_fetch_loop e devs (v, d) = (None, v, d)"
  by (induction devs) (simp_all add: try_device_none)

lemma fetch_loop_some:
  assumes "vi_ok v" and "set devs \<subseteq> {..<vi_dev_count v}" and "\<exists>dev\<in>set devs. vi_pending v dev \<noteq> []"
  obtains dev ev v' d' where "vi_fetch_loop e devs (v, d) = (Some (dev, ev), v', d')" and "dev < vi_dev_count v"
    and "vi_pending v dev = ev # vi_pending v' dev" and "\<And>i. i \<noteq> dev \<Longrightarrow> vi_pending v' i = vi_pending v i" and "vi_ok v'"
    and "vi_dev_count v' = vi_dev_count v"
  using assms(2,3)
proof (induction devs arbitrary: thesis)
  case (Cons dev devs)
  show ?case
  proof (cases "vi_pending v dev = []")
    case True
    obtain dev' ev v' d' where "vi_fetch_loop e devs (v, d) = (Some (dev', ev), v', d')" and "dev' < vi_dev_count v"
      and "vi_pending v dev' = ev # vi_pending v' dev'" and "\<And>i. i \<noteq> dev' \<Longrightarrow> vi_pending v' i = vi_pending v i" and "vi_ok v'"
      and "vi_dev_count v' = vi_dev_count v"
      by (rule Cons.IH) (use Cons.prems True in auto)
    then show ?thesis
      using Cons.prems(1) try_device_none [OF True, of e d] by simp
  next
    case False
    obtain v' d' ev where "vi_try_device e dev (v, d) = (Some ev, v', d')" and "vi_pending v dev = ev # vi_pending v' dev"
      and "\<And>i. i \<noteq> dev \<Longrightarrow> vi_pending v' i = vi_pending v i" and "vi_ok v'" and "vi_dev_count v' = vi_dev_count v"
      by (rule try_device_some [OF assms(1) _ False]) (use Cons.prems in auto)
    then show ?thesis
      using Cons.prems(1,2) by simp
  qed
qed simp

section \<open>All events\<close>

definition input_payload :: "virtio_input_event \<Rightarrow> payload" where
  "input_payload ev = (KEVENT_TYPE_INPUT, ucast (ie_type ev), ucast (ie_code ev), ie_value ev, 0)"

definition of_dev :: "nat \<Rightarrow> (nat \<times> virtio_input_event) list \<Rightarrow> virtio_input_event list" where
  "of_dev dev evs = map snd (filter (\<lambda>x. fst x = dev) evs)"

definition vi_total :: "vinput \<Rightarrow> nat" where
  "vi_total v = (\<Sum>dev<vi_dev_count v. length (vi_pending v dev))"

lemma push_runs:
  assumes "kevents_ok k"
  shows "kevent_push ty a b c d h k = Inr (0, kevent_push_st (ty, a, b, c, d) (h, k))"
proof -
  obtain k' where "kevent_push ty a b c d h k = Inr (0, h, k')"
    using kevent_push_step [OF assms] by metis
  then show ?thesis
    by (simp add: kevent_push_st_def)
qed

lemma irq_loop_spec:
  assumes "vi_ok v" and "kevents_ok k"
  shows "\<exists>evs v' d'. vi_irq_loop e (v, d) h k = Some (Inr ((v', d'), fold kevent_push_st (map (input_payload \<circ> snd) evs) (h, k))) \<and>
    vi_dev_count v' = vi_dev_count v \<and>
    (\<forall>dev<vi_dev_count v. of_dev dev evs = vi_pending v dev \<and> vi_pending v' dev = [])"
  using assms
proof (induction "vi_total v" arbitrary: v d h k)
  case 0
  then have none: "\<forall>dev<vi_dev_count v. vi_pending v dev = []"
    by (simp add: vi_total_def)
  have "vi_fetch_one_event e (v, d) = (None, v, d)"
  proof (cases "vi_dev_count v = 0")
    case False
    then show ?thesis
      using none fetch_loop_none [of "vi_round v" v e d] vi_round_set [of v] by (simp add: vi_fetch_one_event_def)
  qed (simp add: vi_fetch_one_event_def)
  then show ?case
    using none by (subst vi_irq_loop.simps) (auto simp: of_dev_def intro!: exI [of _ "[]"])
next
  case (Suc n)
  then have some: "\<exists>dev<vi_dev_count v. vi_pending v dev \<noteq> []"
    by (auto simp: vi_total_def intro: ccontr)
  then have c: "0 < vi_dev_count v"
    by auto
  obtain dev ev v1 d1 where f: "vi_fetch_loop e (vi_round v) (v, d) = (Some (dev, ev), v1, d1)" and dev: "dev < vi_dev_count v"
    and p: "vi_pending v dev = ev # vi_pending v1 dev" and oth: "\<And>i. i \<noteq> dev \<Longrightarrow> vi_pending v1 i = vi_pending v i"
    and ok: "vi_ok v1" and c1: "vi_dev_count v1 = vi_dev_count v"
    by (rule fetch_loop_some [OF Suc.prems(1), of "vi_round v"]) (use some vi_round_set [OF c] in auto)
  obtain h1 k1 where hk: "kevent_push_st (input_payload ev) (h, k) = (h1, k1)"
    by fastforce
  have ok1: "kevents_ok k1"
    using kevent_push_st_ok(1) [of "(h, k)" "input_payload ev"] Suc.prems(2) hk by simp
  have step: "vi_irq_loop e (v, d) h k = vi_irq_loop e (v1, d1) h1 k1"
    using c f hk push_runs [OF Suc.prems(2)]
    by (subst vi_irq_loop.simps) (simp add: vi_fetch_one_event_def input_payload_def)
  have "vi_total v = Suc (vi_total v1)"
    unfolding vi_total_def c1
    using dev p oth by (simp add: sum.remove [of "{..<vi_dev_count v}" dev] cong: sum.cong_simp)
  then have "n = vi_total v1"
    using Suc(2) by simp
  from Suc(1) [OF this ok ok1, of d1 h1] obtain evs v' d' where
    r: "vi_irq_loop e (v1, d1) h1 k1 = Some (Inr ((v', d'), fold kevent_push_st (map (input_payload \<circ> snd) evs) (h1, k1)))"
    and c': "vi_dev_count v' = vi_dev_count v1"
    and d: "\<forall>dev<vi_dev_count v1. of_dev dev evs = vi_pending v1 dev \<and> vi_pending v' dev = []"
    by blast
  have "of_dev i ((dev, ev) # evs) = vi_pending v i" if "i < vi_dev_count v" for i
    using d that c1 p oth [of i] by (cases "i = dev") (auto simp: of_dev_def)
  then show ?case
    using step r c' c1 d hk by (intro exI [of _ "(dev, ev) # evs"] exI [of _ v'] exI [of _ d']) simp
qed


text \<open>A mouse with two events waiting, and a keyboard with one.\<close>

definition demo_queue :: "nat \<Rightarrow> virtq" where
  "demo_queue n = zero_virtq\<lparr>vused_ring := map (\<lambda>i. (of_nat i, 8)) [0..<32], vused_idx := of_nat n\<rparr>"

definition demo_input :: vinput where
  "demo_input =
     \<lparr>vi_q = [demo_queue 2, demo_queue 1, zero_virtq, zero_virtq],
      vi_events = map (\<lambda>dev. map (\<lambda>i. \<lparr>ie_type = 2, ie_code = of_nat dev, ie_value = of_nat i\<rparr>) [0..<32]) [0..<4],
      vi_bases = [0x10001000, 0x10002000, 0, 0], vi_last_used = [0, 0, 0, 0], vi_dev_count = 2, vi_rr_next = 1,
      vi_ev_debug_budget = 0\<rparr>"

definition quiet_bus :: "unit ienv" where
  "quiet_bus = \<lparr>bus_read = (\<lambda>_ d. (0, d)), bus_write = (\<lambda>_ _ d. d), vi_events_addr = (\<lambda>_. 0), vi_desc_addr = (\<lambda>_. 0),
     vi_avail_addr = (\<lambda>_. 0), vi_used_addr = (\<lambda>_. 0)\<rparr>"


end
