(* ===== verification/Wm_Inv.thy ===== *)
theory Wm_Inv
  imports Wm Virtio_Gpu_Spec Virtio_Input_Spec Ring
begin

text \<open>
  The invariant of the window manager and its preservation by every operation: identifiers and depths of
  windows are unique, the focus is on an existing window, the damaged rectangle lies on the screen and
  the event rings are well formed.
\<close>

section \<open>The invariant\<close>

definition window_ok :: "wm_window \<Rightarrow> bool" where
  "window_ok w \<longleftrightarrow> length (w_title w) = WM_TITLE_MAX \<and> length (w_text w) = WM_TEXT_MAX \<and>
     ring_ok WM_EVENT_RING_SIZE (w_ring w) (w_ev_head w) (w_ev_tail w)"

definition windows_ok :: "wm_window list \<Rightarrow> int \<Rightarrow> int \<Rightarrow> int \<Rightarrow> bool" where
  "windows_ok ws next_id next_z focus \<longleftrightarrow>
     length ws = WM_MAX_WINDOWS \<and> (\<forall>i<WM_MAX_WINDOWS. window_ok (ws ! i)) \<and> 1 \<le> next_id \<and> 1 \<le> next_z \<and>
     (\<forall>i<WM_MAX_WINDOWS. w_used (ws ! i) \<longrightarrow>
        1 \<le> w_id (ws ! i) \<and> w_id (ws ! i) < next_id \<and> 1 \<le> w_z (ws ! i) \<and> w_z (ws ! i) < next_z) \<and>
     (\<forall>i<WM_MAX_WINDOWS. \<forall>j<WM_MAX_WINDOWS. w_used (ws ! i) \<and> w_used (ws ! j) \<and> i \<noteq> j \<longrightarrow>
        w_id (ws ! i) \<noteq> w_id (ws ! j) \<and> w_z (ws ! i) \<noteq> w_z (ws ! j)) \<and>
     (focus = 0 \<or> (\<exists>i<WM_MAX_WINDOWS. w_used (ws ! i) \<and> w_id (ws ! i) = focus))"

definition dirty_ok :: "wm \<Rightarrow> bool" where
  "dirty_ok m \<longleftrightarrow> 0 < wm_screen_w m \<and> 0 < wm_screen_h m \<and>
     (wm_dirty_valid m \<longrightarrow> 0 \<le> wm_dirty_x0 m \<and> wm_dirty_x0 m < wm_dirty_x1 m \<and> wm_dirty_x1 m \<le> wm_screen_w m \<and>
        0 \<le> wm_dirty_y0 m \<and> wm_dirty_y0 m < wm_dirty_y1 m \<and> wm_dirty_y1 m \<le> wm_screen_h m)"

definition wm_inv :: "wm \<Rightarrow> bool" where
  "wm_inv m \<longleftrightarrow> windows_ok (wm_windows m) (wm_next_id m) (wm_next_z m) (wm_focus_id m) \<and> dirty_ok m \<and> \<not> wm_clip_enabled m"

section \<open>Damage\<close>

text \<open>What marking damage changes: only the damaged rectangle.\<close>

definition undamaged :: "wm \<Rightarrow> wm" where
  "undamaged m = m\<lparr>wm_dirty_valid := False, wm_dirty_x0 := 0, wm_dirty_y0 := 0, wm_dirty_x1 := 0, wm_dirty_y1 := 0\<rparr>"

lemma undamaged_mark_rect [simp]: "undamaged (wm_mark_dirty_rect x y w h m) = undamaged m"
  by (simp add: wm_mark_dirty_rect_def undamaged_def Let_def)

lemma undamaged_eqD:
  assumes "undamaged m = undamaged m'"
  shows "wm_windows m = wm_windows m'" "wm_next_id m = wm_next_id m'" "wm_next_z m = wm_next_z m'"
    "wm_screen_w m = wm_screen_w m'" "wm_screen_h m = wm_screen_h m'" "wm_cursor_x m = wm_cursor_x m'"
    "wm_cursor_y m = wm_cursor_y m'" "wm_focus_id m = wm_focus_id m'" "wm_gpu_ready m = wm_gpu_ready m'"
    "wm_event_tick m = wm_event_tick m'" "wm_clip_enabled m = wm_clip_enabled m'"
  using arg_cong [OF assms, of wm_windows]
    arg_cong [OF assms, of wm_next_id]
    arg_cong [OF assms, of wm_next_z]
    arg_cong [OF assms, of wm_screen_w]
    arg_cong [OF assms, of wm_screen_h]
    arg_cong [OF assms, of wm_cursor_x]
    arg_cong [OF assms, of wm_cursor_y]
    arg_cong [OF assms, of wm_focus_id]
    arg_cong [OF assms, of wm_gpu_ready]
    arg_cong [OF assms, of wm_event_tick]
    arg_cong [OF assms, of wm_clip_enabled]
  by (simp_all add: undamaged_def)

lemma undamaged_marks [simp]:
  shows "undamaged (wm_mark_dirty_window p m) = undamaged m" and "undamaged (wm_mark_dirty_taskbar m) = undamaged m"
    and "undamaged (wm_mark_dirty_full m) = undamaged m"
  by (simp_all add: wm_mark_dirty_window_def wm_mark_dirty_window_box_def wm_mark_dirty_taskbar_def Let_def
      wm_mark_dirty_full_def split: option.split) (simp add: undamaged_def)

lemmas mark_window_keeps [simp] = undamaged_eqD [OF undamaged_marks(1)]
lemmas mark_taskbar_keeps [simp] = undamaged_eqD [OF undamaged_marks(2)]
lemmas mark_full_keeps [simp] = undamaged_eqD [OF undamaged_marks(3)]

lemma win_marks [simp]:
  shows "win i (wm_mark_dirty_window p m) = win i m" and "win i (wm_mark_dirty_taskbar m) = win i m"
    and "win i (wm_mark_dirty_full m) = win i m"
  by (simp_all add: win_def)

lemma dirty_ok_other [simp]:
  shows "dirty_ok (m\<lparr>wm_next_id := a\<rparr>) = dirty_ok m" and "dirty_ok (m\<lparr>wm_next_z := a\<rparr>) = dirty_ok m"
    and "dirty_ok (m\<lparr>wm_focus_id := a\<rparr>) = dirty_ok m" and "dirty_ok (m\<lparr>wm_cursor_x := a\<rparr>) = dirty_ok m"
    and "dirty_ok (m\<lparr>wm_cursor_y := a\<rparr>) = dirty_ok m" and "dirty_ok (m\<lparr>wm_event_tick := t\<rparr>) = dirty_ok m"
  by (simp_all add: dirty_ok_def)

lemma dirty_ok_mark_rect: "dirty_ok m \<Longrightarrow> dirty_ok (wm_mark_dirty_rect x y w h m)"
  by (auto simp: dirty_ok_def wm_mark_dirty_rect_def Let_def)

lemma dirty_ok_marks:
  assumes "dirty_ok m"
  shows "dirty_ok (wm_mark_dirty_window p m)" and "dirty_ok (wm_mark_dirty_taskbar m)" and "dirty_ok (wm_mark_dirty_full m)"
  using assms
  by (simp_all add: wm_mark_dirty_window_def wm_mark_dirty_window_box_def wm_mark_dirty_taskbar_def Let_def dirty_ok_mark_rect
      split: option.split) (simp add: dirty_ok_def wm_mark_dirty_full_def)

lemma inv_marks [intro]:
  assumes "wm_inv m"
  shows "wm_inv (wm_mark_dirty_window p m)" and "wm_inv (wm_mark_dirty_taskbar m)" and "wm_inv (wm_mark_dirty_full m)"
  using assms by (simp_all add: wm_inv_def dirty_ok_marks)

section \<open>One window changes\<close>

lemma set_win_simps [simp]:
  shows "wm_windows (set_win i x m) = (wm_windows m)[i := x]" and "wm_next_id (set_win i x m) = wm_next_id m"
    and "wm_next_z (set_win i x m) = wm_next_z m" and "wm_focus_id (set_win i x m) = wm_focus_id m"
    and "wm_clip_enabled (set_win i x m) = wm_clip_enabled m" and "dirty_ok (set_win i x m) = dirty_ok m"
    and "wm_screen_w (set_win i x m) = wm_screen_w m" and "wm_screen_h (set_win i x m) = wm_screen_h m"
    and "wm_gpu_ready (set_win i x m) = wm_gpu_ready m"
  by (simp_all add: set_win_def dirty_ok_def)

lemma win_set_win: "i < length (wm_windows m) \<Longrightarrow> win j (set_win i x m) = (if j = i then x else win j m)"
  by (simp add: win_def)

lemma wm_find_Some:
  assumes "wm_inv m" and "wm_find i m = Some j"
  shows "j < WM_MAX_WINDOWS" "w_used (win j m)" "w_id (win j m) = i" "window_ok (win j m)"
  using assms first_idx_SomeD [OF assms(2) [unfolded wm_find_def]] by (auto simp: wm_inv_def windows_ok_def win_def)

text \<open>A window that keeps its identity and its place in the order.\<close>

lemma windows_ok_update:
  assumes "windows_ok ws a b f" and "i < WM_MAX_WINDOWS" and "window_ok x"
    and "w_used x = w_used (ws ! i)" and "w_id x = w_id (ws ! i)" and "w_z x = w_z (ws ! i)"
  shows "windows_ok (ws[i := x]) a b f"
proof -
  have "window_ok (ws[i := x] ! j) = (if j = i then True else window_ok (ws ! j)) \<and> w_used (ws[i := x] ! j) = w_used (ws ! j) \<and>
      w_id (ws[i := x] ! j) = w_id (ws ! j) \<and> w_z (ws[i := x] ! j) = w_z (ws ! j)" for j
    using assms by (cases "j = i") (simp_all add: windows_ok_def)
  then show ?thesis
    using assms(1) by (simp add: windows_ok_def)
qed

lemma inv_update:
  assumes "wm_inv m" and "i < WM_MAX_WINDOWS" and "window_ok x"
    and "w_used x = w_used (win i m)" and "w_id x = w_id (win i m)" and "w_z x = w_z (win i m)"
  shows "wm_inv (set_win i x m)"
  using assms by (simp add: wm_inv_def win_def windows_ok_update)

lemma inv_tick [simp]: "wm_inv (m\<lparr>wm_event_tick := t\<rparr>) = wm_inv m"
  by (simp add: wm_inv_def dirty_ok_def)

section \<open>The operations\<close>

lemma queue_event_inv:
  assumes "wm_inv m" and "\<And>i. p = Some i \<Longrightarrow> i < WM_MAX_WINDOWS"
  shows "wm_inv (wm_queue_event p ty wid a b c d m)"
proof (cases p)
  case (Some i)
  then have i: "i < WM_MAX_WINDOWS"
    using assms(2) by simp
  then have w: "window_ok (win i m)"
    using assms(1) by (simp add: wm_inv_def windows_ok_def win_def)
  have upd: "wm_inv (set_win i x (m\<lparr>wm_event_tick := t\<rparr>))"
    if "window_ok x" "w_used x = w_used (win i m)" "w_id x = w_id (win i m)" "w_z x = w_z (win i m)" for x t
    using inv_update [of "m\<lparr>wm_event_tick := t\<rparr>" i x] assms(1) i that by (simp add: win_def)
  show ?thesis
    using w assms(1) Some unfolding wm_queue_event_def
    by (auto simp: Let_def window_ok_def ring_ok_def intro!: upd)
qed (simp add: wm_queue_event_def assms)

lemma poll_event_inv:
  assumes "wm_inv m"
  shows "wm_inv (snd (wm_poll_event i m))"
proof (cases "wm_find i m")
  case (Some j)
  note f = wm_find_Some [OF assms Some]
  have "window_ok ((win j m)\<lparr>w_ev_head := (w_ev_head (win j m) + 1) mod WM_EVENT_RING_SIZE\<rparr>)"
    using f(4) by (simp add: window_ok_def ring_ok_def)
  then show ?thesis
    using Some assms f(1) by (auto simp: wm_poll_event_def Let_def intro!: inv_update)
qed (simp add: wm_poll_event_def assms)

lemma move_inv:
  assumes "wm_inv m"
  shows "wm_inv (snd (wm_move i x y m))" and "wm_inv (snd (wm_resize i x y m))"
  using wm_find_Some [OF assms] assms
  by (auto simp: wm_move_def wm_resize_def Let_def window_ok_def split: option.split intro!: inv_marks inv_update)

lemma window_ok_store_text:
  assumes "window_ok w"
  shows "window_ok (store_text s w)" and "window_ok (store_title s w)"
    and "w_used (store_text s w) = w_used w" and "w_id (store_text s w) = w_id w" and "w_z (store_text s w) = w_z w"
    and "w_used (store_title s w) = w_used w" and "w_id (store_title s w) = w_id w" and "w_z (store_title s w) = w_z w"
  using assms by (auto simp: window_ok_def store_text_def store_title_def strncpy_bytes_def Let_def)

lemma set_text_inv:
  assumes "wm_inv m"
  shows "wm_inv (snd (wm_set_text i s m))"
  using wm_find_Some [OF assms] assms
  by (auto simp: wm_set_text_def window_ok_store_text split: option.split intro!: inv_marks inv_update)

text \<open>A window that takes the next depth.\<close>

lemma windows_ok_raise:
  assumes "windows_ok ws a b f" and "i < WM_MAX_WINDOWS" and "window_ok x" and "w_used x"
    and "w_id x = w_id (ws ! i) \<and> w_used (ws ! i) \<and> a' = a \<or> w_id x = a \<and> a' = a + 1 \<and> \<not> w_used (ws ! i)" and "w_z x = b"
  shows "windows_ok (ws[i := x]) a' (b + 1) f"
proof -
  have l: "length ws = WM_MAX_WINDOWS"
    using assms(1) by (simp add: windows_ok_def)
  have nth: "ws[i := x] ! j = (if j = i then x else ws ! j)" for j
    using l assms(2) by simp
  have a: "1 \<le> a" "1 \<le> b" and idz: "\<And>j. j < WM_MAX_WINDOWS \<Longrightarrow> w_used (ws ! j) \<Longrightarrow>
      1 \<le> w_id (ws ! j) \<and> w_id (ws ! j) < a \<and> 1 \<le> w_z (ws ! j) \<and> w_z (ws ! j) < b"
    and d: "\<And>j k. j < WM_MAX_WINDOWS \<Longrightarrow> k < WM_MAX_WINDOWS \<Longrightarrow> w_used (ws ! j) \<Longrightarrow> w_used (ws ! k) \<Longrightarrow> j \<noteq> k \<Longrightarrow>
      w_id (ws ! j) \<noteq> w_id (ws ! k) \<and> w_z (ws ! j) \<noteq> w_z (ws ! k)"
    and f: "f = 0 \<or> (\<exists>j<WM_MAX_WINDOWS. w_used (ws ! j) \<and> w_id (ws ! j) = f)"
    and ok: "\<And>j. j < WM_MAX_WINDOWS \<Longrightarrow> window_ok (ws ! j)"
    using assms(1) unfolding windows_ok_def by blast+
  have new: "w_id (ws ! j) \<noteq> w_id x \<and> w_z (ws ! j) \<noteq> w_z x" if "j < WM_MAX_WINDOWS" "j \<noteq> i" "w_used (ws ! j)" for j
    using idz [OF that(1,3)] d [of j i] that assms(2,5,6) by auto
  have "f = 0 \<or> (\<exists>j<WM_MAX_WINDOWS. w_used (ws[i := x] ! j) \<and> w_id (ws[i := x] ! j) = f)"
  proof (cases "f = 0")
    case False
    then obtain j where "j < WM_MAX_WINDOWS" "w_used (ws ! j)" "w_id (ws ! j) = f"
      using f by blast
    then show ?thesis
      using assms(4,5) by (intro disjI2 exI [of _ j]) (auto simp: nth)
  qed simp
  moreover have "1 \<le> w_id (ws[i := x] ! j) \<and> w_id (ws[i := x] ! j) < a' \<and> 1 \<le> w_z (ws[i := x] ! j) \<and> w_z (ws[i := x] ! j) < b + 1"
    if "j < WM_MAX_WINDOWS" "w_used (ws[i := x] ! j)" for j
    using idz [of j] idz [of i] that a assms(2,5,6) unfolding nth by (auto split: if_splits)
  moreover have "w_id (ws[i := x] ! j) \<noteq> w_id (ws[i := x] ! k) \<and> w_z (ws[i := x] ! j) \<noteq> w_z (ws[i := x] ! k)"
    if "j < WM_MAX_WINDOWS" "k < WM_MAX_WINDOWS" "w_used (ws[i := x] ! j)" "w_used (ws[i := x] ! k)" "j \<noteq> k" for j k
    using d [of j k] new [of j] new [of k] that unfolding nth by (auto split: if_splits)
  moreover have "1 \<le> a'" "1 \<le> b + 1"
    using a assms(5) by auto
  moreover have "window_ok (ws[i := x] ! j)" if "j < WM_MAX_WINDOWS" for j
    using ok [OF that] assms(3) unfolding nth by simp
  ultimately show ?thesis
    using l unfolding windows_ok_def by auto
qed

lemma create_inv:
  assumes "wm_inv m" and "wm_create title w h m = Inr (r, m')"
  shows "wm_inv m'"
proof (cases "first_idx (\<lambda>x. \<not> w_used x) (wm_windows m)")
  case None
  then show ?thesis
    using assms by (simp add: wm_create_def)
next
  case (Some slot)
  have s: "slot < WM_MAX_WINDOWS" "\<not> w_used (wm_windows m ! slot)"
    using first_idx_SomeD [OF Some] assms(1) by (auto simp: wm_inv_def windows_ok_def)
  have z: "window_ok (zero_window\<lparr>w_used := True, w_id := a, w_visible := True, w_focusable := True, w_w := w, w_h := h,
      w_x := px, w_y := py, w_z := b\<rparr>)" for a b px py
    by (simp add: window_ok_def ring_ok_def zero_window_def)
  obtain px py where m': "m' = wm_mark_dirty_taskbar (wm_mark_dirty_window (Some slot) (set_win slot
      (store_text (map of_char ''(empty)'') (store_title (case title of None \<Rightarrow> map of_char ''window'' | Some s \<Rightarrow> s)
        (zero_window\<lparr>w_used := True, w_id := wm_next_id m, w_visible := True, w_focusable := True, w_w := w, w_h := h,
         w_x := px, w_y := py, w_z := wm_next_z m\<rparr>)))
      (m\<lparr>wm_next_id := wm_next_id m + 1, wm_next_z := wm_next_z m + 1\<rparr>)))"
    using assms(2) Some by (auto simp: wm_create_def Let_def kbind_Inr_iff)
  show ?thesis
    unfolding m' using assms(1) s z
    by (intro inv_marks) (auto simp: wm_inv_def window_ok_store_text intro!: windows_ok_raise)
qed

lemma wm_find_None: "wm_find i m = None \<longleftrightarrow> (\<forall>w\<in>set (wm_windows m). \<not> (w_used w \<and> w_id w = i))"
  by (simp add: wm_find_def first_idx_None_iff)

lemma inv_win:
  assumes "wm_inv m" and "i < WM_MAX_WINDOWS"
  shows "window_ok (win i m)"
  using assms by (simp add: wm_inv_def windows_ok_def win_def)

lemma focus_event_inv:
  assumes "wm_inv m" and "\<And>i. p = Some i \<Longrightarrow> i < WM_MAX_WINDOWS"
  shows "wm_inv (focus_event ty p m)"
  using queue_event_inv [OF assms] by (auto simp: focus_event_def assms(1) split: option.split)

lemma set_focus_inv:
  assumes "wm_inv m" and "0 < i"
  shows "wm_inv (snd (wm_set_focus_internal i m))"
proof -
  have f: "wm_inv (m\<lparr>wm_focus_id := i\<rparr>)" if "wm_find i m = Some j" for j
    using assms(1) wm_find_Some [OF assms(1) that] by (auto simp: wm_inv_def windows_ok_def win_def)
  have lt: "wm_find k m = Some j \<Longrightarrow> j < WM_MAX_WINDOWS" for k j
    using wm_find_Some(1) [OF assms(1)] .
  show ?thesis
    using assms lt f by (auto simp: wm_set_focus_internal_def Let_def intro!: inv_marks focus_event_inv split: option.split_asm)
qed

lemma raise_inv:
  assumes "wm_inv m" and "j < WM_MAX_WINDOWS" and "w_used (win j m)"
  shows "wm_inv ((set_win j ((win j m)\<lparr>w_z := wm_next_z m\<rparr>) m)\<lparr>wm_next_z := wm_next_z m + 1\<rparr>)"
proof -
  have "windows_ok ((wm_windows m)[j := (win j m)\<lparr>w_z := wm_next_z m\<rparr>]) (wm_next_id m) (wm_next_z m + 1) (wm_focus_id m)"
    using assms inv_win [OF assms(1,2)] by (intro windows_ok_raise) (auto simp: wm_inv_def win_def window_ok_def)
  then show ?thesis
    using assms by (simp add: wm_inv_def)
qed

lemma focus_inv:
  assumes "wm_inv m"
  shows "wm_inv (snd (wm_focus i m))"
proof (cases "wm_find i m")
  case (Some j)
  note f = wm_find_Some [OF assms Some]
  have pos: "0 < i"
    using assms f(1-3) by (auto simp: wm_inv_def windows_ok_def win_def)
  then show ?thesis
    using set_focus_inv [OF raise_inv [OF assms f(1,2)]] Some by (simp add: wm_focus_def Let_def)
qed (simp add: wm_focus_def assms)

lemma free_image_eq:
  assumes "wm_window_free_image L j (m, pa) = Inr (m', pa')"
  shows "m' = set_win j ((win j m)\<lparr>w_image_pixels := 0, w_image_bytes := 0, w_has_image := 0, w_image_w := 0, w_image_h := 0\<rparr>) m"
  using assms by (auto simp: wm_window_free_image_def Let_def kbind_Inr_iff)

lemma free_image_inv:
  assumes "wm_inv m" and "j < WM_MAX_WINDOWS" and "wm_window_free_image L j (m, pa) = Inr (m', pa')"
  shows "wm_inv m'"
  unfolding free_image_eq [OF assms(3)]
  by (rule inv_update) (use assms inv_win [OF assms(1,2)] in \<open>auto simp: window_ok_def\<close>)

lemma windows_ok_drop:
  assumes "windows_ok ws a b f" and "i < WM_MAX_WINDOWS" and "window_ok x" and "\<not> w_used x"
    and "f' = 0 \<or> f' = f \<and> f \<noteq> w_id (ws ! i)"
  shows "windows_ok (ws[i := x]) a b f'"
proof -
  have nth: "ws[i := x] ! j = (if j = i then x else ws ! j)" for j
    using assms(1,2) by (simp add: windows_ok_def)
  have "f' = 0 \<or> (\<exists>j<WM_MAX_WINDOWS. w_used (ws[i := x] ! j) \<and> w_id (ws[i := x] ! j) = f')"
    using assms(1,5) unfolding nth windows_ok_def by auto
  then show ?thesis
    using assms(1,3,4) unfolding windows_ok_def by (auto simp: nth)
qed

lemma close_inv:
  assumes "wm_inv m" and "wm_close L i (m, pa) = Inr (r, m', pa')"
  shows "wm_inv m'"
proof (cases "wm_find i m")
  case (Some j)
  note f = wm_find_Some [OF assms(1) Some]
  obtain m1 where fr: "wm_window_free_image L j (wm_mark_dirty_window (Some j) m, pa) = Inr (m1, pa')"
    and m': "m' = wm_mark_dirty_taskbar (let m = set_win j ((win j m1)\<lparr>w_used := False\<rparr>) m1
       in if wm_focus_id m = i then m\<lparr>wm_focus_id := 0\<rparr> else m)"
    using assms(2) Some by (auto simp: wm_close_def kbind_Inr_iff Let_def)
  note m1 = free_image_eq [OF fr]
  have inv1: "wm_inv m1"
    using free_image_inv [OF _ f(1) fr] assms(1) by blast
  have w1: "w_id (win j m1) = i" "window_ok (win j m1)"
    using f inv_win [OF inv1 f(1)] assms(1) by (auto simp: m1 win_set_win wm_inv_def windows_ok_def)
  have "windows_ok ((wm_windows m1)[j := (win j m1)\<lparr>w_used := False\<rparr>]) (wm_next_id m1) (wm_next_z m1)
      (if wm_focus_id m1 = i then 0 else wm_focus_id m1)"
    using inv1 f(1) w1 by (intro windows_ok_drop) (auto simp: wm_inv_def window_ok_def win_def)
  then show ?thesis
    unfolding m' using inv1 by (intro inv_marks) (auto simp: wm_inv_def Let_def split: if_splits)
qed (use assms in \<open>simp add: wm_close_def\<close>)

lemma image_buffer_inv:
  assumes "wm_inv m" and "j < WM_MAX_WINDOWS" and "image_buffer L j bytes (m, pa) = Inr (m', pa')"
  shows "wm_inv m'"
proof -
  have "wm_inv (set_win j ((win j m1)\<lparr>w_image_pixels := p, w_image_bytes := b\<rparr>) m1)" if "wm_inv m1" for m1 p b
    using that inv_win [OF that assms(2)] assms(2) by (auto intro!: inv_update simp: window_ok_def)
  then show ?thesis
    using assms(1,3) free_image_inv [OF assms(1,2)] by (auto simp: image_buffer_def kbind_Inr_iff split: if_splits)
qed

lemma set_image_inv:
  assumes "wm_inv m" and "wm_set_image L i pixels w h (m, pa) = Inr (r, m', pa')"
  shows "wm_inv m'"
proof (cases "wm_find i m")
  case (Some j)
  note j = wm_find_Some(1) [OF assms(1) Some]
  have "wm_inv (set_win j ((win j m1)\<lparr>w_image_w := w, w_image_h := h, w_has_image := 1\<rparr>) m1)" if "wm_inv m1" for m1
    using that inv_win [OF that j] j by (auto intro!: inv_update simp: window_ok_def)
  then show ?thesis
    using assms(2) Some free_image_inv [OF assms(1) j] image_buffer_inv [OF assms(1) j]
    by (auto simp: wm_set_image_def kbind_Inr_iff Let_def split: if_splits)
qed (use assms in \<open>simp add: wm_set_image_def\<close>)

section \<open>Order\<close>

lemma z_order_props:
  shows "distinct (z_order P m)" and "i \<in> set (z_order P m) \<longleftrightarrow> i < WM_MAX_WINDOWS \<and> P (win i m)"
    and "sorted (map (\<lambda>i. w_z (win i m)) (z_order P m))"
proof -
  have "mset (z_order P m) = mset (filter (\<lambda>i. P (win i m)) [0..<WM_MAX_WINDOWS])"
    unfolding z_order_def by (rule selection_sort_sorts(2))
  moreover have "distinct (filter (\<lambda>i. P (win i m)) [0..<WM_MAX_WINDOWS])"
    by (rule distinct_filter) simp
  ultimately show "distinct (z_order P m)"
    by (metis mset_eq_imp_distinct_iff)
  show "i \<in> set (z_order P m) \<longleftrightarrow> i < WM_MAX_WINDOWS \<and> P (win i m)"
    unfolding z_order_def set_selection_sort by auto
  show "sorted (map (\<lambda>i. w_z (win i m)) (z_order P m))"
    unfolding z_order_def by (rule selection_sort_sorts(1))
qed

definition set_z :: "nat \<times> nat \<Rightarrow> wm \<Rightarrow> wm" where
  "set_z = (\<lambda>(k, i) m. set_win i ((win i m)\<lparr>w_z := int k + 1\<rparr>) m)"

text \<open>Numbering the windows of a list.\<close>

lemma fold_set_z:
  assumes "distinct is" and "set is \<subseteq> {..<length (wm_windows m)}"
  shows "(\<forall>i. i \<notin> set is \<longrightarrow> win i (fold set_z (enumerate k is) m) = win i m) \<and>
    (\<forall>n<length is. win (is ! n) (fold set_z (enumerate k is) m) = (win (is ! n) m)\<lparr>w_z := int (k + n) + 1\<rparr>) \<and>
    (\<exists>ws. length ws = length (wm_windows m) \<and> fold set_z (enumerate k is) m = m\<lparr>wm_windows := ws\<rparr>)"
  using assms
proof (induction "is" arbitrary: k m)
  case Nil
  show ?case
    by (auto intro: exI [of _ "wm_windows m"])
next
  case (Cons a xs)
  let ?m = "set_z (k, a) m"
  have a: "a < length (wm_windows m)"
    using Cons.prems by simp
  have h: "win j ?m = (if j = a then (win a m)\<lparr>w_z := int k + 1\<rparr> else win j m)" for j
    using a by (simp add: set_z_def win_set_win)
  have l: "length (wm_windows ?m) = length (wm_windows m)" and m: "\<exists>ws. ?m = m\<lparr>wm_windows := ws\<rparr>"
    by (auto simp: set_z_def set_win_def)
  note IH = Cons.IH [of ?m "Suc k"]
  have "win ((a # xs) ! n) (fold set_z (enumerate (Suc k) xs) ?m) = (win ((a # xs) ! n) m)\<lparr>w_z := int (k + n) + 1\<rparr>"
    if "n < Suc (length xs)" for n
    using IH Cons.prems l h that by (cases n) auto
  then show ?case
    using IH Cons.prems l h m by auto
qed

lemma repack_props:
  assumes "wm_inv m"
  shows "\<not> w_used (win i m) \<Longrightarrow> win i (wm_repack_z m) = win i m"
    and "n < length (z_order w_used m) \<Longrightarrow>
      win (z_order w_used m ! n) (wm_repack_z m) = (win (z_order w_used m ! n) m)\<lparr>w_z := int n + 1\<rparr>"
    and "\<exists>ws. length ws = WM_MAX_WINDOWS \<and> wm_repack_z m = m\<lparr>wm_windows := ws, wm_next_z := int (length (z_order w_used m)) + 1\<rparr>"
proof -
  have len: "length (wm_windows m) = WM_MAX_WINDOWS"
    using assms by (simp add: wm_inv_def windows_ok_def)
  have sub: "set (z_order w_used m) \<subseteq> {..<length (wm_windows m)}"
    using z_order_props(2) [of _ w_used m] len by auto
  have r: "wm_repack_z m = (fold set_z (enumerate 0 (z_order w_used m)) m)\<lparr>wm_next_z := int (length (z_order w_used m)) + 1\<rparr>"
    by (simp add: wm_repack_z_def set_z_def Let_def)
  note F = fold_set_z [OF z_order_props(1) sub, of 0]
  show "\<not> w_used (win i m) \<Longrightarrow> win i (wm_repack_z m) = win i m"
    using F z_order_props(2) [of i w_used m] by (simp add: r win_def)
  show "n < length (z_order w_used m) \<Longrightarrow>
      win (z_order w_used m ! n) (wm_repack_z m) = (win (z_order w_used m ! n) m)\<lparr>w_z := int n + 1\<rparr>"
    using F by (simp add: r win_def)
  show "\<exists>ws. length ws = WM_MAX_WINDOWS \<and> wm_repack_z m = m\<lparr>wm_windows := ws, wm_next_z := int (length (z_order w_used m)) + 1\<rparr>"
    using F len unfolding r by auto
qed

text \<open>Every window in use has a position in the order, and its new depth is that position.\<close>

lemma repack_used:
  assumes "wm_inv m" and "i < WM_MAX_WINDOWS" and "w_used (win i m)"
  obtains n where "n < length (z_order w_used m)" and "z_order w_used m ! n = i"
    and "win i (wm_repack_z m) = (win i m)\<lparr>w_z := int n + 1\<rparr>"
  using z_order_props(2) [of i w_used m] assms repack_props(2) [OF assms(1)] unfolding in_set_conv_nth by blast

lemma repack_same:
  assumes "wm_inv m" and "i < WM_MAX_WINDOWS"
  shows "\<exists>z. win i (wm_repack_z m) = (win i m)\<lparr>w_z := z\<rparr>"
proof (cases "w_used (win i m)")
  case False
  have "(win i m)\<lparr>w_z := w_z (win i m)\<rparr> = win i m"
    by simp
  then show ?thesis
    using repack_props(1) [OF assms(1) False] by metis
qed (use repack_used [OF assms] in blast)

lemma repack_inv:
  assumes "wm_inv m"
  shows "wm_inv (wm_repack_z m)"
proof -
  obtain ws where r: "wm_repack_z m = m\<lparr>wm_windows := ws, wm_next_z := int (length (z_order w_used m)) + 1\<rparr>"
    and len: "length ws = WM_MAX_WINDOWS"
    using repack_props(3) [OF assms] by blast
  have ws: "ws ! i = win i (wm_repack_z m)" for i
    by (simp add: r win_def)
  have same: "window_ok (ws ! i) = window_ok (win i m)" "w_used (ws ! i) = w_used (win i m)" "w_id (ws ! i) = w_id (win i m)"
    if "i < WM_MAX_WINDOWS" for i
    using repack_same [OF assms that] by (auto simp: ws window_ok_def)
  have z: "1 \<le> w_z (ws ! i) \<and> w_z (ws ! i) < int (length (z_order w_used m)) + 1" if "i < WM_MAX_WINDOWS" "w_used (win i m)" for i
    by (rule repack_used [OF assms that]) (simp add: ws)
  have d: "w_z (ws ! i) \<noteq> w_z (ws ! j)"
    if "i < WM_MAX_WINDOWS" "w_used (win i m)" "j < WM_MAX_WINDOWS" "w_used (win j m)" "i \<noteq> j" for i j
    by (rule repack_used [OF assms that(1,2)], rule repack_used [OF assms that(3,4)]) (use that(5) in \<open>auto simp: ws\<close>)
  have "windows_ok ws (wm_next_id m) (int (length (z_order w_used m)) + 1) (wm_focus_id m)"
    using assms len z d unfolding wm_inv_def windows_ok_def by (auto simp: same win_def [symmetric])
  then show ?thesis
    using assms by (simp add: wm_inv_def r dirty_ok_def)
qed

section \<open>Rendering, input and start\<close>

lemma render_inv:
  assumes "wm_inv m" and "wm_render e (m, s) = Inr (m', s')"
  shows "wm_inv m'"
proof -
  have "wm_inv (k\<lparr>wm_clip_enabled := False, wm_dirty_valid := False\<rparr>)"
    if "wm_inv k0" "k = k0\<lparr>wm_clip_enabled := a, wm_clip_x0 := b, wm_clip_y0 := c, wm_clip_x1 := d, wm_clip_y1 := f\<rparr>" for k k0 a b c d f
    using that by (simp add: wm_inv_def dirty_ok_def)
  then show ?thesis
    using assms(2) repack_inv [OF assms(1)]
    by (auto simp: wm_render_def wm_render_gpu_def Let_def kbind_Inr_iff split: if_splits)
qed

lemma mouse_event_inv:
  assumes "wm_inv m"
  shows "wm_inv (snd (wm_mouse_event ev (c, m)))"
proof -
  have c: "wm_inv (m\<lparr>wm_cursor_x := a\<rparr>)" "wm_inv (m\<lparr>wm_cursor_y := a\<rparr>)" "wm_inv (m\<lparr>wm_cursor_x := a, wm_cursor_y := b\<rparr>)" for a b
    using assms by (simp_all add: wm_inv_def)
  show ?thesis
    using assms c by (auto simp: wm_mouse_event_def Let_def intro: focus_inv split: option.split)
qed

lemma mouse_loop_inv:
  assumes "wm_mouse_loop e cm vd = Some ((c', m'), vd')" and "wm_inv (snd cm)"
  shows "wm_inv m'"
proof -
  have "wm_inv (snd cm) \<longrightarrow> wm_inv (snd (fst ((c', m'), vd')))"
  proof (rule wm_mouse_loop.raw_induct [OF _ assms(1), where P = "\<lambda>e cm vd r. wm_inv (snd cm) \<longrightarrow> wm_inv (snd (fst r))"], intro impI)
    fix f :: "'a ienv \<Rightarrow> bool \<times> wm \<Rightarrow> vinput \<times> 'a \<Rightarrow> ((bool \<times> wm) \<times> vinput \<times> 'a) option" and e cm vd r
    assume IH: "\<And>e cm vd r. f e cm vd = Some r \<Longrightarrow> wm_inv (snd cm) \<longrightarrow> wm_inv (snd (fst r))"
      and r: "(case virtio_input_next_event e vd of (None, vd) \<Rightarrow> Some (cm, vd) | (Some ev, vd) \<Rightarrow> f e (wm_mouse_event ev cm) vd) = Some r"
      and i: "wm_inv (snd cm)"
    have "wm_inv (snd (wm_mouse_event ev cm))" for ev
      using mouse_event_inv [of "snd cm" ev "fst cm"] i by simp
    then show "wm_inv (snd (fst r))"
      using r i IH by (auto split: prod.splits option.splits)
  qed
  then show ?thesis
    using assms(2) by simp
qed

lemma poll_mouse_inv:
  assumes "wm_inv m" and "wm_poll_mouse_input e m vd = Some (c, m', vd')"
  shows "wm_inv m'"
  using mouse_loop_inv [of e "(False, m)" vd] assms
  by (auto simp: wm_poll_mouse_input_def split: option.splits prod.splits if_splits intro: inv_marks(3))

text \<open>The variables of the file before \<^verbatim>\<open>wm_init\<close> runs.\<close>

definition wm_boot :: wm where
  "wm_boot = \<lparr>wm_windows = replicate WM_MAX_WINDOWS zero_window, wm_next_id = 1, wm_next_z = 1, wm_screen_w = WM_TEXT_SCREEN_W,
     wm_screen_h = WM_TEXT_SCREEN_H, wm_cursor_x = 0, wm_cursor_y = 0, wm_cursor_visible = False, wm_focus_id = 0,
     wm_event_tick = 0, wm_gpu_ready = False, wm_dirty_valid = False, wm_dirty_x0 = 0, wm_dirty_y0 = 0, wm_dirty_x1 = 0,
     wm_dirty_y1 = 0, wm_clip_enabled = False, wm_clip_x0 = 0, wm_clip_y0 = 0, wm_clip_x1 = 0, wm_clip_y1 = 0\<rparr>"

text \<open>The state in which the driver of the screen starts.\<close>

definition gpu_fresh :: "ld_layout \<Rightarrow> 'd genv \<Rightarrow> 'd gsys \<Rightarrow> bool" where
  "gpu_fresh L e s \<longleftrightarrow> ld_ok L \<and> others_ok e \<and> idle_proc (tab (gk s)) \<noteq> None \<and> \<not> vg_ready (gg s) \<and> vg_backbuffer (gg s) = 0 \<and>
     pa_inv L (gpu_pa s)"

lemma sint_size:
  fixes v :: u32
  assumes "v \<le> 1024"
  shows "sint v = uint v"
proof -
  have "uint v \<le> 1024"
    using assms by (simp add: word_le_def)
  then have "signed_take_bit 31 (uint v) = uint v"
    by (intro signed_take_bit_int_eq_self) (auto intro: order.trans [of _ 0])
  then show ?thesis
    by (simp add: sint_uint)
qed

lemma screen_size:
  assumes "screen_ok g"
  shows "virtio_gpu_width g = uint (vg_width_px g)" and "virtio_gpu_height g = uint (vg_height_px g)"
    and "0 < uint (vg_width_px g)" and "0 < uint (vg_height_px g)"
    and "uint (vg_width_px g) \<le> 1024" and "uint (vg_height_px g) \<le> 768"
proof -
  have b: "vg_width_px g \<le> 1024" "vg_height_px g \<le> 768" "0 < vg_width_px g" "0 < vg_height_px g"
    using assms by (simp_all add: screen_ok_def)
  have "vg_height_px g \<le> 1024"
    using b(2) by (rule order.trans) simp
  then show "virtio_gpu_width g = uint (vg_width_px g)" "virtio_gpu_height g = uint (vg_height_px g)"
    using b by (simp_all add: virtio_gpu_width_def virtio_gpu_height_def sint_size)
  show "0 < uint (vg_width_px g)" "0 < uint (vg_height_px g)" "uint (vg_width_px g) \<le> 1024" "uint (vg_height_px g) \<le> 768"
    using b by (simp_all add: word_le_def word_less_def)
qed

lemma init_inv:
  assumes "gpu_fresh L e s" and "wm_init L e (wm_boot, s) = Inr (m, s')"
  shows "wm_inv m"
proof -
  obtain rc where init: "virtio_gpu_init L e s = Inr (rc, s')" and out: "gpu_outcome L (gpu_pa s) (rc, s')"
    using virtio_gpu_init_spec [of L e s] assms by (auto simp: gpu_fresh_def wm_init_def Let_def kbind_Inr_iff)
  have pos: "0 < virtio_gpu_width (gg s') \<and> 0 < virtio_gpu_height (gg s')" if "rc = 0"
    using out that screen_size [of "gg s'"] by (simp add: gpu_outcome_def fb_ok_def)
  have w: "windows_ok (replicate WM_MAX_WINDOWS zero_window) 1 1 0"
    by (auto simp: windows_ok_def window_ok_def ring_ok_def zero_window_def)
  show ?thesis
    using assms(2) init pos w
    by (cases "rc = 0") (auto simp: wm_init_def Let_def wm_boot_def wm_mark_dirty_full_def wm_inv_def dirty_ok_def)
qed

section \<open>Reachable states\<close>

text \<open>
  The window manager with the kernel and the devices around it. Between its operations the rest of the
  kernel may change everything else.
\<close>

inductive wm_reach :: "ld_layout \<Rightarrow> 'd genv \<Rightarrow> 'd ienv \<Rightarrow> wm \<times> 'd gsys \<times> vinput \<Rightarrow> bool" for L e ie where
  init: "gpu_fresh L e s \<Longrightarrow> wm_init L e (wm_boot, s) = Inr (m, s') \<Longrightarrow> wm_reach L e ie (m, s', v)"
| create: "wm_reach L e ie (m, s, v) \<Longrightarrow> wm_create title w h m = Inr (r, m') \<Longrightarrow> wm_reach L e ie (m', s, v)"
| move: "wm_reach L e ie (m, s, v) \<Longrightarrow> wm_reach L e ie (snd (wm_move i x y m), s, v)"
| resize: "wm_reach L e ie (m, s, v) \<Longrightarrow> wm_reach L e ie (snd (wm_resize i w h m), s, v)"
| focus: "wm_reach L e ie (m, s, v) \<Longrightarrow> wm_reach L e ie (snd (wm_focus i m), s, v)"
| close: "wm_reach L e ie (m, s, v) \<Longrightarrow> wm_close L i (m, gpu_pa s) = Inr (r, m', pa') \<Longrightarrow>
    wm_reach L e ie (m', s\<lparr>gk := set_pa pa' (gk s)\<rparr>, v)"
| set_text: "wm_reach L e ie (m, s, v) \<Longrightarrow> wm_reach L e ie (snd (wm_set_text i txt m), s, v)"
| set_image: "wm_reach L e ie (m, s, v) \<Longrightarrow> wm_set_image L i pixels w h (m, gpu_pa s) = Inr (r, m', pa') \<Longrightarrow>
    wm_reach L e ie (m', s\<lparr>gk := set_pa pa' (gk s)\<rparr>, v)"
| render: "wm_reach L e ie (m, s, v) \<Longrightarrow> wm_render e (m, s) = Inr (m', s') \<Longrightarrow> wm_reach L e ie (m', s', v)"
| poll_mouse: "wm_reach L e ie (m, s, v) \<Longrightarrow> wm_poll_mouse_input ie m (v, gd s) = Some (c, m', v', d') \<Longrightarrow>
    wm_reach L e ie (m', s\<lparr>gd := d'\<rparr>, v')"
| poll_event: "wm_reach L e ie (m, s, v) \<Longrightarrow> wm_reach L e ie (snd (wm_poll_event i m), s, v)"
| cursor: "wm_reach L e ie (m, s, v) \<Longrightarrow> wm_reach L e ie (wm_cursor_move dx dy m, s, v)"
| others: "wm_reach L e ie (m, s, v) \<Longrightarrow> wm_reach L e ie (m, s', v')"

lemma cursor_inv:
  assumes "wm_inv m"
  shows "wm_inv (wm_cursor_move dx dy m)"
proof -
  have "wm_inv (m\<lparr>wm_cursor_x := wm_cursor_x m + dx, wm_cursor_y := wm_cursor_y m + dy\<rparr>)"
    using assms by (simp add: wm_inv_def)
  then show ?thesis
    unfolding wm_cursor_move_def by (rule inv_marks)
qed

lemmas op_inv = init_inv create_inv move_inv focus_inv close_inv set_text_inv set_image_inv render_inv poll_mouse_inv
  poll_event_inv cursor_inv

text \<open>
  C37. In every state the window manager can reach from its start, by any sequence of its operations with
  any arguments and whatever the devices and the page allocator answer, the windows in use have different
  identifiers and different depths, both positive and below the next one to be given; the focus is on a
  window in use or on none; every event ring is well formed; and the damaged rectangle is a non-empty
  part of the screen.
\<close>

theorem wm_invariant:
  assumes "wm_reach L e ie (m, s, v)"
  shows "wm_inv m"
  using assms by (induction "(m, s, v)" arbitrary: m s v) (auto intro: op_inv)

text \<open>A machine without a screen, where the window manager falls back to 80 columns and 25 lines.\<close>

definition no_gpu_env :: "unit genv" where
  "no_gpu_env = demo_env\<lparr>bus_read := (\<lambda>_ d. (0, d))\<rparr>"

lemma no_gpu_probe: "vg_probe no_gpu_env is d = (0, d)"
  by (induction "is" arbitrary: d) (simp_all add: no_gpu_env_def Let_def)

lemma no_gpu_init:
  "\<exists>s. wm_init ld_example no_gpu_env (wm_boot, gsys_boot) =
     Inr (wm_boot\<lparr>wm_cursor_x := 40, wm_cursor_y := 12, wm_cursor_visible := True, wm_dirty_valid := True, wm_dirty_x1 := 80,
       wm_dirty_y1 := 25\<rparr>, s)"
  by (simp add: wm_init_def virtio_gpu_init_def vg_release_backbuffer_def no_gpu_probe vg_error_def gsys_boot_def gpu_boot_def
      set_gpu_def Let_def wm_boot_def wm_mark_dirty_full_def wm_usable_h_def)

lemma no_gpu_fresh: "gpu_fresh ld_example no_gpu_env gsys_boot"
  by (simp add: gpu_fresh_def ld_ok_example others_ok_def no_gpu_env_def demo_env_def gsys_boot_def gpu_boot_def pa_inv_def pa_boot_def)

theorem wm_invariant_witness:
  "\<exists>m s m'. wm_init ld_example no_gpu_env (wm_boot, gsys_boot) = Inr (m, s) \<and> wm_create None 10 10 m = Inr (1, m') \<and> wm_inv m'"
proof -
  obtain m s where i: "wm_init ld_example no_gpu_env (wm_boot, gsys_boot) = Inr (m, s)"
    and m: "m = wm_boot\<lparr>wm_cursor_x := 40, wm_cursor_y := 12, wm_cursor_visible := True, wm_dirty_valid := True, wm_dirty_x1 := 80,
       wm_dirty_y1 := 25\<rparr>"
    using no_gpu_init by blast
  have "first_idx (\<lambda>x. \<not> w_used x) (wm_windows m) = Some 0"
    by (simp add: m wm_boot_def first_idx_Some_iff zero_window_def)
  then obtain m' where c: "wm_create None 10 10 m = Inr (1, m')"
    by (simp add: wm_create_def Let_def c_mod_def m wm_boot_def wm_usable_h_def)
  have "wm_reach ld_example no_gpu_env quiet_bus (m', s, v)" for v
    by (intro wm_reach.create [OF wm_reach.init [OF no_gpu_fresh i] c])
  then show ?thesis
    using i c wm_invariant by blast
qed

end
