(* ===== verification/Wm_Paint.thy ===== *)
theory Wm_Paint
  imports Wm_Inv
begin

text \<open>
  What \<^verbatim>\<open>wm_render\<close> draws. The picture of a state is given pixel by pixel: the cursor, else the topmost window
  that covers the pixel, else the desktop. The loops of the painter are shown to produce this picture
  inside the damaged rectangle and to change nothing else in memory.
\<close>

section \<open>Pixels\<close>

definition pix :: "u32 \<Rightarrow> int \<Rightarrow> int \<Rightarrow> int \<Rightarrow> u32" where
  "pix fb W x y = fb + 4 * of_int (y * W + x)"

definition on_screen :: "int \<Rightarrow> int \<Rightarrow> int \<Rightarrow> int \<Rightarrow> bool" where
  "on_screen W H x y \<longleftrightarrow> 0 \<le> x \<and> x < W \<and> 0 \<le> y \<and> y < H"

text \<open>An address that is not in the frame buffer.\<close>

definition outside :: "u32 \<Rightarrow> int \<Rightarrow> int \<Rightarrow> u32 \<Rightarrow> bool" where
  "outside fb W H a \<longleftrightarrow> 4 * (W * H) \<le> uint (a - fb)"

definition screen_shape :: "u32 \<Rightarrow> int \<Rightarrow> int \<Rightarrow> bool" where
  "screen_shape fb W H \<longleftrightarrow> fb \<noteq> 0 \<and> unat fb mod 4 = 0 \<and> 0 < W \<and> W \<le> 1024 \<and> 0 < H \<and> H \<le> 768"

lemma pix_index:
  assumes "on_screen W H x y"
  shows "0 \<le> y * W + x" and "y * W + x < W * H"
proof -
  have "y * W + x < y * W + W" "(y + 1) * W \<le> H * W"
    using assms by (auto simp: on_screen_def intro: mult_right_mono)
  then show "y * W + x < W * H"
    by (simp add: algebra_simps)
  show "0 \<le> y * W + x"
    using assms by (simp add: on_screen_def)
qed

lemma screen_area: "screen_shape fb W H \<Longrightarrow> W * H \<le> 786432"
  using mult_mono [of W 1024 H 768] by (simp add: screen_shape_def)

lemma uint_offset:
  assumes "0 \<le> k" and "k < 786432" and "0 \<le> d" and "d < 4"
  shows "uint (4 * of_int k + of_int d :: u32) = 4 * k + d"
proof -
  have "(4 * of_int k + of_int d :: u32) = word_of_int (4 * k + d)"
    by simp
  then show ?thesis
    using assms by (simp only: uint_word_of_int_eq) (simp add: take_bit_int_eq_self)
qed

lemma pix_offset:
  assumes "screen_shape fb W H" and "on_screen W H x y" and "0 \<le> d" and "d < 4"
  shows "uint (pix fb W x y + of_int d - fb) = 4 * (y * W + x) + d"
  using uint_offset [of "y * W + x" d] pix_index [OF assms(2)] screen_area [OF assms(1)] assms(3,4)
  by (simp add: pix_def algebra_simps)

lemma index_inj:
  assumes "on_screen W H x y" and "on_screen W H x' y'" and "y * W + x = y' * W + x'"
  shows "x = x'" and "y = y'"
proof -
  have "(y * W + x) div W = y" "(y' * W + x') div W = y'" "(y * W + x) mod W = x" "(y' * W + x') mod W = x'"
    using assms(1,2) by (auto simp: on_screen_def)
  then show "x = x'" "y = y'"
    using assms(3) by auto
qed

lemma pix_inj:
  assumes "screen_shape fb W H" and "on_screen W H x y" and "on_screen W H x' y'" and "pix fb W x y = pix fb W x' y'"
  shows "x = x'" and "y = y'"
  using index_inj [OF assms(2,3)] pix_offset [OF assms(1,2), of 0] pix_offset [OF assms(1,3), of 0] assms(4) by auto

lemma aligned_add4: "unat (a :: u32) mod 4 = 0 \<Longrightarrow> unat (a + 4 * b) mod 4 = 0"
  by (simp add: unat_word_ariths mod_simps mod_mod_cancel)

lemma pix_aligned: "screen_shape fb W H \<Longrightarrow> unat (pix fb W x y) mod 4 = 0"
  unfolding pix_def by (rule aligned_add4) (simp add: screen_shape_def)

section \<open>Painting\<close>

definition pixel :: "u32 \<Rightarrow> int \<Rightarrow> mem \<Rightarrow> int \<Rightarrow> int \<Rightarrow> u32" where
  "pixel fb W m x y = load32 m (pix fb W x y)"

abbreviation opaque :: "u32 \<Rightarrow> u32" where "opaque c \<equiv> 0xff000000 OR c"

definition same_outside :: "u32 \<Rightarrow> int \<Rightarrow> int \<Rightarrow> mem \<Rightarrow> mem \<Rightarrow> bool" where
  "same_outside fb W H m m' \<longleftrightarrow> (\<forall>a. outside fb W H a \<longrightarrow> m' a = m a)"

text \<open>The pixels of a set get their colour; no other pixel and no other byte changes.\<close>

definition painted :: "u32 \<Rightarrow> int \<Rightarrow> int \<Rightarrow> (int \<Rightarrow> int \<Rightarrow> bool) \<Rightarrow> (int \<Rightarrow> int \<Rightarrow> u32) \<Rightarrow> mem \<Rightarrow> mem \<Rightarrow> bool" where
  "painted fb W H S f m m' \<longleftrightarrow>
     (\<forall>x y. on_screen W H x y \<longrightarrow> pixel fb W m' x y = (if S x y then opaque (f x y) else pixel fb W m x y)) \<and>
     same_outside fb W H m m'"

lemma same_outside_refl [simp]: "same_outside fb W H m m"
  by (simp add: same_outside_def)

lemma same_outside_trans: "same_outside fb W H m m' \<Longrightarrow> same_outside fb W H m' m'' \<Longrightarrow> same_outside fb W H m m''"
  by (simp add: same_outside_def)

lemma painted_none: "(\<And>x y. on_screen W H x y \<Longrightarrow> \<not> S x y) \<Longrightarrow> painted fb W H S f m m"
  by (simp add: painted_def)

lemma painted_trans:
  assumes "painted fb W H S f m m'" and "painted fb W H S' f' m' m''"
  shows "painted fb W H (\<lambda>x y. S x y \<or> S' x y) (\<lambda>x y. if S' x y then f' x y else f x y) m m''"
  using assms by (auto simp: painted_def intro: same_outside_trans)

lemma painted_cong:
  assumes "painted fb W H S f m m'" and "\<And>x y. on_screen W H x y \<Longrightarrow> S' x y = S x y"
    and "\<And>x y. on_screen W H x y \<Longrightarrow> S x y \<Longrightarrow> f' x y = f x y"
  shows "painted fb W H S' f' m m'"
  using assms by (auto simp: painted_def)

lemma put_pixel_painted:
  assumes "screen_shape fb W H" and "on_screen W H x y"
  shows "painted fb W H (\<lambda>a b. a = x \<and> b = y) (\<lambda>_ _. c) m (put_pixel fb W x y c m)"
proof -
  have p: "put_pixel fb W x y c m = store32 (pix fb W x y) (opaque c) m"
    by (simp add: put_pixel_def pix_def)
  have "pixel fb W (put_pixel fb W x y c m) a b = (if a = x \<and> b = y then opaque c else pixel fb W m a b)"
    if "on_screen W H a b" for a b
  proof (cases "a = x \<and> b = y")
    case False
    then have "pix fb W x y \<noteq> pix fb W a b"
      using pix_inj [OF assms that] by auto
    then show ?thesis
      using False load_store32_other [OF pix_aligned [OF assms(1)] pix_aligned [OF assms(1)]] by (auto simp: p pixel_def)
  qed (simp add: p pixel_def)
  moreover have "put_pixel fb W x y c m a = m a" if "outside fb W H a" for a
  proof -
    have "a \<noteq> pix fb W x y + of_int d" if "0 \<le> d" "d < 4" for d
      using pix_offset [OF assms that] pix_index [OF assms(2)] \<open>outside fb W H a\<close> that by (auto simp: outside_def)
    from this [of 0] this [of 1] this [of 2] this [of 3] show ?thesis
      by (simp add: p store32_def)
  qed
  ultimately show ?thesis
    by (simp add: painted_def same_outside_def)
qed

text \<open>A loop of painting steps whose colours are all taken from the same picture.\<close>

lemma painted_fold:
  assumes "\<And>v m. v \<in> set vs \<Longrightarrow> same_outside fb W H m0 m \<Longrightarrow> painted fb W H (S v) f m (g v m)" and "same_outside fb W H m0 m"
  shows "painted fb W H (\<lambda>x y. \<exists>v\<in>set vs. S v x y) f m (fold g vs m)"
  using assms
proof (induction vs arbitrary: m)
  case Nil
  then show ?case
    by (simp add: painted_none)
next
  case (Cons v vs)
  have p: "painted fb W H (S v) f m (g v m)"
    using Cons.prems by simp
  then have "same_outside fb W H m0 (g v m)"
    using Cons.prems(2) unfolding painted_def by (blast intro: same_outside_trans)
  then have "painted fb W H (\<lambda>x y. \<exists>v\<in>set vs. S v x y) f (g v m) (fold g vs (g v m))"
    using Cons.IH Cons.prems(1) by simp
  from painted_cong [OF painted_trans [OF p this], of "\<lambda>x y. \<exists>u\<in>set (v # vs). S u x y" f] show ?case
    by auto
qed

section \<open>Rectangles and images\<close>

lemma fill_row_painted:
  assumes "screen_shape fb W H" and "0 \<le> yy" and "yy < H"
  shows "painted fb W H (\<lambda>a b. b = yy \<and> x \<le> a \<and> a < x + w \<and> \<not> clipped m a b) (\<lambda>_ _. c) mem (fill_row m fb W x w yy c mem)"
proof -
  let ?g = "\<lambda>xx mem. if xx < 0 \<or> W \<le> xx then mem else if clipped m xx yy then mem else put_pixel fb W xx yy c mem"
  have "painted fb W H (\<lambda>a b. b = yy \<and> a = xx \<and> \<not> clipped m a b) (\<lambda>_ _. c) k (?g xx k)" for xx k
  proof (cases "xx < 0 \<or> W \<le> xx \<or> clipped m xx yy")
    case True
    then show ?thesis
      by (auto intro!: painted_none simp: on_screen_def)
  next
    case False
    then have "on_screen W H xx yy"
      using assms by (simp add: on_screen_def)
    from put_pixel_painted [OF assms(1) this, of c k] False show ?thesis
      by (auto elim!: painted_cong)
  qed
  from painted_fold [where vs = "[x..x + w - 1]", OF this same_outside_refl] show ?thesis
    unfolding fill_row_def by (rule painted_cong) auto
qed

lemma fill_rect_painted:
  assumes "screen_shape fb W H"
  shows "painted fb W H (\<lambda>a b. x \<le> a \<and> a < x + w \<and> y \<le> b \<and> b < y + h \<and> \<not> clipped m a b) (\<lambda>_ _. c) mem
    (wm_gpu_fill_rect m fb W H x y w h c mem)"
proof -
  let ?g = "\<lambda>yy mem. if yy < 0 \<or> H \<le> yy then mem else fill_row m fb W x w yy c mem"
  have "painted fb W H (\<lambda>a b. b = yy \<and> x \<le> a \<and> a < x + w \<and> \<not> clipped m a b) (\<lambda>_ _. c) k (?g yy k)" for yy k
  proof (cases "yy < 0 \<or> H \<le> yy")
    case True
    then show ?thesis
      by (auto intro!: painted_none simp: on_screen_def)
  next
    case False
    then show ?thesis
      using fill_row_painted [OF assms, of yy x w m c k] by simp
  qed
  from painted_fold [where vs = "[y..y + h - 1]", OF this same_outside_refl]
  have "painted fb W H (\<lambda>a b. x \<le> a \<and> a < x + w \<and> y \<le> b \<and> b < y + h \<and> \<not> clipped m a b) (\<lambda>_ _. c) mem (fold ?g [y..y + h - 1] mem)"
    by (rule painted_cong) auto
  moreover have "fb \<noteq> 0"
    using assms by (simp add: screen_shape_def)
  ultimately show ?thesis
    unfolding wm_gpu_fill_rect_def by simp
qed

text \<open>The part of a window that shows its image, and the image there.\<close>

definition in_image :: "wm_window \<Rightarrow> int \<Rightarrow> int \<Rightarrow> bool" where
  "in_image w x y \<longleftrightarrow> 0 \<le> x - w_x w \<and> x - w_x w < min (w_image_w w) (w_w w) \<and> 0 \<le> y - w_y w \<and> y - w_y w < min (w_image_h w) (w_h w)"

definition image_addr :: "wm_window \<Rightarrow> int \<Rightarrow> int \<Rightarrow> u32" where
  "image_addr w x y = w_image_pixels w + 4 * of_int ((y - w_y w) * w_image_w w + (x - w_x w))"

text \<open>The image does not overlap the frame buffer.\<close>

definition image_apart :: "u32 \<Rightarrow> int \<Rightarrow> int \<Rightarrow> wm_window \<Rightarrow> bool" where
  "image_apart fb W H w \<longleftrightarrow> (\<forall>k d. 0 \<le> k \<and> k < w_image_w w * w_image_h w \<and> d \<in> {0, 1, 2, 3} \<longrightarrow>
     outside fb W H (w_image_pixels w + 4 * of_int k + d))"

lemma image_load:
  assumes "image_apart fb W H w" and "in_image w x y" and "same_outside fb W H m0 m"
  shows "load32 m (image_addr w x y) = load32 m0 (image_addr w x y)"
proof -
  let ?i = "x - w_x w" and ?j = "y - w_y w"
  have i: "0 \<le> ?i" "?i < w_image_w w" "0 \<le> ?j" "?j < w_image_h w"
    using assms(2) by (simp_all add: in_image_def)
  then have "0 \<le> ?j * w_image_w w + ?i" "?j * w_image_w w + ?i < w_image_w w * w_image_h w"
    using pix_index [of "w_image_w w" "w_image_h w" ?i ?j] by (simp_all add: on_screen_def)
  then have "outside fb W H (image_addr w x y + d)" if "d \<in> {0, 1, 2, 3}" for d
    using assms(1) that unfolding image_apart_def image_addr_def by blast
  then show ?thesis
    using assms(3) unfolding same_outside_def
    by (simp add: load32_def) (metis add.right_neutral)
qed

lemma blit_painted:
  assumes "screen_shape fb W H" and "image_apart fb W H w"
  shows "painted fb W H (\<lambda>a b. in_image w a b \<and> \<not> clipped m a b) (\<lambda>a b. load32 mem (image_addr w a b)) mem (blit_image m w fb W H mem)"
proof -
  let ?f = "\<lambda>a b. load32 mem (image_addr w a b)"
  let ?ys = "[0..min (w_image_h w) (w_h w) - 1]" and ?xs = "[0..min (w_image_w w) (w_w w) - 1]"
  have px: "painted fb W H (\<lambda>a b. a = w_x w + xx \<and> b = w_y w + yy \<and> \<not> clipped m a b) ?f k (blit_pixel m w fb W H yy xx k)"
    if "same_outside fb W H mem k" "xx \<in> set ?xs" "yy \<in> set ?ys" for k xx yy
  proof (cases "on_screen W H (w_x w + xx) (w_y w + yy) \<and> \<not> clipped m (w_x w + xx) (w_y w + yy)")
    case False
    then show ?thesis
      by (auto simp: blit_pixel_def Let_def on_screen_def intro!: painted_none)
  next
    case True
    have "load32 k (image_addr w (w_x w + xx) (w_y w + yy)) = ?f (w_x w + xx) (w_y w + yy)"
      by (rule image_load [OF assms(2) _ that(1)]) (use that in \<open>auto simp: in_image_def\<close>)
    then show ?thesis
      using put_pixel_painted [OF assms(1), of "w_x w + xx" "w_y w + yy" "load32 k (image_addr w (w_x w + xx) (w_y w + yy))" k] True
      by (auto simp: blit_pixel_def Let_def on_screen_def image_addr_def elim!: painted_cong)
  qed
  have row: "painted fb W H (\<lambda>a b. \<exists>xx\<in>set ?xs. a = w_x w + xx \<and> b = w_y w + yy \<and> \<not> clipped m a b) ?f k
      (fold (blit_pixel m w fb W H yy) ?xs k)" if "same_outside fb W H mem k" "yy \<in> set ?ys" for k yy
    using painted_fold [OF px [OF _ _ that(2)] that(1)] .
  have "painted fb W H (\<lambda>a b. \<exists>yy\<in>set ?ys. \<exists>xx\<in>set ?xs. a = w_x w + xx \<and> b = w_y w + yy \<and> \<not> clipped m a b) ?f mem
      (blit_image m w fb W H mem)"
    unfolding blit_image_def using painted_fold [OF row same_outside_refl] .
  then show ?thesis
  proof (rule painted_cong)
    fix x y
    show "(in_image w x y \<and> \<not> clipped m x y) =
        (\<exists>yy\<in>set ?ys. \<exists>xx\<in>set ?xs. x = w_x w + xx \<and> y = w_y w + yy \<and> \<not> clipped m x y)"
      unfolding in_image_def
      by (intro iffI, rule bexI [of _ "y - w_y w"], rule bexI [of _ "x - w_x w"]) auto
  qed simp
qed

section \<open>Windows\<close>

definition window_colour :: "wm \<Rightarrow> mem \<Rightarrow> wm_window \<Rightarrow> int \<Rightarrow> int \<Rightarrow> u32" where
  "window_colour m mem w x y =
     (if w_has_image w \<noteq> 0 \<and> w_image_pixels w \<noteq> 0 \<and> in_image w x y then load32 mem (image_addr w x y)
      else if w_id w = wm_focus_id m then 0x003b4d63 else 0x00242a33)"

definition images_apart :: "u32 \<Rightarrow> int \<Rightarrow> int \<Rightarrow> wm \<Rightarrow> bool" where
  "images_apart fb W H m \<longleftrightarrow> (\<forall>i<WM_MAX_WINDOWS. w_used (win i m) \<and> w_has_image (win i m) \<noteq> 0 \<longrightarrow> image_apart fb W H (win i m))"

lemma window_colour_outside:
  assumes "w_has_image w \<noteq> 0 \<Longrightarrow> image_apart fb W H w" and "same_outside fb W H m0 mem"
  shows "window_colour m mem w x y = window_colour m m0 w x y"
  using image_load [OF assms(1) _ assms(2)] by (simp add: window_colour_def)

lemma window_painted:
  assumes "screen_shape fb W H" and "w_has_image (win i m) \<noteq> 0 \<Longrightarrow> image_apart fb W H (win i m)"
  shows "painted fb W H (\<lambda>x y. covers x y (win i m) \<and> \<not> clipped m x y) (window_colour m mem (win i m)) mem
    (paint_window m fb W H i mem)"
proof -
  let ?w = "win i m"
  define color :: u32 where "color = (if w_id ?w = wm_focus_id m then 0x003b4d63 else 0x00242a33)"
  define mem1 where "mem1 = wm_gpu_fill_rect m fb W H (w_x ?w) (w_y ?w) (w_w ?w) (w_h ?w) color mem"
  have p1: "painted fb W H (\<lambda>x y. covers x y ?w \<and> \<not> clipped m x y) (\<lambda>_ _. color) mem mem1"
    unfolding mem1_def by (rule painted_cong [OF fill_rect_painted [OF assms(1)]]) (auto simp: covers_def)
  have pw: "paint_window m fb W H i mem = (if w_has_image ?w \<noteq> 0 \<and> w_image_pixels ?w \<noteq> 0 then blit_image m ?w fb W H mem1 else mem1)"
    by (simp add: paint_window_def Let_def mem1_def color_def)
  show ?thesis
  proof (cases "w_has_image ?w \<noteq> 0 \<and> w_image_pixels ?w \<noteq> 0")
    case True
    have o: "same_outside fb W H mem mem1"
      using p1 by (simp add: painted_def)
    have sub: "in_image ?w x y \<Longrightarrow> covers x y ?w" for x y
      by (auto simp: in_image_def covers_def)
    have "painted fb W H (\<lambda>x y. in_image ?w x y \<and> \<not> clipped m x y) (\<lambda>x y. load32 mem1 (image_addr ?w x y)) mem1
        (blit_image m ?w fb W H mem1)"
      using blit_painted [OF assms(1)] assms(2) True by blast
    from painted_trans [OF p1 this] show ?thesis
      unfolding pw using True assms(2) image_load [OF _ _ o, of ?w]
      by (auto simp: window_colour_def color_def elim!: painted_cong dest: sub)
  next
    case False
    then show ?thesis
      unfolding pw using painted_cong [OF p1] by (auto simp: window_colour_def color_def)
  qed
qed

text \<open>Painting windows one after the other leaves the last one that covers a pixel on top.\<close>

definition last_covering :: "wm \<Rightarrow> nat list \<Rightarrow> int \<Rightarrow> int \<Rightarrow> nat option" where
  "last_covering m is x y = (case rev (filter (\<lambda>i. covers x y (win i m)) is) of [] \<Rightarrow> None | i # _ \<Rightarrow> Some i)"

lemma last_covering_snoc:
  "last_covering m (is @ [i]) x y = (if covers x y (win i m) then Some i else last_covering m is x y)"
  by (simp add: last_covering_def)

lemma windows_painted:
  assumes "screen_shape fb W H" and "\<And>i. i \<in> set is \<Longrightarrow> w_has_image (win i m) \<noteq> 0 \<Longrightarrow> image_apart fb W H (win i m)"
  shows "painted fb W H (\<lambda>x y. last_covering m is x y \<noteq> None \<and> \<not> clipped m x y)
    (\<lambda>x y. window_colour m mem (win (the (last_covering m is x y)) m) x y) mem (fold (paint_window m fb W H) is mem)"
  using assms(2)
proof (induction "is" rule: rev_induct)
  case Nil
  show ?case
    by (simp add: painted_none last_covering_def)
next
  case (snoc i xs)
  let ?mem = "fold (paint_window m fb W H) xs mem"
  have p: "painted fb W H (\<lambda>x y. last_covering m xs x y \<noteq> None \<and> \<not> clipped m x y)
      (\<lambda>x y. window_colour m mem (win (the (last_covering m xs x y)) m) x y) mem ?mem"
    using snoc by simp
  then have o: "same_outside fb W H mem ?mem"
    by (simp add: painted_def)
  have q: "painted fb W H (\<lambda>x y. covers x y (win i m) \<and> \<not> clipped m x y) (window_colour m ?mem (win i m)) ?mem (paint_window m fb W H i ?mem)"
    using window_painted [OF assms(1)] snoc.prems by simp
  have c: "window_colour m ?mem (win i m) x y = window_colour m mem (win i m) x y" for x y
    by (rule window_colour_outside [OF _ o]) (use snoc.prems in simp)
  have "painted fb W H (\<lambda>x y. last_covering m (xs @ [i]) x y \<noteq> None \<and> \<not> clipped m x y)
      (\<lambda>x y. window_colour m mem (win (the (last_covering m (xs @ [i]) x y)) m) x y) mem (paint_window m fb W H i ?mem)"
    by (rule painted_cong [OF painted_trans [OF p q]]) (auto simp: last_covering_snoc c)
  then show ?case
    by simp
qed

section \<open>The topmost window\<close>

definition candidate :: "wm \<Rightarrow> int \<Rightarrow> int \<Rightarrow> int \<Rightarrow> nat \<Rightarrow> bool" where
  "candidate m x y ignore_id i \<longleftrightarrow>
     w_used (win i m) \<and> w_visible (win i m) \<and> w_id (win i m) \<noteq> ignore_id \<and> covers x y (win i m)"

lemma top_loop_step:
  "top_loop m x y ig (i # is) best bz =
     (if candidate m x y ig i \<and> bz < w_z (win i m) then top_loop m x y ig is (Some i) (w_z (win i m)) else top_loop m x y ig is best bz)"
  by (simp add: candidate_def Let_def)

lemma top_loop_max:
  assumes "\<And>i. i \<in> set is \<Longrightarrow> candidate m x y ig i \<Longrightarrow> 0 \<le> w_z (win i m)"
    and "best = None \<and> bz = -1 \<or> (\<exists>b. best = Some b \<and> bz = w_z (win b m))"
  shows "case top_loop m x y ig is best bz of
      None \<Rightarrow> best = None \<and> (\<forall>i\<in>set is. \<not> candidate m x y ig i)
    | Some r \<Rightarrow> (best = Some r \<or> r \<in> set is \<and> candidate m x y ig r) \<and> bz \<le> w_z (win r m) \<and>
        (\<forall>i\<in>set is. candidate m x y ig i \<longrightarrow> w_z (win i m) \<le> w_z (win r m))"
  using assms
proof (induction "is" arbitrary: best bz)
  case Nil
  then show ?case
    by (auto split: option.split)
next
  case (Cons a xs)
  have pos: "\<And>i. i \<in> set xs \<Longrightarrow> candidate m x y ig i \<Longrightarrow> 0 \<le> w_z (win i m)"
    using Cons.prems(1) by simp
  show ?case
  proof (cases "candidate m x y ig a \<and> bz < w_z (win a m)")
    case True
    then show ?thesis
      using Cons.IH [OF pos, of "Some a" "w_z (win a m)"] by (auto simp: top_loop_step simp del: top_loop.simps split: option.splits)
  next
    case False
    then show ?thesis
      using Cons.IH [OF pos Cons.prems(2)] Cons.prems(1) [of a] Cons.prems(2)
      by (auto simp: top_loop_step simp del: top_loop.simps split: option.splits)
  qed
qed

lemma last_covering_max:
  assumes "sorted (map (\<lambda>i. w_z (win i m)) is)"
  shows "case last_covering m is x y of
      None \<Rightarrow> \<forall>i\<in>set is. \<not> covers x y (win i m)
    | Some r \<Rightarrow> r \<in> set is \<and> covers x y (win r m) \<and> (\<forall>i\<in>set is. covers x y (win i m) \<longrightarrow> w_z (win i m) \<le> w_z (win r m))"
  using assms
proof (induction "is" rule: rev_induct)
  case (snoc i xs)
  then show ?case
    by (auto simp: last_covering_snoc sorted_append split: option.splits)
qed (simp add: last_covering_def)

definition shown :: "wm_window \<Rightarrow> bool" where
  "shown w \<longleftrightarrow> w_used w \<and> w_visible w"

lemma inv_used:
  assumes "wm_inv m" and "i < WM_MAX_WINDOWS" and "w_used (win i m)"
  shows "1 \<le> w_id (win i m)" and "1 \<le> w_z (win i m)"
    and "j < WM_MAX_WINDOWS \<Longrightarrow> w_used (win j m) \<Longrightarrow> w_z (win j m) = w_z (win i m) \<Longrightarrow> j = i"
    and "j < WM_MAX_WINDOWS \<Longrightarrow> w_used (win j m) \<Longrightarrow> w_id (win j m) = w_id (win i m) \<Longrightarrow> j = i"
  using assms unfolding wm_inv_def windows_ok_def win_def by blast+

lemma top_at_last_covering:
  assumes "wm_inv m"
  shows "wm_top_at x y 0 m = last_covering m (z_order shown m) x y"
proof -
  let ?zs = "z_order shown m"
  have cand: "candidate m x y 0 i \<longleftrightarrow> i \<in> set ?zs \<and> covers x y (win i m)" if "i < WM_MAX_WINDOWS" for i
    using inv_used(1) [OF assms that] that by (auto simp: candidate_def z_order_props shown_def)
  have pos: "0 \<le> w_z (win i m)" if "i \<in> set [0..<WM_MAX_WINDOWS]" "candidate m x y 0 i" for i
    using inv_used(2) [OF assms, of i] that by (simp add: candidate_def)
  have lt: "i \<in> set ?zs \<Longrightarrow> i < WM_MAX_WINDOWS \<and> w_used (win i m)" for i
    by (simp add: z_order_props shown_def)
  have T: "case wm_top_at x y 0 m of None \<Rightarrow> \<forall>i<WM_MAX_WINDOWS. \<not> candidate m x y 0 i
      | Some r \<Rightarrow> r < WM_MAX_WINDOWS \<and> candidate m x y 0 r \<and> (\<forall>i<WM_MAX_WINDOWS. candidate m x y 0 i \<longrightarrow> w_z (win i m) \<le> w_z (win r m))"
    using top_loop_max [of "[0..<WM_MAX_WINDOWS]" m x y 0 None "-1", OF pos] by (auto simp: wm_top_at_def split: option.splits)
  note Z = last_covering_max [OF z_order_props(3) [where P = shown and m = m], of x y]
  show ?thesis
  proof (cases "last_covering m ?zs x y")
    case None
    then show ?thesis
      using T Z cand by (auto split: option.splits)
  next
    case (Some r)
    then have r: "r \<in> set ?zs" "covers x y (win r m)"
      and rmax: "\<And>i. i \<in> set ?zs \<Longrightarrow> covers x y (win i m) \<Longrightarrow> w_z (win i m) \<le> w_z (win r m)"
      using Z by simp_all
    have "candidate m x y 0 r"
      using r cand lt by blast
    then obtain t where t: "wm_top_at x y 0 m = Some t" "t < WM_MAX_WINDOWS" "candidate m x y 0 t" "w_z (win r m) \<le> w_z (win t m)"
      using T lt [OF r(1)] by (auto split: option.splits)
    then have "w_z (win t m) = w_z (win r m)" "w_used (win t m)"
      using rmax [of t] cand [of t] lt [of t] by fastforce+
    then show ?thesis
      using inv_used(3) [OF assms, of r t] lt [OF r(1)] t Some by simp
  qed
qed

section \<open>The picture\<close>

definition under_cursor :: "wm \<Rightarrow> int \<Rightarrow> int \<Rightarrow> bool" where
  "under_cursor m x y \<longleftrightarrow> wm_cursor_x m \<le> x \<and> x < wm_cursor_x m + 8 \<and> wm_cursor_y m \<le> y \<and> y < wm_cursor_y m + 8"

definition picture :: "wm \<Rightarrow> mem \<Rightarrow> int \<Rightarrow> int \<Rightarrow> u32" where
  "picture m mem x y =
     (if under_cursor m x y then 0x00ffffff
      else case wm_top_at x y 0 m of None \<Rightarrow> 0x00162236 | Some i \<Rightarrow> window_colour m mem (win i m) x y)"

text \<open>Clipping is not part of the picture.\<close>

definition unclipped :: "wm \<Rightarrow> wm" where
  "unclipped m = m\<lparr>wm_clip_enabled := False\<rparr>"

lemma win_unclipped [simp]: "win i (unclipped m) = win i m"
  by (simp add: win_def unclipped_def)

lemma top_loop_win_cong:
  assumes "\<And>i. i \<in> set is \<Longrightarrow> win i m = win i m'"
  shows "top_loop m x y ig is best bz = top_loop m' x y ig is best bz"
  using assms by (induction "is" arbitrary: best bz) (simp_all add: Let_def)

lemma top_loop_in: "top_loop m x y ig is best bz = Some i \<Longrightarrow> best = Some i \<or> i \<in> set is"
  by (induction "is" arbitrary: best bz) (auto simp: Let_def split: if_splits)

lemma top_at_less: "wm_top_at x y ig m = Some i \<Longrightarrow> i < WM_MAX_WINDOWS"
  using top_loop_in [of m x y ig "[0..<WM_MAX_WINDOWS]" None "-1" i] by (simp add: wm_top_at_def)

lemma picture_cong:
  assumes "\<And>i. i < WM_MAX_WINDOWS \<Longrightarrow> win i m = win i m'" and "wm_focus_id m = wm_focus_id m'"
    and "wm_cursor_x m = wm_cursor_x m'" and "wm_cursor_y m = wm_cursor_y m'"
  shows "picture m mem x y = picture m' mem x y"
proof -
  have "wm_top_at x y 0 m = wm_top_at x y 0 m'"
    unfolding wm_top_at_def by (rule top_loop_win_cong) (use assms(1) in auto)
  then show ?thesis
    using assms top_at_less [of x y 0 m'] by (auto simp: picture_def under_cursor_def window_colour_def split: option.split)
qed

lemma screen_painted:
  assumes "screen_shape fb W H" and "wm_inv (unclipped m)" and "images_apart fb W H m"
  shows "painted fb W H (\<lambda>x y. \<not> clipped m x y) (picture m mem) mem (paint_screen m fb W H mem)"
proof -
  let ?zs = "z_order shown m"
  define mem1 where "mem1 = wm_gpu_fill_rect m fb W H 0 0 W H 0x00162236 mem"
  define mem2 where "mem2 = fold (paint_window m fb W H) ?zs mem1"
  have r: "paint_screen m fb W H mem = wm_gpu_fill_rect m fb W H (wm_cursor_x m) (wm_cursor_y m) 8 8 0x00ffffff mem2"
    by (simp add: paint_screen_def mem1_def mem2_def Let_def shown_def [abs_def])
  have z: "z_order shown (unclipped m) = ?zs"
    by (simp add: z_order_def)
  have lc: "last_covering (unclipped m) is x y = last_covering m is x y" for "is" x y
    by (simp add: last_covering_def)
  have ta: "wm_top_at x y 0 (unclipped m) = wm_top_at x y 0 m" for x y
    unfolding wm_top_at_def by (rule top_loop_win_cong) simp
  have top: "wm_top_at x y 0 m = last_covering m ?zs x y" for x y
    using top_at_last_covering [OF assms(2), of x y] by (simp add: z lc ta)
  have ap: "image_apart fb W H (win i m)" if "i \<in> set ?zs" "w_has_image (win i m) \<noteq> 0" for i
    using assms(3) that by (auto simp: images_apart_def z_order_props shown_def)
  have p1: "painted fb W H (\<lambda>x y. \<not> clipped m x y) (\<lambda>_ _. 0x00162236) mem mem1"
    unfolding mem1_def by (rule painted_cong [OF fill_rect_painted [OF assms(1)]]) (auto simp: on_screen_def)
  then have o: "same_outside fb W H mem mem1"
    by (simp add: painted_def)
  have p2: "painted fb W H (\<lambda>x y. last_covering m ?zs x y \<noteq> None \<and> \<not> clipped m x y)
      (\<lambda>x y. window_colour m mem1 (win (the (last_covering m ?zs x y)) m) x y) mem1 mem2"
    unfolding mem2_def using windows_painted [OF assms(1) ap] .
  have col: "window_colour m mem1 (win i m) x y = window_colour m mem (win i m) x y" if "last_covering m ?zs x y = Some i" for i x y
    using window_colour_outside [OF ap o] last_covering_max [OF z_order_props(3) [where P = shown and m = m], of x y] that by simp
  have p3: "painted fb W H (\<lambda>x y. under_cursor m x y \<and> \<not> clipped m x y) (\<lambda>_ _. 0x00ffffff) mem2 (paint_screen m fb W H mem)"
    unfolding r by (rule painted_cong [OF fill_rect_painted [OF assms(1)]]) (auto simp: under_cursor_def)
  show ?thesis
    by (rule painted_cong [OF painted_trans [OF painted_trans [OF p1 p2] p3]]) (auto simp: picture_def top col)
qed

section \<open>Rendering\<close>

lemma repack_order:
  assumes "wm_inv m" and "i < WM_MAX_WINDOWS" and "w_used (win i m)" and "j < WM_MAX_WINDOWS" and "w_used (win j m)"
    and "w_z (win i (wm_repack_z m)) \<le> w_z (win j (wm_repack_z m))"
  shows "w_z (win i m) \<le> w_z (win j m)"
proof -
  let ?zs = "z_order w_used m"
  obtain a where a: "a < length ?zs" "?zs ! a = i" "win i (wm_repack_z m) = (win i m)\<lparr>w_z := int a + 1\<rparr>"
    by (rule repack_used [OF assms(1-3)])
  obtain b where b: "b < length ?zs" "?zs ! b = j" "win j (wm_repack_z m) = (win j m)\<lparr>w_z := int b + 1\<rparr>"
    by (rule repack_used [OF assms(1,4,5)])
  have "a \<le> b"
    using assms(6) a b by simp
  then show ?thesis
    using sorted_nth_mono [OF z_order_props(3) [of m w_used], of a b] a b by simp
qed

lemma repack_window:
  assumes "wm_inv m" and "i < WM_MAX_WINDOWS"
  shows "covers x y (win i (wm_repack_z m)) = covers x y (win i m)" and "shown (win i (wm_repack_z m)) = shown (win i m)"
    and "window_colour k mem (win i (wm_repack_z m)) x y = window_colour k mem (win i m) x y"
    and "w_has_image (win i (wm_repack_z m)) = w_has_image (win i m)" and "w_used (win i (wm_repack_z m)) = w_used (win i m)"
    and "image_apart fb W H (win i (wm_repack_z m)) = image_apart fb W H (win i m)"
proof -
  obtain z where z: "win i (wm_repack_z m) = (win i m)\<lparr>w_z := z\<rparr>"
    using repack_same [OF assms] by blast
  show "covers x y (win i (wm_repack_z m)) = covers x y (win i m)" "shown (win i (wm_repack_z m)) = shown (win i m)"
    "window_colour k mem (win i (wm_repack_z m)) x y = window_colour k mem (win i m) x y"
    "w_has_image (win i (wm_repack_z m)) = w_has_image (win i m)" "w_used (win i (wm_repack_z m)) = w_used (win i m)"
    "image_apart fb W H (win i (wm_repack_z m)) = image_apart fb W H (win i m)"
    by (simp_all add: z covers_def shown_def window_colour_def in_image_def image_addr_def image_apart_def)
qed

lemma repack_top:
  assumes "wm_inv m"
  shows "wm_top_at x y 0 (wm_repack_z m) = wm_top_at x y 0 m"
proof -
  let ?m = "wm_repack_z m"
  note top = top_at_last_covering [OF assms] top_at_last_covering [OF repack_inv [OF assms]]
  note Z = last_covering_max [OF z_order_props(3) [where P = shown and m = m], of x y]
  note Z' = last_covering_max [OF z_order_props(3) [where P = shown and m = ?m], of x y]
  have in_zs: "i \<in> set (z_order shown m) \<longleftrightarrow> i < WM_MAX_WINDOWS \<and> shown (win i m)"
    "i \<in> set (z_order shown ?m) \<longleftrightarrow> i < WM_MAX_WINDOWS \<and> shown (win i m)" for i
    using repack_window(2) [OF assms, of i] by (auto simp: z_order_props)
  show ?thesis
  proof (cases "last_covering m (z_order shown m) x y")
    case None
    then have "\<not> covers x y (win i m)" if "i < WM_MAX_WINDOWS" "shown (win i m)" for i
      using Z that in_zs by auto
    then have "last_covering ?m (z_order shown ?m) x y = None"
      using Z' repack_window(1) [OF assms] in_zs by (auto split: option.splits)
    then show ?thesis
      using None top by simp
  next
    case (Some r)
    then have r: "r < WM_MAX_WINDOWS" "shown (win r m)" "covers x y (win r m)"
      and rmax: "\<And>i. i < WM_MAX_WINDOWS \<Longrightarrow> shown (win i m) \<Longrightarrow> covers x y (win i m) \<Longrightarrow> w_z (win i m) \<le> w_z (win r m)"
      using Z in_zs by auto
    have "r \<in> set (z_order shown ?m)" "covers x y (win r ?m)"
      using r in_zs repack_window(1) [OF assms] by auto
    then obtain q where q: "last_covering ?m (z_order shown ?m) x y = Some q" "q < WM_MAX_WINDOWS" "shown (win q m)"
      "covers x y (win q m)" "w_z (win r ?m) \<le> w_z (win q ?m)"
      using Z' in_zs repack_window(1) [OF assms] by (auto split: option.splits)
    have "w_z (win r m) \<le> w_z (win q m)"
      using repack_order [OF assms r(1) _ q(2) _ q(5)] r q by (simp add: shown_def)
    then have "q = r"
      using rmax [OF q(2-4)] inv_used(3) [OF assms r(1) _ q(2)] r q by (simp add: shown_def)
    then show ?thesis
      using Some q top by simp
  qed
qed

lemma repack_fields:
  assumes "wm_inv m"
  shows "wm_focus_id (wm_repack_z m) = wm_focus_id m" and "wm_cursor_x (wm_repack_z m) = wm_cursor_x m"
    and "wm_cursor_y (wm_repack_z m) = wm_cursor_y m" and "wm_gpu_ready (wm_repack_z m) = wm_gpu_ready m"
    and "wm_dirty_valid (wm_repack_z m) = wm_dirty_valid m" and "wm_dirty_x0 (wm_repack_z m) = wm_dirty_x0 m"
    and "wm_dirty_y0 (wm_repack_z m) = wm_dirty_y0 m" and "wm_dirty_x1 (wm_repack_z m) = wm_dirty_x1 m"
    and "wm_dirty_y1 (wm_repack_z m) = wm_dirty_y1 m"
  using repack_props(3) [OF assms] by auto

lemma repack_picture:
  assumes "wm_inv m"
  shows "picture (wm_repack_z m) mem x y = picture m mem x y"
  using repack_window(3) [OF assms top_at_less [of x y 0 m]] repack_fields [OF assms]
  by (auto simp: picture_def repack_top [OF assms] under_cursor_def window_colour_def split: option.split)

definition damaged :: "wm \<Rightarrow> int \<Rightarrow> int \<Rightarrow> bool" where
  "damaged m x y \<longleftrightarrow> wm_dirty_valid m \<and> wm_dirty_x0 m \<le> x \<and> x < wm_dirty_x1 m \<and> wm_dirty_y0 m \<le> y \<and> y < wm_dirty_y1 m"

text \<open>The driver is up and agrees with the window manager on the size of the screen.\<close>

definition screen_up :: "wm \<Rightarrow> gpu \<Rightarrow> bool" where
  "screen_up m g \<longleftrightarrow> wm_gpu_ready m \<and> vg_ready g \<and> screen_ok g \<and> vg_backbuffer g \<noteq> 0 \<and> unat (vg_backbuffer g) mod 4096 = 0 \<and>
     wm_screen_w m = virtio_gpu_width g \<and> wm_screen_h m = virtio_gpu_height g"

lemma screen_up_shape:
  assumes "screen_up m g"
  shows "screen_shape (virtio_gpu_backbuffer g) (virtio_gpu_width g) (virtio_gpu_height g)"
proof -
  have "unat (vg_backbuffer g) mod 4 = 0"
    using assms mod_mod_cancel [of 4 4096 "unat (vg_backbuffer g)"] by (simp add: screen_up_def)
  then show ?thesis
    using assms screen_size [of g] by (simp add: screen_up_def screen_shape_def virtio_gpu_backbuffer_def)
qed

lemma render_spec:
  assumes "wm_inv m" and "screen_up m (gg s)" and "others_ok e" and "vg_calm s"
    and "images_apart (virtio_gpu_backbuffer (gg s)) (wm_screen_w m) (wm_screen_h m) m"
  shows "\<exists>m' s'. wm_render e (m, s) = Inr (m', s') \<and> wm_inv m' \<and> \<not> wm_dirty_valid m' \<and>
     (\<forall>mem x y. picture m' mem x y = picture m mem x y) \<and>
     painted (virtio_gpu_backbuffer (gg s)) (wm_screen_w m) (wm_screen_h m) (damaged m) (picture m (pmem (gpu_pa s)))
       (pmem (gpu_pa s)) (pmem (gpu_pa s'))"
proof -
  let ?fb = "virtio_gpu_backbuffer (gg s)" and ?W = "wm_screen_w m" and ?H = "wm_screen_h m" and ?r = "wm_repack_z m"
  have fb: "?fb \<noteq> 0"
    using assms(2) by (simp add: screen_up_def virtio_gpu_backbuffer_def)
  have sz: "virtio_gpu_width (gg s) = ?W" "virtio_gpu_height (gg s) = ?H" "wm_gpu_ready m"
    using assms(2) by (simp_all add: screen_up_def)
  have shape: "screen_shape ?fb ?W ?H"
    using screen_up_shape [OF assms(2)] sz by simp
  show ?thesis
  proof (cases "wm_dirty_valid m")
    case False
    then have "wm_render e (m, s) = Inr (?r, s)"
      using sz by (simp add: wm_render_def wm_render_gpu_def Let_def repack_fields [OF assms(1)])
    then show ?thesis
      using False assms(1) by (auto simp: repack_inv repack_fields repack_picture damaged_def intro!: painted_none)
  next
    case True
    define c where "c = ?r\<lparr>wm_clip_enabled := True, wm_clip_x0 := wm_dirty_x0 ?r, wm_clip_y0 := wm_dirty_y0 ?r,
      wm_clip_x1 := wm_dirty_x1 ?r, wm_clip_y1 := wm_dirty_y1 ?r\<rparr>"
    define mem where "mem = pmem (gpu_pa s)"
    define s1 where "s1 = s\<lparr>gk := set_pa ((gpu_pa s)\<lparr>pmem := paint_screen c ?fb ?W ?H mem\<rparr>) (gk s)\<rparr>"
    have calm: "vg_calm s1"
      using assms(4) by (simp add: vg_calm_def s1_def set_pa_def)
    obtain s' where pr: "virtio_gpu_present e s1 = Inr s'" and k: "vg_keep s1 s'"
      using present_keep [OF assms(3) calm] by blast
    have mem': "pmem (gpu_pa s') = paint_screen c ?fb ?W ?H mem"
      using k by (simp add: vg_keep_def s1_def set_pa_def)
    let ?m' = "c\<lparr>wm_clip_enabled := False, wm_dirty_valid := False\<rparr>"
    have eq: "wm_render e (m, s) = Inr (?m', s')"
      using True sz fb pr
      by (simp add: wm_render_def wm_render_gpu_def Let_def repack_fields [OF assms(1)] c_def s1_def mem_def)
    have pc: "picture c mem x y = picture m mem x y" "picture ?m' mem x y = picture m mem x y" for mem x y
      using picture_cong [of c ?r mem x y] picture_cong [of ?m' ?r mem x y] repack_picture [OF assms(1)]
      by (simp_all add: c_def win_def)
    have ia: "wm_inv (unclipped c)"
      using repack_inv [OF assms(1)] by (simp add: wm_inv_def dirty_ok_def unclipped_def c_def)
    have ap: "images_apart ?fb ?W ?H c"
      using assms(5) repack_window [OF assms(1)] by (simp add: images_apart_def c_def win_def)
    have cl: "clipped c x y = (\<not> damaged m x y)" for x y
      using True by (auto simp: clipped_def damaged_def c_def repack_fields [OF assms(1)])
    have "painted ?fb ?W ?H (damaged m) (picture m mem) mem (pmem (gpu_pa s'))"
      unfolding mem' by (rule painted_cong [OF screen_painted [OF shape ia ap, of mem]]) (simp_all add: cl pc)
    then show ?thesis
      using eq pc render_inv [OF assms(1) eq] unfolding mem_def by auto
  qed
qed

text \<open>
  C10. \<^verbatim>\<open>wm_render\<close> returns, whatever the screen device answers, and then every pixel of the damaged rectangle shows
  the picture of the windows: white under the cursor, otherwise the pixel of the topmost visible window
  that covers it (its image where it has one, else the colour for a window with or without the focus),
  otherwise the desktop. No other pixel and no byte outside the frame buffer changes. The topmost window is
  the one that \<^verbatim>\<open>wm_top_at\<close> gives for a click at that place.
\<close>

theorem wm_render_correct:
  assumes "wm_inv m" and "screen_up m (gg s)" and "others_ok e" and "vg_calm s"
    and "images_apart (virtio_gpu_backbuffer (gg s)) (wm_screen_w m) (wm_screen_h m) m"
  shows "\<exists>m' s'. wm_render e (m, s) = Inr (m', s') \<and>
     (\<forall>x y. on_screen (wm_screen_w m) (wm_screen_h m) x y \<longrightarrow>
        pixel (virtio_gpu_backbuffer (gg s)) (wm_screen_w m) (pmem (gpu_pa s')) x y =
          (if damaged m x y then opaque (picture m (pmem (gpu_pa s)) x y)
           else pixel (virtio_gpu_backbuffer (gg s)) (wm_screen_w m) (pmem (gpu_pa s)) x y)) \<and>
     (\<forall>a. outside (virtio_gpu_backbuffer (gg s)) (wm_screen_w m) (wm_screen_h m) a \<longrightarrow> pmem (gpu_pa s') a = pmem (gpu_pa s) a)"
  using render_spec [OF assms] by (auto simp: painted_def same_outside_def)

text \<open>A screen of 64 x 48 pixels with one window.\<close>

definition demo_window :: wm_window where
  "demo_window = zero_window\<lparr>w_used := True, w_id := 1, w_visible := True, w_focusable := True, w_x := 2, w_y := 2, w_w := 10, w_h := 8,
     w_z := 1\<rparr>"

definition demo_wm :: wm where
  "demo_wm = wm_boot\<lparr>wm_windows := demo_window # replicate 7 zero_window, wm_next_id := 2, wm_next_z := 2, wm_focus_id := 1,
     wm_screen_w := 64, wm_screen_h := 48, wm_cursor_x := 40, wm_cursor_y := 30, wm_gpu_ready := True, wm_dirty_valid := True,
     wm_dirty_x1 := 64, wm_dirty_y1 := 48\<rparr>"

definition demo_screen :: "unit gsys" where
  "demo_screen = gsys_boot\<lparr>gg := gpu_boot\<lparr>vg_ready := True, vg_width_px := 64, vg_height_px := 48, vg_pitch_px := 256,
     vg_backbuffer := 0x80400000, vg_backbuffer_pages := 3\<rparr>\<rparr>"

lemma window_ok_zero: "window_ok zero_window" and window_ok_demo: "window_ok demo_window"
  by (simp_all add: window_ok_def ring_ok_def zero_window_def demo_window_def)

lemma demo_nth: "(demo_window # replicate 7 zero_window) ! i = (if i = 0 then demo_window else zero_window)" if "i < 8"
  using that by (cases i) auto

lemma demo_wm_inv: "wm_inv demo_wm"
proof -
  have "windows_ok (demo_window # replicate 7 zero_window) 2 2 1"
    unfolding windows_ok_def
    by (auto simp: demo_nth window_ok_zero window_ok_demo intro!: exI [of _ 0]) (auto simp: demo_window_def zero_window_def)
  then show ?thesis
    by (simp add: demo_wm_def wm_inv_def dirty_ok_def wm_boot_def)
qed

lemma demo_screen_up: "screen_up demo_wm (gg demo_screen)"
  by (simp add: screen_up_def demo_wm_def demo_screen_def gsys_boot_def gpu_boot_def screen_ok_def virtio_gpu_width_def
      virtio_gpu_height_def wm_boot_def)

lemma demo_images: "images_apart fb W H demo_wm"
  by (auto simp: images_apart_def win_def demo_wm_def demo_nth) (auto simp: demo_window_def zero_window_def)

lemma demo_top: "wm_top_at x y 0 demo_wm = (if 2 \<le> x \<and> x < 12 \<and> 2 \<le> y \<and> y < 10 then Some 0 else None)"
  unfolding wm_top_at_def
  by (simp add: upt_conv_Cons win_def demo_wm_def wm_boot_def demo_nth Let_def) (auto simp: demo_window_def zero_window_def covers_def)

theorem wm_render_correct_witness:
  "\<exists>m' s'. wm_render demo_env (demo_wm, demo_screen) = Inr (m', s') \<and>
     pixel 0x80400000 64 (pmem (gpu_pa s')) 5 5 = 0xff3b4d63 \<and> pixel 0x80400000 64 (pmem (gpu_pa s')) 20 20 = 0xff162236"
proof -
  have o: "others_ok demo_env" and c: "vg_calm demo_screen"
    by (simp_all add: others_ok_def demo_env_def vg_calm_def demo_screen_def gsys_boot_def gpu_boot_def)
  have f: "virtio_gpu_backbuffer (gg demo_screen) = 0x80400000" "wm_screen_w demo_wm = 64" "wm_screen_h demo_wm = 48"
    by (simp_all add: demo_screen_def gsys_boot_def gpu_boot_def virtio_gpu_backbuffer_def demo_wm_def)
  have p: "picture demo_wm mem 5 5 = 0x003b4d63" "picture demo_wm mem 20 20 = 0x00162236" for mem
    by (simp_all add: picture_def demo_top under_cursor_def window_colour_def)
      (simp_all add: demo_wm_def win_def demo_window_def zero_window_def wm_boot_def)
  have d: "damaged demo_wm 5 5" "damaged demo_wm 20 20"
    by (simp_all add: damaged_def demo_wm_def wm_boot_def)
  show ?thesis
    using wm_render_correct [OF demo_wm_inv demo_screen_up o c demo_images] p d unfolding f
    by (auto simp: on_screen_def)
qed

end
