(* ===== verification/Wm_Redraw.thy ===== *)
theory Wm_Redraw
  imports Wm_Paint
begin

text \<open>
  Damage is enough: an operation that changes the picture of a pixel marks that pixel, so that after the
  next \<^verbatim>\<open>wm_render\<close> the whole screen shows the picture. \<open>redraws m m'\<close> is this promise of one or more
  operations that lead from \<open>m\<close> to \<open>m'\<close>.
\<close>

section \<open>The promise\<close>

definition redraws :: "wm \<Rightarrow> wm \<Rightarrow> bool" where
  "redraws m m' \<longleftrightarrow> wm_screen_w m' = wm_screen_w m \<and> wm_screen_h m' = wm_screen_h m \<and> wm_gpu_ready m' = wm_gpu_ready m \<and>
     (\<forall>x y. on_screen (wm_screen_w m) (wm_screen_h m) x y \<and> \<not> damaged m' x y \<longrightarrow>
        \<not> damaged m x y \<and> (\<forall>mem. picture m' mem x y = picture m mem x y))"

lemma redraws_refl: "redraws m m"
  by (simp add: redraws_def)

lemma redraws_trans [trans]: "redraws m m' \<Longrightarrow> redraws m' m'' \<Longrightarrow> redraws m m''"
  by (simp add: redraws_def)

text \<open>Marking damage only adds to it, and adds the part of the rectangle that is on the screen.\<close>

lemma damaged_mark_rect:
  assumes "on_screen (wm_screen_w m) (wm_screen_h m) a b"
  shows "damaged m a b \<Longrightarrow> damaged (wm_mark_dirty_rect x y w h m) a b"
    and "x \<le> a \<Longrightarrow> a < x + w \<Longrightarrow> y \<le> b \<Longrightarrow> b < y + h \<Longrightarrow> damaged (wm_mark_dirty_rect x y w h m) a b"
  using assms by (auto simp: damaged_def wm_mark_dirty_rect_def Let_def on_screen_def)

lemma damaged_mark_window:
  assumes "on_screen (wm_screen_w m) (wm_screen_h m) a b"
  shows "damaged m a b \<Longrightarrow> damaged (wm_mark_dirty_window p m) a b"
    and "p = Some i \<Longrightarrow> w_used (win i m) \<Longrightarrow> covers a b (win i m) \<Longrightarrow> damaged (wm_mark_dirty_window p m) a b"
    and "damaged m a b \<Longrightarrow> damaged (wm_mark_dirty_taskbar m) a b"
  using damaged_mark_rect [OF assms]
  by (auto simp: wm_mark_dirty_window_def wm_mark_dirty_window_box_def wm_mark_dirty_taskbar_def Let_def covers_def split: option.split)

lemma damaged_mark_full: "on_screen (wm_screen_w m) (wm_screen_h m) a b \<Longrightarrow> damaged (wm_mark_dirty_full m) a b"
  by (simp add: damaged_def wm_mark_dirty_full_def on_screen_def)

lemma picture_undamaged: "undamaged m = undamaged m' \<Longrightarrow> picture m mem x y = picture m' mem x y"
  by (rule picture_cong) (simp_all add: win_def undamaged_eqD [of m m'])

lemma redraws_marks:
  shows "redraws m (wm_mark_dirty_window p m)" and "redraws m (wm_mark_dirty_taskbar m)"
  using damaged_mark_window [of m] picture_undamaged [OF undamaged_marks(1)] picture_undamaged [OF undamaged_marks(2)]
  by (auto simp: redraws_def)

lemma redraws_full:
  assumes "wm_screen_w m' = wm_screen_w m" and "wm_screen_h m' = wm_screen_h m" and "wm_gpu_ready m' = wm_gpu_ready m"
  shows "redraws m (wm_mark_dirty_full m')"
  using damaged_mark_full [of m'] assms by (auto simp: redraws_def)

section \<open>Windows change\<close>

text \<open>Two windows that differ at most in their queued events look the same.\<close>

definition same_frame :: "wm_window \<Rightarrow> wm_window \<Rightarrow> bool" where
  "same_frame w w' \<longleftrightarrow> w'\<lparr>w_ring := [], w_ev_head := 0, w_ev_tail := 0, w_ev_overflow_latched := False\<rparr> =
     w\<lparr>w_ring := [], w_ev_head := 0, w_ev_tail := 0, w_ev_overflow_latched := False\<rparr>"

lemma same_frame_intro [simp]:
  "same_frame w w" "same_frame w (w\<lparr>w_ring := r\<rparr>)" "same_frame w (w\<lparr>w_ring := r, w_ev_tail := t\<rparr>)" "same_frame w (w\<lparr>w_ev_head := h\<rparr>)"
  "same_frame w (w\<lparr>w_ring := r, w_ev_tail := t, w_ev_overflow_latched := l\<rparr>)"
  "same_frame w (w\<lparr>w_ev_overflow_latched := l, w_ring := r, w_ev_tail := t, w_ev_head := h\<rparr>)"
  by (simp_all add: same_frame_def)

lemma same_frame_geometry:
  assumes "same_frame w w'"
  shows "w_used w' = w_used w" and "w_id w' = w_id w" and "covers x y w' = covers x y w" and "w_visible w' = w_visible w"
    and "w_z w' = w_z w" and "wm_focus_id m = wm_focus_id m' \<or> w_id w \<noteq> wm_focus_id m \<and> w_id w \<noteq> wm_focus_id m' \<Longrightarrow>
      window_colour m' mem w' x y = window_colour m mem w x y"
proof -
  note e = assms [unfolded same_frame_def]
  have f: "w_used w' = w_used w" "w_id w' = w_id w" "w_visible w' = w_visible w" "w_x w' = w_x w" "w_y w' = w_y w" "w_w w' = w_w w"
    "w_h w' = w_h w" "w_z w' = w_z w" "w_has_image w' = w_has_image w" "w_image_w w' = w_image_w w" "w_image_h w' = w_image_h w"
    "w_image_pixels w' = w_image_pixels w"
    using arg_cong [OF e, of w_used] arg_cong [OF e, of w_id] arg_cong [OF e, of w_visible] arg_cong [OF e, of w_x] arg_cong [OF e, of w_y] arg_cong [OF e, of w_w]
      arg_cong [OF e, of w_h] arg_cong [OF e, of w_z] arg_cong [OF e, of w_has_image] arg_cong [OF e, of w_image_w] arg_cong [OF e, of w_image_h] arg_cong [OF e, of w_image_pixels] by simp_all
  show "w_used w' = w_used w" "w_id w' = w_id w" "covers x y w' = covers x y w" "w_visible w' = w_visible w" "w_z w' = w_z w"
    using f by (simp_all add: covers_def)
  show "wm_focus_id m = wm_focus_id m' \<or> w_id w \<noteq> wm_focus_id m \<and> w_id w \<noteq> wm_focus_id m' \<Longrightarrow>
      window_colour m' mem w' x y = window_colour m mem w x y"
    using f by (auto simp: window_colour_def in_image_def image_addr_def)
qed

text \<open>The picture of a pixel that no changed window covers, before or after, does not change.\<close>

definition on_window :: "wm \<Rightarrow> int \<Rightarrow> int \<Rightarrow> nat \<Rightarrow> bool" where
  "on_window m x y i \<longleftrightarrow> w_used (win i m) \<and> covers x y (win i m)"

lemma top_loop_skip:
  assumes "\<And>i. i \<in> set is \<Longrightarrow> same_frame (win i m) (win i m') \<or> \<not> on_window m x y i \<and> \<not> on_window m' x y i"
  shows "top_loop m' x y ig is best bz = top_loop m x y ig is best bz"
  using assms
proof (induction "is" arbitrary: best bz)
  case (Cons i xs)
  have "candidate m' x y ig i \<and> bz < w_z (win i m') \<longleftrightarrow> candidate m x y ig i \<and> bz < w_z (win i m)"
    and "candidate m x y ig i \<Longrightarrow> w_z (win i m') = w_z (win i m)"
    using Cons.prems [of i] same_frame_geometry [of "win i m" "win i m'"] by (auto simp: candidate_def on_window_def)
  then show ?case
    using Cons unfolding top_loop_step by auto
qed simp

lemma top_loop_cand: "top_loop m x y ig is best bz = Some i \<Longrightarrow> best = Some i \<or> candidate m x y ig i"
proof (induction "is" arbitrary: best bz)
  case (Cons a xs)
  then show ?case
    unfolding top_loop_step by (auto split: if_splits)
qed simp

lemma top_at_on_window: "wm_top_at x y ig m = Some i \<Longrightarrow> on_window m x y i"
  using top_loop_cand [of m x y ig "[0..<WM_MAX_WINDOWS]" None "-1" i] by (simp add: wm_top_at_def candidate_def on_window_def)

lemma picture_skip:
  assumes "\<And>i. i < WM_MAX_WINDOWS \<Longrightarrow> same_frame (win i m) (win i m') \<and> (w_id (win i m) = wm_focus_id m' \<longleftrightarrow> w_id (win i m) = wm_focus_id m)
      \<or> \<not> on_window m x y i \<and> \<not> on_window m' x y i"
    and "wm_cursor_x m' = wm_cursor_x m" and "wm_cursor_y m' = wm_cursor_y m"
  shows "picture m' mem x y = picture m mem x y"
proof -
  have "wm_top_at x y 0 m' = wm_top_at x y 0 m"
    unfolding wm_top_at_def by (rule top_loop_skip) (use assms(1) in auto)
  moreover have "window_colour m' mem (win i m') x y = window_colour m mem (win i m) x y" if "wm_top_at x y 0 m = Some i" for i
    using assms(1) [OF top_at_less [OF that]] top_at_on_window [OF that] same_frame_geometry(6) [of "win i m" "win i m'" m m' mem x y]
    by auto
  ultimately show ?thesis
    using assms(2,3) by (simp add: picture_def under_cursor_def split: option.split)
qed

lemma redraws_change:
  assumes "wm_screen_w m' = wm_screen_w m" and "wm_screen_h m' = wm_screen_h m" and "wm_gpu_ready m' = wm_gpu_ready m"
    and "wm_cursor_x m' = wm_cursor_x m" and "wm_cursor_y m' = wm_cursor_y m"
    and "\<And>x y. on_screen (wm_screen_w m) (wm_screen_h m) x y \<Longrightarrow> damaged m x y \<Longrightarrow> damaged m' x y"
    and "\<And>i x y. i < WM_MAX_WINDOWS \<Longrightarrow> on_screen (wm_screen_w m) (wm_screen_h m) x y \<Longrightarrow> on_window m x y i \<or> on_window m' x y i \<Longrightarrow>
      \<not> (same_frame (win i m) (win i m') \<and> (w_id (win i m) = wm_focus_id m' \<longleftrightarrow> w_id (win i m) = wm_focus_id m)) \<Longrightarrow> damaged m' x y"
  shows "redraws m m'"
proof -
  have "picture m' mem x y = picture m mem x y" if "on_screen (wm_screen_w m) (wm_screen_h m) x y" "\<not> damaged m' x y" for x y mem
    by (rule picture_skip) (use assms(4,5) assms(7) [OF _ that(1)] that in blast)+
  then show ?thesis
    using assms by (auto simp: redraws_def)
qed

lemma set_win_other [simp]:
  shows "wm_cursor_x (set_win i x m) = wm_cursor_x m" and "wm_cursor_y (set_win i x m) = wm_cursor_y m"
    and "damaged (set_win i x m) = damaged m"
  by (simp_all add: set_win_def damaged_def fun_eq_iff)

lemma damaged_other [simp]:
  shows "damaged (m\<lparr>wm_event_tick := k\<rparr>) = damaged m" and "damaged (m\<lparr>wm_focus_id := i\<rparr>) = damaged m"
    and "damaged (m\<lparr>wm_next_z := i\<rparr>) = damaged m"
  by (simp_all add: damaged_def fun_eq_iff)

text \<open>A window that is marked before and after a change of it.\<close>

lemma redraws_set_win:
  assumes "length (wm_windows m) = WM_MAX_WINDOWS" and "j < WM_MAX_WINDOWS" and "w_used w"
    and "w_used (win j m) \<longrightarrow> m0 = wm_mark_dirty_window (Some j) m \<or> (\<forall>x y. covers x y w = covers x y (win j m))"
    and "m0 = m \<or> m0 = wm_mark_dirty_window (Some j) m"
  shows "redraws m (wm_mark_dirty_window (Some j) (set_win j w m0))"
proof (rule redraws_change)
  have k: "wm_windows m0 = wm_windows m" "wm_screen_w m0 = wm_screen_w m" "wm_screen_h m0 = wm_screen_h m"
    "wm_gpu_ready m0 = wm_gpu_ready m" "wm_cursor_x m0 = wm_cursor_x m" "wm_cursor_y m0 = wm_cursor_y m" "wm_focus_id m0 = wm_focus_id m"
    using assms(5) by auto
  let ?m1 = "set_win j w m0" and ?m2 = "wm_mark_dirty_window (Some j) (set_win j w m0)"
  have win: "win i ?m2 = (if i = j then w else win i m)" for i
    using assms(1,2) k by (simp add: win_def)
  show "wm_screen_w ?m2 = wm_screen_w m" "wm_screen_h ?m2 = wm_screen_h m" "wm_gpu_ready ?m2 = wm_gpu_ready m"
    "wm_cursor_x ?m2 = wm_cursor_x m" "wm_cursor_y ?m2 = wm_cursor_y m"
    using k by simp_all
  fix x y assume s: "on_screen (wm_screen_w m) (wm_screen_h m) x y"
  have s1: "on_screen (wm_screen_w ?m1) (wm_screen_h ?m1) x y"
    using s k by simp
  show d: "damaged ?m2 x y" if "damaged m x y"
    using that damaged_mark_window(1) [OF s] assms(5) damaged_mark_window(1) [OF s1] by auto
  fix i assume i: "i < WM_MAX_WINDOWS" and on: "on_window m x y i \<or> on_window ?m2 x y i"
    and ne: "\<not> (same_frame (win i m) (win i ?m2) \<and> (w_id (win i m) = wm_focus_id ?m2) = (w_id (win i m) = wm_focus_id m))"
  have "i = j"
    using ne win [of i] k(7) by (auto split: if_splits)
  then consider "covers x y w" | "w_used (win j m)" "covers x y (win j m)" "m0 = wm_mark_dirty_window (Some j) m"
    using on win [of j] assms(4) by (auto simp: on_window_def)
  then show "damaged ?m2 x y"
  proof cases
    case 1
    then show ?thesis
      using damaged_mark_window(2) [OF s1, of "Some j" j] assms(1-3) k by (simp add: win_def)
  next
    case 2
    then have "damaged m0 x y"
      using damaged_mark_window(2) [OF s] by simp
    then show ?thesis
      using damaged_mark_window(1) [OF s1] by simp
  qed
qed

section \<open>The operations\<close>

lemma inv_length: "wm_inv m \<Longrightarrow> length (wm_windows m) = WM_MAX_WINDOWS"
  by (simp add: wm_inv_def windows_ok_def)

lemma move_redraws:
  assumes "wm_inv m"
  shows "redraws m (snd (wm_move i x y m))" and "redraws m (snd (wm_resize i x y m))"
  using wm_find_Some [OF assms] inv_length [OF assms]
  by (auto simp: wm_move_def wm_resize_def Let_def intro!: redraws_set_win redraws_refl split: option.split)

lemma store_text_geometry [simp]:
  "covers x y (store_text s w) = covers x y w" "covers x y (store_title s w) = covers x y w"
  by (simp_all add: covers_def store_text_def store_title_def Let_def)

lemma store_used [simp]: "w_used (store_text s w) = w_used w" "w_used (store_title s w) = w_used w"
  by (simp_all add: store_text_def store_title_def Let_def)

lemma set_text_redraws:
  assumes "wm_inv m"
  shows "redraws m (snd (wm_set_text i s m))"
  using wm_find_Some [OF assms] inv_length [OF assms]
  by (auto simp: wm_set_text_def intro!: redraws_set_win redraws_refl split: option.split)

lemma redraws_counters: "redraws m (m\<lparr>wm_next_id := a, wm_next_z := b\<rparr>)"
  using picture_cong [of "m\<lparr>wm_next_id := a, wm_next_z := b\<rparr>" m] by (simp add: redraws_def damaged_def win_def)

lemma create_redraws:
  assumes "wm_inv m" and "wm_create title w h m = Inr (r, m')"
  shows "redraws m m'"
proof (cases "first_idx (\<lambda>x. \<not> w_used x) (wm_windows m)")
  case None
  then show ?thesis
    using assms by (simp add: wm_create_def redraws_refl)
next
  case (Some slot)
  have s: "slot < WM_MAX_WINDOWS" "\<not> w_used (wm_windows m ! slot)"
    using first_idx_SomeD [OF Some] inv_length [OF assms(1)] by auto
  let ?m = "m\<lparr>wm_next_id := wm_next_id m + 1, wm_next_z := wm_next_z m + 1\<rparr>"
  obtain x where m': "m' = wm_mark_dirty_taskbar (wm_mark_dirty_window (Some slot) (set_win slot x ?m))" and x: "w_used x"
    using assms(2) Some by (auto simp: wm_create_def Let_def kbind_Inr_iff)
  have "redraws m ?m"
    by (rule redraws_counters)
  also have "redraws ?m (wm_mark_dirty_window (Some slot) (set_win slot x ?m))"
    by (rule redraws_set_win) (use s x inv_length [OF assms(1)] in \<open>simp_all add: win_def\<close>)
  also have "redraws \<dots> m'"
    unfolding m' by (rule redraws_marks)
  finally show ?thesis .
qed

lemma cursor_redraws: "redraws m (wm_cursor_move dx dy m)"
  unfolding wm_cursor_move_def by (rule redraws_full) simp_all

text \<open>An event changes only the ring of one window.\<close>

definition queued :: "nat \<Rightarrow> wm \<Rightarrow> wm \<Rightarrow> bool" where
  "queued i m m' \<longleftrightarrow> m' = m \<or> (\<exists>w' k. same_frame (win i m) w' \<and> m' = set_win i w' (m\<lparr>wm_event_tick := k\<rparr>))"

lemma queued_intros: "queued i m m" "same_frame (win i m) w' \<Longrightarrow> queued i m (set_win i w' (m\<lparr>wm_event_tick := k\<rparr>))"
  by (auto simp: queued_def)

lemma queue_event_queued: "queued i m (wm_queue_event (Some i) ty wid a b c d m)"
  unfolding wm_queue_event_def option.case Let_def
  by (simp add: queued_intros)

lemma queued_keeps:
  assumes "queued i m m'" and "i < length (wm_windows m)"
  shows "same_frame (win k m) (win k m')" and "k \<noteq> i \<Longrightarrow> win k m' = win k m" and "length (wm_windows m') = length (wm_windows m)"
    and "wm_screen_w m' = wm_screen_w m" and "wm_screen_h m' = wm_screen_h m" and "wm_gpu_ready m' = wm_gpu_ready m"
    and "wm_cursor_x m' = wm_cursor_x m" and "wm_cursor_y m' = wm_cursor_y m" and "damaged m' = damaged m" and "wm_focus_id m' = wm_focus_id m"
  using assms by (auto simp: queued_def win_def nth_list_update)

lemma poll_event_redraws:
  assumes "wm_inv m"
  shows "redraws m (snd (wm_poll_event i m))"
proof (cases "wm_find i m")
  case (Some j)
  note f = wm_find_Some [OF assms Some]
  define m' where "m' = snd (wm_poll_event i m)"
  have "queued j m (set_win j ((win j m)\<lparr>w_ev_head := h\<rparr>) (m\<lparr>wm_event_tick := wm_event_tick m\<rparr>))" for h
    by (rule queued_intros) simp
  then have "queued j m m'"
    using Some by (auto simp: m'_def wm_poll_event_def Let_def queued_intros(1))
  note k = queued_keeps [OF this, unfolded inv_length [OF assms], OF f(1)]
  show ?thesis
    unfolding m'_def [symmetric] by (rule redraws_change) (use k in auto)
qed (simp add: wm_poll_event_def redraws_refl)

lemma focus_event_queued:
  fixes ty
  assumes "length (wm_windows m) = WM_MAX_WINDOWS" and "\<And>i. p = Some i \<Longrightarrow> i < WM_MAX_WINDOWS"
  defines "m' \<equiv> focus_event ty p m"
  shows "same_frame (win k m) (win k m')" and "length (wm_windows m') = WM_MAX_WINDOWS" and "wm_screen_w m' = wm_screen_w m"
    and "wm_screen_h m' = wm_screen_h m" and "wm_gpu_ready m' = wm_gpu_ready m"
    and "wm_cursor_x m' = wm_cursor_x m" and "wm_cursor_y m' = wm_cursor_y m" and "damaged m' = damaged m" and "wm_focus_id m' = wm_focus_id m"
proof -
  note k = queued_keeps [OF queue_event_queued, unfolded assms(1)]
  show "same_frame (win k m) (win k m')" "length (wm_windows m') = WM_MAX_WINDOWS" "wm_screen_w m' = wm_screen_w m"
    "wm_screen_h m' = wm_screen_h m" "wm_gpu_ready m' = wm_gpu_ready m" "wm_cursor_x m' = wm_cursor_x m" "wm_cursor_y m' = wm_cursor_y m"
    "damaged m' = damaged m" "wm_focus_id m' = wm_focus_id m"
    using assms(1,2) k unfolding m'_def by (auto simp: focus_event_def split: option.split)
qed

lemma same_frame_trans: "same_frame a b \<Longrightarrow> same_frame b c \<Longrightarrow> same_frame a c"
  by (simp add: same_frame_def)

text \<open>Giving the focus to another window.\<close>

lemma set_focus_effect:
  assumes "wm_inv m" and "wm_set_focus_internal i m = (0, m')" and "wm_focus_id m \<noteq> i"
  shows "same_frame (win k m) (win k m')" and "wm_focus_id m' = i" and "wm_screen_w m' = wm_screen_w m" and "wm_screen_h m' = wm_screen_h m"
    and "wm_gpu_ready m' = wm_gpu_ready m" and "wm_cursor_x m' = wm_cursor_x m" and "wm_cursor_y m' = wm_cursor_y m"
    and "on_screen (wm_screen_w m) (wm_screen_h m) x y \<Longrightarrow> damaged m x y \<Longrightarrow> damaged m' x y"
    and "on_screen (wm_screen_w m) (wm_screen_h m) x y \<Longrightarrow> wm_find (wm_focus_id m) m = Some k \<or> wm_find i m = Some k \<Longrightarrow>
      on_window m x y k \<Longrightarrow> damaged m' x y"
proof -
  let ?old = "wm_find (wm_focus_id m) m" and ?new = "wm_find i m"
  define m1 where "m1 = focus_event WM_EV_FOCUS_OUT ?old (m\<lparr>wm_focus_id := i\<rparr>)"
  define m2 where "m2 = focus_event WM_EV_FOCUS_IN ?new m1"
  have m': "m' = wm_mark_dirty_window ?new (wm_mark_dirty_window ?old (wm_mark_dirty_taskbar m2))"
    using assms(2,3) by (auto simp: wm_set_focus_internal_def Let_def m1_def m2_def split: if_splits)
  have lt1: "?old = Some j \<Longrightarrow> j < WM_MAX_WINDOWS" and lt2: "?new = Some j \<Longrightarrow> j < WM_MAX_WINDOWS" for j
    using wm_find_Some(1) [OF assms(1)] by blast+
  have len: "length (wm_windows (m\<lparr>wm_focus_id := i\<rparr>)) = WM_MAX_WINDOWS"
    using inv_length [OF assms(1)] by simp
  note k1 = focus_event_queued [where ty = WM_EV_FOCUS_OUT and p = ?old, OF len lt1, folded m1_def]
  note k2 = focus_event_queued [where ty = WM_EV_FOCUS_IN and p = ?new, OF k1(2) lt2, folded m2_def]
  have sf: "same_frame (win j m) (win j m2)" for j
    using same_frame_trans [OF k1(1) k2(1)] by (simp add: win_def)
  show "same_frame (win k m) (win k m')" "wm_focus_id m' = i" "wm_screen_w m' = wm_screen_w m" "wm_screen_h m' = wm_screen_h m"
    "wm_gpu_ready m' = wm_gpu_ready m" "wm_cursor_x m' = wm_cursor_x m" "wm_cursor_y m' = wm_cursor_y m"
    using sf k1(2-) k2(2-) by (simp_all add: m')
  assume s: "on_screen (wm_screen_w m) (wm_screen_h m) x y"
  have sm: "on_screen (wm_screen_w m2) (wm_screen_h m2) x y" "damaged m2 = damaged m"
    using s k1(2-) k2(2-) by simp_all
  note dw = damaged_mark_window [of m2] damaged_mark_window [of "wm_mark_dirty_taskbar m2"]
    damaged_mark_window [of "wm_mark_dirty_window ?old (wm_mark_dirty_taskbar m2)"]
  show "damaged m' x y" if "damaged m x y"
    unfolding m' using that sm dw by simp
  show "damaged m' x y" if "?old = Some k \<or> ?new = Some k" "on_window m x y k"
  proof -
    have "w_used (win k m2)" "covers x y (win k m2)"
      using that(2) same_frame_geometry [OF sf [of k]] by (simp_all add: on_window_def)
    then show ?thesis
      unfolding m' using that(1) sm(1) dw(4-) by auto
  qed
qed

lemma wm_find_id:
  assumes "wm_inv m" and "j < WM_MAX_WINDOWS" and "w_used (win j m)"
  shows "wm_find (w_id (win j m)) m = Some j"
proof (cases "wm_find (w_id (win j m)) m")
  case None
  then show ?thesis
    using assms inv_length [OF assms(1)] unfolding wm_find_None win_def by (metis nth_mem)
next
  case (Some k)
  then show ?thesis
    using inv_used(4) [OF assms, of k] wm_find_Some [OF assms(1) Some] by simp
qed

text \<open>A window that is raised and gets the focus it did not have.\<close>

lemma focus_redraws:
  assumes "wm_inv m" and "wm_focus i m = (0, m')" and "wm_focus_id m \<noteq> i"
  shows "redraws m m'"
proof -
  obtain j where f: "wm_find i m = Some j"
    using assms(2) by (auto simp: wm_focus_def split: option.splits)
  note j = wm_find_Some [OF assms(1) f]
  define m1 where "m1 = (set_win j ((win j m)\<lparr>w_z := wm_next_z m\<rparr>) m)\<lparr>wm_next_z := wm_next_z m + 1\<rparr>"
  have s: "wm_set_focus_internal i m1 = (0, m')"
    using assms(2) f by (simp add: wm_focus_def Let_def m1_def)
  have win1: "win k m1 = (if k = j then (win j m)\<lparr>w_z := wm_next_z m\<rparr> else win k m)" for k
    using j(1) inv_length [OF assms(1)] by (simp add: m1_def win_def)
  have inv1: "wm_inv m1"
    unfolding m1_def by (rule raise_inv [OF assms(1) j(1,2)])
  have m1: "wm_focus_id m1 = wm_focus_id m" "wm_screen_w m1 = wm_screen_w m" "wm_screen_h m1 = wm_screen_h m" "wm_gpu_ready m1 = wm_gpu_ready m"
    "wm_cursor_x m1 = wm_cursor_x m" "wm_cursor_y m1 = wm_cursor_y m" "damaged m1 = damaged m"
    by (simp_all add: m1_def)
  have ne: "wm_focus_id m1 \<noteq> i"
    using assms(3) m1 by simp
  note e = set_focus_effect [OF inv1 s ne]
  have on1: "on_window m1 x y k = on_window m x y k" "on_window m' x y k = on_window m x y k" for x y k
    using same_frame_geometry [OF e(1) [where k = k]] win1 [of k] by (auto simp: on_window_def covers_def)
  show ?thesis
  proof (rule redraws_change)
    show "wm_screen_w m' = wm_screen_w m" "wm_screen_h m' = wm_screen_h m" "wm_gpu_ready m' = wm_gpu_ready m"
      "wm_cursor_x m' = wm_cursor_x m" "wm_cursor_y m' = wm_cursor_y m"
      using e m1 by simp_all
    fix x y assume sc: "on_screen (wm_screen_w m) (wm_screen_h m) x y"
    show "damaged m' x y" if "damaged m x y"
      using that e(8) sc m1 by simp
    fix k assume k: "k < WM_MAX_WINDOWS" and on: "on_window m x y k \<or> on_window m' x y k"
      and ch: "\<not> (same_frame (win k m) (win k m') \<and> (w_id (win k m) = wm_focus_id m') = (w_id (win k m) = wm_focus_id m))"
    have on': "on_window m1 x y k" "w_used (win k m1)"
      using on on1 by (auto simp: on_window_def)
    have "k = j \<or> w_id (win k m1) = i \<or> w_id (win k m1) = wm_focus_id m1"
      using ch e(1) [where k = k] e(2) win1 [of k] m1 by auto
    then have "wm_find (wm_focus_id m1) m1 = Some k \<or> wm_find i m1 = Some k"
      using wm_find_id [OF inv1 k on'(2)] win1 [of k] j(3) by auto
    then show "damaged m' x y"
      using e(9) [where x = x and y = y and k = k] sc m1 on'(1) by simp
  qed
qed

section \<open>Input\<close>

lemma focus_keeps:
  assumes "wm_inv m"
  shows "wm_screen_w (snd (wm_focus i m)) = wm_screen_w m" and "wm_screen_h (snd (wm_focus i m)) = wm_screen_h m"
    and "wm_gpu_ready (snd (wm_focus i m)) = wm_gpu_ready m"
proof -
  have "wm_screen_w m' = wm_screen_w m \<and> wm_screen_h m' = wm_screen_h m \<and> wm_gpu_ready m' = wm_gpu_ready m"
    if "wm_focus i m = (r, m')" for r m'
  proof (cases "wm_find i m")
    case (Some j)
    note j = wm_find_Some [OF assms Some]
    let ?m1 = "(set_win j ((win j m)\<lparr>w_z := wm_next_z m\<rparr>) m)\<lparr>wm_next_z := wm_next_z m + 1\<rparr>"
    have s: "wm_set_focus_internal i ?m1 = (r, m')"
      using that Some by (simp add: wm_focus_def Let_def)
    then consider "m' = ?m1" | "r = 0" "wm_focus_id ?m1 \<noteq> i"
      by (auto simp: wm_set_focus_internal_def Let_def split: if_splits)
    then show ?thesis
      using set_focus_effect(3-5) [OF raise_inv [OF assms j(1,2)], of i m'] s by cases auto
  qed (use that in \<open>simp add: wm_focus_def\<close>)
  then show "wm_screen_w (snd (wm_focus i m)) = wm_screen_w m" "wm_screen_h (snd (wm_focus i m)) = wm_screen_h m"
    "wm_gpu_ready (snd (wm_focus i m)) = wm_gpu_ready m"
    by (metis prod.collapse)+
qed

text \<open>Input that changes anything reports it.\<close>

definition reported :: "bool \<times> wm \<Rightarrow> bool \<times> wm \<Rightarrow> bool" where
  "reported cm cm' \<longleftrightarrow> wm_screen_w (snd cm') = wm_screen_w (snd cm) \<and> wm_screen_h (snd cm') = wm_screen_h (snd cm) \<and>
     wm_gpu_ready (snd cm') = wm_gpu_ready (snd cm) \<and> (\<not> fst cm' \<longrightarrow> cm' = cm)"

lemma mouse_event_reported:
  assumes "wm_inv m"
  shows "reported (c, m) (wm_mouse_event ev (c, m))"
proof -
  have i: "wm_inv (m\<lparr>wm_cursor_x := a\<rparr>)" "wm_inv (m\<lparr>wm_cursor_y := a\<rparr>)" for a
    using assms by (simp_all add: wm_inv_def)
  show ?thesis
    using focus_keeps [OF assms]
    by (cases "ie_type ev = 2") (auto simp: reported_def wm_mouse_event_def Let_def split: option.split)
qed

lemma mouse_loop_reported:
  assumes "wm_mouse_loop e cm vd = Some r" and "wm_inv (snd cm)"
  shows "reported cm (fst r)"
proof -
  have "wm_inv (snd cm) \<longrightarrow> reported cm (fst r)"
  proof (rule wm_mouse_loop.raw_induct [OF _ assms(1), where P = "\<lambda>e cm vd r. wm_inv (snd cm) \<longrightarrow> reported cm (fst r)"], intro impI)
    fix f :: "'a ienv \<Rightarrow> bool \<times> wm \<Rightarrow> vinput \<times> 'a \<Rightarrow> ((bool \<times> wm) \<times> vinput \<times> 'a) option" and e cm vd r
    assume IH: "\<And>e cm vd r. f e cm vd = Some r \<Longrightarrow> wm_inv (snd cm) \<longrightarrow> reported cm (fst r)"
      and r: "(case virtio_input_next_event e vd of (None, vd) \<Rightarrow> Some (cm, vd) | (Some ev, vd) \<Rightarrow> f e (wm_mouse_event ev cm) vd) = Some r"
      and i: "wm_inv (snd cm)"
    have step: "wm_inv (snd (wm_mouse_event ev cm))" "reported cm (wm_mouse_event ev cm)" for ev
      using mouse_event_inv [of "snd cm" ev "fst cm"] mouse_event_reported [OF i, of "fst cm" ev] i by simp_all
    have "reported cm (fst r)" if "f e (wm_mouse_event ev cm) vd' = Some r" for ev vd'
      using IH [OF that] step [of ev] unfolding reported_def by metis
    then show "reported cm (fst r)"
      using r by (auto simp: reported_def split: prod.splits option.splits)
  qed
  then show ?thesis
    using assms(2) by simp
qed

lemma poll_mouse_redraws:
  assumes "wm_inv m" and "wm_poll_mouse_input ie m vd = Some (c, m', vd')"
  shows "redraws m m'"
proof -
  obtain m1 where l: "wm_mouse_loop ie (False, m) vd = Some ((c, m1), vd')" and m': "m' = (if c then wm_mark_dirty_full m1 else m1)"
    using assms(2) by (auto simp: wm_poll_mouse_input_def split: option.splits)
  have "reported (False, m) (c, m1)"
    using mouse_loop_reported [OF l] assms(1) by simp
  then show ?thesis
    by (auto simp: m' reported_def intro: redraws_full redraws_refl)
qed

section \<open>Redrawing\<close>

inductive wm_edit :: "'d ienv \<Rightarrow> wm \<Rightarrow> wm \<Rightarrow> bool" for ie where
  create: "wm_create title w h m = Inr (r, m') \<Longrightarrow> wm_edit ie m m'"
| move: "wm_edit ie m (snd (wm_move i x y m))"
| resize: "wm_edit ie m (snd (wm_resize i w h m))"
| focus: "wm_focus i m = (0, m') \<Longrightarrow> wm_focus_id m \<noteq> i \<Longrightarrow> wm_edit ie m m'"
| set_text: "wm_edit ie m (snd (wm_set_text i txt m))"
| cursor: "wm_edit ie m (wm_cursor_move dx dy m)"
| poll_event: "wm_edit ie m (snd (wm_poll_event i m))"
| poll_mouse: "wm_poll_mouse_input ie m vd = Some (c, m', vd') \<Longrightarrow> wm_edit ie m m'"

lemma edit_redraws:
  assumes "wm_edit ie m m'" and "wm_inv m"
  shows "wm_inv m' \<and> redraws m m'"
  using assms
proof cases
  case (focus i)
  then show ?thesis
    using focus_inv [OF assms(2), of i] focus_redraws [OF assms(2)] by simp
qed (use assms(2) in \<open>auto intro: op_inv create_redraws move_redraws set_text_redraws cursor_redraws poll_event_redraws poll_mouse_redraws\<close>)

lemma edits_redraw: "(wm_edit ie)\<^sup>*\<^sup>* m m' \<Longrightarrow> wm_inv m \<Longrightarrow> wm_inv m' \<and> redraws m m'"
  by (induction rule: rtranclp_induct) (auto simp: redraws_refl dest: edit_redraws intro: redraws_trans)

lemma picture_outside:
  assumes "images_apart fb W H m" and "same_outside fb W H mem mem'"
  shows "picture m mem' x y = picture m mem x y"
proof -
  have "window_colour m mem' (win i m) x y = window_colour m mem (win i m) x y" if "wm_top_at x y 0 m = Some i" for i
    using window_colour_outside [OF _ assms(2), of "win i m"] assms(1) top_at_less [OF that] top_at_on_window [OF that]
    by (auto simp: images_apart_def on_window_def)
  then show ?thesis
    by (simp add: picture_def split: option.split)
qed

text \<open>The screen shows the picture everywhere except in the damaged rectangle.\<close>

definition shows_picture :: "wm \<Rightarrow> 'd gsys \<Rightarrow> bool" where
  "shows_picture m s \<longleftrightarrow> (\<forall>x y. on_screen (wm_screen_w m) (wm_screen_h m) x y \<and> \<not> damaged m x y \<longrightarrow>
     pixel (virtio_gpu_backbuffer (gg s)) (wm_screen_w m) (pmem (gpu_pa s)) x y = opaque (picture m (pmem (gpu_pa s)) x y))"


text \<open>A window is moved on a screen that is damaged everywhere.\<close>

lemma demo_move_win: "w_has_image (win i (snd (wm_move 1 20 20 demo_wm))) = 0" if "i < WM_MAX_WINDOWS"
proof -
  have f: "wm_find 1 demo_wm = Some 0"
    by (simp add: wm_find_def demo_wm_def demo_window_def)
  have z: "w_has_image (win i demo_wm) = 0"
    using that by (simp add: win_def demo_wm_def demo_nth) (simp add: demo_window_def zero_window_def)
  have "length (wm_windows demo_wm) = 8"
    by (simp add: demo_wm_def)
  then show ?thesis
    using z by (cases "i = 0") (simp_all add: wm_move_def f Let_def win_set_win win_def)
qed


section \<open>Text and images\<close>

text \<open>
  Setting a text of fewer than 4096 bytes makes the image of the window disappear: \<^verbatim>\<open>strncpy\<close> pads one byte past
  the text, which is the low byte of \<^verbatim>\<open>has_image\<close>. Identity, place, size and depth of the window stay.
\<close>

theorem wm_set_text_drops_image:
  assumes "wm_inv m" and "wm_find i m = Some j" and "length s < WM_TEXT_MAX" and "w_has_image (win j m) = 1"
  shows "fst (wm_set_text i s m) = 0 \<and> w_has_image (win j (snd (wm_set_text i s m))) = 0 \<and>
    (\<forall>x y. covers x y (win j (snd (wm_set_text i s m))) = covers x y (win j m)) \<and>
    w_id (win j (snd (wm_set_text i s m))) = i \<and> w_z (win j (snd (wm_set_text i s m))) = w_z (win j m)"
proof -
  have w: "win j (snd (wm_set_text i s m)) = store_text s (win j m)"
    using assms(2) wm_find_Some(1) [OF assms(1,2)] inv_length [OF assms(1)] by (simp add: wm_set_text_def win_set_win)
  have "strncpy_bytes s WM_TEXT_MAX ! WM_TEXT_MAX = 0" "WM_TEXT_MAX < length (strncpy_bytes s WM_TEXT_MAX)"
    using assms(3) by (simp_all add: strncpy_bytes_def nth_append)
  then have "w_has_image (store_text s (win j m)) = 0"
    using assms(4) by (simp add: store_text_def Let_def)
  then show ?thesis
    using w assms(2) wm_find_Some(3,4) [OF assms(1,2)] by (simp add: wm_set_text_def window_ok_store_text)
qed

theorem wm_set_text_drops_image_witness:
  "w_has_image (win 0 (snd (wm_set_text 1 [] (set_win 0 (demo_window\<lparr>w_has_image := 1\<rparr>) demo_wm)))) = 0"
proof -
  let ?m = "set_win 0 (demo_window\<lparr>w_has_image := 1\<rparr>) demo_wm"
  have w0: "win 0 demo_wm = demo_window"
    by (simp add: win_def demo_wm_def)
  have i: "wm_inv ?m"
    by (rule inv_update [OF demo_wm_inv]) (use window_ok_demo in \<open>simp_all add: w0 window_ok_def\<close>)
  have f: "wm_find 1 ?m = Some 0"
    by (simp add: wm_find_def demo_wm_def demo_window_def)
  have h: "w_has_image (win 0 ?m) = 1"
    by (simp add: win_set_win demo_wm_def)
  show ?thesis
    using wm_set_text_drops_image [OF i f _ h, of "[]"] by simp
qed

end
