(* ===== verification/User_Util.thy ===== *)
theory User_Util
  imports Console Bytes
begin

text \<open>
  The helpers of the shell, \<^verbatim>\<open>kernel/apps/user_util.c\<close>. A string that is only read is the list of its bytes before
  the terminator; a buffer that is written is the list of all its bytes, and reading or writing outside it is
  undefined, as is signed overflow. \<^verbatim>\<open>str_len\<close> and \<^verbatim>\<open>str_eq\<close> exist in the file system too; here the one
  returns a signed integer and the other accepts null pointers.
\<close>

section \<open>Strings\<close>

fun app_str_len :: "cstr \<Rightarrow> int" where
  "app_str_len [] = 0"
| "app_str_len (_ # s) = 1 + app_str_len s"

fun copy_lim_loop :: "u8 list \<Rightarrow> cstr \<Rightarrow> nat \<Rightarrow> int \<Rightarrow> u8 list kres" where
  "copy_lim_loop dst [] i mx = put_bytes dst i [0]"
| "copy_lim_loop dst (c # src) i mx =
     (if int i < mx - 1 then kbind (put_bytes dst i [c]) (\<lambda>dst. copy_lim_loop dst src (i + 1) mx)
      else put_bytes dst i [0])"

definition str_copy_lim :: "u8 list \<Rightarrow> cstr \<Rightarrow> int \<Rightarrow> u8 list kres" where
  "str_copy_lim dst src mx = (if mx \<le> 0 then Inr dst else copy_lim_loop dst src 0 mx)"

definition app_str_eq :: "cstr option \<Rightarrow> cstr option \<Rightarrow> bool" where
  "app_str_eq a b =
     (case (a, b) of
        (Some a, Some b) \<Rightarrow> str_eq a b
      | (None, None) \<Rightarrow> True
      | _ \<Rightarrow> False)"

definition ascii_lower :: "u8 \<Rightarrow> u8" where
  "ascii_lower c = (if 0x41 \<le> c \<and> c \<le> 0x5a then c + (0x61 - 0x41) else c)"

fun ends_loop :: "cstr \<Rightarrow> cstr \<Rightarrow> bool" where
  "ends_loop [] suffix = True"
| "ends_loop (c # s) suffix =
     (if ascii_lower c \<noteq> ascii_lower (case suffix of [] \<Rightarrow> 0 | d # _ \<Rightarrow> d) then False else ends_loop s (tl suffix))"

definition str_ends_with_ci :: "cstr \<Rightarrow> cstr \<Rightarrow> bool" where
  "str_ends_with_ci s suffix =
     (let slen = app_str_len s; sulen = app_str_len suffix in
      if slen < sulen then False else ends_loop (drop (nat (slen - sulen)) s) suffix)"

text \<open>\<open>None\<close> is the result \<open>-1\<close>; otherwise the number stored through \<^verbatim>\<open>out\<close>.\<close>

fun to_int_loop :: "cstr \<Rightarrow> int \<Rightarrow> int option kres" where
  "to_int_loop [] val = Inr (Some val)"
| "to_int_loop (c # s) val =
     (if c < 0x30 \<or> 0x39 < c then Inr None
      else
        let val = val * 10 + (uint c - 0x30)
        in if 2 ^ 31 \<le> val then Inl Undefined_behaviour else to_int_loop s val)"

definition str_to_int :: "cstr \<Rightarrow> int option kres" where
  "str_to_int s =
     (let (sign, s) = (if s \<noteq> [] \<and> hd s = 0x2d then (-1, tl s) else (1, s)) in
      if s = [] then Inr None
      else kbind (to_int_loop s 0) (\<lambda>r. Inr (map_option (\<lambda>val. val * sign) r)))"

section \<open>Splitting a line\<close>

text \<open>
  The line is cut in place. An argument is the offset of its first byte; its string ends at the next
  terminator of the buffer.
\<close>

definition is_blank :: "u8 \<Rightarrow> bool" where
  "is_blank c \<longleftrightarrow> c = 0x20 \<or> c = 9 \<or> c = 10 \<or> c = 13"

function skip_blanks :: "u8 list \<Rightarrow> nat \<Rightarrow> (u8 list \<times> nat) kres" where
  "skip_blanks b i =
     (if length b \<le> i then Inl Undefined_behaviour
      else if b ! i \<noteq> 0 \<and> is_blank (b ! i) then skip_blanks (b[i := 0]) (i + 1)
      else Inr (b, i))"
  by pat_completeness auto
termination
  by (relation "measure (\<lambda>(b, i). length b - i)") auto

function skip_word :: "u8 list \<Rightarrow> nat \<Rightarrow> nat kres" where
  "skip_word b i =
     (if length b \<le> i then Inl Undefined_behaviour
      else if b ! i \<noteq> 0 \<and> \<not> is_blank (b ! i) then skip_word b (i + 1)
      else Inr i)"
  by pat_completeness auto
termination
  by (relation "measure (\<lambda>(b, i). length b - i)") auto

declare skip_blanks.simps [simp del] skip_word.simps [simp del]

function split_loop :: "nat \<Rightarrow> u8 list \<Rightarrow> nat \<Rightarrow> nat list \<Rightarrow> (nat list \<times> u8 list) kres" where
  "split_loop max_args line i argv =
     (if length line \<le> i then Inl Undefined_behaviour
      else if line ! i \<noteq> 0 \<and> length argv < max_args then
        kbind (skip_blanks line i) (\<lambda>(line, i).
          if line ! i = 0 then Inr (argv, line)
          else kbind (skip_word line i) (\<lambda>j. split_loop max_args line j (argv @ [i])))
      else Inr (argv, line))"
  by pat_completeness auto
termination
  by (relation "measure (\<lambda>(m, b, i, argv). m - length argv)") auto

declare split_loop.simps [simp del]

definition split_args :: "u8 list \<Rightarrow> nat \<Rightarrow> (nat list \<times> u8 list) kres" where
  "split_args line max_args = split_loop max_args line 0 []"

text \<open>The string at an offset of a buffer.\<close>

definition str_at :: "u8 list \<Rightarrow> nat \<Rightarrow> cstr kres" where
  "str_at b i = (if 0 \<in> set (drop i b) then Inr (takeWhile (\<lambda>c. c \<noteq> 0) (drop i b)) else Inl Undefined_behaviour)"

section \<open>Numbers\<close>

text \<open>The digits in the order in which they are stored, lowest first.\<close>

fun dec_rev :: "nat \<Rightarrow> u8 list" where
  "dec_rev v = (if 0 < v then (0x30 + of_nat (v mod 10)) # dec_rev (v div 10) else [])"

declare dec_rev.simps [simp del]

definition put_dec :: "int \<Rightarrow> console \<Rightarrow> console kres" where
  "put_dec v c =
     (if v = - (2 ^ 31) then Inl Undefined_behaviour
      else
        let (v, c) = (if v < 0 then (- v, putchar 0x2d c) else (v, c)) in
        if v = 0 then Inr (putchar 0x30 c)
        else let buf = dec_rev (nat v) in if 16 < length buf then Inl Undefined_behaviour else Inr (put_str (rev buf) c))"

section \<open>The history of lines\<close>

abbreviation SHELL_MAX_LINE :: nat where "SHELL_MAX_LINE \<equiv> 128"
abbreviation SHELL_MAX_ARGS :: nat where "SHELL_MAX_ARGS \<equiv> 12"
abbreviation HIST_MAX :: nat where "HIST_MAX \<equiv> 16"
abbreviation HIST_LINE_MAX :: nat where "HIST_LINE_MAX \<equiv> SHELL_MAX_LINE"

record shell_history =
  h_count :: nat
  h_next :: nat
  h_browse_pos :: int
  h_entries :: "u8 list list"
  h_scratch :: "u8 list"
  h_scratch_valid :: bool

definition history_init :: "shell_history \<Rightarrow> shell_history" where
  "history_init h = h\<lparr>h_count := 0, h_next := 0, h_browse_pos := -1, h_scratch_valid := False\<rparr>"

definition history_cancel :: "shell_history \<Rightarrow> shell_history" where
  "history_cancel h = h\<lparr>h_browse_pos := -1, h_scratch_valid := False\<rparr>"

text \<open>The string in an entry; the calls return a pointer to it, here its bytes.\<close>

definition entry_str :: "shell_history \<Rightarrow> nat \<Rightarrow> cstr kres" where
  "entry_str h i = str_at (h_entries h ! i) 0"

definition history_prev :: "shell_history \<Rightarrow> cstr \<Rightarrow> (cstr option \<times> shell_history) kres" where
  "history_prev h cur =
     (if h_count h = 0 then Inr (None, h)
      else
        kbind
          (if h_browse_pos h < 0 then
             kbind (str_copy_lim (h_scratch h) cur (int HIST_LINE_MAX)) (\<lambda>b.
               Inr (h\<lparr>h_scratch := b, h_scratch_valid := True,
                 h_browse_pos := int ((h_next h + h_count h - 1) mod HIST_MAX)\<rparr>))
           else
             let oldest = (if h_count h = HIST_MAX then h_next h else 0) in
             if h_browse_pos h = int oldest then Inr h
             else Inr (h\<lparr>h_browse_pos := (h_browse_pos h + int HIST_MAX - 1) mod int HIST_MAX\<rparr>))
          (\<lambda>h. kbind (entry_str h (nat (h_browse_pos h))) (\<lambda>s. Inr (Some s, h))))"

definition history_next :: "shell_history \<Rightarrow> (cstr option \<times> shell_history) kres" where
  "history_next h =
     (if h_browse_pos h < 0 then Inr (None, h)
      else
        let last = (int (h_next h) + int (h_count h) - 1) mod int HIST_MAX in
        if h_browse_pos h = last then
          let h = h\<lparr>h_browse_pos := -1\<rparr>
          in if h_scratch_valid h then kbind (str_at (h_scratch h) 0) (\<lambda>s. Inr (Some s, h)) else Inr (Some [], h)
        else
          let h = h\<lparr>h_browse_pos := (h_browse_pos h + 1) mod int HIST_MAX\<rparr>
          in kbind (entry_str h (nat (h_browse_pos h))) (\<lambda>s. Inr (Some s, h)))"

text \<open>
  With no entry at all \<^verbatim>\<open>prev\<close> is \<open>-1 % 16\<close>, that is \<open>-1\<close>, when \<^verbatim>\<open>next\<close> is 0; it is not used then.
\<close>

definition history_push :: "shell_history \<Rightarrow> cstr option \<Rightarrow> shell_history kres" where
  "history_push h line =
     (case line of
        None \<Rightarrow> Inr h
      | Some l \<Rightarrow>
          if l = [] then Inr h
          else
            kbind (if 0 < h_count h then kbind (entry_str h ((h_next h + h_count h - 1) mod HIST_MAX)) (\<lambda>s. Inr (str_eq s l))
                   else Inr False) (\<lambda>same.
              if same then Inr h
              else
                kbind (str_copy_lim (h_entries h ! h_next h) l (int HIST_LINE_MAX)) (\<lambda>b.
                  let h = h\<lparr>h_entries := (h_entries h)[h_next h := b], h_next := (h_next h + 1) mod HIST_MAX\<rparr>;
                      h = (if h_count h < HIST_MAX then h\<lparr>h_count := h_count h + 1\<rparr> else h)
                  in Inr (h\<lparr>h_browse_pos := -1, h_scratch_valid := False\<rparr>))))"

section \<open>The text buffer\<close>

abbreviation TEXTBUF_MAX :: nat where "TEXTBUF_MAX \<equiv> 4096"

definition append_char :: "u8 \<Rightarrow> nat \<times> u8 list \<Rightarrow> (nat \<times> u8 list) kres" where
  "append_char c = (\<lambda>(pos, b).
     if pos < TEXTBUF_MAX - 1 then
       kbind (put_bytes b pos [c]) (\<lambda>b. kbind (put_bytes b (pos + 1) [0]) (\<lambda>b. Inr (pos + 1, b)))
     else Inr (pos, b))"

fun append_str :: "cstr \<Rightarrow> nat \<times> u8 list \<Rightarrow> (nat \<times> u8 list) kres" where
  "append_str [] pb = Inr pb"
| "append_str (c # s) pb = kbind (append_char c pb) (append_str s)"

definition append_dec :: "int \<Rightarrow> nat \<times> u8 list \<Rightarrow> (nat \<times> u8 list) kres" where
  "append_dec v pb =
     (if v = - (2 ^ 31) then Inl Undefined_behaviour
      else
        kbind (if v < 0 then append_char 0x2d pb else Inr pb) (\<lambda>pb.
          let v = \<bar>v\<bar> in
          if v = 0 then append_char 0x30 pb
          else let buf = dec_rev (nat v) in if 16 < length buf then Inl Undefined_behaviour else append_str (rev buf) pb))"

end
