(* ===== verification/Shell.thy ===== *)
theory Shell
  imports Trap User_Util Wm
begin

text \<open>
  The shell: \<^verbatim>\<open>user_init.c\<close>, \<^verbatim>\<open>user_fm.c\<close> and \<^verbatim>\<open>user_img.c\<close> of \<^verbatim>\<open>kernel/apps\<close>, and \<^verbatim>\<open>read_file_all\<close> of
  \<^verbatim>\<open>user_util.c\<close>. The shell is a kernel thread; it calls the file system, the window manager, the event queue and the console
  directly (\<^verbatim>\<open>user_app.h\<close> defines its calls as these functions). The address of a buffer of the shell is
  some non-null constant, its contents are a field of the state. An array is the list of its elements; an
  access is written as an update of the list where the code checks the index, and as \<open>put_bytes\<close>, which is
  undefined outside the array, where it does not. \<^verbatim>\<open>sbi_shutdown\<close> does not return.
\<close>

section \<open>State\<close>

abbreviation FM_NAME_MAX :: nat where "FM_NAME_MAX \<equiv> 64"
abbreviation FILE_DB_MAX :: nat where "FILE_DB_MAX \<equiv> 64"
abbreviation INPUT_Q_CAP :: nat where "INPUT_Q_CAP \<equiv> 16"
abbreviation IOBUF_SIZE :: nat where "IOBUF_SIZE \<equiv> 1024"
abbreviation APP_BUF :: u32 where "APP_BUF \<equiv> 1"

record file_manager =
  fm_active :: bool
  fm_win_id :: int
  fm_selected :: int
  fm_count :: int
  fm_rename_mode :: int
  fm_rename_len :: int
  fm_names :: "u8 list list"
  fm_preview :: "u8 list"
  fm_status :: "u8 list"
  fm_rename_buf :: "u8 list"

record 'd shell =
  sm :: "'d machine"
  swm :: wm
  g_line :: "u8 list"
  g_iobuf :: "u8 list"
  g_main_win :: int
  g_hist :: shell_history
  g_fm :: file_manager
  g_file_db :: "u8 list list"
  g_file_db_count :: nat
  g_term_view :: "u8 list"
  g_term_view_len :: nat
  g_input_q :: "u8 list"
  g_input_q_head :: nat
  g_input_q_tail :: nat
  g_input_shift :: bool

definition sk :: "'d shell \<Rightarrow> 'd kernel" where
  "sk s = mk (sm s)"

definition set_sk :: "'d kernel \<Rightarrow> 'd shell \<Rightarrow> 'd shell" where
  "set_sk K s = s\<lparr>sm := (sm s)\<lparr>mk := K\<rparr>\<rparr>"

section \<open>Calls of the kernel\<close>

definition u_putchar :: "u8 \<Rightarrow> 'd shell \<Rightarrow> 'd shell" where
  "u_putchar c s = set_sk ((sk s)\<lparr>kcon := putchar c (kcon (sk s))\<rparr>) s"

fun u_puts :: "cstr \<Rightarrow> 'd shell \<Rightarrow> 'd shell" where
  "u_puts [] s = s"
| "u_puts (c # cs) s = u_puts cs (u_putchar c s)"

definition u_open :: "cstr \<Rightarrow> u32 \<Rightarrow> 'd shell \<Rightarrow> (int \<times> 'd shell) kres" where
  "u_open path flags s =
     kbind (kfds (sk s)) (\<lambda>tbl.
       let (fd, tbl, f) = fs_open path flags tbl (kfs (sk s)) in Inr (fd, set_sk (set_kfds tbl ((sk s)\<lparr>kfs := f\<rparr>)) s))"

definition u_close :: "int \<Rightarrow> 'd shell \<Rightarrow> (int \<times> 'd shell) kres" where
  "u_close fd s =
     kbind (kfds (sk s)) (\<lambda>tbl. let (rc, tbl) = fs_close fd tbl in Inr (rc, set_sk (set_kfds tbl (sk s)) s))"

definition app_store :: "nat \<Rightarrow> u32 \<Rightarrow> u8 list \<Rightarrow> u8 list \<Rightarrow> u8 list kres" where
  "app_store off a bs m = put_bytes m off bs"

definition app_load :: "u32 \<Rightarrow> nat \<Rightarrow> u8 list \<Rightarrow> (u8 list \<times> u8 list) kres" where
  "app_load a n m = (if n \<le> length m then Inr (take n m, m) else Inl Undefined_behaviour)"

text \<open>Reading into a buffer from an offset on; writing the first bytes of a buffer.\<close>

definition u_read :: "'d menv \<Rightarrow> int \<Rightarrow> u8 list \<Rightarrow> nat \<Rightarrow> int \<Rightarrow> 'd shell \<Rightarrow> (int \<times> u8 list \<times> 'd shell) kres" where
  "u_read E fd buf off len s =
     kbind (kfds (sk s)) (\<lambda>tbl.
     kbind (fs_read (kblk (menv_k E)) (app_store off) fd (APP_BUF + of_nat off) (of_int len) buf tbl (kfs (sk s))) (\<lambda>(n, buf, tbl, f).
       Inr (n, buf, set_sk (set_kfds tbl ((sk s)\<lparr>kfs := f\<rparr>)) s)))"

definition u_write :: "int \<Rightarrow> u8 list \<Rightarrow> int \<Rightarrow> 'd shell \<Rightarrow> (int \<times> 'd shell) kres" where
  "u_write fd buf len s =
     kbind (kfds (sk s)) (\<lambda>tbl.
     kbind (fs_write app_load fd APP_BUF (of_int len) buf tbl (kfs (sk s))) (\<lambda>(n, _, tbl, f).
       Inr (n, set_sk (set_kfds tbl ((sk s)\<lparr>kfs := f\<rparr>)) s)))"

definition u_unlink :: "cstr \<Rightarrow> 'd shell \<Rightarrow> int \<times> 'd shell" where
  "u_unlink path s =
     (let S = ksys (sk s); ps = procs (tab S);
          (rc, tbls, f) = fs_unlink path (map fds ps) (kfs (sk s))
      in (rc, set_sk (set_ksys (S\<lparr>tab := (tab S)\<lparr>procs := set_all_fds tbls ps\<rparr>\<rparr>) ((sk s)\<lparr>kfs := f\<rparr>)) s))"

definition u_listdir :: "u8 list \<Rightarrow> nat \<Rightarrow> 'd shell \<Rightarrow> (int \<times> u8 list) kres" where
  "u_listdir buf len s =
     (let (n, bs) = fs_listdir APP_BUF (of_nat len) (kfs (sk s)) in kbind (put_bytes buf 0 bs) (\<lambda>buf. Inr (n, buf)))"

definition u_wm_render :: "'d menv \<Rightarrow> 'd shell \<Rightarrow> 'd shell kres" where
  "u_wm_render E s =
     kbind (wm_render (kgenv (menv_k E)) (swm s, kg (sk s))) (\<lambda>(m, g). Inr (set_sk ((sk s)\<lparr>kg := g\<rparr>) (s\<lparr>swm := m\<rparr>)))"

definition u_wm_create :: "cstr \<Rightarrow> int \<Rightarrow> int \<Rightarrow> 'd shell \<Rightarrow> (int \<times> 'd shell) kres" where
  "u_wm_create title w h s = kbind (wm_create (Some title) w h (swm s)) (\<lambda>(i, m). Inr (i, s\<lparr>swm := m\<rparr>))"

definition u_wm_set_text :: "int \<Rightarrow> cstr \<Rightarrow> 'd shell \<Rightarrow> 'd shell" where
  "u_wm_set_text i txt s = s\<lparr>swm := snd (wm_set_text i txt (swm s))\<rparr>"

definition u_wm_focus :: "int \<Rightarrow> 'd shell \<Rightarrow> int \<times> 'd shell" where
  "u_wm_focus i s = (let (rc, m) = wm_focus i (swm s) in (rc, s\<lparr>swm := m\<rparr>))"

definition app_kevent_pop :: "'d shell \<Rightarrow> (int \<times> k_event option \<times> 'd shell) kres" where
  "app_kevent_pop s =
     (let S = ksys (sk s) in
      kbind (kevent_pop True (khart S) (kevs (sk s))) (\<lambda>(rc, ev, h, q).
        Inr (rc, ev, set_sk (set_ksys (S\<lparr>khart := h\<rparr>) ((sk s)\<lparr>kevs := q\<rparr>)) s)))"

text \<open>The event that \<^verbatim>\<open>u_event_poll\<close> stores has the members of the kernel's event.\<close>

definition u_event_poll :: "'d shell \<Rightarrow> (int \<times> k_event option \<times> 'd shell) kres" where
  "u_event_poll s =
     kbind (app_kevent_pop s) (\<lambda>(rc, ev, s). if rc \<le> 0 then Inr (rc, None, s) else Inr (1, ev, s))"

section \<open>Keyboard input\<close>

definition input_q_push :: "u8 \<Rightarrow> 'd shell \<Rightarrow> 'd shell" where
  "input_q_push ch s =
     (let nxt = (g_input_q_tail s + 1) mod INPUT_Q_CAP in
      if nxt = g_input_q_head s then s
      else s\<lparr>g_input_q := (g_input_q s)[g_input_q_tail s := ch], g_input_q_tail := nxt\<rparr>)"

definition input_q_pop :: "'d shell \<Rightarrow> int \<times> 'd shell" where
  "input_q_pop s =
     (if g_input_q_head s = g_input_q_tail s then (-1, s)
      else (uint (g_input_q s ! g_input_q_head s), s\<lparr>g_input_q_head := (g_input_q_head s + 1) mod INPUT_Q_CAP\<rparr>))"

text \<open>The code of a key with its character with and without shift.\<close>

definition key_table :: "(u16 \<times> u8 \<times> u8) list" where
  "key_table =
   [(30, 65, 97), (48, 66, 98), (46, 67, 99), (32, 68, 100), (18, 69, 101), (33, 70, 102), (34, 71, 103),
    (35, 72, 104), (23, 73, 105), (36, 74, 106), (37, 75, 107), (38, 76, 108), (50, 77, 109), (49, 78, 110),
    (24, 79, 111), (25, 80, 112), (16, 81, 113), (19, 82, 114), (31, 83, 115), (20, 84, 116), (22, 85, 117),
    (47, 86, 118), (17, 87, 119), (45, 88, 120), (21, 89, 121), (44, 90, 122), (2, 33, 49), (3, 64, 50),
    (4, 35, 51), (5, 36, 52), (6, 37, 53), (7, 94, 54), (8, 38, 55), (9, 42, 56), (10, 40, 57), (11, 41, 48),
    (12, 95, 45), (13, 43, 61), (57, 32, 32), (15, 9, 9), (28, 10, 10), (14, 8, 8), (51, 60, 44),
    (52, 62, 46), (53, 63, 47), (39, 58, 59), (40, 34, 39), (26, 123, 91), (27, 125, 93), (43, 124, 92),
    (41, 126, 96)]"

definition map_key_ascii :: "u16 \<Rightarrow> bool \<Rightarrow> u8" where
  "map_key_ascii code shift =
     (case map_of key_table code of None \<Rightarrow> 0 | Some (upper, lower) \<Rightarrow> if shift then upper else lower)"

abbreviation VI_EV_KEY :: u16 where "VI_EV_KEY \<equiv> 1"
abbreviation VI_KEY_LEFTSHIFT :: u16 where "VI_KEY_LEFTSHIFT \<equiv> 42"
abbreviation VI_KEY_RIGHTSHIFT :: u16 where "VI_KEY_RIGHTSHIFT \<equiv> 54"
abbreviation VI_KEY_UP :: u16 where "VI_KEY_UP \<equiv> 103"
abbreviation VI_KEY_DOWN :: u16 where "VI_KEY_DOWN \<equiv> 108"

text \<open>One event inside the loop of \<^verbatim>\<open>u_getchar\<close>.\<close>

definition input_event :: "k_event \<Rightarrow> 'd shell \<Rightarrow> 'd shell" where
  "input_event kev s =
     (if ev_type kev \<noteq> KEVENT_TYPE_INPUT then s
      else
        let ty = ucast (ev_a kev) :: u16; code = ucast (ev_b kev) :: u16; val = ev_c kev in
        if ty \<noteq> VI_EV_KEY then s
        else if code = VI_KEY_LEFTSHIFT \<or> code = VI_KEY_RIGHTSHIFT then s\<lparr>g_input_shift := (val \<noteq> 0)\<rparr>
        else if val = 0 then s
        else if code = VI_KEY_UP then input_q_push 0x41 (input_q_push 0x5b (input_q_push 27 s))
        else if code = VI_KEY_DOWN then input_q_push 0x42 (input_q_push 0x5b (input_q_push 27 s))
        else let a = map_key_ascii code (g_input_shift s) in if a \<noteq> 0 then input_q_push a s else s)"

fun input_loop :: "nat \<Rightarrow> 'd shell \<Rightarrow> 'd shell kres" where
  "input_loop 0 s = Inr s"
| "input_loop (Suc n) s =
     kbind (app_kevent_pop s) (\<lambda>(rc, ev, s).
       if rc \<le> 0 then Inr s else input_loop n (case ev of None \<Rightarrow> s | Some kev \<Rightarrow> input_event kev s))"

definition u_getchar :: "'d menv \<Rightarrow> 'd shell \<Rightarrow> (int \<times> 'd shell) kres" where
  "u_getchar E s =
     (let (ch, s) = input_q_pop s in
      if 0 \<le> ch then Inr (ch, s)
      else
        kbind (input_loop 32 s) (\<lambda>s.
          let (ch, s) = input_q_pop s in
          if 0 \<le> ch then Inr (ch, s)
          else kbind (getchar (ksbi (menv_k E)) (kcon (sk s))) (\<lambda>(ch, c). Inr (ch, set_sk ((sk s)\<lparr>kcon := c\<rparr>) s))))"

section \<open>The terminal window\<close>

definition term_view_sync :: "'d shell \<Rightarrow> 'd shell kres" where
  "term_view_sync s =
     (if 0 < g_main_win s then kbind (str_at (g_term_view s) 0) (\<lambda>txt. Inr (u_wm_set_text (g_main_win s) txt s))
      else Inr s)"

definition term_view_append_char :: "u8 \<Rightarrow> 'd shell \<Rightarrow> 'd shell" where
  "term_view_append_char c s =
     (let n = g_term_view_len s in
      if WM_TEXT_MAX \<le> n + 1 then s
      else s\<lparr>g_term_view := (g_term_view s)[n := c, n + 1 := 0], g_term_view_len := n + 1\<rparr>)"

fun term_view_append :: "cstr \<Rightarrow> 'd shell \<Rightarrow> 'd shell" where
  "term_view_append [] s = s"
| "term_view_append (c # cs) s = term_view_append cs (term_view_append_char c s)"

definition term_view_backspace :: "'d shell \<Rightarrow> 'd shell" where
  "term_view_backspace s =
     (let n = g_term_view_len s in
      if n = 0 then s
      else if g_term_view s ! (n - 1) = 10 then s
      else s\<lparr>g_term_view := (g_term_view s)[n - 1 := 0], g_term_view_len := n - 1\<rparr>)"

definition term_view_reset :: "'d shell \<Rightarrow> 'd shell kres" where
  "term_view_reset s =
     (let s = s\<lparr>g_term_view_len := 0, g_term_view := (g_term_view s)[0 := 0]\<rparr>;
          s = term_view_append (lit ''kernel:shell integrated (S-mode)'' @ [10]) s;
          s = term_view_append (lit ''k> '') s
      in term_view_sync s)"

section \<open>The table of files\<close>

fun filedb_find :: "u8 list list \<Rightarrow> cstr \<Rightarrow> nat option kres" where
  "filedb_find [] path = Inr None"
| "filedb_find (b # bs) path =
     kbind (str_at b 0) (\<lambda>e.
       if str_eq e path then Inr (Some 0) else kbind (filedb_find bs path) (\<lambda>r. Inr (map_option Suc r)))"

definition filedb_add :: "cstr \<Rightarrow> 'd shell \<Rightarrow> 'd shell kres" where
  "filedb_add path s =
     kbind (filedb_find (take (g_file_db_count s) (g_file_db s)) path) (\<lambda>r.
       if r \<noteq> None then Inr s
       else if FILE_DB_MAX \<le> g_file_db_count s then Inr s
       else
         let n = g_file_db_count s in
         kbind (str_copy_lim (g_file_db s ! n) path (int FM_NAME_MAX)) (\<lambda>b.
           Inr (s\<lparr>g_file_db_count := n + 1, g_file_db := (g_file_db s)[n := b]\<rparr>)))"

fun filedb_shift :: "nat list \<Rightarrow> u8 list list \<Rightarrow> u8 list list kres" where
  "filedb_shift [] db = Inr db"
| "filedb_shift (j # js) db =
     kbind (str_at (db ! (j + 1)) 0) (\<lambda>e.
     kbind (str_copy_lim (db ! j) e (int FM_NAME_MAX)) (\<lambda>b. filedb_shift js (db[j := b])))"

definition filedb_remove :: "cstr \<Rightarrow> 'd shell \<Rightarrow> 'd shell kres" where
  "filedb_remove path s =
     kbind (filedb_find (take (g_file_db_count s) (g_file_db s)) path) (\<lambda>r.
       case r of
         None \<Rightarrow> Inr s
       | Some i \<Rightarrow>
           kbind (filedb_shift [i..<g_file_db_count s - 1] (g_file_db s)) (\<lambda>db.
             Inr (s\<lparr>g_file_db := db, g_file_db_count := g_file_db_count s - 1\<rparr>)))"

definition filedb_rename :: "cstr \<Rightarrow> cstr \<Rightarrow> 'd shell \<Rightarrow> 'd shell kres" where
  "filedb_rename old_path new_path s =
     kbind (filedb_find (take (g_file_db_count s) (g_file_db s)) old_path) (\<lambda>r.
       case r of
         None \<Rightarrow> Inr s
       | Some i \<Rightarrow>
           kbind (str_copy_lim (g_file_db s ! i) new_path (int FM_NAME_MAX)) (\<lambda>b. Inr (s\<lparr>g_file_db := (g_file_db s)[i := b]\<rparr>)))"

section \<open>The file manager and the image viewer\<close>

definition fm_run :: "'d menv \<Rightarrow> 'd shell \<Rightarrow> 'd shell kres" where
  "fm_run E s =
     (let (rc, s) = (if fm_active (g_fm s) then u_wm_focus (fm_win_id (g_fm s)) s else (-1, s)) in
      if 0 \<le> rc then Inr s
      else
        kbind (u_wm_create (lit ''FileManager'') 400 300 s) (\<lambda>(i, s).
          let s = s\<lparr>g_fm := (g_fm s)\<lparr>fm_active := True, fm_win_id := i\<rparr>\<rparr>;
              s = u_wm_set_text i (lit ''File Manager (Direct Kernel Access)'' @ [10] @ lit ''Click to select files.'') s
          in u_wm_render E s))"

definition img_open_path :: "'d menv \<Rightarrow> cstr \<Rightarrow> 'd shell \<Rightarrow> (int \<times> 'd shell) kres" where
  "img_open_path E path s =
     kbind (u_wm_create (lit ''ImageViewer'') 320 240 s) (\<lambda>(i, s).
       if i < 0 then Inr (-1, s) else kbind (u_wm_render E (u_wm_set_text i path s)) (\<lambda>s. Inr (i, s)))"

section \<open>Commands\<close>

definition shell_help :: "'d shell \<Rightarrow> 'd shell" where
  "shell_help s = u_puts (lit ''commands: help, ls, cat, touch, write, rm, gui, img, fm, shutdown'' @ [10]) s"

definition shell_touch :: "cstr \<Rightarrow> 'd shell \<Rightarrow> 'd shell kres" where
  "shell_touch path s =
     kbind (u_open path (O_CREAT OR O_RDWR) s) (\<lambda>(fd, s).
       if fd < 0 then Inr (u_puts (lit ''touch: fail'' @ [10]) s)
       else kbind (u_close fd s) (\<lambda>(_, s). filedb_add path s))"

definition shell_ls :: "'d shell \<Rightarrow> 'd shell kres" where
  "shell_ls s =
     kbind (u_listdir (g_iobuf s) IOBUF_SIZE s) (\<lambda>(n, buf).
       let s = s\<lparr>g_iobuf := buf\<rparr> in
       if n < 0 then Inr (u_puts (lit ''ls: fail'' @ [10]) s)
       else Inr (fold u_putchar (take (nat n) (g_iobuf s)) s))"

text \<open>The loop of \<^verbatim>\<open>shell_cat\<close>; \<open>None\<close> when it never ends.\<close>

partial_function (option) cat_loop :: "'d menv \<Rightarrow> int \<Rightarrow> 'd shell \<Rightarrow> 'd shell kres option" where
  "cat_loop E fd s =
     (case u_read E fd (g_iobuf s) 0 (int IOBUF_SIZE) s of
        Inl e \<Rightarrow> Some (Inl e)
      | Inr (n, buf, s) \<Rightarrow>
          if n \<le> 0 then Some (Inr (s\<lparr>g_iobuf := buf\<rparr>))
          else cat_loop E fd (fold u_putchar (take (nat n) buf) (s\<lparr>g_iobuf := buf\<rparr>)))"

definition obind :: "'a kres option \<Rightarrow> ('a \<Rightarrow> 'b kres option) \<Rightarrow> 'b kres option" where
  "obind m f = (case m of None \<Rightarrow> None | Some (Inl e) \<Rightarrow> Some (Inl e) | Some (Inr x) \<Rightarrow> f x)"

definition shell_cat :: "'d menv \<Rightarrow> cstr \<Rightarrow> 'd shell \<Rightarrow> 'd shell kres option" where
  "shell_cat E path s =
     obind (Some (u_open path O_RDONLY s)) (\<lambda>(fd, s).
       if fd < 0 then Some (Inr (u_puts (lit ''cat: fail'' @ [10]) s))
       else obind (cat_loop E fd s) (\<lambda>s. Some (kbind (u_close fd s) (\<lambda>(_, s). Inr (u_putchar 10 s)))))"

definition shell_rm :: "cstr \<Rightarrow> 'd shell \<Rightarrow> 'd shell kres" where
  "shell_rm path s =
     (let (rc, s) = u_unlink path s in if rc < 0 then Inr (u_puts (lit ''rm: fail'' @ [10]) s) else filedb_remove path s)"

fun write_args :: "int \<Rightarrow> bool \<Rightarrow> cstr list \<Rightarrow> 'd shell \<Rightarrow> 'd shell kres" where
  "write_args fd first [] s = Inr s"
| "write_args fd first (w # ws) s =
     kbind (if first then Inr (0, s) else u_write fd [0x20] 1 s) (\<lambda>(_, s).
     kbind (u_write fd w (app_str_len w) s) (\<lambda>(_, s). write_args fd False ws s))"

definition shell_write :: "cstr \<Rightarrow> cstr list \<Rightarrow> 'd shell \<Rightarrow> 'd shell kres" where
  "shell_write path argv s =
     kbind (u_open path (O_CREAT OR O_TRUNC OR O_WRONLY) s) (\<lambda>(fd, s).
       if fd < 0 then Inr (u_puts (lit ''write: fail'' @ [10]) s)
       else
         kbind (write_args fd True (drop 2 argv) s) (\<lambda>s.
         kbind (u_close fd s) (\<lambda>(_, s). filedb_add path s)))"

definition shell_fm :: "'d menv \<Rightarrow> 'd shell \<Rightarrow> 'd shell kres" where
  "shell_fm E s = fm_run E s"

definition shell_img :: "'d menv \<Rightarrow> cstr \<Rightarrow> 'd shell \<Rightarrow> 'd shell kres" where
  "shell_img E path s =
     kbind (img_open_path E path s) (\<lambda>(rc, s). Inr (if rc < 0 then u_puts (lit ''img: fail'' @ [10]) s else s))"

definition shell_gui :: "'d menv \<Rightarrow> 'd shell \<Rightarrow> 'd shell kres" where
  "shell_gui E s =
     kbind (if g_main_win s \<le> 0 then kbind (u_wm_create (lit ''terminal'') 520 300 s) (\<lambda>(i, s). Inr (s\<lparr>g_main_win := i\<rparr>))
            else Inr s) (u_wm_render E)"

text \<open>The flag tells whether the machine was switched off.\<close>

definition run_command :: "'d menv \<Rightarrow> cstr list \<Rightarrow> 'd shell \<Rightarrow> (bool \<times> 'd shell) kres option" where
  "run_command E argv s =
     (let on = (\<lambda>r. Some (kbind r (\<lambda>s. Inr (False, s))));
          usage = (\<lambda>txt. Some (Inr (False, u_puts (lit txt @ [10]) s)));
          argc = length argv
      in
      if argc = 0 then Some (Inr (False, s))
      else if str_eq (argv ! 0) (lit ''help'') then Some (Inr (False, shell_help s))
      else if str_eq (argv ! 0) (lit ''ls'') then on (shell_ls s)
      else if str_eq (argv ! 0) (lit ''cat'') then
        if 1 < argc then obind (shell_cat E (argv ! 1) s) (\<lambda>s. Some (Inr (False, s))) else usage ''usage: cat <path>''
      else if str_eq (argv ! 0) (lit ''touch'') then
        if 1 < argc then on (shell_touch (argv ! 1) s) else usage ''usage: touch <path>''
      else if str_eq (argv ! 0) (lit ''gui'') then on (shell_gui E s)
      else if str_eq (argv ! 0) (lit ''write'') then
        if 2 < argc then on (shell_write (argv ! 1) argv s) else usage ''usage: write <path> <text>''
      else if str_eq (argv ! 0) (lit ''img'') then
        if 1 < argc then on (shell_img E (argv ! 1) s) else usage ''usage: img <path>''
      else if str_eq (argv ! 0) (lit ''fm'') then on (shell_fm E s)
      else if str_eq (argv ! 0) (lit ''rm'') then
        if 1 < argc then on (shell_rm (argv ! 1) s) else usage ''usage: rm <path>''
      else if str_eq (argv ! 0) (lit ''shutdown'') then Some (Inr (True, s))
      else usage ''unknown command'')"

section \<open>Reading a file\<close>

function read_all_loop :: "'d menv \<Rightarrow> int \<Rightarrow> int \<Rightarrow> int \<Rightarrow> u8 list \<Rightarrow> 'd shell \<Rightarrow> (int \<times> u8 list \<times> 'd shell) kres" where
  "read_all_loop E fd cap tot buf s =
     (if tot < cap then
        kbind (u_read E fd buf (nat tot) (cap - tot) s) (\<lambda>(n, buf, s).
          if n \<le> 0 then Inr (tot, buf, s) else read_all_loop E fd cap (tot + n) buf s)
      else Inr (tot, buf, s))"
  by pat_completeness auto
termination
  by (relation "measure (\<lambda>(E, fd, cap, tot, buf, s). nat (cap - tot))") auto

declare read_all_loop.simps [simp del]

definition read_file_all :: "'d menv \<Rightarrow> cstr \<Rightarrow> u8 list \<Rightarrow> int \<Rightarrow> 'd shell \<Rightarrow> (int \<times> u8 list \<times> 'd shell) kres" where
  "read_file_all E path buf cap s =
     kbind (u_open path O_RDONLY s) (\<lambda>(fd, s).
       if fd < 0 then Inr (-1, buf, s)
       else
         kbind (read_all_loop E fd cap 0 buf s) (\<lambda>(tot, buf, s).
         kbind (u_close fd s) (\<lambda>(_, s). Inr (tot, buf, s))))"

section \<open>The shell itself\<close>

text \<open>
  The local variable \<^verbatim>\<open>len\<close> of \<^verbatim>\<open>user_init_entry\<close> goes with the state. A pass of the loop ends before the next
  one, inside \<^verbatim>\<open>yield\<close>, or with the machine switched off.
\<close>

datatype 'd sh_outcome = Sh_next nat "'d shell" | Sh_yield nat "'d shell" | Sh_off "'d shell"

definition shell_start :: "'d menv \<Rightarrow> 'd shell \<Rightarrow> 'd shell kres" where
  "shell_start E s =
     (let s = u_puts (lit ''kernel:starting shell...'' @ [10]) s;
          s = s\<lparr>g_input_q_head := 0, g_input_q_tail := 0, g_input_shift := False\<rparr>;
          s = u_puts (lit ''shell: calling wm_init...'' @ [10]) s
      in
      kbind (wm_init (klayout (menv_k E)) (kgenv (menv_k E)) (swm s, kg (sk s))) (\<lambda>(m, g).
        let s = set_sk ((sk s)\<lparr>kg := g\<rparr>) (s\<lparr>swm := m\<rparr>);
            s = u_puts (lit ''shell: calling wm_input_init...'' @ [10]) s;
            (_, vi, d) = wm_input_init (menv_i E) (mvi (sm s), mdev (sm s));
            s = s\<lparr>sm := set_mdev d ((sm s)\<lparr>mvi := vi\<rparr>)\<rparr>;
            s = s\<lparr>g_term_view_len := 0, g_term_view := (g_term_view s)[0 := 0], g_hist := history_init (g_hist s),
                  g_file_db_count := 0\<rparr>;
            s = u_puts (lit ''shell: creating terminal window...'' @ [10]) s
        in
        kbind (u_wm_create (lit ''terminal'') 520 300 s) (\<lambda>(i, s).
          let s = s\<lparr>g_main_win := i\<rparr> in
          kbind (if 0 < i then kbind (term_view_reset s) (\<lambda>s. Inr (snd (u_wm_focus i s))) else Inr s) (\<lambda>s.
          kbind (u_wm_render E (u_puts (lit ''shell: performing initial render...'' @ [10]) s)) (\<lambda>s.
            Inr (u_puts (lit ''kernel> '') s))))))"

fun read_args :: "u8 list \<Rightarrow> nat list \<Rightarrow> cstr list kres" where
  "read_args line [] = Inr []"
| "read_args line (i # is) = kbind (str_at line i) (\<lambda>a. kbind (read_args line is) (\<lambda>as. Inr (a # as)))"

definition shell_enter :: "'d menv \<Rightarrow> nat \<Rightarrow> 'd shell \<Rightarrow> 'd sh_outcome kres option" where
  "shell_enter E len s =
     (let s = term_view_append [10] (u_putchar 10 s) in
      obind (Some (put_bytes (g_line s) len [0])) (\<lambda>line.
      obind (Some (split_args line SHELL_MAX_ARGS)) (\<lambda>(idx, line).
      obind (Some (read_args line idx)) (\<lambda>argv.
      obind (run_command E argv (s\<lparr>g_line := line\<rparr>)) (\<lambda>(off, s).
        if off then Some (Inr (Sh_off s))
        else Some (kbind (term_view_sync (term_view_append (lit ''k> '') (u_puts (lit ''k> '') s))) (\<lambda>s. Inr (Sh_next 0 s))))))))"

definition shell_key :: "'d menv \<Rightarrow> int \<Rightarrow> nat \<Rightarrow> 'd shell \<Rightarrow> 'd sh_outcome kres option" where
  "shell_key E ch len s =
     (if ch = 13 \<or> ch = 10 then shell_enter E len s
      else if ch = 8 \<or> ch = 127 then
        if 0 < len then
          Some (kbind (term_view_sync (term_view_backspace (u_puts [8, 0x20, 8] s))) (\<lambda>s. Inr (Sh_next (len - 1) s)))
        else Some (Inr (Sh_next len s))
      else if 32 \<le> ch \<and> ch \<le> 126 then
        if len + 1 < SHELL_MAX_LINE then
          let c = of_int ch; s = u_putchar c (s\<lparr>g_line := (g_line s)[len := c]\<rparr>)
          in Some (kbind (term_view_sync (term_view_append_char c s)) (\<lambda>s. Inr (Sh_next (len + 1) s)))
        else Some (Inr (Sh_next len s))
      else Some (Inr (Sh_next len s)))"

text \<open>One pass of the loop.\<close>

definition shell_step :: "'d menv \<Rightarrow> nat \<Rightarrow> 'd shell \<Rightarrow> 'd sh_outcome kres option" where
  "shell_step E len s =
     obind (Some (u_getchar E s)) (\<lambda>(ch, s).
       if ch < 0 then
         Some (kbind (sys_do_yield (ksys (sk s))) (\<lambda>S. Inr (Sh_yield len (set_sk (set_ksys S (sk s)) s))))
       else shell_key E ch len s)"

end
