(* ===== verification/User_Util_Spec.thy ===== *)
theory User_Util_Spec
  imports User_Util Console_Spec
begin

text \<open>
  The helpers of the shell: \<^verbatim>\<open>split_args\<close> cuts a line into its words, decimal output and input are inverse to each
  other, the history stays inside its buffers, and where browsing it starts.
\<close>

section \<open>Words of a line\<close>

text \<open>The words of a line; the last of \<open>n\<close> arguments is the rest of the line.\<close>

function line_words :: "cstr \<Rightarrow> cstr list" where
  "line_words xs =
     (let ys = dropWhile is_blank xs in
      if ys = [] then [] else takeWhile (\<lambda>c. \<not> is_blank c) ys # line_words (dropWhile (\<lambda>c. \<not> is_blank c) ys))"
  by pat_completeness auto

lemma dropWhile_word_less:
  assumes "dropWhile P xs \<noteq> []"
  shows "length (dropWhile (\<lambda>c. \<not> P c) (dropWhile P xs)) < length xs"
proof -
  obtain y ys where y: "dropWhile P xs = y # ys"
    using assms by (cases "dropWhile P xs") auto
  then have "\<not> P y"
    by (metis hd_dropWhile list.distinct(1) list.sel(1))
  moreover have "length (y # ys) \<le> length xs"
    by (metis y length_dropWhile_le)
  ultimately show ?thesis
    using y length_dropWhile_le [of "\<lambda>c. \<not> P c" ys] by simp
qed

termination line_words
  by (relation "measure length") (auto simp: dropWhile_word_less)

declare line_words.simps [simp del]

fun line_args :: "nat \<Rightarrow> cstr \<Rightarrow> cstr list" where
  "line_args 0 xs = []"
| "line_args (Suc n) xs =
     (let ys = dropWhile is_blank xs in
      if ys = [] then []
      else if n = 0 then [ys]
      else takeWhile (\<lambda>c. \<not> is_blank c) ys # line_args n (dropWhile (\<lambda>c. \<not> is_blank c) ys))"

lemma line_args_words: "length (line_words xs) < n \<Longrightarrow> line_args n xs = line_words xs"
proof (induction n xs rule: line_args.induct)
  case (2 n xs)
  show ?case
  proof (cases "dropWhile is_blank xs = []")
    case False
    then have w: "line_words xs = takeWhile (\<lambda>c. \<not> is_blank c) (dropWhile is_blank xs) #
        line_words (dropWhile (\<lambda>c. \<not> is_blank c) (dropWhile is_blank xs))"
      by (subst line_words.simps) (simp add: Let_def)
    show ?thesis
      using 2(1) [OF refl False] 2(2) False by (auto simp: w Let_def)
  qed (simp add: line_words.simps [of xs])
qed simp

lemma skip_blanks_spec:
  assumes "0 \<notin> set xs"
  shows "skip_blanks (pre @ xs @ 0 # rest) (length pre) =
    Inr (pre @ replicate (length (takeWhile is_blank xs)) 0 @ dropWhile is_blank xs @ 0 # rest,
      length pre + length (takeWhile is_blank xs))"
  using assms
proof (induction xs arbitrary: pre)
  case Nil
  then show ?case
    by (simp add: skip_blanks.simps)
next
  case (Cons x xs)
  show ?case
  proof (cases "is_blank x")
    case True
    have "skip_blanks (pre @ (x # xs) @ 0 # rest) (length pre) = skip_blanks ((pre @ [0]) @ xs @ 0 # rest) (length (pre @ [0]))"
      using True Cons.prems by (subst skip_blanks.simps) (simp add: list_update_append)
    then show ?thesis
      using True Cons.prems Cons.IH [of "pre @ [0]"] by simp
  next
    case False
    then show ?thesis
      by (simp add: skip_blanks.simps)
  qed
qed

lemma skip_word_spec:
  assumes "0 \<notin> set xs"
  shows "skip_word (pre @ xs @ 0 # rest) (length pre) = Inr (length pre + length (takeWhile (\<lambda>c. \<not> is_blank c) xs))"
  using assms
proof (induction xs arbitrary: pre)
  case Nil
  then show ?case
    by (simp add: skip_word.simps)
next
  case (Cons x xs)
  show ?case
  proof (cases "is_blank x")
    case False
    have "skip_word (pre @ (x # xs) @ 0 # rest) (length pre) = skip_word ((pre @ [x]) @ xs @ 0 # rest) (length (pre @ [x]))"
      using False Cons.prems by (subst skip_word.simps) simp
    then show ?thesis
      using False Cons.prems Cons.IH [of "pre @ [x]"] by simp
  qed (simp add: skip_word.simps)
qed

lemma str_at_append:
  assumes "0 \<notin> set w"
  shows "str_at (pre @ w @ 0 # rest) (length pre) = Inr w"
  using assms by (auto simp: str_at_def takeWhile_append)

text \<open>
  The state of the loop is the part \<open>pre\<close> of the buffer that is done and the rest \<open>xs\<close> of the line. What
  the loop leaves of the rest starts with a terminator when it starts with a blank and more arguments fit.
\<close>

definition split_post :: "nat \<Rightarrow> u8 list \<Rightarrow> cstr \<Rightarrow> u8 list \<Rightarrow> nat list \<Rightarrow> u8 list \<Rightarrow> bool" where
  "split_post k pre xs rest idx ys \<longleftrightarrow>
     length ys = length xs \<and>
     list_all2 (\<lambda>i a. length pre \<le> i \<and> str_at (pre @ ys @ 0 # rest) i = Inr a) idx (line_args k xs) \<and>
     (k = 0 \<longrightarrow> ys = xs) \<and> (0 < k \<longrightarrow> xs \<noteq> [] \<longrightarrow> is_blank (hd xs) \<longrightarrow> hd ys = 0)"

lemma split_loop_spec:
  assumes "0 \<notin> set xs"
  shows "\<exists>idx ys. split_loop n (pre @ xs @ 0 # rest) (length pre) argv = Inr (argv @ idx, pre @ ys @ 0 # rest) \<and>
    split_post (n - length argv) pre xs rest idx ys"
  using assms
proof (induction "n - length argv" arbitrary: xs pre argv)
  case 0
  then show ?case
    by (intro exI [of _ "[]"] exI [of _ xs]) (simp add: split_loop.simps split_post_def)
next
  case (Suc k)
  define z where "z = takeWhile is_blank xs"
  define ys where "ys = dropWhile is_blank xs"
  have xs: "xs = z @ ys" and z0: "0 \<notin> set ys"
    using Suc.prems by (auto simp: z_def ys_def dest: set_dropWhileD)
  have lt: "length argv < n"
    using Suc.hyps(2) by simp
  note sb = skip_blanks_spec [OF Suc.prems, of pre rest, folded z_def ys_def]
  show ?case
  proof (cases "xs = []")
    case True
    then show ?thesis
      using Suc.hyps(2) [symmetric] by (intro exI [of _ "[]"] exI [of _ "[]"]) (simp add: split_loop.simps split_post_def)
  next
    case False
    then have x0: "(pre @ xs @ 0 # rest) ! length pre \<noteq> 0"
      using Suc.prems by (cases xs) auto
    have hd0: "hd (replicate (length z) 0 @ t) = 0" if "is_blank (hd xs)" for t :: "u8 list"
      using that False by (cases xs) (simp_all add: z_def)
    show ?thesis
    proof (cases "ys = []")
      case True
      then have "split_loop n (pre @ xs @ 0 # rest) (length pre) argv = Inr (argv, pre @ replicate (length z) 0 @ 0 # rest)"
        using x0 lt sb by (subst split_loop.simps) (simp add: nth_append)
      moreover have "line_args (n - length argv) xs = []"
        using True Suc.hyps(2) [symmetric] by (simp add: ys_def)
      ultimately show ?thesis
        using True xs lt hd0 [of "[]"]
        by (intro exI [where x = "[]"] exI [where x = "replicate (length z) 0"] conjI) (simp_all add: split_post_def)
    next
      case ne: False
      define w where "w = takeWhile (\<lambda>c. \<not> is_blank c) ys"
      define r where "r = dropWhile (\<lambda>c. \<not> is_blank c) ys"
      have ys: "ys = w @ r" "0 \<notin> set r" "0 \<notin> set w"
        using z0 by (auto simp: w_def r_def dest: set_dropWhileD set_takeWhileD)
      have r: "r = [] \<or> is_blank (hd r)"
        using hd_dropWhile [of "\<lambda>c. \<not> is_blank c" ys] by (auto simp: r_def)
      let ?p = "pre @ replicate (length z) 0"
      have yn: "(?p @ ys @ 0 # rest) ! length ?p \<noteq> 0"
        using ne z0 by (cases ys) (auto simp: nth_append)
      have sw: "skip_word (?p @ ys @ 0 # rest) (length ?p) = Inr (length (?p @ w))"
        using skip_word_spec [OF z0, of ?p rest] by (simp add: w_def)
      have step: "split_loop n (pre @ xs @ 0 # rest) (length pre) argv =
          split_loop n ((?p @ w) @ r @ 0 # rest) (length (?p @ w)) (argv @ [length ?p])"
        using x0 lt sb yn sw by (subst split_loop.simps) (simp add: ys(1))
      have kn: "k = n - length (argv @ [length ?p])"
        using Suc.hyps(2) by simp
      obtain idx ys' where IH: "split_loop n ((?p @ w) @ r @ 0 # rest) (length (?p @ w)) (argv @ [length ?p]) =
            Inr ((argv @ [length ?p]) @ idx, (?p @ w) @ ys' @ 0 # rest)"
          "split_post k (?p @ w) r rest idx ys'"
        using Suc.hyps(1) [OF kn ys(2), of "?p @ w"] unfolding kn [symmetric] by blast
      have first: "str_at (?p @ (w @ ys') @ 0 # rest) (length ?p) = Inr (if k = 0 then ys else w)"
      proof (cases "k = 0 \<or> r = []")
        case True
        then have "w @ ys' = ys" "k \<noteq> 0 \<longrightarrow> ys = w"
          using IH(2) ys(1) by (auto simp: split_post_def)
        then show ?thesis
          using str_at_append [OF z0, of ?p rest] by auto
      next
        case False
        then have "ys' \<noteq> []" "hd ys' = 0"
          using IH(2) r by (auto simp: split_post_def)
        then show ?thesis
          using False str_at_append [OF ys(3), of ?p "tl ys' @ 0 # rest"] by (cases ys') auto
      qed
      have "line_args (n - length argv) xs = (if k = 0 then ys else w) # line_args k r"
        using Suc.hyps(2) [symmetric] ne by (simp add: ys_def w_def r_def Let_def)
      moreover have "list_all2 (\<lambda>i a. length pre \<le> i \<and> str_at (pre @ (replicate (length z) 0 @ w @ ys') @ 0 # rest) i = Inr a)
          idx (line_args k r)"
        using IH(2) unfolding split_post_def by (elim conjE list_all2_mono) simp
      ultimately have "split_post (n - length argv) pre xs rest (length ?p # idx) (replicate (length z) 0 @ w @ ys')"
        using first IH(2) hd0 lt xs ys(1) by (simp add: split_post_def)
      then show ?thesis
        using step IH(1) by (intro exI [of _ "length ?p # idx"] exI [of _ "replicate (length z) 0 @ w @ ys'"]) simp
    qed
  qed
qed

lemma split_args_spec:
  assumes "0 \<notin> set xs"
  shows "\<exists>idx ys. split_args (xs @ 0 # rest) n = Inr (idx, ys @ 0 # rest) \<and> length ys = length xs \<and>
     list_all2 (\<lambda>i a. str_at (ys @ 0 # rest) i = Inr a) idx (line_args n xs) \<and>
     (length (line_words xs) < n \<longrightarrow> line_args n xs = line_words xs)"
proof -
  obtain idx ys where "split_loop n (xs @ 0 # rest) 0 [] = Inr (idx, ys @ 0 # rest)" "split_post n [] xs rest idx ys"
    using split_loop_spec [OF assms, of n "[]" rest "[]"] by auto
  then show ?thesis
    using line_args_words unfolding split_args_def split_post_def by (auto elim: list_all2_mono)
qed

text \<open>
  C38. \<^verbatim>\<open>split_args\<close> returns and cuts a line in place into its words: when the line has fewer words than there is room for,
  the arguments are exactly the words separated by blanks, tabs and line ends; otherwise the last argument
  is the rest of the line. The bytes behind the line do not change.
\<close>

theorem split_args_correct:
  assumes "0 \<notin> set xs"
  shows "\<exists>idx ys. split_args (xs @ 0 # rest) n = Inr (idx, ys @ 0 # rest) \<and> length ys = length xs \<and>
     list_all2 (\<lambda>i a. str_at (ys @ 0 # rest) i = Inr a) idx (line_args n xs) \<and>
     (length (line_words xs) < n \<longrightarrow> line_args n xs = line_words xs)"
  by (rule split_args_spec [OF assms])

lemma split_args_correct_witness:
  "line_args 2 (lit ''write a  b c'') = [lit ''write'', lit ''a  b c''] \<and>
   (\<exists>idx ys. split_args (lit ''write a  b c'' @ 0 # []) 2 = Inr (idx, ys @ 0 # []) \<and>
     list_all2 (\<lambda>i a. str_at (ys @ 0 # []) i = Inr a) idx [lit ''write'', lit ''a  b c''])"
proof -
  have a: "line_args 2 (lit ''write a  b c'') = [lit ''write'', lit ''a  b c'']"
    by code_simp
  have "0 \<notin> set (lit ''write a  b c'')"
    by (simp add: lit_def)
  from split_args_correct [OF this, of "[]" 2] show ?thesis
    unfolding a by blast
qed

section \<open>Decimal numbers\<close>

lemma length_dec_rev: "v < 10 ^ k \<Longrightarrow> length (dec_rev v) \<le> k"
proof (induction k arbitrary: v)
  case 0
  then show ?case
    by (simp add: dec_rev.simps)
next
  case (Suc k)
  have "v div 10 < 10 ^ k"
    using Suc.prems by (intro less_mult_imp_div_less) simp
  then show ?case
    using Suc.IH [of "v div 10"] by (subst dec_rev.simps) simp
qed

lemma digit_byte:
  assumes "d < 10"
  shows "uint (0x30 + of_nat d :: u8) = 0x30 + int d" and "\<not> (0x30 + of_nat d :: u8) < 0x30" and "\<not> 0x39 < (0x30 + of_nat d :: u8)"
proof -
  show u: "uint (0x30 + of_nat d :: u8) = 0x30 + int d"
    using assms by (simp add: uint_nat unat_word_ariths unat_of_nat)
  show "\<not> (0x30 + of_nat d :: u8) < 0x30" "\<not> 0x39 < (0x30 + of_nat d :: u8)"
    using assms u by (simp_all add: word_less_def)
qed

lemma to_int_dec_rev: "v < 2 ^ 31 \<Longrightarrow> to_int_loop (rev (dec_rev v) @ s) 0 = to_int_loop s (int v)"
proof (induction v arbitrary: s rule: dec_rev.induct)
  case (1 v)
  show ?case
  proof (cases "0 < v")
    case True
    have d: "v mod 10 < 10"
      by simp
    have val: "int (v div 10) * 10 + int (v mod 10) = int v"
      by presburger
    have "to_int_loop (rev (dec_rev v) @ s) 0 = to_int_loop ((0x30 + of_nat (v mod 10)) # s) (int (v div 10))"
      using 1 True by (subst dec_rev.simps) simp
    also have "\<dots> = to_int_loop s (int v)"
      using "1.prems" by (simp add: digit_byte [OF d] val Let_def del: of_nat_mod)
    finally show ?thesis .
  qed (simp add: dec_rev.simps)
qed

text \<open>
  Decimal output and input fit together: for every 32-bit integer but the smallest, what \<^verbatim>\<open>put_dec\<close> sends to the console is
  a string from which \<^verbatim>\<open>str_to_int\<close> reads the integer back; neither overflows, and the digits fit the buffer.
\<close>

theorem put_dec_roundtrip:
  assumes "- (2 ^ 31) < v" and "v < 2 ^ 31"
  shows "\<exists>str. put_dec v c = Inr (put_str str c) \<and> str_to_int str = Inr (Some v)"
proof -
  define ds where "ds = (if v = 0 then [0x30] else rev (dec_rev (nat \<bar>v\<bar>)))"
  have a: "nat \<bar>v\<bar> < 2 ^ 31"
    using assms by simp
  then have len: "length (dec_rev (nat \<bar>v\<bar>)) \<le> 10"
    by (intro length_dec_rev) simp
  have val: "to_int_loop ds 0 = Inr (Some \<bar>v\<bar>)"
    using to_int_dec_rev [OF a, of "[]"] by (simp add: ds_def)
  have ne: "ds \<noteq> []" "hd ds \<noteq> 0x2d"
  proof -
    show "ds \<noteq> []"
      by (simp add: ds_def dec_rev.simps [of "nat \<bar>v\<bar>"])
    show "hd ds \<noteq> 0x2d"
      using val \<open>ds \<noteq> []\<close> by (cases ds) (auto split: if_splits)
  qed
  show ?thesis
  proof (cases "v < 0")
    case True
    then show ?thesis
      using assms(1) len val ne
      by (intro exI [of _ "0x2d # ds"]) (simp add: put_dec_def str_to_int_def ds_def)
  next
    case False
    then show ?thesis
      using assms len val ne by (intro exI [of _ ds]) (auto simp: put_dec_def str_to_int_def ds_def)
  qed
qed

lemma put_dec_roundtrip_witness:
  "\<exists>str. put_dec (- 2147483647) console_boot = Inr (put_str str console_boot) \<and> str_to_int str = Inr (Some (- 2147483647))"
  by (rule put_dec_roundtrip) simp_all

section \<open>Copies\<close>

lemma copy_lim_loop_spec:
  assumes "i = length pre" and "int i < mx" and "mx \<le> int (length (pre @ post))"
  shows "copy_lim_loop (pre @ post) src i mx =
    Inr (pre @ take (nat mx - 1 - i) src @ 0 # drop (Suc (length (take (nat mx - 1 - i) src))) post)"
  using assms
proof (induction src arbitrary: pre post i)
  case Nil
  then have "post \<noteq> []"
    by auto
  then show ?case
    using Nil.prems by (cases post) (auto simp: put_bytes_def)
next
  case (Cons c src)
  then obtain x post' where post: "post = x # post'"
    by (cases post) auto
  show ?case
  proof (cases "int i < mx - 1")
    case True
    have "put_bytes (pre @ post) i [c] = Inr ((pre @ [c]) @ post')"
      using Cons.prems(1) by (simp add: put_bytes_def post)
    moreover have "nat mx - 1 - i = Suc (nat mx - 1 - Suc i)"
      using True by simp
    ultimately show ?thesis
      using True Cons.prems Cons.IH [of "Suc i" "pre @ [c]" post'] by (simp add: post)
  next
    case False
    then have "nat mx - 1 - i = 0"
      by simp
    then show ?thesis
      using False Cons.prems(1) by (simp add: post put_bytes_def)
  qed
qed

lemma str_copy_lim_spec:
  assumes "0 < mx" and "mx \<le> int (length dst)" and "0 \<notin> set src"
  shows "\<exists>b. str_copy_lim dst src mx = Inr b \<and> length b = length dst \<and> 0 \<in> set b \<and> str_at b 0 = Inr (take (nat mx - 1) src)"
proof -
  let ?t = "take (nat mx - 1) src" and ?r = "drop (Suc (length (take (nat mx - 1) src))) dst"
  have "str_copy_lim dst src mx = Inr (?t @ 0 # ?r)"
    using copy_lim_loop_spec [of 0 "[]" mx dst src] assms by (simp add: str_copy_lim_def)
  moreover have "length (?t @ 0 # ?r) = length dst"
    using assms(1,2) by auto
  moreover have "str_at (?t @ 0 # ?r) 0 = Inr ?t"
    using str_at_append [of ?t "[]" ?r] assms(3) by (auto dest: in_set_takeD)
  ultimately show ?thesis
    by auto
qed

section \<open>The history\<close>

definition hist_ok :: "shell_history \<Rightarrow> bool" where
  "hist_ok h \<longleftrightarrow>
     length (h_entries h) = HIST_MAX \<and> (\<forall>e\<in>set (h_entries h). length e = HIST_LINE_MAX \<and> 0 \<in> set e) \<and>
     length (h_scratch h) = HIST_LINE_MAX \<and> (h_scratch_valid h \<longrightarrow> 0 \<in> set (h_scratch h)) \<and>
     h_count h \<le> HIST_MAX \<and> h_next h < HIST_MAX \<and> (h_count h < HIST_MAX \<longrightarrow> h_next h = h_count h) \<and>
     - 1 \<le> h_browse_pos h \<and> h_browse_pos h < int HIST_MAX"

lemma str_at_total: "0 \<in> set b \<Longrightarrow> str_at b 0 = Inr (takeWhile (\<lambda>c. c \<noteq> 0) b)"
  by (simp add: str_at_def)

lemma entry_str_total: "hist_ok h \<Longrightarrow> i < HIST_MAX \<Longrightarrow> entry_str h i = Inr (takeWhile (\<lambda>c. c \<noteq> 0) (h_entries h ! i))"
  by (simp add: entry_str_def hist_ok_def str_at_total)

lemma history_prev_ok:
  assumes "hist_ok h" and "0 \<notin> set cur"
  shows "\<exists>r h'. history_prev h cur = Inr (r, h') \<and> hist_ok h' \<and> h_entries h' = h_entries h \<and>
    (0 < h_count h \<longrightarrow> h_browse_pos h < 0 \<longrightarrow> h_browse_pos h' = int ((h_next h + h_count h - 1) mod HIST_MAX)) \<and>
    (0 < h_count h \<longrightarrow> r = Some (takeWhile (\<lambda>c. c \<noteq> 0) (h_entries h ! nat (h_browse_pos h'))))"
proof (cases "h_count h = 0")
  case True
  then show ?thesis
    using assms(1) by (simp add: history_prev_def)
next
  case False
  show ?thesis
  proof (cases "h_browse_pos h < 0")
    case True
    obtain b where b: "str_copy_lim (h_scratch h) cur (int HIST_LINE_MAX) = Inr b" "length b = HIST_LINE_MAX" "0 \<in> set b"
      using str_copy_lim_spec [of "int HIST_LINE_MAX" "h_scratch h" cur] assms by (auto simp: hist_ok_def)
    define h' where "h' = h\<lparr>h_scratch := b, h_scratch_valid := True, h_browse_pos := int ((h_next h + h_count h - 1) mod HIST_MAX)\<rparr>"
    have "hist_ok h'"
      using assms(1) b by (simp add: hist_ok_def h'_def)
    then show ?thesis
      using False True b(1) entry_str_total [of h' "nat (h_browse_pos h')"]
      by (simp add: history_prev_def h'_def [symmetric]) (simp add: h'_def)
  next
    case pos: False
    define h' where "h' = (if h_browse_pos h = int (if h_count h = HIST_MAX then h_next h else 0) then h
      else h\<lparr>h_browse_pos := (h_browse_pos h + int HIST_MAX - 1) mod int HIST_MAX\<rparr>)"
    have ok: "hist_ok h'" and bound: "0 \<le> h_browse_pos h'"
      using assms(1) pos by (auto simp: hist_ok_def h'_def intro: order_trans [of _ 0])
    have "history_prev h cur = kbind (entry_str h' (nat (h_browse_pos h'))) (\<lambda>s. Inr (Some s, h'))"
      using False pos by (simp add: history_prev_def h'_def Let_def)
    moreover have "h_entries h' = h_entries h"
      by (simp add: h'_def)
    moreover have "nat (h_browse_pos h') < HIST_MAX"
      using ok bound by (auto simp: hist_ok_def nat_less_iff)
    ultimately show ?thesis
      using ok pos entry_str_total [OF ok, of "nat (h_browse_pos h')"] by simp
  qed
qed

lemma history_next_ok:
  assumes "hist_ok h"
  shows "\<exists>r h'. history_next h = Inr (r, h') \<and> hist_ok h'"
proof -
  let ?h = "h\<lparr>h_browse_pos := (h_browse_pos h + 1) mod int HIST_MAX\<rparr>"
  have "hist_ok ?h"
    using assms by (auto simp: hist_ok_def intro: order_trans [of _ 0])
  moreover have "nat (h_browse_pos ?h) < HIST_MAX"
    by simp
  moreover have "hist_ok (h\<lparr>h_browse_pos := -1\<rparr>)"
    using assms by (simp add: hist_ok_def)
  ultimately show ?thesis
    using assms entry_str_total [of ?h "nat (h_browse_pos ?h)"]
    by (auto simp: history_next_def Let_def str_at_total hist_ok_def [of h])
qed

lemma history_push_ok:
  assumes "hist_ok h" and "case line of None \<Rightarrow> True | Some l \<Rightarrow> 0 \<notin> set l"
  shows "\<exists>h'. history_push h line = Inr h' \<and> hist_ok h'"
proof (cases line)
  case (Some l)
  have n: "h_next h < length (h_entries h)" "length (h_entries h ! h_next h) = HIST_LINE_MAX"
    using assms(1) by (auto simp: hist_ok_def)
  then obtain b where b: "str_copy_lim (h_entries h ! h_next h) l (int HIST_LINE_MAX) = Inr b" "length b = HIST_LINE_MAX" "0 \<in> set b"
    using str_copy_lim_spec [of "int HIST_LINE_MAX" "h_entries h ! h_next h" l] assms(2) Some by auto
  have e: "entry_str h ((h_next h + h_count h - 1) mod HIST_MAX) =
      Inr (takeWhile (\<lambda>c. c \<noteq> 0) (h_entries h ! ((h_next h + h_count h - 1) mod HIST_MAX)))"
    by (rule entry_str_total [OF assms(1)]) simp
  have "\<forall>x\<in>set ((h_entries h)[h_next h := b]). length x = HIST_LINE_MAX \<and> 0 \<in> set x"
    using assms(1) b(2,3) set_update_subset_insert [of "h_entries h" "h_next h" b] by (auto simp: hist_ok_def)
  then have "hist_ok (h\<lparr>h_entries := (h_entries h)[h_next h := b], h_next := (h_next h + 1) mod HIST_MAX,
      h_count := (if h_count h < HIST_MAX then h_count h + 1 else h_count h), h_browse_pos := -1, h_scratch_valid := False\<rparr>)"
    using assms(1) by (auto simp: hist_ok_def)
  then show ?thesis
    using assms(1) b(1) e Some by (auto simp: history_push_def Let_def)
qed (use assms(1) in \<open>simp add: history_push_def\<close>)

text \<open>Every sequence of calls after \<^verbatim>\<open>history_init\<close> on cleared memory.\<close>

definition hist_zero :: shell_history where
  "hist_zero = \<lparr>h_count = 0, h_next = 0, h_browse_pos = 0, h_entries = replicate HIST_MAX (replicate HIST_LINE_MAX 0),
     h_scratch = replicate HIST_LINE_MAX 0, h_scratch_valid = False\<rparr>"

inductive hist_reach :: "shell_history \<Rightarrow> bool" where
  start: "hist_reach (history_init hist_zero)"
| cancel: "hist_reach h \<Longrightarrow> hist_reach (history_cancel h)"
| prev: "hist_reach h \<Longrightarrow> 0 \<notin> set cur \<Longrightarrow> history_prev h cur = Inr (r, h') \<Longrightarrow> hist_reach h'"
| nxt: "hist_reach h \<Longrightarrow> history_next h = Inr (r, h') \<Longrightarrow> hist_reach h'"
| push: "hist_reach h \<Longrightarrow> 0 \<notin> set l \<Longrightarrow> history_push h (Some l) = Inr h' \<Longrightarrow> hist_reach h'"

lemma hist_reach_ok: "hist_reach h \<Longrightarrow> hist_ok h"
proof (induction rule: hist_reach.induct)
  case start
  show ?case
    by (simp add: history_init_def hist_zero_def hist_ok_def)
next
  case (cancel h)
  then show ?case
    by (simp add: history_cancel_def hist_ok_def)
next
  case (prev h cur r h')
  then show ?case
    using history_prev_ok [of h cur] by auto
next
  case (nxt h r h')
  then show ?case
    using history_next_ok [of h] by auto
next
  case (push h l h')
  then show ?case
    using history_push_ok [of h "Some l"] by auto
qed

text \<open>
  C40. In every reachable state of the history all entries have their length and a terminator, the counters are in range,
  and every call of the interface returns without leaving a buffer.
\<close>

theorem history_safe:
  assumes "hist_reach h" and "0 \<notin> set l"
  shows "hist_ok h \<and> (\<exists>r h'. history_prev h l = Inr (r, h')) \<and> (\<exists>r h'. history_next h = Inr (r, h')) \<and>
    (\<exists>h'. history_push h (Some l) = Inr h')"
  using hist_reach_ok [OF assms(1)] history_prev_ok [of h l] history_next_ok [of h] history_push_ok [of h "Some l"] assms(2)
  by fastforce

lemma history_safe_witness: "hist_ok (history_init hist_zero) \<and> (\<exists>h'. history_push (history_init hist_zero) (Some [97]) = Inr h')"
  using history_safe [OF hist_reach.start, of "[97]"] by simp

text \<open>
  Browsing starts at the wrong line until the history is full: with \<open>k\<close> lines, \<open>0 < k < 16\<close>, the newest line is in
  entry \<open>k - 1\<close>, but the first call of \<^verbatim>\<open>history_prev\<close> returns entry \<open>(2 k - 1) mod 16\<close>, which is another one.
  With 16 lines it returns the newest.
\<close>

theorem history_prev_start:
  assumes "hist_reach h" and "h_browse_pos h = - 1" and "0 < h_count h" and "0 \<notin> set cur"
  defines "newest \<equiv> (h_next h + HIST_MAX - 1) mod HIST_MAX"
  shows "\<exists>i h'. history_prev h cur = Inr (Some (takeWhile (\<lambda>c. c \<noteq> 0) (h_entries h ! i)), h') \<and>
     (if h_count h = HIST_MAX then i = newest else newest = h_count h - 1 \<and> i = (2 * h_count h - 1) mod HIST_MAX \<and> i \<noteq> newest)"
proof -
  have ok: "hist_ok h"
    using assms(1) by (rule hist_reach_ok)
  define i where "i = (h_next h + h_count h - 1) mod HIST_MAX"
  obtain h' where p: "history_prev h cur = Inr (Some (takeWhile (\<lambda>c. c \<noteq> 0) (h_entries h ! i)), h')"
    using history_prev_ok [OF ok assms(4)] assms(2,3) by (auto simp: i_def)
  have "if h_count h = HIST_MAX then i = newest else newest = h_count h - 1 \<and> i = (2 * h_count h - 1) mod HIST_MAX \<and> i \<noteq> newest"
  proof (cases "h_count h = HIST_MAX")
    case False
    then have c: "h_next h = h_count h" "h_count h < 16"
      using ok by (auto simp: hist_ok_def)
    have "(h_count h + 15) mod 16 = (h_count h - 1 + 16) mod 16"
      using assms(3) by (simp add: add.commute)
    also have "\<dots> = h_count h - 1"
      using c(2) by (subst mod_add_self2) simp
    finally have "(h_count h + 15) mod 16 = h_count h - 1" .
    then have "newest = h_count h - 1"
      using c(1) by (simp add: newest_def add.commute)
    moreover have "i = (2 * h_count h - 1) mod 16"
      by (simp add: i_def c mult_2)
    moreover have "(2 * h_count h - 1) mod 16 \<noteq> h_count h - 1"
    proof (cases "2 * h_count h - 1 < 16")
      case False
      then have "(2 * h_count h - 1) mod 16 = 2 * h_count h - 1 - 16"
        using c(2) by (subst le_mod_geq) simp_all
      then show ?thesis
        using c(2) False by linarith
    qed (use assms(3) in simp)
    ultimately show ?thesis
      using False by simp
  qed (simp add: i_def newest_def)
  then show ?thesis
    using p by blast
qed

lemma history_prev_start_witness:
  "\<exists>h. history_push (history_init hist_zero) (Some [97]) = Inr h \<and> h_count h = 1 \<and>
     (\<exists>h'. history_prev h [] = Inr (Some [], h'))"
proof -
  define b where "b = 97 # 0 # replicate 126 (0 :: u8)"
  define h where "h = (history_init hist_zero)\<lparr>h_entries := (replicate 16 (replicate 128 0))[0 := b], h_next := 1, h_count := 1\<rparr>"
  have p: "history_push (history_init hist_zero) (Some [97]) = Inr h"
    by (simp add: history_push_def history_init_def hist_zero_def str_copy_lim_def put_bytes_def h_def b_def drop_replicate)
  then have r: "hist_reach h"
    using hist_reach.push [OF hist_reach.start, of "[97]"] by simp
  have "h_browse_pos h = - 1" "0 < h_count h" "h_count h = 1" "h_entries h ! 1 = replicate 128 0"
    by (simp_all add: h_def history_init_def)
  then show ?thesis
    using p history_prev_start [OF r, of "[]"] by fastforce
qed

end
