(* ===== verification/Shell_Spec.thy ===== *)
theory Shell_Spec
  imports Shell User_Util_Spec Ramfs_Spec Trap_Spec Wm_Paint
begin

text \<open>
  The shell on top of the file system and the console: a line typed at the prompt is edited, cut into words and run, and
  acts on the files as on a map from names to contents. \<open>app_st\<close> describes a state of the shell by the descriptor
  table of its process, the file system, and the characters sent to the console; there is one lemma for
  each call of the kernel.
\<close>

section \<open>The kernel below the shell\<close>

definition kprocs :: "'d kernel \<Rightarrow> process list" where
  "kprocs K = procs (tab (ksys K))"

definition ctbl :: "'d kernel \<Rightarrow> file_desc list" where
  "ctbl K = fds (kprocs K ! the (current_proc (tab (ksys K))))"

definition kfs_ok :: "'d kernel \<Rightarrow> bool" where
  "kfs_ok K \<longleftrightarrow>
     (\<exists>c<length (kprocs K). current_proc (tab (ksys K)) = Some c) \<and> fs_ok (kfs K) \<and> \<not> ext4_ready (kfs K) \<and>
     (\<forall>p\<in>set (kprocs K). fds_ok (kfs K) (fds p))"

lemma kfs_ok_tbl: "kfs_ok K \<Longrightarrow> kfds K = Inr (ctbl K) \<and> fds_ok (kfs K) (ctbl K)"
  by (auto simp: kfs_ok_def ctbl_def kfds_def kcur_def cur_def proc_at_def kprocs_def)

lemma set_kfds_kernel:
  assumes "kfs_ok K" and "fs_ok f" and "\<not> ext4_ready f" and "\<And>t. fds_ok (kfs K) t \<Longrightarrow> fds_ok f t" and "fds_ok f t"
  shows "kfs_ok (set_kfds t (K\<lparr>kfs := f\<rparr>))" and "ctbl (set_kfds t (K\<lparr>kfs := f\<rparr>)) = t"
    and "kfs (set_kfds t (K\<lparr>kfs := f\<rparr>)) = f" and "kcon (set_kfds t (K\<lparr>kfs := f\<rparr>)) = kcon K"
proof -
  obtain c where c: "c < length (kprocs K)" "current_proc (tab (ksys K)) = Some c"
    using assms(1) by (auto simp: kfs_ok_def)
  let ?K = "set_kfds t (K\<lparr>kfs := f\<rparr>)"
  have e: "?K = set_ksys (set_proc c ((kprocs K ! c)\<lparr>fds := t\<rparr>) (ksys K)) (K\<lparr>kfs := f\<rparr>)"
    using c by (simp add: set_kfds_def set_kcur_def kcur_def cur_def ksys_def proc_at_def kprocs_def)
  have p: "kprocs ?K = (kprocs K)[c := (kprocs K ! c)\<lparr>fds := t\<rparr>]" "current_proc (tab (ksys ?K)) = Some c"
    unfolding e using c by (simp_all add: kprocs_def ksys_def set_ksys_def set_proc_def)
  show k: "kfs ?K = f" "kcon ?K = kcon K"
    unfolding e by (simp_all add: set_ksys_def)
  show "ctbl ?K = t"
    using c p by (simp add: ctbl_def)
  show "kfs_ok ?K"
    using assms c p k set_update_subset_insert [of "kprocs K" c "(kprocs K ! c)\<lparr>fds := t\<rparr>"]
    by (auto simp: kfs_ok_def)
qed

section \<open>States of the shell\<close>

definition view_ok :: "'d shell \<Rightarrow> bool" where
  "view_ok s \<longleftrightarrow> length (g_term_view s) = WM_TEXT_MAX \<and> g_term_view_len s < WM_TEXT_MAX \<and> g_term_view s ! g_term_view_len s = 0"

definition filedb_ok :: "'d shell \<Rightarrow> bool" where
  "filedb_ok s \<longleftrightarrow> length (g_file_db s) = FILE_DB_MAX \<and> g_file_db_count s \<le> FILE_DB_MAX \<and>
     (\<forall>b\<in>set (g_file_db s). length b = FM_NAME_MAX \<and> 0 \<in> set b)"

definition buffers_ok :: "'d shell \<Rightarrow> bool" where
  "buffers_ok s \<longleftrightarrow> length (g_line s) = SHELL_MAX_LINE \<and> length (g_iobuf s) = IOBUF_SIZE \<and> view_ok s \<and> filedb_ok s"

definition app_st :: "'d shell \<Rightarrow> file_desc list \<Rightarrow> ramfs \<Rightarrow> u8 list \<Rightarrow> bool" where
  "app_st s t f out \<longleftrightarrow> kfs_ok (sk s) \<and> ctbl (sk s) = t \<and> kfs (sk s) = f \<and> con_out (kcon (sk s)) = out \<and> buffers_ok s"

lemma app_stD:
  assumes "app_st s t f out"
  shows "fs_ok f" and "fds_ok f t" and "\<not> ext4_ready f" and "kfds (sk s) = Inr t" and "length t = FD_MAX"
  using assms kfs_ok_tbl [of "sk s"] by (auto simp: app_st_def kfs_ok_def fds_ok_def)

lemma sk_set_sk [simp]: "sk (set_sk K s) = K"
  by (simp add: sk_def set_sk_def)

lemma set_sk_fields [simp]:
  "g_line (set_sk K s) = g_line s" "g_iobuf (set_sk K s) = g_iobuf s" "g_term_view (set_sk K s) = g_term_view s"
  "g_term_view_len (set_sk K s) = g_term_view_len s" "g_file_db (set_sk K s) = g_file_db s"
  "g_file_db_count (set_sk K s) = g_file_db_count s" "g_main_win (set_sk K s) = g_main_win s"
  by (simp_all add: set_sk_def)

lemma buffers_set_sk [simp]: "buffers_ok (set_sk K s) = buffers_ok s"
  by (simp add: buffers_ok_def view_ok_def filedb_ok_def)

text \<open>The effect of a file operation on the state of the shell.\<close>

lemma app_st_fs:
  assumes "app_st s t f out" and "fs_ok f'" and "\<not> ext4_ready f'" and "\<And>t. fds_ok f t \<Longrightarrow> fds_ok f' t" and "fds_ok f' t'"
  shows "app_st (set_sk (set_kfds t' ((sk s)\<lparr>kfs := f'\<rparr>)) s) t' f' out"
  using assms set_kfds_kernel [of "sk s" f' t'] by (simp add: app_st_def)

lemma app_st_con:
  assumes "app_st s t f out"
  shows "app_st (set_sk ((sk s)\<lparr>kcon := c\<rparr>) s) t f (con_out c)"
  using assms by (auto simp: app_st_def kfs_ok_def ctbl_def kprocs_def ksys_def)

lemma app_st_putchar: "app_st s t f out \<Longrightarrow> app_st (u_putchar c s) t f (out @ [c])"
  using app_st_con [of s t f out "putchar c (kcon (sk s))"] by (simp add: u_putchar_def putchar_def app_st_def)

lemma app_st_puts: "app_st s t f out \<Longrightarrow> app_st (u_puts cs s) t f (out @ cs)"
proof (induction cs arbitrary: s out)
  case (Cons c cs)
  show ?case
    using Cons.IH [OF app_st_putchar [OF Cons.prems]] by simp
qed simp

lemma fold_putchar: "fold u_putchar cs s = u_puts cs s"
  by (induction cs arbitrary: s) simp_all

section \<open>Files\<close>

lemma noext: "\<not> ext4_ready g \<Longrightarrow> find_inode_by_name g name \<noteq> None \<or> fst (open_ext4_readonly g name flags t) < 0"
  by (simp add: open_ext4_readonly_def)

lemma open_st:
  assumes "app_st s t f out" and "fs_open path flags t f = (fd, t', f')"
  shows "\<exists>s'. u_open path flags s = Inr (fd, s') \<and> app_st s' t' f' out"
proof -
  note d = app_stD [OF assms(1)]
  have "fs_ok f' \<and> (\<forall>t. fds_ok f t \<longrightarrow> fds_ok f' t) \<and> fds_ok f' t'"
    by (rule fs_open_inv [OF d(1,2) assms(2)])
  moreover have "\<not> ext4_ready f'"
    using fs_open_ext4 [of path flags t f] assms(2) d(3) by simp
  ultimately have "app_st (set_sk (set_kfds t' ((sk s)\<lparr>kfs := f'\<rparr>)) s) t' f' out"
    using app_st_fs [OF assms(1)] by blast
  moreover have "kfs (sk s) = f"
    using assms(1) by (simp add: app_st_def)
  ultimately show ?thesis
    using assms(2) d(4) by (simp add: u_open_def)
qed

lemma free_fds_pos: "k < length t \<Longrightarrow> \<not> fd_used (t ! k) \<Longrightarrow> 0 < free_fds t"
  by (auto simp: free_fds_def filter_empty_conv)

lemma close_st:
  assumes "app_st s t f out" and "get_open_fd t fd = Some k"
  shows "\<exists>s'. u_close fd s = Inr (0, s') \<and> app_st s' (t[k := no_file]) f out \<and> 0 < free_fds (t[k := no_file])"
proof -
  note d = app_stD [OF assms(1)]
  have k: "k < FD_MAX"
    using assms(2) by (simp add: get_open_fd_Some)
  have "fds_ok f (t[k := no_file])"
    by (rule fds_ok_update [OF d(2)]) (simp add: fd_ok_def no_file_def)
  then have "app_st (set_sk (set_kfds (t[k := no_file]) ((sk s)\<lparr>kfs := f\<rparr>)) s) (t[k := no_file]) f out"
    using app_st_fs [OF assms(1) d(1,3)] by blast
  moreover have "(sk s)\<lparr>kfs := f\<rparr> = sk s"
    using assms(1) by (simp add: app_st_def)
  ultimately show ?thesis
    using assms(2) d(4,5) k by (auto simp: u_close_def fs_close_def no_file_def intro: free_fds_pos [of k])
qed

text \<open>A file open for writing at its end.\<close>

definition writing :: "file_desc list \<Rightarrow> ramfs \<Rightarrow> int \<Rightarrow> cstr \<Rightarrow> u8 list \<Rightarrow> bool" where
  "writing t f fd name c \<longleftrightarrow>
     (\<exists>k i. get_open_fd t fd = Some k \<and> t ! k = \<lparr>fd_used = True, fd_inode = int i, fd_offset = of_nat (length c), fd_flags = 0x302\<rparr> \<and>
       i < RAMFS_MAX_FILES \<and> ri_used (inodes f ! i) \<and> ri_name (inodes f ! i) = name \<and> contents (inodes f ! i) = c)"

lemma length_contents: "fs_ok f \<Longrightarrow> i < RAMFS_MAX_FILES \<Longrightarrow> length (contents (inodes f ! i)) = unat (ri_size (inodes f ! i))"
  using fs_ok_inode [of f i] by (simp add: inode_wf_def contents_def)

lemma writing_files: "fs_ok f \<Longrightarrow> writing t f fd name c \<Longrightarrow> files f name = Some c"
  using files_at by (fastforce simp: writing_def)

lemma app_load_length: "app_load buf n m = Inr (bs, m') \<Longrightarrow> length bs = n"
  by (auto simp: app_load_def split: if_splits)

lemma write_st:
  assumes st: "app_st s t f out" and w: "writing t f fd name c" and len: "length c + length bs \<le> RAMFS_DATA_MAX"
  shows "\<exists>s' t' f'. u_write fd bs (int (length bs)) s = Inr (int (length bs), s') \<and> app_st s' t' f' out \<and>
    writing t' f' fd name (c @ bs) \<and> files f' = (files f)(name \<mapsto> c @ bs)"
proof -
  note d = app_stD [OF st]
  obtain k i where k: "get_open_fd t fd = Some k"
    and tk: "t ! k = \<lparr>fd_used = True, fd_inode = int i, fd_offset = of_nat (length c), fd_flags = 0x302\<rparr>"
    and i: "i < RAMFS_MAX_FILES" "ri_used (inodes f ! i)" "ri_name (inodes f ! i) = name" "contents (inodes f ! i) = c"
    using w by (auto simp: writing_def)
  have kl: "k < length t"
    using k d(5) by (simp add: get_open_fd_Some)
  have sz: "unat (ri_size (inodes f ! i)) = length c"
    using length_contents [OF d(1) i(1)] i(4) by simp
  have u: "unat (of_nat (length c) :: u32) = length c" "unat (of_nat (length bs) :: u32) = length bs"
    using len by (simp_all add: unat_of_nat)
  define t' where "t' = t[k := (t ! k)\<lparr>fd_offset := of_nat (length (c @ bs))\<rparr>]"
  define f' where "f' = (if length c = RAMFS_DATA_MAX then f else written i (length c) bs f)"
  have run: "fs_write app_load fd APP_BUF (of_nat (length bs)) bs t f = Inr (int (length bs), bs, t', f')"
    using u len
    by (subst fs_write_ramfs [OF d(1,2) one_neq_zero k _ _ app_load_length])
      (auto simp: tk is_ext_fd_def app_load_def t'_def f'_def min_def)
  have fl: "files f' = (files f)(name \<mapsto> c @ bs)"
  proof (cases "length c = RAMFS_DATA_MAX")
    case True
    then show ?thesis
      using len writing_files [OF d(1) w] by (auto simp: f'_def)
  next
    case False
    then show ?thesis
      using written_ok(3) [OF d(1) i(1,2) len] i(3,4) sz by (simp add: f'_def overwrite_def)
  qed
  have inv: "fs_ok f'" "\<And>t. fds_ok f t \<Longrightarrow> fds_ok f' t" "fds_ok f' t'"
    using fs_write_inv [OF d(1,2) _ run] app_load_length by blast+
  have ri: "ri_used (inodes f' ! i)" "ri_name (inodes f' ! i) = name"
    using i d(1) by (auto simp: f'_def written_def nth_set_inode)
  have c': "contents (inodes f' ! i) = c @ bs"
    using files_at [OF inv(1) i(1) ri(1)] fl by (simp add: ri(2))
  have ext: "\<not> ext4_ready f'"
    using d(3) by (simp add: f'_def written_def set_inode_def)
  have "writing t' f' fd name (c @ bs)"
    unfolding writing_def
  proof (intro exI conjI)
    show "get_open_fd t' fd = Some k"
      using k kl by (auto simp: get_open_fd_Some t'_def tk)
    show "t' ! k = \<lparr>fd_used = True, fd_inode = int i, fd_offset = of_nat (length (c @ bs)), fd_flags = 0x302\<rparr>"
      using kl by (simp add: t'_def tk)
  qed (fact i(1) ri c')+
  then show ?thesis
    using app_st_fs [OF st inv(1) ext inv(2,3)] run fl d(4) st by (auto simp: u_write_def app_st_def [of s])
qed

lemma app_str_len_eq [simp]: "app_str_len s = int (length s)"
  by (induction s) simp_all

text \<open>The words with blanks between them.\<close>

fun joined :: "cstr list \<Rightarrow> cstr" where
  "joined [] = []"
| "joined [w] = w"
| "joined (w # ws) = w @ [0x20] @ joined ws"

definition sep :: "bool \<Rightarrow> cstr list \<Rightarrow> cstr" where
  "sep first ws = (if first \<or> ws = [] then joined ws else 0x20 # joined ws)"

lemma sep_Cons: "sep first (w # ws) = (if first then [] else [0x20]) @ w @ sep False ws"
  by (cases ws) (simp_all add: sep_def)

lemma write_args_st:
  assumes "app_st s t f out" and "writing t f fd name c" and "length c + length (sep first ws) \<le> RAMFS_DATA_MAX"
  shows "\<exists>s' t' f'. write_args fd first ws s = Inr s' \<and> app_st s' t' f' out \<and>
    writing t' f' fd name (c @ sep first ws) \<and> files f' = (files f)(name \<mapsto> c @ sep first ws)"
  using assms
proof (induction ws arbitrary: s t f c first)
  case Nil
  then show ?case
    using writing_files [OF app_stD(1) [OF Nil.prems(1)] Nil.prems(2)]
    by (intro exI [of _ s] exI [of _ t] exI [of _ f]) (auto simp: sep_def)
next
  case (Cons w ws)
  define b where "b = (if first then [] else [0x20 :: u8])"
  have sp: "sep first (w # ws) = b @ w @ sep False ws"
    by (simp add: sep_Cons b_def)
  have l: "length c + length b \<le> RAMFS_DATA_MAX" "length (c @ b) + length w \<le> RAMFS_DATA_MAX"
    "length ((c @ b) @ w) + length (sep False ws) \<le> RAMFS_DATA_MAX"
    using Cons.prems(3) by (simp_all add: sp)
  obtain n s1 t1 f1 where 1: "(if first then Inr (0, s) else u_write fd [0x20] 1 s) = Inr (n, s1)" "app_st s1 t1 f1 out"
      "writing t1 f1 fd name (c @ b)" "files f1 = (files f)(name \<mapsto> c @ b)"
  proof (cases first)
    case True
    then show ?thesis
      using that [of 0 s t f] Cons.prems(1,2) writing_files [OF app_stD(1) [OF Cons.prems(1)] Cons.prems(2)]
      by (auto simp: fun_upd_idem b_def)
  next
    case False
    then show ?thesis
      using that write_st [OF Cons.prems(1,2) l(1)] by (auto simp: b_def)
  qed
  obtain s2 t2 f2 where 2: "u_write fd w (int (length w)) s1 = Inr (int (length w), s2)" "app_st s2 t2 f2 out"
      "writing t2 f2 fd name ((c @ b) @ w)" "files f2 = (files f1)(name \<mapsto> (c @ b) @ w)"
    using write_st [OF 1(2,3) l(2)] by blast
  obtain s3 t3 f3 where 3: "write_args fd False ws s2 = Inr s3" "app_st s3 t3 f3 out"
      "writing t3 f3 fd name (((c @ b) @ w) @ sep False ws)" "files f3 = (files f2)(name \<mapsto> ((c @ b) @ w) @ sep False ws)"
    using Cons.IH [OF 2(2,3) l(3)] by blast
  have "write_args fd first (w # ws) s = Inr s3"
    using 1(1) 2(1) 3(1) by simp
  moreover have "files f3 = (files f)(name \<mapsto> c @ sep first (w # ws))"
    by (simp only: 3(4) 2(4) 1(4) fun_upd_upd sp append_assoc)
  ultimately show ?case
    using 3(2,3) by (simp only: sp append_assoc) blast
qed

section \<open>Reading a file to the console\<close>

text \<open>A file open for reading at an offset.\<close>

definition reading :: "file_desc list \<Rightarrow> ramfs \<Rightarrow> int \<Rightarrow> u8 list \<Rightarrow> nat \<Rightarrow> bool" where
  "reading t f fd c off \<longleftrightarrow>
     (\<exists>k i. get_open_fd t fd = Some k \<and> t ! k = \<lparr>fd_used = True, fd_inode = int i, fd_offset = of_nat off, fd_flags = O_RDONLY\<rparr> \<and>
       i < RAMFS_MAX_FILES \<and> contents (inodes f ! i) = c \<and> off \<le> length c \<and> length c \<le> RAMFS_DATA_MAX)"

lemma read_st:
  assumes st: "app_st s t f out" and r: "reading t f fd c off"
  shows "\<exists>buf s' t'. u_read E fd (g_iobuf s) 0 (int IOBUF_SIZE) s = Inr (int (length (drop off c)), buf, s') \<and>
    app_st (s'\<lparr>g_iobuf := buf\<rparr>) t' f out \<and> reading t' f fd c (length c) \<and> take (length (drop off c)) buf = drop off c"
proof -
  note d = app_stD [OF st]
  obtain k i where k: "get_open_fd t fd = Some k"
    and tk: "t ! k = \<lparr>fd_used = True, fd_inode = int i, fd_offset = of_nat off, fd_flags = O_RDONLY\<rparr>"
    and i: "i < RAMFS_MAX_FILES" "contents (inodes f ! i) = c" "off \<le> length c" "length c \<le> RAMFS_DATA_MAX"
    using r by (auto simp: reading_def)
  have kl: "k < length t"
    using k d(5) by (simp add: get_open_fd_Some)
  have io: "length (g_iobuf s) = IOBUF_SIZE"
    using st by (simp add: app_st_def buffers_ok_def)
  have u: "unat (of_nat off :: u32) = off"
    using i(3,4) by (simp add: unat_of_nat)
  define buf where "buf = drop off c @ drop (length (drop off c)) (g_iobuf s)"
  define t' where "t' = t[k := (t ! k)\<lparr>fd_offset := of_nat off + of_nat (length (drop off c))\<rparr>]"
  have tk': "drop off c = take 1024 (drop off c)"
    using i(4) by simp
  have put: "put_bytes (g_iobuf s) 0 (drop off c) = Inr buf" "length buf = IOBUF_SIZE"
    using io i(4) by (simp_all add: put_bytes_def buf_def)
  have z: "app_store 0 1 [] m = Inr m" for m
    by (simp add: app_store_def put_bytes_def)
  have run: "fs_read (kblk (menv_k E)) (app_store 0) fd 1 1024 (g_iobuf s) t f = Inr (int (length (drop off c)), buf, t', f)"
    using fs_read_ramfs [OF d(1,2) one_neq_zero k, where store = "app_store 0" and len = 1024 and dev = "kblk (menv_k E)" and m = "g_iobuf s"]
      z put tk' i(2) u by (simp add: tk is_ext_fd_def app_store_def t'_def)
  have inv: "fds_ok f t'"
    using fs_read_inv [OF d(2) run] by simp
  have "of_nat off + of_nat (length c - off) = (of_nat (length c) :: u32)"
    using i(3) by (simp add: of_nat_diff)
  then have "reading t' f fd c (length c)"
    using k kl i by (auto simp: reading_def get_open_fd_Some t'_def tk)
  moreover have "app_st ((set_sk (set_kfds t' ((sk s)\<lparr>kfs := f\<rparr>)) s)\<lparr>g_iobuf := buf\<rparr>) t' f out"
    using app_st_fs [OF st d(1,3) _ inv] put(2) by (auto simp: app_st_def sk_def buffers_ok_def view_ok_def filedb_ok_def)
  ultimately show ?thesis
    using run d(4) st by (auto simp: u_read_def app_st_def [of s] buf_def)
qed

lemma cat_loop_st:
  assumes st: "app_st s t f out" and r: "reading t f fd c 0"
  shows "\<exists>s' t'. cat_loop E fd s = Some (Inr s') \<and> app_st s' t' f (out @ c) \<and> reading t' f fd c (length c)"
proof -
  obtain buf s1 t1 where 1: "u_read E fd (g_iobuf s) 0 (int IOBUF_SIZE) s = Inr (int (length c), buf, s1)"
      "app_st (s1\<lparr>g_iobuf := buf\<rparr>) t1 f out" "reading t1 f fd c (length c)" "take (length c) buf = c"
    using read_st [OF st r, of E] by auto
  show ?thesis
  proof (cases "c = []")
    case True
    then show ?thesis
      using 1 by (subst cat_loop.simps) auto
  next
    case False
    let ?s = "u_puts c (s1\<lparr>g_iobuf := buf\<rparr>)"
    have 2: "app_st ?s t1 f (out @ c)"
      by (rule app_st_puts [OF 1(2)])
    obtain buf2 s2 t2 where 3: "u_read E fd (g_iobuf ?s) 0 (int IOBUF_SIZE) ?s = Inr (0, buf2, s2)"
        "app_st (s2\<lparr>g_iobuf := buf2\<rparr>) t2 f (out @ c)" "reading t2 f fd c (length c)"
      using read_st [OF 2 1(3), of E] by auto
    have "cat_loop E fd s = cat_loop E fd ?s"
      using False 1(1,4) by (subst cat_loop.simps) (simp add: fold_putchar)
    also have "\<dots> = Some (Inr (s2\<lparr>g_iobuf := buf2\<rparr>))"
      using 3(1) by (subst cat_loop.simps) simp
    finally show ?thesis
      using 3 by blast
  qed
qed

section \<open>The table of files and the view\<close>

text \<open>What only the shell itself can see: its table of files, its view and its windows.\<close>

definition own_change :: "'d shell \<Rightarrow> 'd shell \<Rightarrow> bool" where
  "own_change s s' \<longleftrightarrow> sm s' = sm s \<and> g_line s' = g_line s \<and> g_iobuf s' = g_iobuf s \<and> (buffers_ok s \<longrightarrow> buffers_ok s')"

lemma own_change_refl [simp]: "own_change s s"
  by (simp add: own_change_def)

lemma own_change_trans: "own_change s s' \<Longrightarrow> own_change s' s'' \<Longrightarrow> own_change s s''"
  by (auto simp: own_change_def)

lemma app_st_own_change: "app_st s t f out \<Longrightarrow> own_change s s' \<Longrightarrow> app_st s' t f out"
  by (simp add: app_st_def own_change_def sk_def)

lemma filedb_find_total:
  assumes "\<forall>b\<in>set bs. 0 \<in> set b"
  shows "\<exists>r. filedb_find bs path = Inr r \<and> (case r of None \<Rightarrow> True | Some i \<Rightarrow> i < length bs)"
  using assms
proof (induction bs)
  case (Cons b bs)
  then obtain r where "filedb_find bs path = Inr r" "case r of None \<Rightarrow> True | Some i \<Rightarrow> i < length bs"
    by auto
  then show ?case
    using Cons.prems by (auto simp: str_at_total split: option.splits)
qed simp

lemma filedb_found:
  assumes "buffers_ok s"
  obtains r where "filedb_find (take (g_file_db_count s) (g_file_db s)) path = Inr r"
    and "case r of None \<Rightarrow> True | Some i \<Rightarrow> i < g_file_db_count s \<and> i < FILE_DB_MAX"
proof -
  have "\<forall>b\<in>set (take (g_file_db_count s) (g_file_db s)). 0 \<in> set b"
    using assms by (auto simp: buffers_ok_def filedb_ok_def dest: in_set_takeD)
  then obtain r where "filedb_find (take (g_file_db_count s) (g_file_db s)) path = Inr r"
      "case r of None \<Rightarrow> True | Some i \<Rightarrow> i < length (take (g_file_db_count s) (g_file_db s))"
    using filedb_find_total by blast
  then show thesis
    using that assms by (auto simp: buffers_ok_def filedb_ok_def split: option.splits)
qed

lemma filedb_entry:
  assumes "buffers_ok s" and "n < FILE_DB_MAX" and "0 \<notin> set path"
  obtains b where "str_copy_lim (g_file_db s ! n) path (int FM_NAME_MAX) = Inr b" and "length b = FM_NAME_MAX" and "0 \<in> set b"
  using str_copy_lim_spec [of "int FM_NAME_MAX" "g_file_db s ! n" path] assms by (auto simp: buffers_ok_def filedb_ok_def)

lemma filedb_update:
  assumes "buffers_ok s" and "length b = FM_NAME_MAX" and "0 \<in> set b" and "c \<le> FILE_DB_MAX"
  shows "own_change s (s\<lparr>g_file_db_count := c, g_file_db := (g_file_db s)[n := b]\<rparr>)"
  using assms set_update_subset_insert [of "g_file_db s" n b] by (auto simp: own_change_def buffers_ok_def filedb_ok_def view_ok_def)

lemma filedb_add_st:
  assumes "buffers_ok s" and "0 \<notin> set path"
  shows "\<exists>s'. filedb_add path s = Inr s' \<and> own_change s s'"
proof -
  obtain r where r: "filedb_find (take (g_file_db_count s) (g_file_db s)) path = Inr r"
    using filedb_found [OF assms(1)] by blast
  show ?thesis
  proof (cases "r \<noteq> None \<or> FILE_DB_MAX \<le> g_file_db_count s")
    case False
    then obtain b where "str_copy_lim (g_file_db s ! g_file_db_count s) path (int FM_NAME_MAX) = Inr b" "length b = FM_NAME_MAX" "0 \<in> set b"
      using filedb_entry [OF assms(1) _ assms(2), of "g_file_db_count s"] by auto
    then show ?thesis
      using r False filedb_update [OF assms(1), of b "g_file_db_count s + 1"] by (simp add: filedb_add_def Let_def)
  qed (use r in \<open>auto simp: filedb_add_def\<close>)
qed

lemma filedb_shift_total:
  assumes "\<forall>j\<in>set js. j + 1 < length db" and "\<forall>b\<in>set db. length b = FM_NAME_MAX \<and> 0 \<in> set b"
  shows "\<exists>db'. filedb_shift js db = Inr db' \<and> length db' = length db \<and> (\<forall>b\<in>set db'. length b = FM_NAME_MAX \<and> 0 \<in> set b)"
  using assms
proof (induction js arbitrary: db)
  case (Cons j js)
  have j: "j < length db" "j + 1 < length db"
    using Cons.prems(1) by auto
  let ?e = "takeWhile (\<lambda>c. c \<noteq> 0) (db ! (j + 1))"
  have e: "str_at (db ! (j + 1)) 0 = Inr ?e" "0 \<notin> set ?e" "length (db ! j) = FM_NAME_MAX"
    using Cons.prems(2) j by (auto simp: str_at_total dest: set_takeWhileD)
  obtain b where b: "str_copy_lim (db ! j) ?e (int FM_NAME_MAX) = Inr b" "length b = FM_NAME_MAX" "0 \<in> set b"
    using str_copy_lim_spec [of "int FM_NAME_MAX" "db ! j" ?e] e by auto
  have "\<forall>x\<in>set (db[j := b]). length x = FM_NAME_MAX \<and> 0 \<in> set x"
    using Cons.prems(2) b set_update_subset_insert [of db j b] by auto
  then show ?case
    using Cons.IH [of "db[j := b]"] Cons.prems(1) e b by auto
qed simp

lemma filedb_remove_st:
  assumes "buffers_ok s"
  shows "\<exists>s'. filedb_remove path s = Inr s' \<and> own_change s s'"
proof -
  obtain r where r: "filedb_find (take (g_file_db_count s) (g_file_db s)) path = Inr r"
    and b: "case r of None \<Rightarrow> True | Some i \<Rightarrow> i < g_file_db_count s \<and> i < FILE_DB_MAX"
    using filedb_found [OF assms] by blast
  show ?thesis
  proof (cases r)
    case (Some i)
    have "\<forall>j\<in>set [i..<g_file_db_count s - 1]. j + 1 < length (g_file_db s)"
      using assms by (auto simp: buffers_ok_def filedb_ok_def)
    then obtain db' where "filedb_shift [i..<g_file_db_count s - 1] (g_file_db s) = Inr db'" "length db' = FILE_DB_MAX"
        "\<forall>b\<in>set db'. length b = FM_NAME_MAX \<and> 0 \<in> set b"
      using filedb_shift_total [of "[i..<g_file_db_count s - 1]" "g_file_db s"] assms by (auto simp: buffers_ok_def filedb_ok_def)
    then show ?thesis
      using r Some assms by (auto simp: filedb_remove_def own_change_def buffers_ok_def filedb_ok_def view_ok_def)
  qed (use r in \<open>simp add: filedb_remove_def\<close>)
qed

lemma append_char_own_change: "own_change s (term_view_append_char c s)"
  by (auto simp: term_view_append_char_def own_change_def Let_def buffers_ok_def view_ok_def filedb_ok_def)

lemma append_own_change: "own_change s (term_view_append cs s)"
proof (induction cs arbitrary: s)
  case (Cons c cs)
  show ?case
    using own_change_trans [OF append_char_own_change Cons.IH] by simp
qed simp

lemma backspace_own_change: "own_change s (term_view_backspace s)"
  by (auto simp: term_view_backspace_def own_change_def Let_def buffers_ok_def view_ok_def filedb_ok_def)

lemma sync_st:
  assumes "buffers_ok s"
  shows "\<exists>s'. term_view_sync s = Inr s' \<and> own_change s s'"
proof -
  have "0 \<in> set (g_term_view s)"
    using assms nth_mem [of "g_term_view_len s" "g_term_view s"] by (auto simp: buffers_ok_def view_ok_def)
  then show ?thesis
    by (auto simp: term_view_sync_def str_at_total u_wm_set_text_def own_change_def buffers_ok_def view_ok_def filedb_ok_def)
qed

lemma synced:
  assumes "app_st s t f out" and "own_change s s1"
  shows "\<exists>s'. term_view_sync s1 = Inr s' \<and> app_st s' t f out \<and> own_change s s'"
proof -
  have "app_st s1 t f out"
    using app_st_own_change [OF assms] .
  then show ?thesis
    using sync_st [of s1] app_st_own_change own_change_trans [OF assms(2)] by (metis app_st_def)
qed

section \<open>Commands\<close>

text \<open>Opening a file, with all its outcomes.\<close>

lemma open_fails:
  assumes st: "app_st s t f out"
    and "case normalize_name path of None \<Rightarrow> True | Some name \<Rightarrow> \<not> can_open name flags f"
  shows "\<exists>s'. u_open path flags s = Inr (-1, s') \<and> app_st s' t f out"
proof -
  note d = app_stD [OF st]
  have "fs_open path flags t f = (-1, t, f)"
  proof (cases "normalize_name path")
    case (Some name)
    show ?thesis
      using fs_open_ramfs(1) [OF d(1,2) Some noext [OF d(3)]] assms(2) Some by (cases "fs_open path flags t f") auto
  qed (simp add: fs_open_def)
  then show ?thesis
    by (rule open_st [OF st])
qed

lemma open_works:
  assumes st: "app_st s t f out" and free: "0 < free_fds t" and name: "normalize_name path = Some name"
    and can: "can_open name flags f" and fl: "flags AND O_APPEND = 0"
  obtains fd s' t' f' k i where "u_open path flags s = Inr (fd, s')" and "0 \<le> fd" and "app_st s' t' f' out"
    and "files f' = opened name flags (files f)" and "get_open_fd t' fd = Some k"
    and "t' ! k = \<lparr>fd_used = True, fd_inode = int i, fd_offset = 0, fd_flags = flags\<rparr>"
    and "i < RAMFS_MAX_FILES" and "ri_used (inodes f' ! i)" and "ri_name (inodes f' ! i) = name"
    and "files f' name = Some (contents (inodes f' ! i))"
proof -
  note d = app_stD [OF st]
  obtain fd t' f' where o: "fs_open path flags t f = (fd, t', f')"
    by (cases "fs_open path flags t f")
  obtain i where i: "fs_ok f'" "files f' = opened name flags (files f)" "i < RAMFS_MAX_FILES" "ri_used (inodes f' ! i)"
      "ri_name (inodes f' ! i) = name" and ins: "install_fd t (int i) flags 0 = (fd, t')"
    using fs_open_ramfs(2) [OF d(1,2) name noext [OF d(3)] o can] fl by auto
  have fd: "0 \<le> fd" "get_open_fd t' fd = Some (nat fd)"
    "t' ! nat fd = \<lparr>fd_used = True, fd_inode = int i, fd_offset = 0, fd_flags = flags\<rparr>"
    using install_fd_at [OF ins] install_fd_free [OF ins free] d(5) by auto
  obtain s' where "u_open path flags s = Inr (fd, s')" "app_st s' t' f' out"
    using open_st [OF st o] by blast
  moreover have "files f' name = Some (contents (inodes f' ! i))"
    using files_at [OF i(1,3,4)] i(5) by simp
  ultimately show thesis
    using that fd i(2-5) by blast
qed

text \<open>What a command sends to the console and makes of the files.\<close>

definition room :: "cstr \<Rightarrow> (cstr \<rightharpoonup> u8 list) \<Rightarrow> bool" where
  "room name m \<longleftrightarrow> m name \<noteq> None \<or> card (dom m) \<noteq> RAMFS_MAX_FILES"

definition cat_spec :: "cstr \<Rightarrow> (cstr \<rightharpoonup> u8 list) \<Rightarrow> u8 list" where
  "cat_spec path m =
     (case Option.bind (normalize_name path) m of None \<Rightarrow> lit ''cat: fail'' @ [10] | Some c \<Rightarrow> c @ [10])"

definition put_spec :: "string \<Rightarrow> (u8 list option \<Rightarrow> u8 list) \<Rightarrow> cstr \<Rightarrow> (cstr \<rightharpoonup> u8 list) \<Rightarrow> u8 list \<times> (cstr \<rightharpoonup> u8 list)" where
  "put_spec msg g path m =
     (case normalize_name path of
        None \<Rightarrow> (lit msg @ [10], m)
      | Some name \<Rightarrow> if room name m then ([], m(name \<mapsto> g (m name))) else (lit msg @ [10], m))"

definition rm_spec :: "cstr \<Rightarrow> (cstr \<rightharpoonup> u8 list) \<Rightarrow> u8 list \<times> (cstr \<rightharpoonup> u8 list)" where
  "rm_spec path m =
     (case normalize_name path of
        None \<Rightarrow> (lit ''rm: fail'' @ [10], m)
      | Some name \<Rightarrow> if m name = None then (lit ''rm: fail'' @ [10], m) else ([], m(name := None)))"

lemma can_open_room: "fs_ok f \<Longrightarrow> flags AND O_CREAT \<noteq> 0 \<Longrightarrow> can_open name flags f \<longleftrightarrow> room name (files f)"
  by (simp add: can_open_def room_def alloc_inode_None_iff)

lemma cat_st:
  assumes st: "app_st s t f out" and free: "0 < free_fds t"
  shows "\<exists>s' t' f'. shell_cat E path s = Some (Inr s') \<and> app_st s' t' f' (out @ cat_spec path (files f)) \<and> files f' = files f \<and> 0 < free_fds t'"
proof (cases "Option.bind (normalize_name path) (files f)")
  case None
  then have "case normalize_name path of None \<Rightarrow> True | Some name \<Rightarrow> \<not> can_open name O_RDONLY f"
    by (auto simp: can_open_def split: option.split)
  then obtain s1 where "u_open path O_RDONLY s = Inr (-1, s1)" "app_st s1 t f out"
    using open_fails [OF st] by blast
  then show ?thesis
    using None free app_st_puts by (fastforce simp: shell_cat_def obind_def cat_spec_def)
next
  case (Some c)
  then obtain name where name: "normalize_name path = Some name" "files f name = Some c"
    by (cases "normalize_name path") auto
  obtain fd s1 t1 f1 k i where 1: "u_open path O_RDONLY s = Inr (fd, s1)" "0 \<le> fd" "app_st s1 t1 f1 out"
      "files f1 = opened name O_RDONLY (files f)" "get_open_fd t1 fd = Some k"
      "t1 ! k = \<lparr>fd_used = True, fd_inode = int i, fd_offset = 0, fd_flags = O_RDONLY\<rparr>" "i < RAMFS_MAX_FILES"
      "files f1 name = Some (contents (inodes f1 ! i))"
    by (rule open_works [OF st free name(1), of O_RDONLY]) (auto simp: can_open_def name(2))
  have f1: "files f1 = files f"
    using 1(4) name(2) by (auto simp: opened_def)
  then have "reading t1 f1 fd c 0"
    using 1 name(2) fs_ok_inode [OF app_stD(1) [OF 1(3)] 1(7)] by (auto simp: reading_def contents_def inode_wf_def)
  then obtain s2 t2 where 2: "cat_loop E fd s1 = Some (Inr s2)" "app_st s2 t2 f1 (out @ c)" "reading t2 f1 fd c (length c)"
    using cat_loop_st [OF 1(3), of fd c E] by blast
  obtain k2 where "get_open_fd t2 fd = Some k2"
    using 2(3) by (auto simp: reading_def)
  then obtain s3 where 3: "u_close fd s2 = Inr (0, s3)" "app_st s3 (t2[k2 := no_file]) f1 (out @ c)" "0 < free_fds (t2[k2 := no_file])"
    using close_st [OF 2(2)] by blast
  then show ?thesis
    using 1(1,2) 2(1) 3 f1 app_st_putchar [OF 3(2), of 10] Some by (auto simp: shell_cat_def obind_def cat_spec_def)
qed

text \<open>The two commands that create a file, over what they do with the descriptor before they close it.\<close>

lemma put_st:
  assumes st: "app_st s t f out" and free: "0 < free_fds t" and path: "0 \<notin> set path"
    and fl: "flags AND O_CREAT \<noteq> 0" "flags AND O_APPEND = 0"
    and cmd: "cmd = kbind (u_open path flags s) (\<lambda>(fd, s).
        if fd < 0 then Inr (u_puts (lit msg @ [10]) s)
        else kbind (fill fd s) (\<lambda>s. kbind (u_close fd s) (\<lambda>(_, s). filedb_add path s)))"
    and fill: "\<And>fd s t f1 k i name. app_st s t f1 out \<Longrightarrow> get_open_fd t fd = Some k \<Longrightarrow>
        t ! k = \<lparr>fd_used = True, fd_inode = int i, fd_offset = 0, fd_flags = flags\<rparr> \<Longrightarrow> i < RAMFS_MAX_FILES \<Longrightarrow>
        ri_used (inodes f1 ! i) \<Longrightarrow> ri_name (inodes f1 ! i) = name \<Longrightarrow> files f1 = opened name flags (files f) \<Longrightarrow>
        \<exists>s' t' f'. fill fd s = Inr s' \<and> app_st s' t' f' out \<and> (\<exists>k. get_open_fd t' fd = Some k) \<and>
          files f' = (files f1)(name \<mapsto> g (contents (inodes f1 ! i)))"
    and g: "\<And>m name. g' (m name) = g (the (opened name flags m name))"
  shows "\<exists>s' t' f'. cmd = Inr s' \<and> app_st s' t' f' (out @ fst (put_spec msg g' path (files f))) \<and>
    files f' = snd (put_spec msg g' path (files f)) \<and> 0 < free_fds t'"
proof (cases "\<exists>name. normalize_name path = Some name \<and> room name (files f)")
  case False
  then have "case normalize_name path of None \<Rightarrow> True | Some name \<Rightarrow> \<not> can_open name flags f"
    using can_open_room [OF app_stD(1) [OF st] fl(1)] by (auto split: option.split)
  then obtain s1 where 1: "u_open path flags s = Inr (-1, s1)" "app_st s1 t f out"
    using open_fails [OF st] by blast
  have "put_spec msg g' path (files f) = (lit msg @ [10], files f)"
    using False by (auto simp: put_spec_def split: option.split)
  then show ?thesis
    using 1(1) free app_st_puts [OF 1(2), of "lit msg @ [10]"] by (auto simp: cmd)
next
  case True
  then obtain name where name: "normalize_name path = Some name" "room name (files f)"
    by blast
  then have can: "can_open name flags f"
    using can_open_room [OF app_stD(1) [OF st] fl(1)] by blast
  obtain fd s1 t1 f1 k i where 1: "u_open path flags s = Inr (fd, s1)" "0 \<le> fd" "app_st s1 t1 f1 out"
      "files f1 = opened name flags (files f)" "get_open_fd t1 fd = Some k"
      "t1 ! k = \<lparr>fd_used = True, fd_inode = int i, fd_offset = 0, fd_flags = flags\<rparr>" "i < RAMFS_MAX_FILES"
      "ri_used (inodes f1 ! i)" "ri_name (inodes f1 ! i) = name" "files f1 name = Some (contents (inodes f1 ! i))"
    by (rule open_works [OF st free name(1) can fl(2)])
  obtain s2 t2 f2 k2 where 2: "fill fd s1 = Inr s2" "app_st s2 t2 f2 out" "get_open_fd t2 fd = Some k2"
      "files f2 = (files f1)(name \<mapsto> g (contents (inodes f1 ! i)))"
    using fill [OF 1(3,5-9,4)] by blast
  obtain s3 where 3: "u_close fd s2 = Inr (0, s3)" "app_st s3 (t2[k2 := no_file]) f2 out" "0 < free_fds (t2[k2 := no_file])"
    using close_st [OF 2(2,3)] by blast
  obtain s4 where 4: "filedb_add path s3 = Inr s4" "own_change s3 s4"
    using filedb_add_st [OF _ path, of s3] 3(2) by (auto simp: app_st_def)
  have "g (contents (inodes f1 ! i)) = g' (files f name)"
    using g [of "files f" name] 1(4,10) by simp
  then have "files f2 = (files f)(name \<mapsto> g' (files f name))"
    using 2(4) 1(4) by (simp add: opened_def fun_upd_upd)
  then show ?thesis
    using 1(1,2) 2(1) 3 4 name app_st_own_change [OF 3(2) 4(2)] by (auto simp: cmd put_spec_def)
qed

lemma touch_st:
  assumes "app_st s t f out" and "0 < free_fds t" and "0 \<notin> set path"
  shows "\<exists>s' t' f'. shell_touch path s = Inr s' \<and>
    app_st s' t' f' (out @ fst (put_spec ''touch: fail'' (case_option [] id) path (files f))) \<and>
    files f' = snd (put_spec ''touch: fail'' (case_option [] id) path (files f)) \<and> 0 < free_fds t'"
proof (rule put_st [OF assms, where flags = "O_CREAT OR O_RDWR" and fill = "\<lambda>fd s. Inr s" and g = id])
  fix fd s t f1 k i name
  assume a: "app_st s t f1 out" "get_open_fd t fd = Some k" "i < RAMFS_MAX_FILES" "ri_used (inodes f1 ! i)" "ri_name (inodes f1 ! i) = name"
  then have "files f1 name = Some (contents (inodes f1 ! i))"
    using files_at [OF app_stD(1) [OF a(1)] a(3,4)] by simp
  then show "\<exists>s' t' f'. Inr s = Inr s' \<and> app_st s' t' f' out \<and> (\<exists>k. get_open_fd t' fd = Some k) \<and>
      files f' = (files f1)(name \<mapsto> id (contents (inodes f1 ! i)))"
    using a by (intro exI [of _ s] exI [of _ t] exI [of _ f1]) (auto simp: fun_upd_idem)
qed (auto simp: shell_touch_def opened_def cong: if_cong split: option.split)

lemma write_cmd_st:
  assumes "app_st s t f out" and "0 < free_fds t" and "0 \<notin> set path" and len: "length (joined ws) \<le> RAMFS_DATA_MAX"
  shows "\<exists>s' t' f'. shell_write path (a # b # ws) s = Inr s' \<and>
    app_st s' t' f' (out @ fst (put_spec ''write: fail'' (\<lambda>_. joined ws) path (files f))) \<and>
    files f' = snd (put_spec ''write: fail'' (\<lambda>_. joined ws) path (files f)) \<and> 0 < free_fds t'"
proof (rule put_st [OF assms(1-3), where flags = "O_CREAT OR O_TRUNC OR O_WRONLY" and fill = "\<lambda>fd s. write_args fd True ws s"
      and g = "\<lambda>_. joined ws"])
  fix fd s t f1 k i name
  assume a: "app_st s t f1 out" "get_open_fd t fd = Some k"
    "t ! k = \<lparr>fd_used = True, fd_inode = int i, fd_offset = 0, fd_flags = O_CREAT OR O_TRUNC OR O_WRONLY\<rparr>"
    "i < RAMFS_MAX_FILES" "ri_used (inodes f1 ! i)" "ri_name (inodes f1 ! i) = name"
    "files f1 = opened name (O_CREAT OR O_TRUNC OR O_WRONLY) (files f)"
  have "contents (inodes f1 ! i) = []"
    using files_at [OF app_stD(1) [OF a(1)] a(4,5)] a(6,7) by (auto simp: opened_def split: option.splits)
  then have "writing t f1 fd name []"
    using a(2-6) by (auto simp: writing_def)
  then show "\<exists>s' t' f'. write_args fd True ws s = Inr s' \<and> app_st s' t' f' out \<and> (\<exists>k. get_open_fd t' fd = Some k) \<and>
      files f' = (files f1)(name \<mapsto> joined ws)"
    using write_args_st [OF a(1), of fd name "[]" True ws] len by (fastforce simp: sep_def writing_def)
qed (auto simp: shell_write_def cong: if_cong)

lemma drop_fd_free: "0 < free_fds t \<Longrightarrow> 0 < free_fds (map (drop_fd i) t)"
  by (auto simp: free_fds_def filter_empty_conv drop_fd_def)

lemma rm_st:
  assumes st: "app_st s t f out" and free: "0 < free_fds t"
  shows "\<exists>s' t' f'. shell_rm path s = Inr s' \<and> app_st s' t' f' (out @ fst (rm_spec path (files f))) \<and>
    files f' = snd (rm_spec path (files f)) \<and> 0 < free_fds t'"
proof -
  note d = app_stD [OF st]
  let ?K = "sk s"
  obtain c where c: "c < length (kprocs ?K)" "current_proc (tab (ksys ?K)) = Some c"
    using st by (auto simp: app_st_def kfs_ok_def)
  have tbls: "\<forall>t\<in>set (map fds (kprocs ?K)). fds_ok f t"
    using st by (auto simp: app_st_def kfs_ok_def)
  obtain rc ts f' where u: "fs_unlink path (map fds (kprocs ?K)) f = (rc, ts, f')"
    by (cases "fs_unlink path (map fds (kprocs ?K)) f")
  note ok = fs_unlink_ok [OF d(1) tbls u]
  have t: "t = map fds (kprocs ?K) ! c"
    using st c by (simp add: app_st_def ctbl_def)
  have tc: "ts ! c = t \<or> (\<exists>i. ts ! c = map (drop_fd i) t)"
    using u c(1) by (auto simp: fs_unlink_def t split: option.splits)
  have ext: "\<not> ext4_ready f'"
    using u d(3) by (auto simp: fs_unlink_def set_inode_def split: option.splits)
  define K' where "K' = set_ksys ((ksys ?K)\<lparr>tab := (tab (ksys ?K))\<lparr>procs := set_all_fds ts (kprocs ?K)\<rparr>\<rparr>) (?K\<lparr>kfs := f'\<rparr>)"
  have run: "u_unlink path s = (rc, set_sk K' s)"
    using u st by (simp add: u_unlink_def kprocs_def K'_def app_st_def Let_def)
  have ps: "kprocs K' = set_all_fds ts (kprocs ?K)" "current_proc (tab (ksys K')) = Some c" "kfs K' = f'" "kcon K' = kcon ?K"
    using c by (simp_all add: K'_def kprocs_def ksys_def set_ksys_def)
  have l: "length ts = length (kprocs ?K)"
    using ok(3) by simp
  have "\<forall>p\<in>set (kprocs K'). fds_ok f' (fds p)"
    using ok(2) l by (auto simp: ps set_all_fds_def set_zip)
  then have "kfs_ok K'"
    using ok(1) ext c(1) l ps by (auto simp: kfs_ok_def set_all_fds_def)
  moreover have "ctbl K' = ts ! c"
    using c(1) l ps by (simp add: ctbl_def set_all_fds_def)
  ultimately have st': "app_st (set_sk K' s) (ts ! c) f' out"
    using st ps by (simp add: app_st_def)
  have fr: "0 < free_fds (ts ! c)"
    using tc free drop_fd_free by auto
  have res: "files f' = snd (rm_spec path (files f))" "rc < 0 \<longleftrightarrow> fst (rm_spec path (files f)) \<noteq> []"
    "fst (rm_spec path (files f)) = [] \<or> fst (rm_spec path (files f)) = lit ''rm: fail'' @ [10]"
    using ok(4,5) by (auto simp: rm_spec_def lit_def fun_upd_idem split: option.split)
  show ?thesis
  proof (cases "rc < 0")
    case True
    then show ?thesis
      using run res fr app_st_puts [OF st', of "lit ''rm: fail'' @ [10]"] by (auto simp: shell_rm_def)
  next
    case False
    obtain s2 where "filedb_remove path (set_sk K' s) = Inr s2" "own_change (set_sk K' s) s2"
      using filedb_remove_st [of "set_sk K' s" path] st' by (auto simp: app_st_def)
    then show ?thesis
      using False run res fr app_st_own_change [OF st'] by (auto simp: shell_rm_def)
  qed
qed

text \<open>The commands that work on files and on the console; the others open windows or switch the machine off.\<close>

definition file_command :: "cstr list \<Rightarrow> bool" where
  "file_command argv \<longleftrightarrow> argv = [] \<or> argv ! 0 \<notin> {lit ''ls'', lit ''gui'', lit ''img'', lit ''fm'', lit ''shutdown''}"

definition command_spec :: "cstr list \<Rightarrow> (cstr \<rightharpoonup> u8 list) \<Rightarrow> u8 list \<times> (cstr \<rightharpoonup> u8 list)" where
  "command_spec argv m =
     (if argv = [] then ([], m)
      else if argv ! 0 = lit ''help'' then
        (lit ''commands: help, ls, cat, touch, write, rm, gui, img, fm, shutdown'' @ [10], m)
      else if argv ! 0 = lit ''cat'' then
        (if 1 < length argv then (cat_spec (argv ! 1) m, m) else (lit ''usage: cat <path>'' @ [10], m))
      else if argv ! 0 = lit ''touch'' then
        (if 1 < length argv then put_spec ''touch: fail'' (case_option [] id) (argv ! 1) m else (lit ''usage: touch <path>'' @ [10], m))
      else if argv ! 0 = lit ''write'' then
        (if 2 < length argv then put_spec ''write: fail'' (\<lambda>_. joined (drop 2 argv)) (argv ! 1) m
         else (lit ''usage: write <path> <text>'' @ [10], m))
      else if argv ! 0 = lit ''rm'' then
        (if 1 < length argv then rm_spec (argv ! 1) m else (lit ''usage: rm <path>'' @ [10], m))
      else (lit ''unknown command'' @ [10], m))"

lemma lit_eq_iff [simp]: "lit a = lit b \<longleftrightarrow> a = b"
proof -
  have "inj (of_char :: char \<Rightarrow> u8)"
  proof (rule injI)
    fix x y :: char
    assume "(of_char x :: u8) = of_char y"
    moreover have "unat (of_char c :: u8) = of_char c" for c
    proof -
      have "(of_char c :: u8) = of_nat (of_char c)"
        by (rule of_nat_of_char [symmetric])
      then show ?thesis
        using nat_of_char_less_256 [of c] by (simp only: unat_of_nat) simp
    qed
    ultimately show "x = y"
      by (metis of_char_eq_iff)
  qed
  then show ?thesis
    by (simp add: lit_def inj_map_eq_map)
qed

lemma run_command_st:
  assumes st: "app_st s t f out" and free: "0 < free_fds t" and cmd: "file_command argv"
    and args: "\<forall>a\<in>set argv. 0 \<notin> set a" and len: "length (joined (drop 2 argv)) \<le> RAMFS_DATA_MAX"
  shows "\<exists>s' t' f'. run_command E argv s = Some (Inr (False, s')) \<and> app_st s' t' f' (out @ fst (command_spec argv (files f))) \<and>
    files f' = snd (command_spec argv (files f)) \<and> 0 < free_fds t'"
proof -
  note puts = app_st_puts [OF st]
  consider (none) "argv = []" | (hlp) "argv \<noteq> []" "argv ! 0 = lit ''help''" | (cat) "1 < length argv" "argv ! 0 = lit ''cat''"
    | (touch) "1 < length argv" "argv ! 0 = lit ''touch''" | (wr) "2 < length argv" "argv ! 0 = lit ''write''"
    | (rm) "1 < length argv" "argv ! 0 = lit ''rm''"
    | (msg) "argv \<noteq> []" "argv ! 0 \<noteq> lit ''help''" "argv ! 0 = lit ''write'' \<Longrightarrow> \<not> 2 < length argv"
      "argv ! 0 \<in> {lit ''cat'', lit ''touch'', lit ''rm''} \<Longrightarrow> \<not> 1 < length argv"
    by blast
  then show ?thesis
  proof cases
    case none
    then show ?thesis
      using st free by (auto simp: run_command_def command_spec_def Let_def)
  next
    case hlp
    then show ?thesis
      using puts free by (fastforce simp: run_command_def command_spec_def shell_help_def Let_def)
  next
    case cat
    then show ?thesis
      using cat_st [OF st free, of E "argv ! 1"] by (fastforce simp: run_command_def command_spec_def obind_def Let_def)
  next
    case touch
    then have "0 \<notin> set (argv ! 1)"
      using args by simp
    then show ?thesis
      using touch touch_st [OF st free] by (fastforce simp: run_command_def command_spec_def Let_def)
  next
    case wr
    then obtain a b ws where a: "argv = a # b # ws" "ws \<noteq> []"
      by (cases argv; cases "tl argv") auto
    then have b: "0 \<notin> set b" "length (joined ws) \<le> RAMFS_DATA_MAX"
      using args len by simp_all
    have "run_command E argv s = Some (kbind (shell_write b (a # b # ws) s) (\<lambda>s. Inr (False, s)))"
      "command_spec argv (files f) = put_spec ''write: fail'' (\<lambda>_. joined ws) b (files f)"
      using wr a by (simp_all add: run_command_def command_spec_def)
    then show ?thesis
      using write_cmd_st [OF st free b, of a b] by fastforce
  next
    case rm
    then show ?thesis
      using rm_st [OF st free, of "argv ! 1"] by (fastforce simp: run_command_def command_spec_def Let_def)
  next
    case msg
    then have "run_command E argv s = Some (Inr (False, u_puts (fst (command_spec argv (files f))) s)) \<and>
        snd (command_spec argv (files f)) = files f"
      using cmd by (simp add: run_command_def command_spec_def Let_def file_command_def)
    then show ?thesis
      using puts free by metis
  qed
qed

section \<open>Typing a line\<close>

text \<open>Handling several characters, one after the other.\<close>

fun shell_keys :: "'d menv \<Rightarrow> int list \<Rightarrow> nat \<Rightarrow> 'd shell \<Rightarrow> 'd sh_outcome kres option" where
  "shell_keys E [] len s = Some (Inr (Sh_next len s))"
| "shell_keys E (ch # chs) len s =
     obind (shell_key E ch len s) (\<lambda>r. case r of Sh_next len s \<Rightarrow> shell_keys E chs len s | r \<Rightarrow> Some (Inr r))"

definition printable :: "u8 \<Rightarrow> bool" where
  "printable c \<longleftrightarrow> 32 \<le> c \<and> c \<le> 126"

lemma printable_uint: "printable c \<Longrightarrow> 32 \<le> uint c \<and> uint c \<le> 126 \<and> c \<noteq> 0"
  by (auto simp: printable_def word_le_def)

lemma key_st:
  assumes st: "app_st s t f out" and "printable c" and "len + 1 < SHELL_MAX_LINE"
  shows "\<exists>s'. shell_key E (uint c) len s = Some (Inr (Sh_next (len + 1) s')) \<and> app_st s' t f (out @ [c]) \<and>
    g_line s' = (g_line s)[len := c]"
proof -
  let ?s = "s\<lparr>g_line := (g_line s)[len := c]\<rparr>"
  have "app_st ?s t f out"
    using st by (auto simp: app_st_def buffers_ok_def view_ok_def filedb_ok_def sk_def)
  then have "app_st (u_putchar c ?s) t f (out @ [c])"
    by (rule app_st_putchar)
  then obtain s' where s': "term_view_sync (term_view_append_char c (u_putchar c ?s)) = Inr s'" "app_st s' t f (out @ [c])"
      "own_change (u_putchar c ?s) s'"
    using synced append_char_own_change by blast
  have "g_line s' = (g_line s)[len := c]"
    using s'(3) by (simp add: own_change_def u_putchar_def)
  then show ?thesis
    using s'(1,2) printable_uint [OF assms(2)] assms(3) by (auto simp: shell_key_def Let_def)
qed

lemma typing_st:
  assumes "app_st s t f out" and "\<forall>c\<in>set xs. printable c" and "len + length xs < SHELL_MAX_LINE"
  shows "\<exists>s'. shell_keys E (map uint xs @ chs) len s = shell_keys E chs (len + length xs) s' \<and> app_st s' t f (out @ xs) \<and>
    take (len + length xs) (g_line s') = take len (g_line s) @ xs"
  using assms
proof (induction xs arbitrary: s out len)
  case Nil
  then show ?case
    by auto
next
  case (Cons c xs)
  obtain s1 where 1: "shell_key E (uint c) len s = Some (Inr (Sh_next (len + 1) s1))" "app_st s1 t f (out @ [c])"
      "g_line s1 = (g_line s)[len := c]"
    using key_st [OF Cons.prems(1), of c len E] Cons.prems(2,3) by auto
  obtain s2 where 2: "shell_keys E (map uint xs @ chs) (len + 1) s1 = shell_keys E chs (len + 1 + length xs) s2"
      "app_st s2 t f ((out @ [c]) @ xs)" "take (len + 1 + length xs) (g_line s2) = take (len + 1) (g_line s1) @ xs"
    using Cons.IH [OF 1(2), of "len + 1"] Cons.prems(2,3) by auto
  have "len < length (g_line s)"
    using Cons.prems(1,3) by (simp add: app_st_def buffers_ok_def)
  then have "take (len + 1) (g_line s1) = take len (g_line s) @ [c]"
    by (simp add: 1(3) take_Suc_conv_app_nth)
  then show ?case
    using 1(1) 2 by (intro exI [of _ s2]) (simp add: obind_def)
qed

lemma read_args_list: "list_all2 (\<lambda>i a. str_at line i = Inr a) idx argv \<Longrightarrow> read_args line idx = Inr argv"
  by (induction rule: list_all2_induct) simp_all

lemma line_args_sub: "a \<in> set (line_args n xs) \<Longrightarrow> set a \<subseteq> set xs"
proof (induction n xs arbitrary: a rule: line_args.induct)
  case (2 n xs)
  then show ?case
    by (fastforce simp: Let_def split: if_splits dest: set_takeWhileD set_dropWhileD)
qed simp

lemma joined_Cons: "length (joined (w # ws)) = length w + (if ws = [] then 0 else Suc (length (joined ws)))"
  by (cases ws) simp_all

lemma joined_drop: "length (joined (drop k ws)) \<le> length (joined ws)"
proof (induction ws arbitrary: k)
  case (Cons w ws)
  show ?case
    using Cons.IH [of "k - 1"] by (cases k) (auto simp: joined_Cons)
qed simp

lemma joined_line_args: "length (joined (line_args n xs)) \<le> length (dropWhile is_blank xs)"
proof (induction n xs rule: line_args.induct)
  case (2 n xs)
  define ys where "ys = dropWhile is_blank xs"
  define r where "r = dropWhile (\<lambda>c. \<not> is_blank c) ys"
  show ?case
  proof (cases "ys = [] \<or> n = 0")
    case False
    have "length (takeWhile (\<lambda>c. \<not> is_blank c) ys) + length r = length ys"
      unfolding r_def by (metis length_append takeWhile_dropWhile_id)
    moreover have "length (joined (line_args n r)) \<le> length (dropWhile is_blank r)"
      using 2 False by (simp add: ys_def r_def)
    moreover have "r = [] \<or> Suc (length (dropWhile is_blank r)) \<le> length r"
      using hd_dropWhile [of "\<lambda>c. \<not> is_blank c" ys] length_dropWhile_le [of is_blank "tl r"]
      by (cases r) (auto simp: r_def [symmetric])
    moreover have "r = [] \<Longrightarrow> line_args n r = []"
      by (cases n) simp_all
    ultimately show ?thesis
      using False by (auto simp: Let_def joined_Cons ys_def [symmetric] r_def [symmetric])
  qed (auto simp: ys_def Let_def)
qed simp

lemma enter_st:
  assumes st: "app_st s t f out" and free: "0 < free_fds t" and xs: "take len (g_line s) = xs" "length xs = len" "len < SHELL_MAX_LINE"
    "0 \<notin> set xs" and cmd: "file_command (line_args SHELL_MAX_ARGS xs)"
  shows "\<exists>s' t' f'. shell_enter E len s = Some (Inr (Sh_next 0 s')) \<and>
    app_st s' t' f' (out @ [10] @ fst (command_spec (line_args SHELL_MAX_ARGS xs) (files f)) @ lit ''k> '') \<and>
    files f' = snd (command_spec (line_args SHELL_MAX_ARGS xs) (files f)) \<and> 0 < free_fds t'"
proof -
  let ?argv = "line_args SHELL_MAX_ARGS xs" and ?s = "term_view_append [10] (u_putchar 10 s)"
  have st1: "app_st ?s t f (out @ [10])"
    using app_st_own_change [OF app_st_putchar [OF st] append_own_change] .
  have gl: "g_line ?s = g_line s"
    using append_own_change [of "u_putchar 10 s" "[10]"] by (simp add: own_change_def u_putchar_def)
  have len: "length (g_line s) = SHELL_MAX_LINE"
    using st by (simp add: app_st_def buffers_ok_def)
  define rest where "rest = drop (len + 1) (g_line s)"
  have put: "put_bytes (g_line ?s) len [0] = Inr (xs @ 0 # rest)"
    unfolding gl using xs len by (simp add: put_bytes_def rest_def)
  obtain idx ys where sp: "split_args (xs @ 0 # rest) SHELL_MAX_ARGS = Inr (idx, ys @ 0 # rest)" "length ys = length xs"
      "list_all2 (\<lambda>i a. str_at (ys @ 0 # rest) i = Inr a) idx ?argv"
    using split_args_spec [OF xs(4), of rest SHELL_MAX_ARGS] by blast
  let ?s2 = "?s\<lparr>g_line := ys @ 0 # rest\<rparr>"
  have "length (ys @ 0 # rest) = SHELL_MAX_LINE"
    using sp(2) xs(2,3) len by (simp add: rest_def)
  then have st2: "app_st ?s2 t f (out @ [10])"
    using st1 by (auto simp: app_st_def buffers_ok_def view_ok_def filedb_ok_def sk_def)
  have "\<forall>a\<in>set ?argv. 0 \<notin> set a"
    using line_args_sub xs(4) by blast
  moreover have "length (joined (drop 2 ?argv)) \<le> RAMFS_DATA_MAX"
    using joined_drop [of 2 ?argv] joined_line_args [of SHELL_MAX_ARGS xs] length_dropWhile_le [of is_blank xs] xs(2,3) by linarith
  ultimately obtain s3 t3 f3 where 3: "run_command E ?argv ?s2 = Some (Inr (False, s3))"
      "app_st s3 t3 f3 ((out @ [10]) @ fst (command_spec ?argv (files f)))"
      "files f3 = snd (command_spec ?argv (files f))" "0 < free_fds t3"
    using run_command_st [OF st2 free cmd, of E] by blast
  obtain s4 where 4: "term_view_sync (term_view_append (lit ''k> '') (u_puts (lit ''k> '') s3)) = Inr s4"
      "app_st s4 t3 f3 (((out @ [10]) @ fst (command_spec ?argv (files f))) @ lit ''k> '')"
    using synced [OF app_st_puts [OF 3(2)] append_own_change] by blast
  have "shell_enter E len s = Some (Inr (Sh_next 0 s4))"
    using put sp(1) read_args_list [OF sp(3)] 3(1) 4(1) by (simp add: shell_enter_def Let_def obind_def)
  then show ?thesis
    using 4(2) 3(3,4) by auto
qed

text \<open>
  C12. A line typed at the prompt. For every printable line of fewer than 128 characters whose first word is not one of the
  commands that list the directory, open windows or switch the machine off: when its characters and a line end are handled one after the other, the
  shell returns to its prompt; it has echoed the line and has sent what the command sends; and the files
  have become what the command makes of a map from names to contents of at most 32 files. \<^verbatim>\<open>cat\<close> prints a file and ends, \<^verbatim>\<open>write\<close>
  stores its arguments with blanks between them, \<^verbatim>\<open>touch\<close> keeps the contents, \<^verbatim>\<open>rm\<close> removes the name; a command
  that fails changes nothing. A descriptor is free again afterwards.
\<close>

theorem shell_line_refines:
  assumes "app_st s t f out" and "0 < free_fds t" and "\<forall>c\<in>set xs. printable c" and "length xs < SHELL_MAX_LINE"
    and "file_command (line_args SHELL_MAX_ARGS xs)"
  defines "spec \<equiv> command_spec (line_args SHELL_MAX_ARGS xs) (files f)"
  shows "\<exists>s' t' f'. shell_keys E (map uint xs @ [10]) 0 s = Some (Inr (Sh_next 0 s')) \<and>
    app_st s' t' f' (out @ xs @ [10] @ fst spec @ lit ''k> '') \<and> files f' = snd spec \<and> 0 < free_fds t'"
proof -
  obtain s1 where 1: "shell_keys E (map uint xs @ [10]) 0 s = shell_keys E [10] (length xs) s1" "app_st s1 t f (out @ xs)"
      "take (length xs) (g_line s1) = xs"
    using typing_st [OF assms(1,3), of 0 E "[10]"] assms(4) by auto
  have "0 \<notin> set xs"
    using assms(3) printable_uint by blast
  then obtain s2 t2 f2 where "shell_enter E (length xs) s1 = Some (Inr (Sh_next 0 s2))"
      "app_st s2 t2 f2 ((out @ xs) @ [10] @ fst spec @ lit ''k> '')" "files f2 = snd spec" "0 < free_fds t2"
    unfolding spec_def using enter_st [OF 1(2) assms(2) 1(3) refl assms(4) _ assms(5), of E] by blast
  then show ?thesis
    using 1(1) by (intro exI [of _ s2] exI [of _ t2] exI [of _ f2]) (simp add: shell_key_def obind_def)
qed

text \<open>A file is written and printed.\<close>

definition demo_shell :: "unit shell" where
  "demo_shell =
     \<lparr>sm = demo_machine, swm = demo_wm, g_line = replicate 128 0, g_iobuf = replicate 1024 0, g_main_win = 1,
      g_hist = history_init hist_zero, g_fm = \<lparr>fm_active = False, fm_win_id = 0, fm_selected = 0, fm_count = 0, fm_rename_mode = 0,
        fm_rename_len = 0, fm_names = [], fm_preview = [], fm_status = [], fm_rename_buf = []\<rparr>,
      g_file_db = replicate 64 (replicate 64 0), g_file_db_count = 0, g_term_view = replicate 4096 0, g_term_view_len = 0,
      g_input_q = replicate 16 0, g_input_q_head = 0, g_input_q_tail = 0, g_input_shift = False\<rparr>"

lemma demo_shell_st: "app_st demo_shell (replicate FD_MAX no_file) fs_demo []"
proof -
  have k: "sk demo_shell = mk demo_machine" "kcon (mk demo_machine) = console_boot" "kfs (mk demo_machine) = fs_demo"
    by (simp_all add: sk_def demo_shell_def demo_machine_def set_ksys_def demo_kernel_def)
  have p: "kprocs (mk demo_machine) = replicate 8 (zero_process\<lparr>pid := 3, state := PROC_RUNNABLE, is_user := True\<rparr>)"
    "current_proc (tab (ksys (mk demo_machine))) = Some 2"
    by (simp_all add: kprocs_def demo_machine_def set_ksys_def ksys_def demo_kernel_def)
  then have "kfs_ok (mk demo_machine)" "ctbl (mk demo_machine) = replicate FD_MAX no_file"
    using fs_demo_ok no_file_ok [of fs_demo] by (simp_all add: kfs_ok_def ctbl_def k zero_process_def)
  moreover have "buffers_ok demo_shell"
    by (simp add: demo_shell_def buffers_ok_def view_ok_def filedb_ok_def)
  ultimately show ?thesis
    by (simp add: app_st_def k console_boot_def)
qed

lemma shell_line_refines_witness:
  "\<exists>s1 s2. shell_keys demo_menv (map uint (lit ''write a x y'') @ [10]) 0 demo_shell = Some (Inr (Sh_next 0 s1)) \<and>
     shell_keys demo_menv (map uint (lit ''cat a'') @ [10]) 0 s1 = Some (Inr (Sh_next 0 s2)) \<and>
     con_out (kcon (sk s2)) = lit ''write a x y'' @ [10] @ lit ''k> '' @ lit ''cat a'' @ [10] @ lit ''x y'' @ [10] @ lit ''k> ''"
proof -
  let ?w = "lit ''write a x y''" and ?c = "lit ''cat a''"
  have w: "line_args 12 ?w = [lit ''write'', lit ''a'', lit ''x'', lit ''y'']" "\<forall>c\<in>set ?w. printable c" "length ?w < 128"
    and c: "line_args 12 ?c = [lit ''cat'', lit ''a'']" "\<forall>c\<in>set ?c. printable c" "length ?c < 128"
    by (code_simp)+
  have fw: "file_command (line_args 12 ?w)" "file_command (line_args 12 ?c)"
    by (simp_all add: w(1) c(1) file_command_def)
  have n: "normalize_name (lit ''a'') = Some (lit ''a'')"
    by code_simp
  have "room (lit ''a'') (files fs_demo)"
    using fs_demo_ok(2) by (simp add: room_def)
  then have sw: "command_spec (line_args 12 ?w) (files fs_demo) = ([], (files fs_demo)(lit ''a'' \<mapsto> lit ''x y''))"
    unfolding w(1) by (simp add: command_spec_def put_spec_def n) (simp add: lit_def)
  obtain s1 t1 f1 where 1: "shell_keys demo_menv (map uint ?w @ [10]) 0 demo_shell = Some (Inr (Sh_next 0 s1))"
      "app_st s1 t1 f1 (?w @ [10] @ lit ''k> '')" "files f1 = (files fs_demo)(lit ''a'' \<mapsto> lit ''x y'')" "0 < free_fds t1"
    using shell_line_refines [OF demo_shell_st _ w(2,3) fw(1), of demo_menv] unfolding sw by (auto simp: free_fds_def no_file_def)
  have sc: "command_spec (line_args 12 ?c) (files f1) = (lit ''x y'' @ [10], files f1)"
    unfolding c(1) by (simp add: command_spec_def cat_spec_def n 1(3))
  obtain s2 t2 f2 where "shell_keys demo_menv (map uint ?c @ [10]) 0 s1 = Some (Inr (Sh_next 0 s2))"
      "app_st s2 t2 f2 ((?w @ [10] @ lit ''k> '') @ ?c @ [10] @ (lit ''x y'' @ [10]) @ lit ''k> '')"
    using shell_line_refines [OF 1(2,4) c(2,3) fw(2), of demo_menv] unfolding sc by auto
  then show ?thesis
    using 1(1) by (auto simp: app_st_def)
qed

end
