(* ===== verification/Shell_Input.thy ===== *)
theory Shell_Input
  imports Shell Event Console_Spec Trap_Spec Wm_Paint
begin

text \<open>
  Keyboard input of the shell: its queue is one that refuses characters when full, and \<^verbatim>\<open>u_getchar\<close> turns the
  key events of the kernel into characters in order, with the state of the shift keys.
\<close>

section \<open>The queue\<close>

definition inq_ok :: "'d shell \<Rightarrow> bool" where
  "inq_ok s \<longleftrightarrow> ring_ok INPUT_Q_CAP (g_input_q s) (g_input_q_head s) (g_input_q_tail s)"

definition inq_list :: "'d shell \<Rightarrow> u8 list" where
  "inq_list s = ring_list INPUT_Q_CAP (g_input_q s) (g_input_q_head s) (g_input_q_tail s)"

definition inq_take :: "'d shell \<Rightarrow> (u8 \<times> 'd shell) option" where
  "inq_take s = (let (ch, s') = input_q_pop s in if ch < 0 then None else Some (of_int ch, s'))"

lemma inq_full:
  assumes "inq_ok s"
  shows "length (inq_list s) < 15 \<longleftrightarrow> Suc (g_input_q_tail s) mod INPUT_Q_CAP \<noteq> g_input_q_head s"
  using assms by (auto simp: inq_ok_def inq_list_def ring_ok_def ring_count_cases Suc_mod_cases split: if_splits)

interpretation inq: fifo_reject 15 inq_ok inq_list input_q_push inq_take id
proof unfold_locales
  fix s :: "'d shell" and ch :: u8
  assume ok: "inq_ok s"
  then have r: "ring_ok INPUT_Q_CAP (g_input_q s) (g_input_q_head s) (g_input_q_tail s)"
    by (simp add: inq_ok_def)
  show "inq_ok (input_q_push ch s)"
    using r ring_ok_push [OF r] by (simp add: inq_ok_def input_q_push_def Let_def)
  show "length (inq_list s) \<le> 15"
    using r ring_count_less [of "g_input_q_head s" INPUT_Q_CAP "g_input_q_tail s"] by (simp add: inq_list_def ring_ok_def)
  show "inq_list (input_q_push ch s) = inq_list s @ [id ch]" if "length (inq_list s) < 15"
    using that inq_full [OF ok] ring_list_push [OF r, of ch] by (simp add: input_q_push_def inq_list_def Let_def)
  show "inq_list (input_q_push ch s) = inq_list s" if "length (inq_list s) = 15"
    using that inq_full [OF ok] by (simp add: input_q_push_def Let_def)
  show "inq_take s = None" if "inq_list s = []"
    using that ring_list_Nil_iff [OF r] by (simp add: inq_take_def input_q_pop_def inq_list_def)
  fix ys
  show "\<exists>s'. inq_take s = Some (ch, s') \<and> inq_list s' = ys" if l: "inq_list s = ch # ys"
  proof -
    have ne: "g_input_q_head s \<noteq> g_input_q_tail s"
      using l ring_list_Nil_iff [OF r] by (auto simp: inq_list_def)
    then show ?thesis
      using ring_list_pop [OF r ne] l by (simp add: inq_take_def input_q_pop_def inq_list_def)
  qed
next
  fix s s' :: "'d shell" and ch :: u8
  assume "inq_ok s" and "inq_take s = Some (ch, s')"
  then show "inq_ok s'"
    by (auto simp: inq_take_def input_q_pop_def inq_ok_def ring_ok_def split: if_splits)
qed

lemma inq_pop_head:
  assumes "inq_ok s" and "inq_list s = c # cs"
  obtains s' where "input_q_pop s = (uint c, s')" and "inq_list s' = cs" and "inq_ok s'" and "sm s' = sm s"
proof -
  obtain s' where s': "inq_take s = Some (c, s')" "inq_list s' = cs"
    using inq.pop_head [OF assms] by blast
  then have "input_q_pop s = (uint c, s')"
    by (auto simp: inq_take_def input_q_pop_def split: if_splits)
  moreover have "sm s' = sm s"
    using s'(1) by (auto simp: inq_take_def input_q_pop_def split: if_splits)
  ultimately show thesis
    using that s' inq.inv_pop [OF assms(1) s'(1)] by blast
qed

lemma inq_pop_empty: "inq_ok s \<Longrightarrow> inq_list s = [] \<Longrightarrow> input_q_pop s = (-1, s)"
  using ring_list_Nil_iff [of INPUT_Q_CAP "g_input_q s" "g_input_q_head s" "g_input_q_tail s"]
  by (simp add: inq_ok_def inq_list_def input_q_pop_def)

section \<open>Events into characters\<close>

text \<open>The characters of one event and the state of the shift keys after it.\<close>

definition decode_key :: "bool \<Rightarrow> k_event \<Rightarrow> u8 list \<times> bool" where
  "decode_key shift e =
     (let code = ucast (ev_b e) :: u16 in
      if ev_type e \<noteq> KEVENT_TYPE_INPUT \<or> (ucast (ev_a e) :: u16) \<noteq> VI_EV_KEY then ([], shift)
      else if code \<in> {VI_KEY_LEFTSHIFT, VI_KEY_RIGHTSHIFT} then ([], ev_c e \<noteq> 0)
      else if ev_c e = 0 then ([], shift)
      else if code = VI_KEY_UP then ([27, 0x5b, 0x41], shift)
      else if code = VI_KEY_DOWN then ([27, 0x5b, 0x42], shift)
      else (filter (\<lambda>c. c \<noteq> 0) [map_key_ascii code shift], shift))"

fun decode :: "bool \<Rightarrow> k_event list \<Rightarrow> u8 list" where
  "decode shift [] = []"
| "decode shift (e # es) = fst (decode_key shift e) @ decode (snd (decode_key shift e)) es"

lemma push_keeps: "sm (fold input_q_push cs s) = sm s" "g_input_shift (fold input_q_push cs s) = g_input_shift s"
  by (induction cs arbitrary: s) (simp_all add: input_q_push_def Let_def)

lemma input_event_effect:
  fixes s :: "'d shell" and e :: k_event
  assumes "inq_ok s"
  defines "d \<equiv> decode_key (g_input_shift s) e" and "s' \<equiv> input_event e s"
  shows "inq_ok s'" and "inq_list s' = take 15 (inq_list s @ fst d)" and "g_input_shift s' = snd d" and "sm s' = sm s"
proof -
  have "s' = (fold input_q_push (fst d) s) \<and> snd d = g_input_shift s \<or> s' = s\<lparr>g_input_shift := snd d\<rparr> \<and> fst d = []"
  proof (cases "ev_type e = KEVENT_TYPE_INPUT \<and> (ucast (ev_a e) :: u16) = VI_EV_KEY \<and>
      (ucast (ev_b e) :: u16) \<in> {VI_KEY_LEFTSHIFT, VI_KEY_RIGHTSHIFT}")
    case True
    then show ?thesis
      by (intro disjI2) (simp add: s'_def d_def input_event_def decode_key_def Let_def)
  next
    case False
    then show ?thesis
      by (intro disjI1) (simp add: s'_def d_def input_event_def decode_key_def Let_def)
  qed
  moreover have "inq_ok (s\<lparr>g_input_shift := b\<rparr>) = inq_ok s" "inq_list (s\<lparr>g_input_shift := b\<rparr>) = inq_list s" for b
    by (simp_all add: inq_ok_def inq_list_def)
  ultimately show "inq_ok s'" "inq_list s' = take 15 (inq_list s @ fst d)" "g_input_shift s' = snd d" "sm s' = sm s"
    using inq.inv_fold_push [OF assms(1)] inq.elems_fold_push_reject [OF assms(1), of "fst d"] inq.elems_bound [OF assms(1)]
    by (auto simp: push_keeps assms(1))
qed

text \<open>Taking an event out of the kernel's queue.\<close>

definition keys_st :: "'d shell \<Rightarrow> k_event list \<Rightarrow> bool" where
  "keys_st s es \<longleftrightarrow> inq_ok s \<and> kevents_ok (kevs (sk s)) \<and> kevent_list (kevs (sk s)) = es"

lemma pop_event:
  assumes "keys_st s (e # es)"
  obtains s' where "app_kevent_pop s = Inr (1, Some e, s')" and "keys_st s' es" and "inq_list s' = inq_list s"
    and "g_input_shift s' = g_input_shift s" and "kcon (sk s') = kcon (sk s)"
proof -
  obtain q where q: "kevent_pop True (khart (ksys (sk s))) (kevs (sk s)) = Inr (1, Some e, khart (ksys (sk s)), q)"
      "kevent_list q = es" "kevents_ok q"
    using assms by (auto simp: keys_st_def elim: kevent_pop_head [where h = "khart (ksys (sk s))"])
  define S where "S = ksys (sk s)"
  show thesis
    by (rule that [of "set_sk (set_ksys (S\<lparr>khart := khart S\<rparr>) ((sk s)\<lparr>kevs := q\<rparr>)) s"])
      (use q assms in \<open>auto simp: app_kevent_pop_def S_def Let_def keys_st_def inq_ok_def inq_list_def sk_def set_sk_def set_ksys_def\<close>)
qed

lemma pop_no_event:
  assumes "keys_st s []"
  obtains s' where "app_kevent_pop s = Inr (0, None, s')" and "keys_st s' []" and "inq_list s' = inq_list s"
    and "g_input_shift s' = g_input_shift s" and "kcon (sk s') = kcon (sk s)"
proof -
  define S where "S = ksys (sk s)"
  have "kevent_pop True (khart S) (kevs (sk s)) = Inr (0, None, khart S, kevs (sk s))"
    using assms kevent_pop_empty by (simp add: keys_st_def)
  then show thesis
    by (intro that [of "set_sk (set_ksys (S\<lparr>khart := khart S\<rparr>) ((sk s)\<lparr>kevs := kevs (sk s)\<rparr>)) s"])
      (use assms in \<open>auto simp: app_kevent_pop_def S_def Let_def keys_st_def inq_ok_def inq_list_def sk_def set_sk_def set_ksys_def\<close>)
qed

lemma take_append_take: "take n (take n xs @ ys) = take n (xs @ ys)"
  by (cases "length xs \<le> n") auto

lemma input_loop_decode:
  assumes "keys_st s es"
  shows "\<exists>s'. input_loop n s = Inr s' \<and> keys_st s' (drop n es) \<and> inq_list s' = take 15 (inq_list s @ decode (g_input_shift s) (take n es)) \<and>
    kcon (sk s') = kcon (sk s)"
  using assms
proof (induction n arbitrary: s es)
  case 0
  then show ?case
    using inq.elems_bound [of s] by (auto simp: keys_st_def)
next
  case (Suc n)
  show ?case
  proof (cases es)
    case Nil
    then obtain s' where "app_kevent_pop s = Inr (0, None, s')" "keys_st s' []" "inq_list s' = inq_list s" "kcon (sk s') = kcon (sk s)"
      using pop_no_event Suc.prems by metis
    then show ?thesis
      using Nil inq.elems_bound [of s] Suc.prems by (auto simp: keys_st_def)
  next
    case (Cons e es')
    then obtain s1 where 1: "app_kevent_pop s = Inr (1, Some e, s1)" "keys_st s1 es'" "inq_list s1 = inq_list s"
        "g_input_shift s1 = g_input_shift s" "kcon (sk s1) = kcon (sk s)"
      using pop_event Suc.prems by metis
    note ef = input_event_effect [of s1 e]
    have ok: "inq_ok s1"
      using 1(2) by (simp add: keys_st_def)
    have 2: "keys_st (input_event e s1) es'"
      using 1(2) ef(1,4) [OF ok] by (simp add: keys_st_def sk_def)
    obtain s2 where 3: "input_loop n (input_event e s1) = Inr s2" "keys_st s2 (drop n es')"
        "inq_list s2 = take 15 (inq_list (input_event e s1) @ decode (g_input_shift (input_event e s1)) (take n es'))"
        "kcon (sk s2) = kcon (sk (input_event e s1))"
      using Suc.IH [OF 2] by blast
    have "inq_list s2 = take 15 (inq_list s @ decode (g_input_shift s) (take (Suc n) es))"
      unfolding 3(3) ef(2,3) [OF ok] 1(3,4) take_append_take by (simp only: Cons take_Suc_Cons decode.simps append_assoc)
    then show ?thesis
      using Cons 1(1,5) 3 ef(4) [OF ok] by (simp add: sk_def)
  qed
qed

lemma u_getchar_cases:
  assumes "keys_st s es"
  defines "cs \<equiv> (if inq_list s = [] then take 15 (decode (g_input_shift s) (take 32 es)) else inq_list s)"
  shows "cs \<noteq> [] \<Longrightarrow> \<exists>s'. u_getchar E s = Inr (uint (hd cs), s') \<and> inq_list s' = tl cs \<and>
      keys_st s' (if inq_list s = [] then drop 32 es else es) \<and> kcon (sk s') = kcon (sk s)"
    and "cs = [] \<Longrightarrow> kbd_list (kcon (sk s)) = [] \<Longrightarrow> kbd_ok (kcon (sk s)) \<Longrightarrow>
      \<exists>s'. u_getchar E s = Inr (ksbi (menv_k E), s') \<and> inq_list s' = [] \<and> keys_st s' (drop 32 es)"
proof -
  have ok: "inq_ok s"
    using assms(1) by (simp add: keys_st_def)
  obtain s1 where 1: "input_loop 32 s = Inr s1" "keys_st s1 (drop 32 es)"
      "inq_list s1 = take 15 (inq_list s @ decode (g_input_shift s) (take 32 es))" "kcon (sk s1) = kcon (sk s)"
    using input_loop_decode [OF assms(1), of 32] by blast
  have ok1: "inq_ok s1"
    using 1(2) by (simp add: keys_st_def)
  show "\<exists>s'. u_getchar E s = Inr (uint (hd cs), s') \<and> inq_list s' = tl cs \<and>
      keys_st s' (if inq_list s = [] then drop 32 es else es) \<and> kcon (sk s') = kcon (sk s)" if ne: "cs \<noteq> []"
  proof (cases "inq_list s")
    case Nil
    then have "cs = inq_list s1"
      using 1(3) by (simp add: cs_def)
    then obtain c cs' where c: "inq_list s1 = c # cs'" "cs = c # cs'"
      using ne by (cases "inq_list s1") auto
    obtain s2 where "input_q_pop s1 = (uint c, s2)" "inq_list s2 = cs'" "inq_ok s2" "sm s2 = sm s1"
      using inq_pop_head [OF ok1 c(1)] by blast
    then show ?thesis
      using inq_pop_empty [OF ok Nil] 1 Nil c(2) by (auto simp: u_getchar_def keys_st_def sk_def)
  next
    case (Cons c cs')
    then obtain s2 where "input_q_pop s = (uint c, s2)" "inq_list s2 = cs'" "inq_ok s2" "sm s2 = sm s"
      using inq_pop_head [OF ok] by blast
    then show ?thesis
      using Cons assms(1) by (auto simp: u_getchar_def keys_st_def sk_def cs_def)
  qed
  show "\<exists>s'. u_getchar E s = Inr (ksbi (menv_k E), s') \<and> inq_list s' = [] \<and> keys_st s' (drop 32 es)"
    if none: "cs = []" and kb: "kbd_list (kcon (sk s)) = []" "kbd_ok (kcon (sk s))"
  proof -
    have l: "inq_list s = []" "inq_list s1 = []"
      using none 1(3) by (auto simp: cs_def split: if_splits)
    have "kbdq_head (kcon (sk s1)) = kbdq_tail (kcon (sk s1))"
      using kb ring_list_Nil_iff 1(4) by (metis kbd_list_def kbd_ok_def)
    then show ?thesis
      using inq_pop_empty [OF ok l(1)] inq_pop_empty [OF ok1 l(2)] 1(1,2) l(2)
      by (auto simp: u_getchar_def getchar_def keys_st_def inq_ok_def inq_list_def sk_def set_sk_def)
  qed
qed


text \<open>The keys for a capital letter.\<close>

definition key_event :: "u32 \<Rightarrow> u32 \<Rightarrow> u64 \<Rightarrow> k_event" where
  "key_event code val n = \<lparr>ev_type = 1, ev_a = 1, ev_b = code, ev_c = val, ev_d = 0, ev_seq = n\<rparr>"

definition typed_shell :: "unit shell" where
  "typed_shell =
     \<lparr>sm = demo_machine\<lparr>mk := (mk demo_machine)\<lparr>kevs := \<lparr>g_q = [key_event 42 1 0, key_event 30 1 1] @ replicate 126 zero_event, g_head = 0,
        g_tail = 2, g_seq = 2, g_lock = 0\<rparr>\<rparr>\<rparr>, swm = demo_wm, g_line = replicate 128 0, g_iobuf = replicate 1024 0, g_main_win = 0,
      g_hist = \<lparr>h_count = 0, h_next = 0, h_browse_pos = 0, h_entries = [], h_scratch = [], h_scratch_valid = False\<rparr>,
      g_fm = \<lparr>fm_active = False, fm_win_id = 0, fm_selected = 0, fm_count = 0, fm_rename_mode = 0,
        fm_rename_len = 0, fm_names = [], fm_preview = [], fm_status = [], fm_rename_buf = []\<rparr>,
      g_file_db = [], g_file_db_count = 0, g_term_view = replicate 4096 0, g_term_view_len = 0,
      g_input_q = replicate 16 0, g_input_q_head = 0, g_input_q_tail = 0, g_input_shift = False\<rparr>"

lemma typed_shell_keys: "keys_st typed_shell [key_event 42 1 0, key_event 30 1 1]" "inq_list typed_shell = []" "\<not> g_input_shift typed_shell"
proof -
  have l: "kevent_list (kevs (sk typed_shell)) = [key_event 42 1 0, key_event 30 1 1]"
    by (simp add: typed_shell_def sk_def kevent_list_def ring_list_def ring_count_def upt_rec)
  moreover have "kevents_ok (kevs (sk typed_shell))"
    by (simp add: kevents_ok_def l) (simp add: typed_shell_def sk_def ring_ok_def key_event_def)
  ultimately show "keys_st typed_shell [key_event 42 1 0, key_event 30 1 1]"
    by (simp add: keys_st_def inq_ok_def ring_ok_def) (simp add: typed_shell_def)
  show "inq_list typed_shell = []" "\<not> g_input_shift typed_shell"
    by (simp_all add: typed_shell_def inq_list_def ring_list_def ring_count_def)
qed


end
