(* ===== verification/Virtio_Blk_Spec.thy ===== *)
theory Virtio_Blk_Spec
  imports Virtio_Blk Sched_Spec
begin

text \<open>
  Several readers, interrupts and the device work on the block driver at the same time. This theory composes the
  parts of \<^verbatim>\<open>blk_read\<close> into a step relation in which the device fetches requests in order, completes them in any order
  and at any time, and writes to memory; it shows that a reader gets the bytes of its sector. The steps of the device
  are the assumption about the hardware: what the virtio specification documents of a block device, with
  everything it leaves open (order, time, success, the data of a failed request) left open.
\<close>

section \<open>Windows of a virtqueue ring\<close>

text \<open>The indices of a virtqueue run freely in 16 bits; an entry lies at the index modulo the length of the ring.\<close>

definition ring_window :: "'a list \<Rightarrow> u16 \<Rightarrow> u16 \<Rightarrow> 'a list" where
  "ring_window ring lo hi = map (\<lambda>k. ring ! (unat (lo + of_nat k) mod VIRTQ_NUM)) [0..<unat (hi - lo)]"

lemma length_ring_window [simp]: "length (ring_window ring lo hi) = unat (hi - lo)"
  by (simp add: ring_window_def)

lemma ring_window_self [simp]: "ring_window ring i i = []"
  by (simp add: ring_window_def)

lemma ring_window_Nil_iff: "ring_window ring lo hi = [] \<longleftrightarrow> lo = hi"
  by (metis length_0_conv length_ring_window right_minus_eq ring_window_self unat_eq_zero)

lemma idx_mod: "unat ((lo :: u16) + of_nat k) mod VIRTQ_NUM = (unat lo + k) mod VIRTQ_NUM"
proof -
  have "unat (lo + of_nat k) = (unat lo + k) mod 2 ^ 16"
    by (simp add: unat_word_ariths unat_of_nat take_bit_eq_mod mod_simps)
  then show ?thesis
    using mod_mod_cancel [of VIRTQ_NUM "2 ^ 16" "unat lo + k"] by (simp only:) simp
qed

lemma ring_window_pop:
  assumes "lo \<noteq> hi"
  shows "ring_window ring lo hi = ring ! (unat lo mod VIRTQ_NUM) # ring_window ring (lo + 1) hi"
proof -
  have n: "unat (hi - lo) = Suc (unat (hi - (lo + 1)))"
    using assms unat_minus_one [of "hi - lo"] by (simp add: diff_diff_eq unat_gt_0)
  show ?thesis
    unfolding ring_window_def n by (simp add: upt_conv_Cons map_Suc_upt [symmetric] o_def algebra_simps del: upt_Suc)
qed

lemma ring_window_push:
  assumes "length ring = VIRTQ_NUM" and "unat (hi - lo) < VIRTQ_NUM"
  shows "ring_window (ring[unat hi mod VIRTQ_NUM := x]) lo (hi + 1) = ring_window ring lo hi @ [x]"
proof -
  have eq: "hi + 1 - lo = hi - lo + 1"
    by simp
  have n: "unat (hi + 1 - lo) = Suc (unat (hi - lo))"
    unfolding eq using assms(2) by (simp add: unat_word_ariths)
  have hi: "unat hi mod VIRTQ_NUM = (unat lo + unat (hi - lo)) mod VIRTQ_NUM"
    using idx_mod [of lo "unat (hi - lo)"] by simp
  have ne: "(unat lo + k) mod VIRTQ_NUM \<noteq> (unat lo + unat (hi - lo)) mod VIRTQ_NUM" if "k < unat (hi - lo)" for k
  proof
    assume "(unat lo + k) mod VIRTQ_NUM = (unat lo + unat (hi - lo)) mod VIRTQ_NUM"
    then have "VIRTQ_NUM dvd unat (hi - lo) - k"
      using that mod_eq_dvd_iff_nat [of "unat lo + k" "unat lo + unat (hi - lo)" VIRTQ_NUM] by simp
    then show False
      using that assms(2) by (auto dest: dvd_imp_le)
  qed
  show ?thesis
    unfolding ring_window_def n idx_mod hi using assms(1) by (simp add: ne [symmetric])
qed

section \<open>Readers, driver and device\<close>

text \<open>
  A reader is a call of \<^verbatim>\<open>blk_read\<close>: it holds a slot for a sector and a buffer, and its request is posted or not. The
  device keeps its own index into the available ring and the requests it has fetched.
\<close>

datatype reader = Idle | Claimed nat u32 u32 | Waiting nat u32 u32

record 'd bsys =
  sblk :: blk
  sregs :: 'd
  smem :: mem
  dev_avail :: u16
  inflight :: "u16 list"
  readers :: "nat \<Rightarrow> reader"

fun slot_of :: "reader \<Rightarrow> nat option" where
  "slot_of Idle = None"
| "slot_of (Claimed i sec buf) = Some i"
| "slot_of (Waiting i sec buf) = Some i"

definition buf_bytes :: "u32 \<Rightarrow> u32 set" where
  "buf_bytes buf = {x. unat (x - buf) < 512}"

fun target :: "reader \<Rightarrow> u32 set" where
  "target Idle = {}"
| "target (Claimed i sec buf) = buf_bytes buf"
| "target (Waiting i sec buf) = buf_bytes buf"

definition mem_write :: "u32 \<Rightarrow> u8 list \<Rightarrow> mem \<Rightarrow> mem" where
  "mem_write a xs m = (\<lambda>x. if unat (x - a) < length xs then xs ! unat (x - a) else m x)"

definition mem_block :: "mem \<Rightarrow> u32 \<Rightarrow> u8 list" where
  "mem_block m a = map (\<lambda>k. m (a + of_nat k)) [0..<512]"

text \<open>
  What the device finds behind a head: the chain of three descriptors, the sector of the request, the address of the
  buffer and the slot whose status byte it has to write. A chain that is not a read request is \<open>None\<close>.
\<close>

definition dev_request :: "u32 \<Rightarrow> blk \<Rightarrow> u16 \<Rightarrow> (u64 \<times> u32 \<times> nat) option" where
  "dev_request A b head =
     (let d0 = vq_desc (bq b) ! unat head; d1 = vq_desc (bq b) ! unat (d_next d0); d2 = vq_desc (bq b) ! unat (d_next d1);
          req = first_idx (\<lambda>i. ucast (slot_req_addr A i) = d_addr d0) [0..<BLK_REQ_MAX];
          st = first_idx (\<lambda>i. ucast (slot_status_addr A i) = d_addr d2) [0..<BLK_REQ_MAX]
      in
      if (d_len d0, d_flags d0) = (16, DESC_F_NEXT) \<and> (d_len d1, d_flags d1) = (512, DESC_F_NEXT OR DESC_F_WRITE) \<and>
         (d_len d2, d_flags d2) = (1, DESC_F_WRITE)
      then
        (case (req, st) of
           (Some i, Some j) \<Rightarrow>
             if req_type (blk_slots b ! i) = 0 then Some (req_sector (blk_slots b ! i), ucast (d_addr d1), j) else None
         | _ \<Rightarrow> None)
      else None)"

text \<open>Completing a request: data, status, used ring. With status 0 the data are those of the sector.\<close>

definition used_push :: "u32 \<times> u32 \<Rightarrow> virtq \<Rightarrow> virtq" where
  "used_push x q = q\<lparr>vused_ring := (vused_ring q)[unat (vused_idx q) mod VIRTQ_NUM := x], vused_idx := vused_idx q + 1\<rparr>"

definition dev_complete :: "u32 \<Rightarrow> u16 \<Rightarrow> u8 \<Rightarrow> u8 list \<Rightarrow> 'd bsys \<Rightarrow> 'd bsys option" where
  "dev_complete A head status data s =
     (case dev_request A (sblk s) head of
        None \<Rightarrow> None
      | Some (sec, buf, j) \<Rightarrow>
          let b = set_slot j ((blk_slots (sblk s) ! j)\<lparr>slot_status := status\<rparr>) (sblk s) in
          Some (s\<lparr>sblk := b\<lparr>bq := used_push (ucast head, 513) (bq b)\<rparr>, smem := mem_write buf data (smem s),
                  inflight := remove1 head (inflight s)\<rparr>))"

text \<open>
  A buffer is used by one reader at a time, and the processor writes to a buffer only when no reader uses it. A process
  that finds no free slot or no completion tries again later; sleeping changes the wait queue only.
\<close>

inductive blk_step :: "('d, 'z) bus_scheme \<Rightarrow> u32 \<Rightarrow> (u64 \<Rightarrow> u8 list) \<Rightarrow> 'd bsys \<Rightarrow> 'd bsys \<Rightarrow> bool"
  for e :: "('d, 'z) bus_scheme" and A :: u32 and disk :: "u64 \<Rightarrow> u8 list" where
  claim: "readers s r = Idle \<Longrightarrow> blk_read_ok buf (sblk s) \<Longrightarrow> \<forall>r'. target (readers s r') \<inter> buf_bytes buf = {} \<Longrightarrow>
    blk_claim (sblk s) h = Inr (Some i, b, h') \<Longrightarrow>
    blk_step e A disk s (s\<lparr>sblk := b, readers := (readers s)(r := Claimed i sec buf)\<rparr>)"
| full: "blk_claim (sblk s) h = Inr (None, b, h') \<Longrightarrow> blk_step e A disk s (s\<lparr>sblk := b\<rparr>)"
| post: "readers s r = Claimed i sec buf \<Longrightarrow> blk_post e A i sec buf (sblk s, sregs s) h = Inr (b, d, h') \<Longrightarrow>
    blk_step e A disk s (s\<lparr>sblk := b, sregs := d, readers := (readers s)(r := Waiting i sec buf)\<rparr>)"
| finish: "readers s r = Waiting i sec buf \<Longrightarrow> blk_finish i (sblk s) k h = Inr (Some v, b, k', h') \<Longrightarrow>
    blk_step e A disk s (s\<lparr>sblk := b, readers := (readers s)(r := Idle)\<rparr>)"
| again: "readers s r = Waiting i sec buf \<Longrightarrow> blk_finish i (sblk s) k h = Inr (None, b, k', h') \<Longrightarrow>
    blk_step e A disk s (s\<lparr>sblk := b\<rparr>)"
| sleep: "waitq_sleep_block (blk_waitq (sblk s)) k h = Inr (q, k', h') \<Longrightarrow>
    blk_step e A disk s (s\<lparr>sblk := (sblk s)\<lparr>blk_waitq := q\<rparr>\<rparr>)"
| irq: "blk_handle_irq e (sblk s, sregs s) k h = Inr (b, d, k', h') \<Longrightarrow> blk_step e A disk s (s\<lparr>sblk := b, sregs := d\<rparr>)"
| cpu: "\<forall>r. \<forall>x\<in>target (readers s r). m x = smem s x \<Longrightarrow> blk_step e A disk s (s\<lparr>smem := m\<rparr>)"
| fetch: "dev_avail s \<noteq> avail_idx (bq (sblk s)) \<Longrightarrow>
    blk_step e A disk s
      (s\<lparr>dev_avail := dev_avail s + 1, inflight := inflight s @ [avail_ring (bq (sblk s)) ! (unat (dev_avail s) mod VIRTQ_NUM)]\<rparr>)"
| complete: "head \<in> set (inflight s) \<Longrightarrow> length data = 512 \<Longrightarrow>
    (\<forall>sec buf j. dev_request A (sblk s) head = Some (sec, buf, j) \<longrightarrow> status = 0 \<longrightarrow> data = disk sec) \<Longrightarrow>
    dev_complete A head status data s = Some s' \<Longrightarrow> blk_step e A disk s s'"

text \<open>The driver after its initialisation.\<close>

inductive blk_reach :: "('d, 'z) bus_scheme \<Rightarrow> u32 \<Rightarrow> (u64 \<Rightarrow> u8 list) \<Rightarrow> 'd bsys \<Rightarrow> bool"
  for e :: "('d, 'z) bus_scheme" and A :: u32 and disk :: "u64 \<Rightarrow> u8 list" where
  start: "blk_init e da aa ua (b0, d0) = (0, b, d) \<Longrightarrow> blk_lock b0 = 0 \<Longrightarrow>
    blk_reach e A disk \<lparr>sblk = b, sregs = d, smem = m, dev_avail = 0, inflight = [], readers = (\<lambda>_. Idle)\<rparr>"
| step: "blk_reach e A disk s \<Longrightarrow> blk_step e A disk s s' \<Longrightarrow> blk_reach e A disk s'"

section \<open>The invariant\<close>

text \<open>\<open>P\<close>, \<open>F\<close> and \<open>U\<close> are the slots of the requests that wait to be fetched, are in the device, and are completed but not seen.\<close>

definition posted_ok :: "u32 \<Rightarrow> blk \<Rightarrow> nat \<Rightarrow> u32 \<Rightarrow> u32 \<Rightarrow> bool" where
  "posted_ok A b i sec buf \<longleftrightarrow>
     vq_desc (bq b) ! (3 * i) =
       \<lparr>d_addr = ucast (slot_req_addr A i), d_len = 16, d_flags = DESC_F_NEXT, d_next = of_nat (3 * i + 1)\<rparr> \<and>
     vq_desc (bq b) ! (3 * i + 1) =
       \<lparr>d_addr = ucast buf, d_len = 512, d_flags = DESC_F_NEXT OR DESC_F_WRITE, d_next = of_nat (3 * i + 2)\<rparr> \<and>
     vq_desc (bq b) ! (3 * i + 2) = \<lparr>d_addr = ucast (slot_status_addr A i), d_len = 1, d_flags = DESC_F_WRITE, d_next = 0\<rparr> \<and>
     req_type (blk_slots b ! i) = 0 \<and> req_sector (blk_slots b ! i) = ucast sec"

fun reader_ok :: "u32 \<Rightarrow> (u64 \<Rightarrow> u8 list) \<Rightarrow> blk \<Rightarrow> mem \<Rightarrow> nat list \<Rightarrow> nat list \<Rightarrow> reader \<Rightarrow> bool" where
  "reader_ok A disk b m D U Idle \<longleftrightarrow> True"
| "reader_ok A disk b m D U (Claimed i sec buf) \<longleftrightarrow>
     i < BLK_REQ_MAX \<and> slot_in_use (blk_slots b ! i) \<and> \<not> slot_done (blk_slots b ! i) \<and> i \<notin> set D \<union> set U"
| "reader_ok A disk b m D U (Waiting i sec buf) \<longleftrightarrow>
     i < BLK_REQ_MAX \<and> slot_in_use (blk_slots b ! i) \<and> posted_ok A b i sec buf \<and>
     (slot_done (blk_slots b ! i) \<longleftrightarrow> i \<notin> set D \<union> set U) \<and>
     (i \<notin> set D \<longrightarrow> slot_status (blk_slots b ! i) = 0 \<longrightarrow> mem_block m buf = disk (ucast sec))"

definition rings_ok :: "blk \<Rightarrow> u16 \<Rightarrow> u16 list \<Rightarrow> nat list \<Rightarrow> nat list \<Rightarrow> nat list \<Rightarrow> bool" where
  "rings_ok b da fl P F U \<longleftrightarrow>
     blk_lock b = 0 \<and> wq_lock (blk_waitq b) = 0 \<and> virtq_ok (bq b) \<and> length (blk_slots b) = BLK_REQ_MAX \<and>
     ring_window (avail_ring (bq b)) da (avail_idx (bq b)) = map blk_head_for_slot P \<and>
     fl = map blk_head_for_slot F \<and>
     ring_window (vused_ring (bq b)) (blk_used_idx b) (vused_idx (bq b)) = map (\<lambda>i. (ucast (blk_head_for_slot i), 513)) U \<and>
     distinct (P @ F @ U) \<and> set (P @ F @ U) \<subseteq> {..<BLK_REQ_MAX}"

definition owners_ok :: "blk \<Rightarrow> (nat \<Rightarrow> reader) \<Rightarrow> nat list \<Rightarrow> bool" where
  "owners_ok b rd Q \<longleftrightarrow>
     (\<forall>r1 r2 i. slot_of (rd r1) = Some i \<longrightarrow> slot_of (rd r2) = Some i \<longrightarrow> r1 = r2) \<and>
     (\<forall>r1 r2. r1 \<noteq> r2 \<longrightarrow> target (rd r1) \<inter> target (rd r2) = {}) \<and>
     (\<forall>i<BLK_REQ_MAX. slot_in_use (blk_slots b ! i) \<longrightarrow> (\<exists>r. slot_of (rd r) = Some i)) \<and>
     (\<forall>i\<in>set Q. \<exists>r sec buf. rd r = Waiting i sec buf)"

definition bsys_ok :: "u32 \<Rightarrow> (u64 \<Rightarrow> u8 list) \<Rightarrow> 'd bsys \<Rightarrow> nat list \<Rightarrow> nat list \<Rightarrow> nat list \<Rightarrow> bool" where
  "bsys_ok A disk s P F U \<longleftrightarrow>
     rings_ok (sblk s) (dev_avail s) (inflight s) P F U \<and> owners_ok (sblk s) (readers s) (P @ F @ U) \<and>
     (\<forall>r. reader_ok A disk (sblk s) (smem s) (P @ F) U (readers s r))"

section \<open>Completed requests\<close>

definition mark_done :: "nat list \<Rightarrow> blk_slot list \<Rightarrow> blk_slot list" where
  "mark_done = fold (\<lambda>i xs. xs[i := (xs ! i)\<lparr>slot_done := True\<rparr>])"

lemma mark_done_simps [simp]:
  "mark_done [] xs = xs"
  "mark_done (i # U) xs = mark_done U (xs[i := (xs ! i)\<lparr>slot_done := True\<rparr>])"
  by (simp_all add: mark_done_def)

lemma length_mark_done [simp]: "length (mark_done U xs) = length xs"
  by (induction U arbitrary: xs) simp_all

lemma nth_mark_done:
  assumes "set U \<subseteq> {..<length xs}"
  shows "mark_done U xs ! j = (if j \<in> set U then (xs ! j)\<lparr>slot_done := True\<rparr> else xs ! j)"
  using assms by (induction U arbitrary: xs) (auto simp: nth_list_update)

definition processed :: "nat list \<Rightarrow> blk \<Rightarrow> blk" where
  "processed U b = b\<lparr>blk_used_idx := vused_idx (bq b), blk_slots := mark_done U (blk_slots b)\<rparr>"

lemma head_word:
  assumes "i < BLK_REQ_MAX"
  shows "unat (blk_head_for_slot i) = 3 * i" and "(ucast (blk_head_for_slot i) :: u32) = of_nat (3 * i)"
    and "unat (blk_head_for_slot i + 1) = 3 * i + 1" and "unat (blk_head_for_slot i + 2) = 3 * i + 2"
    and "(of_nat (3 * i) :: u32) mod 3 = 0" and "(of_nat (3 * i) :: u32) div 3 = of_nat i"
proof -
  have "i \<in> {0, 1, 2, 3, 4, 5, 6, 7}"
    using assms by auto
  then show "unat (blk_head_for_slot i) = 3 * i" "(ucast (blk_head_for_slot i) :: u32) = of_nat (3 * i)"
    "unat (blk_head_for_slot i + 1) = 3 * i + 1" "unat (blk_head_for_slot i + 2) = 3 * i + 2"
    "(of_nat (3 * i) :: u32) mod 3 = 0" "(of_nat (3 * i) :: u32) div 3 = of_nat i"
    by (auto simp: blk_head_for_slot_def)
qed

lemma process_used_eq:
  assumes "ring_window (vused_ring (bq b)) (blk_used_idx b) (vused_idx (bq b)) = map (\<lambda>i. (ucast (blk_head_for_slot i), 513)) U"
    and "\<forall>i\<in>set U. i < BLK_REQ_MAX \<and> slot_in_use (blk_slots b ! i)" and "length (blk_slots b) = BLK_REQ_MAX"
  shows "blk_process_used_locked b = processed U b"
  using assms
proof (induction U arbitrary: b)
  case Nil
  then have "blk_used_idx b = vused_idx (bq b)"
    by (simp add: ring_window_Nil_iff)
  then show ?case
    by (subst blk_process_used_locked.simps) (cases b, simp add: processed_def)
next
  case (Cons i U)
  have ne: "blk_used_idx b \<noteq> vused_idx (bq b)"
    using Cons.prems(1) by auto
  have w: "vused_ring (bq b) ! (unat (blk_used_idx b) mod VIRTQ_NUM) = (of_nat (3 * i), 513)"
    "ring_window (vused_ring (bq b)) (blk_used_idx b + 1) (vused_idx (bq b)) = map (\<lambda>i. (ucast (blk_head_for_slot i), 513)) U"
    using Cons.prems(1,2) by (simp_all add: ring_window_pop [OF ne] head_word)
  have i: "i < BLK_REQ_MAX" "slot_in_use (blk_slots b ! i)"
    using Cons.prems(2) by simp_all
  have u: "unat (of_nat i :: u32) = i"
    using i(1) by (simp add: unat_of_nat take_bit_eq_mod)
  then have lt: "(of_nat i :: u32) < 8"
    using i(1) by (simp add: word_less_nat_alt)
  define b1 where "b1 = b\<lparr>blk_used_idx := blk_used_idx b + 1, blk_slots := (blk_slots b)[i := (blk_slots b ! i)\<lparr>slot_done := True\<rparr>]\<rparr>"
  have b1: "blk_process_one b = b1"
    using i u lt head_word(5,6) [OF i(1)] by (simp add: blk_process_one_def w(1) b1_def set_slot_def Let_def not_le)
  have "blk_process_used_locked b1 = processed U b1"
    using w(2) Cons.prems(2,3) by (intro Cons.IH) (auto simp: b1_def nth_list_update)
  then show ?case
    using ne b1 by (subst blk_process_used_locked.simps) (simp add: processed_def b1_def)
qed

section \<open>Steps of the driver\<close>

lemma mem_block_cong: "\<forall>x\<in>buf_bytes buf. m' x = m x \<Longrightarrow> mem_block m' buf = mem_block m buf"
  by (auto simp: mem_block_def buf_bytes_def unat_of_nat take_bit_eq_mod)

lemma mem_block_write: "length data = 512 \<Longrightarrow> mem_block (mem_write buf data m) buf = data"
  by (rule nth_equalityI) (simp_all add: mem_block_def mem_write_def unat_of_nat take_bit_eq_mod)

text \<open>What the invariant says of a reader depends on its slot, its descriptors and its buffer only.\<close>

lemma reader_ok_cong:
  assumes "reader_ok A disk b m D U rd" and "\<forall>x\<in>target rd. m' x = m x"
    and "\<And>j. slot_of rd = Some j \<Longrightarrow> j < BLK_REQ_MAX \<Longrightarrow>
      blk_slots b' ! j = blk_slots b ! j \<and> (\<forall>k<3. vq_desc (bq b') ! (3 * j + k) = vq_desc (bq b) ! (3 * j + k)) \<and>
      (j \<in> set D' \<longleftrightarrow> j \<in> set D) \<and> (j \<in> set U' \<longleftrightarrow> j \<in> set U)"
  shows "reader_ok A disk b' m' D' U' rd"
proof (cases rd)
  case (Claimed i sec buf)
  then show ?thesis
    using assms(1) assms(3) [of i] by simp
next
  case (Waiting i sec buf)
  then have i: "i < BLK_REQ_MAX"
    using assms(1) by simp
  have d: "vq_desc (bq b') ! (3 * i + k) = vq_desc (bq b) ! (3 * i + k)" if "k < 3" for k
    using that assms(3) [of i] Waiting i by simp
  have "posted_ok A b' i sec buf = posted_ok A b i sec buf"
    using assms(3) [of i] d [of 0] d [of 1] d [of 2] Waiting i by (simp add: posted_ok_def)
  moreover have "mem_block m' buf = mem_block m buf"
    using assms(2) Waiting by (intro mem_block_cong) simp
  ultimately show ?thesis
    using assms(1) assms(3) [of i] Waiting i by simp
qed simp

lemma reader_in_use: "reader_ok A disk b m D U rd \<Longrightarrow> slot_of rd = Some j \<Longrightarrow> j < BLK_REQ_MAX \<and> slot_in_use (blk_slots b ! j)"
  by (cases rd) auto

lemma queued_in_use:
  assumes "bsys_ok A disk s P F U" and "i \<in> set (P @ F @ U)"
  shows "i < BLK_REQ_MAX \<and> slot_in_use (blk_slots (sblk s) ! i)"
proof -
  obtain r sec buf where "readers s r = Waiting i sec buf"
    using assms unfolding bsys_ok_def owners_ok_def by blast
  then show ?thesis
    using assms(1) reader_in_use unfolding bsys_ok_def by (metis slot_of.simps(3))
qed

lemma process_used_locked:
  assumes "bsys_ok A disk s P F U"
  shows "blk_process_used_locked ((sblk s)\<lparr>blk_lock := l\<rparr>) = (processed U (sblk s))\<lparr>blk_lock := l\<rparr>"
proof -
  have "\<forall>i\<in>set U. i < BLK_REQ_MAX \<and> slot_in_use (blk_slots (sblk s) ! i)"
    using queued_in_use [OF assms] by simp
  then have "blk_process_used_locked ((sblk s)\<lparr>blk_lock := l\<rparr>) = processed U ((sblk s)\<lparr>blk_lock := l\<rparr>)"
    using assms by (intro process_used_eq) (simp_all add: bsys_ok_def rings_ok_def)
  then show ?thesis
    by (simp add: processed_def)
qed

lemma processed_simps [simp]:
  "bq (processed U b) = bq b" "blk_waitq (processed U b) = blk_waitq b" "blk_lock (processed U b) = blk_lock b"
  "blk_used_idx (processed U b) = vused_idx (bq b)" "virtio_base (processed U b) = virtio_base b"
  "length (blk_slots (processed U b)) = length (blk_slots b)"
  by (simp_all add: processed_def)

lemma processed_ok:
  assumes "bsys_ok A disk s P F U"
  shows "bsys_ok A disk (s\<lparr>sblk := processed U (sblk s)\<rparr>) P F []"
proof -
  have rings: "rings_ok (sblk s) (dev_avail s) (inflight s) P F U" and own: "owners_ok (sblk s) (readers s) (P @ F @ U)"
    and rd: "\<And>r. reader_ok A disk (sblk s) (smem s) (P @ F) U (readers s r)"
    using assms by (simp_all add: bsys_ok_def)
  have len: "set U \<subseteq> {..<length (blk_slots (sblk s))}" and dj: "set (P @ F) \<inter> set U = {}"
    using rings by (auto simp: rings_ok_def)
  note nth = nth_mark_done [OF len]
  have "reader_ok A disk (processed U (sblk s)) (smem s) (P @ F) [] (readers s r)" for r
    using rd [of r] dj by (cases "readers s r") (auto simp: processed_def nth posted_ok_def)
  moreover have "owners_ok (processed U (sblk s)) (readers s) (P @ F @ [])"
    using own unfolding owners_ok_def by (auto simp: processed_def nth)
  ultimately show ?thesis
    using rings by (auto simp: bsys_ok_def rings_ok_def)
qed

lemma bsys_ok_waitq:
  "bsys_ok A disk s P F U \<Longrightarrow> wq_lock q = 0 \<Longrightarrow> bsys_ok A disk (s\<lparr>sblk := (sblk s)\<lparr>blk_waitq := q\<rparr>\<rparr>) P F U"
  by (auto simp: bsys_ok_def rings_ok_def owners_ok_def posted_ok_def intro: reader_ok_cong)

lemma wake_all_lock: "waitq_wake_all q k h = Inr (q', k', h') \<Longrightarrow> wq_lock q' = 0"
  by (auto simp: waitq_wake_all_def kbind_Inr_iff Let_def spin_unlock_irqrestore_def spin_unlock_def)

lemma sleep_block_lock: "waitq_sleep_block q k h = Inr (q', k', h') \<Longrightarrow> wq_lock q = 0 \<Longrightarrow> wq_lock q' = 0"
  by (auto simp: waitq_sleep_block_def kbind_Inr_iff Let_def spin_unlock_irqrestore_def spin_unlock_def split: if_splits option.splits)

lemma owners_okD:
  assumes "owners_ok b rd Q"
  shows "slot_of (rd r1) = Some i \<Longrightarrow> slot_of (rd r2) = Some i \<Longrightarrow> r1 = r2"
    and "r1 \<noteq> r2 \<Longrightarrow> target (rd r1) \<inter> target (rd r2) = {}"
    and "i < BLK_REQ_MAX \<Longrightarrow> slot_in_use (blk_slots b ! i) \<Longrightarrow> \<exists>r. slot_of (rd r) = Some i"
    and "i \<in> set Q \<Longrightarrow> \<exists>r sec buf. rd r = Waiting i sec buf"
  using assms unfolding owners_ok_def by blast+

lemma owners_ok_update:
  assumes own: "owners_ok b rd Q" and "\<And>r' i. r' \<noteq> r \<Longrightarrow> slot_of (rd r') = Some i \<Longrightarrow> slot_of x \<noteq> Some i"
    and "\<And>r'. r' \<noteq> r \<Longrightarrow> target (rd r') \<inter> target x = {}"
    and use: "\<And>i. i < BLK_REQ_MAX \<Longrightarrow> slot_in_use (blk_slots b' ! i) \<Longrightarrow>
      slot_of x = Some i \<or> slot_in_use (blk_slots b ! i) \<and> slot_of (rd r) \<noteq> Some i"
    and que: "\<And>i. i \<in> set Q' \<Longrightarrow> (\<exists>sec buf. x = Waiting i sec buf) \<or> i \<in> set Q \<and> (\<forall>sec buf. rd r \<noteq> Waiting i sec buf)"
  shows "owners_ok b' (rd(r := x)) Q'"
  unfolding owners_ok_def
proof (intro conjI allI ballI impI)
  fix r1 r2 i
  assume "slot_of ((rd(r := x)) r1) = Some i" "slot_of ((rd(r := x)) r2) = Some i"
  then show "r1 = r2"
    using own assms(2) by (auto simp: owners_ok_def split: if_splits)
next
  fix r1 r2 :: nat
  assume "r1 \<noteq> r2"
  then show "target ((rd(r := x)) r1) \<inter> target ((rd(r := x)) r2) = {}"
    using owners_okD(2) [OF own] assms(3) [of r1] assms(3) [of r2] by (cases "r1 = r"; cases "r2 = r") (simp_all add: Int_commute)
next
  fix i
  assume "i < BLK_REQ_MAX" "slot_in_use (blk_slots b' ! i)"
  then show "\<exists>r'. slot_of ((rd(r := x)) r') = Some i"
    using own use [of i] unfolding owners_ok_def by (metis fun_upd_apply)
next
  fix i
  assume "i \<in> set Q'"
  then show "\<exists>r' sec buf. (rd(r := x)) r' = Waiting i sec buf"
    using own que [of i] unfolding owners_ok_def by (metis fun_upd_apply)
qed

lemma blk_claim_eq:
  assumes "bsys_ok A disk s P F U"
  shows "blk_claim (sblk s) h =
    (let b = processed U (sblk s) in
     case first_idx (\<lambda>x. \<not> slot_in_use x) (blk_slots b) of
       None \<Rightarrow> Inr (None, b, h)
     | Some i \<Rightarrow> Inr (Some i, set_slot i ((blk_slots b ! i)\<lparr>slot_in_use := True, slot_done := False, slot_status := 0xff\<rparr>) b, h))"
proof -
  have lk: "blk_lock (sblk s) = 0"
    using assms by (simp add: bsys_ok_def rings_ok_def)
  show ?thesis
    using lk process_used_locked [OF assms]
    by (simp add: blk_claim_def Let_def set_slot_def processed_def split: option.split)
qed

lemma claim_ok:
  assumes ok: "bsys_ok A disk s P F []" and idle: "readers s r = Idle" and "\<forall>r'. target (readers s r') \<inter> buf_bytes buf = {}"
    and i: "i < BLK_REQ_MAX" "\<not> slot_in_use (blk_slots (sblk s) ! i)"
  defines "b \<equiv> set_slot i ((blk_slots (sblk s) ! i)\<lparr>slot_in_use := True, slot_done := False, slot_status := 0xff\<rparr>) (sblk s)"
  shows "bsys_ok A disk (s\<lparr>sblk := b, readers := (readers s)(r := Claimed i sec buf)\<rparr>) P F []"
proof -
  have rings: "rings_ok (sblk s) (dev_avail s) (inflight s) P F []" and own: "owners_ok (sblk s) (readers s) (P @ F)"
    and rd: "\<And>r. reader_ok A disk (sblk s) (smem s) (P @ F) [] (readers s r)"
    using ok by (simp_all add: bsys_ok_def)
  have len: "length (blk_slots (sblk s)) = BLK_REQ_MAX"
    using rings by (simp add: rings_ok_def)
  have notq: "i \<notin> set (P @ F)"
    using queued_in_use [OF ok] i by auto
  have free: "slot_of (readers s r') \<noteq> Some i" for r'
    using reader_in_use [OF rd] i by blast
  have "reader_ok A disk b (smem s) (P @ F) [] (((readers s)(r := Claimed i sec buf)) r')" for r'
  proof (cases "r' = r")
    case True
    then show ?thesis
      using i notq len by (simp add: b_def set_slot_def)
  next
    case False
    have "reader_ok A disk b (smem s) (P @ F) [] (readers s r')"
      using rd [of r'] free [of r'] by (rule_tac reader_ok_cong [OF rd]) (auto simp: b_def set_slot_def nth_list_update)
    then show ?thesis
      using False by simp
  qed
  moreover have "owners_ok b ((readers s)(r := Claimed i sec buf)) (P @ F)"
  proof (rule owners_ok_update [OF own])
    show "slot_of (Claimed i sec buf) = Some j \<or> slot_in_use (blk_slots (sblk s) ! j) \<and> slot_of (readers s r) \<noteq> Some j"
      if "slot_in_use (blk_slots b ! j)" for j
      using that by (cases "j = i") (simp_all add: b_def set_slot_def idle)
  qed (use free assms(3) idle in auto)
  ultimately show ?thesis
    using rings by (simp add: bsys_ok_def rings_ok_def b_def set_slot_def)
qed

lemma few_queued: "rings_ok b da fl P F U \<Longrightarrow> length P + length F + length U \<le> BLK_REQ_MAX"
proof -
  assume "rings_ok b da fl P F U"
  then have "distinct (P @ F @ U)" "set (P @ F @ U) \<subseteq> {..<BLK_REQ_MAX}"
    unfolding rings_ok_def by blast+
  then have "length (P @ F @ U) \<le> card {..<BLK_REQ_MAX}"
    by (metis card_mono distinct_card finite_lessThan)
  then show ?thesis
    by simp
qed

lemma length_window_queued:
  assumes "rings_ok b da fl P F U"
  shows "unat (avail_idx (bq b) - da) = length P" and "unat (vused_idx (bq b) - blk_used_idx b) = length U"
proof -
  have "length (ring_window (avail_ring (bq b)) da (avail_idx (bq b))) = length P"
    using assms by (simp only: rings_ok_def length_map)
  moreover have "length (ring_window (vused_ring (bq b)) (blk_used_idx b) (vused_idx (bq b))) = length U"
    using assms by (simp only: rings_ok_def length_map)
  ultimately show "unat (avail_idx (bq b) - da) = length P" "unat (vused_idx (bq b) - blk_used_idx b) = length U"
    by simp_all
qed

definition posted :: "u32 \<Rightarrow> nat \<Rightarrow> u32 \<Rightarrow> u32 \<Rightarrow> blk \<Rightarrow> blk" where
  "posted A i sec buf b =
     (let b = set_slot i ((blk_slots b ! i)\<lparr>req_type := 0, req_reserved := 0, req_sector := ucast sec\<rparr>) b
      in b\<lparr>bq := avail_push (blk_head_for_slot i) (blk_descs A i buf (bq b))\<rparr>)"

lemma blk_post_eq:
  "blk_lock b = 0 \<Longrightarrow> blk_post e A i sec buf (b, d) h = Inr (posted A i sec buf b, bus_write e (virtio_base b + 0x050) 0 d, h)"
  by (cases b) (simp add: blk_post_def posted_def set_slot_def Let_def)

lemma vq_desc_blk_descs:
  assumes "i < BLK_REQ_MAX" and "length (vq_desc q) = VIRTQ_NUM"
  shows "vq_desc (blk_descs A i buf q) ! n =
    (if n = 3 * i then \<lparr>d_addr = ucast (slot_req_addr A i), d_len = 16, d_flags = DESC_F_NEXT, d_next = of_nat (3 * i + 1)\<rparr>
     else if n = 3 * i + 1 then
       \<lparr>d_addr = ucast buf, d_len = 512, d_flags = DESC_F_NEXT OR DESC_F_WRITE, d_next = of_nat (3 * i + 2)\<rparr>
     else if n = 3 * i + 2 then \<lparr>d_addr = ucast (slot_status_addr A i), d_len = 1, d_flags = DESC_F_WRITE, d_next = 0\<rparr>
     else vq_desc q ! n)"
proof -
  have "blk_head_for_slot i + 1 = of_nat (3 * i + 1)" "blk_head_for_slot i + 2 = of_nat (3 * i + 2)"
    by (simp_all add: blk_head_for_slot_def algebra_simps)
  then show ?thesis
    using assms head_word [OF assms(1)] by (simp add: blk_descs_def set_desc_def Let_def nth_list_update)
qed

lemma post_ok:
  assumes ok: "bsys_ok A disk s P F U" and r: "readers s r = Claimed i sec buf"
  shows "bsys_ok A disk (s\<lparr>sblk := posted A i sec buf (sblk s), sregs := d, readers := (readers s)(r := Waiting i sec buf)\<rparr>) (P @ [i]) F U"
proof -
  let ?b = "posted A i sec buf (sblk s)"
  have rings: "rings_ok (sblk s) (dev_avail s) (inflight s) P F U" and own: "owners_ok (sblk s) (readers s) (P @ F @ U)"
    and rd: "\<And>r. reader_ok A disk (sblk s) (smem s) (P @ F) U (readers s r)"
    using ok by (simp_all add: bsys_ok_def)
  have len: "length (blk_slots (sblk s)) = BLK_REQ_MAX" "virtq_ok (bq (sblk s))"
    using rings by (simp_all add: rings_ok_def)
  have i: "i < BLK_REQ_MAX" "slot_in_use (blk_slots (sblk s) ! i)" "\<not> slot_done (blk_slots (sblk s) ! i)" "i \<notin> set (P @ F @ U)"
    using rd [of r] r by auto
  have desc: "vq_desc (bq ?b) = vq_desc (blk_descs A i buf (bq (sblk s)))"
    by (simp add: posted_def Let_def set_slot_def)
  have slots: "blk_slots ?b = (blk_slots (sblk s))[i := (blk_slots (sblk s) ! i)\<lparr>req_type := 0, req_reserved := 0, req_sector := ucast sec\<rparr>]"
    by (simp add: posted_def Let_def set_slot_def)
  note dn = vq_desc_blk_descs [OF i(1), of "bq (sblk s)"]
  have other: "slot_of (readers s r') \<noteq> Some i" if "r' \<noteq> r" for r'
    using own that r unfolding owners_ok_def by (metis slot_of.simps(2))
  have "reader_ok A disk ?b (smem s) (P @ [i] @ F) U (((readers s)(r := Waiting i sec buf)) r')" for r'
  proof (cases "r' = r")
    case True
    then show ?thesis
      using i len dn by (simp add: slots desc posted_ok_def virtq_ok_def)
  next
    case False
    have "reader_ok A disk ?b (smem s) (P @ [i] @ F) U (readers s r')"
      using other [OF False] len dn
      by (intro reader_ok_cong [OF rd [of r']]) (auto simp: slots desc virtq_ok_def nth_list_update)
    then show ?thesis
      using False by simp
  qed
  moreover have "owners_ok ?b ((readers s)(r := Waiting i sec buf)) ((P @ [i]) @ F @ U)"
  proof (rule owners_ok_update [OF own])
    show "target (readers s r') \<inter> target (Waiting i sec buf) = {}" if "r' \<noteq> r" for r'
      using owners_okD(2) [OF own that] r by simp
    show "slot_of (Waiting i sec buf) = Some j \<or> slot_in_use (blk_slots (sblk s) ! j) \<and> slot_of (readers s r) \<noteq> Some j"
      if "slot_in_use (blk_slots ?b ! j)" for j
      using that r by (cases "j = i") (simp_all add: slots)
  qed (use other r in auto)
  moreover have "rings_ok ?b (dev_avail s) (inflight s) (P @ [i]) F U"
    using rings i ring_window_push [of "avail_ring (bq (sblk s))" "avail_idx (bq (sblk s))" "dev_avail s" "blk_head_for_slot i"]
      length_window_queued(1) [OF rings] few_queued [OF rings]
    by (simp add: rings_ok_def posted_def Let_def set_slot_def blk_descs_def avail_push_def virtq_ok_def set_desc_def)
  ultimately show ?thesis
    by (simp add: bsys_ok_def)
qed

definition released :: "nat \<Rightarrow> blk \<Rightarrow> blk" where
  "released i b = set_slot i ((blk_slots b ! i)\<lparr>slot_done := False, slot_in_use := False\<rparr>) b"

lemma blk_finish_eq:
  assumes "bsys_ok A disk s P F U"
  defines "b \<equiv> processed U (sblk s)"
  shows "blk_finish i (sblk s) k h =
    (if slot_done (blk_slots b ! i) then
       kbind (waitq_wake_all (blk_waitq b) k h) (\<lambda>(q, k, h).
         Inr (Some (if slot_status (blk_slots b ! i) = 0 then 0 else -1), (released i b)\<lparr>blk_waitq := q\<rparr>, k, h))
     else Inr (None, b, k, h))"
proof -
  have lk: "blk_lock (sblk s) = 0"
    using assms by (simp add: bsys_ok_def rings_ok_def)
  then have "b\<lparr>blk_lock := 0\<rparr> = b" "b\<lparr>blk_slots := xs, blk_lock := 0, blk_waitq := q\<rparr> = b\<lparr>blk_slots := xs, blk_waitq := q\<rparr>" for xs q
    by (simp_all add: b_def processed_def)
  then show ?thesis
    using lk process_used_locked [OF assms(1)]
    by (simp add: blk_finish_def Let_def b_def [symmetric] released_def set_slot_def)
qed

lemma release_ok:
  assumes ok: "bsys_ok A disk s P F []" and r: "readers s r = Waiting i sec buf" and "slot_done (blk_slots (sblk s) ! i)"
  shows "bsys_ok A disk (s\<lparr>sblk := released i (sblk s), readers := (readers s)(r := Idle)\<rparr>) P F []"
proof -
  have rings: "rings_ok (sblk s) (dev_avail s) (inflight s) P F []" and own: "owners_ok (sblk s) (readers s) (P @ F)"
    and rd: "\<And>r. reader_ok A disk (sblk s) (smem s) (P @ F) [] (readers s r)"
    using ok by (simp_all add: bsys_ok_def)
  have i: "i < BLK_REQ_MAX" "i \<notin> set (P @ F)" "length (blk_slots (sblk s)) = BLK_REQ_MAX"
    using rd [of r] r assms(3) rings by (auto simp: rings_ok_def)
  have other: "slot_of (readers s r') \<noteq> Some i" if "r' \<noteq> r" for r'
    using owners_okD(1) [OF own] that r by (metis slot_of.simps(3))
  have slots: "blk_slots (released i (sblk s)) = (blk_slots (sblk s))[i := (blk_slots (sblk s) ! i)\<lparr>slot_done := False, slot_in_use := False\<rparr>]"
    by (simp add: released_def set_slot_def)
  have "reader_ok A disk (released i (sblk s)) (smem s) (P @ F) [] (readers s r')" if "r' \<noteq> r" for r'
    using other [OF that] by (intro reader_ok_cong [OF rd]) (auto simp: slots released_def set_slot_def)
  then have "reader_ok A disk (released i (sblk s)) (smem s) (P @ F) [] (((readers s)(r := Idle)) r')" for r'
    by (cases "r' = r") simp_all
  moreover have "owners_ok (released i (sblk s)) ((readers s)(r := Idle)) (P @ F)"
  proof (rule owners_ok_update [OF own])
    show "slot_of Idle = Some j \<or> slot_in_use (blk_slots (sblk s) ! j) \<and> slot_of (readers s r) \<noteq> Some j"
      if "slot_in_use (blk_slots (released i (sblk s)) ! j)" for j
      using that r i by (cases "j = i") (simp_all add: slots)
  qed (use i r in auto)
  ultimately show ?thesis
    using rings by (simp add: bsys_ok_def rings_ok_def released_def set_slot_def)
qed

section \<open>Steps of the device\<close>

lemma fetch_ok:
  assumes "bsys_ok A disk s P F U" and "dev_avail s \<noteq> avail_idx (bq (sblk s))"
  shows "\<exists>i P'. P = i # P' \<and> bsys_ok A disk
    (s\<lparr>dev_avail := dev_avail s + 1, inflight := inflight s @ [avail_ring (bq (sblk s)) ! (unat (dev_avail s) mod VIRTQ_NUM)]\<rparr>)
    P' (F @ [i]) U"
proof -
  have "ring_window (avail_ring (bq (sblk s))) (dev_avail s) (avail_idx (bq (sblk s))) = map blk_head_for_slot P"
    using assms(1) by (simp add: bsys_ok_def rings_ok_def)
  then obtain i P' where P: "P = i # P'" "avail_ring (bq (sblk s)) ! (unat (dev_avail s) mod VIRTQ_NUM) = blk_head_for_slot i"
    "ring_window (avail_ring (bq (sblk s))) (dev_avail s + 1) (avail_idx (bq (sblk s))) = map blk_head_for_slot P'"
    using ring_window_pop [OF assms(2), of "avail_ring (bq (sblk s))"] by (cases P) auto
  have "reader_ok A disk (sblk s) (smem s) (P' @ F @ [i]) U rd = reader_ok A disk (sblk s) (smem s) (P @ F) U rd" for rd
    by (cases rd) (auto simp: P(1))
  moreover have "owners_ok (sblk s) (readers s) (P' @ (F @ [i]) @ U) = owners_ok (sblk s) (readers s) (P @ F @ U)"
    by (auto simp: owners_ok_def P(1))
  ultimately show ?thesis
    using assms(1) P by (auto simp: bsys_ok_def rings_ok_def)
qed

lemma slot_addr_inj:
  assumes "i < BLK_REQ_MAX" and "j < BLK_REQ_MAX"
  shows "(ucast (slot_req_addr A i) :: u64) = ucast (slot_req_addr A j) \<longleftrightarrow> i = j"
    and "(ucast (slot_status_addr A i) :: u64) = ucast (slot_status_addr A j) \<longleftrightarrow> i = j"
proof -
  have inj: "(ucast (x :: u32) :: u64) = ucast y \<longleftrightarrow> x = y" for x y
    by (simp add: word_uint_eq_iff uint_up_ucast is_up_def target_size_def source_size_def word_size)
  have "(of_nat (19 * i) :: u32) = of_nat (19 * j) \<longleftrightarrow> i = j"
  proof -
    have "unat (of_nat (19 * k) :: u32) = 19 * k" if "k < BLK_REQ_MAX" for k
      using that by (simp add: unat_of_nat take_bit_eq_mod del: of_nat_mult)
    then show ?thesis
      using assms by (metis mult_left_cancel zero_neq_numeral)
  qed
  then show "(ucast (slot_req_addr A i) :: u64) = ucast (slot_req_addr A j) \<longleftrightarrow> i = j"
    "(ucast (slot_status_addr A i) :: u64) = ucast (slot_status_addr A j) \<longleftrightarrow> i = j"
    by (simp_all only: inj slot_req_addr_def slot_status_addr_def add_left_cancel add_right_cancel)
qed

lemma first_idx_upt: "i < n \<Longrightarrow> (\<And>j. j < n \<Longrightarrow> Q j \<longleftrightarrow> j = i) \<Longrightarrow> first_idx Q [0..<n] = Some i"
  by (auto simp: first_idx_Some_iff)

lemma dev_request_posted:
  assumes "posted_ok A b i sec buf" and "i < BLK_REQ_MAX"
  shows "dev_request A b (blk_head_for_slot i) = Some (ucast sec, buf, i)"
proof -
  have "unat (of_nat (3 * i + 1) :: u16) = 3 * i + 1" "unat (of_nat (3 * i + 2) :: u16) = 3 * i + 2"
    using head_word(3,4) [OF assms(2)] by (simp_all add: blk_head_for_slot_def algebra_simps)
  moreover have "(ucast (ucast buf :: u64) :: u32) = buf"
    by (rule ucast_up_ucast_id) (simp add: is_up_def target_size_def source_size_def word_size)
  moreover have "first_idx (\<lambda>j. (ucast (slot_req_addr A j) :: u64) = ucast (slot_req_addr A i)) [0..<BLK_REQ_MAX] = Some i"
    "first_idx (\<lambda>j. (ucast (slot_status_addr A j) :: u64) = ucast (slot_status_addr A i)) [0..<BLK_REQ_MAX] = Some i"
    using assms(2) slot_addr_inj by (intro first_idx_upt; simp)+
  ultimately show ?thesis
    using assms(1) head_word(1) [OF assms(2)] unfolding dev_request_def posted_ok_def by (simp add: Let_def)
qed

lemma queued_request:
  assumes "bsys_ok A disk s P F U" and "i \<in> set (P @ F @ U)"
  shows "\<exists>r sec buf. readers s r = Waiting i sec buf \<and> dev_request A (sblk s) (blk_head_for_slot i) = Some (ucast sec, buf, i)"
proof -
  obtain r sec buf where r: "readers s r = Waiting i sec buf"
    using assms unfolding bsys_ok_def owners_ok_def by blast
  then have "reader_ok A disk (sblk s) (smem s) (P @ F) U (Waiting i sec buf)"
    using assms(1) unfolding bsys_ok_def by metis
  then show ?thesis
    using r dev_request_posted by (intro exI [of _ r] exI [of _ sec] exI [of _ buf]) simp
qed

lemma head_inj:
  assumes "i < BLK_REQ_MAX" and "j < BLK_REQ_MAX" and "blk_head_for_slot i = blk_head_for_slot j"
  shows "i = j"
proof -
  have "3 * i = 3 * j"
    unfolding head_word(1) [OF assms(1), symmetric] head_word(1) [OF assms(2), symmetric] assms(3) ..
  then show ?thesis
    by simp
qed

lemma remove1_map_inj: "inj_on f (insert x (set xs)) \<Longrightarrow> remove1 (f x) (map f xs) = map f (remove1 x xs)"
proof (induction xs)
  case (Cons y ys)
  then have "f x = f y \<longleftrightarrow> x = y" "inj_on f (insert x (set ys))"
    by (auto simp: inj_on_def)
  then show ?case
    using Cons.IH by auto
qed simp

lemma complete_ok:
  assumes ok: "bsys_ok A disk s P F U" and i: "i \<in> set F" and r: "readers s r = Waiting i sec buf"
    and req: "dev_request A (sblk s) (blk_head_for_slot i) = Some (ucast sec, buf, i)"
    and data: "length data = 512" "status = 0 \<Longrightarrow> data = disk (ucast sec)"
    and s': "dev_complete A (blk_head_for_slot i) status data s = Some s'"
  shows "bsys_ok A disk s' P (remove1 i F) (U @ [i])"
proof -
  have rings: "rings_ok (sblk s) (dev_avail s) (inflight s) P F U" and own: "owners_ok (sblk s) (readers s) (P @ F @ U)"
    and rd: "\<And>r. reader_ok A disk (sblk s) (smem s) (P @ F) U (readers s r)"
    using ok by (simp_all add: bsys_ok_def)
  have i8: "i < BLK_REQ_MAX" "length (blk_slots (sblk s)) = BLK_REQ_MAX" and dist: "distinct (P @ F @ U)"
    and sub: "set (P @ F @ U) \<subseteq> {..<BLK_REQ_MAX}" and vq: "length (vused_ring (bq (sblk s))) = VIRTQ_NUM"
    using rings i unfolding rings_ok_def virtq_ok_def by auto
  have s'_eq: "sblk s' = (sblk s)\<lparr>blk_slots := (blk_slots (sblk s))[i := (blk_slots (sblk s) ! i)\<lparr>slot_status := status\<rparr>],
      bq := used_push (ucast (blk_head_for_slot i), 513) (bq (sblk s))\<rparr>"
    "smem s' = mem_write buf data (smem s)" "inflight s' = remove1 (blk_head_for_slot i) (inflight s)"
    "readers s' = readers s" "dev_avail s' = dev_avail s"
    using s' by (auto simp: dev_complete_def req set_slot_def Let_def)
  have q: "set (P @ remove1 i F) = set (P @ F) - {i}" "set (U @ [i]) = insert i (set U)" "i \<notin> set P \<union> set U"
    using dist i by auto
  have other: "reader_ok A disk (sblk s') (smem s') (P @ remove1 i F) (U @ [i]) (readers s r')" if "r' \<noteq> r" for r'
  proof (rule reader_ok_cong [OF rd])
    have "target (readers s r') \<inter> buf_bytes buf = {}"
      using owners_okD(2) [OF own that] r by simp
    then show "\<forall>x\<in>target (readers s r'). smem s' x = smem s x"
      using data(1) by (auto simp: s'_eq mem_write_def buf_bytes_def)
    show "blk_slots (sblk s') ! j = blk_slots (sblk s) ! j \<and>
        (\<forall>k<3. vq_desc (bq (sblk s')) ! (3 * j + k) = vq_desc (bq (sblk s)) ! (3 * j + k)) \<and>
        (j \<in> set (P @ remove1 i F) \<longleftrightarrow> j \<in> set (P @ F)) \<and> (j \<in> set (U @ [i]) \<longleftrightarrow> j \<in> set U)"
      if "slot_of (readers s r') = Some j" for j
    proof -
      have "j \<noteq> i"
        using owners_okD(1) [OF own, of r' i r] that r \<open>r' \<noteq> r\<close> by auto
      then show ?thesis
        unfolding q by (auto simp: s'_eq used_push_def)
    qed
  qed
  have "reader_ok A disk (sblk s') (smem s') (P @ remove1 i F) (U @ [i]) (Waiting i sec buf)"
    using rd [of r] r i i8 q data(2) mem_block_write [OF data(1), of buf "smem s"] by (auto simp: s'_eq posted_ok_def used_push_def)
  then have "reader_ok A disk (sblk s') (smem s') (P @ remove1 i F) (U @ [i]) (readers s' r')" for r'
    using other r by (cases "r' = r") (simp_all add: s'_eq(4))
  moreover have "owners_ok (sblk s') (readers s') (P @ remove1 i F @ U @ [i])"
    using own i q i8 unfolding owners_ok_def s'_eq by (auto simp: nth_list_update dest: set_remove1_subset [THEN subsetD])
  moreover have "inflight s' = map blk_head_for_slot (remove1 i F)"
    using rings sub i i8(1) remove1_map_inj [of blk_head_for_slot i F] head_inj
    by (auto simp: s'_eq rings_ok_def inj_on_def subset_eq)
  ultimately show ?thesis
    using rings q dist sub i8 vq length_window_queued(2) [OF rings] few_queued [OF rings]
      ring_window_push [OF vq, of "vused_idx (bq (sblk s))" "blk_used_idx (sblk s)" "(ucast (blk_head_for_slot i), 513)"]
    by (auto simp: bsys_ok_def rings_ok_def s'_eq used_push_def virtq_ok_def)
qed

section \<open>The invariant holds in every reachable state\<close>

lemma blk_irq_ok:
  assumes "bsys_ok A disk s P F U" and "blk_handle_irq e (sblk s, sregs s) k h = Inr (b, d, k', h')"
  shows "\<exists>U'. bsys_ok A disk (s\<lparr>sblk := b, sregs := d\<rparr>) P F U'"
proof -
  have lk: "blk_lock (sblk s) = 0"
    using assms(1) by (simp add: bsys_ok_def rings_ok_def)
  have regs: "bsys_ok A disk (s'\<lparr>sregs := d\<rparr>) P F U' = bsys_ok A disk s' P F U'" for s' U'
    by (simp add: bsys_ok_def)
  have "b = sblk s \<or> (\<exists>q. wq_lock q = 0 \<and> b = (processed U (sblk s))\<lparr>blk_waitq := q\<rparr>)"
    using assms(2) lk process_used_locked [OF assms(1)]
    by (auto simp: blk_handle_irq_def Let_def kbind_Inr_iff processed_def split: if_splits prod.splits dest: wake_all_lock)
  then show ?thesis
  proof
    assume "b = sblk s"
    then show ?thesis
      using assms(1) regs [of s U] by auto
  next
    assume "\<exists>q. wq_lock q = 0 \<and> b = (processed U (sblk s))\<lparr>blk_waitq := q\<rparr>"
    then obtain q where "wq_lock q = 0" "b = (processed U (sblk s))\<lparr>blk_waitq := q\<rparr>"
      by blast
    then show ?thesis
      using bsys_ok_waitq [OF processed_ok [OF assms(1)], of q] regs [of "s\<lparr>sblk := b\<rparr>" "[]"] by auto
  qed
qed

lemma blk_finish_ok:
  assumes ok: "bsys_ok A disk s P F U" and r: "readers s r = Waiting i sec buf"
    and "blk_finish i (sblk s) k h = Inr (v, b, k', h')"
  shows "bsys_ok A disk (s\<lparr>sblk := b, readers := if v = None then readers s else (readers s)(r := Idle)\<rparr>) P F []"
proof (cases "slot_done (blk_slots (processed U (sblk s)) ! i)")
  case True
  then obtain q v' where b: "b = (released i (processed U (sblk s)))\<lparr>blk_waitq := q\<rparr>" "wq_lock q = 0" "v = Some v'"
    using assms(3) by (auto simp: blk_finish_eq [OF ok] kbind_Inr_iff dest: wake_all_lock)
  have "bsys_ok A disk (s\<lparr>sblk := released i (processed U (sblk s)), readers := (readers s)(r := Idle)\<rparr>) P F []"
    using release_ok [OF processed_ok [OF ok], of r i sec buf] r True by simp
  from bsys_ok_waitq [OF this b(2)] show ?thesis
    using b(1,3) by (simp add: bsys_ok_def)
next
  case False
  then show ?thesis
    using processed_ok [OF ok] assms(3) by (simp add: blk_finish_eq [OF ok])
qed

lemma blk_step_ok:
  assumes "blk_step e A disk s s'" and ok: "bsys_ok A disk s P F U"
  shows "\<exists>P F U. bsys_ok A disk s' P F U"
  using assms(1)
proof cases
  case (claim r buf h i b h' sec)
  let ?s = "s\<lparr>sblk := processed U (sblk s)\<rparr>"
  have i: "first_idx (\<lambda>x. \<not> slot_in_use x) (blk_slots (processed U (sblk s))) = Some i"
    "b = set_slot i ((blk_slots (processed U (sblk s)) ! i)\<lparr>slot_in_use := True, slot_done := False, slot_status := 0xff\<rparr>) (processed U (sblk s))"
    using claim(5) by (auto simp: blk_claim_eq [OF ok] Let_def split: option.splits)
  have "length (blk_slots (processed U (sblk s))) = BLK_REQ_MAX"
    using ok by (simp add: bsys_ok_def rings_ok_def)
  then show ?thesis
    using claim_ok [OF processed_ok [OF ok], of r buf i sec] claim first_idx_SomeD [OF i(1)] i(2) by auto
next
  case (full h b h')
  then show ?thesis
    using processed_ok [OF ok] by (auto simp: blk_claim_eq [OF ok] Let_def split: option.splits)
next
  case (post r i sec buf h b d h')
  then have "b = posted A i sec buf (sblk s)"
    using ok blk_post_eq [of "sblk s" e A i sec buf "sregs s" h] by (auto simp: bsys_ok_def rings_ok_def)
  then show ?thesis
    using post post_ok [OF ok post(2), of d] by blast
next
  case (finish r i sec buf k h v b k' h')
  then show ?thesis
    using blk_finish_ok [OF ok finish(2,3)] by auto
next
  case (again r i sec buf k h b k' h')
  then show ?thesis
    using blk_finish_ok [OF ok again(2,3)] by auto
next
  case (sleep k h q k' h')
  then show ?thesis
    using bsys_ok_waitq [OF ok sleep_block_lock [OF sleep(2)]] ok by (auto simp: bsys_ok_def rings_ok_def)
next
  case (irq k h b d k' h')
  then show ?thesis
    using blk_irq_ok [OF ok irq(2)] by blast
next
  case (cpu m)
  have "reader_ok A disk (sblk s) m (P @ F) U (readers s r)" for r
  proof (rule reader_ok_cong)
    show "reader_ok A disk (sblk s) (smem s) (P @ F) U (readers s r)"
      using ok by (simp only: bsys_ok_def)
  qed (use cpu(2) in simp_all)
  then have "bsys_ok A disk s' P F U"
    using ok unfolding cpu(1) by (simp add: bsys_ok_def)
  then show ?thesis
    by blast
next
  case fetch
  then show ?thesis
    using fetch_ok [OF ok] by blast
next
  case (complete head data status)
  then obtain i where i: "i \<in> set F" "head = blk_head_for_slot i"
    using ok by (auto simp: bsys_ok_def rings_ok_def)
  then obtain r sec buf where "readers s r = Waiting i sec buf" "dev_request A (sblk s) head = Some (ucast sec, buf, i)"
    using queued_request [OF ok, of i] by auto
  then show ?thesis
    using complete_ok [OF ok i(1), of r sec buf data status s'] complete i(2) by blast
qed

lemma blk_reach_ok: "blk_reach e A disk s \<Longrightarrow> \<exists>P F U. bsys_ok A disk s P F U"
proof (induction rule: blk_reach.induct)
  case (start da aa ua b0 d0 b d m)
  then have "bq b = zero_virtq \<and> blk_used_idx b = 0 \<and> blk_slots b = replicate BLK_REQ_MAX zero_slot \<and> blk_lock b = 0 \<and> wq_lock (blk_waitq b) = 0"
    by (auto simp: blk_init_def Let_def waitq_init_def split: prod.splits if_splits)
  then have "bsys_ok A disk \<lparr>sblk = b, sregs = d, smem = m, dev_avail = 0, inflight = [], readers = (\<lambda>_. Idle)\<rparr> [] [] []"
    by (simp add: bsys_ok_def rings_ok_def owners_ok_def zero_virtq_def virtq_ok_def zero_slot_def)
  then show ?case
    by blast
next
  case (step s s')
  then show ?case
    using blk_step_ok by blast
qed

section \<open>What a reader gets\<close>

definition unanswered :: "'d bsys \<Rightarrow> nat \<Rightarrow> bool" where
  "unanswered s i \<longleftrightarrow>
     blk_head_for_slot i \<in> set (ring_window (avail_ring (bq (sblk s))) (dev_avail s) (avail_idx (bq (sblk s)))) \<union> set (inflight s)"

lemma unanswered_iff:
  assumes "bsys_ok A disk s P F U" and "i < BLK_REQ_MAX"
  shows "unanswered s i \<longleftrightarrow> i \<in> set (P @ F)"
proof -
  have "unanswered s i \<longleftrightarrow> blk_head_for_slot i \<in> blk_head_for_slot ` set (P @ F)" and "set (P @ F) \<subseteq> {..<BLK_REQ_MAX}"
    using assms(1) by (auto simp: unanswered_def bsys_ok_def rings_ok_def)
  then show ?thesis
    using assms(2) head_inj by auto
qed

lemma blk_finish_cases:
  assumes ok: "bsys_ok A disk s P F U" and r: "readers s r = Waiting i sec buf"
  defines "st \<equiv> slot_status (blk_slots (sblk s) ! i)"
  shows "\<exists>b k' h'. blk_finish i (sblk s) k h =
      Inr (if unanswered s i then None else Some (if st = 0 then 0 else -1), b, k', h')"
    and "\<not> unanswered s i \<Longrightarrow> st = 0 \<Longrightarrow> mem_block (smem s) buf = disk (ucast sec)"
proof -
  have rd: "reader_ok A disk (sblk s) (smem s) (P @ F) U (Waiting i sec buf)"
    "reader_ok A disk (processed U (sblk s)) (smem s) (P @ F) [] (Waiting i sec buf)"
    using ok processed_ok [OF ok] r by (metis bsys_ok_def, metis (no_types, lifting) bsys_ok_def bsys.select_convs(1,3,6) bsys.surjective bsys.update_convs(1))
  have un: "unanswered s i \<longleftrightarrow> i \<in> set (P @ F)"
    using unanswered_iff [OF ok] rd(1) by simp
  then have d: "slot_done (blk_slots (processed U (sblk s)) ! i) \<longleftrightarrow> \<not> unanswered s i"
    using rd(2) by simp
  have len: "set U \<subseteq> {..<length (blk_slots (sblk s))}"
    using ok by (auto simp: bsys_ok_def rings_ok_def)
  have st: "slot_status (blk_slots (processed U (sblk s)) ! i) = st"
    by (simp add: processed_def nth_mark_done [OF len] st_def)
  have wq: "wq_lock (blk_waitq (sblk s)) = 0"
    using ok by (simp add: bsys_ok_def rings_ok_def)
  show "\<exists>b k' h'. blk_finish i (sblk s) k h =
      Inr (if unanswered s i then None else Some (if st = 0 then 0 else -1), b, k', h')"
    by (simp add: blk_finish_eq [OF ok] d st waitq_wake_all_def wq Let_def)
  show "mem_block (smem s) buf = disk (ucast sec)" if "\<not> unanswered s i" "st = 0"
    using that rd(1) un by (simp add: st_def)
qed

text \<open>
  C13. Reading sectors concurrently. In every reachable state, for a reader that waits with its request posted: the
  slot is its own; \<^verbatim>\<open>blk_read\<close> waits on exactly while the device has not completed the request, and then returns 0 or -1 as the
  device's status says; with 0 the buffer holds the bytes of the sector that was asked for. Every request the
  device works on is a well-formed chain for the buffer of a waiting reader, so that the device writes to no other memory.
\<close>

theorem blk_read_correct:
  assumes "blk_reach e A disk s" and "readers s r = Waiting i sec buf"
  defines "st \<equiv> slot_status (blk_slots (sblk s) ! i)"
  shows "(\<forall>r'. slot_of (readers s r') = Some i \<longrightarrow> r' = r) \<and>
    (\<exists>b k' h'. blk_finish i (sblk s) k h = Inr (if unanswered s i then None else Some (if st = 0 then 0 else -1), b, k', h')) \<and>
    (\<not> unanswered s i \<longrightarrow> st = 0 \<longrightarrow> mem_block (smem s) buf = disk (ucast sec)) \<and>
    (\<forall>head\<in>set (inflight s). \<exists>r' i' sec' buf'. readers s r' = Waiting i' sec' buf' \<and>
       dev_request A (sblk s) head = Some (ucast sec', buf', i'))"
proof -
  obtain P F U where ok: "bsys_ok A disk s P F U"
    using blk_reach_ok [OF assms(1)] by blast
  have own: "owners_ok (sblk s) (readers s) (P @ F @ U)" and fl: "inflight s = map blk_head_for_slot F"
    using ok by (simp_all add: bsys_ok_def rings_ok_def)
  have "r' = r" if "slot_of (readers s r') = Some i" for r'
    using owners_okD(1) [OF own that] assms(2) by simp
  moreover have "\<exists>r' i' sec' buf'. readers s r' = Waiting i' sec' buf' \<and> dev_request A (sblk s) head = Some (ucast sec', buf', i')"
    if "head \<in> set (inflight s)" for head
  proof -
    obtain j where "j \<in> set F" "head = blk_head_for_slot j"
      using \<open>head \<in> set (inflight s)\<close> by (auto simp: fl)
    then show ?thesis
      using queued_request [OF ok, of j] by auto
  qed
  ultimately show ?thesis
    using blk_finish_cases [OF ok assms(2)] unfolding st_def by blast
qed

text \<open>A reader asks for sector 7, and the device answers.\<close>

definition demo_regs :: "unit bus" where
  "demo_regs = \<lparr>bus_read = (\<lambda>a d. (if a = 0x10001000 then VIRTIO_MAGIC else if a = 0x10001004 \<or> a = 0x10001008 then 2
     else if a = 0x10001034 then 32 else 8, d)), bus_write = (\<lambda>a v d. d)\<rparr>"

definition demo_disk :: "u64 \<Rightarrow> u8 list" where
  "demo_disk sec = replicate 512 (ucast sec)"

definition demo_blk :: blk where
  "demo_blk = \<lparr>bq = zero_virtq, blk_slots = replicate BLK_REQ_MAX zero_slot, blk_used_idx = 0, blk_ready = True,
     virtio_base = 0x10001000, blk_waitq = \<lparr>waiters = replicate 8 None, wq_lock = 0\<rparr>, blk_lock = 0\<rparr>"

definition demo_sys0 :: "unit bsys" where
  "demo_sys0 = \<lparr>sblk = demo_blk, sregs = (), smem = (\<lambda>_. 0), dev_avail = 0, inflight = [], readers = (\<lambda>_. Idle)\<rparr>"

definition demo_slot :: blk where
  "demo_slot = set_slot 0 (zero_slot\<lparr>slot_in_use := True, slot_status := 0xff\<rparr>) demo_blk"

definition demo_posted :: blk where
  "demo_posted = posted 0x80300000 0 7 0x80400000 demo_slot"

definition demo_sys :: "unit bsys" where
  "demo_sys = \<lparr>sblk = demo_posted\<lparr>blk_slots := (blk_slots demo_posted)[0 := (blk_slots demo_posted ! 0)\<lparr>slot_status := 0\<rparr>],
       bq := used_push (0, 513) (bq demo_posted)\<rparr>, sregs = (), smem = mem_write 0x80400000 (demo_disk 7) (\<lambda>_. 0), dev_avail = 1,
     inflight = [], readers = (\<lambda>_. Idle)(0 := Waiting 0 7 0x80400000)\<rparr>"

lemma demo_sys0_reach: "blk_reach demo_regs A disk demo_sys0"
proof -
  have "blk_init demo_regs 0 0 0 (demo_blk, ()) = (0, demo_blk, ())"
    by (simp add: blk_init_def Let_def demo_regs_def demo_blk_def virtio_mmio_base_def upt_rec waitq_init_def)
  then show ?thesis
    unfolding demo_sys0_def by (rule blk_reach.start) (simp add: demo_blk_def)
qed

lemma demo_sys_reach: "blk_reach demo_regs 0x80300000 demo_disk demo_sys"
proof -
  let ?reach = "blk_reach demo_regs 0x80300000 demo_disk" and ?step = "blk_step demo_regs 0x80300000 demo_disk"
  have ok: "bsys_ok 0x80300000 demo_disk demo_sys0 [] [] []"
    by (simp add: bsys_ok_def rings_ok_def owners_ok_def demo_sys0_def demo_blk_def zero_virtq_def virtq_ok_def zero_slot_def)
  define s1 where "s1 = demo_sys0\<lparr>sblk := demo_slot, readers := (readers demo_sys0)(0 := Claimed 0 7 0x80400000)\<rparr>"
  define s2 where "s2 = s1\<lparr>sblk := demo_posted, sregs := (), readers := (readers s1)(0 := Waiting 0 7 0x80400000)\<rparr>"
  define s3 where "s3 = s2\<lparr>dev_avail := dev_avail s2 + 1,
    inflight := inflight s2 @ [avail_ring (bq (sblk s2)) ! (unat (dev_avail s2) mod VIRTQ_NUM)]\<rparr>"
  fix h :: hart
  have "blk_claim (sblk demo_sys0) h = Inr (Some 0, demo_slot, h)"
    unfolding blk_claim_eq [OF ok]
    by (simp add: processed_def demo_sys0_def demo_slot_def demo_blk_def zero_slot_def zero_virtq_def set_slot_def eval_nat_numeral)
  then have 1: "?step demo_sys0 s1"
    unfolding s1_def by (intro blk_step.claim) (simp_all add: demo_sys0_def demo_blk_def blk_read_ok_def)
  have "blk_post demo_regs 0x80300000 0 7 0x80400000 (sblk s1, sregs s1) h = Inr (demo_posted, (), h)"
    by (simp add: s1_def demo_slot_def demo_blk_def set_slot_def demo_posted_def blk_post_eq)
  then have 2: "?step s1 s2"
    unfolding s2_def by (intro blk_step.post) (simp_all add: s1_def)
  have q: "avail_idx (bq demo_posted) = 1" "avail_ring (bq demo_posted) ! 0 = 0"
    by (simp_all add: demo_posted_def posted_def avail_push_def blk_descs_def demo_slot_def set_slot_def set_desc_def
        demo_blk_def zero_virtq_def blk_head_for_slot_def Let_def)
  have 3: "?step s2 s3"
    unfolding s3_def by (intro blk_step.fetch) (simp add: s2_def s1_def demo_sys0_def q)
  have p: "posted_ok 0x80300000 demo_posted 0 7 0x80400000"
    by (simp add: posted_ok_def demo_posted_def posted_def avail_push_def vq_desc_blk_descs demo_slot_def set_slot_def
        demo_blk_def zero_virtq_def Let_def)
  have 4: "?step s3 demo_sys"
  proof (rule blk_step.complete)
    show "0 \<in> set (inflight s3)" "length (demo_disk 7) = 512"
      by (simp_all add: s3_def s2_def s1_def demo_sys0_def q demo_disk_def)
    have req: "dev_request 0x80300000 (sblk s3) 0 = Some (7, 0x80400000, 0)"
      using dev_request_posted [OF p] by (simp add: s3_def s2_def blk_head_for_slot_def)
    then show "\<forall>sec buf j. dev_request 0x80300000 (sblk s3) 0 = Some (sec, buf, j) \<longrightarrow> (0 :: u8) = 0 \<longrightarrow> demo_disk 7 = demo_disk sec"
      by simp
    show "dev_complete 0x80300000 0 0 (demo_disk 7) s3 = Some demo_sys"
      by (simp add: dev_complete_def req Let_def) (simp add: s3_def s2_def s1_def demo_sys0_def demo_sys_def set_slot_def q)
  qed
  show ?thesis
    by (rule blk_reach.step [OF blk_reach.step [OF blk_reach.step [OF blk_reach.step [OF demo_sys0_reach 1] 2] 3] 4])
qed

lemma blk_read_correct_witness:
  "blk_reach demo_regs 0x80300000 demo_disk demo_sys \<and> readers demo_sys 0 = Waiting 0 7 0x80400000 \<and> \<not> unanswered demo_sys 0 \<and>
   mem_block (smem demo_sys) 0x80400000 = replicate 512 7"
proof -
  have r: "readers demo_sys 0 = Waiting 0 7 0x80400000"
    by (simp add: demo_sys_def)
  have u: "\<not> unanswered demo_sys 0"
    by (simp add: unanswered_def demo_sys_def used_push_def demo_posted_def posted_def avail_push_def blk_descs_def demo_slot_def
        set_slot_def set_desc_def demo_blk_def zero_virtq_def Let_def)
  have "slot_status (blk_slots (sblk demo_sys) ! 0) = 0"
    by (simp add: demo_sys_def demo_posted_def posted_def demo_slot_def set_slot_def demo_blk_def Let_def)
  then have "mem_block (smem demo_sys) 0x80400000 = demo_disk 7"
    using blk_read_correct [OF demo_sys_reach r] u by simp
  then show ?thesis
    using demo_sys_reach r u by (simp add: demo_disk_def)
qed

end
