(* ===== verification/Spec2Isabelle.thy ===== *)
theory Spec2Isabelle
  imports Event Process_Spec Ext4_Spec Ramfs_Spec Console_Spec Context Boot_Spec Fork_Spec Fault_Spec Wm_Redraw Shell_Spec Shell_Input Virtio_Blk_Spec
begin

text \<open>
  Verification of the Sugimotos kernel, an operating system for one hart of a 32-bit RISC-V machine: a page
  allocator, Sv32 address spaces, processes, system calls, drivers for three virtio devices, two file systems, a
  window manager and a shell. Paths are relative to \<^verbatim>\<open>src/\<close>.

  \<^bold>\<open>How the parts interact.\<close> \<^verbatim>\<open>kernel_main\<close> clears \<^verbatim>\<open>.bss\<close>, initialises every component and starts the shell, a kernel
  thread. User programs run in address spaces of their own; every exception and interrupt enters through
  \<^verbatim>\<open>kernel_entry\<close>, which saves the registers and calls \<^verbatim>\<open>handle_trap\<close>. That serves page faults (demand-zero pages and copy on write), system
  calls, and interrupts of the devices. The interrupt handlers of the drivers fill the kernel's event queue and wake
  sleeping processes. The shell takes characters from the event queue, runs commands on the file system, and shows its
  text in a window that the window manager paints into the frame buffer of the GPU driver.

  \<^bold>\<open>Conventions.\<close> A C structure is a record, a pointer into a static table an index, a C integer a machine word where it
  may wrap and an \<open>int\<close> otherwise. Physical memory is a function from addresses to bytes; page tables and page
  frames live in it. Code that can halt returns \<open>halt + 'a\<close> (\<open>kres\<close>): \<open>Inl\<close> is a panic, a deadlock on a spin lock, a failed boot
  or undefined behaviour such as an access outside a buffer, so that a theorem with \<open>Inr\<close> on the right excludes all
  of these. Devices and the firmware are parameters: a \<open>bus\<close> of register reads and writes on an arbitrary state, and
  for the GPU what the device and the other processes do between two reads of a ring index.

  \<^bold>\<open>Theories and sources.\<close>

  \<^item> \<open>Prelude\<close> (\<^verbatim>\<open>kernel/include/common.h\<close>), \<open>Bytes\<close> (buffers, packed structures), \<open>Ring\<close> (circular buffers and the queue
    locales), \<open>Selection\<close> (the selection sort that three functions write out), \<open>Lock\<close> (\<^verbatim>\<open>lock.h\<close>), \<open>Memory\<close> and \<open>Cstr\<close>
    (\<^verbatim>\<open>lib/string.c\<close>), \<open>Linker\<close> (\<^verbatim>\<open>arch/riscv32/kernel.ld\<close>): shared by the rest. \<open>Cstr\<close> shows how many bytes \<^verbatim>\<open>strncpy\<close> writes.
  \<^item> \<open>Page_Alloc\<close> (\<^verbatim>\<open>mm/page_alloc.c\<close>); \<open>Page_Alloc_Inv\<close> and \<open>Page_Alloc_Spec\<close>: the invariant of the free runs, their metadata
    nodes and the reference counts, and the effect of every operation on the references of each page.
  \<^item> \<open>Vm\<close> (\<^verbatim>\<open>mm/vm.c\<close>); \<open>Vm_Spec\<close>, \<open>Vm_Props\<close>: the tables as a translation of addresses, and that mapping and unmapping change it at
    one page. \<open>Address_Space\<close>: what a new address space maps, and that user mode reaches no kernel memory.
  \<^item> \<open>Vma\<close>, \<open>Process_Vm\<close>, \<open>Usercopy\<close> (\<^verbatim>\<open>mm/process_vm.c\<close>, \<^verbatim>\<open>mm/usercopy.c\<close>); \<open>Vma_Spec\<close>: the areas of a process as a set of addresses;
    \<open>Process_Vm_Spec\<close>: page faults and copy on write; \<open>Fork_Spec\<close>: fork shares the pages of the parent.
  \<^item> \<open>Proc\<close>, \<open>Sched\<close>, \<open>Process\<close> (\<^verbatim>\<open>kernel/include/kernel/proc.h\<close>, \<^verbatim>\<open>kernel/process\<close>); \<open>Sched_Spec\<close>: choice, fairness, wake-ups;
    \<open>Process_Spec\<close>: creation, exit, waiting. \<open>Context\<close> (\<^verbatim>\<open>arch/riscv32/context.c\<close>, \<^verbatim>\<open>trap/entry.c\<close>, \<^verbatim>\<open>trap/resume.c\<close>): the assembly code
    instruction by instruction, and that traps and context switches give every register back.
  \<^item> \<open>Syscall\<close>, \<open>Trap\<close> (\<^verbatim>\<open>kernel/syscall\<close>, \<^verbatim>\<open>arch/riscv32/trap/syscall.c\<close>, \<^verbatim>\<open>trap/trap.c\<close>, \<^verbatim>\<open>plic.c\<close>); \<open>Syscall_Spec\<close>, \<open>Trap_Spec\<close>: what a user
    program finds in its registers after a trap, and the two returns of fork; \<open>Fault_Spec\<close>: an illegal access ends the program and changes nothing
    else.
  \<^item> \<open>Event\<close> (\<^verbatim>\<open>kernel/event/event.c\<close>), \<open>Console\<close> and \<open>Console_Spec\<close> (\<^verbatim>\<open>lib/printf.c\<close>, \<^verbatim>\<open>kernel/sbi/sbi.c\<close>): the queues keep
    their promise, decimal output is right.
  \<^item> \<open>Virtio\<close>, \<open>Virtio_Gpu\<close>, \<open>Virtio_Input\<close>, \<open>Virtio_Blk\<close> (\<^verbatim>\<open>drivers/virtio\<close>); \<open>Virtio_Gpu_Spec\<close>, \<open>Virtio_Input_Spec\<close>: for every
    behaviour of the device the drivers return and stay within their buffers; \<open>Virtio_Blk_Spec\<close>: concurrent readers and
    an asynchronous device as a step relation, the invariant of its rings and slots, and that a successful read has the bytes
    of the sector. This is what the block device parameter of \<open>Ext4\<close> stands for.
  \<^item> \<open>Ext4\<close> (\<^verbatim>\<open>fs/ext4.c\<close>), \<open>Ext4_Data\<close>, \<open>Ext4_Spec\<close>: mounting ends, and reading a file agrees with a reference definition of its
    contents. \<open>Ramfs\<close> (\<^verbatim>\<open>fs/fs.c\<close>), \<open>Ramfs_Spec\<close>: invariant, refinement of a map from names to contents, round trip.
  \<^item> \<open>Wm\<close> (\<^verbatim>\<open>kernel/gui/wm.c\<close>); \<open>Wm_Inv\<close>: the invariant; \<open>Wm_Paint\<close>: rendering paints the picture of the state;
    \<open>Wm_Redraw\<close>: what the operations mark as damaged is enough.
  \<^item> \<open>User_Util\<close>, \<open>Shell\<close> (\<^verbatim>\<open>kernel/apps\<close>); \<open>User_Util_Spec\<close>: words of a line, decimal numbers, history; \<open>Shell_Spec\<close>: a line typed at
    the prompt acts on the files as its command acts on a map; \<open>Shell_Input\<close>: keys to characters.
  \<^item> \<open>Boot\<close>, \<open>Boot_Spec\<close> (\<^verbatim>\<open>kernel/main.c\<close>): from any contents of memory the kernel reaches its final loop, the contracts of the components
    hold there, and the shell gets the hart.

  \<^bold>\<open>Interfaces.\<close> The locale \<open>fifo\<close> states the contract of a queue; \<open>fifo_reject\<close> and \<open>fifo_drop\<close> extend it by what happens when it
  is full. They are interpreted by the kernel event queue (\<open>kq\<close>), the keyboard queue (\<open>kbd\<close>) and the input queue of the
  shell (\<open>inq\<close>). The locale \<open>page_source\<close> states what clients rely on when they allocate pages one after the other, and is interpreted
  by the page allocator (\<open>pages\<close>).

  \<^bold>\<open>Loops.\<close> No definition uses fuel. Loops with a bound or a decreasing measure are total functions. Loops that depend on
  outside data (string loops over memory, the directory scan of ext4, the search for a free range, interrupt and
  mouse loops, \<^verbatim>\<open>cat\<close>) are partial functions into \<open>option\<close>, where \<open>None\<close> means that the loop does not end; the properties
  about them state that they return \<open>Some\<close>. A function that sleeps or switches to another process is split there: \<^verbatim>\<open>waitq_sleep\<close>,
  \<^verbatim>\<open>yield\<close>, blocking system calls and \<^verbatim>\<open>blk_read\<close>. What happens in between is arbitrary in the properties, within the
  invariants that the other parts keep.

  \<^bold>\<open>Not modelled.\<close> Messages on the console in functions whose result does not depend on them, the banner; the
  inside of the devices and the firmware, which are not part of the sources; the instruction sequence behind reset and
  the macros around control register instructions; the translation cache of the hart, whose flushes are no-ops of the model;
  interface headers without code; the test program, scripts and documentation. In the window manager integers are
  unbounded, so that its theorems speak of runs in which no sum leaves 32 bits. Memory ordering is that of one hart.
\<close>

end
